(* ===== verification/Prelude.thy ===== *)
theory Prelude
  imports Main "HOL-Library.Word" "HOL-Library.AList" "HOL-Library.Monad_Syntax"
begin

text \<open>
  Shared vocabulary of the development: bytes, the JavaScript reading of
  numbers and containers, and the generic lemmas the component theories use.

  Conventions.  A byte is an \<^typ>\<open>8 word\<close>; a buffer is a list of bytes; a
  JavaScript number that the source uses as an index, a length or a field value
  is a \<^typ>\<open>nat\<close> (or an \<^typ>\<open>int\<close> where it can be negative).  A JavaScript
  \<^verbatim>\<open>Map\<close> is an association list in insertion order: \<^verbatim>\<open>get\<close> is \<^const>\<open>map_of\<close>,
  \<^verbatim>\<open>set\<close> is \<^const>\<open>AList.update\<close> (which keeps the position of a present key and
  appends a new one), \<^verbatim>\<open>delete\<close> is \<^const>\<open>AList.delete\<close>.
\<close>

unbundle bit_operations_syntax

type_synonym byte = "8 word"
type_synonym bytes = "byte list"

named_theorems buffer_simps
  \<open>how reads, writes and lengths of buffers interact\<close>
named_theorems guard_simps
  \<open>characteristic equations of the guards of handlers\<close>

section \<open>Numbers and lists\<close>

lemma digit_inj:
  fixes a b c :: int
  assumes "a * c + b = a' * c + b'" "0 \<le> b" "b < c" "0 \<le> b'" "b' < c"
  shows "a = a' \<and> b = b'"
proof -
  have "(b + a * c) div c = a + b div c" "(b' + a' * c) div c = a' + b' div c"
    using assms by simp_all
  moreover have "b + a * c = b' + a' * c" using assms(1) by (simp add: add.commute)
  ultimately have "a = a'" using assms by (simp add: div_pos_pos_trivial)
  then show ?thesis using assms(1) by simp
qed

lemma take_drop_append_exact [simp]:
  "length xs = n \<Longrightarrow> take n (xs @ ys) = xs"
  "length xs = n \<Longrightarrow> drop n (xs @ ys) = ys"
  by auto

lemma nth_append_off:
  "length xs = n \<Longrightarrow> (xs @ ys) ! (n + i) = ys ! i"
  by (auto simp: nth_append)

lemma drop_length_less:
  "0 < n \<Longrightarrow> xs \<noteq> [] \<Longrightarrow> length (drop n xs) < length xs"
  by (cases xs) auto

lemma list_eq_take_drop3:
  "take n xs @ take m (drop n xs) @ drop (n + m) xs = xs"
  by (metis add.commute append_take_drop_id drop_drop)

lemma sum_list_filter_le:
  "sum_list (map f (filter P xs)) \<le> sum_list (map (f :: 'a \<Rightarrow> nat) xs)"
  by (induction xs) auto

lemma sum_list_remove_split:
  "sum_list (map (f :: 'a \<Rightarrow> nat) (filter P xs))
    + sum_list (map f (filter (\<lambda>x. \<not> P x) xs)) = sum_list (map f xs)"
  by (induction xs) auto

lemma find_upt_Some:
  assumes "List.find P [s..<n] = Some i"
  shows "s \<le> i \<and> i < n \<and> P i \<and> (\<forall>j. s \<le> j \<longrightarrow> j < i \<longrightarrow> \<not> P j)"
proof -
  from assms obtain k where k: "k < n - s" "P (s + k)" "i = s + k" "\<And>j. j < k \<Longrightarrow> \<not> P (s + j)"
    by (auto simp: find_Some_iff)
  have "\<not> P j" if "s \<le> j" "j < i" for j
    using k(4)[of "j - s"] k(3) that by simp
  then show ?thesis using k by auto
qed

section \<open>JavaScript maps as insertion-ordered association lists\<close>

abbreviation keys_of :: "('k \<times> 'v) list \<Rightarrow> 'k list" where
  "keys_of m \<equiv> map fst m"

abbreviation vals_of :: "('k \<times> 'v) list \<Rightarrow> 'v list" where
  "vals_of m \<equiv> map snd m"

lemma om_get_set [simp]:
  "map_of (AList.update k v m) k' = (if k' = k then Some v else map_of m k')"
  by (simp add: AList.update_conv)

lemma om_get_delete [simp]:
  "map_of (AList.delete k m) k' = (if k' = k then None else map_of m k')"
  by (simp add: AList.delete_conv)

lemma om_set_fresh:
  "map_of m k = None \<Longrightarrow> AList.update k v m = m @ [(k, v)]"
  by (induction m) (auto split: if_splits)

lemma om_keys_set:
  "keys_of (AList.update k v m) =
     (if k \<in> set (keys_of m) then keys_of m else keys_of m @ [k])"
  by (rule AList.update_keys)

lemma om_distinct_set [simp]:
  "distinct (keys_of m) \<Longrightarrow> distinct (keys_of (AList.update k v m))"
  by (rule AList.distinct_update)

lemma om_distinct_delete [simp]:
  "distinct (keys_of m) \<Longrightarrow> distinct (keys_of (AList.delete k m))"
  by (rule AList.distinct_delete)

lemma om_delete_fresh:
  "map_of m k = None \<Longrightarrow> AList.delete k m = m"
  by (induction m) (auto split: if_splits)

lemma om_delete_length:
  "map_of m k = Some v \<Longrightarrow> distinct (keys_of m) \<Longrightarrow>
     length (AList.delete k m) + 1 = length m"
proof (induction m)
  case (Cons p m)
  show ?case
  proof (cases "fst p = k")
    case True
    then have "map_of m k = None"
      using Cons.prems by (cases p) (auto simp: map_of_eq_None_iff)
    then show ?thesis
      using True Cons.prems by (cases p) (simp add: om_delete_fresh)
  next
    case False
    then show ?thesis using Cons by (cases p) auto
  qed
qed simp

text \<open>How a sum over the values of a map moves when one entry is set or deleted.\<close>

lemma om_sum_delete:
  fixes f :: "'v \<Rightarrow> nat"
  assumes "distinct (keys_of m)" "map_of m k = Some v"
  shows "sum_list (map (f \<circ> snd) (AList.delete k m)) + f v = sum_list (map (f \<circ> snd) m)"
  using assms
proof (induction m)
  case (Cons p m)
  show ?case
  proof (cases "fst p = k")
    case True
    then have "map_of m k = None"
      using Cons.prems by (cases p) (auto simp: map_of_eq_None_iff)
    then show ?thesis
      using True Cons.prems by (cases p) (simp add: om_delete_fresh)
  next
    case False
    then show ?thesis using Cons by (cases p) auto
  qed
qed simp

lemma om_sum_set_present:
  fixes f :: "'v \<Rightarrow> nat"
  assumes "distinct (keys_of m)" "map_of m k = Some w"
  shows "sum_list (map (f \<circ> snd) (AList.update k v m)) + f w
           = sum_list (map (f \<circ> snd) m) + f v"
  using assms
proof (induction m)
  case (Cons p m)
  show ?case
  proof (cases "fst p = k")
    case True
    then show ?thesis using Cons.prems by (cases p) auto
  next
    case False
    then show ?thesis using Cons by (cases p) auto
  qed
qed simp

lemma om_sum_set_fresh:
  fixes f :: "'v \<Rightarrow> nat"
  assumes "map_of m k = None"
  shows "sum_list (map (f \<circ> snd) (AList.update k v m)) = sum_list (map (f \<circ> snd) m) + f v"
  using assms by (simp add: om_set_fresh)

lemmas om_sum = om_sum_delete om_sum_set_present om_sum_set_fresh

lemma keys_delete [simp]: "fst ` set (AList.delete k m) = fst ` set m - {k}"
  by (induction m) auto

lemma map_of_key: "map_of m k = None \<longleftrightarrow> k \<notin> fst ` set m"
  by (simp add: map_of_eq_None_iff)

lemma sum_keys_delete:
  fixes f :: "'k \<Rightarrow> nat"
  assumes "distinct (keys_of m)" "k \<in> fst ` set m"
  shows "sum_list (map (f \<circ> fst) (AList.delete k m)) + f k = sum_list (map (f \<circ> fst) m)"
  using assms
proof (induction m)
  case (Cons p m)
  show ?case
  proof (cases "fst p = k")
    case True
    then have "AList.delete k m = m"
      using Cons.prems by (intro om_delete_fresh) (auto simp: map_of_eq_None_iff)
    then show ?thesis using True by simp
  next
    case False
    then show ?thesis using Cons by simp
  qed
qed simp

lemma sum_keys_cong:
  "(\<And>x. x \<in> fst ` set m \<Longrightarrow> f x = g x) \<Longrightarrow>
     sum_list (map (f \<circ> fst) m) = sum_list (map (g \<circ> fst) m)"
  by (auto intro: arg_cong[where f = sum_list])


section \<open>Cutting a list into pieces\<close>

function chop :: "nat \<Rightarrow> 'a list \<Rightarrow> 'a list list" where
  "chop n xs = (if n = 0 \<or> length xs \<le> n then [xs] else take n xs # chop n (drop n xs))"
  by pat_completeness auto
termination by (relation "measure (\<lambda>(n, xs). length xs)") auto

declare chop.simps [simp del]

lemma chop_last: "length xs \<le> n \<Longrightarrow> chop n xs = [xs]"
  by (subst chop.simps) simp

lemma chop_step: "0 < n \<Longrightarrow> n < length xs \<Longrightarrow> chop n xs = take n xs # chop n (drop n xs)"
  by (subst chop.simps) simp

lemma chop_nonempty [simp]: "chop n xs \<noteq> []"
  by (subst chop.simps) simp

lemma concat_chop [simp]: "List.concat (chop n xs) = xs"
proof (induction n xs rule: chop.induct)
  case (1 n xs)
  show ?case
  proof (cases "n = 0 \<or> length xs \<le> n")
    case True
    then have "chop n xs = [xs]" by (subst chop.simps) simp
    then show ?thesis by simp
  next
    case False
    then show ?thesis using 1 by (simp add: chop_step)
  qed
qed

lemma chop_lengths:
  "0 < n \<Longrightarrow> ys \<in> set (chop n xs) \<Longrightarrow> length ys \<le> n \<and> (xs \<noteq> [] \<longrightarrow> ys \<noteq> [])"
proof (induction n xs rule: chop.induct)
  case (1 n xs)
  show ?case
  proof (cases "length xs \<le> n")
    case True
    then show ?thesis using 1 by (simp add: chop_last)
  next
    case False
    then have ne: "drop n xs \<noteq> []" "xs \<noteq> []" by auto
    from False 1(3) chop_step[OF 1(2), of xs]
    consider "ys = take n xs" | "ys \<in> set (chop n (drop n xs))" by auto
    then show ?thesis
    proof cases
      case 1
      then show ?thesis using ne \<open>0 < n\<close> by simp
    next
      case 2
      then show ?thesis using 1(1)[OF _ \<open>0 < n\<close> 2] False \<open>0 < n\<close> ne by simp
    qed
  qed
qed

lemma chop_count: "0 < n \<Longrightarrow> length (chop n xs) \<le> Suc (length xs div n)"
proof (induction n xs rule: chop.induct)
  case (1 n xs)
  show ?case
  proof (cases "length xs \<le> n")
    case True
    then show ?thesis by (simp add: chop_last)
  next
    case False
    then have "length (chop n (drop n xs)) \<le> Suc ((length xs - n) div n)"
      using 1 by simp
    also have "\<dots> = length xs div n" using False 1(2) by (simp add: le_div_geq)
    finally show ?thesis using False 1(2) by (simp add: chop_step)
  qed
qed

end
