(* ===== verification/Buffer_Shim.thy ===== *)
theory Buffer_Shim
  imports Prelude
begin

text \<open>
  \<^verbatim>\<open>platform/buffer-shim.ts\<close>: the Buffer class over a \<^verbatim>\<open>Uint8Array\<close>, restricted to
  what the protocol code calls.  A read outside the buffer yields \<^verbatim>\<open>undefined\<close>,
  which a bitwise operator coerces to 0 (\<open>at0\<close>) and which is unequal to every
  number (\<open>at_opt\<close>); a write outside the buffer is ignored (\<^const>\<open>list_update\<close>).
  \<^verbatim>\<open>TypedArray.set\<close> past the end throws a RangeError, here \<^const>\<open>None\<close>.
\<close>

section \<open>Reads and writes\<close>

definition at_opt :: "bytes \<Rightarrow> nat \<Rightarrow> byte option" where
  "at_opt b i = (if i < length b then Some (b ! i) else None)"

definition at0 :: "bytes \<Rightarrow> nat \<Rightarrow> byte" where
  "at0 b i = (if i < length b then b ! i else 0)"

abbreviation put :: "bytes \<Rightarrow> nat \<Rightarrow> byte \<Rightarrow> bytes" where
  "put b i v \<equiv> b[i := v]"

definition subarray :: "bytes \<Rightarrow> nat \<Rightarrow> nat \<Rightarrow> bytes" where
  "subarray b s e = take (e - s) (drop s b)"

abbreviation alloc :: "nat \<Rightarrow> bytes" where
  "alloc n \<equiv> replicate n 0"

definition alloc_fill :: "nat \<Rightarrow> byte \<Rightarrow> bytes" where
  "alloc_fill sz fill = replicate sz fill"

text \<open>The 32-bit \<^verbatim>\<open>|\<close> and \<^verbatim>\<open><<\<close> of JavaScript; \<^verbatim>\<open>>>> 0\<close> reads the result unsigned.\<close>

definition or_shift :: "byte \<Rightarrow> nat \<Rightarrow> 32 word" where
  "or_shift b k = push_bit k (ucast b)"

definition readUInt16LE :: "bytes \<Rightarrow> nat \<Rightarrow> nat" where
  "readUInt16LE b off = unat (or_shift (at0 b off) 0 OR or_shift (at0 b (off + 1)) 8)"

definition readUInt32LE :: "bytes \<Rightarrow> nat \<Rightarrow> nat" where
  "readUInt32LE b off =
     unat (((or_shift (at0 b off) 0 OR or_shift (at0 b (off + 1)) 8)
        OR or_shift (at0 b (off + 2)) 16) OR or_shift (at0 b (off + 3)) 24)"

definition readUInt32BE :: "bytes \<Rightarrow> nat \<Rightarrow> nat" where
  "readUInt32BE b off =
     unat (((or_shift (at0 b off) 24 OR or_shift (at0 b (off + 1)) 16)
        OR or_shift (at0 b (off + 2)) 8) OR or_shift (at0 b (off + 3)) 0)"

text \<open>\<^verbatim>\<open>(value >>> k) & 0xff\<close>: the shift first reduces its operand to 32 bits.\<close>

definition byte_of :: "nat \<Rightarrow> nat \<Rightarrow> byte" where
  "byte_of v k = ucast (drop_bit k (of_nat v :: 32 word))"

definition writeUInt8 :: "nat \<Rightarrow> nat \<Rightarrow> bytes \<Rightarrow> bytes" where
  "writeUInt8 v off b = put b off (byte_of v 0)"

definition writeUInt16LE :: "nat \<Rightarrow> nat \<Rightarrow> bytes \<Rightarrow> bytes" where
  "writeUInt16LE v off b = put (put b off (byte_of v 0)) (off + 1) (byte_of v 8)"

definition writeUInt32LE :: "nat \<Rightarrow> nat \<Rightarrow> bytes \<Rightarrow> bytes" where
  "writeUInt32LE v off b =
     put (put (put (put b off (byte_of v 0)) (off + 1) (byte_of v 8))
       (off + 2) (byte_of v 16)) (off + 3) (byte_of v 24)"

text \<open>\<^verbatim>\<open>writeInt32LE\<close>: \<^verbatim>\<open>value >>> 0\<close> is the value modulo 2^32.\<close>

definition writeInt32LE :: "int \<Rightarrow> nat \<Rightarrow> bytes \<Rightarrow> bytes" where
  "writeInt32LE v off b = writeUInt32LE (nat (v mod 2 ^ 32)) off b"

section \<open>Whole-buffer operations\<close>

text \<open>\<^verbatim>\<open>src.copy(target, targetStart, sourceStart, sourceEnd)\<close>: the updated target and the
  number of bytes copied.  A start beyond the target's end makes \<^verbatim>\<open>target.set\<close> throw.\<close>

definition copy_range :: "bytes \<Rightarrow> bytes \<Rightarrow> nat \<Rightarrow> nat \<Rightarrow> nat \<Rightarrow> (bytes \<times> nat) option" where
  "copy_range b target ts ss se =
     (let src = subarray b ss se in
      if length target < ts then None
      else let slice = take (length target - ts) src in
        Some (take ts target @ slice @ drop (ts + length slice) target, length slice))"

text \<open>The statement \<^verbatim>\<open>src.copy(target, at)\<close>; \<open>copy_at\<close> is the form for a literal offset inside
  a buffer of literal size, where no RangeError can occur.\<close>

definition copy_to :: "bytes \<Rightarrow> nat \<Rightarrow> bytes \<Rightarrow> bytes option" where
  "copy_to b ts target = map_option fst (copy_range b target ts 0 (length b))"

definition copy_at :: "bytes \<Rightarrow> nat \<Rightarrow> bytes \<Rightarrow> bytes" where
  "copy_at b ts target = (case copy_to b ts target of None \<Rightarrow> target | Some t \<Rightarrow> t)"

text \<open>\<^verbatim>\<open>concat(list, totalLength)\<close>: with no total the lengths are summed; with one, the
  output is cut at it or left zero-filled beyond the data.\<close>

fun concat_into :: "bytes list \<Rightarrow> nat \<Rightarrow> bytes \<Rightarrow> nat \<Rightarrow> bytes" where
  "concat_into [] tot out off = out"
| "concat_into (x # xs) tot out off =
    (if tot \<le> off then out
     else if off + length x \<le> tot
       then concat_into xs tot (take off out @ x @ drop (off + length x) out) (off + length x)
     else take off out @ take (tot - off) x @ drop (off + (tot - off)) out)"

definition buffer_concat :: "bytes list \<Rightarrow> nat option \<Rightarrow> bytes" where
  "buffer_concat xs tot =
     (let n = (case tot of None \<Rightarrow> sum_list (map length xs) | Some t \<Rightarrow> t)
      in concat_into xs n (alloc n) 0)"

text \<open>\<^verbatim>\<open>indexOf\<close> of a byte sequence: the first position at or after \<open>start\<close> where all bytes
  of the value match.\<close>

fun match_len :: "bytes \<Rightarrow> bytes \<Rightarrow> nat" where
  "match_len (x # xs) (v # vs) = (if x = v then Suc (match_len xs vs) else 0)"
| "match_len _ _ = 0"

definition indexOf :: "bytes \<Rightarrow> bytes \<Rightarrow> nat \<Rightarrow> nat option" where
  "indexOf b pat start =
     (if pat = [] then Some (min start (length b))
      else if length b < length pat then None
      else List.find (\<lambda>i. match_len (drop i b) pat = length pat)
             [start ..< Suc (length b - length pat)])"

text \<open>\<^verbatim>\<open>TypedArray.set(src, at)\<close> where \<open>src\<close> fits behind \<open>at\<close>, and \<^verbatim>\<open>fill(v, from, to)\<close>.\<close>

definition set_at :: "bytes \<Rightarrow> nat \<Rightarrow> bytes \<Rightarrow> bytes" where
  "set_at b at src = take at b @ src @ drop (at + length src) b"

definition fill_range :: "bytes \<Rightarrow> byte \<Rightarrow> nat \<Rightarrow> nat \<Rightarrow> bytes" where
  "fill_range b v from to =
     take from b @ replicate (min to (length b) - from) v @ drop (max from to) b"

lemma set_at_length [simp]: "at + length src \<le> length b \<Longrightarrow> length (set_at b at src) = length b"
  by (simp add: set_at_def)

text \<open>\<^verbatim>\<open>for (i...) r[at + i] = vs[i]\<close>.\<close>

fun put_all :: "bytes \<Rightarrow> nat \<Rightarrow> nat list \<Rightarrow> bytes" where
  "put_all r i [] = r"
| "put_all r i (v # vs) = put_all (put r i (of_nat v)) (Suc i) vs"

section \<open>Strings\<close>

text \<open>\<^verbatim>\<open>Buffer.from(s, 'ascii')\<close>: one byte per UTF-16 code unit, its low eight bits; a
  \<^typ>\<open>string\<close> holds code units up to 255.\<close>

definition ascii_bytes :: "string \<Rightarrow> bytes" where
  "ascii_bytes s = map (\<lambda>c. of_nat (of_char c)) s"

definition ascii_string :: "bytes \<Rightarrow> string" where
  "ascii_string b = map (\<lambda>x. char_of (unat x)) b"

definition hex_digit :: "nat \<Rightarrow> char" where
  "hex_digit d = (''0123456789abcdef'') ! d"

definition to_hex :: "bytes \<Rightarrow> string" where
  "to_hex b = List.concat (map (\<lambda>x. [hex_digit (unat x div 16), hex_digit (unat x mod 16)]) b)"

definition hex_value :: "char \<Rightarrow> nat option" where
  "hex_value c =
     (let n = of_char c :: nat in
      if 48 \<le> n \<and> n \<le> 57 then Some (n - 48)
      else if 97 \<le> n \<and> n \<le> 102 then Some (n - 87)
      else if 65 \<le> n \<and> n \<le> 70 then Some (n - 55)
      else None)"

text \<open>\<^verbatim>\<open>parseInt(s, 16)\<close> of two characters stored into a \<^verbatim>\<open>Uint8Array\<close>: \<^verbatim>\<open>parseInt\<close> stops at the
  first non-digit, and NaN is stored as 0.  (Signs and white space, which \<^verbatim>\<open>parseInt\<close>
  also accepts, are outside the hex strings the program writes and are not modelled.)\<close>

definition hex_pair :: "char \<Rightarrow> char \<Rightarrow> byte" where
  "hex_pair c d = (case hex_value c of
       None \<Rightarrow> 0
     | Some h \<Rightarrow> (case hex_value d of None \<Rightarrow> of_nat h | Some l \<Rightarrow> of_nat (16 * h + l)))"

fun from_hex :: "string \<Rightarrow> bytes" where
  "from_hex (c # d # s) = hex_pair c d # from_hex s"
| "from_hex _ = []"

section \<open>Laws of reads and writes\<close>

lemma length_put [buffer_simps, simp]:
  "length (writeUInt8 v off b) = length b"
  "length (writeUInt16LE v off b) = length b"
  "length (writeUInt32LE v off b) = length b"
  by (simp_all add: writeUInt8_def writeUInt16LE_def writeUInt32LE_def)

lemma at0_append [buffer_simps]:
  "at0 (xs @ ys) i = (if i < length xs then at0 xs i else at0 ys (i - length xs))"
  by (auto simp: at0_def nth_append)

lemma at0_drop [buffer_simps]: "at0 (drop n xs) i = at0 xs (n + i)"
  by (auto simp: at0_def)

lemma at0_take: "i < n \<Longrightarrow> at0 (take n xs) i = at0 xs i"
  by (auto simp: at0_def)

lemma at0_Cons [buffer_simps, simp]:
  "at0 (x # xs) 0 = x" "at0 (x # xs) (Suc i) = at0 xs i" "at0 [] i = 0"
  by (auto simp: at0_def)

lemma at0_numeral [buffer_simps, simp]:
  "at0 (x # xs) (numeral k) = at0 xs (pred_numeral k)"
  by (simp add: numeral_eq_Suc)

lemma at0_put [buffer_simps]:
  "at0 (put b i v) j = (if i = j \<and> j < length b then v else at0 b j)"
  by (auto simp: at0_def)

lemma at0_replicate [buffer_simps, simp]: "at0 (replicate n 0) i = 0"
  by (auto simp: at0_def)

lemma at_opt_eq: "at_opt b i = Some x \<longleftrightarrow> i < length b \<and> b ! i = x"
  by (simp add: at_opt_def)

lemma subarray_length [buffer_simps]: "length (subarray b s e) = min (e - s) (length b - s)"
  by (simp add: subarray_def)

lemma subarray_full [simp]: "subarray b 0 (length b) = b"
  by (simp add: subarray_def)

lemma byte_less: "unat (a :: byte) < 256"
  using unsigned_less[of a] by simp

lemma unat_or_shift:
  "unat (or_shift a 0) = unat a" 
  "unat (or_shift a 8) = 256 * unat a"
  "unat (or_shift a 16) = 65536 * unat a" 
  "unat (or_shift a 24) = 16777216 * unat a" 
proof -
  have "unat (or_shift a k) = 2 ^ k * unat a" if "k \<le> 24" for k
  proof -
    have "(2 ^ k * 2 ^ 8 :: nat) \<le> 2 ^ 32"
      using power_increasing[OF that, of "2 :: nat"] by simp
    then have "2 ^ k * unat a < 2 ^ 32"
      using byte_less[of a] by (intro less_le_trans[OF mult_strict_left_mono[of _ 256]]) simp_all
    then show ?thesis
      unfolding or_shift_def unsigned_push_bit_eq unsigned_ucast_eq
      using byte_less[of a] by (simp add: push_bit_eq_mult take_bit_nat_eq_self mult.commute)
  qed
  from this[of 0] this[of 8] this[of 16] this[of 24]
  show 
  "unat (or_shift a 0) = unat a" 
  "unat (or_shift a 8) = 256 * unat a"
  "unat (or_shift a 16) = 65536 * unat a" 
  "unat (or_shift a 24) = 16777216 * unat a" by simp_all
qed

lemma or_disjoint_nat:
  assumes "(x :: nat) < 2 ^ k"
  shows "x OR 2 ^ k * y = x + 2 ^ k * y"
proof -
  have "take_bit k x AND push_bit k y = 0"
    by (rule bit_eqI) (auto simp: bit_simps)
  then have "x AND 2 ^ k * y = 0"
    using assms by (simp add: take_bit_nat_eq_self push_bit_eq_mult mult.commute)
  then show ?thesis by (simp add: disjunctive_add_eq_or)
qed

lemma readUInt16LE_sum:
  "readUInt16LE b off = unat (at0 b off) + 256 * unat (at0 b (off + 1))"
  using byte_less[of "at0 b off"] or_disjoint_nat[of _ 8]
  by (simp add: readUInt16LE_def unsigned_or_eq unat_or_shift)

lemma or3: 
  assumes "x < 256" "y < 256" "z < 256"
  shows "((x OR 256 * y) OR 65536 * z) OR 16777216 * w = (x + 256 * y + 65536 * z + 16777216 * w :: nat)"
proof -
  have "x OR 256 * y = x + 256 * y" using or_disjoint_nat[of x 8] assms by simp
  moreover have "(x + 256 * y) OR 65536 * z = x + 256 * y + 65536 * z"
    using or_disjoint_nat[of "x + 256 * y" 16] assms by simp
  moreover have "(x + 256 * y + 65536 * z) OR 16777216 * w = x + 256 * y + 65536 * z + 16777216 * w"
    using or_disjoint_nat[of "x + 256 * y + 65536 * z" 24] assms by simp
  ultimately show ?thesis by simp
qed

lemma readUInt32LE_sum:
  "readUInt32LE b off = unat (at0 b off) + 256 * unat (at0 b (off + 1))
     + 65536 * unat (at0 b (off + 2)) + 16777216 * unat (at0 b (off + 3))"
  unfolding readUInt32LE_def unsigned_or_eq unat_or_shift
  by (rule or3) (rule byte_less)+

lemma unat_byte_of:
  assumes "k + 8 \<le> 32" shows "unat (byte_of v k) = v div 2 ^ k mod 256"
proof -
  have "unat (byte_of v k) = take_bit 8 (drop_bit k (take_bit 32 v))"
    unfolding byte_of_def unsigned_ucast_eq unsigned_drop_bit_eq unsigned_of_nat
    using assms by (simp add: take_bit_drop_bit)
  also have "\<dots> = take_bit 8 (drop_bit k v)"
    using assms by (intro bit_eqI) (auto simp: bit_simps)
  finally show ?thesis by (simp add: take_bit_eq_mod drop_bit_eq_div)
qed

lemma byte_of_vals:
  "unat (byte_of v 0) = v mod 256"
  "unat (byte_of v 8) = v div 256 mod 256"
  "unat (byte_of v 16) = v div 65536 mod 256"
  "unat (byte_of v 24) = v div 16777216 mod 256"
  by (simp_all add: unat_byte_of)

lemma byte_of_nat:
  "byte_of v 0 = of_nat (v mod 256)"
  "byte_of v 8 = of_nat (v div 256 mod 256)"
  "byte_of v 16 = of_nat (v div 65536 mod 256)"
  "byte_of v 24 = of_nat (v div 16777216 mod 256)"
  by (simp_all add: word_unat_eq_iff byte_of_vals unsigned_of_nat take_bit_nat_eq_self)

lemma byte_digits16: "v mod 256 + 256 * (v div 256 mod 256) = v mod (65536 :: nat)"
  using mod_mult2_eq[of v 256 256] by simp

lemma byte_digits32:
  "v mod 256 + 256 * (v div 256 mod 256) + 65536 * (v div 65536 mod 256)
     + 16777216 * (v div 16777216 mod 256) = v mod (4294967296 :: nat)"
  using mod_mult2_eq[of v 256 256] mod_mult2_eq[of v 65536 256] mod_mult2_eq[of v 16777216 256]
  by simp

lemma at0_writes [buffer_simps]:
  "at0 (writeUInt8 v off b) j = (if j = off \<and> off < length b then byte_of v 0 else at0 b j)"
  "at0 (writeUInt16LE v off b) j =
     (if j = off \<and> off < length b then byte_of v 0
      else if j = off + 1 \<and> off + 1 < length b then byte_of v 8 else at0 b j)"
  "at0 (writeUInt32LE v off b) j =
     (if j = off \<and> off < length b then byte_of v 0
      else if j = off + 1 \<and> off + 1 < length b then byte_of v 8
      else if j = off + 2 \<and> off + 2 < length b then byte_of v 16
      else if j = off + 3 \<and> off + 3 < length b then byte_of v 24 else at0 b j)"
  by (auto simp: writeUInt8_def writeUInt16LE_def writeUInt32LE_def at0_put)

lemma read16_write16 [buffer_simps]:
  "off + 1 < length b \<Longrightarrow> readUInt16LE (writeUInt16LE v off b) off = v mod 65536"
  by (simp add: readUInt16LE_sum at0_writes byte_of_vals byte_digits16)

lemma read32_write32 [buffer_simps]:
  "off + 3 < length b \<Longrightarrow> readUInt32LE (writeUInt32LE v off b) off = v mod 4294967296"
  by (simp add: readUInt32LE_sum at0_writes byte_of_vals byte_digits32)

lemma readUInt16LE_less: "readUInt16LE b off < 65536"
  using byte_less[of "at0 b off"] byte_less[of "at0 b (off + 1)"] by (simp add: readUInt16LE_sum)

lemma readUInt32LE_less: "readUInt32LE b off < 4294967296"
  using byte_less[of "at0 b off"] byte_less[of "at0 b (off + 1)"]
    byte_less[of "at0 b (off + 2)"] byte_less[of "at0 b (off + 3)"]
  by (simp add: readUInt32LE_sum)

section \<open>Laws of copies, concatenation and search\<close>

lemma copy_to_eq:
  "copy_to b ts t = (if length t < ts then None
     else Some (take ts t @ take (length t - ts) b @ drop (ts + length b) t))"
  by (auto simp: copy_to_def copy_range_def Let_def min_def)

lemma copy_at_eq:
  "ts \<le> length t \<Longrightarrow>
     copy_at b ts t = take ts t @ take (length t - ts) b @ drop (ts + length b) t"
  by (simp add: copy_at_def copy_to_eq)

lemma length_copy_at [buffer_simps, simp]:
  "ts \<le> length t \<Longrightarrow> length (copy_at b ts t) = length t"
  by (simp add: copy_at_eq)

lemma at0_copy_at [buffer_simps]:
  "ts \<le> length t \<Longrightarrow>
     at0 (copy_at b ts t) j =
       (if ts \<le> j \<and> j < ts + length b \<and> j < length t then b ! (j - ts) else at0 t j)"
  by (auto simp: copy_at_eq at0_def nth_append min_def)

lemma length_put_all [buffer_simps, simp]: "length (put_all b i vs) = length b"
  by (induction b i vs rule: put_all.induct) auto

lemma at0_put_all [buffer_simps]:
  "at0 (put_all b i vs) j =
     (if i \<le> j \<and> j < i + length vs \<and> j < length b then of_nat (vs ! (j - i)) else at0 b j)"
proof (induction b i vs rule: put_all.induct)
  case (2 b i v vs)
  then show ?case by (cases "j = i") (auto simp: at0_put nth_Cons')
qed auto

lemma concat_into_eq:
  assumes "off \<le> tot" "length out = tot" "drop off out = alloc (tot - off)"
  shows "concat_into xs tot out off = take tot (take off out @ List.concat xs @ alloc tot)"
  using assms
proof (induction xs arbitrary: out off)
  case Nil
  then show ?case by (simp add: min_def) (metis append_take_drop_id)
next
  case (Cons x xs)
  let ?out = "take off out @ x @ drop (off + length x) out"
  consider (full) "tot \<le> off" | (fits) "off < tot" "off + length x \<le> tot"
    | (cut) "off < tot" "tot < off + length x" by linarith
  then show ?case
  proof cases
    case full
    then show ?thesis using Cons.prems by simp
  next
    case fits
    have "drop (off + length x) out = alloc (tot - (off + length x))"
      using Cons.prems(3) by (metis drop_drop add.commute diff_diff_left drop_replicate)
    then have "concat_into xs tot ?out (off + length x)
        = take tot (take (off + length x) ?out @ List.concat xs @ alloc tot)"
      using fits Cons.prems by (intro Cons.IH) (auto simp: min_def)
    then show ?thesis using fits Cons.prems by (simp add: min_def)
  next
    case cut
    then show ?thesis using Cons.prems by (simp add: min_def)
  qed
qed

lemma buffer_concat_None [buffer_simps, simp]: "buffer_concat xs None = List.concat xs"
  by (simp add: buffer_concat_def concat_into_eq length_concat)

lemma buffer_concat_Some:
  "buffer_concat xs (Some t) = take t (List.concat xs @ alloc t)"
  by (simp add: buffer_concat_def concat_into_eq)

lemma match_len_prefix: "match_len xs vs = length vs \<longleftrightarrow> take (length vs) xs = vs"
  by (induction xs vs rule: match_len.induct) auto

text \<open>\<^verbatim>\<open>indexOf\<close> returns the least position where the pattern occurs.\<close>

lemma indexOf_Some:
  assumes "pat \<noteq> []" "indexOf b pat start = Some i"
  shows "start \<le> i" "take (length pat) (drop i b) = pat" "i + length pat \<le> length b"
    and "\<And>j. start \<le> j \<Longrightarrow> j < i \<Longrightarrow> take (length pat) (drop j b) \<noteq> pat"
  using assms
  by (auto simp: indexOf_def match_len_prefix split: if_splits simp del: upt_Suc
      dest!: find_upt_Some)

lemma indexOf_None:
  assumes "pat \<noteq> []" "indexOf b pat start = None" "start \<le> i"
  shows "take (length pat) (drop i b) \<noteq> pat"
proof
  assume *: "take (length pat) (drop i b) = pat"
  then have "length pat \<le> length b - i" by (metis length_drop length_take min.cobounded1 min.commute)
  moreover have "0 < length pat" using assms(1) by simp
  ultimately have "i < Suc (length b - length pat)" "length pat \<le> length b" by arith+
  then show False
    using assms * by (auto simp: indexOf_def find_None_iff match_len_prefix)
qed

end
