(* ===== verification/Cora_Protocol.thy ===== *)
theory Cora_Protocol
  imports Buffer_Shim
begin

text \<open>
  \<^verbatim>\<open>cora/protocol.ts\<close>: the wire constants of the CORA protocol, by their names in
  the source.  They are abbreviations, so that every proof sees the number.
\<close>

abbreviation (input) ELGATO_VID :: nat where "ELGATO_VID \<equiv> 0x0fd9"
abbreviation (input) ELGATO_PKT_SIZE_RX :: nat where "ELGATO_PKT_SIZE_RX \<equiv> 1024"
abbreviation (input) ELGATO_PKT_SIZE_TX :: nat where "ELGATO_PKT_SIZE_TX \<equiv> 512"
abbreviation (input) ELGATO_KEEPALIVE_MS :: nat where "ELGATO_KEEPALIVE_MS \<equiv> 2000"
abbreviation (input) ELGATO_IMAGE_HEADER_SIZE :: nat where "ELGATO_IMAGE_HEADER_SIZE \<equiv> 8"
abbreviation (input) NETWORK_DOCK_PID :: nat where "NETWORK_DOCK_PID \<equiv> 0xffff"
abbreviation (input) KEEPALIVE_PAYLOAD_SIZE :: nat where "KEEPALIVE_PAYLOAD_SIZE \<equiv> 32"
abbreviation (input) MAX_RECEIVE_BUFFER :: nat where "MAX_RECEIVE_BUFFER \<equiv> 131072"
abbreviation (input) MAX_IMAGE_ASSEMBLY_BYTES :: nat where "MAX_IMAGE_ASSEMBLY_BYTES \<equiv> 1048576"
abbreviation (input) MAX_IMAGE_ASSEMBLY_CHUNKS :: nat where "MAX_IMAGE_ASSEMBLY_CHUNKS \<equiv> 4096"
abbreviation (input) MAX_TOTAL_ASSEMBLY_BYTES :: nat where "MAX_TOTAL_ASSEMBLY_BYTES \<equiv> 8388608"
abbreviation (input) ASSEMBLY_STALE_MS :: nat where "ASSEMBLY_STALE_MS \<equiv> 30000"
abbreviation (input) CHILD_CAPS_VERSION :: nat where "CHILD_CAPS_VERSION \<equiv> 0x0200"
abbreviation (input) CHILD_CAPS_LAYOUT_TYPE :: nat where "CHILD_CAPS_LAYOUT_TYPE \<equiv> 0x02"
abbreviation (input) CHILD_CAPS_SERIAL_MAX_LEN :: nat where "CHILD_CAPS_SERIAL_MAX_LEN \<equiv> 30"
abbreviation (input) MANUFACTURER_STRING :: string where "MANUFACTURER_STRING \<equiv> ''Elgato''"
abbreviation (input) SECONDARY_DETECT_RESPONSE_SIZE :: nat where "SECONDARY_DETECT_RESPONSE_SIZE \<equiv> 8"
abbreviation (input) SERIAL_REPORT_SIZE :: nat where "SERIAL_REPORT_SIZE \<equiv> 32"
abbreviation (input) DEVICE_INFO_REPORT_SIZE :: nat where "DEVICE_INFO_REPORT_SIZE \<equiv> 32"
abbreviation (input) DEVICE_INFO_VID_OFFSET :: nat where "DEVICE_INFO_VID_OFFSET \<equiv> 2"
abbreviation (input) DEVICE_INFO_PID_OFFSET :: nat where "DEVICE_INFO_PID_OFFSET \<equiv> 4"
abbreviation (input) FW_VERSION_FIELD_LEN :: nat where "FW_VERSION_FIELD_LEN \<equiv> 8"
abbreviation (input) CORA_FW_VERSION_OFFSET :: nat where "CORA_FW_VERSION_OFFSET \<equiv> 8"
abbreviation (input) CORA_SERIAL_LEN_OFFSET :: nat where "CORA_SERIAL_LEN_OFFSET \<equiv> 3"
abbreviation (input) CORA_SERIAL_DATA_OFFSET :: nat where "CORA_SERIAL_DATA_OFFSET \<equiv> 4"
abbreviation (input) KEY_EVENT_STATE_OFFSET :: nat where "KEY_EVENT_STATE_OFFSET \<equiv> 4"
abbreviation (input) RECONNECT_DELAY_MS :: nat where "RECONNECT_DELAY_MS \<equiv> 2000"
abbreviation (input) IMAGE_CHUNK_KEY_OFFSET :: nat where "IMAGE_CHUNK_KEY_OFFSET \<equiv> 2"
abbreviation (input) IMAGE_CHUNK_FLAG_OFFSET :: nat where "IMAGE_CHUNK_FLAG_OFFSET \<equiv> 3"
abbreviation (input) IMAGE_CHUNK_LEN_OFFSET :: nat where "IMAGE_CHUNK_LEN_OFFSET \<equiv> 4"
abbreviation (input) IMAGE_CHUNK_LAST_FLAG :: nat where "IMAGE_CHUNK_LAST_FLAG \<equiv> 1"
abbreviation (input) PARTIAL_WINDOW_HEADER_SIZE :: nat where "PARTIAL_WINDOW_HEADER_SIZE \<equiv> 16"
abbreviation (input) PARTIAL_WINDOW_X_OFFSET :: nat where "PARTIAL_WINDOW_X_OFFSET \<equiv> 2"
abbreviation (input) PARTIAL_WINDOW_Y_OFFSET :: nat where "PARTIAL_WINDOW_Y_OFFSET \<equiv> 4"
abbreviation (input) PARTIAL_WINDOW_W_OFFSET :: nat where "PARTIAL_WINDOW_W_OFFSET \<equiv> 6"
abbreviation (input) PARTIAL_WINDOW_H_OFFSET :: nat where "PARTIAL_WINDOW_H_OFFSET \<equiv> 8"
abbreviation (input) PARTIAL_WINDOW_LAST_OFFSET :: nat where "PARTIAL_WINDOW_LAST_OFFSET \<equiv> 10"
abbreviation (input) PARTIAL_WINDOW_SIZE_OFFSET :: nat where "PARTIAL_WINDOW_SIZE_OFFSET \<equiv> 13"
abbreviation (input) CLIENT_EVICTION_GRACE_MS :: nat where "CLIENT_EVICTION_GRACE_MS \<equiv> 10000"
abbreviation (input) KEEPALIVE_PKT_SEQ_OFFSET :: nat where "KEEPALIVE_PKT_SEQ_OFFSET \<equiv> 5"
abbreviation (input) HID_OP_SEND_REPORT :: nat where "HID_OP_SEND_REPORT \<equiv> 0x01"
abbreviation (input) HID_OP_GET_REPORT :: nat where "HID_OP_GET_REPORT \<equiv> 0x02"
abbreviation (input) FEATURE_KEEPALIVE_ACK :: nat where "FEATURE_KEEPALIVE_ACK \<equiv> 0x1a"
abbreviation (input) FEATURE_GET_CAPABILITIES :: nat where "FEATURE_GET_CAPABILITIES \<equiv> 0x1c"
abbreviation (input) FEATURE_GET_DEVICE_INFO :: nat where "FEATURE_GET_DEVICE_INFO \<equiv> 0x80"
abbreviation (input) FEATURE_GET_FW_LEGACY :: nat where "FEATURE_GET_FW_LEGACY \<equiv> 0x05"
abbreviation (input) FEATURE_GET_SERIAL_LEGACY :: nat where "FEATURE_GET_SERIAL_LEGACY \<equiv> 0x06"
abbreviation (input) FEATURE_GET_DOCK_FW :: nat where "FEATURE_GET_DOCK_FW \<equiv> 0x83"
abbreviation (input) FEATURE_GET_DOCK_SERIAL :: nat where "FEATURE_GET_DOCK_SERIAL \<equiv> 0x84"
abbreviation (input) FEATURE_GET_MAC :: nat where "FEATURE_GET_MAC \<equiv> 0x85"
abbreviation (input) FEATURE_GET_CHILD_FW :: nat where "FEATURE_GET_CHILD_FW \<equiv> 0x87"
abbreviation (input) FEATURE_GET_QUICK_PROBE :: nat where "FEATURE_GET_QUICK_PROBE \<equiv> 0x8f"
abbreviation (input) PKT_EVENT :: nat where "PKT_EVENT \<equiv> 0x01"
abbreviation (input) EVENT_SUBTYPE_KEEPALIVE :: nat where "EVENT_SUBTYPE_KEEPALIVE \<equiv> 0x0a"
abbreviation (input) EVENT_SUBTYPE_CAPABILITIES :: nat where "EVENT_SUBTYPE_CAPABILITIES \<equiv> 0x0b"
abbreviation (input) PAYLOAD_TYPE_OUTPUT_REPORT :: nat where "PAYLOAD_TYPE_OUTPUT_REPORT \<equiv> 0x02"
abbreviation (input) PAYLOAD_TYPE_FEATURE :: nat where "PAYLOAD_TYPE_FEATURE \<equiv> 0x03"
abbreviation (input) IMG_CMD_WRITE :: nat where "IMG_CMD_WRITE \<equiv> 0x07"
abbreviation (input) IMG_CMD_LCD :: nat where "IMG_CMD_LCD \<equiv> 0x08"
abbreviation (input) IMG_CMD_WINDOW :: nat where "IMG_CMD_WINDOW \<equiv> 0x0b"
abbreviation (input) IMG_CMD_WINDOW_PARTIAL :: nat where "IMG_CMD_WINDOW_PARTIAL \<equiv> 0x0c"
abbreviation (input) INPUT_SUBTYPE_BUTTONS :: nat where "INPUT_SUBTYPE_BUTTONS \<equiv> 0x00"
abbreviation (input) INPUT_SUBTYPE_TOUCH :: nat where "INPUT_SUBTYPE_TOUCH \<equiv> 0x02"
abbreviation (input) INPUT_SUBTYPE_ENCODER :: nat where "INPUT_SUBTYPE_ENCODER \<equiv> 0x03"
abbreviation (input) GEN1_IMG_CMD :: nat where "GEN1_IMG_CMD \<equiv> 0x01"
abbreviation (input) GEN1_IMAGE_HEADER_SIZE :: nat where "GEN1_IMAGE_HEADER_SIZE \<equiv> 16"
abbreviation (input) GEN1_IMAGE_LAST_OFFSET :: nat where "GEN1_IMAGE_LAST_OFFSET \<equiv> 4"
abbreviation (input) GEN1_IMAGE_KEY_OFFSET :: nat where "GEN1_IMAGE_KEY_OFFSET \<equiv> 5"
abbreviation (input) KEEPALIVE_SUBTYPE :: nat where "KEEPALIVE_SUBTYPE \<equiv> 0x02"
abbreviation (input) REPORT_BUTTON_STATE_INPUT :: nat where "REPORT_BUTTON_STATE_INPUT \<equiv> 0x01"
abbreviation (input) REPORT_FIRMWARE_VERSION :: nat where "REPORT_FIRMWARE_VERSION \<equiv> 0x05"
abbreviation (input) REPORT_SERIAL_NUMBER :: nat where "REPORT_SERIAL_NUMBER \<equiv> 0x06"
abbreviation (input) REPORT_SECONDARY_DETECT :: nat where "REPORT_SECONDARY_DETECT \<equiv> 0x08"
abbreviation (input) REPORT_DEVICE_INFO :: nat where "REPORT_DEVICE_INFO \<equiv> 0x0b"

end
