(* ===== verification/Cora_Frame.thy ===== *)
theory Cora_Frame
  imports Cora_Protocol
begin

text \<open>
  \<^verbatim>\<open>cora/frame.ts\<close>: the CORA frame codec and the incremental frame reader of a
  connection.  The reader keeps a view (\<open>rbuf\<close>) and the size of the memory the view
  pins (\<open>rbacking\<close>, the \<^verbatim>\<open>byteLength\<close> of the underlying ArrayBuffer); warnings are not
  modelled.
\<close>

section \<open>The codec\<close>

definition CORA_MAGIC :: bytes where
  "CORA_MAGIC = [0x43, 0x93, 0x8a, 0x41]"

abbreviation (input) CORA_HEADER_SIZE :: nat where "CORA_HEADER_SIZE \<equiv> 16"
abbreviation (input) CORA_FLAG_VERBATIM :: nat where "CORA_FLAG_VERBATIM \<equiv> 0x8000"
abbreviation (input) CORA_FLAG_REQACK :: nat where "CORA_FLAG_REQACK \<equiv> 0x4000"
abbreviation (input) CORA_FLAG_ACKNAK :: nat where "CORA_FLAG_ACKNAK \<equiv> 0x0200"
abbreviation (input) CORA_FLAG_RESULT :: nat where "CORA_FLAG_RESULT \<equiv> 0x0100"

definition CORA_VERBATIM_RESULT :: nat where
  "CORA_VERBATIM_RESULT = CORA_FLAG_RESULT OR CORA_FLAG_VERBATIM"

text \<open>A flag test \<^verbatim>\<open>flags & F\<close> in a condition.\<close>

definition has_flag :: "nat \<Rightarrow> nat \<Rightarrow> bool" where
  "has_flag flags f \<longleftrightarrow> flags AND f \<noteq> 0"

fun join_bar :: "string list \<Rightarrow> string" where
  "join_bar [] = ''''"
| "join_bar [s] = s"
| "join_bar (s # ss) = s @ ''|'' @ join_bar ss"

definition coraFlagString :: "nat \<Rightarrow> string" where
  "coraFlagString flags =
     (let parts = (if has_flag flags CORA_FLAG_VERBATIM then [''VERB''] else [])
                @ (if has_flag flags CORA_FLAG_REQACK then [''REQACK''] else [])
                @ (if has_flag flags CORA_FLAG_ACKNAK then [''ACKNAK''] else [])
                @ (if has_flag flags CORA_FLAG_RESULT then [''RESULT''] else []);
          s = join_bar parts
      in if s = '''' then ''0'' else s)"

record cora_frame =
  cf_flags :: nat
  cf_hidOp :: nat
  cf_messageId :: nat
  cf_payload :: bytes

definition encodeCoraFrame :: "bytes \<Rightarrow> nat \<Rightarrow> nat \<Rightarrow> nat \<Rightarrow> bytes" where
  "encodeCoraFrame p fl op mid =
     (let header = alloc CORA_HEADER_SIZE;
          header = copy_at CORA_MAGIC 0 header;
          header = writeUInt16LE fl 4 header;
          header = writeUInt8 op 6 header;
          header = writeUInt32LE mid 8 header;
          header = writeUInt32LE (length p) 12 header
      in buffer_concat [header, p] None)"

definition hasMagicAtStart :: "bytes \<Rightarrow> bool" where
  "hasMagicAtStart b \<longleftrightarrow>
     at_opt b 0 = at_opt CORA_MAGIC 0 \<and> at_opt b 1 = at_opt CORA_MAGIC 1 \<and>
     at_opt b 2 = at_opt CORA_MAGIC 2 \<and> at_opt b 3 = at_opt CORA_MAGIC 3"

definition tryDecodeCoraFrame :: "bytes \<Rightarrow> cora_frame option" where
  "tryDecodeCoraFrame buf =
     (if length buf < CORA_HEADER_SIZE then None
      else if at_opt buf 0 \<noteq> at_opt CORA_MAGIC 0 \<or> at_opt buf 1 \<noteq> at_opt CORA_MAGIC 1 \<or>
              at_opt buf 2 \<noteq> at_opt CORA_MAGIC 2 \<or> at_opt buf 3 \<noteq> at_opt CORA_MAGIC 3 then None
      else let payloadLength = readUInt32LE buf 12 in
        if length buf < CORA_HEADER_SIZE + payloadLength then None
        else Some \<lparr> cf_flags = readUInt16LE buf 4, cf_hidOp = unat (at0 buf 6),
                    cf_messageId = readUInt32LE buf 8,
                    cf_payload = subarray buf CORA_HEADER_SIZE (CORA_HEADER_SIZE + payloadLength) \<rparr>)"

definition frameTotalLength :: "cora_frame \<Rightarrow> nat" where
  "frameTotalLength f = CORA_HEADER_SIZE + length (cf_payload f)"

section \<open>The incremental reader\<close>

abbreviation (input) COMPACT_MIN_BACKING :: nat where "COMPACT_MIN_BACKING \<equiv> 4096"

record reader =
  rbuf :: bytes
  rbacking :: nat

definition empty_reader :: reader where
  "empty_reader = \<lparr> rbuf = [], rbacking = 0 \<rparr>"

definition compact :: "reader \<Rightarrow> reader" where
  "compact r =
     (let len = length (rbuf r) in
      if len = 0 then empty_reader
      else if COMPACT_MIN_BACKING < rbacking r \<and> 2 * len < rbacking r
        then \<lparr> rbuf = rbuf r, rbacking = len \<rparr>
      else r)"

text \<open>\<^verbatim>\<open>append(chunk)\<close>; the chunk is itself a view with its backing size.\<close>

definition append_chunk :: "reader \<Rightarrow> reader \<Rightarrow> reader" where
  "append_chunk r chunk =
     (let tot = length (rbuf r) + length (rbuf chunk);
          dropped = tot - MAX_RECEIVE_BUFFER;
          (r, chunk) =
            (if MAX_RECEIVE_BUFFER < tot then
               (if length (rbuf r) \<le> dropped
                then (empty_reader, chunk\<lparr>rbuf := drop (dropped - length (rbuf r)) (rbuf chunk)\<rparr>)
                else (r\<lparr>rbuf := drop dropped (rbuf r)\<rparr>, chunk))
             else (r, chunk));
          r = (if length (rbuf r) = 0 then chunk
               else let b = buffer_concat [rbuf r, rbuf chunk] None
                    in \<lparr> rbuf = b, rbacking = length b \<rparr>)
      in compact r)"

text \<open>\<^verbatim>\<open>resyncToMagic\<close>: the new buffer and whether draining continues.\<close>

definition resyncToMagic :: "bytes \<Rightarrow> bytes \<times> bool" where
  "resyncToMagic b =
     (case indexOf b CORA_MAGIC 1 of
        None \<Rightarrow> (if CORA_HEADER_SIZE \<le> length b then drop (length b - 3) b else b, False)
      | Some idx \<Rightarrow> (drop idx b, True))"

lemma resync_decreases:
  assumes "resyncToMagic b = (b', True)"
  shows "length b' < length b"
proof -
  from assms obtain i where i: "indexOf b CORA_MAGIC 1 = Some i" "b' = drop i b"
    by (auto simp: resyncToMagic_def split: option.splits)
  moreover have "CORA_MAGIC \<noteq> []" by (simp add: CORA_MAGIC_def)
  ultimately have "1 \<le> i" "i + length CORA_MAGIC \<le> length b"
    using indexOf_Some by blast+
  then show ?thesis using i by (simp add: CORA_MAGIC_def)
qed

function drainLoop :: "bytes \<Rightarrow> cora_frame list \<times> bytes" where
  "drainLoop b =
     (if length b < CORA_HEADER_SIZE then ([], b)
      else if \<not> hasMagicAtStart b then
        (case resyncToMagic b of (b', go_on) \<Rightarrow> if go_on then drainLoop b' else ([], b'))
      else if MAX_RECEIVE_BUFFER - CORA_HEADER_SIZE < readUInt32LE b 12
        then drainLoop (drop CORA_HEADER_SIZE b)
      else (case tryDecodeCoraFrame b of
          None \<Rightarrow> ([], b)
        | Some f \<Rightarrow> (let (fs, b') = drainLoop (drop (frameTotalLength f) b) in (f # fs, b'))))"
  by pat_completeness auto
termination
  by (relation "measure length")
    (auto simp: frameTotalLength_def resync_decreases hasMagicAtStart_def)

definition drainFrames :: "reader \<Rightarrow> cora_frame list \<times> reader" where
  "drainFrames r =
     (let (fs, b) = drainLoop (rbuf r) in (fs, compact (r\<lparr>rbuf := b\<rparr>)))"

declare drainLoop.simps [simp del]

section \<open>Laws of the codec\<close>

lemma magic_length [simp]: "length CORA_MAGIC = 4" "CORA_MAGIC \<noteq> []"
  by (simp_all add: CORA_MAGIC_def)

lemma hasMagic_take: "4 \<le> length b \<Longrightarrow> hasMagicAtStart b \<longleftrightarrow> take 4 b = CORA_MAGIC"
proof -
  assume "4 \<le> length b"
  then obtain a0 a1 a2 a3 r where "b = a0 # a1 # a2 # a3 # r"
    by (auto simp: numeral_eq_Suc Suc_le_length_iff)
  then show ?thesis by (auto simp: hasMagicAtStart_def CORA_MAGIC_def at_opt_def)
qed

text \<open>The header that \<open>encodeCoraFrame\<close> writes, byte by byte.\<close>

definition cora_header :: "nat \<Rightarrow> nat \<Rightarrow> nat \<Rightarrow> nat \<Rightarrow> bytes" where
  "cora_header n fl op mid =
     CORA_MAGIC @ [byte_of fl 0, byte_of fl 8, byte_of op 0, 0,
       byte_of mid 0, byte_of mid 8, byte_of mid 16, byte_of mid 24,
       byte_of n 0, byte_of n 8, byte_of n 16, byte_of n 24]"

lemma encode_header: "encodeCoraFrame p fl op mid = cora_header (length p) fl op mid @ p"
proof -
  have "alloc 16 = [0,0,0,0,0,0,0,0,0,0,0,0,0,0,0,0 :: byte]"
    by (simp add: numeral_eq_Suc)
  then show ?thesis
    by (simp add: encodeCoraFrame_def cora_header_def CORA_MAGIC_def buffer_simps copy_at_eq
        writeUInt16LE_def writeUInt8_def writeUInt32LE_def Let_def)
qed

lemma cora_header_length [simp]: "length (cora_header n fl op mid) = 16"
  by (simp add: cora_header_def)

lemma header_fields:
  "readUInt16LE (cora_header n fl op mid @ s) 4 = fl mod 65536"
  "at0 (cora_header n fl op mid @ s) 6 = byte_of op 0"
  "readUInt32LE (cora_header n fl op mid @ s) 8 = mid mod 4294967296"
  "readUInt32LE (cora_header n fl op mid @ s) 12 = n mod 4294967296"
  subgoal by (simp add: cora_header_def CORA_MAGIC_def readUInt16LE_sum byte_of_vals byte_digits16)
  subgoal by (simp add: cora_header_def CORA_MAGIC_def)
  subgoal by (simp add: cora_header_def CORA_MAGIC_def readUInt32LE_sum byte_of_vals byte_digits32)
  subgoal by (simp add: cora_header_def CORA_MAGIC_def readUInt32LE_sum byte_of_vals byte_digits32)
  done

lemma header_magic [simp]: "hasMagicAtStart (cora_header n fl op mid @ s)"
  by (simp add: cora_header_def CORA_MAGIC_def hasMagicAtStart_def at_opt_def)

lemma decode_eq:
  "tryDecodeCoraFrame b =
     (if 16 \<le> length b \<and> hasMagicAtStart b \<and> 16 + readUInt32LE b 12 \<le> length b
      then Some \<lparr> cf_flags = readUInt16LE b 4, cf_hidOp = unat (at0 b 6),
                  cf_messageId = readUInt32LE b 8,
                  cf_payload = take (readUInt32LE b 12) (drop 16 b) \<rparr>
      else None)"
  by (auto simp: tryDecodeCoraFrame_def hasMagicAtStart_def Let_def subarray_def)

lemma decode_encode_append:
  assumes "length p < 2 ^ 32"
  shows "tryDecodeCoraFrame (encodeCoraFrame p fl op mid @ s) =
    Some \<lparr> cf_flags = fl mod 2 ^ 16, cf_hidOp = op mod 2 ^ 8, cf_messageId = mid mod 2 ^ 32,
           cf_payload = p \<rparr>"
  using assms by (simp add: decode_eq encode_header header_fields byte_of_vals)

lemma decode_total:
  assumes "tryDecodeCoraFrame b = Some f"
  shows "frameTotalLength f \<le> length b" "16 \<le> frameTotalLength f"
    "frameTotalLength f = 16 + readUInt32LE b 12"
  using assms by (auto simp: decode_eq frameTotalLength_def split: if_splits)

lemma reads_append:
  "off + 3 < length a \<Longrightarrow> readUInt32LE (a @ b) off = readUInt32LE a off"
  "off + 1 < length a \<Longrightarrow> readUInt16LE (a @ b) off = readUInt16LE a off"
  by (simp_all add: readUInt32LE_sum readUInt16LE_sum at0_append)

lemma hasMagic_append [simp]:
  "4 \<le> length a \<Longrightarrow> hasMagicAtStart (a @ b) = hasMagicAtStart a"
  by (simp add: hasMagic_take)

lemma decode_append:
  assumes "tryDecodeCoraFrame a = Some f"
  shows "tryDecodeCoraFrame (a @ b) = Some f"
  using assms by (auto simp: decode_eq reads_append at0_append split: if_splits)

section \<open>Laws of the reader\<close>

text \<open>One step of the drain loop per case, as rewrite rules.\<close>

lemma drain_short: "length b < 16 \<Longrightarrow> drainLoop b = ([], b)"
  by (subst drainLoop.simps) simp

lemma drain_skip_to:
  assumes "16 \<le> length b" "\<not> hasMagicAtStart b" "indexOf b CORA_MAGIC 1 = Some i"
  shows "drainLoop b = drainLoop (drop i b)"
  using assms by (subst drainLoop.simps) (simp add: resyncToMagic_def)

lemma drain_no_magic:
  assumes "16 \<le> length b" "\<not> hasMagicAtStart b" "indexOf b CORA_MAGIC 1 = None"
  shows "drainLoop b = ([], drop (length b - 3) b)"
  using assms by (subst drainLoop.simps) (simp add: resyncToMagic_def)

lemma drain_too_big:
  assumes "16 \<le> length b" "hasMagicAtStart b" "MAX_RECEIVE_BUFFER - 16 < readUInt32LE b 12"
  shows "drainLoop b = drainLoop (drop 16 b)"
  using assms by (subst drainLoop.simps) simp

lemma drain_frame:
  assumes "tryDecodeCoraFrame b = Some f" "readUInt32LE b 12 \<le> MAX_RECEIVE_BUFFER - 16"
  shows "drainLoop b = (f # fst (drainLoop (drop (frameTotalLength f) b)),
                        snd (drainLoop (drop (frameTotalLength f) b)))"
proof -
  have "16 \<le> length b" "hasMagicAtStart b"
    using assms by (auto simp: decode_eq split: if_splits)
  then show ?thesis
    using assms by (subst drainLoop.simps) (simp add: case_prod_unfold Let_def)
qed

lemma drain_wait:
  assumes "16 \<le> length b" "hasMagicAtStart b" "tryDecodeCoraFrame b = None"
    "readUInt32LE b 12 \<le> MAX_RECEIVE_BUFFER - 16"
  shows "drainLoop b = ([], b)"
  using assms by (subst drainLoop.simps) simp

lemmas drain_cases_rules = drain_short drain_skip_to drain_no_magic drain_too_big drain_frame drain_wait

text \<open>Positions without a magic are skipped without a trace: the frames of a buffer are the
  frames of its tail from any point before the first magic.\<close>

lemma indexOf_1_unique:
  assumes "1 \<le> i" "take 4 (drop i x) = CORA_MAGIC"
    and "\<And>j. 1 \<le> j \<Longrightarrow> j < i \<Longrightarrow> take 4 (drop j x) \<noteq> CORA_MAGIC"
  shows "indexOf x CORA_MAGIC 1 = Some i"
proof (cases "indexOf x CORA_MAGIC 1")
  case None
  then show ?thesis using indexOf_None[OF magic_length(2) None assms(1)] assms by simp
next
  case (Some k)
  note k = indexOf_Some[OF magic_length(2) Some, unfolded magic_length(1)]
  have "\<not> k < i" using k(1,2) assms(3) by blast
  moreover have "\<not> i < k" using k(4) assms(1,2) by blast
  ultimately show ?thesis using Some by simp
qed

lemma magic_needs_4: "take 4 (drop i x) = CORA_MAGIC \<Longrightarrow> i + 4 \<le> length x"
  by (auto dest!: arg_cong[where f = length])

lemma drain_skip:
  assumes "\<And>i. i < n \<Longrightarrow> take 4 (drop i x) \<noteq> CORA_MAGIC"
  shows "fst (drainLoop x) = fst (drainLoop (drop n x))"
proof (cases "length x < 16 \<or> n = 0")
  case True
  then show ?thesis by (auto simp: drain_short)
next
  case False
  then have l: "16 \<le> length x" and n: "0 < n" by auto
  have m: "\<not> hasMagicAtStart x" using assms[of 0] n l by (simp add: hasMagic_take)
  show ?thesis
  proof (cases "indexOf x CORA_MAGIC 1")
    case None
    have "indexOf (drop n x) CORA_MAGIC 1 = None"
    proof (rule ccontr)
      assume "indexOf (drop n x) CORA_MAGIC 1 \<noteq> None"
      then obtain k where k: "indexOf (drop n x) CORA_MAGIC 1 = Some k" by blast
      then show False
        using indexOf_Some(2)[OF magic_length(2) k] indexOf_None[OF magic_length(2) None, of "n + k"] n
        by (simp add: add.commute)
    qed
    moreover have "\<not> hasMagicAtStart (drop n x)" if "16 \<le> length (drop n x)"
      using that indexOf_None[OF magic_length(2) None, of n] n by (simp add: hasMagic_take)
    ultimately show ?thesis
      by (cases "16 \<le> length (drop n x)") (simp_all add: drain_no_magic[OF _ _ None] drain_no_magic drain_short l m del: One_nat_def)
  next
    case (Some i)
    note i = indexOf_Some[OF magic_length(2) Some, unfolded magic_length(1)]
    have ni: "n \<le> i" using assms i(2) linorder_not_less by blast
    have x: "fst (drainLoop x) = fst (drainLoop (drop i x))" by (simp add: drain_skip_to[OF l m Some])
    show ?thesis
    proof (cases "n = i \<or> length (drop n x) < 16")
      case True
      then show ?thesis using x ni by (auto simp: drain_short)
    next
      case False
      have "\<not> hasMagicAtStart (drop n x)"
        using False i(4)[of n] n ni by (auto simp: hasMagic_take)
      moreover have "indexOf (drop n x) CORA_MAGIC 1 = Some (i - n)"
        using i ni False n by (intro indexOf_1_unique) auto
      ultimately show ?thesis using x ni False by (simp add: drain_skip_to[of _ "i - n"] del: One_nat_def)
    qed
  qed
qed

text \<open>Draining in two steps yields the frames of draining at once.\<close>

lemma indexOf_append:
  assumes "indexOf a CORA_MAGIC 1 = Some i"
  shows "indexOf (a @ b) CORA_MAGIC 1 = Some i"
proof -
  note i = indexOf_Some[OF magic_length(2) assms, unfolded magic_length(1)]
  show ?thesis
    using i by (intro indexOf_1_unique) auto
qed

lemma drain_append:
  "fst (drainLoop (a @ b)) = fst (drainLoop a) @ fst (drainLoop (snd (drainLoop a) @ b))"
proof (induction "length a" arbitrary: a rule: less_induct)
  case less
  consider (short) "length a < 16"
    | (skip) i where "16 \<le> length a" "\<not> hasMagicAtStart a" "indexOf a CORA_MAGIC 1 = Some i"
    | (none) "16 \<le> length a" "\<not> hasMagicAtStart a" "indexOf a CORA_MAGIC 1 = None"
    | (big) "16 \<le> length a" "hasMagicAtStart a" "MAX_RECEIVE_BUFFER - 16 < readUInt32LE a 12"
    | (frame) f where "tryDecodeCoraFrame a = Some f" "readUInt32LE a 12 \<le> MAX_RECEIVE_BUFFER - 16"
    | (wait) "16 \<le> length a" "hasMagicAtStart a" "tryDecodeCoraFrame a = None"
        "readUInt32LE a 12 \<le> MAX_RECEIVE_BUFFER - 16"
    by (metis linorder_not_less not_Some_eq)
  then show ?case
  proof cases
    case short
    then show ?thesis by (simp add: drain_short)
  next
    case skip
    note i = indexOf_Some[OF magic_length(2) skip(3), unfolded magic_length(1)]
    have "drainLoop (a @ b) = drainLoop (drop i a @ b)"
      using drain_skip_to[of "a @ b" i] indexOf_append[OF skip(3)] skip i(3) by simp
    then show ?thesis
      using less[of "drop i a"] i(1,3) drain_skip_to[OF skip] by simp
  next
    case none
    have "take 4 (drop i (a @ b)) \<noteq> CORA_MAGIC" if "i < length a - 3" for i
    proof (cases "i = 0")
      case True
      then show ?thesis using none by (simp add: hasMagic_take)
    next
      case False
      then show ?thesis
        using indexOf_None[OF magic_length(2) none(3), of i] that by simp
    qed
    then have "fst (drainLoop (a @ b)) = fst (drainLoop (drop (length a - 3) (a @ b)))"
      by (rule drain_skip)
    then show ?thesis using drain_no_magic[OF none] by simp
  next
    case big
    then have "drainLoop (a @ b) = drainLoop (drop 16 a @ b)"
      by (subst drain_too_big) (auto simp: reads_append)
    then show ?thesis using less[of "drop 16 a"] drain_too_big[OF big] big(1) by simp
  next
    case frame
    note t = decode_total[OF frame(1)]
    have "fst (drainLoop (a @ b)) = f # fst (drainLoop (drop (frameTotalLength f) a @ b))"
      using drain_frame[OF decode_append[OF frame(1)], of b] frame(2) t by (simp add: reads_append)
    then show ?thesis
      using less[of "drop (frameTotalLength f) a"] drain_frame[OF frame] t by simp
  next
    case wait
    then show ?thesis by (simp add: drain_wait)
  qed
qed

text \<open>A connection's reads: every chunk is appended and drained, as the servers do.\<close>

fun feed :: "reader \<Rightarrow> reader list \<Rightarrow> cora_frame list \<times> reader" where
  "feed r [] = ([], r)"
| "feed r (c # cs) =
    (let (fs, r') = drainFrames (append_chunk r c); (gs, r'') = feed r' cs in (fs @ gs, r''))"

fun fits :: "reader \<Rightarrow> reader list \<Rightarrow> bool" where
  "fits r [] = True"
| "fits r (c # cs) \<longleftrightarrow>
     length (rbuf r) + length (rbuf c) \<le> MAX_RECEIVE_BUFFER \<and>
     fits (snd (drainFrames (append_chunk r c))) cs"

lemma compact_buf [simp]: "rbuf (compact r) = rbuf r"
  by (auto simp: compact_def Let_def empty_reader_def)

lemma append_buf:
  "rbuf (append_chunk r c) =
     drop (length (rbuf r) + length (rbuf c) - MAX_RECEIVE_BUFFER) (rbuf r @ rbuf c)"
  by (auto simp: append_chunk_def Let_def empty_reader_def)

lemma drainFrames_eq:
  "fst (drainFrames r) = fst (drainLoop (rbuf r))"
  "rbuf (snd (drainFrames r)) = snd (drainLoop (rbuf r))"
  by (simp_all add: drainFrames_def case_prod_unfold Let_def)

lemma feed_frames:
  "fits r cs \<Longrightarrow>
     fst (feed r cs) = fst (drainLoop (rbuf r @ List.concat (map rbuf cs)))
   \<or> cs = []"
proof (induction cs arbitrary: r)
  case (Cons c cs)
  let ?r = "snd (drainFrames (append_chunk r c))"
  have a: "rbuf (append_chunk r c) = rbuf r @ rbuf c" using Cons.prems by (simp add: append_buf)
  have "fst (drainLoop (rbuf r @ rbuf c @ List.concat (map rbuf cs)))
      = fst (drainLoop (rbuf r @ rbuf c))
        @ fst (drainLoop (snd (drainLoop (rbuf r @ rbuf c)) @ List.concat (map rbuf cs)))"
    using drain_append[of "rbuf r @ rbuf c"] by simp
  moreover have "fst (feed r (c # cs)) = fst (drainLoop (rbuf r @ rbuf c)) @ fst (feed ?r cs)"
    by (simp add: case_prod_unfold Let_def drainFrames_eq a)
  moreover have "fst (feed ?r cs) = fst (drainLoop (rbuf ?r @ List.concat (map rbuf cs)))"
  proof (cases cs)
    case Nil
    have "fst (drainLoop (rbuf r @ rbuf c)) = fst (drainLoop (rbuf r @ rbuf c))
      @ fst (drainLoop (snd (drainLoop (rbuf r @ rbuf c))))"
      using drain_append[of "rbuf r @ rbuf c" "[]"] by simp
    then show ?thesis by (simp add: Nil drainFrames_eq a)
  next
    case (Cons d ds)
    then show ?thesis using Cons.IH[of ?r] Cons.prems by auto
  qed
  ultimately show ?case by (simp add: drainFrames_eq a)
qed simp

text \<open>A drained buffer is never stuck behind a length it cannot hold.\<close>

lemma drain_rest_bound: "length (snd (drainLoop b)) < MAX_RECEIVE_BUFFER"
proof (induction "length b" arbitrary: b rule: less_induct)
  case less
  show ?case
  proof (cases "length b < 16")
    case True
    then show ?thesis by (simp add: drain_short)
  next
    case False
    then have l: "16 \<le> length b" by simp
    show ?thesis
    proof (cases "hasMagicAtStart b")
      case m: False
      show ?thesis
      proof (cases "indexOf b CORA_MAGIC 1")
        case None
        then show ?thesis using drain_no_magic[OF l m None] l by simp
      next
        case (Some i)
        then show ?thesis
          using less[of "drop i b"] drain_skip_to[OF l m Some] l
            indexOf_Some(1)[OF magic_length(2) Some] by simp
      qed
    next
      case m: True
      show ?thesis
      proof (cases "MAX_RECEIVE_BUFFER - 16 < readUInt32LE b 12")
        case True
        then show ?thesis using less[of "drop 16 b"] drain_too_big[OF l m] l by simp
      next
        case small: False
        show ?thesis
        proof (cases "tryDecodeCoraFrame b")
          case None
          then have "length b < 16 + readUInt32LE b 12" using l m by (auto simp: decode_eq split: if_splits)
          then show ?thesis using drain_wait[OF l m None] small by simp
        next
          case (Some f)
          then show ?thesis
            using less[of "drop (frameTotalLength f) b"] drain_frame[OF Some] small
              decode_total[OF Some] by simp
        qed
      qed
    qed
  qed
qed

section \<open>Prefix codecs\<close>

text \<open>What a client of a stream codec relies on: a decoder that reads one item off the front of
  a stream and leaves the rest.\<close>

locale prefix_codec =
  fixes valid :: "'a \<Rightarrow> bool" and enc :: "'a \<Rightarrow> bytes" and dec :: "bytes \<Rightarrow> ('a \<times> bytes) option"
  assumes dec_enc: "valid x \<Longrightarrow> dec (enc x @ s) = Some (x, s)"
begin

lemma enc_prefix_free:
  assumes "valid x" "valid y" "enc x @ s = enc y @ t"
  shows "x = y \<and> s = t"
proof -
  have "Some (x, s) = dec (enc x @ s)" by (simp only: dec_enc[OF assms(1)])
  also have "\<dots> = Some (y, t)" by (simp only: assms(3) dec_enc[OF assms(2)])
  finally show ?thesis by simp
qed

lemma stream_inj:
  assumes "list_all valid xs" "list_all valid ys"
    "List.concat (map enc xs) = List.concat (map enc ys)" "length xs = length ys"
  shows "xs = ys"
  using assms(4,1-3)
proof (induction xs ys rule: list_induct2)
  case (Cons x xs y ys)
  then have "x = y \<and> List.concat (map enc xs) = List.concat (map enc ys)"
    by (intro enc_prefix_free) simp_all
  then show ?case using Cons by simp
qed simp

end

definition frame_wf :: "cora_frame \<Rightarrow> bool" where
  "frame_wf f \<longleftrightarrow> cf_flags f < 2 ^ 16 \<and> cf_hidOp f < 2 ^ 8 \<and> cf_messageId f < 2 ^ 32 \<and>
     length (cf_payload f) \<le> MAX_RECEIVE_BUFFER - CORA_HEADER_SIZE"

definition encode_frame :: "cora_frame \<Rightarrow> bytes" where
  "encode_frame f = encodeCoraFrame (cf_payload f) (cf_flags f) (cf_hidOp f) (cf_messageId f)"

definition decode_front :: "bytes \<Rightarrow> (cora_frame \<times> bytes) option" where
  "decode_front b = map_option (\<lambda>f. (f, drop (frameTotalLength f) b)) (tryDecodeCoraFrame b)"

lemma decode_encode_frame:
  assumes "frame_wf f"
  shows "tryDecodeCoraFrame (encode_frame f @ s) = Some f"
  using assms by (simp add: encode_frame_def decode_encode_append frame_wf_def)

lemma encode_frame_length: "length (encode_frame f) = frameTotalLength f"
  by (simp add: encode_frame_def encode_header frameTotalLength_def)

interpretation cora_codec: prefix_codec frame_wf encode_frame decode_front
  by unfold_locales (simp add: decode_front_def decode_encode_frame encode_frame_length[symmetric])

lemma drain_encoded:
  assumes "list_all frame_wf fs"
  shows "drainLoop (List.concat (map encode_frame fs) @ s)
           = (fs @ fst (drainLoop s), snd (drainLoop s))"
  using assms
proof (induction fs)
  case (Cons f fs)
  let ?s = "List.concat (map encode_frame fs) @ s"
  have wf: "frame_wf f" using Cons.prems by simp
  have "readUInt32LE (encode_frame f @ ?s) 12 \<le> MAX_RECEIVE_BUFFER - 16"
    using wf by (auto simp: encode_frame_def encode_header header_fields frame_wf_def)
  from drain_frame[OF decode_encode_frame[OF wf] this]
  have "drainLoop (encode_frame f @ ?s) = (f # fst (drainLoop ?s), snd (drainLoop ?s))"
    by (simp add: encode_frame_length[symmetric])
  then show ?case using Cons by simp
qed simp

section \<open>Properties\<close>

lemma compact_retained: "rbacking (compact r) \<le> max COMPACT_MIN_BACKING (2 * length (rbuf r))"
  by (auto simp: compact_def Let_def empty_reader_def)

lemma append_retained:
  "rbacking (append_chunk r c) \<le> max COMPACT_MIN_BACKING (2 * length (rbuf (append_chunk r c)))"
proof -
  have "\<exists>x. append_chunk r c = compact x"
    by (auto simp: append_chunk_def Let_def case_prod_unfold)
  then show ?thesis using compact_retained by auto
qed

lemma drain_retained:
  "rbacking (snd (drainFrames r)) \<le> max COMPACT_MIN_BACKING (2 * length (rbuf (snd (drainFrames r))))"
  unfolding drainFrames_def Let_def case_prod_unfold snd_conv
  by (subst compact_buf) (rule compact_retained)

text \<open>C1. However the bytes of a stream of encoded frames are cut into reads, as long as no
  read overflows the receive buffer, the reader delivers exactly those frames, in order.\<close>

theorem reader_delivers_stream:
  assumes "list_all frame_wf fs" "fits empty_reader cs"
    "List.concat (map rbuf cs) = List.concat (map encode_frame fs)"
  shows "fst (feed empty_reader cs) = fs"
proof -
  have "drainLoop (List.concat (map encode_frame fs)) = (fs, [])"
    using drain_encoded[OF assms(1), of "[]"] by (simp add: drain_short)
  then have *: "fst (drainLoop (List.concat (map rbuf cs))) = fs" by (simp add: assms(3))
  then have "fst (feed empty_reader cs) = fs \<or> cs = []"
    using feed_frames[OF assms(2)] by (simp add: empty_reader_def)
  moreover have "fs = []" if "cs = []" using * that by (simp add: drain_short)
  ultimately show ?thesis by auto
qed

lemma reader_delivers_stream_witness:
  "fst (feed empty_reader
     [\<lparr> rbuf = [0x43, 0x93, 0x8a, 0x41, 0, 0x80, 1], rbacking = 7 \<rparr>,
      \<lparr> rbuf = [0, 7, 0, 0, 0, 2, 0, 0, 0, 5, 6], rbacking = 11 \<rparr>])
   = [\<lparr> cf_flags = 0x8000, cf_hidOp = 1, cf_messageId = 7, cf_payload = [5, 6] \<rparr>]"
  (is "fst (feed empty_reader ?cs) = ?fs")
proof (rule reader_delivers_stream)
  show "list_all frame_wf ?fs" by (simp add: frame_wf_def)
  show "fits empty_reader ?cs"
    by (simp add: append_buf drainFrames_eq drain_short empty_reader_def)
  show "List.concat (map rbuf ?cs) = List.concat (map encode_frame ?fs)"
    by (simp add: encode_frame_def encode_header cora_header_def CORA_MAGIC_def byte_of_nat)
qed

text \<open>Decoding an encoded frame, with any bytes behind it, gives back the payload and
  the header fields at their widths.\<close>

theorem decode_encode:
  assumes "length p < 2 ^ 32"
  shows "tryDecodeCoraFrame (encodeCoraFrame p fl op mid @ s) =
    Some \<lparr> cf_flags = fl mod 2 ^ 16, cf_hidOp = op mod 2 ^ 8, cf_messageId = mid mod 2 ^ 32,
           cf_payload = p \<rparr>"
  by (rule decode_encode_append[OF assms])

text \<open>The reader is bounded: \<open>append_chunk\<close> keeps the newest bytes up to the cap, draining always
  leaves less than the cap (no declared length can wedge the connection), and the memory the
  buffer pins is at most twice its length or 4096 bytes.\<close>

theorem reader_bounded:
  "rbuf (append_chunk r c) =
     drop (length (rbuf r) + length (rbuf c) - MAX_RECEIVE_BUFFER) (rbuf r @ rbuf c)
   \<and> length (rbuf (append_chunk r c)) \<le> MAX_RECEIVE_BUFFER
   \<and> length (rbuf (snd (drainFrames r))) < MAX_RECEIVE_BUFFER
   \<and> rbacking (append_chunk r c) \<le> max COMPACT_MIN_BACKING (2 * length (rbuf (append_chunk r c)))
   \<and> rbacking (snd (drainFrames r))
       \<le> max COMPACT_MIN_BACKING (2 * length (rbuf (snd (drainFrames r))))"
proof (intro conjI)
  show "rbacking (append_chunk r c) \<le> max COMPACT_MIN_BACKING (2 * length (rbuf (append_chunk r c)))"
    by (rule append_retained)
  show "rbacking (snd (drainFrames r))
       \<le> max COMPACT_MIN_BACKING (2 * length (rbuf (snd (drainFrames r))))"
    by (rule drain_retained)
  show "length (rbuf (snd (drainFrames r))) < MAX_RECEIVE_BUFFER"
    by (simp add: drainFrames_eq drain_rest_bound)
qed (auto simp: append_buf)

text \<open>C5. After garbage that contains no magic, not even one that begins in it, the reader
  delivers exactly the frames of what follows.\<close>

theorem reader_resyncs:
  assumes "\<And>i. i < length g \<Longrightarrow> take 4 (drop i (g @ s)) \<noteq> CORA_MAGIC"
  shows "fst (drainLoop (g @ s)) = fst (drainLoop s)"
  using drain_skip[of "length g" "g @ s"] assms by simp

lemma reader_resyncs_witness:
  "fst (drainLoop ([0x43, 9] @ encodeCoraFrame [1] 0 1 0)) = fst (drainLoop (encodeCoraFrame [1] 0 1 0))"
proof (rule reader_resyncs)
  fix i
  assume "i < length [0x43, 9 :: byte]"
  then have "i = 0 \<or> i = 1" by auto
  then show "take 4 (drop i ([0x43, 9] @ encodeCoraFrame [1] 0 1 0)) \<noteq> CORA_MAGIC"
    by (auto simp: encode_header cora_header_def CORA_MAGIC_def)
qed

end
