(* ===== verification/Cora_Responses.thy ===== *)
theory Cora_Responses
  imports Cora_Protocol
begin

text \<open>
  \<^verbatim>\<open>cora/responses.ts\<close> and \<^verbatim>\<open>cora/plus-reports.ts\<close>: the replies and input reports built
  from the emulated device's identity and geometry.  A number stored into a byte
  (\<^verbatim>\<open>pkt[i] = v\<close>) is reduced modulo 256 by \<^const>\<open>of_nat\<close>.  Coordinates and deltas are integers,
  on which \<^verbatim>\<open>Math.round\<close> is the identity.
\<close>

record device_config =
  dockFirmwareVersion :: string
  childFirmwareVersion :: string
  serialNumber :: string
  childSerialNumber :: string
  productId :: nat
  macAddress :: "nat list"

record child_geometry =
  rows :: nat
  columns :: nat
  keyCount :: nat
  keyWidth :: nat
  keyHeight :: nat
  productName :: string
  encoderCount :: "nat option"
  touchWidth :: "nat option"
  touchHeight :: "nat option"

text \<open>The nullish default \<^verbatim>\<open>v ?? d\<close>.\<close>

definition or_default :: "'a option \<Rightarrow> 'a \<Rightarrow> 'a" where
  "or_default v d = (case v of None \<Rightarrow> d | Some x \<Rightarrow> x)"

lemma or_default_simps [simp]: "or_default None d = d" "or_default (Some x) d = x"
  by (simp_all add: or_default_def)

abbreviation (input) FIRMWARE_REPORT_SIZE :: nat where "FIRMWARE_REPORT_SIZE \<equiv> 32"

section \<open>Report builders\<close>

definition NUL :: char where "NUL = char_of (0 :: nat)"

definition padEnd :: "string \<Rightarrow> nat \<Rightarrow> string" where
  "padEnd s n = s @ replicate (n - length s) NUL"

definition fwVersionBuf :: "string \<Rightarrow> bytes" where
  "fwVersionBuf version = ascii_bytes (take FW_VERSION_FIELD_LEN (padEnd version FW_VERSION_FIELD_LEN))"

definition buildFwReport :: "nat \<Rightarrow> nat \<Rightarrow> nat \<Rightarrow> string \<Rightarrow> nat list \<Rightarrow> bytes" where
  "buildFwReport reportId sz fwOffset version prefx =
     (let r = put (alloc sz) 0 (of_nat reportId);
          r = put_all r 1 prefx
      in copy_at (fwVersionBuf version) fwOffset r)"

definition buildVidPidReport :: "nat \<Rightarrow> nat \<Rightarrow> nat \<Rightarrow> nat \<Rightarrow> nat \<Rightarrow> nat \<Rightarrow> bytes" where
  "buildVidPidReport reportId sz vid pid vidOffset pidOffset =
     (let r = put (alloc sz) 0 (of_nat reportId);
          r = writeUInt16LE vid vidOffset r
      in writeUInt16LE pid pidOffset r)"

definition buildSerialReport :: "nat \<Rightarrow> nat \<Rightarrow> nat \<Rightarrow> string \<Rightarrow> nat list \<Rightarrow> bytes" where
  "buildSerialReport reportId sz serialOffset serial prefx =
     (let r = put (alloc sz) 0 (of_nat reportId);
          r = put_all r 1 prefx
      in copy_at (ascii_bytes serial) serialOffset r)"

definition buildFeatureResponse :: "nat \<Rightarrow> device_config \<Rightarrow> nat \<Rightarrow> bytes" where
  "buildFeatureResponse reportId config packetSize =
     (let pkt = alloc packetSize;
          pkt = put pkt 0 (of_nat PAYLOAD_TYPE_FEATURE);
          pkt = put pkt 1 (of_nat reportId)
      in if reportId = FEATURE_GET_DOCK_FW \<or> reportId = FEATURE_GET_QUICK_PROBE then
           copy_at (fwVersionBuf (dockFirmwareVersion config)) CORA_FW_VERSION_OFFSET pkt
         else if reportId = FEATURE_GET_CHILD_FW then
           copy_at (fwVersionBuf (childFirmwareVersion config)) CORA_FW_VERSION_OFFSET pkt
         else if reportId = FEATURE_GET_DOCK_SERIAL then
           (let serial = ascii_bytes (serialNumber config);
                pkt = put pkt CORA_SERIAL_LEN_OFFSET (of_nat (length serial))
            in copy_at serial CORA_SERIAL_DATA_OFFSET pkt)
         else if reportId = FEATURE_GET_FW_LEGACY then
           copy_at (fwVersionBuf (dockFirmwareVersion config)) 2 pkt
         else if reportId = FEATURE_GET_SERIAL_LEGACY then
           copy_at (ascii_bytes (serialNumber config)) 2 pkt
         else if reportId = FEATURE_GET_MAC then
           (let mac = map of_nat (macAddress config) :: bytes
            in if length mac = 6 then copy_at mac 4 pkt else pkt)
         else pkt)"

definition buildCapabilitiesPacket :: "device_config \<Rightarrow> nat \<Rightarrow> child_geometry \<Rightarrow> bytes" where
  "buildCapabilitiesPacket config port geometry =
     (let pkt = alloc ELGATO_PKT_SIZE_RX;
          pkt = put pkt 0 (of_nat PKT_EVENT);
          pkt = put pkt 1 (of_nat EVENT_SUBTYPE_CAPABILITIES);
          pkt = writeUInt16LE CHILD_CAPS_VERSION 2 pkt;
          pkt = put pkt 4 (of_nat CHILD_CAPS_LAYOUT_TYPE);
          pkt = put pkt 5 (of_nat (rows geometry));
          pkt = put pkt 6 (of_nat (columns geometry));
          pkt = put pkt 7 (of_nat (keyCount geometry));
          pkt = writeUInt16LE (keyWidth geometry) 8 pkt;
          pkt = writeUInt16LE (keyHeight geometry) 10 pkt;
          pkt = writeUInt16LE (or_default (touchWidth geometry) 0) 12 pkt;
          pkt = writeUInt16LE (or_default (touchHeight geometry) 0) 14 pkt;
          pkt = writeUInt16LE ELGATO_VID 26 pkt;
          pkt = writeUInt16LE (productId config) 28 pkt;
          pkt = copy_at (ascii_bytes (MANUFACTURER_STRING @ [NUL])) 30 pkt;
          pkt = copy_at (ascii_bytes (productName geometry @ [NUL])) 62 pkt;
          serial = ascii_bytes (childSerialNumber config);
          pkt = copy_at (subarray serial 0 (min (length serial) CHILD_CAPS_SERIAL_MAX_LEN)) 94 pkt
      in writeUInt16LE port 126 pkt)"

definition buildVerbatimProbeReport :: "nat \<Rightarrow> device_config \<Rightarrow> bytes option" where
  "buildVerbatimProbeReport byte0 deviceConfig =
     (if byte0 = REPORT_SECONDARY_DETECT then
        Some (put (alloc SECONDARY_DETECT_RESPONSE_SIZE) 0 (of_nat REPORT_SECONDARY_DETECT))
      else if byte0 = 0xa1 then
        Some (buildVidPidReport 0xa1 32 ELGATO_VID (productId deviceConfig) 2 4)
      else if byte0 = 0xa4 then
        Some (buildFwReport 0xa4 32 5 (childFirmwareVersion deviceConfig) [])
      else None)"

definition childDeviceId :: "device_config \<Rightarrow> string" where
  "childDeviceId cfg = take 12 (childSerialNumber cfg)"

definition fwFieldReport :: "nat \<Rightarrow> device_config \<Rightarrow> bytes" where
  "fwFieldReport reportId cfg =
     buildFwReport reportId 32 6 (childFirmwareVersion cfg) [FW_VERSION_FIELD_LEN]"

text \<open>The GET_REPORT table: report id to builder; the debug traces are not modelled.\<close>

definition CHILD_REPORT_SPECS :: "(nat \<times> (device_config \<Rightarrow> nat \<Rightarrow> bytes)) list" where
  "CHILD_REPORT_SPECS =
    [ (0x03, \<lambda>c _. buildSerialReport 0x03 SERIAL_REPORT_SIZE 5 (childSerialNumber c) []),
      (0x04, \<lambda>c _. buildFwReport 0x04 FIRMWARE_REPORT_SIZE 5 (childFirmwareVersion c) []),
      (REPORT_FIRMWARE_VERSION, \<lambda>c _. buildFwReport REPORT_FIRMWARE_VERSION FIRMWARE_REPORT_SIZE 6
          (childFirmwareVersion c) [0x0c, 0xf4, 0x5f, 0xed, 0xa6]),
      (REPORT_SERIAL_NUMBER, \<lambda>c _. buildSerialReport REPORT_SERIAL_NUMBER SERIAL_REPORT_SIZE 2
          (childDeviceId c) [0x0c]),
      (REPORT_DEVICE_INFO, \<lambda>c _. buildVidPidReport REPORT_DEVICE_INFO DEVICE_INFO_REPORT_SIZE
          ELGATO_VID (productId c) DEVICE_INFO_VID_OFFSET DEVICE_INFO_PID_OFFSET),
      (0x11, \<lambda>c i. fwFieldReport i c),
      (0x13, \<lambda>c i. fwFieldReport i c) ]"

section \<open>Stream Deck + input reports\<close>

datatype touch_type = Tap | Hold | Swipe

record touch_event =
  te_type :: touch_type
  te_x :: int
  te_y :: int
  te_endX :: "int option"
  te_endY :: "int option"

definition touch_code :: "touch_type \<Rightarrow> nat" where
  "touch_code t = (case t of Tap \<Rightarrow> 0x01 | Hold \<Rightarrow> 0x02 | Swipe \<Rightarrow> 0x03)"

abbreviation (input) ENCODER_PRESS :: nat where "ENCODER_PRESS \<equiv> 0x00"
abbreviation (input) ENCODER_ROTATE :: nat where "ENCODER_ROTATE \<equiv> 0x01"

definition encoderReport :: "nat \<Rightarrow> nat \<Rightarrow> bytes" where
  "encoderReport count kind =
     (let pkt = alloc ELGATO_PKT_SIZE_TX;
          pkt = put pkt 0 (of_nat REPORT_BUTTON_STATE_INPUT);
          pkt = put pkt 1 (of_nat INPUT_SUBTYPE_ENCODER);
          pkt = put pkt 2 (of_nat (1 + count))
      in put pkt 4 (of_nat kind))"

text \<open>\<^verbatim>\<open>(mask >> i) & 1\<close>: the shift count is taken modulo 32.\<close>

definition mask_bit :: "32 word \<Rightarrow> nat \<Rightarrow> nat" where
  "mask_bit m i = of_bool (bit m (i mod 32))"

definition buildEncoderPressReport :: "nat \<Rightarrow> 32 word \<Rightarrow> bytes" where
  "buildEncoderPressReport count m =
     put_all (encoderReport count ENCODER_PRESS) 5 (map (mask_bit m) [0..<count])"

definition buildEncoderRotateReport :: "nat \<Rightarrow> nat \<Rightarrow> int \<Rightarrow> bytes" where
  "buildEncoderRotateReport count index delta =
     put (encoderReport count ENCODER_ROTATE) (5 + index)
       (of_int (max (-128) (min 127 delta)))"

definition clamp_to :: "nat \<Rightarrow> int \<Rightarrow> nat" where
  "clamp_to limit v = nat (max 0 (min (int limit - 1) v))"

definition buildTouchReport :: "touch_event \<Rightarrow> nat \<Rightarrow> nat \<Rightarrow> bytes" where
  "buildTouchReport event width height =
     (let hasEnd = (te_type event = Swipe);
          pkt = alloc ELGATO_PKT_SIZE_TX;
          pkt = put pkt 0 (of_nat REPORT_BUTTON_STATE_INPUT);
          pkt = put pkt 1 (of_nat INPUT_SUBTYPE_TOUCH);
          pkt = put pkt 2 (of_nat (if hasEnd then 0x0e else 0x0a));
          pkt = put pkt 4 (of_nat (touch_code (te_type event)));
          pkt = put pkt 5 0;
          pkt = writeUInt16LE (clamp_to width (te_x event)) 6 pkt;
          pkt = writeUInt16LE (clamp_to height (te_y event)) 8 pkt
      in if hasEnd then
           (let pkt = writeUInt16LE (clamp_to width (or_default (te_endX event) (te_x event))) 10 pkt
            in writeUInt16LE (clamp_to height (or_default (te_endY event) (te_y event))) 12 pkt)
         else pkt)"

section \<open>Layout laws\<close>

lemma ascii_length [simp]: "length (ascii_bytes s) = length s"
  by (simp add: ascii_bytes_def)

lemma fwVersionBuf_length [simp]: "length (fwVersionBuf v) = 8"
  by (simp add: fwVersionBuf_def padEnd_def)

lemma report_lengths [simp]:
  "fwOffset \<le> n \<Longrightarrow> length (buildFwReport rid n fwOffset v pre) = n"
  "length (buildVidPidReport rid n vid pid vo po) = n"
  "so \<le> n \<Longrightarrow> length (buildSerialReport rid n so s pre) = n"
  "10 \<le> n \<Longrightarrow> length (buildFeatureResponse rid c n) = n"
  "length (buildCapabilitiesPacket c port g) = ELGATO_PKT_SIZE_RX"
  "length (encoderReport k kind) = ELGATO_PKT_SIZE_TX"
  "length (buildEncoderPressReport k m) = ELGATO_PKT_SIZE_TX"
  "length (buildEncoderRotateReport k i delta) = ELGATO_PKT_SIZE_TX"
  "length (buildTouchReport e w h) = ELGATO_PKT_SIZE_TX"
  by (simp_all add: buildFwReport_def buildVidPidReport_def buildSerialReport_def
      buildFeatureResponse_def buildCapabilitiesPacket_def encoderReport_def
      buildEncoderPressReport_def buildEncoderRotateReport_def buildTouchReport_def Let_def)

text \<open>The capabilities packet carries every geometry and identity field at its offset, at
  its width: no later field overwrites an earlier one, whatever the lengths of the product
  name and serial, and the serial is cut at 30 bytes.\<close>

theorem capabilities_layout:
  fixes c port g
  defines "p \<equiv> buildCapabilitiesPacket c port g"
  shows "map (at0 p) [0..<8] = [1, 0x0b, 0x00, 0x02, 0x02, of_nat (rows g), of_nat (columns g), of_nat (keyCount g)]
   \<and> map (readUInt16LE p) [8, 10, 12, 14] =
       map (\<lambda>v. v mod 2 ^ 16) [keyWidth g, keyHeight g, or_default (touchWidth g) 0, or_default (touchHeight g) 0]
   \<and> map (readUInt16LE p) [26, 28, 126] = map (\<lambda>v. v mod 2 ^ 16) [ELGATO_VID, productId c, port]
   \<and> map (at0 p) [30..<36] = ascii_bytes MANUFACTURER_STRING
   \<and> map (at0 p) [94..<94 + min 30 (length (childSerialNumber c))]
       = take 30 (ascii_bytes (childSerialNumber c))"
proof -
  note simps = p_def buildCapabilitiesPacket_def Let_def buffer_simps ascii_bytes_def
    readUInt16LE_sum byte_of_vals byte_digits16 subarray_def
  have u: "[0..<8] = [0, 1, 2, 3, 4, 5, 6, 7]" "[30..<36] = [30, 31, 32, 33, 34, 35 :: nat]"
    by (simp_all add: upt_rec)
  have 1: "map (at0 p) [0..<8] = [1, 0x0b, 0x00, 0x02, 0x02, of_nat (rows g), of_nat (columns g), of_nat (keyCount g)]"
    unfolding u by (simp add: simps byte_of_nat)
  have 2: "map (readUInt16LE p) [8, 10, 12, 14] =
       map (\<lambda>v. v mod 2 ^ 16) [keyWidth g, keyHeight g, or_default (touchWidth g) 0, or_default (touchHeight g) 0]"
    by (simp add: simps)
  have 3: "map (readUInt16LE p) [26, 28, 126] = map (\<lambda>v. v mod 2 ^ 16) [ELGATO_VID, productId c, port]"
    by (simp add: simps)
  have 4: "map (at0 p) [30..<36] = ascii_bytes MANUFACTURER_STRING"
    unfolding u by (simp add: simps)
  have 5: "map (at0 p) [94..<94 + min 30 (length (childSerialNumber c))]
       = take 30 (ascii_bytes (childSerialNumber c))"
    by (rule nth_equalityI) (simp_all add: simps)
  show ?thesis using 1 2 3 4 5 by blast
qed

lemma of_int_byte_signed:
  "-128 \<le> i \<Longrightarrow> i \<le> 127 \<Longrightarrow> sint (of_int i :: byte) = i"
  by (simp add: sint_sbintrunc' signed_take_bit_int_eq_self)

text \<open>The encoder reports of a deck whose encoders fit the packet: the press report carries
  bit i of the press mask in byte 5+i, the rotate report the delta, clamped to a signed byte,
  at the encoder's own position and 0 at every other encoder.\<close>

theorem encoder_reports:
  assumes "count \<le> 507" "index < count" "i < count"
  shows "at0 (buildEncoderPressReport count m) (5 + i) = of_nat (mask_bit m i)
   \<and> sint (at0 (buildEncoderRotateReport count index delta) (5 + i))
       = (if i = index then max (-128) (min 127 delta) else 0)
   \<and> map (at0 (buildEncoderPressReport count m)) [0, 1, 2, 4] = [0x01, 0x03, of_nat (1 + count), 0x00]
   \<and> map (at0 (buildEncoderRotateReport count index delta)) [0, 1, 2, 4]
       = [0x01, 0x03, of_nat (1 + count), 0x01]"
proof (intro conjI)
  show "at0 (buildEncoderPressReport count m) (5 + i) = of_nat (mask_bit m i)"
    using assms by (simp add: buildEncoderPressReport_def at0_put_all)
  show "sint (at0 (buildEncoderRotateReport count index delta) (5 + i))
       = (if i = index then max (-128) (min 127 delta) else 0)"
    using assms
    by (simp add: buildEncoderRotateReport_def encoderReport_def at0_put of_int_byte_signed)
  show "map (at0 (buildEncoderPressReport count m)) [0, 1, 2, 4] = [0x01, 0x03, of_nat (1 + count), 0x00]"
    by (simp add: buildEncoderPressReport_def at0_put_all encoderReport_def at0_put)
  show "map (at0 (buildEncoderRotateReport count index delta)) [0, 1, 2, 4]
       = [0x01, 0x03, of_nat (1 + count), 0x01]"
    by (simp add: buildEncoderRotateReport_def encoderReport_def at0_put)
qed

lemma clamp_to_less: "0 < limit \<Longrightarrow> clamp_to limit v < limit"
  by (auto simp: clamp_to_def)

lemma clamp_to_id: "0 \<le> v \<Longrightarrow> v < int limit \<Longrightarrow> clamp_to limit v = nat v"
  by (auto simp: clamp_to_def)

lemma touch_fields:
  fixes e w h
  defines "p \<equiv> buildTouchReport e w h"
  shows "readUInt16LE p 6 = clamp_to w (te_x e) mod 2 ^ 16"
    and "readUInt16LE p 8 = clamp_to h (te_y e) mod 2 ^ 16"
    and "readUInt16LE p 10 =
      (if te_type e = Swipe then clamp_to w (or_default (te_endX e) (te_x e)) mod 2 ^ 16 else 0)"
    and "readUInt16LE p 12 =
      (if te_type e = Swipe then clamp_to h (or_default (te_endY e) (te_y e)) mod 2 ^ 16 else 0)"
  by (simp_all add: p_def buildTouchReport_def Let_def buffer_simps readUInt16LE_sum
      byte_of_vals byte_digits16)

text \<open>A touch report always names a point of the strip (both ends of a swipe), and a tap or
  hold carries no end point.\<close>

theorem touch_report_in_strip:
  assumes "0 < w" "w \<le> 65536" "0 < h" "h \<le> 65536"
  shows "readUInt16LE (buildTouchReport e w h) 6 < w \<and> readUInt16LE (buildTouchReport e w h) 8 < h
    \<and> readUInt16LE (buildTouchReport e w h) 10 < w \<and> readUInt16LE (buildTouchReport e w h) 12 < h
    \<and> (0 \<le> te_x e \<longrightarrow> te_x e < int w \<longrightarrow> readUInt16LE (buildTouchReport e w h) 6 = nat (te_x e))
    \<and> (0 \<le> te_y e \<longrightarrow> te_y e < int h \<longrightarrow> readUInt16LE (buildTouchReport e w h) 8 = nat (te_y e))"
proof -
  have "clamp_to w v mod 2 ^ 16 = clamp_to w v" "clamp_to h v mod 2 ^ 16 = clamp_to h v" for v
    using clamp_to_less[of w v] clamp_to_less[of h v] assms by simp_all
  then show ?thesis
    using assms by (simp add: touch_fields clamp_to_less clamp_to_id)
qed

end
