(* ===== verification/Image_Assembler.thy ===== *)
theory Image_Assembler
  imports Cora_Protocol
begin

text \<open>
  \<^verbatim>\<open>cora/image-assembler.ts\<close> and \<^verbatim>\<open>cora/touch-strip-assembler.ts\<close>: reassembly of chunked
  key images under a per-key cap, a chunk cap and an aggregate byte budget.

  One connection has four page maps sharing one \<^verbatim>\<open>AssemblyBudget\<close>; \<open>owner\<close> names the map.
  The budget's Set of assembly objects is the ordered map \<open>live\<close> from (owner, key) to the
  time of the last touch: a page map holds at most one assembly per key, and an assembly
  leaves the set whenever it leaves its map, so the pair identifies the object.  The running
  total is an integer, as the source subtracts from it.  \<^verbatim>\<open>Date.now()\<close> is the argument \<open>now\<close>.
  Warnings are not modelled.
\<close>

declare split_paired_All [simp del] split_paired_Ex [simp del]

section \<open>State\<close>

datatype owner = ImagePages | Gen1Pages | WindowPages | PartialPages

record assembly =
  chunks :: "bytes list"
  abytes :: nat

type_synonym akey = "owner \<times> int"

record assembler =
  pages :: "owner \<Rightarrow> (int \<times> assembly) list"
  live :: "(akey \<times> nat) list"
  total :: int

datatype image_format = Jpeg | Bmp

record image_event =
  ie_key :: int
  ie_data :: bytes
  ie_format :: image_format

record region =
  rx :: nat
  ry :: nat
  rw :: nat
  rh :: nat

definition page_at :: "assembler \<Rightarrow> akey \<Rightarrow> assembly option" where
  "page_at s x = map_of (pages s (fst x)) (snd x)"

definition bytes_at :: "assembler \<Rightarrow> akey \<Rightarrow> nat" where
  "bytes_at s x = (case page_at s x of None \<Rightarrow> 0 | Some a \<Rightarrow> abytes a)"

definition set_page :: "assembler \<Rightarrow> akey \<Rightarrow> assembly \<Rightarrow> assembler" where
  "set_page s x a = s\<lparr>pages := (pages s)(fst x := AList.update (snd x) a (pages s (fst x)))\<rparr>"

definition del_page :: "assembler \<Rightarrow> akey \<Rightarrow> assembler" where
  "del_page s x = s\<lparr>pages := (pages s)(fst x := AList.delete (snd x) (pages s (fst x)))\<rparr>"

definition empty_assembler :: assembler where
  "empty_assembler = \<lparr> pages = (\<lambda>_. []), live = [], total = 0 \<rparr>"

section \<open>AssemblyBudget\<close>

definition budget_clear :: "assembler \<Rightarrow> assembler" where
  "budget_clear s = s\<lparr>live := [], total := 0\<rparr>"

definition release :: "assembler \<Rightarrow> akey \<Rightarrow> assembler" where
  "release s x =
     (if map_of (live s) x \<noteq> None
      then s\<lparr>live := AList.delete x (live s), total := total s - int (bytes_at s x)\<rparr>
      else s)"

definition evict :: "assembler \<Rightarrow> akey \<Rightarrow> assembler" where
  "evict s x = del_page (release s x) x"

lemma evict_live: "live (evict s x) = AList.delete x (live s)"
  by (auto simp: evict_def release_def del_page_def om_delete_fresh)

function expireStale :: "nat \<Rightarrow> assembler \<Rightarrow> assembler" where
  "expireStale now s =
     (case live s of
        [] \<Rightarrow> s
      | (x, touchedAt) # _ \<Rightarrow>
          if int now - int touchedAt < int ASSEMBLY_STALE_MS then s
          else expireStale now (evict s x))"
  by pat_completeness auto
termination
  by (relation "measure (\<lambda>(now, s). length (live s))") (auto simp: evict_live le_imp_less_Suc AList.length_delete_le)

text \<open>The eviction loop of \<^verbatim>\<open>charge\<close>; \<open>ab\<close> is \<^verbatim>\<open>a.bytes\<close>.  The set cannot be empty there.\<close>

function charge_loop :: "akey \<Rightarrow> nat \<Rightarrow> nat \<Rightarrow> assembler \<Rightarrow> assembler \<times> bool" where
  "charge_loop a ab delta s =
     (if total s \<le> int MAX_TOTAL_ASSEMBLY_BYTES then (s, True)
      else (case live s of
          [] \<Rightarrow> (s, True)
        | (oldest, _) # _ \<Rightarrow>
            if oldest = a
            then (s\<lparr>total := total s - int (ab + delta), live := AList.delete a (live s)\<rparr>, False)
            else charge_loop a ab delta (evict s oldest)))"
  by pat_completeness auto
termination
  by (relation "measure (\<lambda>(a, ab, delta, s). length (live s))")
    (auto simp: evict_live le_imp_less_Suc AList.length_delete_le)

declare expireStale.simps [simp del] charge_loop.simps [simp del]

definition charge :: "assembler \<Rightarrow> akey \<Rightarrow> nat \<Rightarrow> nat \<Rightarrow> nat \<Rightarrow> assembler \<times> bool" where
  "charge s a ab delta now =
     (let s = (if map_of (live s) a = None then expireStale now s
               else s\<lparr>live := AList.delete a (live s)\<rparr>);
          s = s\<lparr>live := live s @ [(a, now)], total := total s + int delta\<rparr>
      in charge_loop a ab delta s)"

section \<open>Accumulation\<close>

definition discard :: "assembler \<Rightarrow> akey \<Rightarrow> assembler" where
  "discard s x = del_page (if page_at s x \<noteq> None then release s x else s) x"

text \<open>\<^verbatim>\<open>accumulateChunk\<close>: the new state and the assembly, or None where a cap dropped it.\<close>

definition accumulateChunk ::
  "assembler \<Rightarrow> akey \<Rightarrow> bytes \<Rightarrow> nat option \<Rightarrow> nat \<Rightarrow> assembler \<times> assembly option" where
  "accumulateChunk s x chunk maxPages now =
     (let (s, a) = (case page_at s x of
          Some a \<Rightarrow> (s, a)
        | None \<Rightarrow>
            ((case maxPages of
                Some m \<Rightarrow> (if m \<le> length (pages s (fst x))
                           then (case pages s (fst x) of [] \<Rightarrow> s | (k, _) # _ \<Rightarrow> discard s (fst x, k))
                           else s)
              | None \<Rightarrow> s), \<lparr> chunks = [], abytes = 0 \<rparr>))
      in if MAX_IMAGE_ASSEMBLY_BYTES < abytes a + length chunk then (discard s x, None)
         else if 0 < length chunk \<and> MAX_IMAGE_ASSEMBLY_CHUNKS \<le> length (chunks a)
           then (discard s x, None)
         else (case charge s x (abytes a) (length chunk) now of
             (s, False) \<Rightarrow> (del_page s x, None)
           | (s, True) \<Rightarrow>
               let a = \<lparr> chunks = (if 0 < length chunk then chunks a @ [chunk] else chunks a),
                         abytes = abytes a + length chunk \<rparr>
               in (set_page s x a, Some a)))"

definition consolidate :: "assembly \<Rightarrow> nat \<Rightarrow> bytes" where
  "consolidate acc limit =
     (case chunks acc of
        [c] \<Rightarrow> subarray c 0 limit
      | cs \<Rightarrow> buffer_concat cs (Some limit))"

section \<open>Chunk handlers\<close>

definition assembleImageChunk ::
  "assembler \<Rightarrow> owner \<Rightarrow> bytes \<Rightarrow> nat option \<Rightarrow> nat \<Rightarrow> assembler \<times> image_event option" where
  "assembleImageChunk s own pkt maxPages now =
     (if length pkt \<le> IMAGE_CHUNK_KEY_OFFSET then (s, None)
      else let keyIndex = uint (pkt ! IMAGE_CHUNK_KEY_OFFSET); x = (own, keyIndex) in
      if length pkt < ELGATO_IMAGE_HEADER_SIZE then (discard s x, None)
      else let isLast = (pkt ! IMAGE_CHUNK_FLAG_OFFSET = of_nat IMAGE_CHUNK_LAST_FLAG);
               bodyLength = readUInt16LE pkt IMAGE_CHUNK_LEN_OFFSET in
      if length pkt - ELGATO_IMAGE_HEADER_SIZE < bodyLength then (discard s x, None)
      else if \<not> isLast \<and> bodyLength = 0 then (discard s x, None)
      else let chunk = subarray pkt ELGATO_IMAGE_HEADER_SIZE (ELGATO_IMAGE_HEADER_SIZE + bodyLength) in
      case accumulateChunk s x chunk maxPages now of
        (s, None) \<Rightarrow> (s, None)
      | (s, Some acc) \<Rightarrow>
          if \<not> isLast then (s, None)
          else (discard s x, Some \<lparr> ie_key = keyIndex, ie_data = consolidate acc (abytes acc),
                                    ie_format = Jpeg \<rparr>))"

definition gen1_limit :: "assembly \<Rightarrow> nat" where
  "gen1_limit acc =
     (case chunks acc of
        [] \<Rightarrow> abytes acc
      | first # _ \<Rightarrow>
          if 6 \<le> length first \<and> first ! 0 = 0x42 \<and> first ! 1 = 0x4d
          then (let bfSize = readUInt32LE first 2
                in if bfSize \<le> abytes acc then bfSize else abytes acc)
          else abytes acc)"

definition assembleGen1ImageChunk ::
  "assembler \<Rightarrow> bytes \<Rightarrow> nat \<Rightarrow> assembler \<times> image_event option" where
  "assembleGen1ImageChunk s pkt now =
     (if length pkt \<le> GEN1_IMAGE_KEY_OFFSET then (s, None)
      else let keyIndex = uint (pkt ! GEN1_IMAGE_KEY_OFFSET) - 1; x = (Gen1Pages, keyIndex) in
      if length pkt < GEN1_IMAGE_HEADER_SIZE then (discard s x, None)
      else let isLast = (pkt ! GEN1_IMAGE_LAST_OFFSET = of_nat IMAGE_CHUNK_LAST_FLAG) in
      if \<not> isLast \<and> length pkt = GEN1_IMAGE_HEADER_SIZE then (discard s x, None)
      else case accumulateChunk s x (drop GEN1_IMAGE_HEADER_SIZE pkt) None now of
        (s, None) \<Rightarrow> (s, None)
      | (s, Some acc) \<Rightarrow>
          if \<not> isLast then (s, None)
          else (discard s x, Some \<lparr> ie_key = keyIndex, ie_data = consolidate acc (gen1_limit acc),
                                    ie_format = Bmp \<rparr>))"

abbreviation (input) MAX_PARTIAL_WINDOW_ASSEMBLIES :: nat where "MAX_PARTIAL_WINDOW_ASSEMBLIES \<equiv> 8"
abbreviation (input) MAX_WINDOW_ASSEMBLIES :: nat where "MAX_WINDOW_ASSEMBLIES \<equiv> 2"
abbreviation (input) PLUS_TOUCH_WIDTH :: nat where "PLUS_TOUCH_WIDTH \<equiv> 800"
abbreviation (input) PLUS_TOUCH_HEIGHT :: nat where "PLUS_TOUCH_HEIGHT \<equiv> 100"

definition region_key :: "region \<Rightarrow> int" where
  "region_key r = ((int (rx r) * 128 + int (ry r)) * 1024 + int (rw r)) * 128 + int (rh r)"

definition assemblePartialWindowChunk ::
  "assembler \<Rightarrow> bytes \<Rightarrow> nat \<Rightarrow> assembler \<times> (region \<times> bytes) option" where
  "assemblePartialWindowChunk s pkt now =
     (if length pkt < PARTIAL_WINDOW_HEADER_SIZE then (s, None)
      else let x = readUInt16LE pkt PARTIAL_WINDOW_X_OFFSET;
               y = readUInt16LE pkt PARTIAL_WINDOW_Y_OFFSET;
               w = readUInt16LE pkt PARTIAL_WINDOW_W_OFFSET;
               h = readUInt16LE pkt PARTIAL_WINDOW_H_OFFSET in
      if w = 0 \<or> h = 0 \<or> PLUS_TOUCH_WIDTH < x + w \<or> PLUS_TOUCH_HEIGHT < y + h then (s, None)
      else let r = \<lparr> rx = x, ry = y, rw = w, rh = h \<rparr>;
               key = (PartialPages, region_key r);
               isLast = (pkt ! PARTIAL_WINDOW_LAST_OFFSET = of_nat IMAGE_CHUNK_LAST_FLAG);
               bodyLength = readUInt16LE pkt PARTIAL_WINDOW_SIZE_OFFSET in
      if length pkt - PARTIAL_WINDOW_HEADER_SIZE < bodyLength then (discard s key, None)
      else let chunk = subarray pkt PARTIAL_WINDOW_HEADER_SIZE
                         (PARTIAL_WINDOW_HEADER_SIZE + bodyLength) in
      case accumulateChunk s key chunk (Some MAX_PARTIAL_WINDOW_ASSEMBLIES) now of
        (s, None) \<Rightarrow> (s, None)
      | (s, Some acc) \<Rightarrow>
          if \<not> isLast then (s, None)
          else (discard s key, Some (r, consolidate acc (abytes acc))))"

text \<open>\<^verbatim>\<open>TouchStripAssembler.accept\<close>: full-LCD output has no surface and is dropped.\<close>

definition touch_accept ::
  "assembler \<Rightarrow> nat \<Rightarrow> bytes \<Rightarrow> nat \<Rightarrow> assembler \<times> (bytes \<times> region option) option" where
  "touch_accept s cmd pkt now =
     (if cmd = IMG_CMD_LCD then (s, None)
      else if cmd = IMG_CMD_WINDOW_PARTIAL then
        (case assemblePartialWindowChunk s pkt now of
           (s, None) \<Rightarrow> (s, None)
         | (s, Some (r, d)) \<Rightarrow> (s, Some (d, Some r)))
      else
        (case assembleImageChunk s WindowPages pkt (Some MAX_WINDOW_ASSEMBLIES) now of
           (s, None) \<Rightarrow> (s, None)
         | (s, Some e) \<Rightarrow> (s, Some (ie_data e, None))))"

definition touch_reset :: "assembler \<Rightarrow> assembler" where
  "touch_reset s = s\<lparr>pages := (pages s)(WindowPages := [], PartialPages := [])\<rparr>"

text \<open>\<^verbatim>\<open>ElgatoChildServer.resetAssemblies\<close>: fresh maps, and the shared budget cleared.\<close>

definition resetAssemblies :: "assembler \<Rightarrow> assembler" where
  "resetAssemblies s =
     budget_clear (touch_reset (s\<lparr>pages := (pages s)(ImagePages := [], Gen1Pages := [])\<rparr>))"

section \<open>The budget invariant\<close>

definition live_sum :: "assembler \<Rightarrow> nat" where
  "live_sum s = sum_list (map (bytes_at s \<circ> fst) (live s))"

definition page_ok :: "assembly \<Rightarrow> bool" where
  "page_ok a \<longleftrightarrow> abytes a = sum_list (map length (chunks a)) \<and> abytes a \<le> MAX_IMAGE_ASSEMBLY_BYTES
     \<and> length (chunks a) \<le> MAX_IMAGE_ASSEMBLY_CHUNKS \<and> [] \<notin> set (chunks a)"

text \<open>The accounting part, with \<open>d\<close> bytes charged to a not yet stored assembly \<open>x\<close>; \<open>ex\<close> are the
  keys whose membership in the budget and the maps may differ.\<close>

definition accounted :: "akey set \<Rightarrow> nat \<Rightarrow> assembler \<Rightarrow> bool" where
  "accounted ex d s \<longleftrightarrow>
     (\<forall>own. distinct (keys_of (pages s own))) \<and> distinct (keys_of (live s))
     \<and> (\<forall>x. x \<notin> ex \<longrightarrow> x \<in> fst ` set (live s) \<longleftrightarrow> page_at s x \<noteq> None)
     \<and> (\<forall>x a. page_at s x = Some a \<longrightarrow> page_ok a)
     \<and> total s = int (live_sum s) + int d"

definition inv :: "assembler \<Rightarrow> bool" where
  "inv s \<longleftrightarrow> accounted {} 0 s \<and> total s \<le> int MAX_TOTAL_ASSEMBLY_BYTES"

lemma page_at_set [simp]:
  "page_at (set_page s x a) y = (if y = x then Some a else page_at s y)"
  by (cases x; cases y) (auto simp: page_at_def set_page_def)

lemma page_at_del [simp]:
  "page_at (del_page s x) y = (if y = x then None else page_at s y)"
  by (cases x; cases y) (auto simp: page_at_def del_page_def)

lemma page_at_frame [simp]:
  "page_at (s\<lparr>live := l\<rparr>) y = page_at s y" "page_at (s\<lparr>total := n\<rparr>) y = page_at s y"
  "page_at (release s x) y = page_at s y"
  by (simp_all add: page_at_def release_def)

lemma live_frame [simp]:
  "live (set_page s x a) = live s" "live (del_page s x) = live s"
  "total (set_page s x a) = total s" "total (del_page s x) = total s"
  "pages (release s x) = pages s"
  by (simp_all add: set_page_def del_page_def release_def)

lemma bytes_at_frame [simp]:
  "bytes_at (s\<lparr>live := l\<rparr>) y = bytes_at s y" "bytes_at (s\<lparr>total := n\<rparr>) y = bytes_at s y"
  "bytes_at (release s x) y = bytes_at s y"
  "bytes_at (del_page s x) y = (if y = x then 0 else bytes_at s y)"
  "bytes_at (set_page s x a) y = (if y = x then abytes a else bytes_at s y)"
  by (simp_all add: bytes_at_def)

lemma bytes_at_fun [simp]:
  "bytes_at (s\<lparr>live := l\<rparr>) = bytes_at s" "bytes_at (s\<lparr>total := n\<rparr>) = bytes_at s"
  "bytes_at (release s x) = bytes_at s"
  by (rule ext, simp)+

lemma pages_distinct_frame [simp]:
  assumes "\<forall>own. distinct (keys_of (pages s own))"
  shows "distinct (keys_of (pages (set_page s x a) own))" "distinct (keys_of (pages (del_page s x) own))"
  using assms by (simp_all add: set_page_def del_page_def)

lemma evict_total:
  assumes "accounted ex d s" "x \<in> fst ` set (live s)"
  shows "live_sum (evict s x) + bytes_at s x = live_sum s"
    "total (evict s x) = total s - int (bytes_at s x)"
proof -
  have "distinct (keys_of (live s))" using assms by (simp add: accounted_def)
  then have "sum_list (map (bytes_at s \<circ> fst) (live (evict s x))) + bytes_at s x = live_sum s"
    using assms(2) by (simp add: evict_live live_sum_def sum_keys_delete)
  moreover have "live_sum (evict s x) = sum_list (map (bytes_at s \<circ> fst) (live (evict s x)))"
    unfolding live_sum_def
  proof (rule sum_keys_cong)
    fix y
    assume "y \<in> fst ` set (live (evict s x))"
    then have "y \<noteq> x" by (simp add: evict_live)
    then show "bytes_at (evict s x) y = bytes_at s y" by (simp add: evict_def)
  qed
  ultimately show "live_sum (evict s x) + bytes_at s x = live_sum s" by simp
  show "total (evict s x) = total s - int (bytes_at s x)"
    using assms(2) by (simp add: evict_def release_def map_of_key)
qed

lemma evict_pages [simp]: "page_at (evict s x) y = (if y = x then None else page_at s y)"
  by (simp add: evict_def)

lemma accounted_evict:
  assumes "accounted ex d s" "x \<in> fst ` set (live s)"
  shows "accounted ex d (evict s x)"
proof -
  have "distinct (keys_of (pages (evict s x) own))" for own
    using assms by (auto simp: accounted_def evict_def)
  then show ?thesis
    using assms evict_total[OF assms] unfolding accounted_def evict_live by (auto split: if_splits)
qed

lemma expire_accounted:
  "accounted ex d s \<Longrightarrow> accounted ex d (expireStale now s)
     \<and> total (expireStale now s) \<le> total s
     \<and> set (live (expireStale now s)) \<subseteq> set (live s)
     \<and> (\<forall>y. y \<notin> fst ` set (live s) \<longrightarrow> page_at (expireStale now s) y = page_at s y)"
proof (induction now s rule: expireStale.induct)
  case (1 now s)
  show ?case
  proof (cases "live s")
    case Nil
    then show ?thesis using 1 by (simp add: expireStale.simps[of now s])
  next
    case (Cons p xs)
    obtain x t where p: "p = (x, t)" by (cases p)
    show ?thesis
    proof (cases "int now - int t < int ASSEMBLY_STALE_MS")
      case True
      then show ?thesis using 1 Cons p by (simp add: expireStale.simps[of now s])
    next
      case False
      have m: "x \<in> fst ` set (live s)" using Cons p by simp
      have e: "expireStale now s = expireStale now (evict s x)"
        using Cons p False by (simp add: expireStale.simps[of now s])
      have "set (live (evict s x)) \<subseteq> set (live s)"
        by (auto simp: evict_live AList.delete_eq)
      moreover have "fst ` set (live (evict s x)) = fst ` set (live s) - {x}"
        by (simp add: evict_live)
      ultimately show ?thesis
        using 1(1)[OF Cons p[symmetric] False accounted_evict[OF 1(2) m]]
          evict_total(2)[OF 1(2) m] m
        by (auto simp: e)
    qed
  qed
qed

lemma charge_loop_spec:
  assumes "accounted {a} delta s" "live s = ys @ [(a, now)]" "bytes_at s a = ab"
    "charge_loop a ab delta s = (s', ok)"
  shows "total s' \<le> int MAX_TOTAL_ASSEMBLY_BYTES \<and> page_at s' a = page_at s a
    \<and> (ab + delta \<le> MAX_TOTAL_ASSEMBLY_BYTES \<longrightarrow> ok)
    \<and> (ok \<longrightarrow> accounted {a} delta s' \<and> a \<in> fst ` set (live s'))
    \<and> (\<not> ok \<longrightarrow> live s' = [] \<and> accounted {a} 0 s')"
  using assms
proof (induction ys arbitrary: s)
  case Nil
  then show ?case
    by (auto simp: charge_loop.simps[of a ab delta s] accounted_def live_sum_def split: if_splits)
next
  case (Cons p ys)
  obtain x t where p: "p = (x, t)" by (cases p)
  have dist: "distinct (keys_of (live s))" using Cons.prems by (simp add: accounted_def)
  then have xa: "x \<noteq> a" "x \<notin> fst ` set ys" using Cons.prems(2) p by auto
  show ?case
  proof (cases "total s \<le> int MAX_TOTAL_ASSEMBLY_BYTES")
    case True
    then show ?thesis using Cons.prems by (auto simp: charge_loop.simps[of a ab delta s])
  next
    case False
    have m: "x \<in> fst ` set (live s)" using Cons.prems(2) p by simp
    have "charge_loop a ab delta (evict s x) = (s', ok)"
      using Cons.prems(4) False Cons.prems(2) p xa by (simp add: charge_loop.simps[of a ab delta s])
    moreover have "live (evict s x) = ys @ [(a, now)]"
      using Cons.prems(2) p xa by (simp add: evict_live om_delete_fresh map_of_key)
    ultimately show ?thesis
      using Cons.IH[OF accounted_evict[OF Cons.prems(1) m]] Cons.prems(3) xa
      by (simp add: bytes_at_def)
  qed
qed

lemma accounted_weaken: "accounted ex d s \<Longrightarrow> ex \<subseteq> ex' \<Longrightarrow> accounted ex' d s"
  unfolding accounted_def by blast

lemma accounted_release:
  assumes "accounted ex d s"
  shows "accounted (insert x ex) d (release s x)"
proof (cases "x \<in> fst ` set (live s)")
  case True
  then have "live_sum (release s x) + bytes_at s x = live_sum s"
    using assms unfolding live_sum_def bytes_at_fun
    by (simp add: release_def sum_keys_delete accounted_def map_of_key)
  then show ?thesis
    using assms True unfolding accounted_def by (auto simp: release_def map_of_key)
next
  case False
  then show ?thesis
    using assms accounted_weaken[of ex d s "insert x ex"] by (auto simp: release_def map_of_key)
qed

lemma accounted_del:
  assumes "accounted ex d s" "x \<notin> fst ` set (live s)"
  shows "accounted (ex - {x}) d (del_page s x)"
proof -
  have "live_sum (del_page s x) = live_sum s"
    unfolding live_sum_def live_frame by (rule sum_keys_cong) (use assms(2) in auto)
  then show ?thesis using assms unfolding accounted_def by (auto split: if_splits)
qed

lemma release_live: "live (release s x) = AList.delete x (live s)"
  by (auto simp: release_def om_delete_fresh)

lemma release_total_le:
  "total (release s x) \<le> total s"
  by (simp add: release_def)

lemma discard_page [simp]: "page_at (discard s x) y = (if y = x then None else page_at s y)"
  by (simp add: discard_def)

lemma discard_inv:
  assumes "inv s" shows "inv (discard s x)"
proof -
  have a: "accounted {} 0 s" and t: "total s \<le> int MAX_TOTAL_ASSEMBLY_BYTES" using assms by (simp_all add: inv_def)
  have "accounted ({x} - {x}) 0 (discard s x)"
  proof (cases "page_at s x = None")
    case True
    then have "x \<notin> fst ` set (live s)" using a unfolding accounted_def by blast
    then show ?thesis
      using True accounted_del[OF accounted_weaken[OF a], of "{x}" x] by (simp add: discard_def)
  next
    case False
    then show ?thesis
      using accounted_del[OF accounted_release[OF a, of x], of x] by (simp add: discard_def release_live)
  qed
  moreover have "total (discard s x) \<le> total s" by (simp add: discard_def release_total_le)
  ultimately show "inv (discard s x)" using t by (simp add: inv_def)
qed

text \<open>\<open>charge\<close> on an assembly that is either live with its stored bytes, or new with none.\<close>

lemma charge_spec:
  assumes "inv s" "charge s a (bytes_at s a) delta now = (s', ok)"
  shows "total s' \<le> int MAX_TOTAL_ASSEMBLY_BYTES \<and> page_at s' a = page_at s a
    \<and> (bytes_at s a + delta \<le> MAX_TOTAL_ASSEMBLY_BYTES \<longrightarrow> ok)
    \<and> (ok \<longrightarrow> accounted {a} delta s' \<and> a \<in> fst ` set (live s'))
    \<and> (\<not> ok \<longrightarrow> live s' = [] \<and> accounted {a} 0 s')"
proof -
  define r where "r = (if map_of (live s) a = None then expireStale now s
                       else s\<lparr>live := AList.delete a (live s)\<rparr>)"
  define s1 where "s1 = r\<lparr>live := live r @ [(a, now)], total := total r + int delta\<rparr>"
  have acc: "accounted {} 0 s" using assms(1) by (simp add: inv_def)
  have "accounted {a} delta s1 \<and> page_at s1 a = page_at s a"
  proof (cases "a \<in> fst ` set (live s)")
    case True
    then have r: "r = s\<lparr>live := AList.delete a (live s)\<rparr>" by (simp add: r_def map_of_key)
    have "live_sum s1 = live_sum s"
      using True acc by (simp add: s1_def r live_sum_def sum_keys_delete accounted_def)
    then show ?thesis using acc True unfolding accounted_def by (auto simp: s1_def r)
  next
    case False
    then have r: "r = expireStale now s" by (simp add: r_def map_of_key)
    note e = expire_accounted[OF acc, of now, folded r]
    have n: "page_at s a = None" using acc False unfolding accounted_def by blast
    have f: "a \<notin> fst ` set (live r)" using e False by blast
    have "page_at r a = None" using e False n by metis
    then have "live_sum s1 = live_sum r" "page_at s1 a = None"
      by (simp_all add: s1_def live_sum_def bytes_at_def)
    then show ?thesis using e n f unfolding accounted_def by (auto simp: s1_def)
  qed
  moreover have "charge_loop a (bytes_at s a) delta s1 = (s', ok)"
    using assms(2) unfolding charge_def Let_def s1_def r_def .
  moreover have "live s1 = live r @ [(a, now)]" by (simp add: s1_def)
  ultimately show ?thesis
    using charge_loop_spec[of a delta s1 "live r" now "bytes_at s a" s' ok] by (simp add: bytes_at_def)
qed

definition old_page :: "assembler \<Rightarrow> akey \<Rightarrow> assembly" where
  "old_page s x = (case page_at s x of Some a \<Rightarrow> a | None \<Rightarrow> \<lparr> chunks = [], abytes = 0 \<rparr>)"

definition add_chunk :: "assembly \<Rightarrow> bytes \<Rightarrow> assembly" where
  "add_chunk a c = \<lparr> chunks = (if 0 < length c then chunks a @ [c] else chunks a),
                     abytes = abytes a + length c \<rparr>"

definition make_room :: "assembler \<Rightarrow> akey \<Rightarrow> nat option \<Rightarrow> assembler" where
  "make_room s x maxPages =
     (case (page_at s x, maxPages) of
        (None, Some m) \<Rightarrow>
          if m \<le> length (pages s (fst x))
          then (case pages s (fst x) of [] \<Rightarrow> s | (k, _) # _ \<Rightarrow> discard s (fst x, k)) else s
      | _ \<Rightarrow> s)"

lemma accumulate_eq:
  "accumulateChunk s x c mp now =
     (let s0 = make_room s x mp; a = old_page s x in
      if MAX_IMAGE_ASSEMBLY_BYTES < abytes a + length c then (discard s0 x, None)
      else if 0 < length c \<and> MAX_IMAGE_ASSEMBLY_CHUNKS \<le> length (chunks a) then (discard s0 x, None)
      else (case charge s0 x (abytes a) (length c) now of
          (s, False) \<Rightarrow> (del_page s x, None)
        | (s, True) \<Rightarrow> (set_page s x (add_chunk a c), Some (add_chunk a c))))"
  by (auto simp: accumulateChunk_def make_room_def old_page_def add_chunk_def Let_def
      split: option.splits list.splits prod.splits bool.splits)

lemma make_room_inv:
  assumes "inv s"
  shows "inv (make_room s x mp)" "page_at (make_room s x mp) x = page_at s x"
proof -
  have "(fst x, k) \<noteq> x" if "page_at s x = None" "pages s (fst x) = (k, a) # ps" for k a ps
    using that by (cases x) (auto simp: page_at_def)
  then show "inv (make_room s x mp)" "page_at (make_room s x mp) x = page_at s x"
    using assms by (auto simp: make_room_def discard_inv split: option.splits list.splits)
qed

lemma old_page_facts:
  assumes "inv s"
  shows "bytes_at s x = abytes (old_page s x)" "page_ok (old_page s x)"
proof -
  have "page_ok a" if "page_at s x = Some a" for a
    using assms that unfolding inv_def accounted_def by blast
  then show "bytes_at s x = abytes (old_page s x)" "page_ok (old_page s x)"
    by (auto simp: bytes_at_def old_page_def page_ok_def split: option.splits)
qed

lemma accounted_set:
  assumes "accounted {x} delta s" "x \<in> fst ` set (live s)" "page_ok a"
    "abytes a = bytes_at s x + delta"
  shows "accounted {} 0 (set_page s x a)"
proof -
  have d: "distinct (keys_of (live s))" using assms(1) by (simp add: accounted_def)
  have e: "sum_list (map (bytes_at (set_page s x a) \<circ> fst) (AList.delete x (live s)))
      = sum_list (map (bytes_at s \<circ> fst) (AList.delete x (live s)))"
    by (rule sum_keys_cong) auto
  have "live_sum (set_page s x a) = live_sum s + delta"
    using sum_keys_delete[OF d assms(2), of "bytes_at s"]
      sum_keys_delete[OF d assms(2), of "bytes_at (set_page s x a)"] assms(4)
    by (simp add: live_sum_def e)
  then show ?thesis using assms unfolding accounted_def by (auto split: if_splits)
qed

lemma accumulate_spec:
  assumes "inv s" "accumulateChunk s x c mp now = (s', res)"
  shows "inv s'" "page_at s' x = res"
    "res = None \<or> res = Some (add_chunk (old_page s x) c)"
    "abytes (old_page s x) + length c \<le> MAX_IMAGE_ASSEMBLY_BYTES \<Longrightarrow>
     length (chunks (old_page s x)) < MAX_IMAGE_ASSEMBLY_CHUNKS \<Longrightarrow> res \<noteq> None"
proof -
  define s0 where "s0 = make_room s x mp"
  define a where "a = old_page s x"
  have i0: "inv s0" and p0: "page_at s0 x = page_at s x"
    using make_room_inv[OF assms(1)] by (simp_all add: s0_def)
  have b0: "bytes_at s0 x = abytes a" and ok: "page_ok a"
    using old_page_facts[OF assms(1), of x] p0 by (simp_all add: a_def bytes_at_def)
  have "inv s' \<and> page_at s' x = res \<and> (res = None \<or> res = Some (add_chunk a c)) \<and>
    (abytes a + length c \<le> MAX_IMAGE_ASSEMBLY_BYTES \<longrightarrow>
     length (chunks a) < MAX_IMAGE_ASSEMBLY_CHUNKS \<longrightarrow> res \<noteq> None)"
  proof (cases "MAX_IMAGE_ASSEMBLY_BYTES < abytes a + length c
      \<or> 0 < length c \<and> MAX_IMAGE_ASSEMBLY_CHUNKS \<le> length (chunks a)")
    case True
    then have "s' = discard s0 x" "res = None"
      using assms(2) by (auto simp: accumulate_eq Let_def s0_def a_def split: if_splits)
    then show ?thesis using discard_inv[OF i0] True by auto
  next
    case False
    obtain s1 ok1 where c: "charge s0 x (abytes a) (length c) now = (s1, ok1)" by fastforce
    note cs = charge_spec[OF i0 c[folded b0]]
    have r: "(s', res) = (if ok1 then (set_page s1 x (add_chunk a c), Some (add_chunk a c))
                          else (del_page s1 x, None))"
      using assms(2) False c by (auto simp: accumulate_eq Let_def s0_def[symmetric] a_def[symmetric])
    show ?thesis
    proof (cases ok1)
      case True
      have "page_ok (add_chunk a c)" using ok False by (auto simp: page_ok_def add_chunk_def)
      moreover have "abytes (add_chunk a c) = bytes_at s1 x + length c"
        using cs b0 by (simp add: add_chunk_def bytes_at_def)
      ultimately have "accounted {} 0 (set_page s1 x (add_chunk a c))"
        using cs True by (intro accounted_set) auto
      then show ?thesis using r True cs by (simp add: inv_def)
    next
      case no: False
      have "accounted ({x} - {x}) 0 (del_page s1 x)"
        using cs no by (intro accounted_del) auto
      then show ?thesis using r no cs b0 False by (simp add: inv_def)
    qed
  qed
  then show "inv s'" "page_at s' x = res"
    "res = None \<or> res = Some (add_chunk (old_page s x) c)"
    "abytes (old_page s x) + length c \<le> MAX_IMAGE_ASSEMBLY_BYTES \<Longrightarrow>
     length (chunks (old_page s x)) < MAX_IMAGE_ASSEMBLY_CHUNKS \<Longrightarrow> res \<noteq> None"
    by (simp_all add: a_def)
qed

section \<open>The handlers\<close>

lemma image_chunk_inv:
  assumes "inv s"
  shows "inv (fst (assembleImageChunk s own pkt mp now))"
proof -
  have "inv (fst (accumulateChunk s x c mp now))" for x c
    using accumulate_spec(1)[OF assms, of x c mp now] by (metis prod.collapse)
  then show ?thesis
    using assms by (auto simp: assembleImageChunk_def Let_def discard_inv
        split: prod.splits option.splits dest: accumulate_spec(1)[rotated])
qed

lemma gen1_chunk_inv:
  "inv s \<Longrightarrow> inv (fst (assembleGen1ImageChunk s pkt now))"
  by (auto simp: assembleGen1ImageChunk_def Let_def discard_inv
      split: prod.splits option.splits dest: accumulate_spec(1)[rotated])

lemma partial_chunk_inv:
  "inv s \<Longrightarrow> inv (fst (assemblePartialWindowChunk s pkt now))"
  by (auto simp: assemblePartialWindowChunk_def Let_def discard_inv
      split: prod.splits option.splits dest: accumulate_spec(1)[rotated])

lemma touch_accept_inv:
  "inv s \<Longrightarrow> inv (fst (touch_accept s cmd pkt now))"
  using partial_chunk_inv[of s pkt now] image_chunk_inv[of s WindowPages pkt "Some MAX_WINDOW_ASSEMBLIES" now]
  by (auto simp: touch_accept_def split: prod.splits option.splits)

lemma reset_pages: "pages (resetAssemblies s) own = []"
  by (cases own) (simp_all add: resetAssemblies_def touch_reset_def budget_clear_def)

lemma reset_inv: "inv (resetAssemblies s)"
  by (simp add: inv_def accounted_def reset_pages page_at_def live_sum_def)
    (simp add: resetAssemblies_def budget_clear_def)

lemma empty_inv: "inv empty_assembler"
  by (simp add: inv_def accounted_def empty_assembler_def page_at_def live_sum_def)

text \<open>Consolidation copies out the concatenation of the chunks.\<close>

lemma consolidate_limit:
  assumes "page_ok a" "n \<le> abytes a"
  shows "consolidate a n = take n (List.concat (chunks a))"
  using assms
  by (auto simp: consolidate_def buffer_concat_Some subarray_def page_ok_def length_concat
      split: list.splits)

lemma consolidate_all:
  "page_ok a \<Longrightarrow> consolidate a (abytes a) = List.concat (chunks a)"
  by (simp add: consolidate_limit) (simp add: page_ok_def length_concat)

text \<open>The wire form of a gen2 image packet, with any padding behind the body.\<close>

definition gen2_packet :: "byte \<Rightarrow> bool \<Rightarrow> bytes \<Rightarrow> bytes \<Rightarrow> bytes \<Rightarrow> bytes" where
  "gen2_packet k lst pg body pad =
     [0x02, 0x07, k, if lst then 1 else 0, byte_of (length body) 0, byte_of (length body) 8]
       @ pg @ body @ pad"

lemma gen2_packet_step:
  assumes "length pg = 2" "length body < 65536" "lst \<or> body \<noteq> []"
  shows "assembleImageChunk s own (gen2_packet k lst pg body pad) mp now =
    (case accumulateChunk s (own, uint k) body mp now of
        (s, None) \<Rightarrow> (s, None)
      | (s, Some acc) \<Rightarrow>
          if \<not> lst then (s, None)
          else (discard s (own, uint k),
                Some \<lparr> ie_key = uint k, ie_data = consolidate acc (abytes acc), ie_format = Jpeg \<rparr>))"
proof -
  have "readUInt16LE (gen2_packet k lst pg body pad) 4 = length body"
    using assms(2) by (simp add: gen2_packet_def readUInt16LE_sum byte_of_vals byte_digits16)
  moreover have "drop 8 (gen2_packet k lst pg body pad) = body @ pad"
    using assms(1) by (simp add: gen2_packet_def)
  ultimately show ?thesis
    using assms by (simp add: assembleImageChunk_def Let_def subarray_def)
      (auto simp: gen2_packet_def)
qed

fun assemble_run :: "assembler \<Rightarrow> owner \<Rightarrow> (bytes \<times> nat) list \<Rightarrow> assembler \<times> image_event list" where
  "assemble_run s own [] = (s, [])"
| "assemble_run s own ((pkt, now) # ps) =
    (let (s, e) = assembleImageChunk s own pkt None now; (s, es) = assemble_run s own ps
     in (s, (case e of None \<Rightarrow> es | Some ev \<Rightarrow> ev # es)))"

text \<open>An image cut into bodies, sent as packets with the last one flagged.\<close>

fun gen2_packets :: "byte \<Rightarrow> (bytes \<times> bytes \<times> bytes \<times> nat) list \<Rightarrow> (bytes \<times> nat) list" where
  "gen2_packets k [] = []"
| "gen2_packets k ((pg, body, pad, now) # bs) =
     (gen2_packet k (bs = []) pg body pad, now) # gen2_packets k bs"

abbreviation body_of :: "bytes \<times> bytes \<times> bytes \<times> nat \<Rightarrow> bytes" where
  "body_of b \<equiv> fst (snd b)"

lemma gen2_run:
  assumes "inv s" "bs \<noteq> []"
    "\<forall>b \<in> set bs. length (fst b) = 2 \<and> body_of b \<noteq> [] \<and> length (body_of b) < 65536"
    "abytes (old_page s (own, uint k)) + sum_list (map (length \<circ> body_of) bs) \<le> MAX_IMAGE_ASSEMBLY_BYTES"
    "length (chunks (old_page s (own, uint k))) + length bs \<le> MAX_IMAGE_ASSEMBLY_CHUNKS"
  shows "\<exists>s'. assemble_run s own (gen2_packets k bs) =
     (s', [\<lparr> ie_key = uint k,
             ie_data = List.concat (chunks (old_page s (own, uint k))) @ List.concat (map body_of bs),
             ie_format = Jpeg \<rparr>])
   \<and> inv s' \<and> page_at s' (own, uint k) = None"
  using assms
proof (induction bs arbitrary: s)
  case (Cons b bs)
  let ?x = "(own, uint k)"
  obtain pg body pad now where b: "b = (pg, body, pad, now)" by (cases b)
  obtain s1 res where a: "accumulateChunk s ?x body None now = (s1, res)" by fastforce
  note sp = accumulate_spec[OF Cons.prems(1) a]
  have ne: "body \<noteq> []" "length pg = 2" "length body < 65536" using Cons.prems(3) b by auto
  have "res = Some (add_chunk (old_page s ?x) body)"
    using sp(3,4) Cons.prems(4,5) b by auto
  then have p1: "page_at s1 ?x = Some (add_chunk (old_page s ?x) body)"
    and r: "res = Some (add_chunk (old_page s ?x) body)" using sp(2) by simp_all
  have ok: "page_ok (add_chunk (old_page s ?x) body)"
    using old_page_facts(2)[OF sp(1), of ?x] p1 by (simp add: old_page_def)
  have step: "assembleImageChunk s own (gen2_packet k (bs = []) pg body pad) None now =
     (if bs \<noteq> [] then (s1, None)
      else (discard s1 ?x, Some \<lparr> ie_key = uint k,
              ie_data = List.concat (chunks (old_page s ?x)) @ body, ie_format = Jpeg \<rparr>))"
    using gen2_packet_step[of pg body "bs = []" s own k pad None now] ne
    by (simp add: a r consolidate_all[OF ok]) (simp add: add_chunk_def)
  show ?case
  proof (cases "bs = []")
    case True
    then show ?thesis using step b sp(1) by (simp add: discard_inv)
  next
    case False
    have o: "old_page s1 ?x = add_chunk (old_page s ?x) body" by (simp add: old_page_def p1)
    obtain s2 where "assemble_run s1 own (gen2_packets k bs) =
       (s2, [\<lparr> ie_key = uint k,
             ie_data = List.concat (chunks (old_page s1 ?x)) @ List.concat (map body_of bs),
             ie_format = Jpeg \<rparr>])" "inv s2" "page_at s2 ?x = None"
      using Cons.IH[OF sp(1) False] Cons.prems(3-5) b by (auto simp: o add_chunk_def)
    then show ?thesis using step b False ne by (simp add: o add_chunk_def)
  qed
qed simp

section \<open>Properties\<close>



text \<open>An image cut into packets (at most 1 MiB, at most 4096 packets) is reassembled to
  exactly the image, whatever the page numbers, the padding and the times between packets,
  and even when other in-flight assemblies have filled the budget.\<close>

theorem image_reassembly:
  assumes "inv s" "page_at s (own, uint k) = None" "bs \<noteq> []"
    "\<forall>b \<in> set bs. length (fst b) = 2 \<and> body_of b \<noteq> [] \<and> length (body_of b) < 65536"
    "length (List.concat (map body_of bs)) \<le> MAX_IMAGE_ASSEMBLY_BYTES"
    "length bs \<le> MAX_IMAGE_ASSEMBLY_CHUNKS"
  shows "snd (assemble_run s own (gen2_packets k bs)) =
     [\<lparr> ie_key = uint k, ie_data = List.concat (map body_of bs), ie_format = Jpeg \<rparr>]
   \<and> page_at (fst (assemble_run s own (gen2_packets k bs))) (own, uint k) = None"
proof -
  have o: "old_page s (own, uint k) = \<lparr> chunks = [], abytes = 0 \<rparr>"
    using assms(2) by (simp add: old_page_def)
  have "sum_list (map (length \<circ> body_of) bs) \<le> MAX_IMAGE_ASSEMBLY_BYTES"
    using assms(5) by (simp add: length_concat comp_def)
  then obtain s' where "assemble_run s own (gen2_packets k bs) =
     (s', [\<lparr> ie_key = uint k, ie_data = List.concat (map body_of bs), ie_format = Jpeg \<rparr>])"
    "page_at s' (own, uint k) = None"
    using gen2_run[OF assms(1,3,4), of own k] assms(6) unfolding o by auto
  then show ?thesis by simp
qed

definition region_ok :: "region \<Rightarrow> bool" where
  "region_ok r \<longleftrightarrow> rw r \<noteq> 0 \<and> rh r \<noteq> 0 \<and> rx r + rw r \<le> PLUS_TOUCH_WIDTH \<and> ry r + rh r \<le> PLUS_TOUCH_HEIGHT"

text \<open>The chunks of two different partial windows never share an assembly: on rectangles
  inside the strip the assembly key determines the rectangle.\<close>

theorem region_key_injective:
  assumes "region_ok r" "region_ok r'" "region_key r = region_key r'"
  shows "r = r'"
proof -
  define a where "a r = (int (rx r) * 128 + int (ry r)) * 1024 + int (rw r)" for r :: region
  define b where "b r = int (rx r) * 128 + int (ry r)" for r :: region
  have "a r * 128 + int (rh r) = a r' * 128 + int (rh r')"
    using assms(3) by (simp add: region_key_def a_def)
  then have h: "a r = a r' \<and> int (rh r) = int (rh r')"
    by (rule digit_inj) (use assms(1,2) in \<open>simp_all add: region_ok_def\<close>)
  then have "b r * 1024 + int (rw r) = b r' * 1024 + int (rw r')"
    by (simp add: a_def b_def)
  then have w: "b r = b r' \<and> int (rw r) = int (rw r')"
    by (rule digit_inj) (use assms(1,2) in \<open>simp_all add: region_ok_def\<close>)
  then have "int (rx r) * 128 + int (ry r) = int (rx r') * 128 + int (ry r')"
    by (simp add: b_def)
  then have "int (rx r) = int (rx r') \<and> int (ry r) = int (ry r')"
    by (rule digit_inj) (use assms(1,2) in \<open>simp_all add: region_ok_def\<close>)
  then show ?thesis using h w by simp
qed

end
