(* ===== verification/Hid_Framing.thy ===== *)
theory Hid_Framing
  imports Buffer_Shim
begin

text \<open>
  \<^verbatim>\<open>devices/protocol/\<close>: the Elgato gen1/gen2 output-report framing
  (\<^verbatim>\<open>framing.ts\<close>, \<^verbatim>\<open>elgato-gen1.ts\<close>, \<^verbatim>\<open>elgato-gen2.ts\<close>) and the strategy table
  (\<^verbatim>\<open>index.ts\<close>).  \<^verbatim>\<open>writeChunks\<close> hands every packet to a synchronous \<^verbatim>\<open>write\<close>; the model
  returns the packets in order.  The packet is at least as long as its header; with no
  room for a body the loop of the source does not end, so the model is a partial function.
\<close>

partial_function (option) chunk_loop ::
  "bytes \<Rightarrow> nat \<Rightarrow> (bytes \<Rightarrow> nat \<Rightarrow> bool \<Rightarrow> nat \<Rightarrow> bytes) \<Rightarrow> bytes \<Rightarrow> nat \<Rightarrow> nat \<Rightarrow> bytes list option"
where
  "chunk_loop payload headerSize writeHeader pkt offset part =
     (if offset < length payload \<or> part = 0 then
        (let payloadSize = length pkt - headerSize;
             chunk = subarray payload offset (offset + payloadSize);
             isLast = (length payload \<le> offset + payloadSize);
             pkt = alloc (length pkt);
             pkt = writeHeader pkt part isLast (length chunk);
             pkt = set_at pkt headerSize chunk
         in if isLast then Some [pkt]
            else Option.bind
              (chunk_loop payload headerSize writeHeader pkt (offset + payloadSize) (part + 1))
              (\<lambda>rest. Some (pkt # rest)))
      else Some [])"

definition writeChunks ::
  "bytes \<Rightarrow> bytes \<Rightarrow> nat \<Rightarrow> (bytes \<Rightarrow> nat \<Rightarrow> bool \<Rightarrow> nat \<Rightarrow> bytes) \<Rightarrow> bytes list option" where
  "writeChunks payload pkt headerSize writeHeader =
     chunk_loop payload headerSize writeHeader pkt 0 0"

definition parseButtons :: "bytes \<Rightarrow> nat \<Rightarrow> nat \<Rightarrow> (nat \<times> bool) list" where
  "parseButtons data keyCount keyDataOffset =
     map (\<lambda>i. (i, at0 data (keyDataOffset + i) \<noteq> 0)) [0..<keyCount]"

definition featureReport :: "nat \<Rightarrow> bytes \<Rightarrow> bytes" where
  "featureReport n prefx = set_at (alloc n) 0 prefx"

text \<open>\<^verbatim>\<open>Math.max(0, Math.min(100, pct))\<close> stored into a byte.\<close>

definition pct_byte :: "int \<Rightarrow> byte" where
  "pct_byte pct = of_int (max 0 (min 100 pct))"

section \<open>gen1\<close>

abbreviation (input) GEN1_HEADER_SIZE :: nat where "GEN1_HEADER_SIZE \<equiv> 16"

definition gen1_header :: "nat \<Rightarrow> bytes \<Rightarrow> nat \<Rightarrow> bool \<Rightarrow> nat \<Rightarrow> bytes" where
  "gen1_header keyIndex pkt part isLast bodyLen =
     (let pkt = put pkt 0 0x02;
          pkt = put pkt 1 0x01;
          pkt = put pkt 2 (of_nat part);
          pkt = put pkt 3 0x00;
          pkt = put pkt 4 (if isLast then 1 else 0)
      in put pkt 5 (of_nat (keyIndex + 1)))"

definition gen1WriteImage :: "nat \<Rightarrow> bytes \<Rightarrow> bytes \<Rightarrow> bytes list option" where
  "gen1WriteImage keyIndex bmpBytes scratch =
     writeChunks bmpBytes scratch GEN1_HEADER_SIZE (gen1_header keyIndex)"

definition gen1ParseInput :: "bytes \<Rightarrow> nat \<Rightarrow> (nat \<times> bool) list option" where
  "gen1ParseInput data keyCount =
     (if at_opt data 0 \<noteq> Some 0x01 then None else Some (parseButtons data keyCount 1))"

definition gen1BrightnessReport :: "int \<Rightarrow> bytes" where
  "gen1BrightnessReport pct = featureReport 17 [0x05, 0x55, 0xaa, 0xd1, 0x01, pct_byte pct]"

definition gen1ResetReport :: bytes where
  "gen1ResetReport = featureReport 17 [0x0b, 0x63]"

definition gen1BlankImage :: "nat \<Rightarrow> nat \<Rightarrow> bytes" where
  "gen1BlankImage keyWidth keyHeight = alloc (54 + keyWidth * keyHeight * 3)"

section \<open>gen2\<close>

abbreviation (input) GEN2_HEADER_SIZE :: nat where "GEN2_HEADER_SIZE \<equiv> 8"

definition gen2_header :: "nat \<Rightarrow> bytes \<Rightarrow> nat \<Rightarrow> bool \<Rightarrow> nat \<Rightarrow> bytes" where
  "gen2_header keyIndex pkt part isLast bodyLen =
     (let pkt = put pkt 0 0x02;
          pkt = put pkt 1 0x07;
          pkt = put pkt 2 (of_nat keyIndex);
          pkt = put pkt 3 (if isLast then 1 else 0);
          pkt = put pkt 4 (byte_of bodyLen 0);
          pkt = put pkt 5 (byte_of bodyLen 8);
          pkt = put pkt 6 (byte_of part 0)
      in put pkt 7 (byte_of part 8))"

definition gen2WriteImage :: "nat \<Rightarrow> bytes \<Rightarrow> bytes \<Rightarrow> bytes list option" where
  "gen2WriteImage keyIndex jpegBytes scratch =
     writeChunks jpegBytes scratch GEN2_HEADER_SIZE (gen2_header keyIndex)"

definition gen2ParseInput :: "bytes \<Rightarrow> nat \<Rightarrow> (nat \<times> bool) list option" where
  "gen2ParseInput data keyCount =
     (if at_opt data 0 \<noteq> Some 0x01 then None
      else if at_opt data 1 \<noteq> Some 0x00 then None
      else Some (parseButtons data keyCount 4))"

definition gen2BrightnessReport :: "int \<Rightarrow> bytes" where
  "gen2BrightnessReport pct = featureReport 32 [0x03, 0x08, pct_byte pct]"

definition gen2ResetReport :: bytes where
  "gen2ResetReport = featureReport 32 [0x03, 0x02]"

definition TINY_BLACK_JPEG :: bytes where
  "TINY_BLACK_JPEG = [
    0xff, 0xd8, 0xff, 0xe0, 0x00, 0x10, 0x4a, 0x46, 0x49, 0x46, 0x00, 0x01, 0x01, 0x00, 0x00, 0x01,
    0x00, 0x01, 0x00, 0x00, 0xff, 0xdb, 0x00, 0x43, 0x00, 0x08, 0x06, 0x06, 0x07, 0x06, 0x05, 0x08,
    0x07, 0x07, 0x07, 0x09, 0x09, 0x08, 0x0a, 0x0c, 0x14, 0x0d, 0x0c, 0x0b, 0x0b, 0x0c, 0x19, 0x12,
    0x13, 0x0f, 0x14, 0x1d, 0x1a, 0x1f, 0x1e, 0x1d, 0x1a, 0x1c, 0x1c, 0x20, 0x24, 0x2e, 0x27, 0x20,
    0x22, 0x2c, 0x23, 0x1c, 0x1c, 0x28, 0x37, 0x29, 0x2c, 0x30, 0x31, 0x34, 0x34, 0x34, 0x1f, 0x27,
    0x39, 0x3d, 0x38, 0x32, 0x3c, 0x2e, 0x33, 0x34, 0x32, 0xff, 0xc0, 0x00, 0x0b, 0x08, 0x00, 0x01,
    0x00, 0x01, 0x01, 0x01, 0x11, 0x00, 0xff, 0xc4, 0x00, 0x1f, 0x00, 0x00, 0x01, 0x05, 0x01, 0x01,
    0x01, 0x01, 0x01, 0x01, 0x00, 0x00, 0x00, 0x00, 0x00, 0x00, 0x00, 0x00, 0x01, 0x02, 0x03, 0x04,
    0x05, 0x06, 0x07, 0x08, 0x09, 0x0a, 0x0b, 0xff, 0xc4, 0x00, 0xb5, 0x10, 0x00, 0x02, 0x01, 0x03,
    0x03, 0x02, 0x04, 0x03, 0x05, 0x05, 0x04, 0x04, 0x00, 0x00, 0x01, 0x7d, 0x01, 0x02, 0x03, 0x00,
    0x04, 0x11, 0x05, 0x12, 0x21, 0x31, 0x41, 0x06, 0x13, 0x51, 0x61, 0x07, 0x22, 0x71, 0x14, 0x32,
    0x81, 0x91, 0xa1, 0x08, 0x23, 0x42, 0xb1, 0xc1, 0x15, 0x52, 0xd1, 0xf0, 0x24, 0x33, 0x62, 0x72,
    0x82, 0x09, 0x0a, 0x16, 0x17, 0x18, 0x19, 0x1a, 0x25, 0x26, 0x27, 0x28, 0x29, 0x2a, 0x34, 0x35,
    0x36, 0x37, 0x38, 0x39, 0x3a, 0x43, 0x44, 0x45, 0x46, 0x47, 0x48, 0x49, 0x4a, 0x53, 0x54, 0x55,
    0x56, 0x57, 0x58, 0x59, 0x5a, 0x63, 0x64, 0x65, 0x66, 0x67, 0x68, 0x69, 0x6a, 0x73, 0x74, 0x75,
    0x76, 0x77, 0x78, 0x79, 0x7a, 0x83, 0x84, 0x85, 0x86, 0x87, 0x88, 0x89, 0x8a, 0x93, 0x94, 0x95,
    0x96, 0x97, 0x98, 0x99, 0x9a, 0xa2, 0xa3, 0xa4, 0xa5, 0xa6, 0xa7, 0xa8, 0xa9, 0xaa, 0xb2, 0xb3,
    0xb4, 0xb5, 0xb6, 0xb7, 0xb8, 0xb9, 0xba, 0xc2, 0xc3, 0xc4, 0xc5, 0xc6, 0xc7, 0xc8, 0xc9, 0xca,
    0xd2, 0xd3, 0xd4, 0xd5, 0xd6, 0xd7, 0xd8, 0xd9, 0xda, 0xe1, 0xe2, 0xe3, 0xe4, 0xe5, 0xe6, 0xe7,
    0xe8, 0xe9, 0xea, 0xf1, 0xf2, 0xf3, 0xf4, 0xf5, 0xf6, 0xf7, 0xf8, 0xf9, 0xfa, 0xff, 0xda, 0x00,
    0x08, 0x01, 0x01, 0x00, 0x00, 0x3f, 0x00, 0xfb, 0x00, 0xff, 0xd9
  ]"

definition gen2BlankImage :: "nat \<Rightarrow> nat \<Rightarrow> bytes" where
  "gen2BlankImage keyWidth keyHeight = TINY_BLACK_JPEG"

section \<open>The strategy table\<close>

record info_report =
  ir_reportId :: nat
  ir_offset :: nat
  ir_lengthPrefixed :: bool

definition GEN1_INFO_REPORTS :: "info_report \<times> info_report" where
  "GEN1_INFO_REPORTS =
     (\<lparr> ir_reportId = 0x03, ir_offset = 5, ir_lengthPrefixed = False \<rparr>,
      \<lparr> ir_reportId = 0x04, ir_offset = 5, ir_lengthPrefixed = False \<rparr>)"

definition GEN2_INFO_REPORTS :: "info_report \<times> info_report" where
  "GEN2_INFO_REPORTS =
     (\<lparr> ir_reportId = 0x06, ir_offset = 2, ir_lengthPrefixed = True \<rparr>,
      \<lparr> ir_reportId = 0x05, ir_offset = 6, ir_lengthPrefixed = True \<rparr>)"

record protocol_strategy =
  ps_writeImage :: "nat \<Rightarrow> bytes \<Rightarrow> bytes \<Rightarrow> bytes list option"
  ps_parseInput :: "bytes \<Rightarrow> nat \<Rightarrow> (nat \<times> bool) list option"
  ps_brightnessReport :: "int \<Rightarrow> bytes"
  ps_resetReport :: bytes
  ps_blankImage :: "nat \<Rightarrow> nat \<Rightarrow> bytes"
  ps_infoReports :: "info_report \<times> info_report"

datatype device_protocol = Elgato_gen1 | Elgato_gen2 | Mirabox_cora | Mirabox_cora_v1 | Ajazz_akp05

definition gen1_strategy :: protocol_strategy where
  "gen1_strategy = \<lparr> ps_writeImage = gen1WriteImage, ps_parseInput = gen1ParseInput,
     ps_brightnessReport = gen1BrightnessReport, ps_resetReport = gen1ResetReport,
     ps_blankImage = gen1BlankImage, ps_infoReports = GEN1_INFO_REPORTS \<rparr>"

definition gen2_strategy :: protocol_strategy where
  "gen2_strategy = \<lparr> ps_writeImage = gen2WriteImage, ps_parseInput = gen2ParseInput,
     ps_brightnessReport = gen2BrightnessReport, ps_resetReport = gen2ResetReport,
     ps_blankImage = gen2BlankImage, ps_infoReports = GEN2_INFO_REPORTS \<rparr>"

definition PROTOCOL_STRATEGY :: "device_protocol \<Rightarrow> protocol_strategy option" where
  "PROTOCOL_STRATEGY p =
     (case p of Elgato_gen1 \<Rightarrow> Some gen1_strategy | Elgato_gen2 \<Rightarrow> Some gen2_strategy | _ \<Rightarrow> None)"

section \<open>The framing contract\<close>

text \<open>The packets of a payload cut into \<open>bs\<close>: a zeroed packet of length \<open>L\<close>, its header, its body.\<close>

fun framed :: "(bytes \<Rightarrow> nat \<Rightarrow> bool \<Rightarrow> nat \<Rightarrow> bytes) \<Rightarrow> nat \<Rightarrow> nat \<Rightarrow> nat \<Rightarrow> bytes list \<Rightarrow> bytes list" where
  "framed hdr hs L part [] = []"
| "framed hdr hs L part (b # bs) =
     set_at (hdr (alloc L) part (bs = []) (length b)) hs b # framed hdr hs L (Suc part) bs"

lemma padded_chop:
  "0 < n \<Longrightarrow> \<exists>z. List.concat (map (\<lambda>b. b @ replicate (n - length b) 0) (chop n xs)) = xs @ replicate z (0 :: byte)"
proof (induction n xs rule: chop.induct)
  case (1 n xs)
  show ?case
  proof (cases "length xs \<le> n")
    case True
    then show ?thesis by (auto simp: chop_last)
  next
    case False
    then obtain z where
      "List.concat (map (\<lambda>b. b @ replicate (n - length b) 0) (chop n (drop n xs))) = drop n xs @ replicate z (0 :: byte)"
      using 1 by fastforce
    then show ?thesis using False 1(2) by (auto simp: chop_step append_assoc[symmetric] simp del: append_assoc)
  qed
qed

lemma framed_count: "length (framed hdr hs L part bs) = length bs"
  by (induction bs arbitrary: part) simp_all

text \<open>What a device relies on: a header writer that stays within its header.\<close>

locale chunk_framing =
  fixes hs :: nat and hdr :: "bytes \<Rightarrow> nat \<Rightarrow> bool \<Rightarrow> nat \<Rightarrow> bytes"
  assumes hdr_length: "length (hdr p i l n) = length p"
    and hdr_tail: "drop hs (hdr p i l n) = drop hs p"
begin

lemma loop_eq:
  assumes "hs < length pkt" "off < length payload \<or> part = 0" "off \<le> length payload"
  shows "chunk_loop payload hs hdr pkt off part =
           Some (framed hdr hs (length pkt) part (chop (length pkt - hs) (drop off payload)))"
  using assms
proof (induction "length payload - off" arbitrary: off part pkt rule: less_induct)
  case less
  let ?ps = "length pkt - hs" and ?d = "drop off payload"
  let ?pk = "\<lambda>l. set_at (hdr (alloc (length pkt)) part l (length (take ?ps ?d))) hs (take ?ps ?d)"
  have len: "length (?pk l) = length pkt" for l
    using less.prems(1) by (intro trans[OF set_at_length]) (auto simp: hdr_length)
  show ?case
  proof (cases "length payload \<le> off + ?ps")
    case True
    then have "chop ?ps ?d = [?d]" "take ?ps ?d = ?d" by (simp_all add: chop_last)
    then show ?thesis
      using True less.prems by (subst chunk_loop.simps) (simp add: subarray_def Let_def)
  next
    case False
    have "chunk_loop payload hs hdr (?pk False) (off + ?ps) (part + 1) =
       Some (framed hdr hs (length pkt) (part + 1) (chop ?ps (drop (off + ?ps) payload)))"
      by (rule less.hyps[of "off + ?ps" "?pk False" "part + 1", unfolded len])
        (use False less.prems in auto)
    moreover have "chop ?ps ?d = take ?ps ?d # chop ?ps (drop (off + ?ps) payload)"
      using False less.prems(1) by (subst chop_step) (auto simp: add.commute)
    ultimately show ?thesis
      using False less.prems by (subst chunk_loop.simps) (simp add: subarray_def Let_def)
  qed
qed

lemma write_chunks_eq:
  "hs < length pkt \<Longrightarrow> writeChunks payload pkt hs hdr =
     Some (framed hdr hs (length pkt) 0 (chop (length pkt - hs) payload))"
  using loop_eq[of pkt 0 payload 0] by (simp add: writeChunks_def)

text \<open>Every packet has the packet size, and the bodies behind the headers spell the payload.\<close>

lemma framed_bodies:
  assumes "\<forall>b \<in> set bs. hs + length b \<le> L"
  shows "\<forall>p \<in> set (framed hdr hs L part bs). length p = L"
    and "map (drop hs) (framed hdr hs L part bs) =
           map (\<lambda>b. b @ replicate (L - hs - length b) 0) bs"
  using assms
proof (induction bs arbitrary: part)
  case (Cons b bs)
  case 1
  then show ?case using Cons(1)[of "Suc part"] by (simp add: hdr_length)
next
  case (Cons b bs)
  case 2
  have "drop (hs + length b) (hdr (alloc L) part (bs = []) (length b)) = replicate (L - (hs + length b)) 0"
    by (metis add.commute drop_drop drop_replicate hdr_tail)
  then show ?case using Cons(2)[of "Suc part"] 2 by (simp add: set_at_def hdr_length)
qed simp_all

lemma image_framing:
  assumes "hs < length pkt"
  shows "\<exists>ps. writeChunks img pkt hs hdr = Some ps
    \<and> (\<forall>p \<in> set ps. length p = length pkt)
    \<and> take (length img) (List.concat (map (drop hs) ps)) = img
    \<and> length ps \<le> Suc (length img div (length pkt - hs))"
proof -
  let ?n = "length pkt - hs"
  let ?ps = "framed hdr hs (length pkt) 0 (chop ?n img)"
  have b: "\<forall>b \<in> set (chop ?n img). hs + length b \<le> length pkt"
    using chop_lengths[of ?n _ img] assms by fastforce
  have "0 < ?n" using assms by simp
  then obtain z where z: "List.concat (map (\<lambda>b. b @ replicate (?n - length b) 0) (chop ?n img)) = img @ replicate z (0 :: byte)"
    using padded_chop by blast
  have "take (length img) (List.concat (map (drop hs) ?ps)) = img"
    by (simp only: framed_bodies(2)[OF b] z append_eq_conv_conj[symmetric]) simp
  moreover have "length ?ps \<le> Suc (length img div ?n)"
    using chop_count[OF \<open>0 < ?n\<close>, of img] by (simp add: framed_count)
  ultimately show ?thesis
    using write_chunks_eq[OF assms] framed_bodies(1)[OF b] by blast
qed

end

lemma gen1_header_length [simp]: "length (gen1_header k p i l n) = length p"
  by (simp add: gen1_header_def Let_def)

lemma gen2_header_length [simp]: "length (gen2_header k p i l n) = length p"
  by (simp add: gen2_header_def Let_def)

interpretation gen1: chunk_framing GEN1_HEADER_SIZE "gen1_header k" for k
  by unfold_locales (simp, simp add: gen1_header_def Let_def)

interpretation gen2: chunk_framing GEN2_HEADER_SIZE "gen2_header k" for k
  by unfold_locales (simp, simp add: gen2_header_def Let_def)

text \<open>The gen1 image command with 1-based key, the gen2 one with the body length.\<close>

lemma header_bytes:
  assumes "16 \<le> length p"
  shows "map (at0 (gen1_header k p i l n)) [0, 1, 2, 3, 4, 5] =
      [0x02, 0x01, of_nat i, 0, if l then 1 else 0, of_nat (k + 1)]"
  using assms by (auto simp: gen1_header_def Let_def at0_put)

lemma gen2_header_eq:
  assumes "8 \<le> L"
  shows "gen2_header k (alloc L) i l n =
     [0x02, 0x07, of_nat k, if l then 1 else 0, byte_of n 0, byte_of n 8, byte_of i 0, byte_of i 8]
       @ alloc (L - 8)"
proof -
  have "replicate 8 (0 :: byte) = [0, 0, 0, 0, 0, 0, 0, 0]" by (simp add: numeral_eq_Suc)
  then have "alloc L = [0, 0, 0, 0, 0, 0, 0, 0] @ alloc (L - 8)"
    using assms replicate_add[of 8 "L - 8" "0 :: byte"] by simp
  then show ?thesis by (simp add: gen2_header_def Let_def)
qed

text \<open>Both Elgato framings cut an image into reports of exactly the packet size whose
  bodies spell the image: nothing is lost, reordered or duplicated, the padding is zero, and
  the number of reports is one per started body (one for an empty image).\<close>

theorem elgato_write_image:
  assumes "16 < length scratch"
  shows "\<exists>ps qs. gen1WriteImage k img scratch = Some ps \<and> gen2WriteImage k img scratch = Some qs
    \<and> (\<forall>p \<in> set ps \<union> set qs. length p = length scratch)
    \<and> take (length img) (List.concat (map (drop 16) ps)) = img
    \<and> take (length img) (List.concat (map (drop 8) qs)) = img
    \<and> length ps \<le> Suc (length img div (length scratch - 16))
    \<and> length qs \<le> Suc (length img div (length scratch - 8))"
proof -
  have "8 < length scratch" using assms by simp
  then show ?thesis
    using gen1.image_framing[OF assms, of img k] gen2.image_framing[of scratch img k]
    unfolding gen1WriteImage_def gen2WriteImage_def by blast
qed

end
