(* ===== verification/Hid_Descriptor.thy ===== *)
theory Hid_Descriptor
  imports Buffer_Shim
begin

text \<open>
  \<^verbatim>\<open>devices/hid-report-descriptor.ts\<close> and \<^verbatim>\<open>devices/jpeg-size.ts\<close>: two refusal-biased walkers
  over untrusted bytes.  Numbers are exact integers (the source computes in doubles, which
  agree up to 2^53).  The descriptor that hidapi returns is an argument.
\<close>

section \<open>The report descriptor\<close>

abbreviation (input) TAG_REPORT_SIZE :: byte where "TAG_REPORT_SIZE \<equiv> 0x74"
abbreviation (input) TAG_REPORT_COUNT :: byte where "TAG_REPORT_COUNT \<equiv> 0x94"
abbreviation (input) TAG_OUTPUT :: byte where "TAG_OUTPUT \<equiv> 0x90"

definition REFUSED_TAGS :: "byte list" where
  "REFUSED_TAGS = [0x84, 0xa4, 0xb4]"

record hid_item =
  it_tag :: byte
  it_value :: nat
  it_next :: nat

fun le_value :: "bytes \<Rightarrow> nat" where
  "le_value [] = 0"
| "le_value (b # bs) = unat b + 256 * le_value bs"

definition readItem :: "bytes \<Rightarrow> nat \<Rightarrow> hid_item option" where
  "readItem desc i =
     (let prefx = desc ! i in
      if prefx = 0xfe then None
      else let sizeCode = unat (prefx AND 0x03);
               dataLen = (if sizeCode = 3 then 4 else sizeCode);
               start = i + 1 in
      if length desc < start + dataLen then None
      else Some \<lparr> it_tag = prefx AND 0xfc, it_value = le_value (take dataLen (drop start desc)),
                  it_next = start + dataLen \<rparr>)"

lemma readItem_next: "readItem desc i = Some it \<Longrightarrow> i < it_next it \<and> it_next it \<le> length desc"
  by (auto simp: readItem_def Let_def split: if_splits)

record walk =
  reportSizeBits :: int
  reportCount :: int
  outputItems :: nat
  outputBits :: int

text \<open>The loop body on an accepted item; \<^const>\<open>None\<close> is the early \<^verbatim>\<open>return null\<close>.\<close>

definition walk_item :: "walk \<Rightarrow> hid_item \<Rightarrow> walk option" where
  "walk_item w item =
     (if it_tag item = TAG_REPORT_SIZE then Some (w\<lparr>reportSizeBits := int (it_value item)\<rparr>)
      else if it_tag item = TAG_REPORT_COUNT then Some (w\<lparr>reportCount := int (it_value item)\<rparr>)
      else if it_tag item = TAG_OUTPUT then
        (if reportSizeBits w < 0 \<or> reportCount w < 0 then None
         else Some (w\<lparr>outputItems := outputItems w + 1,
                      outputBits := reportSizeBits w * reportCount w\<rparr>))
      else Some w)"

function walk_loop :: "bytes \<Rightarrow> nat \<Rightarrow> walk \<Rightarrow> walk option" where
  "walk_loop desc i w =
     (if length desc \<le> i then Some w
      else case readItem desc i of
        None \<Rightarrow> None
      | Some item \<Rightarrow>
          if it_tag item \<in> set REFUSED_TAGS then None
          else case walk_item w item of
            None \<Rightarrow> None
          | Some w' \<Rightarrow> walk_loop desc (it_next item) w')"
  by pat_completeness auto
termination
  by (relation "measure (\<lambda>(desc, i, w). length desc - i)") (auto dest: readItem_next)

declare walk_loop.simps [simp del]

definition parseOutputReportSize :: "bytes \<Rightarrow> nat option" where
  "parseOutputReportSize desc =
     (case walk_loop desc 0 \<lparr> reportSizeBits = -1, reportCount = -1, outputItems = 0, outputBits = 0 \<rparr> of
        None \<Rightarrow> None
      | Some w \<Rightarrow>
          if outputItems w \<noteq> 1 \<or> outputBits w \<le> 0 \<or> outputBits w mod 8 \<noteq> 0 then None
          else Some (nat (outputBits w div 8)))"

definition probeOutputReportSize :: "bytes option \<Rightarrow> nat list \<Rightarrow> nat option" where
  "probeOutputReportSize desc candidates =
     (case desc of
        None \<Rightarrow> None
      | Some d \<Rightarrow> (case parseOutputReportSize d of
            None \<Rightarrow> None
          | Some sz \<Rightarrow> if sz \<notin> set candidates then None else Some sz))"

section \<open>JPEG frame size\<close>

definition isSofMarker :: "byte \<Rightarrow> bool" where
  "isSofMarker marker \<longleftrightarrow>
     0xc0 \<le> marker \<and> marker \<le> 0xcf \<and> marker \<noteq> 0xc4 \<and> marker \<noteq> 0xc8 \<and> marker \<noteq> 0xcc"

definition be16 :: "bytes \<Rightarrow> nat \<Rightarrow> nat" where
  "be16 b off = unat (or_shift (at0 b off) 8 OR or_shift (at0 b (off + 1)) 0)"

text \<open>\<^verbatim>\<open>sofSize\<close>: (width, height).\<close>

definition sofSize :: "bytes \<Rightarrow> nat \<Rightarrow> (nat \<times> nat) option" where
  "sofSize b offset =
     (if length b < offset + 9 then None else Some (be16 b (offset + 7), be16 b (offset + 5)))"

function jpeg_loop :: "bytes \<Rightarrow> nat \<Rightarrow> (nat \<times> nat) option" where
  "jpeg_loop b offset =
     (if length b < offset + 4 then None
      else if b ! offset \<noteq> 0xff then None
      else let marker = b ! (offset + 1) in
      if marker = 0xff then jpeg_loop b (offset + 1)
      else if marker = 0xd9 \<or> marker = 0xda then None
      else if isSofMarker marker then sofSize b offset
      else let len = be16 b (offset + 2) in
      if len < 2 then None else jpeg_loop b (offset + (2 + len)))"
  by pat_completeness auto
termination
  by (relation "measure (\<lambda>(b, offset). length b - offset)") auto

declare jpeg_loop.simps [simp del]

definition jpegSize :: "bytes \<Rightarrow> (nat \<times> nat) option" where
  "jpegSize b =
     (if length b < 4 \<or> at_opt b 0 \<noteq> Some 0xff \<or> at_opt b 1 \<noteq> Some 0xd8 then None
      else jpeg_loop b 2)"

section \<open>Properties\<close>

lemma jpeg_loop_segment:
  assumes "drop off b = 0xff # m # hi # lo # body @ rest"
    "m \<noteq> 0xff" "m \<noteq> 0xd9" "m \<noteq> 0xda" "\<not> isSofMarker m"
    "length body + 2 = unat hi * 256 + unat lo"
  shows "jpeg_loop b off = jpeg_loop b (off + 4 + length body)"
proof -
  have l: "off + 4 + length body \<le> length b"
    using arg_cong[OF assms(1), of length] by simp
  have n: "at0 b (off + i) = at0 (0xff # m # hi # lo # body @ rest) i" for i
    using assms(1) by (metis at0_drop)
  have g: "b ! (off + i) = at0 b (off + i)" if "off + i < length b" for i
    using that by (simp add: at0_def)
  have e: "b ! off = 0xff" "b ! (off + 1) = m"
    using l n[of 0] n[of 1] g[of 0] g[of 1] by simp_all
  have "at0 b (off + 2) = hi" "at0 b (off + 2 + 1) = lo"
    using n[of 2] n[of "2 + 1"] by (simp_all add: eval_nat_numeral)
  then have "be16 b (off + 2) = unat hi * 256 + unat lo"
    using or_disjoint_nat[of "unat lo" 8 "unat hi"] byte_less[of lo]
    by (simp only: be16_def unsigned_or_eq unat_or_shift) (simp add: or.commute)
  then have len: "be16 b (off + 2) = length body + 2" using assms(6) by simp
  show ?thesis
    using l assms(2-5) e len by (subst jpeg_loop.simps) (simp add: Let_def eval_nat_numeral)
qed

text \<open>The reference view of a descriptor: its decoded items.\<close>

function items_from :: "bytes \<Rightarrow> nat \<Rightarrow> hid_item list option" where
  "items_from desc i =
     (if length desc \<le> i then Some []
      else case readItem desc i of
        None \<Rightarrow> None
      | Some item \<Rightarrow> (case items_from desc (it_next item) of None \<Rightarrow> None | Some its \<Rightarrow> Some (item # its)))"
  by pat_completeness auto
termination
  by (relation "measure (\<lambda>(desc, i). length desc - i)") (auto dest: readItem_next)

declare items_from.simps [simp del]

definition last_value :: "byte \<Rightarrow> hid_item list \<Rightarrow> int" where
  "last_value tag its =
     (case rev (filter (\<lambda>it. it_tag it = tag) its) of [] \<Rightarrow> -1 | it # _ \<Rightarrow> int (it_value it))"

lemma last_value_snoc:
  "last_value tag (its @ [it]) = (if it_tag it = tag then int (it_value it) else last_value tag its)"
  by (simp add: last_value_def)

lemma last_value_Nil [simp]: "last_value tag [] = -1"
  by (simp add: last_value_def)

definition outputs :: "hid_item list \<Rightarrow> hid_item list" where
  "outputs its = filter (\<lambda>it. it_tag it = TAG_OUTPUT) its"

definition walk_state :: "hid_item list \<Rightarrow> walk \<Rightarrow> bool" where
  "walk_state its w \<longleftrightarrow>
     reportSizeBits w = last_value TAG_REPORT_SIZE its \<and> reportCount w = last_value TAG_REPORT_COUNT its
     \<and> outputItems w = length (outputs its)
     \<and> (outputs its \<noteq> [] \<longrightarrow> (\<exists>pre it post. its = pre @ it # post \<and> it_tag it = TAG_OUTPUT \<and> outputs post = []
          \<and> 0 \<le> last_value TAG_REPORT_SIZE pre \<and> 0 \<le> last_value TAG_REPORT_COUNT pre
          \<and> outputBits w = last_value TAG_REPORT_SIZE pre * last_value TAG_REPORT_COUNT pre))"

lemma walk_item_state:
  assumes "walk_state its w" "walk_item w item = Some w'"
  shows "walk_state (its @ [item]) w'"
proof (cases "it_tag item = TAG_OUTPUT")
  case True
  then have o: "outputs (its @ [item]) = outputs its @ [item]" "outputs [] = []"
    by (simp_all add: outputs_def)
  have w': "0 \<le> reportSizeBits w" "0 \<le> reportCount w"
    "w' = w\<lparr>outputItems := outputItems w + 1, outputBits := reportSizeBits w * reportCount w\<rparr>"
    using assms(2) True by (auto simp: walk_item_def split: if_splits)
  have a: "reportSizeBits w = last_value TAG_REPORT_SIZE its"
    "reportCount w = last_value TAG_REPORT_COUNT its" "outputItems w = length (outputs its)"
    using assms(1) by (simp_all add: walk_state_def)
  have "\<exists>pre it post. its @ [item] = pre @ it # post \<and> it_tag it = TAG_OUTPUT \<and> outputs post = []
          \<and> 0 \<le> last_value TAG_REPORT_SIZE pre \<and> 0 \<le> last_value TAG_REPORT_COUNT pre
          \<and> outputBits w' = last_value TAG_REPORT_SIZE pre * last_value TAG_REPORT_COUNT pre"
    using True w' a o by (intro exI[of _ its] exI[of _ item] exI[of _ "[]"]) simp
  then show ?thesis using True w' a o by (simp add: walk_state_def last_value_snoc)
next
  case False
  then have o: "outputs (its @ [item]) = outputs its" by (simp add: outputs_def)
  have w': "reportSizeBits w' = last_value TAG_REPORT_SIZE (its @ [item])"
    "reportCount w' = last_value TAG_REPORT_COUNT (its @ [item])"
    "outputItems w' = outputItems w" "outputBits w' = outputBits w"
    using assms False by (auto simp: walk_item_def last_value_snoc walk_state_def split: if_splits)
  have "\<exists>pre it post. its @ [item] = pre @ it # post \<and> it_tag it = TAG_OUTPUT \<and> outputs post = []
          \<and> 0 \<le> last_value TAG_REPORT_SIZE pre \<and> 0 \<le> last_value TAG_REPORT_COUNT pre
          \<and> outputBits w' = last_value TAG_REPORT_SIZE pre * last_value TAG_REPORT_COUNT pre"
    if ne: "outputs its \<noteq> []"
  proof -
    obtain pre it post where "its = pre @ it # post" "it_tag it = TAG_OUTPUT" "outputs post = []"
      "0 \<le> last_value TAG_REPORT_SIZE pre" "0 \<le> last_value TAG_REPORT_COUNT pre"
      "outputBits w = last_value TAG_REPORT_SIZE pre * last_value TAG_REPORT_COUNT pre"
      using assms(1) ne unfolding walk_state_def by blast
    then show ?thesis
      using False w'(4)
      by (intro exI[of _ pre] exI[of _ it] exI[of _ "post @ [item]"]) (simp add: outputs_def)
  qed
  then show ?thesis using w' o assms(1) by (simp add: walk_state_def)
qed

lemma walk_loop_items:
  assumes "walk_loop desc i w = Some w'" "walk_state its w" "\<forall>it \<in> set its. it_tag it \<notin> set REFUSED_TAGS"
  shows "\<exists>its'. items_from desc i = Some its' \<and> walk_state (its @ its') w'
    \<and> (\<forall>it \<in> set (its @ its'). it_tag it \<notin> set REFUSED_TAGS)"
  using assms
proof (induction desc i w arbitrary: its rule: walk_loop.induct)
  case (1 desc i w)
  show ?case
  proof (cases "length desc \<le> i")
    case True
    then show ?thesis
      using 1(2-) by (auto simp: walk_loop.simps[of desc i] items_from.simps[of desc i])
  next
    case False
    then obtain item w1 where s: "readItem desc i = Some item" "it_tag item \<notin> set REFUSED_TAGS"
      "walk_item w item = Some w1" "walk_loop desc (it_next item) w1 = Some w'"
      using 1(2) by (auto simp: walk_loop.simps[of desc i] split: option.splits if_splits)
    from 1(1)[OF False s(1,2,3,4) walk_item_state[OF 1(3) s(3)]]
    obtain its' where "items_from desc (it_next item) = Some its'"
      "walk_state ((its @ [item]) @ its') w'" "\<forall>it \<in> set ((its @ [item]) @ its'). it_tag it \<notin> set REFUSED_TAGS"
      using 1(4) s(2) by auto
    then show ?thesis
      using False s(1) by (intro exI[of _ "item # its'"]) (simp add: items_from.simps[of desc i])
  qed
qed

text \<open>The probed output-report size is never a guess: it is one of the model's candidates,
  and the descriptor decodes into items with no refused tag and exactly one Output item, whose
  preceding report size times report count is that many whole bytes.\<close>

theorem probe_sound:
  assumes "probeOutputReportSize (Some desc) candidates = Some n"
  shows "n \<in> set candidates \<and> 0 < n \<and>
    (\<exists>pre it post. items_from desc 0 = Some (pre @ it # post) \<and> outputs (pre @ it # post) = [it]
       \<and> (\<forall>x \<in> set (pre @ it # post). it_tag x \<notin> set REFUSED_TAGS)
       \<and> last_value TAG_REPORT_SIZE pre * last_value TAG_REPORT_COUNT pre = 8 * int n)"
proof -
  let ?w0 = "\<lparr> reportSizeBits = -1, reportCount = -1, outputItems = 0, outputBits = 0 \<rparr>"
  obtain w where w: "walk_loop desc 0 ?w0 = Some w" "outputItems w = 1" "0 < outputBits w"
    "outputBits w mod 8 = 0" "n = nat (outputBits w div 8)" "n \<in> set candidates"
    using assms by (auto simp: probeOutputReportSize_def parseOutputReportSize_def
        split: option.splits if_splits)
  have "walk_state [] ?w0" by (simp add: walk_state_def outputs_def)
  from walk_loop_items[OF w(1) this]
  obtain its where i: "items_from desc 0 = Some its" "walk_state its w"
    "\<forall>x \<in> set its. it_tag x \<notin> set REFUSED_TAGS" by auto
  then have l: "length (outputs its) = 1" using w(2) by (simp add: walk_state_def)
  then obtain pre it post where p: "its = pre @ it # post" "it_tag it = TAG_OUTPUT" "outputs post = []"
    "outputBits w = last_value TAG_REPORT_SIZE pre * last_value TAG_REPORT_COUNT pre"
    using i(2) unfolding walk_state_def by (metis list.size(3) zero_neq_one)
  have "outputs its = [it]" using l p by (auto simp: outputs_def)
  moreover have "last_value TAG_REPORT_SIZE pre * last_value TAG_REPORT_COUNT pre = 8 * int n" "0 < n"
    using p(4) w by auto
  ultimately show ?thesis using i p(1) w(6) by blast
qed

text \<open>A JPEG's frame header behind any number of other segments.\<close>

fun segments :: "(byte \<times> byte \<times> byte \<times> bytes) list \<Rightarrow> bytes" where
  "segments [] = []"
| "segments ((m, hi, lo, body) # ss) = 0xff # m # hi # lo # body @ segments ss"

definition segment_ok :: "byte \<times> byte \<times> byte \<times> bytes \<Rightarrow> bool" where
  "segment_ok s \<longleftrightarrow> (case s of (m, hi, lo, body) \<Rightarrow>
     m \<noteq> 0xff \<and> m \<noteq> 0xd9 \<and> m \<noteq> 0xda \<and> \<not> isSofMarker m
     \<and> length body + 2 = unat hi * 256 + unat lo)"

lemma jpeg_loop_segments:
  assumes "list_all segment_ok ss" "drop off b = segments ss @ rest"
  shows "jpeg_loop b off = jpeg_loop b (off + length (segments ss))"
  using assms
proof (induction ss arbitrary: off)
  case (Cons s ss)
  obtain m hi lo body where s: "s = (m, hi, lo, body)" by (cases s)
  have "jpeg_loop b off = jpeg_loop b (off + 4 + length body)"
    by (rule jpeg_loop_segment[of off b m hi lo body "segments ss @ rest"])
      (use Cons.prems s in \<open>auto simp: segment_ok_def\<close>)
  moreover have "drop (off + 4 + length body) b = segments ss @ rest"
  proof -
    have "drop (off + 4 + length body) b = drop (length body) (drop 4 (drop off b))"
      by (simp add: add.commute)
    then show ?thesis using Cons.prems(2) s by simp
  qed
  moreover have "off + 4 + length body + length (segments ss) = off + length (segments (s # ss))"
    using s by simp
  moreover have "jpeg_loop b (off + 4 + length body) = jpeg_loop b (off + 4 + length body + length (segments ss))"
    using Cons.IH[of "off + 4 + length body"] Cons.prems(1) calculation(2) by simp
  ultimately show ?case by metis
qed simp

text \<open>On a JPEG whose frame header comes after any number of well-formed other segments,
  \<open>jpegSize\<close> returns the encoded width and height.\<close>

theorem jpegSize_finds_frame:
  assumes "list_all segment_ok ss" "isSofMarker m" "m \<noteq> 0xff" "m \<noteq> 0xd9" "m \<noteq> 0xda"
  shows "jpegSize ([0xff, 0xd8] @ segments ss @ [0xff, m, l1, l2, prec, h1, h2, w1, w2] @ rest)
    = Some (256 * unat w1 + unat w2, 256 * unat h1 + unat h2)"
proof -
  let ?tail = "[0xff, m, l1, l2, prec, h1, h2, w1, w2] @ rest"
  let ?b = "[0xff, 0xd8] @ segments ss @ ?tail"
  let ?o = "2 + length (segments ss)"
  have d: "drop ?o ?b = ?tail" by simp
  have n: "at0 ?b (?o + i) = at0 ?tail i" for i using d by (metis at0_drop)
  have l: "?o + 9 \<le> length ?b" by simp
  have g: "?b ! (?o + i) = ?tail ! i" for i
    using nth_drop[of ?o ?b i] l unfolding d by (simp only: trans_le_add1)
  have be: "be16 ?b (?o + i) = 256 * unat (at0 ?tail i) + unat (at0 ?tail (i + 1))" for i
    using or_disjoint_nat[of "unat (at0 ?tail (i + 1))" 8 "unat (at0 ?tail i)"] n[of i] n[of "i + 1"]
      byte_less[of "at0 ?tail (i + 1)"]
    by (simp only: be16_def unsigned_or_eq unat_or_shift add.assoc) (simp add: or.commute)
  have "jpegSize ?b = jpeg_loop ?b 2" by (simp add: jpegSize_def at_opt_def)
  also have "\<dots> = jpeg_loop ?b ?o"
    by (rule jpeg_loop_segments[OF assms(1), of 2 ?b ?tail]) simp
  also have "\<dots> = sofSize ?b ?o"
    using assms l g[of 0] g[of 1] by (subst jpeg_loop.simps) (simp add: Let_def)
  also have "\<dots> = Some (256 * unat w1 + unat w2, 256 * unat h1 + unat h2)"
    using l be[of 7] be[of 5] by (simp add: sofSize_def)
  finally show ?thesis .
qed

end
