(* ===== verification/Step_Ops.thy ===== *)
theory Step_Ops
  imports Prelude
begin

text \<open>
  Operations that may throw half way: a function from the state to an optional error and the
  new state, so that what happened before the throw stays done.  \<open>refines\<close> relates an
  operation on a larger state to one on its abstraction; its rules are applied by
  \<open>intro refine_intros\<close>.
\<close>

type_synonym ('s, 'e) op = "'s \<Rightarrow> 'e option \<times> 's"

text \<open>Sequencing: the second step runs only if the first did not throw.\<close>

definition then_do :: "('s, 'e) op \<Rightarrow> ('s, 'e) op \<Rightarrow> ('s, 'e) op" where
  "then_do f g s = (case f s of (None, s') \<Rightarrow> g s' | (Some e, s') \<Rightarrow> (Some e, s'))"

definition when_do :: "bool \<Rightarrow> ('s, 'e) op \<Rightarrow> ('s, 'e) op" where
  "when_do b f s = (if b then f s else (None, s))"

definition modify :: "('s \<Rightarrow> 's) \<Rightarrow> ('s, 'e) op" where
  "modify f s = (None, f s)"

definition asks :: "('s \<Rightarrow> 'b) \<Rightarrow> ('b \<Rightarrow> ('s, 'e) op) \<Rightarrow> ('s, 'e) op" where
  "asks sel f s = f (sel s) s"

definition throw :: "'e \<Rightarrow> ('s, 'e) op" where
  "throw e s = (Some e, s)"

definition refines :: "('d \<Rightarrow> bool) \<Rightarrow> ('d \<Rightarrow> 'c) \<Rightarrow> ('d, 'e) op \<Rightarrow> ('c, 'e) op \<Rightarrow> bool" where
  "refines ok ab d c \<longleftrightarrow> (\<forall>s. ok s \<longrightarrow> c (ab s) = apsnd ab (d s) \<and> ok (snd (d s)))"

lemma refinesD:
  "refines ok ab d c \<Longrightarrow> ok s \<Longrightarrow> c (ab s) = apsnd ab (d s) \<and> ok (snd (d s))"
  by (simp add: refines_def)

lemma refines_eq: "refines ok ab d c \<Longrightarrow> ok s \<Longrightarrow> apsnd ab (d s) = c (ab s)"
  by (simp add: refines_def)

named_theorems refine_intros

lemma refines_then [refine_intros]:
  "refines ok ab d c \<Longrightarrow> refines ok ab d' c' \<Longrightarrow> refines ok ab (then_do d d') (then_do c c')"
  unfolding refines_def then_do_def by (auto split: option.splits prod.splits)

lemma refines_when [refine_intros]:
  "refines ok ab d c \<Longrightarrow> refines ok ab (when_do b d) (when_do b c)"
  by (simp add: refines_def when_do_def)

lemma refines_if [refine_intros]:
  "refines ok ab d c \<Longrightarrow> refines ok ab d' c' \<Longrightarrow>
     refines ok ab (if b then d else d') (if b then c else c')"
  by simp

lemma refines_asks [refine_intros]:
  "(\<And>s. sel (ab s) = sel' s) \<Longrightarrow> (\<And>x. refines ok ab (d x) (c x)) \<Longrightarrow>
     refines ok ab (asks sel' d) (asks sel c)"
  by (simp add: refines_def asks_def)

lemma refines_modify [refine_intros]:
  "(\<And>s. ok s \<Longrightarrow> ab (f s) = g (ab s) \<and> ok (f s)) \<Longrightarrow> refines ok ab (modify f) (modify g)"
  by (simp add: refines_def modify_def)

lemma refines_throw [refine_intros]: "refines ok ab (throw e) (throw e)"
  by (simp add: refines_def throw_def)

end
