(* ===== verification/Mirabox.thy ===== *)
theory Mirabox
  imports Hid_Descriptor Step_Ops
begin

text \<open>
  The Mirabox-family device: \<^verbatim>\<open>devices/mirabox/protocol.ts\<close> (packets), the WebHID core
  \<^verbatim>\<open>devices/core/mirabox-core.ts\<close> and the desktop driver \<^verbatim>\<open>devices/mirabox/driver.ts\<close>.

  An operation maps the driver state to an optional error and the new state; the reports
  written so far are the field \<open>sent\<close>, in order, so an operation that throws half way keeps
  what it wrote.  The scratch buffers are part of the state: their stale contents are what
  the code must not leak.  The pacing busy-waits change no state and are not modelled.
\<close>

section \<open>Packets\<close>

definition CRT :: "nat list" where "CRT = [0x43, 0x52, 0x54, 0x00, 0x00]"
definition CMD_DIS :: "nat list" where "CMD_DIS = [0x44, 0x49, 0x53]"
definition CMD_HAN :: "nat list" where "CMD_HAN = [0x48, 0x41, 0x4e]"
definition CMD_STP :: "nat list" where "CMD_STP = [0x53, 0x54, 0x50]"
definition CMD_CONNECT :: "nat list" where
  "CMD_CONNECT = [0x43, 0x4f, 0x4e, 0x4e, 0x45, 0x43, 0x54]"
definition ACK :: bytes where "ACK = [0x41, 0x43, 0x4b]"

abbreviation (input) BAT_PADDING_BYTES :: nat where "BAT_PADDING_BYTES \<equiv> 2"
abbreviation (input) LIG_PADDING_BYTES :: nat where "LIG_PADDING_BYTES \<equiv> 2"
abbreviation (input) CLE_PADDING_BYTES :: nat where "CLE_PADDING_BYTES \<equiv> 3"
abbreviation (input) HID_REPORT_ID_BYTE :: nat where "HID_REPORT_ID_BYTE \<equiv> 0x00"
abbreviation (input) CLEAR_ALL_KEYS :: nat where "CLEAR_ALL_KEYS \<equiv> 0xff"
abbreviation (input) DEFAULT_BRIGHTNESS :: nat where "DEFAULT_BRIGHTNESS \<equiv> 100"

definition parseAckReport :: "bytes \<Rightarrow> nat \<Rightarrow> (nat \<times> nat) option" where
  "parseAckReport data reportId =
     (let off = (if reportId \<noteq> 0 then 1 else 0) in
      if at_opt data off \<noteq> at_opt ACK 0 \<or> at_opt data (off + 1) \<noteq> at_opt ACK 1
         \<or> at_opt data (off + 2) \<noteq> at_opt ACK 2 then None
      else case (at_opt data (9 + off), at_opt data (10 + off)) of
             (Some keyIndex, Some stateByte) \<Rightarrow> Some (unat keyIndex, unat stateByte)
           | _ \<Rightarrow> None)"

definition zeroPad :: "nat \<Rightarrow> nat list" where
  "zeroPad len = replicate len 0"

definition buildCrt :: "nat list \<Rightarrow> nat list \<Rightarrow> nat \<Rightarrow> bytes" where
  "buildCrt cmd extra pktSize =
     (let buf = alloc pktSize;
          buf = put_all buf 0 CRT;
          buf = put_all buf (length CRT) cmd
      in put_all buf (length CRT + length cmd) extra)"

definition buildBat :: "nat \<Rightarrow> nat \<Rightarrow> nat \<Rightarrow> bytes" where
  "buildBat jpegLen keyId pktSize =
     buildCrt [0x42, 0x41, 0x54]
       (zeroPad BAT_PADDING_BYTES @ [unat (byte_of jpegLen 8), unat (byte_of jpegLen 0), keyId]) pktSize"

definition buildLig :: "nat \<Rightarrow> nat \<Rightarrow> bytes" where
  "buildLig brightness pktSize =
     buildCrt [0x4c, 0x49, 0x47] (zeroPad LIG_PADDING_BYTES @ [brightness]) pktSize"

definition buildCle :: "nat \<Rightarrow> nat \<Rightarrow> bytes" where
  "buildCle keyId pktSize =
     buildCrt [0x43, 0x4c, 0x45] (zeroPad CLE_PADDING_BYTES @ [keyId]) pktSize"

definition buildCleDc :: "nat \<Rightarrow> bytes" where
  "buildCleDc pktSize =
     buildCrt [0x43, 0x4c, 0x45] (zeroPad (CLE_PADDING_BYTES - 1) @ [0x44, 0x43]) pktSize"

text \<open>\<^verbatim>\<open>padChunkBoundaries\<close>, group by group as the loop fills the output.\<close>

definition padChunkBoundaries :: "bytes \<Rightarrow> nat \<Rightarrow> bytes" where
  "padChunkBoundaries data pktSize =
     (let payload = pktSize - 1 in
      if length data < payload then data
      else let groups = length data div payload;
               out = alloc (length data + groups);
               out = foldl (\<lambda>out g. set_at out (g * pktSize)
                        (subarray data (g * payload) ((g + 1) * payload))) out [0..<groups]
           in set_at out (groups * pktSize) (drop (groups * payload) data))"

section \<open>Model and state\<close>

record wire_spec =
  w_packetSize :: nat
  w_inSize :: nat
  w_heartbeatMs :: nat
  w_synthesizeKeyUp :: bool
  w_sendStpAfterImage :: bool
  w_reportId :: "nat option"
  w_chunkPadByte :: bool
  w_packetSizeCandidates :: "nat list option"
  w_sleep_han :: bool

datatype key_state = Down | Up

datatype mb_error = Bad_Packet_Size nat nat | Open_Failed

record mb =
  pktSize :: nat
  reportIdByte :: nat
  imageBatch :: bool
  pendingStp :: bool
  asleep :: bool
  lastLevel :: nat
  chunkScratch :: bytes
  writeScratch :: bytes
  lastHeartbeatAt :: int
  sent :: "bytes list"

section \<open>The WebHID core\<close>

type_synonym mb_op = "mb \<Rightarrow> mb_error option \<times> mb"

definition core_write :: "bytes \<Rightarrow> mb_op" where
  "core_write pkt s =
     (if length pkt \<noteq> pktSize s then (Some (Bad_Packet_Size (pktSize s) (length pkt)), s)
      else let arr = put (writeScratch s) 0 (of_nat (reportIdByte s)); arr = set_at arr 1 pkt
           in (None, s\<lparr>writeScratch := arr, sent := sent s @ [arr]\<rparr>))"

definition core_setPacketSize :: "nat \<Rightarrow> mb \<Rightarrow> mb" where
  "core_setPacketSize n s = s\<lparr>pktSize := n, chunkScratch := alloc n, writeScratch := alloc (n + 1)\<rparr>"

definition core_reset :: "wire_spec \<Rightarrow> mb \<Rightarrow> mb" where
  "core_reset w s =
     core_setPacketSize (w_packetSize w)
       (s\<lparr>reportIdByte := (case w_reportId w of None \<Rightarrow> HID_REPORT_ID_BYTE | Some r \<Rightarrow> r),
          asleep := False\<rparr>)"

definition new_core :: "wire_spec \<Rightarrow> mb" where
  "new_core w = core_reset w \<lparr> pktSize = w_packetSize w, reportIdByte = HID_REPORT_ID_BYTE,
     imageBatch = False, pendingStp = False, asleep = False, lastLevel = DEFAULT_BRIGHTNESS,
     chunkScratch = [], writeScratch = [], lastHeartbeatAt = 0, sent = [] \<rparr>"

definition core_cmd :: "nat list \<Rightarrow> mb_op" where
  "core_cmd cmd = asks pktSize (\<lambda>n. core_write (buildCrt cmd [] n))"

definition core_init :: "wire_spec \<Rightarrow> mb_op" where
  "core_init w =
     then_do (modify (\<lambda>s. s\<lparr>asleep := False\<rparr>))
    (then_do (core_cmd CMD_DIS)
    (then_do (asks pktSize (\<lambda>n. core_write (buildLig DEFAULT_BRIGHTNESS n)))
    (then_do (asks pktSize (\<lambda>n. core_write (buildCle CLEAR_ALL_KEYS n)))
             (when_do (w_sendStpAfterImage w) (core_cmd CMD_STP)))))"

definition core_startClock :: "int \<Rightarrow> mb \<Rightarrow> mb" where
  "core_startClock now s = s\<lparr>lastHeartbeatAt := now\<rparr>"

text \<open>\<^verbatim>\<open>heartbeat(now)\<close>: whether the device was re-initialised, and the outcome.\<close>

definition core_heartbeat :: "wire_spec \<Rightarrow> int \<Rightarrow> mb \<Rightarrow> bool \<times> mb_error option \<times> mb" where
  "core_heartbeat w now s =
     (let reinit = (int (w_heartbeatMs w) * 2 < now - lastHeartbeatAt s) in
      (reinit, then_do (modify (\<lambda>s. s\<lparr>lastHeartbeatAt := now\<rparr>))
        (then_do (when_do reinit (core_init w)) (core_cmd CMD_CONNECT)) s))"

text \<open>One pass of the chunk loop through the reused chunk buffer.\<close>

definition stage_chunk :: "bytes \<Rightarrow> nat \<Rightarrow> nat \<Rightarrow> bytes \<Rightarrow> bytes" where
  "stage_chunk wire offset pkt chunk =
     (let len = min pkt (length wire - offset);
          chunk = (if len < pkt then fill_range chunk 0 len (length chunk) else chunk)
      in set_at chunk 0 (subarray wire offset (offset + len)))"

text \<open>The loop over the wire bytes; a packet size of 0 (it is 512 or 1024) would not progress.\<close>

function core_chunks :: "bytes \<Rightarrow> nat \<Rightarrow> nat \<Rightarrow> mb_op" where
  "core_chunks wire pkt offset s =
     (if length wire \<le> offset \<or> pkt = 0 then (None, s)
      else let c = stage_chunk wire offset pkt (chunkScratch s); s1 = s\<lparr>chunkScratch := c\<rparr> in
           case core_write c s1 of
             (Some e, s2) \<Rightarrow> (Some e, s2)
           | (None, s2) \<Rightarrow> core_chunks wire pkt (offset + pkt) s2)"
  by pat_completeness auto
termination
  by (relation "measure (\<lambda>(wire, pkt, offset, s). length wire - offset)") auto

declare core_chunks.simps [simp del]

definition core_sendImage :: "wire_spec \<Rightarrow> nat \<Rightarrow> bytes \<Rightarrow> mb_op" where
  "core_sendImage w imageKeyId jpeg =
     asks pktSize (\<lambda>n.
       let wire = (if w_chunkPadByte w then padChunkBoundaries jpeg n else jpeg) in
       then_do (core_write (buildBat (length wire) imageKeyId n))
      (then_do (core_chunks wire n 0)
               (asks imageBatch (\<lambda>b. if b then modify (\<lambda>s. s\<lparr>pendingStp := True\<rparr>)
                                     else core_cmd CMD_STP))))"

definition core_beginBatch :: "mb \<Rightarrow> mb" where
  "core_beginBatch s = s\<lparr>imageBatch := True\<rparr>"

definition core_endBatch :: mb_op where
  "core_endBatch =
     then_do (modify (\<lambda>s. s\<lparr>imageBatch := False\<rparr>))
       (asks pendingStp (\<lambda>p. when_do p
          (then_do (modify (\<lambda>s. s\<lparr>pendingStp := False\<rparr>)) (core_cmd CMD_STP))))"

definition core_clearKey :: "wire_spec \<Rightarrow> nat \<Rightarrow> mb_op" where
  "core_clearKey w imageKeyId =
     then_do (asks pktSize (\<lambda>n. core_write (buildCle imageKeyId n)))
             (when_do (w_sendStpAfterImage w) (core_cmd CMD_STP))"

definition core_setBrightness :: "nat \<Rightarrow> mb_op" where
  "core_setBrightness level =
     then_do (modify (\<lambda>s. s\<lparr>lastLevel := level\<rparr>)) (asks pktSize (\<lambda>n. core_write (buildLig level n)))"

definition core_setSleep :: "wire_spec \<Rightarrow> bool \<Rightarrow> mb_op" where
  "core_setSleep w on =
     asks asleep (\<lambda>cur. when_do (w_sleep_han w \<and> on \<noteq> cur)
       (then_do (modify (\<lambda>s. s\<lparr>asleep := on\<rparr>))
          (if on then core_cmd CMD_HAN
           else then_do (core_cmd CMD_DIS)
                  (asks lastLevel (\<lambda>l. asks pktSize (\<lambda>n. core_write (buildLig l n)))))))"

definition core_closeReports :: "mb \<Rightarrow> bytes list" where
  "core_closeReports s =
     map (\<lambda>pkt. set_at (put (alloc (length pkt + 1)) 0 (of_nat (reportIdByte s))) 1 pkt)
       [buildCleDc (pktSize s), buildCrt CMD_HAN [] (pktSize s)]"

definition core_parseInput :: "wire_spec \<Rightarrow> mb \<Rightarrow> bytes \<Rightarrow> (nat \<times> key_state) list option" where
  "core_parseInput w s data =
     (case parseAckReport data (reportIdByte s) of
        None \<Rightarrow> None
      | Some (keyIndex, stateByte) \<Rightarrow>
          if w_synthesizeKeyUp w then Some [(keyIndex, Down), (keyIndex, Up)]
          else Some [(keyIndex, if stateByte = 0x01 then Down else Up)])"

section \<open>The desktop driver\<close>

datatype drv_event = Key nat key_state | Driver_Error mb_error | Read_Failed | Disconnect | Reinit

record mb_drv = mb +
  opened :: bool
  heartbeatTimer :: bool
  readTimer :: bool
  emitted :: "drv_event list"

type_synonym drv_op = "mb_drv \<Rightarrow> mb_error option \<times> mb_drv"

definition emit :: "drv_event \<Rightarrow> mb_drv \<Rightarrow> mb_drv" where
  "emit e s = s\<lparr>emitted := emitted s @ [e]\<rparr>"

text \<open>\<^verbatim>\<open>write\<close>; the result of \<^verbatim>\<open>hid_write\<close> is only logged.\<close>

definition drv_write :: "bytes \<Rightarrow> drv_op" where
  "drv_write pkt s =
     (if length pkt \<noteq> pktSize s then (Some (Bad_Packet_Size (pktSize s) (length pkt)), s)
      else if \<not> opened s then (None, s)
      else let arr = put (writeScratch s) 0 (of_nat (reportIdByte s)); arr = set_at arr 1 pkt
           in (None, s\<lparr>writeScratch := arr, sent := sent s @ [arr]\<rparr>))"

definition drv_cmd :: "nat list \<Rightarrow> drv_op" where
  "drv_cmd cmd = asks pktSize (\<lambda>n. drv_write (buildCrt cmd [] n))"

definition drv_adoptProbedPacketSize :: "wire_spec \<Rightarrow> bytes option \<Rightarrow> mb_drv \<Rightarrow> mb_drv" where
  "drv_adoptProbedPacketSize w desc s =
     (case w_packetSizeCandidates w of
        None \<Rightarrow> s
      | Some candidates \<Rightarrow>
          (case probeOutputReportSize desc candidates of
             None \<Rightarrow> s
           | Some probed \<Rightarrow>
               if probed = pktSize s then s
               else s\<lparr>pktSize := probed, chunkScratch := alloc probed, writeScratch := alloc (probed + 1)\<rparr>))"

definition drv_writeInitSequence :: "wire_spec \<Rightarrow> drv_op" where
  "drv_writeInitSequence w =
     then_do (modify (\<lambda>s. s\<lparr>asleep := False\<rparr>))
    (then_do (drv_cmd CMD_DIS)
    (then_do (asks pktSize (\<lambda>n. drv_write (buildLig DEFAULT_BRIGHTNESS n)))
    (then_do (asks pktSize (\<lambda>n. drv_write (buildCle CLEAR_ALL_KEYS n)))
             (when_do (w_sendStpAfterImage w) (drv_cmd CMD_STP)))))"

text \<open>\<^verbatim>\<open>open(hidPath)\<close>: \<open>can_open\<close> is whether \<^verbatim>\<open>hid_open_path\<close> succeeds, \<open>desc\<close> the report
  descriptor the device returns.\<close>

definition drv_open :: "wire_spec \<Rightarrow> bool \<Rightarrow> bytes option \<Rightarrow> int \<Rightarrow> drv_op" where
  "drv_open w can_open desc now s =
     (let n = w_packetSize w;
          s = s\<lparr>pktSize := n,
                reportIdByte := (case w_reportId w of None \<Rightarrow> HID_REPORT_ID_BYTE | Some r \<Rightarrow> r),
                asleep := False, chunkScratch := alloc n, writeScratch := alloc (n + 1)\<rparr>
      in if \<not> can_open then (Some Open_Failed, s)
         else then_do (modify (\<lambda>s. drv_adoptProbedPacketSize w desc (s\<lparr>opened := True\<rparr>)))
             (then_do (modify (\<lambda>s. s\<lparr>readTimer := True\<rparr>))
             (then_do (drv_writeInitSequence w)
                      (modify (\<lambda>s. s\<lparr>lastHeartbeatAt := now, heartbeatTimer := True\<rparr>)))) s)"

definition drv_heartbeat :: "wire_spec \<Rightarrow> int \<Rightarrow> drv_op" where
  "drv_heartbeat w now =
     asks lastHeartbeatAt (\<lambda>last.
       let gap = now - last in
       then_do (modify (\<lambda>s. s\<lparr>lastHeartbeatAt := now\<rparr>))
      (then_do (when_do (int (w_heartbeatMs w) * 2 < gap)
                  (then_do (drv_writeInitSequence w) (modify (emit Reinit))))
               (drv_cmd CMD_CONNECT)))"

function drv_chunks :: "bytes \<Rightarrow> nat \<Rightarrow> nat \<Rightarrow> drv_op" where
  "drv_chunks wire pkt offset s =
     (if length wire \<le> offset \<or> pkt = 0 then (None, s)
      else let c = stage_chunk wire offset pkt (chunkScratch s); s1 = s\<lparr>chunkScratch := c\<rparr> in
           case drv_write c s1 of
             (Some e, s2) \<Rightarrow> (Some e, s2)
           | (None, s2) \<Rightarrow> drv_chunks wire pkt (offset + pkt) s2)"
  by pat_completeness auto
termination
  by (relation "measure (\<lambda>(wire, pkt, offset, s). length wire - offset)") auto

declare drv_chunks.simps [simp del]

text \<open>\<^verbatim>\<open>sendImage\<close>: nothing on a closed device; a throw becomes an 'error' event.\<close>

definition drv_sendImage :: "wire_spec \<Rightarrow> nat \<Rightarrow> bytes \<Rightarrow> mb_drv \<Rightarrow> mb_drv" where
  "drv_sendImage w imageKeyId jpeg s =
     (if \<not> opened s then s
      else case asks pktSize (\<lambda>n.
             let wire = (if w_chunkPadByte w then padChunkBoundaries jpeg n else jpeg) in
             then_do (drv_write (buildBat (length wire) imageKeyId n))
            (then_do (drv_chunks wire n 0)
                     (asks imageBatch (\<lambda>b. if b then modify (\<lambda>s. s\<lparr>pendingStp := True\<rparr>)
                                           else drv_cmd CMD_STP)))) s of
          (None, s') \<Rightarrow> s'
        | (Some e, s') \<Rightarrow> emit (Driver_Error e) s')"

definition drv_beginBatch :: "mb_drv \<Rightarrow> mb_drv" where
  "drv_beginBatch s = s\<lparr>imageBatch := True\<rparr>"

definition drv_endImageBatch :: drv_op where
  "drv_endImageBatch =
     then_do (modify (\<lambda>s. s\<lparr>imageBatch := False\<rparr>))
       (asks pendingStp (\<lambda>p. when_do p
          (then_do (modify (\<lambda>s. s\<lparr>pendingStp := False\<rparr>)) (drv_cmd CMD_STP))))"

definition drv_clearKey :: "wire_spec \<Rightarrow> nat \<Rightarrow> drv_op" where
  "drv_clearKey w imageKeyId =
     then_do (asks pktSize (\<lambda>n. drv_write (buildCle imageKeyId n)))
             (when_do (w_sendStpAfterImage w) (drv_cmd CMD_STP))"

definition drv_setBrightness :: "nat \<Rightarrow> drv_op" where
  "drv_setBrightness level =
     then_do (modify (\<lambda>s. s\<lparr>lastLevel := level\<rparr>)) (asks pktSize (\<lambda>n. drv_write (buildLig level n)))"

definition drv_setSleep :: "wire_spec \<Rightarrow> bool \<Rightarrow> drv_op" where
  "drv_setSleep w on =
     asks asleep (\<lambda>cur. when_do (w_sleep_han w \<and> on \<noteq> cur)
       (then_do (modify (\<lambda>s. s\<lparr>asleep := on\<rparr>))
          (if on then drv_cmd CMD_HAN
           else then_do (drv_cmd CMD_DIS)
                  (asks lastLevel (\<lambda>l. asks pktSize (\<lambda>n. drv_write (buildLig l n)))))))"

definition drv_parseInput :: "wire_spec \<Rightarrow> bytes \<Rightarrow> mb_drv \<Rightarrow> mb_drv" where
  "drv_parseInput w data s =
     (case parseAckReport data (reportIdByte s) of
        None \<Rightarrow> s
      | Some (keyIndex, stateByte) \<Rightarrow>
          if w_synthesizeKeyUp w then emit (Key keyIndex Up) (emit (Key keyIndex Down) s)
          else emit (Key keyIndex (if stateByte = 0x01 then Down else Up)) s)"

definition drv_onBeforeClose :: "mb_drv \<Rightarrow> mb_drv" where
  "drv_onBeforeClose s =
     (if \<not> opened s then s
      else s\<lparr>sent := sent s @
              map (\<lambda>pkt. set_at (put (alloc (length pkt + 1)) 0 (of_nat (reportIdByte s))) 1 pkt)
                [buildCleDc (pktSize s), buildCrt CMD_HAN [] (pktSize s)]\<rparr>)"

text \<open>\<^verbatim>\<open>_cleanup\<close>, with \<^verbatim>\<open>_closeDevice\<close> of \<^verbatim>\<open>hid-device-base.ts\<close>.\<close>

definition drv_cleanup :: "mb_drv \<Rightarrow> mb_drv" where
  "drv_cleanup s =
     (let s = s\<lparr>heartbeatTimer := False, readTimer := False\<rparr>
      in if opened s then (drv_onBeforeClose s)\<lparr>opened := False\<rparr> else s)"

text \<open>One tick of the read loop (\<^verbatim>\<open>_startReadLoop\<close>): \<open>n\<close> is what \<^verbatim>\<open>hid_read_timeout\<close> returned
  and \<open>buf\<close> the read buffer.\<close>

definition drv_readTick :: "wire_spec \<Rightarrow> int \<Rightarrow> bytes \<Rightarrow> mb_drv \<Rightarrow> mb_drv" where
  "drv_readTick w n buf s =
     (if \<not> opened s then s
      else if n < 0 then emit Disconnect (emit Read_Failed (drv_cleanup s))
      else if 0 < n then drv_parseInput w (subarray buf 0 (nat n)) s
      else s)"

section \<open>The driver refines the core\<close>

text \<open>The driver operation \<open>d\<close> behaves as the core operation \<open>c\<close> on the shared fields, as long as
  the device is open.\<close>

abbreviation mb_refines :: "drv_op \<Rightarrow> mb_op \<Rightarrow> bool" where
  "mb_refines \<equiv> refines opened mb.truncate"

lemma truncate_simps [simp]:
  "pktSize (mb.truncate s) = pktSize s" "reportIdByte (mb.truncate s) = reportIdByte s"
  "imageBatch (mb.truncate s) = imageBatch s" "pendingStp (mb.truncate s) = pendingStp s"
  "asleep (mb.truncate s) = asleep s" "lastLevel (mb.truncate s) = lastLevel s"
  "chunkScratch (mb.truncate s) = chunkScratch s" "writeScratch (mb.truncate s) = writeScratch s"
  "lastHeartbeatAt (mb.truncate s) = lastHeartbeatAt s" "sent (mb.truncate s) = sent s"
  by (simp_all add: mb.truncate_def)

lemma refines_write [refine_intros]: "mb_refines (drv_write p) (core_write p)"
  by (simp add: refines_def drv_write_def core_write_def Let_def mb.truncate_def)

lemma refines_cmd [refine_intros]: "mb_refines (drv_cmd cmd) (core_cmd cmd)"
  unfolding drv_cmd_def core_cmd_def by (intro refine_intros) simp

lemma refines_init [refine_intros]: "mb_refines (drv_writeInitSequence w) (core_init w)"
  unfolding drv_writeInitSequence_def core_init_def
  by (intro refine_intros) (simp_all add: mb.truncate_def)

lemma refines_chunks [refine_intros]: "mb_refines (drv_chunks wire pkt off) (core_chunks wire pkt off)"
proof -
  have "core_chunks wire pkt off (mb.truncate s) = apsnd mb.truncate (drv_chunks wire pkt off s)
      \<and> opened (snd (drv_chunks wire pkt off s))" if "opened s" for s
    using that
  proof (induction wire pkt off s rule: drv_chunks.induct)
    case (1 wire pkt off s)
    show ?case
    proof (cases "length wire \<le> off \<or> pkt = 0")
      case True
      then show ?thesis using 1(2)
        by (simp add: drv_chunks.simps[of wire pkt off s] core_chunks.simps[of wire pkt off "mb.truncate s"])
    next
      case False
      let ?c = "stage_chunk wire off pkt (chunkScratch s)"
      let ?s1 = "s\<lparr>chunkScratch := ?c\<rparr>"
      obtain e s2 where w: "drv_write ?c ?s1 = (e, s2)" by fastforce
      have t: "mb.truncate ?s1 = (mb.truncate s)\<lparr>chunkScratch := ?c\<rparr>" by (simp add: mb.truncate_def)
      have cw: "core_write ?c ((mb.truncate s)\<lparr>chunkScratch := ?c\<rparr>) = (e, mb.truncate s2)" "opened s2"
        using refinesD[OF refines_write, of ?s1 ?c] 1(2) w t by auto
      show ?thesis
      proof (cases e)
        case None
        have "core_chunks wire pkt (off + pkt) (mb.truncate s2)
            = apsnd mb.truncate (drv_chunks wire pkt (off + pkt) s2)
          \<and> opened (snd (drv_chunks wire pkt (off + pkt) s2))"
          by (rule 1(1)[OF False refl refl w[symmetric] None cw(2)])
        then show ?thesis
          using False w cw None
          by (simp add: drv_chunks.simps[of wire pkt off s] core_chunks.simps[of wire pkt off "mb.truncate s"] Let_def)
      next
        case (Some err)
        then show ?thesis
          using False w cw
          by (simp add: drv_chunks.simps[of wire pkt off s] core_chunks.simps[of wire pkt off "mb.truncate s"] Let_def)
      qed
    qed
  qed
  then show ?thesis by (simp add: refines_def)
qed

lemma refines_endBatch [refine_intros]: "mb_refines drv_endImageBatch core_endBatch"
  unfolding drv_endImageBatch_def core_endBatch_def
  by (intro refine_intros) (simp_all add: mb.truncate_def)

lemma refines_clearKey [refine_intros]: "mb_refines (drv_clearKey w k) (core_clearKey w k)"
  unfolding drv_clearKey_def core_clearKey_def by (intro refine_intros) simp_all

lemma refines_setBrightness [refine_intros]: "mb_refines (drv_setBrightness l) (core_setBrightness l)"
  unfolding drv_setBrightness_def core_setBrightness_def
  by (intro refine_intros) (simp_all add: mb.truncate_def)

lemma refines_setSleep [refine_intros]: "mb_refines (drv_setSleep w on) (core_setSleep w on)"
  unfolding drv_setSleep_def core_setSleep_def
  by (intro refine_intros) (simp_all add: mb.truncate_def)

lemma refines_heartbeat: "mb_refines (drv_heartbeat w now) (\<lambda>s. snd (core_heartbeat w now s))"
proof -
  have "mb_refines (then_do (drv_writeInitSequence w) (modify (emit Reinit))) (then_do (core_init w) (modify id))"
    by (intro refine_intros) (simp add: emit_def mb.truncate_def)
  moreover have "then_do (core_init w) (modify id) = core_init w"
    by (rule ext) (simp add: then_do_def modify_def split: option.splits prod.splits)
  ultimately have i: "mb_refines (then_do (drv_writeInitSequence w) (modify (emit Reinit))) (core_init w)" by simp
  have "(\<lambda>s. snd (core_heartbeat w now s)) =
     asks lastHeartbeatAt (\<lambda>last. then_do (modify (\<lambda>s. s\<lparr>lastHeartbeatAt := now\<rparr>))
        (then_do (when_do (int (w_heartbeatMs w) * 2 < now - last) (core_init w)) (core_cmd CMD_CONNECT)))"
    by (rule ext) (simp add: core_heartbeat_def asks_def Let_def)
  then show ?thesis
    unfolding drv_heartbeat_def Let_def
    by (simp only:) (intro refine_intros i; simp add: mb.truncate_def)
qed

lemma refines_send:
  "opened s \<Longrightarrow> mb.truncate (drv_sendImage w k img s) = snd (core_sendImage w k img (mb.truncate s))"
proof -
  assume o: "opened s"
  let ?drv = "asks pktSize (\<lambda>n.
             let wire = (if w_chunkPadByte w then padChunkBoundaries img n else img) in
             then_do (drv_write (buildBat (length wire) k n))
            (then_do (drv_chunks wire n 0)
                     (asks imageBatch (\<lambda>b. if b then modify (\<lambda>s. s\<lparr>pendingStp := True\<rparr>)
                                           else drv_cmd CMD_STP))))"
  have "mb_refines ?drv (core_sendImage w k img)"
    unfolding core_sendImage_def Let_def by (intro refine_intros) (simp_all add: mb.truncate_def)
  from refinesD[OF this o] show ?thesis
    using o by (auto simp: drv_sendImage_def emit_def mb.truncate_def split: option.splits prod.splits)
qed

text \<open>C3. The desktop driver and its WebHID copy are the same device: on an open device every
  driver operation has the outcome of the core operation on the shared state, and writes the
  same reports.\<close>

theorem driver_refines_core:
  assumes "opened s"
  shows "mb.truncate (drv_sendImage w k img s) = snd (core_sendImage w k img (mb.truncate s))
    \<and> apsnd mb.truncate (drv_clearKey w k s) = core_clearKey w k (mb.truncate s)
    \<and> apsnd mb.truncate (drv_setBrightness l s) = core_setBrightness l (mb.truncate s)
    \<and> apsnd mb.truncate (drv_setSleep w on s) = core_setSleep w on (mb.truncate s)
    \<and> apsnd mb.truncate (drv_endImageBatch s) = core_endBatch (mb.truncate s)
    \<and> apsnd mb.truncate (drv_heartbeat w now s) = snd (core_heartbeat w now (mb.truncate s))
    \<and> apsnd mb.truncate (drv_writeInitSequence w s) = core_init w (mb.truncate s)
    \<and> emitted (drv_parseInput w data s) = emitted s @
        map (\<lambda>(i, st). Key i st) (case core_parseInput w (mb.truncate s) data of None \<Rightarrow> [] | Some es \<Rightarrow> es)
    \<and> sent (drv_onBeforeClose s) = sent s @ core_closeReports (mb.truncate s)"
proof (intro conjI)
  show "emitted (drv_parseInput w data s) = emitted s @
        map (\<lambda>(i, st). Key i st) (case core_parseInput w (mb.truncate s) data of None \<Rightarrow> [] | Some es \<Rightarrow> es)"
    by (simp add: drv_parseInput_def core_parseInput_def emit_def split: option.splits)
  show "sent (drv_onBeforeClose s) = sent s @ core_closeReports (mb.truncate s)"
    using assms by (simp add: drv_onBeforeClose_def core_closeReports_def)
  show "mb.truncate (drv_sendImage w k img s) = snd (core_sendImage w k img (mb.truncate s))"
    by (rule refines_send[OF assms])
qed (rule refines_eq[where ok = opened and ab = mb.truncate, OF _ assms], rule refines_clearKey refines_setBrightness refines_setSleep
      refines_endBatch refines_heartbeat refines_init)+

lemma driver_refines_core_witness:
  "snd (core_setBrightness 50 (new_core \<lparr> w_packetSize = 16, w_inSize = 8, w_heartbeatMs = 10,
      w_synthesizeKeyUp = False, w_sendStpAfterImage = True, w_reportId = None, w_chunkPadByte = False,
      w_packetSizeCandidates = None, w_sleep_han = False \<rparr>))
   = mb.truncate (snd (drv_setBrightness 50 (mb.extend (new_core \<lparr> w_packetSize = 16, w_inSize = 8,
      w_heartbeatMs = 10, w_synthesizeKeyUp = False, w_sendStpAfterImage = True, w_reportId = None,
      w_chunkPadByte = False, w_packetSizeCandidates = None, w_sleep_han = False \<rparr>)
      (mb_drv.fields True True True []))))"
  (is "snd (core_setBrightness 50 ?c) = mb.truncate (snd (drv_setBrightness 50 ?d))")
proof -
  have o: "opened ?d" by (simp add: mb.extend_def mb_drv.fields_def)
  have t: "mb.truncate ?d = ?c" by (simp add: mb.extend_def mb_drv.fields_def mb.truncate_def)
  from driver_refines_core[OF o] have "apsnd mb.truncate (drv_setBrightness 50 ?d) = core_setBrightness 50 ?c"
    unfolding t by blast
  then show ?thesis by (metis snd_apsnd)
qed

section \<open>Reports on the wire\<close>

definition mb_ok :: "mb \<Rightarrow> bool" where
  "mb_ok s \<longleftrightarrow> 0 < pktSize s \<and> length (chunkScratch s) = pktSize s \<and> length (writeScratch s) = pktSize s + 1"

text \<open>\<open>writes f s ps\<close>: the operation succeeds and its reports are exactly \<open>ps\<close>, each behind the
  report id; the framing fields stay as they were.\<close>

definition writes :: "mb_op \<Rightarrow> mb \<Rightarrow> bytes list \<Rightarrow> bool" where
  "writes f s ps \<longleftrightarrow> fst (f s) = None \<and> mb_ok (snd (f s))
     \<and> sent (snd (f s)) = sent s @ map ((#) (of_nat (reportIdByte s))) ps
     \<and> pktSize (snd (f s)) = pktSize s \<and> reportIdByte (snd (f s)) = reportIdByte s
     \<and> imageBatch (snd (f s)) = imageBatch s"

lemma writes_core_write:
  assumes "mb_ok s" "length p = pktSize s"
  shows "writes (core_write p) s [p]"
proof -
  obtain a r where w: "writeScratch s = a # r" "length r = pktSize s"
    using assms by (cases "writeScratch s") (auto simp: mb_ok_def)
  then show ?thesis
    using assms by (simp add: writes_def core_write_def Let_def mb_ok_def set_at_def)
qed

lemma writes_then:
  assumes "writes f s ps" "writes g (snd (f s)) qs"
  shows "writes (then_do f g) s (ps @ qs)"
proof -
  have "then_do f g s = g (snd (f s))"
    using assms(1) by (cases "f s") (simp add: writes_def then_do_def)
  then show ?thesis using assms by (simp add: writes_def)
qed

lemma buildCrt_length [simp]: "length (buildCrt cmd extra n) = n"
  by (simp add: buildCrt_def Let_def)

lemma build_lengths [simp]:
  "length (buildBat l k n) = n" "length (buildLig b n) = n" "length (buildCle k n) = n"
  "length (buildCleDc n) = n"
  by (simp_all add: buildBat_def buildLig_def buildCle_def buildCleDc_def)

lemma writes_cmd: "mb_ok s \<Longrightarrow> writes (core_cmd cmd) s [buildCrt cmd [] (pktSize s)]"
  using writes_core_write[of s "buildCrt cmd [] (pktSize s)"]
  by (simp add: core_cmd_def asks_def writes_def)

text \<open>The slices of an image: full packets, the last one padded with zeros, none for no bytes.\<close>

definition image_slices :: "nat \<Rightarrow> bytes \<Rightarrow> bytes list" where
  "image_slices n img =
     (if img = [] then [] else map (\<lambda>c. c @ alloc (n - length c)) (chop n img))"

lemma stage_chunk_eq:
  assumes "length chunk = n" "0 < n"
  shows "stage_chunk wire off n chunk = (let c = take n (drop off wire) in c @ alloc (n - length c))"
  using assms
  by (auto simp: stage_chunk_def Let_def set_at_def subarray_def fill_range_def min_def)

lemma image_slices_step:
  assumes "off < length wire" "0 < n"
  shows "image_slices n (drop off wire) =
     (let c = take n (drop off wire) in c @ alloc (n - length c)) # image_slices n (drop (off + n) wire)"
proof (cases "length (drop off wire) \<le> n")
  case True
  then show ?thesis using assms by (simp add: image_slices_def chop_last Let_def)
next
  case False
  then have "chop n (drop off wire) = take n (drop off wire) # chop n (drop n (drop off wire))"
    using assms by (intro chop_step) simp_all
  moreover have "drop n (drop off wire) = drop (off + n) wire" by (simp add: add.commute)
  moreover have "drop (off + n) wire \<noteq> []" using False by simp
  ultimately show ?thesis
    using assms by (simp only: image_slices_def Let_def) simp
qed

lemma writes_chunks:
  "mb_ok s \<Longrightarrow> pktSize s = n \<Longrightarrow> writes (core_chunks wire n off) s (image_slices n (drop off wire))"
proof (induction wire n off s rule: core_chunks.induct)
  case (1 wire n off s)
  show ?case
  proof (cases "length wire \<le> off \<or> n = 0")
    case True
    then have "core_chunks wire n off s = (None, s)" "length wire \<le> off"
      using 1(2,3) by (auto simp: core_chunks.simps[of wire n off s] mb_ok_def)
    then show ?thesis using 1(2) by (simp add: writes_def image_slices_def)
  next
    case False
    let ?c = "stage_chunk wire off n (chunkScratch s)"
    let ?s1 = "s\<lparr>chunkScratch := ?c\<rparr>"
    have c: "?c = (let c = take n (drop off wire) in c @ alloc (n - length c))"
      using 1(2,3) False by (intro stage_chunk_eq) (auto simp: mb_ok_def)
    then have cl: "length ?c = n" by (simp add: Let_def)
    then have w: "writes (core_write ?c) ?s1 [?c]"
      using 1(2,3) by (intro writes_core_write) (auto simp: mb_ok_def)
    obtain s2 where s2: "core_write ?c ?s1 = (None, s2)"
      using w by (cases "core_write ?c ?s1") (simp add: writes_def)
    then have s2w: "mb_ok s2" "pktSize s2 = n" "sent s2 = sent s @ [of_nat (reportIdByte s) # ?c]"
      "reportIdByte s2 = reportIdByte s" "imageBatch s2 = imageBatch s"
      using w 1(3) by (simp_all add: writes_def)
    have rest: "writes (core_chunks wire n (off + n)) s2 (image_slices n (drop (off + n) wire))"
      by (rule 1(1)[OF False refl refl s2[symmetric] refl s2w(1,2)])
    have e: "core_chunks wire n off s = core_chunks wire n (off + n) s2"
      using False s2 by (simp only: core_chunks.simps[of wire n off s] Let_def if_False) simp
    have sl: "image_slices n (drop off wire) = ?c # image_slices n (drop (off + n) wire)"
      unfolding c using False by (intro image_slices_step) simp_all
    show ?thesis using rest s2w 1(3) unfolding writes_def e sl by simp
  qed
qed

text \<open>An image upload is one BAT command with the wire length, the image in packet-size
  slices padded with zeros (nothing stale from the reused buffers), and one STP unless an
  image batch is open; every report carries the report id.\<close>

theorem send_image_reports:
  fixes s w img k
  defines "n \<equiv> pktSize s"
  defines "wire \<equiv> (if w_chunkPadByte w then padChunkBoundaries img n else img)"
  assumes "mb_ok s"
  shows "fst (core_sendImage w k img s) = None
    \<and> sent (snd (core_sendImage w k img s)) = sent s @ map ((#) (of_nat (reportIdByte s)))
        ([buildBat (length wire) k n] @ image_slices n wire
         @ (if imageBatch s then [] else [buildCrt CMD_STP [] n]))
    \<and> (imageBatch s \<longrightarrow> pendingStp (snd (core_sendImage w k img s)))"
proof -
  let ?bat = "core_write (buildBat (length wire) k n)" and ?ch = "core_chunks wire n 0"
  let ?fin = "asks imageBatch (\<lambda>b. if b then modify (\<lambda>s. s\<lparr>pendingStp := True\<rparr>) else core_cmd CMD_STP)"
  have f: "core_sendImage w k img s = then_do ?bat (then_do ?ch ?fin) s"
    by (simp add: core_sendImage_def asks_def Let_def wire_def n_def)
  have w1: "writes ?bat s [buildBat (length wire) k n]"
    using assms(3) by (intro writes_core_write) (simp_all add: n_def)
  define s1 where "s1 = snd (?bat s)"
  have s1: "mb_ok s1" "pktSize s1 = n" "reportIdByte s1 = reportIdByte s" "imageBatch s1 = imageBatch s"
    using w1 by (simp_all add: writes_def s1_def n_def)
  have w2: "writes ?ch s1 (image_slices n wire)"
    using writes_chunks[of s1 n wire 0] s1 by simp
  define s2 where "s2 = snd (?ch s1)"
  have s2: "mb_ok s2" "pktSize s2 = n" "reportIdByte s2 = reportIdByte s" "imageBatch s2 = imageBatch s"
    "sent s2 = sent s @ map ((#) (of_nat (reportIdByte s))) ([buildBat (length wire) k n] @ image_slices n wire)"
    using w1 w2 s1 by (simp_all add: writes_def s2_def s1_def)
  have r: "core_sendImage w k img s = ?fin s2"
    using w1 w2 by (cases "?bat s"; cases "?ch s1")
      (simp add: f then_do_def writes_def s1_def s2_def)
  show ?thesis
  proof (cases "imageBatch s")
    case True
    then show ?thesis using s2 by (simp add: r asks_def modify_def)
  next
    case False
    then show ?thesis using s2 writes_cmd[of s2 CMD_STP] by (simp add: r asks_def writes_def)
  qed
qed

section \<open>The sacrificial pad byte\<close>

text \<open>The firmware of the K1 Pro, as the source documents it: the last byte of every full
  packet-size chunk is dropped.\<close>

definition drop_last_of_full :: "nat \<Rightarrow> bytes \<Rightarrow> bytes" where
  "drop_last_of_full n wire =
     List.concat (map (\<lambda>c. if length c = n then butlast c else c) (chop n wire))"

lemma pad_fill:
  assumes "g * p \<le> length data" "0 < p" "length out = N" "g * (p + 1) \<le> N" "out = alloc N"
  shows "foldl (\<lambda>out g. set_at out (g * (p + 1)) (subarray data (g * p) ((g + 1) * p))) out [0..<g]
    = List.concat (map (\<lambda>g. subarray data (g * p) ((g + 1) * p) @ [0]) [0..<g]) @ alloc (N - g * (p + 1))
    \<and> length (List.concat (map (\<lambda>g. subarray data (g * p) ((g + 1) * p) @ [0]) [0..<g])) = g * (p + 1)"
  using assms
proof (induction g)
  case (Suc g)
  let ?s = "subarray data (g * p) ((g + 1) * p)"
  let ?pre = "List.concat (map (\<lambda>g. subarray data (g * p) ((g + 1) * p) @ [0]) [0..<g])"
  have b: "g * p \<le> length data" "g * (p + 1) \<le> N" using Suc.prems by auto
  note IH = Suc.IH[OF b(1) Suc.prems(2,3) b(2) Suc.prems(5)]
  have l: "length ?s = p" using Suc.prems(1) by (simp add: subarray_def)
  have r: "alloc (N - g * (p + 1)) = alloc p @ [0] @ alloc (N - Suc g * (p + 1))"
  proof -
    have "N - g * (p + 1) = p + (1 + (N - Suc g * (p + 1)))" using Suc.prems(4) by simp
    then show ?thesis by (simp only: replicate_add) simp
  qed
  have "set_at (?pre @ alloc (N - g * (p + 1))) (g * (p + 1)) ?s
      = ?pre @ ?s @ drop p (alloc (N - g * (p + 1)))"
    using IH l by (simp add: set_at_def)
  also have "drop p (alloc (N - g * (p + 1))) = [0] @ alloc (N - Suc g * (p + 1))"
    by (subst r) simp
  finally show ?case using IH l by simp
qed simp

lemma drop_full_step:
  assumes "n \<le> length xs" "0 < n"
  shows "drop_last_of_full n xs = butlast (take n xs) @ drop_last_of_full n (drop n xs)"
proof (cases "length xs = n")
  case True
  then show ?thesis using assms by (simp add: drop_last_of_full_def chop_last)
next
  case False
  then have "chop n xs = take n xs # chop n (drop n xs)" using assms by (intro chop_step) simp_all
  then show ?thesis using assms by (simp only: drop_last_of_full_def) simp
qed

lemma drop_full_short: "length xs < n \<Longrightarrow> drop_last_of_full n xs = xs"
  by (simp add: drop_last_of_full_def chop_last)

lemma drop_padded_blocks:
  assumes "\<forall>b \<in> set bs. length b + 1 = n" "length tail < n"
  shows "drop_last_of_full n (List.concat (map (\<lambda>b. b @ [0]) bs) @ tail) = List.concat bs @ tail"
  using assms
proof (induction bs)
  case (Cons b bs)
  then show ?case by (subst drop_full_step) (auto simp: butlast_append)
qed (simp add: drop_full_short)

lemma concat_slices:
  "g * p \<le> length data \<Longrightarrow>
     List.concat (map (\<lambda>g. subarray data (g * p) ((g + 1) * p)) [0..<g]) = take (g * p) data"
proof (induction g)
  case (Suc g)
  have "subarray data (g * p) ((g + 1) * p) = take p (drop (g * p) data)"
    by (simp add: subarray_def)
  then have "List.concat (map (\<lambda>g. subarray data (g * p) ((g + 1) * p)) [0..<Suc g])
      = take (g * p) data @ take p (drop (g * p) data)"
    using Suc by simp
  also have "\<dots> = take (Suc g * p) data" by (simp add: take_add[symmetric] add.commute)
  finally show ?case .
qed simp

lemma padChunkBoundaries_eq:
  assumes "0 < p" "p \<le> length data"
  defines "g \<equiv> length data div p"
  shows "padChunkBoundaries data (p + 1) =
     List.concat (map (\<lambda>b. b @ [0]) (map (\<lambda>g. subarray data (g * p) ((g + 1) * p)) [0..<g]))
       @ drop (g * p) data"
proof -
  have l: "g * p \<le> length data" by (simp add: g_def)
  note f = pad_fill[OF l assms(1), of "alloc (length data + g)" "length data + g"]
  have N: "g * (p + 1) \<le> length data + g" using l by simp
  have r: "length data + g - g * (p + 1) = length (drop (g * p) data)" using l by simp
  note f = pad_fill[OF l assms(1) length_replicate N refl]
  have "padChunkBoundaries data (p + 1) = set_at (foldl (\<lambda>out g. set_at out (g * (p + 1))
      (subarray data (g * p) ((g + 1) * p))) (alloc (length data + g)) [0..<g]) (g * (p + 1)) (drop (g * p) data)"
    using assms by (simp add: padChunkBoundaries_def Let_def g_def)
  also have "\<dots> = List.concat (map (\<lambda>g. subarray data (g * p) ((g + 1) * p) @ [0]) [0..<g]) @ drop (g * p) data"
    using f unfolding r by (simp add: set_at_def)
  finally show ?thesis by (simp add: comp_def)
qed

text \<open>C4. Boundary padding is exactly what the dropping firmware needs: after the last byte of
  every full packet is lost, the device holds the original image.\<close>

theorem padded_image_survives_drop:
  assumes "2 \<le> n"
  shows "drop_last_of_full n (padChunkBoundaries img n) = img"
proof (cases "length img < n - 1")
  case True
  then show ?thesis by (simp add: padChunkBoundaries_def drop_full_short)
next
  case False
  define p where "p = n - 1"
  define g where "g = length img div p"
  have p: "0 < p" "p \<le> length img" "n = p + 1" using assms False by (simp_all add: p_def)
  have l: "g * p \<le> length img" by (simp add: g_def)
  let ?bs = "map (\<lambda>g. subarray img (g * p) ((g + 1) * p)) [0..<g]"
  have "length b + 1 = n" if bs: "b \<in> set ?bs" for b
  proof -
    obtain i where i: "i < g" "b = subarray img (i * p) ((i + 1) * p)"
      using bs by auto
    have "Suc i * p \<le> g * p" using i(1) by (intro mult_le_mono1) simp
    then show ?thesis using i(2) l p(3) by (simp add: subarray_def)
  qed
  moreover have "length (drop (g * p) img) < n"
    using p by (simp add: g_def minus_div_mult_eq_mod less_Suc_eq)
  ultimately have "drop_last_of_full n (padChunkBoundaries img n) = List.concat ?bs @ drop (g * p) img"
    unfolding p(3) padChunkBoundaries_eq[OF p(1,2)] g_def[symmetric]
    by (intro drop_padded_blocks) (auto simp: p(3))
  also have "\<dots> = img" using concat_slices[OF l] by simp
  finally show ?thesis .
qed

lemma padded_image_survives_drop_witness:
  "drop_last_of_full 3 (padChunkBoundaries [1, 2, 3, 4, 5] 3) = [1, 2, 3, 4, 5]"
  using padded_image_survives_drop[of 3 "[1, 2, 3, 4, 5]"] by simp

end
