(* ===== verification/Akp05.thy ===== *)
theory Akp05
  imports Mirabox Cora_Responses
begin

text \<open>
  The AKP05 device: \<^verbatim>\<open>devices/ajazz/akp05-protocol.ts\<close> (packets), the WebHID core
  \<^verbatim>\<open>devices/core/akp05-core.ts\<close> and the desktop driver \<^verbatim>\<open>devices/ajazz/akp05-driver.ts\<close>.
  Operations are as in \<^verbatim>\<open>Mirabox\<close>: an optional error and the new state, whose field
  \<open>a_sent\<close> is the list of reports written.
\<close>

section \<open>Packets\<close>

abbreviation (input) PACKET_SIZE :: nat where "PACKET_SIZE \<equiv> 1024"
abbreviation (input) AKP05_CLEAR_ALL :: nat where "AKP05_CLEAR_ALL \<equiv> 0xff"

definition AKP05_VER :: bytes where "AKP05_VER = [0x56, 0x45, 0x52]"
definition AKP05_DIS :: bytes where "AKP05_DIS = [0x44, 0x49, 0x53]"
definition AKP05_LIG :: bytes where "AKP05_LIG = [0x4c, 0x49, 0x47]"
definition AKP05_CLE :: bytes where "AKP05_CLE = [0x43, 0x4c, 0x45]"
definition AKP05_BAT :: bytes where "AKP05_BAT = [0x42, 0x41, 0x54]"
definition AKP05_ULEND :: bytes where "AKP05_ULEND = [0x55, 0x4c, 0x45, 0x4e, 0x44]"
definition AKP05_STP :: bytes where "AKP05_STP = [0x53, 0x54, 0x50]"
definition AKP05_CONNECT :: bytes where "AKP05_CONNECT = [0x43, 0x4f, 0x4e, 0x4e, 0x45, 0x43, 0x54]"
definition CRT_PREFIX :: bytes where "CRT_PREFIX = [0x43, 0x52, 0x54, 0x00, 0x00]"

definition buildPacket :: "bytes \<Rightarrow> bytes \<Rightarrow> bytes" where
  "buildPacket command extra =
     (let packet = alloc PACKET_SIZE;
          packet = set_at packet 0 CRT_PREFIX;
          packet = set_at packet 5 command
      in set_at packet (5 + length command) extra)"

definition a_buildVer :: bytes where "a_buildVer = buildPacket AKP05_VER []"
definition a_buildLig :: "nat \<Rightarrow> bytes" where
  "a_buildLig brightness = buildPacket AKP05_LIG [0, 0, of_nat brightness]"

text \<open>\<^verbatim>\<open>buildBat\<close> throws a RangeError on a length that does not fit 16 bits.\<close>

definition a_buildBat :: "nat \<Rightarrow> nat \<Rightarrow> bytes option" where
  "a_buildBat jpegLength surfaceId =
     (if 0xffff < jpegLength then None
      else Some (buildPacket AKP05_BAT
        [0, 0, byte_of jpegLength 8, byte_of jpegLength 0, of_nat surfaceId]))"

definition a_buildStp :: bytes where "a_buildStp = buildPacket AKP05_STP []"
definition a_buildUlend :: bytes where "a_buildUlend = buildPacket AKP05_ULEND []"
definition a_buildDis :: bytes where "a_buildDis = buildPacket AKP05_DIS []"
definition a_buildCle :: "nat \<Rightarrow> bytes" where
  "a_buildCle keyId = buildPacket AKP05_CLE [0, 0, 0, of_nat keyId]"
definition a_buildConnect :: bytes where "a_buildConnect = buildPacket AKP05_CONNECT []"

text \<open>One pass of \<^verbatim>\<open>forEachImageChunk\<close> on the reused report buffer.\<close>

definition stage_slice :: "bytes \<Rightarrow> nat \<Rightarrow> nat \<Rightarrow> bytes \<Rightarrow> bytes" where
  "stage_slice jpeg offset at out =
     (let slice = subarray jpeg offset (offset + PACKET_SIZE);
          out = set_at out at slice
      in if length slice < PACKET_SIZE
         then fill_range out 0 (at + length slice) (at + PACKET_SIZE) else out)"

section \<open>Version text\<close>

definition isDigit :: "nat \<Rightarrow> bool" where
  "isDigit c \<longleftrightarrow> 0x30 \<le> c \<and> c \<le> 0x39"

definition isVersionCharacter :: "nat \<Rightarrow> bool" where
  "isVersionCharacter c \<longleftrightarrow>
     isDigit c \<or> (0x41 \<le> c \<and> c \<le> 0x5a) \<or> (0x61 \<le> c \<and> c \<le> 0x7a) \<or> c = 0x2d \<or> c = 0x2e \<or> c = 0x5f"

text \<open>The text from the first V on; a missing character code (NaN) is no digit.\<close>

definition parseVersionReport :: "bytes \<Rightarrow> string option" where
  "parseVersionReport report =
     (let codes = dropWhile (\<lambda>b. b \<noteq> 0x56) report in
      case codes of
        v # d # rest \<Rightarrow>
          if isDigit (unat d)
          then Some (ascii_string (v # d # takeWhile (\<lambda>b. isVersionCharacter (unat b)) rest))
          else None
      | _ \<Rightarrow> None)"

section \<open>Input classification\<close>

abbreviation (input) KEY_CODE_MIN :: nat where "KEY_CODE_MIN \<equiv> 0x01"
abbreviation (input) KEY_CODE_MAX :: nat where "KEY_CODE_MAX \<equiv> 0x0a"
abbreviation (input) TOUCH_SWIPE_LEFT :: nat where "TOUCH_SWIPE_LEFT \<equiv> 0x38"
abbreviation (input) TOUCH_SWIPE_RIGHT :: nat where "TOUCH_SWIPE_RIGHT \<equiv> 0x39"
abbreviation (input) TOUCH_STRIP_WIDTH :: nat where "TOUCH_STRIP_WIDTH \<equiv> 800"

definition ENCODER_PRESS_CODES :: "nat list" where
  "ENCODER_PRESS_CODES = [0x37, 0x35, 0x33, 0x36]"

definition ENCODER_ROTATE_CODES :: "(nat \<times> nat) list" where
  "ENCODER_ROTATE_CODES = [(0xa0, 0xa1), (0x50, 0x51), (0x90, 0x91), (0x70, 0x71)]"

definition TOUCH_TAP_CODES :: "nat list" where
  "TOUCH_TAP_CODES = [0x40, 0x41, 0x42, 0x43]"

fun index_of :: "'a \<Rightarrow> 'a list \<Rightarrow> nat option" where
  "index_of x [] = None"
| "index_of x (y # ys) = (if x = y then Some 0 else map_option Suc (index_of x ys))"

fun rotate_from :: "nat \<Rightarrow> (nat \<times> nat) list \<Rightarrow> nat \<Rightarrow> (nat \<times> int) option" where
  "rotate_from i [] code = None"
| "rotate_from i ((ccw, cw) # ps) code =
    (if code = ccw then Some (i, -1) else if code = cw then Some (i, 1) else rotate_from (Suc i) ps code)"

definition encoderRotateDelta :: "nat \<Rightarrow> (nat \<times> int) option" where
  "encoderRotateDelta code = rotate_from 0 ENCODER_ROTATE_CODES code"

datatype akp_input =
    AKey nat key_state
  | ADialPress nat key_state
  | ADialRotate nat int
  | ATouch touch_event
  | AFirmware string
  | AUnmapped nat nat
  | AUnknown

text \<open>A tap lands on its zone's centre, \<^verbatim>\<open>Math.round((i + 0.5) * 200)\<close>.\<close>

definition tap_event :: "nat \<Rightarrow> touch_event" where
  "tap_event i =
     (let zoneWidth = TOUCH_STRIP_WIDTH div length TOUCH_TAP_CODES in
      \<lparr> te_type = Tap, te_x = int (i * zoneWidth + zoneWidth div 2), te_y = 50,
        te_endX = None, te_endY = None \<rparr>)"

definition swipe_event :: "int \<Rightarrow> int \<Rightarrow> touch_event" where
  "swipe_event x0 x1 = \<lparr> te_type = Swipe, te_x = x0, te_y = 50, te_endX = Some x1, te_endY = Some 50 \<rparr>"

definition core_classifyInput :: "nat \<Rightarrow> nat \<Rightarrow> akp_input list" where
  "core_classifyInput code stateByte =
     (if KEY_CODE_MIN \<le> code \<and> code \<le> KEY_CODE_MAX
      then [AKey code (if stateByte = 0x01 then Down else Up)]
      else case index_of code ENCODER_PRESS_CODES of
        Some pressIndex \<Rightarrow>
          (if stateByte \<noteq> 0x01 then [] else [ADialPress pressIndex Down, ADialPress pressIndex Up])
      | None \<Rightarrow>
          (case encoderRotateDelta code of
             Some (i, delta) \<Rightarrow> [ADialRotate i delta]
           | None \<Rightarrow>
               if code = TOUCH_SWIPE_LEFT then [ATouch (swipe_event 750 50)]
               else if code = TOUCH_SWIPE_RIGHT then [ATouch (swipe_event 50 750)]
               else (case index_of code TOUCH_TAP_CODES of
                   Some i \<Rightarrow> [ATouch (tap_event i)]
                 | None \<Rightarrow> [AUnmapped code stateByte])))"

definition a_core_parseInput :: "bytes \<Rightarrow> akp_input list" where
  "a_core_parseInput data =
     (case parseAckReport data 0 of
        None \<Rightarrow> (case parseVersionReport data of Some v \<Rightarrow> [AFirmware v] | None \<Rightarrow> [AUnknown])
      | Some (keyIndex, stateByte) \<Rightarrow> core_classifyInput keyIndex stateByte)"

section \<open>Blank images\<close>

text \<open>The base64 texts of the two black images, as each file spells them.\<close>

definition BLACK_KEY_B64 :: string where
  "BLACK_KEY_B64 = ''/9j/4AAQSkZJRgABAgAAAQABAAD/wAARCABwAHADACIAAREBAhEB/9sAQwADAgIDAgIDAwMDBAMDBAUIBQUEBAUKBw''
     @ ''cGCAwKDAwLCgsLDQ4SEA0OEQ4LCxAWEBETFBUVFQwPFxgWFBgSFBUU/9sAQwEDBAQFBAUJBQUJFA0LDRQUFBQUFBQU''
     @ ''FBQUFBQUFBQUFBQUFBQUFBQUFBQUFBQUFBQUFBQUFBQUFBQUFBQUFBQU/8QAHwAAAQUBAQEBAQEAAAAAAAAAAAECAw''
     @ ''QFBgcICQoL/8QAtRAAAgEDAwIEAwUFBAQAAAF9AQIDAAQRBRIhMUEGE1FhByJxFDKBkaEII0KxwRVS0fAkM2JyggkK''
     @ ''FhcYGRolJicoKSo0NTY3ODk6Q0RFRkdISUpTVFVWV1hZWmNkZWZnaGlqc3R1dnd4eXqDhIWGh4iJipKTlJWWl5iZmq''
     @ ''KjpKWmp6ipqrKztLW2t7i5usLDxMXGx8jJytLT1NXW19jZ2uHi4+Tl5ufo6erx8vP09fb3+Pn6/8QAHwEAAwEBAQEB''
     @ ''AQEBAQAAAAAAAAECAwQFBgcICQoL/8QAtREAAgECBAQDBAcFBAQAAQJ3AAECAxEEBSExBhJBUQdhcRMiMoEIFEKRob''
     @ ''HBCSMzUvAVYnLRChYkNOEl8RcYGRomJygpKjU2Nzg5OkNERUZHSElKU1RVVldYWVpjZGVmZ2hpanN0dXZ3eHl6goOE''
     @ ''hYaHiImKkpOUlZaXmJmaoqOkpaanqKmqsrO0tba3uLm6wsPExcbHyMnK0tPU1dbX2Nna4uPk5ebn6Onq8vP09fb3+P''
     @ ''n6/9oADAMAAAERAhEAPwD8qqKKKACiiigAooooAKKKKACiiigAooooAKKKKACiiigAooooAKKKKACiiigAooooAKKK''
     @ ''KACiiigAooooAKKKKACiiigAooooAKKKKACiiigAooooAKKKKACiiigAooooAKKKKACiiigAooooAKKKKACiiigAoo''
     @ ''ooAKKKKACiiigAooooAKKKKACiiigAooooAKKKKACiiigAooooAKKKKACiiigAooooAKKKKACiiigAooooAKKKKACi''
     @ ''iigAooooAKKKKAP/2Q==''"

definition BLACK_STRIP_B64 :: string where
  "BLACK_STRIP_B64 = ''/9j/4AAQSkZJRgABAgAAAQABAAD/wAARCABwALADACIAAREBAhEB/9sAQwADAgIDAgIDAwMDBAMDBAUIBQUEBAUKBw''
     @ ''cGCAwKDAwLCgsLDQ4SEA0OEQ4LCxAWEBETFBUVFQwPFxgWFBgSFBUU/9sAQwEDBAQFBAUJBQUJFA0LDRQUFBQUFBQU''
     @ ''FBQUFBQUFBQUFBQUFBQUFBQUFBQUFBQUFBQUFBQUFBQUFBQUFBQUFBQU/8QAHwAAAQUBAQEBAQEAAAAAAAAAAAECAw''
     @ ''QFBgcICQoL/8QAtRAAAgEDAwIEAwUFBAQAAAF9AQIDAAQRBRIhMUEGE1FhByJxFDKBkaEII0KxwRVS0fAkM2JyggkK''
     @ ''FhcYGRolJicoKSo0NTY3ODk6Q0RFRkdISUpTVFVWV1hZWmNkZWZnaGlqc3R1dnd4eXqDhIWGh4iJipKTlJWWl5iZmq''
     @ ''KjpKWmp6ipqrKztLW2t7i5usLDxMXGx8jJytLT1NXW19jZ2uHi4+Tl5ufo6erx8vP09fb3+Pn6/8QAHwEAAwEBAQEB''
     @ ''AQEBAQAAAAAAAAECAwQFBgcICQoL/8QAtREAAgECBAQDBAcFBAQAAQJ3AAECAxEEBSExBhJBUQdhcRMiMoEIFEKRob''
     @ ''HBCSMzUvAVYnLRChYkNOEl8RcYGRomJygpKjU2Nzg5OkNERUZHSElKU1RVVldYWVpjZGVmZ2hpanN0dXZ3eHl6goOE''
     @ ''hYaHiImKkpOUlZaXmJmaoqOkpaanqKmqsrO0tba3uLm6wsPExcbHyMnK0tPU1dbX2Nna4uPk5ebn6Onq8vP09fb3+P''
     @ ''n6/9oADAMAAAERAhEAPwD8qqKKKACiiigAooooAKKKKACiiigAooooAKKKKACiiigAooooAKKKKACiiigAooooAKKK''
     @ ''KACiiigAooooAKKKKACiiigAooooAKKKKACiiigAooooAKKKKACiiigAooooAKKKKACiiigAooooAKKKKACiiigAoo''
     @ ''ooAKKKKACiiigAooooAKKKKACiiigAooooAKKKKACiiigAooooAKKKKACiiigAooooAKKKKACiiigAooooAKKKKACi''
     @ ''iigAooooAKKKKACiiigAooooAKKKKACiiigAooooAKKKKACiiigAooooAKKKKACiiigAooooAKKKKACiiigAooooAK''
     @ ''KKKACiiigAooooAKKKKACiiigAooooAKKKKACiiigAooooAKKKKACiiigAooooAKKKKACiiigD/9k=''"

definition BLACK_JPEG_HEADER :: string where
  "BLACK_JPEG_HEADER = ''/9j/4AAQSkZJRgABAgAAAQABAAD/wAARCABwAHADACIAAREBAhEB/9sAQwADAgIDAgIDAwMDBAMDBAUIBQUEBAUKBw''
     @ ''cGCAwKDAwLCgsLDQ4SEA0OEQ4LCxAWEBETFBUVFQwPFxgWFBgSFBUU/9sAQwEDBAQFBAUJBQUJFA0LDRQUFBQUFBQU''
     @ ''FBQUFBQUFBQUFBQUFBQUFBQUFBQUFBQUFBQUFBQUFBQUFBQUFBQUFBQU/8QAHwAAAQUBAQEBAQEAAAAAAAAAAAECAw''
     @ ''QFBgcICQoL/8QAtRAAAgEDAwIEAwUFBAQAAAF9AQIDAAQRBRIhMUEGE1FhByJxFDKBkaEII0KxwRVS0fAkM2JyggkK''
     @ ''FhcYGRolJicoKSo0NTY3ODk6Q0RFRkdISUpTVFVWV1hZWmNkZWZnaGlqc3R1dnd4eXqDhIWGh4iJipKTlJWWl5iZmq''
     @ ''KjpKWmp6ipqrKztLW2t7i5usLDxMXGx8jJytLT1NXW19jZ2uHi4+Tl5ufo6erx8vP09fb3+Pn6/8QAHwEAAwEBAQEB''
     @ ''AQEBAQAAAAAAAAECAwQFBgcICQoL/8QAtREAAgECBAQDBAcFBAQAAQJ3AAECAxEEBSExBhJBUQdhcRMiMoEIFEKRob''
     @ ''HBCSMzUvAVYnLRChYkNOEl8RcYGRomJygpKjU2Nzg5OkNERUZHSElKU1RVVldYWVpjZGVmZ2hpanN0dXZ3eHl6goOE''
     @ ''hYaHiImKkpOUlZaXmJmaoqOkpaanqKmqsrO0tba3uLm6wsPExcbHyMnK0tPU1dbX2Nna4uPk5ebn6Onq8vP09fb3+P''
     @ ''n6/9oADAMAAAERAhEAPwD8qq''"

definition BLACK_JPEG_BLOCK :: string where
  "BLACK_JPEG_BLOCK = ''KKKACiiigAooooAK''"

text \<open>\<^verbatim>\<open>s.replace(pat, by)\<close> of the first occurrence, and \<^verbatim>\<open>s.repeat(n)\<close>.\<close>

fun replace_first :: "string \<Rightarrow> string \<Rightarrow> string \<Rightarrow> string" where
  "replace_first pat by_s [] = []"
| "replace_first pat by_s (c # cs) =
    (if take (length pat) (c # cs) = pat then by_s @ drop (length pat) (c # cs)
     else c # replace_first pat by_s cs)"

definition repeat_str :: "nat \<Rightarrow> string \<Rightarrow> string" where
  "repeat_str n s = List.concat (replicate n s)"

definition CORE_BLACK_KEY_B64 :: string where
  "CORE_BLACK_KEY_B64 = BLACK_JPEG_HEADER @ repeat_str 16 BLACK_JPEG_BLOCK @ ''KKKAP/2Q==''"

definition CORE_BLACK_STRIP_B64 :: string where
  "CORE_BLACK_STRIP_B64 = replace_first ''AHAD'' ''ALAD'' BLACK_JPEG_HEADER
     @ repeat_str 25 BLACK_JPEG_BLOCK @ ''KKKACiiigD/9k=''"

text \<open>\<^verbatim>\<open>atob\<close> on canonical base64 text.\<close>

definition b64_digit :: "char \<Rightarrow> nat" where
  "b64_digit c =
     (let n = of_char c :: nat in
      if 65 \<le> n \<and> n \<le> 90 then n - 65
      else if 97 \<le> n \<and> n \<le> 122 then n - 71
      else if 48 \<le> n \<and> n \<le> 57 then n + 4
      else if n = 43 then 62 else 63)"

fun from_base64 :: "string \<Rightarrow> bytes" where
  "from_base64 (a # b # c # d # s) =
    (let x = b64_digit a; y = b64_digit b; z = b64_digit c; w = b64_digit d;
         b1 = of_nat (x * 4 + y div 16); b2 = of_nat (y mod 16 * 16 + z div 4); b3 = of_nat (z mod 4 * 64 + w)
     in if c = CHR ''='' then [b1] else if d = CHR ''='' then [b1, b2] else b1 # b2 # b3 # from_base64 s)"
| "from_base64 _ = []"

lemma black_key_texts: "CORE_BLACK_KEY_B64 = BLACK_KEY_B64"
  by (simp add: CORE_BLACK_KEY_B64_def BLACK_KEY_B64_def BLACK_JPEG_HEADER_def BLACK_JPEG_BLOCK_def
      repeat_str_def numeral_eq_Suc)

lemma black_strip_texts: "CORE_BLACK_STRIP_B64 = BLACK_STRIP_B64"
  by (simp add: CORE_BLACK_STRIP_B64_def BLACK_STRIP_B64_def BLACK_JPEG_HEADER_def BLACK_JPEG_BLOCK_def
      repeat_str_def numeral_eq_Suc)

section \<open>The WebHID core\<close>

record akp_model =
  am_widgetWireIds :: "nat list option"
  am_stripWidth :: "nat option"

datatype akp_error = Bad_Length nat | Bad_Packet nat

record akp =
  a_scratch :: bytes
  a_brightness :: nat
  a_sent :: "bytes list"

type_synonym akp_op = "akp \<Rightarrow> akp_error option \<times> akp"

definition new_akp :: akp where
  "new_akp = \<lparr> a_scratch = alloc 1025, a_brightness = DEFAULT_BRIGHTNESS, a_sent = [] \<rparr>"

definition a_core_sendScratch :: "akp \<Rightarrow> akp" where
  "a_core_sendScratch s = s\<lparr>a_sent := a_sent s @ [a_scratch s]\<rparr>"

definition a_core_write :: "bytes \<Rightarrow> akp_op" where
  "a_core_write packet s =
     (if length packet \<noteq> 1024 then (Some (Bad_Packet (length packet)), s)
      else (None, a_core_sendScratch (s\<lparr>a_scratch := set_at (a_scratch s) 1 packet\<rparr>)))"

definition a_core_writeLig :: akp_op where
  "a_core_writeLig = asks a_brightness (\<lambda>b. a_core_write (a_buildLig b))"

definition a_core_init :: akp_op where
  "a_core_init =
     then_do (a_core_write a_buildVer)
    (then_do (a_core_write a_buildDis)
    (then_do a_core_writeLig
    (then_do (a_core_write (a_buildCle AKP05_CLEAR_ALL))
             (a_core_write a_buildStp))))"

definition a_core_keepAlive :: akp_op where
  "a_core_keepAlive =
     then_do (a_core_write a_buildDis) (then_do a_core_writeLig (a_core_write a_buildConnect))"

function a_core_chunks :: "bytes \<Rightarrow> nat \<Rightarrow> akp \<Rightarrow> akp" where
  "a_core_chunks jpeg offset s =
     (if length jpeg \<le> offset then s
      else a_core_chunks jpeg (offset + PACKET_SIZE)
             (a_core_sendScratch (s\<lparr>a_scratch := stage_slice jpeg offset 1 (a_scratch s)\<rparr>)))"
  by pat_completeness auto
termination
  by (relation "measure (\<lambda>(jpeg, offset, s). length jpeg - offset)") auto

declare a_core_chunks.simps [simp del]

definition isStripWire :: "akp_model \<Rightarrow> nat \<Rightarrow> bool" where
  "isStripWire m wireId =
     (case am_widgetWireIds m of None \<Rightarrow> False | Some ids \<Rightarrow> list_ex (\<lambda>i. i = wireId) ids)"

text \<open>\<^verbatim>\<open>jpegSize(jpeg)?.width === touchStripDisplay?.image.width\<close>: two undefined sides are equal.\<close>

definition full_strip :: "akp_model \<Rightarrow> bytes \<Rightarrow> bool" where
  "full_strip m jpeg \<longleftrightarrow> map_option fst (jpegSize jpeg) = am_stripWidth m"

definition a_core_upload :: "nat \<Rightarrow> bytes \<Rightarrow> akp_op" where
  "a_core_upload wireId jpeg =
     (case a_buildBat (length jpeg) wireId of
        None \<Rightarrow> throw (Bad_Length (length jpeg))
      | Some bat \<Rightarrow>
          then_do (a_core_write bat)
         (then_do (modify (a_core_chunks jpeg 0)) (a_core_write a_buildUlend)))"

text \<open>\<^verbatim>\<open>sendImage\<close> returns the strip flags when nothing throws.\<close>

definition a_core_sendImage ::
  "akp_model \<Rightarrow> nat \<Rightarrow> bytes \<Rightarrow> akp \<Rightarrow> (akp_error + bool \<times> bool) \<times> akp" where
  "a_core_sendImage m wireId jpeg s =
     (case a_core_upload wireId jpeg s of
        (Some e, s') \<Rightarrow> (Inl e, s')
      | (None, s') \<Rightarrow> (Inr (isStripWire m wireId, full_strip m jpeg), s'))"

definition a_core_clearKey ::
  "akp_model \<Rightarrow> nat \<Rightarrow> akp \<Rightarrow> (akp_error + bool \<times> bool) \<times> akp" where
  "a_core_clearKey m wireId =
     a_core_sendImage m wireId
       (from_base64 (if isStripWire m wireId then CORE_BLACK_STRIP_B64 else CORE_BLACK_KEY_B64))"

definition a_core_setBrightness :: "nat \<Rightarrow> akp_op" where
  "a_core_setBrightness level =
     then_do (modify (\<lambda>s. s\<lparr>a_brightness := level\<rparr>)) (a_core_write (a_buildLig level))"

section \<open>The desktop driver\<close>

datatype akp_event =
    EInput akp_input
  | EStripWrite nat bytes bool
  | EError akp_error
  | EReadFailed
  | EDisconnect

record akp_drv = akp +
  a_open :: bool
  a_keepAliveTimer :: bool
  a_firmware :: "string option"
  a_events :: "akp_event list"

type_synonym akp_drv_op = "akp_drv \<Rightarrow> akp_error option \<times> akp_drv"

definition a_emit :: "akp_event \<Rightarrow> akp_drv \<Rightarrow> akp_drv" where
  "a_emit e s = s\<lparr>a_events := a_events s @ [e]\<rparr>"

definition a_drv_writeScratchOut :: "akp_drv \<Rightarrow> akp_drv" where
  "a_drv_writeScratchOut s =
     (if \<not> a_open s then s
      else let r = put (a_scratch s) 0 0 in s\<lparr>a_scratch := r, a_sent := a_sent s @ [r]\<rparr>)"

definition a_drv_write :: "bytes \<Rightarrow> akp_drv_op" where
  "a_drv_write packet s =
     (if length packet \<noteq> 1024 then (Some (Bad_Packet (length packet)), s)
      else (None, a_drv_writeScratchOut (s\<lparr>a_scratch := set_at (a_scratch s) 1 packet\<rparr>)))"

definition a_drv_writeLig :: akp_drv_op where
  "a_drv_writeLig = asks a_brightness (\<lambda>b. a_drv_write (a_buildLig b))"

definition a_drv_writeInitSequence :: akp_drv_op where
  "a_drv_writeInitSequence =
     then_do (a_drv_write a_buildDis)
    (then_do a_drv_writeLig
    (then_do (a_drv_write (a_buildCle AKP05_CLEAR_ALL))
             (a_drv_write a_buildStp)))"

definition a_drv_writeKeepAlive :: akp_drv_op where
  "a_drv_writeKeepAlive =
     then_do (a_drv_write a_buildDis) (then_do a_drv_writeLig (a_drv_write a_buildConnect))"

text \<open>\<^verbatim>\<open>readFirmware\<close>: \<open>rep\<close> is the feature report the device returned, if it returned any bytes.\<close>

definition readFirmware :: "bytes option \<Rightarrow> string option" where
  "readFirmware rep = (case rep of None \<Rightarrow> None | Some b \<Rightarrow> parseVersionReport b)"

text \<open>\<^verbatim>\<open>open(hidPath)\<close> after a successful \<^verbatim>\<open>_openPath\<close>.\<close>

definition a_drv_open :: "bytes option \<Rightarrow> akp_drv_op" where
  "a_drv_open rep =
     then_do (modify (\<lambda>s. s\<lparr>a_open := True, a_firmware := readFirmware rep\<rparr>))
    (then_do (a_drv_write a_buildVer)
    (then_do a_drv_writeInitSequence
             (modify (\<lambda>s. s\<lparr>a_keepAliveTimer := True\<rparr>))))"

function a_drv_chunks :: "bytes \<Rightarrow> nat \<Rightarrow> akp_drv \<Rightarrow> akp_drv" where
  "a_drv_chunks jpeg offset s =
     (if length jpeg \<le> offset then s
      else a_drv_chunks jpeg (offset + PACKET_SIZE)
             (a_drv_writeScratchOut (s\<lparr>a_scratch := stage_slice jpeg offset 1 (a_scratch s)\<rparr>)))"
  by pat_completeness auto
termination
  by (relation "measure (\<lambda>(jpeg, offset, s). length jpeg - offset)") auto

declare a_drv_chunks.simps [simp del]

definition a_drv_upload :: "nat \<Rightarrow> bytes \<Rightarrow> akp_drv_op" where
  "a_drv_upload keyIndex jpeg =
     (case a_buildBat (length jpeg) keyIndex of
        None \<Rightarrow> throw (Bad_Length (length jpeg))
      | Some bat \<Rightarrow>
          then_do (a_drv_write bat)
         (then_do (modify (a_drv_chunks jpeg 0)) (a_drv_write a_buildUlend)))"

definition a_drv_sendImage :: "akp_model \<Rightarrow> nat \<Rightarrow> bytes \<Rightarrow> akp_drv \<Rightarrow> akp_drv" where
  "a_drv_sendImage m keyIndex jpeg s =
     (case a_drv_upload keyIndex jpeg s of
        (Some e, s') \<Rightarrow> a_emit (EError e) s'
      | (None, s') \<Rightarrow>
          if isStripWire m keyIndex then a_emit (EStripWrite keyIndex jpeg (full_strip m jpeg)) s'
          else s')"

definition a_drv_clearKey :: "akp_model \<Rightarrow> nat \<Rightarrow> akp_drv \<Rightarrow> akp_drv" where
  "a_drv_clearKey m keyIndex =
     a_drv_sendImage m keyIndex
       (from_base64 (if isStripWire m keyIndex then BLACK_STRIP_B64 else BLACK_KEY_B64))"

definition a_drv_setBrightness :: "nat \<Rightarrow> akp_drv_op" where
  "a_drv_setBrightness level =
     then_do (modify (\<lambda>s. s\<lparr>a_brightness := level\<rparr>)) (a_drv_write (a_buildLig level))"

definition a_drv_classifyInput :: "nat \<Rightarrow> nat \<Rightarrow> akp_drv \<Rightarrow> akp_drv" where
  "a_drv_classifyInput code stateByte s =
     (if KEY_CODE_MIN \<le> code \<and> code \<le> KEY_CODE_MAX
      then a_emit (EInput (AKey code (if stateByte = 0x01 then Down else Up))) s
      else case index_of code ENCODER_PRESS_CODES of
        Some pressIndex \<Rightarrow>
          (if stateByte \<noteq> 0x01 then s
           else a_emit (EInput (ADialPress pressIndex Up)) (a_emit (EInput (ADialPress pressIndex Down)) s))
      | None \<Rightarrow>
          (case encoderRotateDelta code of
             Some (i, delta) \<Rightarrow> a_emit (EInput (ADialRotate i delta)) s
           | None \<Rightarrow>
               if code = TOUCH_SWIPE_LEFT then a_emit (EInput (ATouch (swipe_event 750 50))) s
               else if code = TOUCH_SWIPE_RIGHT then a_emit (EInput (ATouch (swipe_event 50 750))) s
               else (case index_of code TOUCH_TAP_CODES of
                   Some i \<Rightarrow> a_emit (EInput (ATouch (tap_event i))) s
                 | None \<Rightarrow> a_emit (EInput (AUnmapped code stateByte)) s)))"

text \<open>\<^verbatim>\<open>parseInput\<close>: a version text updates the firmware, anything else unparsed is only logged.\<close>

definition a_drv_parseInput :: "bytes \<Rightarrow> akp_drv \<Rightarrow> akp_drv" where
  "a_drv_parseInput data s =
     (case parseAckReport data 0 of
        None \<Rightarrow> (case parseVersionReport data of
            Some v \<Rightarrow> s\<lparr>a_firmware := Some v\<rparr>
          | None \<Rightarrow> s)
      | Some (keyIndex, stateByte) \<Rightarrow> a_drv_classifyInput keyIndex stateByte s)"

text \<open>\<^verbatim>\<open>_cleanup\<close>; closing writes nothing.\<close>

definition a_drv_cleanup :: "akp_drv \<Rightarrow> akp_drv" where
  "a_drv_cleanup s = s\<lparr>a_keepAliveTimer := False, a_open := False\<rparr>"

section \<open>The driver refines the core\<close>

definition akp_ok :: "akp \<Rightarrow> bool" where
  "akp_ok s \<longleftrightarrow> length (a_scratch s) = 1025 \<and> a_scratch s ! 0 = 0"

definition akp_open :: "akp_drv \<Rightarrow> bool" where
  "akp_open s \<longleftrightarrow> a_open s \<and> akp_ok (akp.truncate s)"

abbreviation a_refines :: "akp_drv_op \<Rightarrow> akp_op \<Rightarrow> bool" where
  "a_refines \<equiv> refines akp_open akp.truncate"

lemma akp_truncate_simps [simp]:
  "a_scratch (akp.truncate s) = a_scratch s" "a_brightness (akp.truncate s) = a_brightness s"
  "a_sent (akp.truncate s) = a_sent s"
  by (simp_all add: akp.truncate_def)

lemma set_at_keeps_0:
  "length b = 1025 \<Longrightarrow> length p \<le> 1024 \<Longrightarrow> b ! 0 = 0 \<Longrightarrow>
     length (set_at b 1 p) = 1025 \<and> set_at b 1 p ! 0 = 0"
  by (cases b) (simp_all add: set_at_def)

lemma stage_slice_keeps_0:
  assumes "length b = 1025" "b ! 0 = 0"
  shows "length (stage_slice img off 1 b) = 1025 \<and> stage_slice img off 1 b ! 0 = 0"
proof -
  let ?sl = "subarray img off (off + PACKET_SIZE)"
  have l: "length ?sl \<le> 1024" by (simp add: subarray_def)
  obtain x xs where b: "b = x # xs" using assms(1) by (cases b) auto
  have s: "set_at b 1 ?sl = x # (?sl @ drop (length ?sl) xs)" using b by (simp add: set_at_def)
  have "length (fill_range (set_at b 1 ?sl) 0 (1 + length ?sl) (1 + PACKET_SIZE)) = 1025"
    if "length ?sl < PACKET_SIZE"
    using that assms(1) unfolding fill_range_def s by (simp add: b)
  moreover have "fill_range (set_at b 1 ?sl) 0 (1 + length ?sl) (1 + PACKET_SIZE) ! 0 = 0"
    using assms(2) unfolding fill_range_def s by (simp add: b)
  ultimately show ?thesis
    using set_at_keeps_0[OF assms(1) l assms(2)] by (simp add: stage_slice_def Let_def)
qed

lemma send_scratch_sim:
  assumes "a_open s" "length sc = 1025" "sc ! 0 = 0"
  shows "akp.truncate (a_drv_writeScratchOut (s\<lparr>a_scratch := sc\<rparr>))
      = a_core_sendScratch ((akp.truncate s)\<lparr>a_scratch := sc\<rparr>)
    \<and> akp_open (a_drv_writeScratchOut (s\<lparr>a_scratch := sc\<rparr>))"
proof -
  have "sc[0 := 0] = sc" using assms by (metis list_update_id)
  then show ?thesis
    using assms by (simp add: a_drv_writeScratchOut_def a_core_sendScratch_def akp.truncate_def
        akp_open_def akp_ok_def Let_def)
qed

lemma a_refines_write [refine_intros]: "a_refines (a_drv_write p) (a_core_write p)"
  unfolding refines_def
proof (intro allI impI)
  fix s assume o: "akp_open s"
  show "a_core_write p (akp.truncate s) = apsnd akp.truncate (a_drv_write p s) \<and> akp_open (snd (a_drv_write p s))"
  proof (cases "length p = 1024")
    case True
    have k: "length (set_at (a_scratch s) 1 p) = 1025 \<and> set_at (a_scratch s) 1 p ! 0 = 0"
      using o True by (intro set_at_keeps_0) (auto simp: akp_open_def akp_ok_def)
    have "a_open s" using o by (simp add: akp_open_def)
    note sim = send_scratch_sim[OF this k[THEN conjunct1] k[THEN conjunct2]]
    show ?thesis
      using sim[THEN conjunct2] True
      by (simp add: a_core_write_def a_drv_write_def sim[THEN conjunct1] del: One_nat_def)
  next
    case False
    then show ?thesis using o by (simp add: a_core_write_def a_drv_write_def)
  qed
qed

lemma a_chunks_sim:
  "akp_open s \<Longrightarrow> akp.truncate (a_drv_chunks img off s) = a_core_chunks img off (akp.truncate s)
     \<and> akp_open (a_drv_chunks img off s)"
proof (induction img off s rule: a_drv_chunks.induct)
  case (1 img off s)
  show ?case
  proof (cases "length img \<le> off")
    case True
    then show ?thesis using 1(2)
      by (simp add: a_drv_chunks.simps[of img off s] a_core_chunks.simps[of img off "akp.truncate s"])
  next
    case False
    let ?sc = "stage_slice img off 1 (a_scratch s)"
    have k: "length ?sc = 1025 \<and> ?sc ! 0 = 0"
      using 1(2) by (intro stage_slice_keeps_0) (auto simp: akp_open_def akp_ok_def)
    have o: "a_open s" using 1(2) by (simp add: akp_open_def)
    note sim = send_scratch_sim[OF o k[THEN conjunct1] k[THEN conjunct2]]
    show ?thesis
      using 1(1)[OF False sim[THEN conjunct2]] sim False
      by (simp add: a_drv_chunks.simps[of img off s] a_core_chunks.simps[of img off "akp.truncate s"])
  qed
qed

lemma a_refines_lig [refine_intros]: "a_refines a_drv_writeLig a_core_writeLig"
  unfolding a_drv_writeLig_def a_core_writeLig_def by (intro refine_intros) simp

lemma a_refines_keepAlive: "a_refines a_drv_writeKeepAlive a_core_keepAlive"
  unfolding a_drv_writeKeepAlive_def a_core_keepAlive_def by (intro refine_intros)

lemma a_refines_init: "a_refines (then_do (a_drv_write a_buildVer) a_drv_writeInitSequence) a_core_init"
  unfolding a_drv_writeInitSequence_def a_core_init_def by (intro refine_intros)

lemma a_refines_brightness: "a_refines (a_drv_setBrightness l) (a_core_setBrightness l)"
  unfolding a_drv_setBrightness_def a_core_setBrightness_def
  by (intro refine_intros) (simp_all add: akp.truncate_def akp_open_def akp_ok_def)

lemma a_refines_upload: "a_refines (a_drv_upload k img) (a_core_upload k img)"
proof (cases "a_buildBat (length img) k")
  case None
  then show ?thesis by (simp add: a_drv_upload_def a_core_upload_def refines_throw)
next
  case (Some bat)
  then show ?thesis
    unfolding a_drv_upload_def a_core_upload_def option.case
    by (simp only: option.case) (intro refine_intros a_chunks_sim)
qed

text \<open>What the driver emits for an upload is what the core returns.\<close>

lemma a_send_sim:
  assumes "akp_open s"
  shows "a_core_sendImage m k img (akp.truncate s) =
    (case fst (a_drv_upload k img s) of
       Some e \<Rightarrow> (Inl e, akp.truncate (a_drv_sendImage m k img s))
     | None \<Rightarrow> (Inr (isStripWire m k, full_strip m img), akp.truncate (a_drv_sendImage m k img s)))"
  using refines_eq[OF a_refines_upload assms, of k img]
  by (auto simp: a_core_sendImage_def a_drv_sendImage_def a_emit_def akp.truncate_def
      split: prod.splits option.splits)

lemma emit_events [simp]: "a_events (a_emit e s) = a_events s @ [e]"
  by (simp add: a_emit_def)

definition device_input :: "akp_input \<Rightarrow> bool" where
  "device_input i \<longleftrightarrow> (case i of AUnknown \<Rightarrow> False | AFirmware _ \<Rightarrow> False | _ \<Rightarrow> True)"

lemma device_input_eq: "device_input i \<longleftrightarrow> i \<noteq> AUnknown \<and> (\<forall>v. i \<noteq> AFirmware v)"
  by (cases i) (simp_all add: device_input_def)

lemma classify_events:
  "a_events (a_drv_classifyInput c st s) = a_events s @ map EInput (core_classifyInput c st)
   \<and> filter device_input (core_classifyInput c st) = core_classifyInput c st"
proof (cases "index_of c ENCODER_PRESS_CODES")
  case None
  show ?thesis
  proof (cases "encoderRotateDelta c")
    case None2: None
    then show ?thesis using None
      by (cases "c = TOUCH_SWIPE_LEFT"; cases "c = TOUCH_SWIPE_RIGHT"; cases "index_of c TOUCH_TAP_CODES")
        (simp_all add: a_drv_classifyInput_def core_classifyInput_def device_input_def)
  next
    case (Some r)
    then show ?thesis using None
      by (cases r) (simp add: a_drv_classifyInput_def core_classifyInput_def device_input_def)
  qed
next
  case (Some i)
  then show ?thesis
    by (simp add: a_drv_classifyInput_def core_classifyInput_def device_input_def)
qed

lemma parse_events:
  "a_events (a_drv_parseInput data s) = a_events s @ map EInput
        (filter (\<lambda>i. i \<noteq> AUnknown \<and> (\<forall>v. i \<noteq> AFirmware v)) (a_core_parseInput data))"
  using classify_events
  by (simp add: device_input_eq[abs_def, symmetric] a_drv_parseInput_def a_core_parseInput_def
      split: option.splits prod.splits) (simp add: device_input_def)

text \<open>The AKP05 driver and its WebHID copy are the same device: on an open device every
  operation has the core's outcome on the shared state and writes the same reports, an upload
  that throws in the core is an error event of the driver, and both classify every input
  report alike.\<close>

theorem akp05_driver_refines_core:
  assumes "akp_open s"
  shows "akp.truncate (a_drv_sendImage m k img s) = snd (a_core_sendImage m k img (akp.truncate s))
    \<and> (fst (a_core_sendImage m k img (akp.truncate s)) = Inl e \<longrightarrow>
         a_events (a_drv_sendImage m k img s) = a_events (snd (a_drv_upload k img s)) @ [EError e])
    \<and> akp.truncate (a_drv_clearKey m k s) = snd (a_core_clearKey m k (akp.truncate s))
    \<and> apsnd akp.truncate (a_drv_setBrightness l s) = a_core_setBrightness l (akp.truncate s)
    \<and> apsnd akp.truncate (a_drv_writeKeepAlive s) = a_core_keepAlive (akp.truncate s)
    \<and> apsnd akp.truncate (then_do (a_drv_write a_buildVer) a_drv_writeInitSequence s)
        = a_core_init (akp.truncate s)
    \<and> a_events (a_drv_parseInput data s) = a_events s @ map EInput
        (filter (\<lambda>i. i \<noteq> AUnknown \<and> (\<forall>v. i \<noteq> AFirmware v)) (a_core_parseInput data))"
proof (intro conjI)
  have send: "akp.truncate (a_drv_sendImage m k img s) = snd (a_core_sendImage m k img (akp.truncate s))" for img
    using a_send_sim[OF assms, of m k img] by (simp split: option.splits)
  show "akp.truncate (a_drv_sendImage m k img s) = snd (a_core_sendImage m k img (akp.truncate s))"
    by (rule send)
  show "akp.truncate (a_drv_clearKey m k s) = snd (a_core_clearKey m k (akp.truncate s))"
    by (simp add: a_drv_clearKey_def a_core_clearKey_def send black_key_texts black_strip_texts)
  show "fst (a_core_sendImage m k img (akp.truncate s)) = Inl e \<longrightarrow>
         a_events (a_drv_sendImage m k img s) = a_events (snd (a_drv_upload k img s)) @ [EError e]"
    using a_send_sim[OF assms, of m k img]
    by (auto simp: a_drv_sendImage_def a_emit_def split: option.splits prod.splits)
  show "a_events (a_drv_parseInput data s) = a_events s @ map EInput
        (filter (\<lambda>i. i \<noteq> AUnknown \<and> (\<forall>v. i \<noteq> AFirmware v)) (a_core_parseInput data))"
    by (rule parse_events)
qed (rule refines_eq[where ok = akp_open and ab = akp.truncate, OF _ assms],
      rule a_refines_brightness a_refines_keepAlive a_refines_init)+

end
