(* ===== verification/Elgato.thy ===== *)
theory Elgato
  imports Hid_Framing Mirabox
begin

text \<open>
  Elgato HID devices: the WebHID core \<^verbatim>\<open>devices/core/elgato-core.ts\<close> and the desktop driver
  \<^verbatim>\<open>devices/elgato/driver.ts\<close>, both over a protocol strategy of \<^verbatim>\<open>Hid_Framing\<close>.
  \<open>e_out\<close> lists the output and feature reports written, in order.
\<close>

datatype e_report = Out bytes | Feature bytes

record e_model =
  em_keyCount :: nat
  em_keyWidth :: nat
  em_keyHeight :: nat
  em_packetSize :: nat

record ecore =
  lastKeyState :: "bool list"
  pktScratch :: bytes
  blankImage :: "bytes option"
  e_out :: "e_report list"

section \<open>Input reports\<close>

text \<open>The loop over the parsed states: an event where a key differs from its last state.
  A write behind the end of the JavaScript array extends it; \<open>set_state\<close> fills the gap
  with the default that reads use.\<close>

definition set_state :: "bool list \<Rightarrow> nat \<Rightarrow> bool \<Rightarrow> bool list" where
  "set_state l i b = (l @ replicate (Suc i - length l) False)[i := b]"

definition state_of :: "bool list \<Rightarrow> nat \<Rightarrow> bool" where
  "state_of l i = (if i < length l then l ! i else False)"

fun diff_states :: "(nat \<times> bool) list \<Rightarrow> bool list \<Rightarrow> bool list \<times> (nat \<times> key_state) list" where
  "diff_states [] l = (l, [])"
| "diff_states ((keyIndex, pressed) # ss) l =
    (if pressed \<noteq> state_of l keyIndex
     then (let (l', es) = diff_states ss (set_state l keyIndex pressed)
           in (l', (keyIndex, if pressed then Down else Up) # es))
     else diff_states ss l)"

section \<open>The WebHID core\<close>

definition new_ecore :: ecore where
  "new_ecore = \<lparr> lastKeyState = [], pktScratch = [], blankImage = None, e_out = [] \<rparr>"

definition e_core_init :: "protocol_strategy \<Rightarrow> e_model \<Rightarrow> ecore \<Rightarrow> ecore" where
  "e_core_init st m s =
     s\<lparr>lastKeyState := replicate (em_keyCount m) False,
       e_out := e_out s @ [Feature (ps_resetReport st)]\<rparr>"

text \<open>\<^verbatim>\<open>sendImage\<close>; \<^const>\<open>None\<close> would be a write loop that never ends.\<close>

definition e_core_sendImage ::
  "protocol_strategy \<Rightarrow> e_model \<Rightarrow> nat \<Rightarrow> bytes \<Rightarrow> ecore \<Rightarrow> ecore option" where
  "e_core_sendImage st m keyIndex img s =
     (let s = (if length (pktScratch s) \<noteq> em_packetSize m
               then s\<lparr>pktScratch := alloc (em_packetSize m)\<rparr> else s)
      in case ps_writeImage st keyIndex img (pktScratch s) of
           None \<Rightarrow> None
         | Some ps \<Rightarrow> Some (s\<lparr>pktScratch := (if ps = [] then pktScratch s else last ps),
                              e_out := e_out s @ map Out ps\<rparr>))"

definition e_core_clearKey :: "protocol_strategy \<Rightarrow> e_model \<Rightarrow> nat \<Rightarrow> ecore \<Rightarrow> ecore option" where
  "e_core_clearKey st m keyIndex s =
     (let img = (case blankImage s of Some b \<Rightarrow> b
                 | None \<Rightarrow> ps_blankImage st (em_keyWidth m) (em_keyHeight m))
      in e_core_sendImage st m keyIndex img (s\<lparr>blankImage := Some img\<rparr>))"

definition e_core_setBrightness :: "protocol_strategy \<Rightarrow> int \<Rightarrow> ecore \<Rightarrow> ecore" where
  "e_core_setBrightness st level s = s\<lparr>e_out := e_out s @ [Feature (ps_brightnessReport st level)]\<rparr>"

definition e_core_parseInput ::
  "protocol_strategy \<Rightarrow> e_model \<Rightarrow> bytes \<Rightarrow> ecore \<Rightarrow> ecore \<times> (nat \<times> key_state) list" where
  "e_core_parseInput st m data s =
     (case ps_parseInput st data (em_keyCount m) of
        None \<Rightarrow> (s, [])
      | Some states \<Rightarrow>
          (let (l, es) = diff_states states (lastKeyState s) in (s\<lparr>lastKeyState := l\<rparr>, es)))"

definition e_core_close :: "protocol_strategy \<Rightarrow> ecore \<Rightarrow> ecore" where
  "e_core_close st s = s\<lparr>e_out := e_out s @ [Feature (ps_resetReport st)]\<rparr>"

section \<open>The desktop driver\<close>

record edrv = ecore +
  e_open :: bool
  e_serial :: "string option"
  e_firmware :: "string option"
  e_events :: "(nat \<times> key_state) list"

definition e_drv_sendFeatureReport :: "bytes \<Rightarrow> edrv \<Rightarrow> edrv" where
  "e_drv_sendFeatureReport b s = (if \<not> e_open s then s else s\<lparr>e_out := e_out s @ [Feature b]\<rparr>)"

text \<open>\<^verbatim>\<open>_readInfoString\<close>: the report as the device filled it and the count it returned.
  The text ends at the first NUL and is trimmed of blanks.\<close>

definition is_blank :: "char \<Rightarrow> bool" where
  "is_blank c \<longleftrightarrow> c = CHR 0x20 \<or> c = CHR 0x09 \<or> c = CHR 0x0A \<or> c = CHR 0x0B \<or> c = CHR 0x0C
     \<or> c = CHR 0x0D \<or> c = CHR 0xA0"

definition nullTerm :: "string \<Rightarrow> string" where
  "nullTerm s = rev (dropWhile is_blank (rev (dropWhile is_blank (takeWhile (\<lambda>c. c \<noteq> CHR 0x00) s))))"

definition readInfoString :: "info_report \<Rightarrow> bytes \<Rightarrow> int \<Rightarrow> string option" where
  "readInfoString report buf n =
     (if n \<le> int (ir_offset report) then None
      else let end_at = (if ir_lengthPrefixed report
                         then ir_offset report + min (unat (at0 buf 1)) (nat n - ir_offset report)
                         else nat n)
           in Some (nullTerm (ascii_string (subarray buf (ir_offset report) end_at))))"

definition e_drv_readDeviceInfo ::
  "protocol_strategy \<Rightarrow> (info_report \<Rightarrow> bytes \<times> int) \<Rightarrow> edrv \<Rightarrow> edrv" where
  "e_drv_readDeviceInfo st get s =
     (if \<not> e_open s then s
      else let (sr, fr) = ps_infoReports st;
               v = readInfoString sr (fst (get sr)) (snd (get sr));
               f = readInfoString fr (fst (get fr)) (snd (get fr))
           in s\<lparr>e_serial := (case v of None \<Rightarrow> e_serial s | Some x \<Rightarrow> Some x),
                e_firmware := (case f of None \<Rightarrow> e_firmware s | Some x \<Rightarrow> Some x)\<rparr>)"

definition e_drv_open ::
  "protocol_strategy \<Rightarrow> e_model \<Rightarrow> (info_report \<Rightarrow> bytes \<times> int) \<Rightarrow> edrv \<Rightarrow> edrv" where
  "e_drv_open st m get s =
     (let s = e_drv_readDeviceInfo st get (s\<lparr>e_open := True\<rparr>);
          s = s\<lparr>lastKeyState := replicate (em_keyCount m) False\<rparr>
      in e_drv_sendFeatureReport (ps_resetReport st) s)"

definition e_drv_sendImage ::
  "protocol_strategy \<Rightarrow> e_model \<Rightarrow> nat \<Rightarrow> bytes \<Rightarrow> edrv \<Rightarrow> edrv option" where
  "e_drv_sendImage st m keyIndex img s =
     (if \<not> e_open s then Some s
      else let s = (if length (pktScratch s) \<noteq> em_packetSize m
                    then s\<lparr>pktScratch := alloc (em_packetSize m)\<rparr> else s)
      in case ps_writeImage st keyIndex img (pktScratch s) of
           None \<Rightarrow> None
         | Some ps \<Rightarrow> Some (s\<lparr>pktScratch := (if ps = [] then pktScratch s else last ps),
                              e_out := e_out s @ map Out ps\<rparr>))"

definition e_drv_clearKey :: "protocol_strategy \<Rightarrow> e_model \<Rightarrow> nat \<Rightarrow> edrv \<Rightarrow> edrv option" where
  "e_drv_clearKey st m keyIndex s =
     (let img = (case blankImage s of Some b \<Rightarrow> b
                 | None \<Rightarrow> ps_blankImage st (em_keyWidth m) (em_keyHeight m))
      in e_drv_sendImage st m keyIndex img (s\<lparr>blankImage := Some img\<rparr>))"

definition e_drv_setBrightness :: "protocol_strategy \<Rightarrow> int \<Rightarrow> edrv \<Rightarrow> edrv" where
  "e_drv_setBrightness st level = e_drv_sendFeatureReport (ps_brightnessReport st level)"

definition e_drv_parseInput :: "protocol_strategy \<Rightarrow> e_model \<Rightarrow> bytes \<Rightarrow> edrv \<Rightarrow> edrv" where
  "e_drv_parseInput st m data s =
     (case ps_parseInput st data (em_keyCount m) of
        None \<Rightarrow> s
      | Some states \<Rightarrow>
          (let (l, es) = diff_states states (lastKeyState s)
           in s\<lparr>lastKeyState := l, e_events := e_events s @ es\<rparr>))"

text \<open>\<^verbatim>\<open>_cleanup\<close>: the reset report goes out while the device is still open.\<close>

definition e_drv_cleanup :: "protocol_strategy \<Rightarrow> edrv \<Rightarrow> edrv" where
  "e_drv_cleanup st s =
     (if e_open s then (e_drv_sendFeatureReport (ps_resetReport st) s)\<lparr>e_open := False\<rparr> else s)"

section \<open>Key events\<close>

text \<open>The events of one key.\<close>

definition events_of :: "nat \<Rightarrow> (nat \<times> key_state) list \<Rightarrow> key_state list" where
  "events_of i es = map snd (filter (\<lambda>e. fst e = i) es)"

text \<open>From a released (or pressed) key, the events alternate and end in the given state.\<close>

fun alternates :: "bool \<Rightarrow> key_state list \<Rightarrow> bool \<Rightarrow> bool" where
  "alternates cur [] fin \<longleftrightarrow> cur = fin"
| "alternates cur (Down # es) fin \<longleftrightarrow> \<not> cur \<and> alternates True es fin"
| "alternates cur (Up # es) fin \<longleftrightarrow> cur \<and> alternates False es fin"

lemma state_of_set [simp]:
  "state_of (set_state l i b) j = (if j = i then b else state_of l j)"
  by (auto simp: state_of_def set_state_def nth_append)

lemma alternates_append:
  "alternates a es b \<Longrightarrow> alternates b fs c \<Longrightarrow> alternates a (es @ fs) c"
  by (induction a es b rule: alternates.induct) auto

lemma diff_alternates:
  "diff_states ss l = (l', es) \<Longrightarrow> alternates (state_of l i) (events_of i es) (state_of l' i)"
proof (induction ss l arbitrary: l' es rule: diff_states.induct)
  case (2 k p ss l)
  show ?case
  proof (cases "p = state_of l k")
    case True
    then show ?thesis using 2 by simp
  next
    case False
    obtain es' where e: "diff_states ss (set_state l k p) = (l', es')"
      "es = (k, if p then Down else Up) # es'"
      using 2(3) False by (auto split: prod.splits)
    from 2(1)[OF False e(1)] show ?thesis
      using False e(2) by (cases p) (auto simp: events_of_def split: if_splits)
  qed
qed (simp add: events_of_def)

lemma diff_final:
  "diff_states ss l = (l', es) \<Longrightarrow> distinct (map fst ss) \<Longrightarrow>
     state_of l' i = (case map_of ss i of Some p \<Rightarrow> p | None \<Rightarrow> state_of l i)"
proof (induction ss l arbitrary: l' es rule: diff_states.induct)
  case (2 k p ss l)
  have n: "map_of ss k = None" using 2(4) by (simp add: map_of_eq_None_iff)
  show ?case
  proof (cases "p = state_of l k")
    case True
    then show ?thesis using 2 n by (auto split: option.splits)
  next
    case False
    then obtain es' where "diff_states ss (set_state l k p) = (l', es')"
      using 2(3) by (auto split: prod.splits)
    then show ?thesis using 2(1)[OF False] 2(4) n by (auto split: option.splits)
  qed
qed simp

fun e_run :: "protocol_strategy \<Rightarrow> e_model \<Rightarrow> bytes list \<Rightarrow> ecore \<Rightarrow> ecore \<times> (nat \<times> key_state) list" where
  "e_run st m [] s = (s, [])"
| "e_run st m (r # rs) s =
    (let (s, es) = e_core_parseInput st m r s; (s, fs) = e_run st m rs s in (s, es @ fs))"

lemma parse_alternates:
  "e_core_parseInput st m r s = (s', es) \<Longrightarrow>
     alternates (state_of (lastKeyState s) i) (events_of i es) (state_of (lastKeyState s') i)"
  using diff_alternates
  by (auto simp: e_core_parseInput_def events_of_def split: option.splits prod.splits)

lemma events_of_append: "events_of i (es @ fs) = events_of i es @ events_of i fs"
  by (simp add: events_of_def)

lemma run_alternates:
  "e_run st m rs s = (s', es) \<Longrightarrow>
     alternates (state_of (lastKeyState s) i) (events_of i es) (state_of (lastKeyState s') i)"
proof (induction rs arbitrary: s s' es)
  case (Cons r rs)
  obtain s1 es1 where p: "e_core_parseInput st m r s = (s1, es1)" by fastforce
  obtain s2 es2 where q: "e_run st m rs s1 = (s2, es2)" by fastforce
  have "s' = s2" "es = es1 @ es2" using Cons.prems p q by simp_all
  then show ?case
    using alternates_append[OF parse_alternates[OF p] Cons.IH[OF q]] by (simp add: events_of_append)
qed (simp add: events_of_def)

lemma parse_buttons_keys: "map fst (parseButtons data n off) = [0..<n]"
  by (simp add: parseButtons_def comp_def)

text \<open>Whatever input reports arrive after \<open>init\<close>, the key events of every key alternate
  between down and up, start with down, and leave the key in the state of the last accepted
  report.\<close>

theorem elgato_key_events:
  assumes "e_run st m rs (e_core_init st m s) = (s', es)"
  shows "alternates False (events_of i es) (state_of (lastKeyState s') i)
    \<and> (\<forall>r states. st \<in> {gen1_strategy, gen2_strategy} \<longrightarrow> ps_parseInput st r (em_keyCount m) = Some states \<longrightarrow>
         i < em_keyCount m \<longrightarrow>
         state_of (lastKeyState (fst (e_core_parseInput st m r s'))) i = (the (map_of states i)))"
proof (intro conjI allI impI)
  have "state_of (lastKeyState (e_core_init st m s)) i = False"
    by (simp add: e_core_init_def state_of_def)
  then show "alternates False (events_of i es) (state_of (lastKeyState s') i)"
    using run_alternates[OF assms, of i] by simp
  fix r states
  assume st: "st \<in> {gen1_strategy, gen2_strategy}"
    and p: "ps_parseInput st r (em_keyCount m) = Some states" and i: "i < em_keyCount m"
  have k: "map fst states = [0..<em_keyCount m]"
    using st p by (auto simp: gen1_strategy_def gen2_strategy_def gen1ParseInput_def
        gen2ParseInput_def parse_buttons_keys split: if_splits)
  then obtain b where b: "map_of states i = Some b"
    using i by (metis atLeastLessThan_iff list.set_map map_of_eq_None_iff not_None_eq set_upt zero_le)
  obtain l fs where d: "diff_states states (lastKeyState s') = (l, fs)" by fastforce
  have "state_of l i = b" using diff_final[OF d, of i] k b by simp
  then show "state_of (lastKeyState (fst (e_core_parseInput st m r s'))) i = the (map_of states i)"
    using p d b by (simp add: e_core_parseInput_def)
qed

text \<open>The Elgato driver and its WebHID copy are the same device: on an open device uploads,
  blanking, brightness, input and teardown have the core's outcome on the shared state.\<close>

theorem elgato_driver_refines_core:
  assumes "e_open s"
  shows "map_option ecore.truncate (e_drv_sendImage st m k img s)
      = e_core_sendImage st m k img (ecore.truncate s)
    \<and> map_option ecore.truncate (e_drv_clearKey st m k s) = e_core_clearKey st m k (ecore.truncate s)
    \<and> ecore.truncate (e_drv_setBrightness st l s) = e_core_setBrightness st l (ecore.truncate s)
    \<and> ecore.truncate (e_drv_parseInput st m data s) = fst (e_core_parseInput st m data (ecore.truncate s))
    \<and> e_events (e_drv_parseInput st m data s)
        = e_events s @ snd (e_core_parseInput st m data (ecore.truncate s))
    \<and> ecore.truncate (e_drv_cleanup st s) = e_core_close st (ecore.truncate s)"
proof -
  have send: "map_option ecore.truncate (e_drv_sendImage st m k img s)
      = e_core_sendImage st m k img (ecore.truncate s)" if "e_open s" for s img
    using that by (auto simp: e_drv_sendImage_def e_core_sendImage_def Let_def ecore.truncate_def
        split: option.splits)
  have "map_option ecore.truncate (e_drv_clearKey st m k s) = e_core_clearKey st m k (ecore.truncate s)"
    using send[of "s\<lparr>blankImage := Some img\<rparr>" img for img] assms
    by (simp add: e_drv_clearKey_def e_core_clearKey_def Let_def) (simp add: ecore.truncate_def)
  moreover have "ecore.truncate (e_drv_setBrightness st l s) = e_core_setBrightness st l (ecore.truncate s)"
    using assms by (simp add: e_drv_setBrightness_def e_drv_sendFeatureReport_def
        e_core_setBrightness_def ecore.truncate_def)
  moreover have "ecore.truncate (e_drv_parseInput st m data s) = fst (e_core_parseInput st m data (ecore.truncate s))
    \<and> e_events (e_drv_parseInput st m data s)
        = e_events s @ snd (e_core_parseInput st m data (ecore.truncate s))"
    by (simp add: e_drv_parseInput_def e_core_parseInput_def ecore.truncate_def
        split: option.splits prod.splits)
  moreover have "ecore.truncate (e_drv_cleanup st s) = e_core_close st (ecore.truncate s)"
    using assms by (simp add: e_drv_cleanup_def e_core_close_def e_drv_sendFeatureReport_def ecore.truncate_def)
  ultimately show ?thesis using send[OF assms] by blast
qed

end
