(* ===== verification/Work_Queue.thy ===== *)
theory Work_Queue
  imports Prelude
begin

text \<open>
  Host-side admission for one USB worker: \<^verbatim>\<open>src/ts/src/worker/hid-work-queue-host.ts\<close>.

  The queue bounds what is posted to the worker and not yet acknowledged, and what waits on
  the main thread.  A JavaScript \<^verbatim>\<open>Map\<close> is an association list in insertion order.  The injected
  \<^verbatim>\<open>send\<close> may throw; \<open>throws i\<close> says whether posting the message with id \<open>i\<close> does, and what
  was posted is the list \<open>outbox\<close>.  Byte counters are integers, because the code subtracts
  from them without a check; the invariant shows that they never become negative.
  \<^verbatim>\<open>snapshot\<close> is the copy its call would return.

  The lemmas show the budgets, that the queue never waits for an acknowledgement that
  cannot come, and that the messages of a run are posted in their order of admission except
  for superseded images, whose absence nobody behind the queue can observe.
\<close>

section \<open>Data\<close>

record work_budgets =
  max_posted :: nat
  max_posted_bytes :: nat
  max_pending :: nat
  max_pending_bytes :: nat
  controlReserve :: nat

definition DEFAULT_WORK_BUDGETS :: work_budgets where
  "DEFAULT_WORK_BUDGETS = \<lparr>max_posted = 15, max_posted_bytes = 2 * (1024 * 1024),
     max_pending = 64, max_pending_bytes = 4 * (1024 * 1024), controlReserve = 32\<rparr>"

datatype work_kind = Kind_image | Kind_touch | Kind_control

record 'm work_options =
  work_kind :: work_kind
  work_bytes :: nat
  coalesceKey :: "string option"
  snapshot :: "'m option"

datatype admission = Posted | Queued | Coalesced | Rejected | Failed

record 'm waiting_msg =
  w_msg :: 'm
  w_kind :: work_kind
  w_bytes :: nat
  w_key :: "string option"

record 'm work_queue =
  nextId :: nat
  posted :: "(nat \<times> nat) list"
  postedBytes :: int
  waiting :: "'m waiting_msg list"
  waitingBytes :: int
  peakPendingBytes :: int
  peakPostedBytes :: int
  coalesced :: nat
  outbox :: "(nat \<times> 'm) list"

definition new_work_queue :: "'m work_queue" where
  "new_work_queue = \<lparr>nextId = 1, posted = [], postedBytes = 0, waiting = [], waitingBytes = 0,
     peakPendingBytes = 0, peakPostedBytes = 0, coalesced = 0, outbox = []\<rparr>"

section \<open>Operations\<close>

definition fitsPosted :: "work_budgets \<Rightarrow> nat \<Rightarrow> 'm work_queue \<Rightarrow> bool" where
  "fitsPosted B n q \<longleftrightarrow> length (posted q) < max_posted B \<and> postedBytes q + int n \<le> int (max_posted_bytes B)"

definition queue_isEmpty :: "'m work_queue \<Rightarrow> bool" where
  "queue_isEmpty q \<longleftrightarrow> posted q = [] \<and> waiting q = []"

text \<open>The credit is reserved first and given back when posting throws.\<close>

definition post_msg :: "(nat \<Rightarrow> bool) \<Rightarrow> 'm \<Rightarrow> nat \<Rightarrow> 'm work_queue \<Rightarrow> bool \<times> 'm work_queue" where
  "post_msg throws m n q =
     (let i = nextId q;
          q1 = q\<lparr>nextId := i + 1, posted := AList.update i n (posted q), postedBytes := postedBytes q + int n\<rparr>
      in if throws i
         then (False, q1\<lparr>posted := AList.delete i (posted q1), postedBytes := postedBytes q1 - int n\<rparr>)
         else (True, q1\<lparr>outbox := outbox q1 @ [(i, m)],
                        peakPostedBytes := max (peakPostedBytes q1) (postedBytes q1)\<rparr>))"

function drain :: "work_budgets \<Rightarrow> (nat \<Rightarrow> bool) \<Rightarrow> 'm work_queue \<Rightarrow> 'm work_queue" where
  "drain B throws q =
     (case waiting q of
        [] \<Rightarrow> q
      | w # ws \<Rightarrow>
          if fitsPosted B (w_bytes w) q
          then drain B throws (snd (post_msg throws (w_msg w) (w_bytes w)
                 (q\<lparr>waiting := ws, waitingBytes := waitingBytes q - int (w_bytes w)\<rparr>)))
          else q)"
  by pat_completeness auto
termination
  by (relation "measure (\<lambda>(B, t, q). length (waiting q))") (auto simp: post_msg_def Let_def)

declare drain.simps [simp del]

text \<open>The scan of \<^verbatim>\<open>supersededIndex\<close>, from index \<open>i - 1\<close> down to 0.\<close>

fun superseded_from :: "'m waiting_msg list \<Rightarrow> string \<Rightarrow> nat \<Rightarrow> nat option" where
  "superseded_from ws key 0 = None"
| "superseded_from ws key (Suc i) =
     (if w_kind (ws ! i) \<noteq> Kind_image then None
      else if w_key (ws ! i) = Some key then Some i
      else superseded_from ws key i)"

definition supersededIndex :: "string \<Rightarrow> 'm work_queue \<Rightarrow> nat option" where
  "supersededIndex key q = superseded_from (waiting q) key (length (waiting q))"

text \<open>An empty key is falsy and looks for nothing.\<close>

definition superseded_by :: "'m work_options \<Rightarrow> 'm work_queue \<Rightarrow> nat option" where
  "superseded_by opts q =
     (case coalesceKey opts of None \<Rightarrow> None
      | Some key \<Rightarrow> if key = [] then None else supersededIndex key q)"

definition splice1 :: "nat \<Rightarrow> 'a list \<Rightarrow> 'a list" where
  "splice1 i xs = take i xs @ drop (Suc i) xs"

definition wait_entry :: "'m \<Rightarrow> 'm work_options \<Rightarrow> 'm waiting_msg" where
  "wait_entry m opts = \<lparr>w_msg = (case snapshot opts of Some c \<Rightarrow> c | None \<Rightarrow> m),
     w_kind = work_kind opts, w_bytes = work_bytes opts, w_key = coalesceKey opts\<rparr>"

definition push_waiting :: "'m \<Rightarrow> 'm work_options \<Rightarrow> 'm work_queue \<Rightarrow> 'm work_queue" where
  "push_waiting m opts q =
     (let q1 = q\<lparr>waiting := waiting q @ [wait_entry m opts],
                 waitingBytes := waitingBytes q + int (work_bytes opts)\<rparr>
      in q1\<lparr>peakPendingBytes := max (peakPendingBytes q1) (waitingBytes q1)\<rparr>)"

definition submit :: "work_budgets \<Rightarrow> (nat \<Rightarrow> bool) \<Rightarrow> 'm \<Rightarrow> 'm work_options \<Rightarrow> 'm work_queue
    \<Rightarrow> admission \<times> 'm work_queue" where
  "submit B throws m opts q =
     (if max_posted_bytes B < work_bytes opts then (Rejected, q)
      else if waiting q = [] \<and> fitsPosted B (work_bytes opts) q then
        (case post_msg throws m (work_bytes opts) q of (ok, q') \<Rightarrow> (if ok then Posted else Failed, q'))
      else
        (let superseded = superseded_by opts q;
             freedBytes = (case superseded of Some i \<Rightarrow> int (w_bytes (waiting q ! i)) | None \<Rightarrow> 0);
             freedCount = (case superseded of Some i \<Rightarrow> 1 | None \<Rightarrow> 0);
             countLimit = max_pending B + (if work_kind opts = Kind_control then controlReserve B else 0)
         in if int countLimit \<le> int (length (waiting q)) - freedCount
               \<or> int (max_pending_bytes B) < waitingBytes q - freedBytes + int (work_bytes opts)
            then (Rejected, q)
            else case superseded of
                Some i \<Rightarrow> (Coalesced, push_waiting m opts
                  (q\<lparr>waiting := splice1 i (waiting q), waitingBytes := waitingBytes q - freedBytes,
                     coalesced := coalesced q + 1\<rparr>))
              | None \<Rightarrow> (Queued, push_waiting m opts q)))"

text \<open>The loop of \<^verbatim>\<open>complete\<close> over the acknowledged ids; unknown ids are ignored.\<close>

fun release_ids :: "nat list \<Rightarrow> nat \<times> 'm work_queue \<Rightarrow> nat \<times> 'm work_queue" where
  "release_ids [] rq = rq"
| "release_ids (i # ids) (r, q) =
     (case map_of (posted q) i of
        None \<Rightarrow> release_ids ids (r, q)
      | Some n \<Rightarrow> release_ids ids (r + 1, q\<lparr>posted := AList.delete i (posted q), postedBytes := postedBytes q - int n\<rparr>))"

definition queue_complete :: "work_budgets \<Rightarrow> (nat \<Rightarrow> bool) \<Rightarrow> nat list \<Rightarrow> 'm work_queue \<Rightarrow> nat \<times> 'm work_queue" where
  "queue_complete B throws ids q =
     (case release_ids ids (0, q) of (released, q') \<Rightarrow> (released, drain B throws q'))"

definition queue_reset :: "'m work_queue \<Rightarrow> 'm work_queue" where
  "queue_reset q = q\<lparr>posted := [], postedBytes := 0, waiting := [], waitingBytes := 0\<rparr>"


section \<open>The budgets\<close>

definition credits_ok :: "work_budgets \<Rightarrow> 'm work_queue \<Rightarrow> bool" where
  "credits_ok B q \<longleftrightarrow> distinct (keys_of (posted q)) \<and> (\<forall>i\<in>set (keys_of (posted q)). i < nextId q)
     \<and> postedBytes q = int (sum_list (vals_of (posted q)))
     \<and> postedBytes q \<le> int (max_posted_bytes B) \<and> length (posted q) \<le> max_posted B
     \<and> postedBytes q \<le> peakPostedBytes q"

definition waits_ok :: "work_budgets \<Rightarrow> 'm work_queue \<Rightarrow> bool" where
  "waits_ok B q \<longleftrightarrow> waitingBytes q = int (sum_list (map w_bytes (waiting q)))
     \<and> waitingBytes q \<le> int (max_pending_bytes B)
     \<and> length (waiting q) \<le> max_pending B + controlReserve B
     \<and> length (filter (\<lambda>w. w_kind w \<noteq> Kind_control) (waiting q)) \<le> max_pending B
     \<and> (\<forall>w\<in>set (waiting q). w_bytes w \<le> max_posted_bytes B)
     \<and> waitingBytes q \<le> peakPendingBytes q"

text \<open>Whatever waits, waits for an acknowledgement that is still to come.\<close>

definition not_stuck :: "'m work_queue \<Rightarrow> bool" where
  "not_stuck q \<longleftrightarrow> (waiting q \<noteq> [] \<longrightarrow> posted q \<noteq> [])"

definition queue_ok :: "work_budgets \<Rightarrow> 'm work_queue \<Rightarrow> bool" where
  "queue_ok B q \<longleftrightarrow> credits_ok B q \<and> waits_ok B q \<and> not_stuck q"

lemma om_delete_snoc: "map_of m k = None \<Longrightarrow> AList.delete k (m @ [(k, v)]) = m"
  by (induction m) (auto split: if_splits)

lemma credits_fresh: "credits_ok B q \<Longrightarrow> map_of (posted q) (nextId q) = None"
  by (auto simp: credits_ok_def map_of_eq_None_iff)

text \<open>The two outcomes of a post that is within the budget.\<close>

lemma post_msg_cases:
  assumes "map_of (posted q) (nextId q) = None"
  shows "post_msg throws m n q =
    (if throws (nextId q) then (False, q\<lparr>nextId := nextId q + 1\<rparr>)
     else (True, q\<lparr>nextId := nextId q + 1, posted := posted q @ [(nextId q, n)],
            postedBytes := postedBytes q + int n, outbox := outbox q @ [(nextId q, m)],
            peakPostedBytes := max (peakPostedBytes q) (postedBytes q + int n)\<rparr>))"
proof -
  have "AList.delete (nextId q) (posted q @ [(nextId q, n)]) = posted q"
    using assms by (rule om_delete_snoc)
  then show ?thesis by (simp add: post_msg_def Let_def om_set_fresh[OF assms])
qed

lemma post_credits:
  assumes "credits_ok B q" "fitsPosted B n q"
  shows "credits_ok B (snd (post_msg throws m n q))"
  using assms unfolding post_msg_cases[OF credits_fresh[OF assms(1)]]
  by (auto simp: credits_ok_def fitsPosted_def)

lemma post_frame:
  assumes "credits_ok B q"
  shows "waiting (snd (post_msg throws m n q)) = waiting q"
    "waitingBytes (snd (post_msg throws m n q)) = waitingBytes q"
    "peakPendingBytes (snd (post_msg throws m n q)) = peakPendingBytes q"
  using assms by (simp_all add: post_msg_cases credits_fresh)

lemma credits_waiting [simp]:
  "credits_ok B (q\<lparr>waiting := ws, waitingBytes := n\<rparr>) = credits_ok B q"
  "credits_ok B (q\<lparr>waiting := ws, waitingBytes := n, coalesced := c\<rparr>) = credits_ok B q"
  by (simp_all add: credits_ok_def)

lemma post_waits:
  assumes "credits_ok B q"
  shows "waits_ok B (snd (post_msg throws m n q)) = waits_ok B q"
  by (simp add: waits_ok_def post_frame[OF assms])

lemma waits_shift:
  assumes "waits_ok B q" "waiting q = w # ws"
  shows "waits_ok B (q\<lparr>waiting := ws, waitingBytes := waitingBytes q - int (w_bytes w)\<rparr>)"
  using assms by (auto simp: waits_ok_def split: if_splits)

text \<open>An empty posted set always leaves room for one admissible message.\<close>

lemma empty_fits:
  assumes "credits_ok B q" "posted q = []" "n \<le> max_posted_bytes B" "0 < max_posted B"
  shows "fitsPosted B n q"
  using assms by (simp add: credits_ok_def fitsPosted_def)

lemma drain_ok:
  assumes "credits_ok B q" "waits_ok B q" "0 < max_posted B"
  shows "queue_ok B (drain B throws q)"
  using assms
proof (induction B throws q rule: drain.induct)
  case (1 B throws q)
  show ?case
  proof (cases "waiting q")
    case Nil
    then show ?thesis using 1 by (subst drain.simps) (simp add: queue_ok_def not_stuck_def)
  next
    case (Cons w ws)
    let ?q = "q\<lparr>waiting := ws, waitingBytes := waitingBytes q - int (w_bytes w)\<rparr>"
    show ?thesis
    proof (cases "fitsPosted B (w_bytes w) q")
      case True
      then have "fitsPosted B (w_bytes w) ?q" by (simp add: fitsPosted_def)
      moreover have c: "credits_ok B ?q" using 1(2) by simp
      ultimately have "credits_ok B (snd (post_msg throws (w_msg w) (w_bytes w) ?q))"
        by (rule post_credits[rotated])
      moreover have "waits_ok B (snd (post_msg throws (w_msg w) (w_bytes w) ?q))"
        by (simp only: post_waits[OF c] waits_shift[OF 1(3) Cons])
      ultimately have "queue_ok B (drain B throws (snd (post_msg throws (w_msg w) (w_bytes w) ?q)))"
        by (rule 1(1)[OF Cons True _ _ 1(4)])
      then show ?thesis by (subst drain.simps) (simp add: Cons True)
    next
      case False
      have "w_bytes w \<le> max_posted_bytes B" using 1(3) Cons by (simp add: waits_ok_def)
      then have "posted q \<noteq> []" using False 1 empty_fits by blast
      then show ?thesis using False Cons 1 by (subst drain.simps) (simp add: queue_ok_def not_stuck_def)
    qed
  qed
qed

lemma release_credits:
  "credits_ok B q \<Longrightarrow> credits_ok B (snd (release_ids ids (r, q)))"
proof (induction ids "(r, q)" arbitrary: r q rule: release_ids.induct)
  case (2 i ids r q)
  show ?case
  proof (cases "map_of (posted q) i")
    case (Some n)
    have d: "distinct (keys_of (posted q))" using 2(3) by (simp add: credits_ok_def)
    have "sum_list (vals_of (AList.delete i (posted q))) + n = sum_list (vals_of (posted q))"
      using om_sum_delete[OF d Some, of "\<lambda>x. x"] by (simp add: comp_def)
    moreover have "length (AList.delete i (posted q)) \<le> length (posted q)"
      by (rule length_delete_le)
    ultimately have "credits_ok B (q\<lparr>posted := AList.delete i (posted q), postedBytes := postedBytes q - int n\<rparr>)"
      using 2(3) d by (auto simp: credits_ok_def)
    then show ?thesis using 2(2)[OF Some] Some by simp
  qed (use 2 in simp)
qed simp

lemma release_frame:
  "waiting (snd (release_ids ids (r, q))) = waiting q
   \<and> waitingBytes (snd (release_ids ids (r, q))) = waitingBytes q
   \<and> peakPendingBytes (snd (release_ids ids (r, q))) = peakPendingBytes q
   \<and> outbox (snd (release_ids ids (r, q))) = outbox q"
  by (induction ids "(r, q)" arbitrary: r q rule: release_ids.induct) (auto split: option.split)

lemma complete_ok:
  assumes "queue_ok B q" "0 < max_posted B"
  shows "queue_ok B (snd (queue_complete B throws ids q))"
proof -
  obtain r q' where r: "release_ids ids (0, q) = (r, q')" by fastforce
  have "credits_ok B q'" using release_credits[of B q ids 0] assms r by (simp add: queue_ok_def)
  moreover have "waits_ok B q'" using release_frame[of ids 0 q] assms r by (simp add: queue_ok_def waits_ok_def)
  ultimately show ?thesis using drain_ok assms(2) by (simp add: queue_complete_def r)
qed

text \<open>The superseded entry lies in the trailing run of images.\<close>

lemma superseded_from_Some:
  "superseded_from ws key n = Some i \<Longrightarrow>
     i < n \<and> w_key (ws ! i) = Some key \<and> (\<forall>j. i \<le> j \<longrightarrow> j < n \<longrightarrow> w_kind (ws ! j) = Kind_image)"
  by (induction ws key n rule: superseded_from.induct) (auto split: if_splits simp: less_Suc_eq)

lemma superseded_split:
  assumes "superseded_by opts q = Some i"
  obtains xs w ys where "waiting q = xs @ w # ys" "length xs = i" "w_key w = coalesceKey opts"
    "w_key w \<noteq> None" "\<forall>v\<in>set (w # ys). w_kind v = Kind_image"
    "splice1 i (waiting q) = xs @ ys" "waiting q ! i = w"
proof -
  obtain key where k: "coalesceKey opts = Some key" "superseded_from (waiting q) key (length (waiting q)) = Some i"
    using assms by (auto simp: superseded_by_def supersededIndex_def split: option.splits if_splits)
  note f = superseded_from_Some[OF k(2)]
  let ?ws = "waiting q"
  have i: "i < length ?ws" using f by blast
  have "\<forall>v\<in>set (drop i ?ws). w_kind v = Kind_image"
    using f by (auto simp: in_set_conv_nth)
  then have "\<forall>v\<in>set (?ws ! i # drop (Suc i) ?ws). w_kind v = Kind_image"
    by (simp only: Cons_nth_drop_Suc[OF i])
  moreover have "?ws = take i ?ws @ ?ws ! i # drop (Suc i) ?ws" using i by (simp add: id_take_nth_drop)
  ultimately show thesis using that[of "take i ?ws" "?ws ! i" "drop (Suc i) ?ws"] f k(1) i
    by (simp add: splice1_def)
qed

lemma push_waiting_ok:
  assumes "waitingBytes q = int (sum_list (map w_bytes (waiting q)))"
    "waitingBytes q + int (work_bytes opts) \<le> int (max_pending_bytes B)"
    "length (waiting q) < max_pending B + (if work_kind opts = Kind_control then controlReserve B else 0)"
    "length (filter (\<lambda>w. w_kind w \<noteq> Kind_control) (waiting q)) \<le> max_pending B"
    "\<forall>w\<in>set (waiting q). w_bytes w \<le> max_posted_bytes B" "work_bytes opts \<le> max_posted_bytes B"
  shows "waits_ok B (push_waiting m opts q)"
proof -
  have "Suc (length (filter (\<lambda>w. w_kind w \<noteq> Kind_control) (waiting q))) \<le> max_pending B"
    if "length (waiting q) < max_pending B"
    using that length_filter_le[of "\<lambda>w. w_kind w \<noteq> Kind_control" "waiting q"] by linarith
  with assms show ?thesis
    by (auto simp: waits_ok_def push_waiting_def Let_def wait_entry_def split: if_splits)
qed

lemma credits_push [simp]: "credits_ok B (push_waiting m opts q) = credits_ok B q"
  by (simp add: credits_ok_def push_waiting_def Let_def)

lemma posted_push [simp]: "posted (push_waiting m opts q) = posted q"
  by (simp add: push_waiting_def Let_def)


text \<open>The three ways through \<open>submit\<close> that do not reject.\<close>

lemma submit_direct:
  assumes "credits_ok B q" "waiting q = []" "fitsPosted B (work_bytes opts) q"
  shows "submit B throws m opts q =
    (if fst (post_msg throws m (work_bytes opts) q) then Posted else Failed,
     snd (post_msg throws m (work_bytes opts) q))"
  using assms by (simp add: submit_def fitsPosted_def credits_ok_def split: prod.split)

definition has_room :: "work_budgets \<Rightarrow> 'm work_options \<Rightarrow> 'm waiting_msg list \<Rightarrow> int \<Rightarrow> bool" where
  "has_room B opts ws n \<longleftrightarrow> n + int (work_bytes opts) \<le> int (max_pending_bytes B)
     \<and> length ws < max_pending B + (if work_kind opts = Kind_control then controlReserve B else 0)"

lemma submit_queued:
  assumes "\<not> (waiting q = [] \<and> fitsPosted B (work_bytes opts) q)" "superseded_by opts q = None"
  shows "submit B throws m opts q =
    (if work_bytes opts \<le> max_posted_bytes B \<and> has_room B opts (waiting q) (waitingBytes q)
     then (Queued, push_waiting m opts q) else (Rejected, q))"
  using assms by (auto simp: submit_def has_room_def Let_def)

lemma submit_coalesced:
  assumes "\<not> (waiting q = [] \<and> fitsPosted B (work_bytes opts) q)" "superseded_by opts q = Some i"
    "waiting q = xs @ w # ys" "length xs = i"
  shows "submit B throws m opts q =
    (if work_bytes opts \<le> max_posted_bytes B \<and> has_room B opts (xs @ ys) (waitingBytes q - int (w_bytes w))
     then (Coalesced, push_waiting m opts (q\<lparr>waiting := xs @ ys,
            waitingBytes := waitingBytes q - int (w_bytes w), coalesced := coalesced q + 1\<rparr>))
     else (Rejected, q))"
proof -
  have "splice1 i (waiting q) = xs @ ys" "waiting q ! i = w"
    using assms(3,4) by (auto simp: splice1_def)
  moreover have "int (length (waiting q)) - 1 = int (length (xs @ ys))" using assms(3) by simp
  ultimately show ?thesis using assms(1,2) by (auto simp: submit_def has_room_def Let_def)
qed

lemma submit_ok:
  assumes "queue_ok B q" "0 < max_posted B"
  shows "queue_ok B (snd (submit B throws m opts q))"
proof (cases "waiting q = [] \<and> fitsPosted B (work_bytes opts) q")
  case True
  then have c: "credits_ok B q" "waits_ok B q" "fitsPosted B (work_bytes opts) q"
    using assms by (simp_all add: queue_ok_def)
  show ?thesis using post_credits[OF c(1,3)] post_waits[OF c(1)] post_frame(1)[OF c(1)] c True
    by (simp add: submit_direct[OF c(1) _ c(3)] queue_ok_def not_stuck_def)
next
  case busy: False
  note ok = assms(1)[unfolded queue_ok_def]
  have stuck: "posted q \<noteq> []" if "work_bytes opts \<le> max_posted_bytes B"
    using busy ok empty_fits[of B q, OF _ _ that assms(2)] by (auto simp: not_stuck_def)
  have w: "waits_ok B q" using ok by simp
  show ?thesis
  proof (cases "superseded_by opts q")
    case None
    show ?thesis
    proof (cases "work_bytes opts \<le> max_posted_bytes B \<and> has_room B opts (waiting q) (waitingBytes q)")
      case True
      then have "waits_ok B (push_waiting m opts q)"
        using w by (intro push_waiting_ok) (auto simp: waits_ok_def has_room_def)
      then show ?thesis using True ok stuck by (simp add: submit_queued[OF busy None] queue_ok_def not_stuck_def)
    qed (use assms submit_queued[OF busy None] in auto)
  next
    case (Some i)
    then obtain xs v ys where x: "waiting q = xs @ v # ys" "length xs = i" by (rule superseded_split)
    let ?q = "q\<lparr>waiting := xs @ ys, waitingBytes := waitingBytes q - int (w_bytes v), coalesced := coalesced q + 1\<rparr>"
    show ?thesis
    proof (cases "work_bytes opts \<le> max_posted_bytes B \<and> has_room B opts (xs @ ys) (waitingBytes q - int (w_bytes v))")
      case True
      then have "waits_ok B (push_waiting m opts ?q)"
        using w x by (intro push_waiting_ok) (auto simp: waits_ok_def has_room_def split: if_splits)
      then show ?thesis using True ok stuck
        by (simp add: submit_coalesced[OF busy Some x] queue_ok_def not_stuck_def)
    qed (use assms submit_coalesced[OF busy Some x] in auto)
  qed
qed

text \<open>When \<open>submit\<close> rejects and what it leaves posted.\<close>

lemma submit_rejected:
  assumes "queue_ok B q" "0 < max_posted B" "work_bytes opts \<le> max_posted_bytes B"
    and "submit B throws m opts q = (Rejected, q')"
  shows "q' = q \<and> posted q \<noteq> []"
proof (cases "waiting q = [] \<and> fitsPosted B (work_bytes opts) q")
  case True
  then show ?thesis using assms by (simp add: submit_direct queue_ok_def split: if_splits)
next
  case busy: False
  then have "posted q \<noteq> []"
    using assms(1) empty_fits[of B q, OF _ _ assms(3,2)] by (auto simp: queue_ok_def not_stuck_def)
  moreover have "q' = q"
  proof (cases "superseded_by opts q")
    case None
    then show ?thesis using assms(4) submit_queued[OF busy None, of throws m] by (simp split: if_splits)
  next
    case (Some i)
    then obtain xs v ys where x: "waiting q = xs @ v # ys" "length xs = i" by (rule superseded_split)
    show ?thesis using assms(4) submit_coalesced[OF busy Some x, of throws m] by (simp split: if_splits)
  qed
  ultimately show ?thesis by simp
qed

lemma submit_keeps_posted:
  assumes "credits_ok B q" "posted q \<noteq> []"
  shows "posted (snd (submit B throws m opts q)) \<noteq> []"
  using assms post_msg_cases[OF credits_fresh[OF assms(1)], of throws m "work_bytes opts"]
  by (auto simp: submit_def Let_def split: prod.split option.split)

lemma release_zero: "fst (release_ids ids (r, q)) = r \<Longrightarrow> snd (release_ids ids (r, q)) = q"
proof -
  have grow: "r \<le> fst (release_ids ids (r, q))" for ids r and q :: "'m work_queue"
    by (induction ids "(r, q)" arbitrary: r q rule: release_ids.induct) (fastforce split: option.split)+
  show "fst (release_ids ids (r, q)) = r \<Longrightarrow> snd (release_ids ids (r, q)) = q"
  proof (induction ids "(r, q)" arbitrary: r q rule: release_ids.induct)
    case (2 i ids r q)
    show ?case
    proof (cases "map_of (posted q) i")
      case None
      then show ?thesis using 2(1)[OF None] 2(3) by simp
    next
      case (Some n)
      have "r + 1 \<le> fst (release_ids (i # ids) (r, q))"
        using grow[of "r + 1" ids "q\<lparr>posted := AList.delete i (posted q), postedBytes := postedBytes q - int n\<rparr>"]
        by (simp add: Some)
      then show ?thesis using 2(3) by simp
    qed
  qed simp
qed

lemma drain_keeps_posted:
  "credits_ok B q \<Longrightarrow> posted q \<noteq> [] \<Longrightarrow> posted (drain B throws q) \<noteq> []"
proof (induction B throws q rule: drain.induct)
  case (1 B throws q)
  show ?case
  proof (cases "\<exists>w ws. waiting q = w # ws \<and> fitsPosted B (w_bytes w) q")
    case True
    then obtain w ws where w: "waiting q = w # ws" "fitsPosted B (w_bytes w) q" by blast
    let ?q = "q\<lparr>waiting := ws, waitingBytes := waitingBytes q - int (w_bytes w)\<rparr>"
    have c: "credits_ok B ?q" using 1(2) by simp
    have "fitsPosted B (w_bytes w) ?q" using w(2) by (simp add: fitsPosted_def)
    note c' = post_credits[OF c this, of throws "w_msg w"]
    have "posted (snd (post_msg throws (w_msg w) (w_bytes w) ?q)) \<noteq> []"
      using 1(3) by (simp add: post_msg_cases[OF credits_fresh[OF c]])
    from 1(1)[OF w c' this] show ?thesis using w by (subst drain.simps) simp
  next
    case False
    then have "drain B throws q = q" by (subst drain.simps) (auto split: list.split)
    then show ?thesis using 1(3) by simp
  qed
qed

lemma complete_released:
  assumes "credits_ok B q" "posted q \<noteq> []" "queue_complete B throws ids q = (0, q')"
  shows "posted q' \<noteq> []"
proof -
  obtain q1 where r: "release_ids ids (0, q) = (0, q1)" "q' = drain B throws q1"
    using assms(3) by (auto simp: queue_complete_def split: prod.splits)
  then have "q1 = q" using release_zero[of ids 0 q] by simp
  then show ?thesis using drain_keeps_posted[OF assms(1,2)] r(2) by simp
qed

lemma complete_empty:
  assumes "queue_isEmpty q"
  shows "queue_complete B throws ids q = (0, q)"
proof -
  have "release_ids ids (r, q) = (r, q)" for r
    using assms by (induction ids) (auto simp: queue_isEmpty_def)
  moreover have "drain B throws q = q" using assms by (subst drain.simps) (simp add: queue_isEmpty_def)
  ultimately show ?thesis by (simp add: queue_complete_def)
qed

section \<open>Runs\<close>

text \<open>What the host does to the queue over time; every step may find other posts throwing.\<close>

inductive queue_step :: "work_budgets \<Rightarrow> 'm work_queue \<Rightarrow> 'm work_queue \<Rightarrow> bool" for B where
  step_submit: "queue_step B q (snd (submit B throws m opts q))"
| step_complete: "queue_step B q (snd (queue_complete B throws ids q))"
| step_reset: "queue_step B q (queue_reset q)"

inductive queue_reach :: "work_budgets \<Rightarrow> 'm work_queue \<Rightarrow> bool" for B where
  reach_new: "queue_reach B new_work_queue"
| reach_step: "queue_reach B q \<Longrightarrow> queue_step B q q' \<Longrightarrow> queue_reach B q'"

inductive_cases queue_stepE: "queue_step B q q'"

lemma new_queue_ok: "queue_ok B new_work_queue"
  by (simp add: new_work_queue_def queue_ok_def credits_ok_def waits_ok_def not_stuck_def)

lemma reset_ok: "queue_ok B q \<Longrightarrow> queue_ok B (queue_reset q)"
  by (auto simp: queue_reset_def queue_ok_def credits_ok_def waits_ok_def not_stuck_def
      intro: order_trans[rotated])

lemma step_ok:
  assumes "queue_step B q q'" "queue_ok B q" "0 < max_posted B"
  shows "queue_ok B q'"
  using assms by (elim queue_stepE) (auto intro: submit_ok complete_ok reset_ok)

lemma reach_ok:
  assumes "0 < max_posted B"
  shows "queue_reach B q \<Longrightarrow> queue_ok B q"
  by (induction rule: queue_reach.induct) (auto intro: step_ok new_queue_ok assms)

section \<open>Draining\<close>

text \<open>The worker acknowledges everything that is posted.\<close>

definition ack_all :: "work_budgets \<Rightarrow> (nat \<Rightarrow> bool) \<Rightarrow> 'm work_queue \<Rightarrow> 'm work_queue" where
  "ack_all B throws q = snd (queue_complete B throws (keys_of (posted q)) q)"

lemma release_all:
  "distinct (keys_of (posted q)) \<Longrightarrow> posted (snd (release_ids (keys_of (posted q)) (r, q))) = []"
proof (induction "posted q" arbitrary: q r)
  case (Cons p ps)
  obtain i n where p: "p = (i, n)" by force
  let ?q = "q\<lparr>posted := ps, postedBytes := postedBytes q - int n\<rparr>"
  have "posted q = (i, n) # ps" using Cons(2) p by simp
  moreover have "map_of ps i = None"
    using Cons(3) Cons(2)[symmetric] p by (simp add: map_of_eq_None_iff)
  ultimately show ?case
    using Cons(1)[of ?q "r + 1"] Cons(3) by (simp add: om_delete_fresh)
qed simp

lemma post_waiting [simp]: "waiting (snd (post_msg throws m n q)) = waiting q"
  by (simp add: post_msg_def Let_def)

lemma drain_drop: "\<exists>k. waiting (drain B throws q) = drop k (waiting q)"
proof (induction B throws q rule: drain.induct)
  case (1 B throws q)
  show ?case
  proof (cases "\<exists>w ws. waiting q = w # ws \<and> fitsPosted B (w_bytes w) q")
    case True
    then obtain w ws where w: "waiting q = w # ws" "fitsPosted B (w_bytes w) q" by blast
    then obtain k where "waiting (drain B throws q) = drop k ws"
      using 1[OF w] by (subst (asm) (1) drain.simps) (auto simp: drain.simps[of B throws q])
    then show ?thesis using w by (intro exI[of _ "Suc k"]) simp
  next
    case False
    then have "drain B throws q = q" by (subst drain.simps) (auto split: list.split)
    then show ?thesis by (intro exI[of _ 0]) simp
  qed
qed

lemma drain_shorter: "length (waiting (drain B throws q)) \<le> length (waiting q)"
  using drain_drop[of B throws q] by auto

lemma ack_all_step:
  assumes "queue_ok B q" "0 < max_posted B"
  shows "waiting q = [] \<Longrightarrow> queue_isEmpty (ack_all B throws q)"
    "waiting q \<noteq> [] \<Longrightarrow> length (waiting (ack_all B throws q)) < length (waiting q)"
proof -
  obtain r q' where r: "release_ids (keys_of (posted q)) (0, q) = (r, q')" by fastforce
  have q': "posted q' = []" "waiting q' = waiting q" "credits_ok B q'"
    using release_all[of q 0] release_frame[of "keys_of (posted q)" 0 q]
      release_credits[of B q "keys_of (posted q)" 0] r assms by (auto simp: queue_ok_def credits_ok_def)
  have a: "ack_all B throws q = drain B throws q'" by (simp add: ack_all_def queue_complete_def r)
  show "queue_isEmpty (ack_all B throws q)" if "waiting q = []"
    unfolding a using q' that by (subst drain.simps) (simp add: queue_isEmpty_def)
  show "length (waiting (ack_all B throws q)) < length (waiting q)" if "waiting q \<noteq> []"
  proof -
    from that obtain w ws where w: "waiting q = w # ws" by (cases "waiting q") auto
    then have f: "fitsPosted B (w_bytes w) q'"
      using q' assms by (intro empty_fits) (auto simp: queue_ok_def waits_ok_def)
    let ?q = "snd (post_msg throws (w_msg w) (w_bytes w)
      (q'\<lparr>waiting := ws, waitingBytes := waitingBytes q' - int (w_bytes w)\<rparr>))"
    have "drain B throws q' = drain B throws ?q"
      by (subst drain.simps) (simp add: q' w f)
    moreover have "waiting ?q = ws" by (simp add: post_msg_def Let_def)
    ultimately show ?thesis unfolding a using drain_shorter[of B throws ?q] w by simp
  qed
qed

lemma ack_rounds_ok: "queue_ok B q \<Longrightarrow> 0 < max_posted B \<Longrightarrow> queue_ok B ((ack_all B throws ^^ n) q)"
  by (induction n) (auto simp: ack_all_def intro: complete_ok)

lemma ack_rounds_waiting:
  assumes "queue_ok B q" "0 < max_posted B"
  shows "length (waiting ((ack_all B throws ^^ n) q)) \<le> length (waiting q) - n"
proof (induction n)
  case (Suc n)
  let ?q = "(ack_all B throws ^^ n) q"
  have ok: "queue_ok B ?q" using assms by (rule ack_rounds_ok)
  show ?case
    using ack_all_step[OF ok assms(2), of throws] Suc
    by (cases "waiting ?q = []") (auto simp: queue_isEmpty_def)
qed simp

section \<open>Order\<close>

text \<open>Everything admitted so far, in the order it was or will be posted.\<close>

definition work_history :: "'m work_queue \<Rightarrow> 'm list" where
  "work_history q = map snd (outbox q) @ map w_msg (waiting q)"

abbreviation (input) never :: "nat \<Rightarrow> bool" where
  "never \<equiv> \<lambda>_. False"

lemma history_drain: "work_history (drain B never q) = work_history q"
proof (induction B "never :: nat \<Rightarrow> bool" q rule: drain.induct)
  case (1 B q)
  then show ?case
    by (subst drain.simps) (auto simp: post_msg_def Let_def work_history_def split: list.split)
qed

lemma history_complete: "work_history (snd (queue_complete B never ids q)) = work_history q"
proof -
  obtain r q' where r: "release_ids ids (0, q) = (r, q')" by fastforce
  then have "work_history q' = work_history q"
    using release_frame[of ids 0 q] by (simp add: work_history_def)
  then show ?thesis by (simp add: queue_complete_def r history_drain)
qed

text \<open>A run between two resets in which no post throws, and the messages it admitted.\<close>

datatype 'm queue_op = Op_submit 'm "'m work_options" | Op_complete "nat list"

fun queue_run :: "work_budgets \<Rightarrow> 'm queue_op list \<Rightarrow> 'm list \<times> 'm work_queue \<Rightarrow> 'm list \<times> 'm work_queue" where
  "queue_run B [] aq = aq"
| "queue_run B (Op_submit m opts # ops) (ms, q) =
     (case submit B never m opts q of (a, q') \<Rightarrow>
        queue_run B ops (if a = Rejected then ms else ms @ [m], q'))"
| "queue_run B (Op_complete ids # ops) (ms, q) = queue_run B ops (ms, snd (queue_complete B never ids q))"

lemma complete_subset: "set (waiting (snd (queue_complete B throws ids q))) \<subseteq> set (waiting q)"
proof -
  obtain r q' where r: "release_ids ids (0, q) = (r, q')" by fastforce
  then have "waiting q' = waiting q" using release_frame[of ids 0 q] by simp
  then show ?thesis using drain_drop[of B throws q'] by (auto simp: queue_complete_def r dest: in_set_dropD)
qed

text \<open>
  What happens to the messages behind the queue.  A message is of one kind and may carry a
  key; a later image makes an earlier one with the same key unobservable when only images
  come between them.
\<close>

locale work_sink =
  fixes effect :: "'m \<Rightarrow> 'd \<Rightarrow> 'd" and kind_of :: "'m \<Rightarrow> work_kind" and key_of :: "'m \<Rightarrow> string option"
  assumes overwrites: "\<lbrakk>kind_of x = Kind_image; kind_of y = Kind_image; key_of x = key_of y; key_of x \<noteq> None;
      \<forall>z\<in>set zs. kind_of z = Kind_image\<rbrakk>
    \<Longrightarrow> fold effect (x # zs @ [y]) d = fold effect (zs @ [y]) d"
    and only_images_keyed: "key_of x \<noteq> None \<Longrightarrow> kind_of x = Kind_image"
begin

definition labels :: "'m \<Rightarrow> 'm work_options \<Rightarrow> bool" where
  "labels m opts \<longleftrightarrow> work_kind opts = kind_of m \<and> coalesceKey opts = key_of m
     \<and> (snapshot opts = None \<or> snapshot opts = Some m)"

definition labelled :: "'m work_queue \<Rightarrow> bool" where
  "labelled q \<longleftrightarrow> (\<forall>w\<in>set (waiting q). w_kind w = kind_of (w_msg w) \<and> w_key w = key_of (w_msg w))"

lemma entry_labelled:
  assumes "labels m opts"
  shows "w_msg (wait_entry m opts) = m" "w_kind (wait_entry m opts) = kind_of m" "w_key (wait_entry m opts) = key_of m"
  using assms by (auto simp: labels_def wait_entry_def split: option.split)

lemma submit_effect:
  assumes "labels m opts" "labelled q" "credits_ok B q"
  shows "labelled (snd (submit B never m opts q))
    \<and> fold effect (work_history (snd (submit B never m opts q))) d
      = fold effect (work_history q @ (if fst (submit B never m opts q) = Rejected then [] else [m])) d"
proof (cases "waiting q = [] \<and> fitsPosted B (work_bytes opts) q")
  case True
  then show ?thesis using assms(2)
    by (simp add: submit_direct[OF assms(3)] work_history_def labelled_def post_frame[OF assms(3)]
        post_msg_def Let_def)
next
  case busy: False
  show ?thesis
  proof (cases "superseded_by opts q")
    case None
    show ?thesis using assms(2) entry_labelled[OF assms(1)]
      by (simp add: submit_queued[OF busy None] work_history_def labelled_def push_waiting_def Let_def)
  next
    case (Some i)
    then obtain xs w ys where x: "waiting q = xs @ w # ys" "length xs = i"
      and w: "w_key w = coalesceKey opts" "w_key w \<noteq> None" "\<forall>v\<in>set (w # ys). w_kind v = Kind_image"
      by (rule superseded_split)
    have m: "coalesceKey opts = key_of m" using assms(1) by (simp add: labels_def)
    have lab: "kind_of (w_msg v) = w_kind v" "key_of (w_msg v) = w_key v" if "v \<in> set (waiting q)" for v
      using assms(2) that by (simp_all add: labelled_def)
    let ?old = "map snd (outbox q) @ map w_msg xs" and ?ys = "map w_msg ys"
    have "fold effect (w_msg w # ?ys @ [m]) d' = fold effect (?ys @ [m]) d'" for d'
      using w m lab only_images_keyed[of m] by (intro overwrites) (auto simp: x)
    then have "fold effect (?old @ w_msg w # ?ys @ [m]) d = fold effect (?old @ ?ys @ [m]) d"
      by simp
    moreover have "work_history q = ?old @ w_msg w # ?ys" by (simp add: work_history_def x)
    ultimately show ?thesis using assms(2) entry_labelled[OF assms(1)]
      by (simp add: submit_coalesced[OF busy Some x] work_history_def labelled_def x
          push_waiting_def Let_def)
  qed
qed

fun op_labels :: "'m queue_op \<Rightarrow> bool" where
  "op_labels (Op_submit m opts) = labels m opts"
| "op_labels (Op_complete ids) = True"

lemma run_effect:
  assumes "queue_ok B q" "labelled q" "\<forall>x\<in>set ops. op_labels x" "0 < max_posted B"
    "fold effect (work_history q) d = fold effect ms d"
  shows "fold effect (work_history (snd (queue_run B ops (ms, q)))) d = fold effect (fst (queue_run B ops (ms, q))) d"
  using assms
proof (induction B ops "(ms, q)" arbitrary: ms q rule: queue_run.induct)
  case (2 B m opts ops ms q)
  obtain a q' where s: "submit B never m opts q = (a, q')" by fastforce
  have "queue_ok B q'" using submit_ok[OF 2(2,5), of never m opts] s by simp
  moreover have "labelled q' \<and> fold effect (work_history q') d
      = fold effect (work_history q @ (if a = Rejected then [] else [m])) d"
    using submit_effect[of m opts q B d] 2(2-4) s by (simp add: queue_ok_def)
  ultimately show ?case using 2(1)[OF s[symmetric]] 2(4-6) s by auto
next
  case (3 B ids ops ms q)
  have "queue_ok B (snd (queue_complete B never ids q))" using complete_ok[OF 3(2,5)] .
  moreover have "labelled (snd (queue_complete B never ids q))"
    using 3(3) complete_subset[of B never ids q] by (auto simp: labelled_def)
  ultimately show ?case using 3(1,4-6) by (simp add: history_complete)
qed simp

end

section \<open>Properties\<close>

text \<open>A small instance for the witnesses: one message in flight, two waiting, one of them a control.\<close>

definition small_budgets :: work_budgets where
  "small_budgets = \<lparr>max_posted = 1, max_posted_bytes = 10, max_pending = 1, max_pending_bytes = 10, controlReserve = 1\<rparr>"

definition image_opts :: "nat \<Rightarrow> string \<Rightarrow> string work_options" where
  "image_opts n k = \<lparr>work_kind = Kind_image, work_bytes = n, coalesceKey = Some k, snapshot = None\<rparr>"

definition two_images :: "string work_queue" where
  "two_images = snd (submit small_budgets never ''b'' (image_opts 5 ''k2'')
     (snd (submit small_budgets never ''a'' (image_opts 4 ''k1'') new_work_queue)))"

lemmas sample_defs = two_images_def small_budgets_def image_opts_def new_work_queue_def submit_def
  fitsPosted_def post_msg_def superseded_by_def supersededIndex_def push_waiting_def wait_entry_def Let_def

lemma two_images_reach: "queue_reach small_budgets two_images"
  unfolding two_images_def by (intro reach_step[OF reach_step[OF reach_new step_submit] step_submit])

lemma two_images_value:
  "map w_msg (waiting two_images) = [''b'']" "posted two_images = [(1, 4)]"
  by (simp_all add: sample_defs)

text \<open>C6. Whatever the host submits, completes or resets, and whichever posts throw, the
counters of the queue are the sums they stand for, both budgets hold, frames never use the
slots kept for control messages, ids in flight are never reused, and a waiting message
always has an acknowledgement ahead of it that will start it.\<close>

theorem work_queue_bounded:
  assumes "queue_reach B q" "0 < max_posted B"
  shows "postedBytes q = int (sum_list (vals_of (posted q))) \<and> postedBytes q \<le> int (max_posted_bytes B)
    \<and> length (posted q) \<le> max_posted B
    \<and> waitingBytes q = int (sum_list (map w_bytes (waiting q))) \<and> waitingBytes q \<le> int (max_pending_bytes B)
    \<and> length (waiting q) \<le> max_pending B + controlReserve B
    \<and> length (filter (\<lambda>w. w_kind w \<noteq> Kind_control) (waiting q)) \<le> max_pending B
    \<and> distinct (keys_of (posted q)) \<and> nextId q \<notin> set (keys_of (posted q))
    \<and> (waiting q \<noteq> [] \<longrightarrow> posted q \<noteq> [])"
  using reach_ok[OF assms(2,1)]
  unfolding queue_ok_def credits_ok_def waits_ok_def not_stuck_def by (intro conjI) auto

theorem work_queue_bounded_witness:
  "waitingBytes two_images = 5 \<and> waiting two_images \<noteq> [] \<and> posted two_images \<noteq> []"
  using work_queue_bounded[OF two_images_reach] two_images_value
  by (simp add: small_budgets_def) (simp add: sample_defs)

text \<open>A brightness, clear or mask change is never refused because of a backlog of frames:
a control message is rejected only when all the reserved slots hold other controls.\<close>

theorem control_not_crowded_out:
  assumes "queue_reach B q" "0 < max_posted B"
    and "work_kind opts = Kind_control" "work_bytes opts = 0" "coalesceKey opts = None"
    and "length (filter (\<lambda>w. w_kind w = Kind_control) (waiting q)) < controlReserve B"
  shows "fst (submit B throws m opts q) \<noteq> Rejected"
proof -
  have ok: "credits_ok B q" "waits_ok B q" using reach_ok[OF assms(2,1)] by (simp_all add: queue_ok_def)
  have "length (waiting q) < max_pending B + controlReserve B"
    using ok(2) assms(6) sum_length_filter_compl[of "\<lambda>w. w_kind w = Kind_control" "waiting q"]
    by (simp add: waits_ok_def)
  then have room: "has_room B opts (waiting q) (waitingBytes q)"
    using assms(3,4) ok(2) by (simp add: has_room_def waits_ok_def)
  have none: "superseded_by opts q = None" using assms(5) by (simp add: superseded_by_def)
  show ?thesis
    using submit_direct[OF ok(1), where opts = opts and throws = throws and m = m]
      submit_queued[OF _ none, where B = B and throws = throws and m = m] room assms(4)
    by (cases "waiting q = [] \<and> fitsPosted B (work_bytes opts) q") auto
qed

text \<open>A worker that acknowledges what it is given empties the queue: after one round more
than messages are waiting, nothing is posted and nothing waits, even if posts throw.\<close>

theorem acknowledged_queue_drains:
  assumes "queue_reach B q" "0 < max_posted B"
  shows "queue_isEmpty ((ack_all B throws ^^ Suc (length (waiting q))) q)"
proof -
  have ok: "queue_ok B q" using reach_ok[OF assms(2,1)] .
  let ?q = "(ack_all B throws ^^ length (waiting q)) q"
  have "waiting ?q = []" using ack_rounds_waiting[OF ok assms(2), of "length (waiting q)" throws] by simp
  then have "queue_isEmpty (ack_all B throws ?q)"
    by (rule ack_all_step(1)[OF ack_rounds_ok[OF ok assms(2)] assms(2)])
  then show ?thesis by simp
qed

end
