(* ===== verification/Image_Cache.thy ===== *)
theory Image_Cache
  imports Prelude
begin

text \<open>
  The cache of device-native images: \<^verbatim>\<open>LruCache\<close> in \<^verbatim>\<open>src/ts/src/transform/image-cache.ts\<close>.

  The JavaScript \<^verbatim>\<open>Map\<close> is an association list in insertion order, so its first entry is the least
  recently used one.  The limits and the size function of the constructor are the first
  argument of the operations.  The eviction loop of \<^verbatim>\<open>set\<close> would not end on an empty map with
  \<^verbatim>\<open>max\<close> 0, so it is a partial function; the lemmas show that it returns whenever \<^verbatim>\<open>max\<close> is
  positive, what it keeps, and that the cache never serves a stale value.
\<close>

section \<open>The cache\<close>

record 'v lru_limits =
  max_entries :: nat
  maxBytes :: nat
  sizeOf :: "'v \<Rightarrow> nat"

record ('k, 'v) lru =
  lru_map :: "('k \<times> 'v \<times> nat) list"
  lru_bytes :: int

definition new_lru :: "('k, 'v) lru" where
  "new_lru = \<lparr>lru_map = [], lru_bytes = 0\<rparr>"

definition lru_get :: "'k \<Rightarrow> ('k, 'v) lru \<Rightarrow> 'v option \<times> ('k, 'v) lru" where
  "lru_get k c =
     (case map_of (lru_map c) k of
        None \<Rightarrow> (None, c)
      | Some e \<Rightarrow> (Some (fst e), c\<lparr>lru_map := AList.update k e (AList.delete k (lru_map c))\<rparr>))"

definition lru_remove :: "'k \<Rightarrow> ('k, 'v) lru \<Rightarrow> ('k, 'v) lru" where
  "lru_remove k c =
     (case map_of (lru_map c) k of
        None \<Rightarrow> c
      | Some e \<Rightarrow> \<lparr>lru_map = AList.delete k (lru_map c), lru_bytes = lru_bytes c - int (snd e)\<rparr>)"

text \<open>On an empty map \<^verbatim>\<open>keys().next().value\<close> is undefined, which removes nothing.\<close>

definition lru_remove_first :: "('k, 'v) lru \<Rightarrow> ('k, 'v) lru" where
  "lru_remove_first c = (case lru_map c of [] \<Rightarrow> c | e # _ \<Rightarrow> lru_remove (fst e) c)"

definition lru_full :: "'v lru_limits \<Rightarrow> nat \<Rightarrow> ('k, 'v) lru \<Rightarrow> bool" where
  "lru_full L n c \<longleftrightarrow> max_entries L \<le> length (lru_map c) \<or> int (maxBytes L) < lru_bytes c + int n"

partial_function (option) lru_make_room :: "'v lru_limits \<Rightarrow> nat \<Rightarrow> ('k, 'v) lru \<Rightarrow> ('k, 'v) lru option" where
  "lru_make_room L n c = (if lru_full L n c then lru_make_room L n (lru_remove_first c) else Some c)"

declare lru_make_room.simps [simp del]

definition lru_set :: "'v lru_limits \<Rightarrow> 'k \<Rightarrow> 'v \<Rightarrow> ('k, 'v) lru \<Rightarrow> ('k, 'v) lru option" where
  "lru_set L k v c =
     (let c1 = lru_remove k c; n = sizeOf L v
      in if maxBytes L < n then Some c1
         else map_option (\<lambda>c2. \<lparr>lru_map = AList.update k (v, n) (lru_map c2), lru_bytes = lru_bytes c2 + int n\<rparr>)
                (lru_make_room L n c1))"

definition lru_clear :: "('k, 'v) lru \<Rightarrow> ('k, 'v) lru" where
  "lru_clear c = \<lparr>lru_map = [], lru_bytes = 0\<rparr>"

text \<open>The cache of the USB worker.\<close>

definition IMAGE_CACHE_SIZE :: nat where "IMAGE_CACHE_SIZE = 100"

definition IMAGE_CACHE_MAX_BYTES :: nat where "IMAGE_CACHE_MAX_BYTES = 32 * 1024 * 1024"

definition image_cache_limits :: "bytes lru_limits" where
  "image_cache_limits = \<lparr>max_entries = IMAGE_CACHE_SIZE, maxBytes = IMAGE_CACHE_MAX_BYTES, sizeOf = length\<rparr>"

definition makeCacheKey :: "string \<Rightarrow> string \<Rightarrow> string \<Rightarrow> string \<Rightarrow> string" where
  "makeCacheKey modelId jpegHash mode revision = modelId @ '':'' @ mode @ '':'' @ revision @ '':'' @ jpegHash"

section \<open>Accounting\<close>

definition entry_bytes :: "('k \<times> 'v \<times> nat) list \<Rightarrow> nat" where
  "entry_bytes m = sum_list (map (snd \<circ> snd) m)"

definition lru_counted :: "('k, 'v) lru \<Rightarrow> bool" where
  "lru_counted c \<longleftrightarrow> distinct (keys_of (lru_map c)) \<and> lru_bytes c = int (entry_bytes (lru_map c))"

definition lru_ok :: "'v lru_limits \<Rightarrow> ('k, 'v) lru \<Rightarrow> bool" where
  "lru_ok L c \<longleftrightarrow> lru_counted c \<and> length (lru_map c) \<le> max_entries L \<and> entry_bytes (lru_map c) \<le> maxBytes L"

lemma entry_bytes_simps [simp]:
  "entry_bytes [] = 0" "entry_bytes (e # m) = snd (snd e) + entry_bytes m"
  "entry_bytes (m @ m') = entry_bytes m + entry_bytes m'"
  by (simp_all add: entry_bytes_def)

lemma entry_bytes_delete:
  "distinct (keys_of m) \<Longrightarrow> map_of m k = Some e \<Longrightarrow> entry_bytes (AList.delete k m) + snd e = entry_bytes m"
  using om_sum_delete[of m k e snd] by (simp add: entry_bytes_def)

lemma delete_at_end: "k \<notin> set (keys_of m) \<Longrightarrow> AList.update k e m = m @ [(k, e)]"
  by (rule om_set_fresh) (simp add: map_of_eq_None_iff)

lemma remove_counted: "lru_counted c \<Longrightarrow> lru_counted (lru_remove k c)"
  using entry_bytes_delete[of "lru_map c" k]
  by (cases "map_of (lru_map c) k") (fastforce simp: lru_counted_def lru_remove_def)+

lemma remove_map: "lru_map (lru_remove k c) = AList.delete k (lru_map c)"
  by (auto simp: lru_remove_def om_delete_fresh split: option.split)

lemma get_counted: "lru_counted c \<Longrightarrow> lru_counted (snd (lru_get k c))
    \<and> length (lru_map (snd (lru_get k c))) = length (lru_map c)
    \<and> entry_bytes (lru_map (snd (lru_get k c))) = entry_bytes (lru_map c)"
  using entry_bytes_delete[of "lru_map c" k] om_delete_length[of "lru_map c" k]
  by (auto simp: lru_counted_def lru_get_def delete_at_end split: option.split)

text \<open>Eviction from a counted cache drops a prefix, the shortest that makes room.\<close>

lemma remove_first_counted:
  assumes "lru_counted c" "lru_map c = e # m"
  shows "lru_remove_first c = \<lparr>lru_map = m, lru_bytes = int (entry_bytes m)\<rparr>"
proof -
  have "map_of m (fst e) = None" using assms by (auto simp: lru_counted_def map_of_eq_None_iff)
  then show ?thesis using assms
    by (cases e) (simp add: lru_remove_first_def lru_remove_def om_delete_fresh lru_counted_def)
qed

lemma make_room_spec:
  assumes "lru_counted c" "0 < max_entries L" "n \<le> maxBytes L"
  shows "\<exists>j c'. lru_make_room L n c = Some c' \<and> lru_map c' = drop j (lru_map c) \<and> lru_counted c'
    \<and> \<not> lru_full L n c' \<and> j \<le> length (lru_map c)
    \<and> (\<forall>i<j. max_entries L \<le> length (drop i (lru_map c))
           \<or> maxBytes L < entry_bytes (drop i (lru_map c)) + n)"
  using assms
proof (induction "lru_map c" arbitrary: c)
  case Nil
  then have "\<not> lru_full L n c" by (auto simp: lru_full_def lru_counted_def)
  then show ?case using Nil by (subst lru_make_room.simps) (intro exI[of _ 0], simp)
next
  case (Cons e m)
  let ?c = "\<lparr>lru_map = m, lru_bytes = int (entry_bytes m)\<rparr>"
  show ?case
  proof (cases "lru_full L n c")
    case False
    then show ?thesis using Cons by (subst lru_make_room.simps) (intro exI[of _ 0], simp)
  next
    case True
    have f: "lru_remove_first c = ?c" using Cons(2) remove_first_counted[OF Cons(3), of e m] by simp
    have "lru_counted ?c" using Cons(2,3) by (auto simp: lru_counted_def dest: sym)
    from Cons(1)[of ?c, OF _ this Cons(4,5)] obtain j c' where
      j: "lru_make_room L n ?c = Some c'" "lru_map c' = drop j m" "lru_counted c'" "\<not> lru_full L n c'"
        "j \<le> length m"
        "\<forall>i<j. max_entries L \<le> length (drop i m) \<or> maxBytes L < entry_bytes (drop i m) + n"
      by auto
    have "max_entries L \<le> length (drop i (lru_map c)) \<or> maxBytes L < entry_bytes (drop i (lru_map c)) + n"
      if "i < Suc j" for i
      using that j(6) True Cons(3) Cons(2)[symmetric]
      by (cases i) (auto simp: lru_full_def lru_counted_def)
    then show ?thesis using j True f Cons(2)[symmetric]
      by (subst lru_make_room.simps) (intro exI[of _ "Suc j"], simp)
  qed
qed


lemma set_spec:
  assumes "lru_counted c" "0 < max_entries L"
  shows "\<exists>c'. lru_set L k v c = Some c' \<and> lru_counted c'
    \<and> (sizeOf L v \<le> maxBytes L \<longrightarrow> lru_ok L c'
         \<and> (\<exists>j. lru_map c' = drop j (AList.delete k (lru_map c)) @ [(k, v, sizeOf L v)]
              \<and> (\<forall>i<j. max_entries L \<le> length (drop i (AList.delete k (lru_map c)))
                   \<or> maxBytes L < entry_bytes (drop i (AList.delete k (lru_map c))) + sizeOf L v)))
    \<and> (maxBytes L < sizeOf L v \<longrightarrow> lru_map c' = AList.delete k (lru_map c))"
proof (cases "maxBytes L < sizeOf L v")
  case True
  then show ?thesis using remove_counted[OF assms(1), of k] by (simp add: lru_set_def remove_map)
next
  case False
  let ?c = "lru_remove k c" and ?n = "sizeOf L v"
  from make_room_spec[OF remove_counted[OF assms(1), of k] assms(2), of ?n] False
  obtain j c' where j: "lru_make_room L ?n ?c = Some c'" "lru_map c' = drop j (lru_map ?c)" "lru_counted c'"
    "\<not> lru_full L ?n c'"
    "\<forall>i<j. max_entries L \<le> length (drop i (lru_map ?c)) \<or> maxBytes L < entry_bytes (drop i (lru_map ?c)) + ?n"
    by auto
  have fresh: "k \<notin> set (keys_of (lru_map c'))"
  proof -
    have "k \<notin> fst ` set (AList.delete k (lru_map c))" by simp
    then show ?thesis using j(2) set_drop_subset[of j "AList.delete k (lru_map c)"]
      by (auto simp: remove_map simp del: keys_delete)
  qed
  let ?r = "\<lparr>lru_map = lru_map c' @ [(k, v, ?n)], lru_bytes = lru_bytes c' + int ?n\<rparr>"
  have "lru_set L k v c = Some ?r"
    using False j(1) fresh by (simp add: lru_set_def Let_def delete_at_end)
  moreover have "lru_counted ?r" using j(3) fresh by (auto simp: lru_counted_def)
  moreover have "lru_ok L ?r" using \<open>lru_counted ?r\<close> j(3,4)
    by (auto simp: lru_ok_def lru_full_def lru_counted_def)
  ultimately show ?thesis using False j(2,5) unfolding remove_map by (intro exI[of _ ?r]) auto
qed

section \<open>What a client may rely on\<close>

text \<open>
  A cache may forget, but what it returns is the value stored last.  A client that stores
  only right values therefore reads only right values.
\<close>

locale value_cache =
  fixes lookup :: "'c \<Rightarrow> 'k \<Rightarrow> 'v option" and get :: "'k \<Rightarrow> 'c \<Rightarrow> 'v option \<times> 'c"
    and store :: "'k \<Rightarrow> 'v \<Rightarrow> 'c \<Rightarrow> 'c option" and clear :: "'c \<Rightarrow> 'c" and cache_ok :: "'c \<Rightarrow> bool"
  assumes get_lookup: "cache_ok c \<Longrightarrow> get k c = (r, c') \<Longrightarrow> r = lookup c k \<and> cache_ok c' \<and> lookup c' k' = lookup c k'"
    and store_total: "cache_ok c \<Longrightarrow> \<exists>c'. store k v c = Some c' \<and> cache_ok c'"
    and store_lookup: "cache_ok c \<Longrightarrow> store k v c = Some c' \<Longrightarrow> lookup c' k' = Some w \<Longrightarrow>
      (if k' = k then w = v else lookup c k' = Some w)"
    and clear_lookup: "cache_ok c \<Longrightarrow> cache_ok (clear c) \<and> lookup (clear c) k = None"
begin

definition right_for :: "('k \<Rightarrow> 'v \<Rightarrow> bool) \<Rightarrow> 'c \<Rightarrow> bool" where
  "right_for R c \<longleftrightarrow> cache_ok c \<and> (\<forall>k v. lookup c k = Some v \<longrightarrow> R k v)"

lemma right_get:
  assumes "right_for R c" "get k c = (r, c')"
  shows "right_for R c'" "r = Some v \<Longrightarrow> R k v"
proof -
  have c: "cache_ok c" using assms(1) by (simp add: right_for_def)
  note g = get_lookup[OF c assms(2)]
  show "right_for R c'" using g assms(1) by (auto simp: right_for_def)
  show "R k v" if "r = Some v" using g assms(1) that by (auto simp: right_for_def)
qed

lemma right_store:
  assumes "right_for R c" "R k v"
  shows "\<exists>c'. store k v c = Some c' \<and> right_for R c'"
proof -
  obtain c' where c': "store k v c = Some c'" "cache_ok c'"
    using assms(1) store_total[of c k v] by (auto simp: right_for_def)
  have "R k' w" if "lookup c' k' = Some w" for k' w
    using store_lookup[OF _ c'(1) that] assms by (auto simp: right_for_def split: if_splits)
  then show ?thesis using c' by (auto simp: right_for_def)
qed

lemma right_clear: "cache_ok c \<Longrightarrow> right_for R (clear c)"
  using clear_lookup by (auto simp: right_for_def)

end

definition lru_lookup :: "('k, 'v) lru \<Rightarrow> 'k \<Rightarrow> 'v option" where
  "lru_lookup c k = map_option fst (map_of (lru_map c) k)"

lemma map_of_drop: "distinct (keys_of m) \<Longrightarrow> map_of (drop j m) k = Some e \<Longrightarrow> map_of m k = Some e"
  by (auto dest: map_of_SomeD in_set_dropD)

definition image_cache_ok :: "(string, bytes) lru \<Rightarrow> bool" where
  "image_cache_ok = lru_ok image_cache_limits"

text \<open>The LRU cache is such a cache, with the limits of the USB worker.\<close>

lemma lru_get_lookup:
  assumes "lru_ok L c" "lru_get k c = (r, c')"
  shows "r = lru_lookup c k \<and> lru_ok L c' \<and> lru_lookup c' k' = lru_lookup c k'"
proof -
  have "lru_ok L c'" using get_counted[of c k] assms by (auto simp: lru_ok_def)
  then show ?thesis using assms(2)
    by (auto simp: lru_get_def lru_lookup_def split: option.splits)
qed

lemma lru_set_lookup:
  assumes "lru_ok L c" "0 < max_entries L"
  shows "\<exists>c'. lru_set L k v c = Some c' \<and> lru_ok L c'
    \<and> (\<forall>k' w. lru_lookup c' k' = Some w \<longrightarrow> (if k' = k then w = v else lru_lookup c k' = Some w))"
proof -
  let ?m = "AList.delete k (lru_map c)"
  have counted: "lru_counted c" using assms(1) by (simp add: lru_ok_def)
  then have d: "distinct (keys_of ?m)" by (simp add: lru_counted_def)
  from set_spec[OF counted assms(2), of k v] obtain c' where c': "lru_set L k v c = Some c'" "lru_counted c'"
    "sizeOf L v \<le> maxBytes L \<Longrightarrow> lru_ok L c' \<and> (\<exists>j. lru_map c' = drop j ?m @ [(k, v, sizeOf L v)])"
    "maxBytes L < sizeOf L v \<Longrightarrow> lru_map c' = ?m" by auto
  show ?thesis
  proof (cases "sizeOf L v \<le> maxBytes L")
    case True
    then obtain j where j: "lru_map c' = drop j ?m @ [(k, v, sizeOf L v)]" "lru_ok L c'" using c'(3) by blast
    have "if k' = k then w = v else lru_lookup c k' = Some w" if "lru_lookup c' k' = Some w" for k' w
      using that j(1) map_of_drop[OF d, of j k']
      by (auto simp: lru_lookup_def map_add_def split: option.splits if_splits)
    then show ?thesis using c'(1) j(2) by blast
  next
    case False
    then have m: "lru_map c' = ?m" using c'(4) by simp
    have "length ?m \<le> length (lru_map c)" by (rule length_delete_le)
    moreover have "entry_bytes ?m \<le> entry_bytes (lru_map c)"
      using entry_bytes_delete[of "lru_map c" k] counted
      by (cases "map_of (lru_map c) k") (auto simp: lru_counted_def om_delete_fresh)
    ultimately have "lru_ok L c'" using assms(1) c'(2) by (simp add: lru_ok_def m)
    then show ?thesis using c'(1) by (auto simp: lru_lookup_def m)
  qed
qed

interpretation image_cache: value_cache lru_lookup lru_get "lru_set image_cache_limits" lru_clear image_cache_ok
proof unfold_locales
  have pos: "0 < max_entries image_cache_limits" by (simp add: image_cache_limits_def IMAGE_CACHE_SIZE_def)
  fix c :: "(string, bytes) lru" and k v
  assume ok: "image_cache_ok c"
  note ok' = ok[unfolded image_cache_ok_def]
  show "r = lru_lookup c k \<and> image_cache_ok c' \<and> lru_lookup c' k' = lru_lookup c k'"
    if "lru_get k c = (r, c')" for r c' k'
    using lru_get_lookup[OF ok' that] by (simp add: image_cache_ok_def)
  show "\<exists>c'. lru_set image_cache_limits k v c = Some c' \<and> image_cache_ok c'"
    using lru_set_lookup[OF ok' pos, of k v] by (auto simp: image_cache_ok_def)
  show "if k' = k then w = v else lru_lookup c k' = Some w"
    if "lru_set image_cache_limits k v c = Some c'" "lru_lookup c' k' = Some w" for c' k' w
    using lru_set_lookup[OF ok' pos, of k v] that by (auto split: if_splits)
  show "image_cache_ok (lru_clear c) \<and> lru_lookup (lru_clear c) k = None"
    by (simp add: lru_clear_def lru_lookup_def image_cache_ok_def lru_ok_def lru_counted_def)
qed

section \<open>Properties\<close>

datatype ('k, 'v) lru_op = Lru_get 'k | Lru_set 'k 'v | Lru_clear

fun lru_run :: "'v lru_limits \<Rightarrow> ('k, 'v) lru_op list \<Rightarrow> ('k, 'v) lru \<Rightarrow> ('k, 'v) lru option" where
  "lru_run L [] c = Some c"
| "lru_run L (Lru_get k # ops) c = lru_run L ops (snd (lru_get k c))"
| "lru_run L (Lru_set k v # ops) c = Option.bind (lru_set L k v c) (lru_run L ops)"
| "lru_run L (Lru_clear # ops) c = lru_run L ops (lru_clear c)"

text \<open>The value of the last \<^verbatim>\<open>set\<close> of a key that no later \<^verbatim>\<open>clear\<close> undid.\<close>

fun stored_last :: "('k, 'v) lru_op list \<Rightarrow> 'k \<Rightarrow> 'v option \<Rightarrow> 'v option" where
  "stored_last [] k s = s"
| "stored_last (Lru_get _ # ops) k s = stored_last ops k s"
| "stored_last (Lru_set k' v # ops) k s = stored_last ops k (if k' = k then Some v else s)"
| "stored_last (Lru_clear # ops) k s = stored_last ops k None"

lemma lru_run_spec:
  assumes "lru_ok L c" "0 < max_entries L" "\<And>k w. lru_lookup c k = Some w \<Longrightarrow> s k = Some w"
  shows "\<exists>c'. lru_run L ops c = Some c' \<and> lru_ok L c'
    \<and> (\<forall>k w. lru_lookup c' k = Some w \<longrightarrow> stored_last ops k (s k) = Some w)"
  using assms
proof (induction ops arbitrary: c s)
  case (Cons p ops)
  show ?case
  proof (cases p)
    case (Lru_get k)
    obtain r c1 where g: "lru_get k c = (r, c1)" by fastforce
    then have "lru_ok L c1" "\<And>k w. lru_lookup c1 k = Some w \<Longrightarrow> s k = Some w"
      using lru_get_lookup[OF Cons(2) g] Cons(4) by auto
    then show ?thesis using Cons.IH[OF _ Cons(3)] Lru_get g by simp
  next
    case (Lru_set k v)
    obtain c1 where c1: "lru_set L k v c = Some c1" "lru_ok L c1"
      "\<And>k' w. lru_lookup c1 k' = Some w \<Longrightarrow> (if k' = k then w = v else lru_lookup c k' = Some w)"
      using lru_set_lookup[OF Cons(2,3), of k v] by blast
    have "(s(k \<mapsto> v)) k' = Some w" if "lru_lookup c1 k' = Some w" for k' w
      using c1(3)[OF that] Cons(4) by (auto split: if_splits)
    from Cons.IH[of c1 "s(k \<mapsto> v)", OF c1(2) Cons(3) this] obtain c2 where "lru_run L ops c1 = Some c2" "lru_ok L c2"
      "\<forall>k' w. lru_lookup c2 k' = Some w \<longrightarrow> stored_last ops k' ((s(k \<mapsto> v)) k') = Some w" by blast
    then show ?thesis using Lru_set c1(1) by (auto split: if_splits)
  next
    case Lru_clear
    have "lru_ok L (lru_clear c)" by (simp add: lru_clear_def lru_ok_def lru_counted_def)
    moreover have "\<And>k w. lru_lookup (lru_clear c) k = Some w \<Longrightarrow> None = Some w"
      by (simp add: lru_clear_def lru_lookup_def)
    ultimately show ?thesis using Cons.IH[of "lru_clear c" "\<lambda>_. None", OF _ Cons(3)] Lru_clear by auto
  qed
qed auto

text \<open>C7. Any sequence of operations on a cache with room for an entry returns, keeps the
number of entries and the bytes they hold within the limits, and what the cache then serves
for a key is the value stored last for it, never one from before a \<^verbatim>\<open>clear\<close>.\<close>

theorem cache_bounded_never_stale:
  assumes "0 < max_entries L"
  shows "\<exists>c. lru_run L ops new_lru = Some c
    \<and> length (lru_map c) \<le> max_entries L \<and> lru_bytes c = int (entry_bytes (lru_map c))
    \<and> entry_bytes (lru_map c) \<le> maxBytes L
    \<and> (\<forall>k v. fst (lru_get k c) = Some v \<longrightarrow> stored_last ops k None = Some v)"
proof -
  have "lru_ok L new_lru" by (simp add: new_lru_def lru_ok_def lru_counted_def)
  moreover have "\<And>k w. lru_lookup new_lru k = Some w \<Longrightarrow> None = Some w"
    by (simp add: new_lru_def lru_lookup_def)
  ultimately obtain c where c: "lru_run L ops new_lru = Some c" "lru_ok L c"
    "\<forall>k w. lru_lookup c k = Some w \<longrightarrow> stored_last ops k None = Some w"
    using lru_run_spec[of L new_lru "\<lambda>_. None" ops] assms by blast
  moreover have "fst (lru_get k c) = lru_lookup c k" for k
    by (simp add: lru_get_def lru_lookup_def split: option.split)
  ultimately show ?thesis by (auto simp: lru_ok_def lru_counted_def)
qed

theorem cache_bounded_never_stale_witness:
  "\<exists>c. lru_run image_cache_limits [Lru_set ''a'' [1], Lru_set ''a'' [2, 3], Lru_get ''a''] new_lru = Some c
     \<and> (fst (lru_get ''a'' c) = None \<or> fst (lru_get ''a'' c) = Some [2, 3])"
proof -
  have "0 < max_entries image_cache_limits" by (simp add: image_cache_limits_def IMAGE_CACHE_SIZE_def)
  from cache_bounded_never_stale[OF this, of "[Lru_set ''a'' [1], Lru_set ''a'' [2, 3], Lru_get ''a'']"]
  obtain c where c: "lru_run image_cache_limits [Lru_set ''a'' [1], Lru_set ''a'' [2, 3], Lru_get ''a''] new_lru = Some c"
    "\<forall>k v. fst (lru_get k c) = Some v \<longrightarrow>
       stored_last [Lru_set ''a'' [1], Lru_set ''a'' [2, 3], Lru_get ''a''] k None = Some v"
    by blast
  from c(2)[rule_format, of "''a''"] c(1) show ?thesis
    by (cases "fst (lru_get ''a'' c)") (auto simp del: lru_run.simps)
qed

text \<open>Storing an image that fits always returns, puts it last, and evicts the least
recently used others one by one, no more of them than the limits force; an image over the
byte limit is not stored and evicts nothing but the entry it replaces.\<close>

theorem cache_evicts_oldest:
  assumes "lru_ok L c" "0 < max_entries L"
  shows "\<exists>c'. lru_set L k v c = Some c'
    \<and> (if sizeOf L v \<le> maxBytes L
       then \<exists>j. lru_map c' = drop j (AList.delete k (lru_map c)) @ [(k, v, sizeOf L v)]
              \<and> (\<forall>i<j. max_entries L \<le> length (drop i (AList.delete k (lru_map c)))
                   \<or> maxBytes L < entry_bytes (drop i (AList.delete k (lru_map c))) + sizeOf L v)
       else lru_map c' = AList.delete k (lru_map c))"
  using set_spec[OF _ assms(2), of c k v] assms(1) unfolding lru_ok_def by (auto simp: not_le)

end
