(* ===== verification/Image_Hash.thy ===== *)
theory Image_Hash
  imports Buffer_Shim
begin

text \<open>
  The frame hash (\<^verbatim>\<open>src/ts/src/shared/image-hash.ts\<close>) and the FNV-1a text hash of
  \<^verbatim>\<open>shared/types.ts\<close>.

  \<^verbatim>\<open>Math.imul\<close> followed by \<^verbatim>\<open>>>> 0\<close> is multiplication of 32-bit words.  The view of the buffer as
  32-bit words is the little-endian one of the supported hosts.  The lemmas show that every
  mixing step is a bijection, so that two frames of one length that differ in a single word
  never share a hash.
\<close>

section \<open>The hashes\<close>

abbreviation (input) FNV_PRIME :: "32 word" where "FNV_PRIME \<equiv> 0x01000193"
abbreviation (input) FNV_BASIS :: "32 word" where "FNV_BASIS \<equiv> 0x811c9dc5"

definition fnv_step :: "32 word \<Rightarrow> 32 word \<Rightarrow> 32 word" where
  "fnv_step h x = (h XOR x) * FNV_PRIME"

definition fnv1aRange :: "bytes \<Rightarrow> 32 word \<Rightarrow> 32 word" where
  "fnv1aRange bs h = fold (\<lambda>b h. fnv_step h (ucast b)) bs h"

definition xorshift :: "nat \<Rightarrow> 32 word \<Rightarrow> 32 word" where
  "xorshift n h = h XOR drop_bit n h"

definition fmix32 :: "32 word \<Rightarrow> 32 word" where
  "fmix32 h = xorshift 16 (xorshift 13 (xorshift 16 h * 0x85ebca6b) * 0xc2b2ae35)"

definition word_step :: "32 word \<Rightarrow> 32 word \<Rightarrow> 32 word" where
  "word_step h w = xorshift 15 (fnv_step h w)"

text \<open>The buffer as 32-bit words; the last, incomplete one is left out.\<close>

fun u32_view :: "bytes \<Rightarrow> 32 word list" where
  "u32_view (a # b # c # d # bs) =
     (ucast a OR push_bit 8 (ucast b) OR push_bit 16 (ucast c) OR push_bit 24 (ucast d)) # u32_view bs"
| "u32_view _ = []"

definition hash_bits :: "bytes \<Rightarrow> 32 word" where
  "hash_bits bs =
     (let h = (FNV_BASIS XOR of_nat (length bs)) * FNV_PRIME;
          n = length bs div 4;
          h = fold (\<lambda>w h. word_step h w) (u32_view bs) h;
          h = fnv1aRange (drop (4 * n) bs) h
      in fmix32 h)"

fun toString16 :: "nat \<Rightarrow> string" where
  "toString16 n = (if n < 16 then [hex_digit n] else toString16 (n div 16) @ [hex_digit (n mod 16)])"

declare toString16.simps [simp del]

definition padStart :: "nat \<Rightarrow> char \<Rightarrow> string \<Rightarrow> string" where
  "padStart n c s = replicate (n - length s) c @ s"

definition hashJpeg :: "bytes \<Rightarrow> string" where
  "hashJpeg bs = padStart 8 (CHR ''0'') (toString16 (unat (hash_bits bs)))"

definition fnv1a :: "string \<Rightarrow> 32 word" where
  "fnv1a text = fold (\<lambda>c h. fnv_step h (of_nat (of_char c))) text FNV_BASIS"

definition fnv1aHex :: "string \<Rightarrow> string" where
  "fnv1aHex text = padStart 8 (CHR ''0'') (toString16 (unat (fnv1a text)))"

section \<open>Every mixing step is injective\<close>

lemma mult_inverse_inj:
  fixes p q :: "32 word"
  assumes "p * q = 1"
  shows "x * p = y * p \<longleftrightarrow> x = y"
proof
  assume "x * p = y * p"
  then have "x * p * q = y * p * q" by simp
  then show "x = y" using assms by (simp add: mult.assoc)
qed simp

lemma mult_prime_inj [simp]: "x * FNV_PRIME = y * FNV_PRIME \<longleftrightarrow> x = (y :: 32 word)"
  by (rule mult_inverse_inj[of _ "0x359c449b"]) simp

lemma xor_left_inj [simp]: "x XOR (h :: 32 word) = y XOR h \<longleftrightarrow> x = y"
proof
  assume "x XOR h = y XOR h"
  then have "(x XOR h) XOR h = (y XOR h) XOR h" by (rule arg_cong)
  then show "x = y" by (simp only: xor.assoc xor_self_eq xor.right_neutral)
qed simp

lemma xor_right_inj [simp]: "h XOR (x :: 32 word) = h XOR y \<longleftrightarrow> x = y"
  using xor_left_inj[of x h y] by (simp only: xor.commute)

lemma fnv_step_inj:
  "fnv_step h x = fnv_step h y \<longleftrightarrow> x = y" "fnv_step h x = fnv_step k x \<longleftrightarrow> h = k"
  by (simp_all add: fnv_step_def)

lemma drop_bit_fixed: "0 < n \<Longrightarrow> drop_bit n (d :: 32 word) = d \<Longrightarrow> d = 0"
proof (rule ccontr)
  assume n: "0 < n" and e: "drop_bit n d = d" and "d \<noteq> 0"
  then have "0 < unat d" by (simp add: unat_gt_0)
  moreover have "unat d div 2 ^ n = unat d" using arg_cong[OF e, of unat] by (simp only: unat_drop_bit_eq) (simp only: drop_bit_eq_div)
  moreover have "unat d div 2 ^ n < unat d" using calculation(1) one_less_power[of "2::nat", OF _ n] by (intro div_less_dividend) simp_all
  ultimately show False by simp
qed

lemma xor_zero_eq: "x XOR y = 0 \<longleftrightarrow> x = (y :: 32 word)"
  using xor_right_inj[of x x y] by (simp only: xor_self_eq eq_commute)

lemma xor_swap: "(a XOR b) XOR (c XOR d) = (a XOR c) XOR (b XOR d :: 32 word)"
  by (simp only: xor.assoc xor.left_commute)

lemma xorshift_inj: "0 < n \<Longrightarrow> xorshift n h = xorshift n k \<longleftrightarrow> h = k"
proof
  assume n: "0 < n" and "xorshift n h = xorshift n k"
  then have "(h XOR drop_bit n h) XOR (k XOR drop_bit n k) = 0" by (simp add: xorshift_def)
  then have "(h XOR k) XOR drop_bit n (h XOR k) = 0"
    unfolding drop_bit_xor by (rule trans[OF xor_swap])
  then have "drop_bit n (h XOR k) = h XOR k" unfolding xor_zero_eq by (rule sym)
  from drop_bit_fixed[OF n this] show "h = k" unfolding xor_zero_eq .
qed simp

lemma fmix32_inj: "fmix32 h = fmix32 k \<longleftrightarrow> h = k"
proof -
  have a: "x * 0x85ebca6b = y * 0x85ebca6b \<longleftrightarrow> x = y" for x y :: "32 word"
    by (rule mult_inverse_inj[of _ "0xa5cb9243"]) simp
  have b: "x * 0xc2b2ae35 = y * 0xc2b2ae35 \<longleftrightarrow> x = y" for x y :: "32 word"
    by (rule mult_inverse_inj[of _ "0x7ed1b41d"]) simp
  show ?thesis by (simp add: fmix32_def xorshift_inj a b)
qed

lemma word_step_inj:
  "word_step h x = word_step h y \<longleftrightarrow> x = y" "word_step h x = word_step k x \<longleftrightarrow> h = k"
  by (simp_all add: word_step_def xorshift_inj fnv_step_inj)

lemma fold_inj:
  assumes "\<And>x h k. f x h = f x k \<longleftrightarrow> h = k"
  shows "fold f xs h = fold f xs k \<longleftrightarrow> h = k"
  by (induction xs arbitrary: h k) (simp_all add: assms)


section \<open>Fixed-width hexadecimal\<close>

fun hex_value :: "string \<Rightarrow> nat" where
  "hex_value s = foldl (\<lambda>n c. 16 * n + the (List.find (\<lambda>d. hex_digit d = c) [0..<16])) 0 s"

lemma hex_digit_find: "d < 16 \<Longrightarrow> List.find (\<lambda>e. hex_digit e = hex_digit d) [0..<16] = Some d"
proof -
  assume "d < 16"
  then have "d \<in> set [0..<16]" by simp
  then show ?thesis by (auto simp: hex_digit_def upt_rec)
qed

lemma hex_value_toString: "hex_value (toString16 n) = n"
proof (induction n rule: toString16.induct)
  case (1 n)
  show ?case
  proof (cases "n < 16")
    case True
    then show ?thesis by (subst toString16.simps) (simp add: hex_digit_find del: upt_Suc)
  next
    case False
    then show ?thesis using 1[OF False]
      by (subst toString16.simps) (simp add: hex_digit_find del: upt_Suc)
  qed
qed

lemma hex_value_zeros: "hex_value (replicate k (CHR ''0'') @ s) = hex_value s"
proof -
  have z: "List.find (\<lambda>d. hex_digit d = CHR ''0'') [0..<16] = Some 0"
    by (simp add: hex_digit_def upt_rec)
  have "foldl (\<lambda>n c. 16 * n + the (List.find (\<lambda>d. hex_digit d = c) [0..<16])) 0 (replicate k (CHR ''0'')) = 0"
    by (induction k) (simp_all add: z del: upt_Suc)
  then show ?thesis by (simp del: upt_Suc)
qed

lemma hex_value_hash: "hex_value (padStart n (CHR ''0'') (toString16 m)) = m"
  by (simp only: padStart_def hex_value_zeros hex_value_toString)

lemma hashJpeg_bits: "hashJpeg a = hashJpeg b \<longleftrightarrow> hash_bits a = hash_bits b"
proof
  assume "hashJpeg a = hashJpeg b"
  then have "unat (hash_bits a) = unat (hash_bits b)"
    unfolding hashJpeg_def by (metis hex_value_hash)
  then show "hash_bits a = hash_bits b" by (rule unsigned_word_eqI)
qed (simp add: hashJpeg_def)

section \<open>One changed word changes the hash\<close>

lemma u32_view_append: "length p mod 4 = 0 \<Longrightarrow> u32_view (p @ bs) = u32_view p @ u32_view bs"
proof (induction p rule: u32_view.induct)
  case (1 a b c d p)
  then have "length p mod 4 = 0" by simp
  then show ?case using 1(1) by simp
qed simp_all

lemma u32_bits:
  fixes a b c d :: byte
  defines "w \<equiv> ucast a OR push_bit 8 (ucast b) OR push_bit 16 (ucast c) OR push_bit 24 (ucast d) :: 32 word"
  assumes "n < 8"
  shows "bit w n = bit a n" "bit w (n + 8) = bit b n" "bit w (n + 16) = bit c n" "bit w (n + 24) = bit d n"
  using assms(2) unfolding w_def
  by (auto simp: bit_or_iff bit_push_bit_iff bit_unsigned_iff dest: bit_imp_le_length)

lemma u32_view_word_inj:
  assumes "length u = 4" "length v = 4" "u32_view u = u32_view v"
  shows "u = v"
proof -
  obtain a b c d where u: "u = [a, b, c, d]" using assms(1) by (auto simp: length_Suc_conv numeral_eq_Suc)
  obtain a' b' c' d' where v: "v = [a', b', c', d']" using assms(2) by (auto simp: length_Suc_conv numeral_eq_Suc)
  have "bit a n = bit a' n \<and> bit b n = bit b' n \<and> bit c n = bit c' n \<and> bit d n = bit d' n" if n: "n < 8" for n
    using u32_bits[OF n, of a b c d] u32_bits[OF n, of a' b' c' d'] assms(3) by (simp add: u v)
  then show ?thesis by (auto simp: u v intro!: bit_word_eqI)
qed

lemma Suc4_div: "4 * ((4 + n) div 4) = Suc (Suc (Suc (Suc (4 * (n div (4 :: nat))))))"
  by presburger

lemma u32_view_take: "u32_view (take (4 * (length bs div 4)) bs) = u32_view bs"
proof (induction bs rule: u32_view.induct)
  case (1 a b c d bs)
  have "4 * (length (a # b # c # d # bs) div 4) = Suc (Suc (Suc (Suc (4 * (length bs div 4)))))"
    by (simp add: Suc4_div)
  then show ?case using 1 by (simp only: take_Suc_Cons u32_view.simps)
qed simp_all

lemma u32_view_tail:
  assumes "4 * (length bs div 4) \<le> length p" "length bs = length bs'" "take (length p) bs = p" "take (length p) bs' = p"
  shows "u32_view bs = u32_view bs'"
proof -
  have "take (4 * (length bs div 4)) bs = take (4 * (length bs div 4)) bs'"
    using assms(1,3,4) by (metis min.absorb1 take_take)
  then show ?thesis using u32_view_take[of bs] u32_view_take[of bs'] assms(2) by simp
qed

definition hash_start :: "nat \<Rightarrow> 32 word" where
  "hash_start n = (FNV_BASIS XOR of_nat n) * FNV_PRIME"

lemma hash_bits_eq:
  "hash_bits bs = hash_bits bs' \<longleftrightarrow>
     fnv1aRange (drop (4 * (length bs div 4)) bs) (fold (\<lambda>w h. word_step h w) (u32_view bs) (hash_start (length bs)))
     = fnv1aRange (drop (4 * (length bs' div 4)) bs') (fold (\<lambda>w h. word_step h w) (u32_view bs') (hash_start (length bs')))"
  by (simp add: hash_bits_def Let_def fmix32_inj hash_start_def)

lemma fold_words_inj [simp]:
  "fold (\<lambda>w h. word_step h w) ws h = fold (\<lambda>w h. word_step h w) ws k \<longleftrightarrow> h = k"
  by (rule fold_inj) (rule word_step_inj)

lemma range_inj [simp]: "fnv1aRange bs h = fnv1aRange bs k \<longleftrightarrow> h = k"
  unfolding fnv1aRange_def by (rule fold_inj) (rule fnv_step_inj)

lemma range_append: "fnv1aRange (a @ b) h = fnv1aRange b (fnv1aRange a h)"
  by (simp add: fnv1aRange_def)

lemma unat_byte_32: "unat (ucast (b :: byte) :: 32 word) = unat b"
  using byte_less[of b] by (simp add: unsigned_ucast_eq take_bit_eq_mod)

lemma ucast_byte_inj: "(ucast a :: 32 word) = ucast b \<longleftrightarrow> a = (b :: byte)"
proof
  assume "(ucast a :: 32 word) = ucast b"
  then have "unat (ucast a :: 32 word) = unat (ucast b :: 32 word)" by (rule arg_cong)
  then show "a = b" by (simp only: unat_byte_32 unsigned_word_eqI)
qed simp

lemma range_Cons: "fnv1aRange (b # bs) h = fnv1aRange bs (fnv_step h (ucast b))"
  by (simp add: fnv1aRange_def)

lemma u32_view_one: "length u = 4 \<Longrightarrow> \<exists>x. u32_view u = [x]"
  by (cases u rule: u32_view.cases) simp_all

lemma word_boundary: "m mod 4 = 0 \<Longrightarrow> m + 4 \<le> 4 * ((m + (4 + k)) div (4 :: nat))"
  by presburger

text \<open>Two frames of one length that differ in a single aligned 32-bit word, or in a single
byte of the incomplete last word, never have the same hash, so the image cache never serves
the one for the other and the page tracker tells them apart.\<close>

theorem one_word_changes_hash:
  assumes "u \<noteq> v" "length u = length v"
    and "length u = 4 \<and> length p mod 4 = 0 \<or> length u = 1 \<and> 4 * (length (p @ u @ s) div 4) \<le> length p"
  shows "hashJpeg (p @ u @ s) \<noteq> hashJpeg (p @ v @ s)"
proof -
  let ?a = "p @ u @ s" and ?b = "p @ v @ s" and ?n = "4 * (length (p @ u @ s) div 4)"
  have len: "length ?b = length ?a" using assms(2) by simp
  show ?thesis
  proof (cases "length u = 4 \<and> length p mod 4 = 0")
    case True
    then have v4: "length v = 4" using assms(2) by simp
    have "length p + 4 \<le> ?n" using True word_boundary[of "length p" "length s"] by simp
    then have tail: "drop ?n ?a = drop ?n ?b" using True v4 by simp
    obtain x y where x: "u32_view u = [x]" and y: "u32_view v = [y]"
      using True v4 u32_view_one by blast
    have "x \<noteq> y" using u32_view_word_inj[of u v] True v4 x y assms(1) by auto
    moreover have "u32_view ?a = u32_view p @ x # u32_view s" "u32_view ?b = u32_view p @ y # u32_view s"
      using True v4 x y by (simp_all add: u32_view_append)
    ultimately show ?thesis
      unfolding hashJpeg_bits hash_bits_eq len using tail by (simp add: word_step_inj)
  next
    case False
    then have t: "length u = 1" "?n \<le> length p" using assms(3) by auto
    obtain x where x: "u = [x]" using t(1) by (auto simp: length_Suc_conv)
    obtain y where y: "v = [y]" using t(1) assms(2) by (auto simp: length_Suc_conv)
    have xy: "u = [x]" "v = [y]" "x \<noteq> y" using x y assms(1) by auto
    have "u32_view ?a = u32_view ?b" using t by (intro u32_view_tail[of _ p]) (simp_all add: xy)
    moreover have "drop ?n ?a = drop ?n p @ x # s" "drop ?n ?b = drop ?n p @ y # s" using t xy by simp_all
    ultimately show ?thesis
      unfolding hashJpeg_bits hash_bits_eq len
      using xy(3) by (simp add: range_append range_Cons ucast_byte_inj fnv_step_inj)
  qed
qed

end
