(* ===== verification/Image_Render.thy ===== *)
theory Image_Render
  imports Complex_Main Image_Assembler Image_Cache Image_Hash
begin

text \<open>
  Worker-side rendering: \<^verbatim>\<open>src/ts/src/transform/translator.ts\<close>, \<^verbatim>\<open>transform/image-render.ts\<close>
  and the key maps of \<^verbatim>\<open>shared/key-map.ts\<close>.

  The image library behind the foreign-function interface is a parameter: \<open>native_image\<close> holds its two
  functions and \<^verbatim>\<open>JSON.stringify\<close> of an image spec.  The device is a state \<open>'d\<close> with the driver's
  \<^verbatim>\<open>sendImage\<close> as a function on it that may throw.  Diagnostic dumps, performance counters
  and log lines are left out.  JavaScript numbers with a fraction (quality, blur, sharpen) are
  rationals; \<^verbatim>\<open>Math.round\<close> is \<open>\<lfloor>x + 1/2\<rfloor>\<close>.

  The lemmas show that the pixel copy into a BMP is exact, that the output buffer grows until
  the result fits, that the cache cannot be observed on the device, and that a strip zone
  DeckBridge owns is never painted by the app.
\<close>

declare split_paired_All [simp del] split_paired_Ex [simp del]

section \<open>Models\<close>

datatype resize_filter = Filter_triangle | Filter_nearest | Filter_lanczos3
datatype resize_mode = Mode_resize | Mode_pad | Mode_crop
datatype pad_fill = Fill_black | Fill_average | Fill_edge
datatype image_transform = Passthrough | Sidecar

record crop_rect =
  crop_x :: int
  crop_y :: int
  crop_width :: int
  crop_height :: int

record image_spec =
  sp_format :: image_format
  sp_width :: int
  sp_height :: int
  sp_rotate :: nat
  sp_flipH :: bool
  sp_flipV :: bool
  sp_bgr :: bool
  sp_bmpPpm :: "nat option"
  sp_maxBytes :: nat
  sp_quality :: rat
  sp_blur :: "rat option"
  sp_sharpen :: "rat option"
  sp_crop :: "int option"
  sp_cropRect :: "crop_rect option"
  sp_resizeFilter :: "resize_filter option"
  sp_resizeMode :: "resize_mode option"
  sp_padFill :: "pad_fill option"
  sp_transform :: image_transform

record key_map =
  coraToWireImage :: "int list option"
  wireInputToCora :: "int list option"
  inputOffset :: "int option"
  imageOffset :: "int option"
  extraKeys :: "int list option"
  extraKeyInputs :: "int list option"

record widget_display =
  wd_wireId :: int
  wd_image :: image_spec
  wd_stripX :: "int option"

record strip_display =
  sd_wireId :: int
  sd_image :: image_spec

text \<open>The fields of \<^verbatim>\<open>DeviceModel\<close> that rendering and batching read.\<close>

record device_model =
  dm_id :: string
  dm_image :: image_spec
  dm_keyMap :: key_map
  dm_batchProtocol :: bool
  dm_batchImages :: bool
  dm_hasSleep :: bool
  widgetDisplays :: "widget_display list option"
  touchStripDisplay :: "strip_display option"

definition imageBatchingEnabled :: "device_model \<Rightarrow> bool" where
  "imageBatchingEnabled m \<longleftrightarrow> dm_batchProtocol m \<and> dm_batchImages m"

section \<open>Key maps\<close>

definition or_else :: "'a option \<Rightarrow> 'a \<Rightarrow> 'a" where
  "or_else v d = (case v of Some x \<Rightarrow> x | None \<Rightarrow> d)"

definition js_nth :: "'a list \<Rightarrow> int \<Rightarrow> 'a option" where
  "js_nth xs i = (if 0 \<le> i \<and> i < int (length xs) then Some (xs ! nat i) else None)"

definition mk2IndexToDeviceImgId :: "int \<Rightarrow> key_map \<Rightarrow> int" where
  "mk2IndexToDeviceImgId i km =
     (case coraToWireImage km of
        Some arr \<Rightarrow> or_else (js_nth arr i) (- 1)
      | None \<Rightarrow> (case imageOffset km of Some off \<Rightarrow> i + off | None \<Rightarrow> i))"

definition deviceInputToMk2Index :: "int \<Rightarrow> key_map \<Rightarrow> int" where
  "deviceInputToMk2Index code km =
     (case wireInputToCora km of
        Some arr \<Rightarrow> or_else (js_nth arr code) (- 1)
      | None \<Rightarrow> (case inputOffset km of Some off \<Rightarrow> code - off | None \<Rightarrow> code))"

text \<open>\<^verbatim>\<open>indexOf\<close> on an array of numbers.\<close>

fun index_of :: "'a \<Rightarrow> 'a list \<Rightarrow> nat option" where
  "index_of x [] = None"
| "index_of x (y # ys) = (if y = x then Some 0 else map_option Suc (index_of x ys))"

definition deviceInputToExtraKey :: "int \<Rightarrow> key_map \<Rightarrow> int" where
  "deviceInputToExtraKey code km =
     (case Option.bind (extraKeyInputs km) (index_of code) of
        None \<Rightarrow> - 1
      | Some i \<Rightarrow> or_else (Option.bind (extraKeys km) (\<lambda>ks. js_nth ks (int i))) (- 1))"

section \<open>The native transform\<close>

definition js_round :: "rat \<Rightarrow> int" where
  "js_round x = \<lfloor>x + 1 / 2\<rfloor>"

definition FILL_CROP_OVERSIZE :: nat where "FILL_CROP_OVERSIZE = 4"

definition resizeFilterFor :: "image_spec \<Rightarrow> nat" where
  "resizeFilterFor sp = (case sp_resizeFilter sp of Some Filter_nearest \<Rightarrow> 1 | Some Filter_lanczos3 \<Rightarrow> 2 | _ \<Rightarrow> 0)"

definition fillModeFor :: "image_spec \<Rightarrow> nat" where
  "fillModeFor sp =
     (case or_else (sp_resizeMode sp) Mode_resize of
        Mode_resize \<Rightarrow> 0
      | mode \<Rightarrow>
          (let crop = (if mode = Mode_crop then FILL_CROP_OVERSIZE else 0)
           in case or_else (sp_padFill sp) Fill_edge of
                Fill_black \<Rightarrow> 1 + crop | Fill_average \<Rightarrow> 2 + crop | Fill_edge \<Rightarrow> 3 + crop))"

definition NO_REGION :: crop_rect where
  "NO_REGION = \<lparr>crop_x = 0, crop_y = 0, crop_width = 0, crop_height = 0\<rparr>"

record transform_args =
  ta_width :: int
  ta_height :: int
  ta_maxBytes :: nat
  ta_quality :: int
  ta_skipResize :: nat
  ta_rotate :: nat
  ta_flipH :: nat
  ta_flipV :: nat
  ta_bmp :: nat
  ta_ppm :: nat
  ta_blur :: int
  ta_filter :: nat
  ta_sharpen :: int
  ta_fill :: nat
  ta_crop :: int
  ta_region :: crop_rect

definition transform_args_of :: "image_spec \<Rightarrow> transform_args" where
  "transform_args_of sp =
     \<lparr>ta_width = sp_width sp, ta_height = sp_height sp, ta_maxBytes = sp_maxBytes sp,
      ta_quality = js_round (sp_quality sp * 100), ta_skipResize = 0, ta_rotate = sp_rotate sp,
      ta_flipH = of_bool (sp_flipH sp), ta_flipV = of_bool (sp_flipV sp),
      ta_bmp = of_bool (sp_format sp = Bmp), ta_ppm = or_else (sp_bmpPpm sp) 2835,
      ta_blur = js_round (or_else (sp_blur sp) 0 * 10), ta_filter = resizeFilterFor sp,
      ta_sharpen = js_round (or_else (sp_sharpen sp) 0 * 10), ta_fill = fillModeFor sp,
      ta_crop = or_else (sp_crop sp) 0, ta_region = or_else (sp_cropRect sp) NO_REGION\<rparr>"

text \<open>
  A call of the library returns a length and the bytes of the output buffer up to it, \<open>-2\<close> for
  a buffer that is too small, or another negative number and the error buffer.  Drawing an image
  into the canvas returns its error, if any, and the canvas as it left it.
\<close>

datatype proc_result = Proc_done bytes | Proc_too_small | Proc_error int bytes

datatype image_error = Image_proc_error int bytes | Output_exceeds_cap | Device_error string

record native_image =
  proc_transform :: "bytes \<Rightarrow> transform_args \<Rightarrow> nat \<Rightarrow> proc_result"
  proc_blit :: "bytes \<Rightarrow> nat \<Rightarrow> nat \<Rightarrow> bytes \<Rightarrow> nat \<Rightarrow> nat \<Rightarrow> (int \<times> bytes) option \<times> bytes"
  json_spec :: "image_spec \<Rightarrow> string"

definition OUT_INITIAL_BYTES :: nat where "OUT_INITIAL_BYTES = 256 * 1024"
definition OUT_MAX_BYTES :: nat where "OUT_MAX_BYTES = 4 * 1024 * 1024"

text \<open>The text of the error buffer ends at its first 0.\<close>

definition throwImageProcError :: "int \<Rightarrow> bytes \<Rightarrow> image_error" where
  "throwImageProcError n err = Image_proc_error n (takeWhile (\<lambda>b. b \<noteq> 0) err)"

definition growOut :: "nat \<Rightarrow> nat option" where
  "growOut out_len = (if OUT_MAX_BYTES \<le> out_len then None else Some (out_len * 2))"

text \<open>The retry loop, with the length of the scratch buffer, which stays grown.  (An empty scratch
buffer would never grow; the module starts with a non-empty one.)\<close>

partial_function (option) transform_loop ::
  "native_image \<Rightarrow> bytes \<Rightarrow> transform_args \<Rightarrow> nat \<Rightarrow> ((image_error + bytes) \<times> nat) option" where
  "transform_loop N img args out_len =
     (case proc_transform N img args out_len of
        Proc_done bs \<Rightarrow> Some (Inr bs, out_len)
      | Proc_error n err \<Rightarrow> Some (Inl (throwImageProcError n err), out_len)
      | Proc_too_small \<Rightarrow>
          (case growOut out_len of
             None \<Rightarrow> Some (Inl Output_exceeds_cap, out_len)
           | Some n \<Rightarrow> transform_loop N img args n))"

declare transform_loop.simps [simp del]

definition transformImageForDevice ::
  "native_image \<Rightarrow> bytes \<Rightarrow> image_spec \<Rightarrow> nat \<Rightarrow> ((image_error + bytes) \<times> nat) option" where
  "transformImageForDevice N img sp out_len = transform_loop N img (transform_args_of sp) out_len"

section \<open>One zone of the strip as a BMP\<close>

definition bmp_row_bytes :: "nat \<Rightarrow> nat" where
  "bmp_row_bytes w = 4 * ((w * 3 + 3) div 4)"

text \<open>The stores of the inner loop for one column and of the loop over the rows.\<close>

definition bmp_pixel :: "bytes \<Rightarrow> nat \<Rightarrow> nat \<Rightarrow> nat \<Rightarrow> bytes \<Rightarrow> bytes" where
  "bmp_pixel canvas src dst col bmp =
     put (put (put bmp (dst + col * 3) (at0 canvas (src + col * 3 + 2)))
            (dst + col * 3 + 1) (at0 canvas (src + col * 3 + 1)))
       (dst + col * 3 + 2) (at0 canvas (src + col * 3))"

definition bmp_row :: "bytes \<Rightarrow> nat \<Rightarrow> nat \<Rightarrow> nat \<Rightarrow> nat \<Rightarrow> nat \<Rightarrow> bytes \<Rightarrow> bytes" where
  "bmp_row canvas cw ch x w row bmp =
     fold (bmp_pixel canvas ((row * cw + x) * 3) (54 + (ch - 1 - row) * bmp_row_bytes w)) [0..<w] bmp"

definition bmp_header :: "nat \<Rightarrow> nat \<Rightarrow> bytes \<Rightarrow> bytes" where
  "bmp_header w ch bmp =
     writeUInt16LE 24 28 (writeUInt16LE 1 26 (writeInt32LE (int ch) 22 (writeInt32LE (int w) 18
       (writeUInt32LE 40 14 (writeUInt32LE 54 10 (writeUInt32LE (length bmp) 2
         (put (put bmp 0 0x42) 1 0x4d)))))))"

definition canvasSliceToBmp :: "bytes \<Rightarrow> nat \<Rightarrow> nat \<Rightarrow> nat \<Rightarrow> nat \<Rightarrow> bytes" where
  "canvasSliceToBmp canvas cw ch x w =
     fold (bmp_row canvas cw ch x w) [0..<ch]
       (bmp_header w ch (replicate (54 + bmp_row_bytes w * ch) 0))"

lemma row_bytes_ge: "w * 3 \<le> bmp_row_bytes w"
  unfolding bmp_row_bytes_def by presburger

lemma length_bmp_pixel [simp]: "length (bmp_pixel canvas src dst c bmp) = length bmp"
  by (simp add: bmp_pixel_def)

lemma at0_bmp_pixel:
  assumes "dst + c * 3 + 3 \<le> length bmp"
  shows "at0 (bmp_pixel canvas src dst c bmp) i =
    (if dst + c * 3 \<le> i \<and> i < dst + c * 3 + 3 then at0 canvas (src + c * 3 + (2 - (i - (dst + c * 3))))
     else at0 bmp i)"
proof -
  consider "i = dst + c * 3" | "i = dst + c * 3 + 1" | "i = dst + c * 3 + 2"
    | "i < dst + c * 3" | "dst + c * 3 + 3 \<le> i" by linarith
  then show ?thesis using assms by cases (auto simp: bmp_pixel_def at0_put)
qed

lemma bmp_pixels:
  fixes canvas :: bytes and src :: nat
  assumes "dst + n * 3 \<le> length bmp"
  defines "out \<equiv> fold (bmp_pixel canvas src dst) [0..<n] bmp"
  shows "length out = length bmp"
    "at0 out i = (if dst \<le> i \<and> i < dst + n * 3
       then at0 canvas (src + (i - dst) div 3 * 3 + (2 - (i - dst) mod 3)) else at0 bmp i)"
proof -
  have "length out = length bmp \<and> at0 out i = (if dst \<le> i \<and> i < dst + n * 3
       then at0 canvas (src + (i - dst) div 3 * 3 + (2 - (i - dst) mod 3)) else at0 bmp i)"
    using assms(1) unfolding out_def
  proof (induction n)
    case (Suc n)
    let ?b = "fold (bmp_pixel canvas src dst) [0..<n] bmp"
    have l: "length ?b = length bmp" and v: "at0 ?b i = (if dst \<le> i \<and> i < dst + n * 3
       then at0 canvas (src + (i - dst) div 3 * 3 + (2 - (i - dst) mod 3)) else at0 bmp i)"
      using Suc by auto
    have "dst + n * 3 + 3 \<le> length ?b" using Suc(2) l by simp
    note p = at0_bmp_pixel[OF this, of canvas src i]
    show ?case
    proof (cases "dst + n * 3 \<le> i \<and> i < dst + n * 3 + 3")
      case True
      then obtain k where k: "i = dst + n * 3 + k" "k < 3" by (metis add_less_cancel_left le_Suc_ex)
      then have "(i - dst) div 3 = n" "(i - dst) mod 3 = k" by simp_all
      then show ?thesis using p True l k by simp
    next
      case False
      then show ?thesis using p v l by auto
    qed
  qed auto
  then show "length out = length bmp" "at0 out i = (if dst \<le> i \<and> i < dst + n * 3
       then at0 canvas (src + (i - dst) div 3 * 3 + (2 - (i - dst) mod 3)) else at0 bmp i)" by auto
qed

text \<open>All rows: each pixel byte comes from its place in the canvas, the header stays.\<close>

definition slice_byte :: "bytes \<Rightarrow> nat \<Rightarrow> nat \<Rightarrow> nat \<Rightarrow> nat \<Rightarrow> byte" where
  "slice_byte canvas cw x row j = at0 canvas ((row * cw + x) * 3 + j div 3 * 3 + (2 - j mod 3))"

lemma bmp_rows:
  fixes canvas bmp :: bytes and cw x :: nat
  assumes "m \<le> ch" "length bmp = 54 + bmp_row_bytes w * ch"
  defines "out \<equiv> fold (bmp_row canvas cw ch x w) [0..<m] bmp"
  shows "length out = length bmp \<and> (\<forall>i<54. at0 out i = at0 bmp i)
    \<and> (\<forall>row<m. \<forall>j<w * 3. at0 out (54 + (ch - 1 - row) * bmp_row_bytes w + j) = slice_byte canvas cw x row j)"
  using assms(1) unfolding out_def
proof (induction m)
  case (Suc m)
  let ?r = "bmp_row_bytes w"
  let ?b = "fold (bmp_row canvas cw ch x w) [0..<m] bmp" and ?d = "54 + (ch - 1 - m) * ?r"
  have IH: "length ?b = length bmp" "\<forall>i<54. at0 ?b i = at0 bmp i"
    "\<And>row j. row < m \<Longrightarrow> j < w * 3 \<Longrightarrow> at0 ?b (54 + (ch - 1 - row) * ?r + j) = slice_byte canvas cw x row j"
    using Suc by auto
  have ge: "w * 3 \<le> ?r" by (rule row_bytes_ge)
  have "Suc (ch - 1 - m) \<le> ch" using Suc(2) by simp
  then have "Suc (ch - 1 - m) * ?r \<le> ch * ?r" by (rule mult_le_mono1)
  then have "(ch - 1 - m) * ?r + w * 3 \<le> ?r * ch" using ge by (simp add: mult.commute)
  then have fits: "?d + w * 3 \<le> length ?b" using IH(1) assms(2) by simp
  note px = bmp_pixels[OF fits, of canvas "(m * cw + x) * 3"]
  have out: "fold (bmp_row canvas cw ch x w) [0..<Suc m] bmp
      = fold (bmp_pixel canvas ((m * cw + x) * 3) ?d) [0..<w] ?b"
    by (simp add: bmp_row_def)
  have "at0 (fold (bmp_pixel canvas ((m * cw + x) * 3) ?d) [0..<w] ?b) (54 + (ch - 1 - row) * ?r + j)
      = slice_byte canvas cw x row j" if "row < Suc m" "j < w * 3" for row j
  proof (cases "row = m")
    case True
    then show ?thesis unfolding True px(2) slice_byte_def using that(2) by simp
  next
    case False
    then have r: "row < m" using that(1) by simp
    then have "Suc (ch - 1 - m) \<le> ch - 1 - row" using Suc(2) by simp
    then have "Suc (ch - 1 - m) * ?r \<le> (ch - 1 - row) * ?r" by (rule mult_le_mono1)
    then have "?d + w * 3 \<le> 54 + (ch - 1 - row) * ?r + j" using ge by simp
    then show ?thesis using IH(3)[OF r that(2)] unfolding px(2) by simp
  qed
  then show ?case unfolding out px(1) using px(2) IH by simp
qed simp

section \<open>Rendering a key\<close>

type_synonym 'd send_image = "int \<Rightarrow> bytes \<Rightarrow> 'd \<Rightarrow> string option \<times> 'd"

record 'd render_state =
  rs_cache :: "(string, bytes) lru"
  rs_out :: nat
  rs_dev :: 'd

definition revisionFor :: "native_image \<Rightarrow> device_model \<Rightarrow> string" where
  "revisionFor N m = fnv1aHex (json_spec N (dm_image m))"

definition cache_key :: "native_image \<Rightarrow> device_model \<Rightarrow> bytes \<Rightarrow> string" where
  "cache_key N m img = makeCacheKey (dm_id m) (hashJpeg img) ''def'' (revisionFor N m)"

definition render_native ::
  "native_image \<Rightarrow> device_model \<Rightarrow> bytes \<Rightarrow> image_format \<Rightarrow> nat \<Rightarrow> ((image_error + bytes) \<times> nat) option" where
  "render_native N m img fmt out_len =
     (if fmt = Bmp \<and> sp_format (dm_image m) = Bmp \<or> sp_transform (dm_image m) = Passthrough
      then Some (Inr img, out_len)
      else transformImageForDevice N img (dm_image m) out_len)"

text \<open>The write to the device, after the key is mapped; a throw of the driver leaves the cache filled.\<close>

definition dispatch_image ::
  "'d send_image \<Rightarrow> device_model \<Rightarrow> int \<Rightarrow> bytes \<Rightarrow> string \<times> bool \<Rightarrow> 'd render_state
    \<Rightarrow> (image_error + string \<times> bool) \<times> 'd render_state" where
  "dispatch_image send m key nat_bytes r s =
     (let wire = mk2IndexToDeviceImgId key (dm_keyMap m)
      in if wire < 0 then (Inr r, s)
         else (case send wire nat_bytes (rs_dev s) of
                 (None, d) \<Rightarrow> (Inr r, s\<lparr>rs_dev := d\<rparr>)
               | (Some e, d) \<Rightarrow> (Inl (Device_error e), s\<lparr>rs_dev := d\<rparr>)))"

definition renderImage ::
  "native_image \<Rightarrow> 'd send_image \<Rightarrow> device_model \<Rightarrow> int \<Rightarrow> bytes \<Rightarrow> image_format \<Rightarrow> 'd render_state
    \<Rightarrow> ((image_error + string \<times> bool) \<times> 'd render_state) option" where
  "renderImage N send m key img fmt s =
     (let hash = cache_key N m img
      in case lru_get hash (rs_cache s) of
           (Some bs, c) \<Rightarrow> Some (dispatch_image send m key bs (hashJpeg img, True) (s\<lparr>rs_cache := c\<rparr>))
         | (None, c) \<Rightarrow>
             (case render_native N m img fmt (rs_out s) of
                None \<Rightarrow> None
              | Some (Inl e, n) \<Rightarrow> Some (Inl e, s\<lparr>rs_cache := c, rs_out := n\<rparr>)
              | Some (Inr bs, n) \<Rightarrow>
                  (case lru_set image_cache_limits hash bs c of
                     None \<Rightarrow> None
                   | Some c' \<Rightarrow> Some (dispatch_image send m key bs (hashJpeg img, False)
                                      (s\<lparr>rs_cache := c', rs_out := n\<rparr>)))))"

section \<open>The strip canvas\<close>

datatype zone_fit = Zone_crop | Zone_scale
datatype strip_upload = Full_frames | Always

record touch_options =
  zoneFit :: zone_fit
  upload :: strip_upload

definition DEFAULT_TOUCH_STRIP_OPTIONS :: touch_options where
  "DEFAULT_TOUCH_STRIP_OPTIONS = \<lparr>zoneFit = Zone_crop, upload = Full_frames\<rparr>"

record touch_canvas =
  tc_rgb :: bytes
  tc_mask :: "int list"
  tc_options :: touch_options

definition canvas_reset :: touch_canvas where
  "canvas_reset = \<lparr>tc_rgb = replicate (PLUS_TOUCH_WIDTH * PLUS_TOUCH_HEIGHT * 3) 0, tc_mask = [],
     tc_options = DEFAULT_TOUCH_STRIP_OPTIONS\<rparr>"

definition canvas_setOptions :: "touch_options \<Rightarrow> touch_canvas \<Rightarrow> touch_canvas" where
  "canvas_setOptions opts tc = tc\<lparr>tc_options := opts\<rparr>"

definition touchedZones :: "nat \<Rightarrow> region option \<Rightarrow> nat list" where
  "touchedZones count r =
     (let zoneWidth = PLUS_TOUCH_WIDTH div count;
          x = (case r of Some r \<Rightarrow> rx r | None \<Rightarrow> 0);
          w = (case r of Some r \<Rightarrow> rw r | None \<Rightarrow> PLUS_TOUCH_WIDTH)
      in filter (\<lambda>i. x < (i + 1) * zoneWidth \<and> i * zoneWidth < x + w) [0..<count])"

definition coversStrip :: "region option \<Rightarrow> bool" where
  "coversStrip r =
     (case r of None \<Rightarrow> True
      | Some r \<Rightarrow> rx r = 0 \<and> ry r = 0 \<and> PLUS_TOUCH_WIDTH \<le> rx r + rw r \<and> PLUS_TOUCH_HEIGHT \<le> ry r + rh r)"

definition ZONE_FIT_SPEC :: image_spec where
  "ZONE_FIT_SPEC = \<lparr>sp_format = Bmp, sp_width = 0, sp_height = 0, sp_rotate = 0, sp_flipH = False,
     sp_flipV = False, sp_bgr = False, sp_bmpPpm = None, sp_maxBytes = 0, sp_quality = 1, sp_blur = None,
     sp_sharpen = None, sp_crop = None, sp_cropRect = None, sp_resizeFilter = Some Filter_lanczos3,
     sp_resizeMode = None, sp_padFill = None, sp_transform = Sidecar\<rparr>"

definition strip_slice :: "touch_canvas \<Rightarrow> nat \<Rightarrow> nat \<Rightarrow> bytes" where
  "strip_slice tc x w = canvasSliceToBmp (tc_rgb tc) PLUS_TOUCH_WIDTH PLUS_TOUCH_HEIGHT x w"

text \<open>Without the crop fit, the zone is scaled into its slot through a lossless intermediate.\<close>

definition zone_scaled :: "native_image \<Rightarrow> widget_display \<Rightarrow> nat \<Rightarrow> nat \<Rightarrow> touch_canvas \<Rightarrow> nat
    \<Rightarrow> ((image_error + bytes) \<times> nat) option" where
  "zone_scaled N display zoneWidth i tc out_len =
     (let scale = min (of_int (sp_width (wd_image display)) / of_nat zoneWidth)
                      (of_int (sp_height (wd_image display)) / of_nat PLUS_TOUCH_HEIGHT)
      in transformImageForDevice N (strip_slice tc (i * zoneWidth) zoneWidth)
           (ZONE_FIT_SPEC\<lparr>sp_width := js_round (of_nat zoneWidth * scale),
                          sp_height := js_round (of_nat PLUS_TOUCH_HEIGHT * scale)\<rparr>) out_len)"

text \<open>
  The part of the canvas one zone shows.  (For a slot that starts left of the strip or right of
  its end, which no model has, \<open>nat\<close> cuts the offset or the width at 0.)
\<close>

definition zoneBmp :: "native_image \<Rightarrow> device_model \<Rightarrow> widget_display list \<Rightarrow> nat \<Rightarrow> touch_canvas \<Rightarrow> nat
    \<Rightarrow> ((image_error + bytes) \<times> nat) option" where
  "zoneBmp N m displays i tc out_len =
     (let display = displays ! i; zoneWidth = PLUS_TOUCH_WIDTH div length displays
      in case (touchStripDisplay m, wd_stripX display) of
           (Some strip, Some stripX) \<Rightarrow>
             if zoneFit (tc_options tc) = Zone_crop then
               (let ratio = of_nat PLUS_TOUCH_WIDTH / of_int (sp_width (sd_image strip));
                    x = js_round (of_int stripX * ratio);
                    w = min (js_round (of_int (sp_width (wd_image display)) * ratio)) (int PLUS_TOUCH_WIDTH - x)
                in Some (Inr (strip_slice tc (nat x) (nat w)), out_len))
             else zone_scaled N display zoneWidth i tc out_len
         | (Some strip, None) \<Rightarrow> zone_scaled N display zoneWidth i tc out_len
         | (None, _) \<Rightarrow> Some (Inr (strip_slice tc (i * zoneWidth) zoneWidth), out_len))"

text \<open>A loop whose body may not return.\<close>

fun each_opt :: "('x \<Rightarrow> 's \<Rightarrow> 's option) \<Rightarrow> 'x list \<Rightarrow> 's \<Rightarrow> 's option" where
  "each_opt f [] s = Some s"
| "each_opt f (x # xs) s = Option.bind (f x s) (each_opt f xs)"

text \<open>Upload of one zone; whatever throws, the driver included, is caught and logged.\<close>

definition upload_transformed :: "native_image \<Rightarrow> 'd send_image \<Rightarrow> int \<Rightarrow> bytes \<Rightarrow> image_spec \<Rightarrow> 'd render_state
    \<Rightarrow> 'd render_state option" where
  "upload_transformed N send wire bmp sp s =
     (case transformImageForDevice N bmp sp (rs_out s) of
        None \<Rightarrow> None
      | Some (Inl _, n) \<Rightarrow> Some (s\<lparr>rs_out := n\<rparr>)
      | Some (Inr bs, n) \<Rightarrow> Some (s\<lparr>rs_out := n, rs_dev := snd (send wire bs (rs_dev s))\<rparr>))"

definition sendZone :: "native_image \<Rightarrow> 'd send_image \<Rightarrow> device_model \<Rightarrow> widget_display list \<Rightarrow> touch_canvas
    \<Rightarrow> nat \<Rightarrow> 'd render_state \<Rightarrow> 'd render_state option" where
  "sendZone N send m displays tc i s =
     (case zoneBmp N m displays i tc (rs_out s) of
        None \<Rightarrow> None
      | Some (Inl _, n) \<Rightarrow> Some (s\<lparr>rs_out := n\<rparr>)
      | Some (Inr bmp, n) \<Rightarrow>
          upload_transformed N send (wd_wireId (displays ! i)) bmp (wd_image (displays ! i)) (s\<lparr>rs_out := n\<rparr>))"

definition sendFullStrip :: "native_image \<Rightarrow> 'd send_image \<Rightarrow> device_model \<Rightarrow> touch_canvas \<Rightarrow> 'd render_state
    \<Rightarrow> (bool \<times> 'd render_state) option" where
  "sendFullStrip N send m tc s =
     (case touchStripDisplay m of
        None \<Rightarrow> Some (False, s)
      | Some strip \<Rightarrow>
          if tc_mask tc \<noteq> [] then Some (False, s)
          else map_option (Pair True)
            (upload_transformed N send (sd_wireId strip) (strip_slice tc 0 PLUS_TOUCH_WIDTH) (sd_image strip) s))"

definition canvas_apply :: "native_image \<Rightarrow> 'd send_image \<Rightarrow> device_model \<Rightarrow> bytes \<Rightarrow> region option
    \<Rightarrow> touch_canvas \<times> 'd render_state \<Rightarrow> (touch_canvas \<times> 'd render_state) option" where
  "canvas_apply N send m img r cs =
     (case cs of (tc, s) \<Rightarrow>
      let displays = or_else (widgetDisplays m) []
      in if displays = [] then Some (tc, s)
         else (case proc_blit N (tc_rgb tc) PLUS_TOUCH_WIDTH PLUS_TOUCH_HEIGHT img
                      (case r of Some r \<Rightarrow> rx r | None \<Rightarrow> 0) (case r of Some r \<Rightarrow> ry r | None \<Rightarrow> 0) of
                 (Some _, rgb) \<Rightarrow> Some (tc\<lparr>tc_rgb := rgb\<rparr>, s)
               | (None, rgb) \<Rightarrow>
                   (let tc = tc\<lparr>tc_rgb := rgb\<rparr>;
                        zones = each_opt (\<lambda>i s. if wd_wireId (displays ! i) \<in> set (tc_mask tc) then Some s
                                                else sendZone N send m displays tc i s)
                                  (touchedZones (length displays) r)
                    in if upload (tc_options tc) = Always \<or> coversStrip r
                       then Option.bind (sendFullStrip N send m tc s) (\<lambda>(sent, s).
                              if sent then Some (tc, s) else map_option (Pair tc) (zones s))
                       else map_option (Pair tc) (zones s))))"

definition canvas_restore :: "native_image \<Rightarrow> 'd send_image \<Rightarrow> device_model \<Rightarrow> touch_canvas \<Rightarrow> int list
    \<Rightarrow> 'd render_state \<Rightarrow> 'd render_state option" where
  "canvas_restore N send m tc wireIds s =
     (let displays = or_else (widgetDisplays m) [];
          zones = each_opt (\<lambda>i s. if wd_wireId (displays ! i) \<in> set wireIds then sendZone N send m displays tc i s
                                  else Some s) [0..<length displays]
      in if wireIds = [] then Some s
         else if \<forall>d\<in>set displays. wd_wireId d \<in> set wireIds
         then Option.bind (sendFullStrip N send m tc s) (\<lambda>(sent, s). if sent then Some s else zones s)
         else zones s)"

text \<open>A mask is a JavaScript set: in insertion order, without repetition.\<close>

definition js_set :: "'a list \<Rightarrow> 'a list" where
  "js_set xs = rev (remdups (rev xs))"

definition canvas_setMask :: "native_image \<Rightarrow> 'd send_image \<Rightarrow> device_model \<Rightarrow> int list
    \<Rightarrow> touch_canvas \<times> 'd render_state \<Rightarrow> (touch_canvas \<times> 'd render_state) option" where
  "canvas_setMask N send m wireIds cs =
     (case cs of (tc, s) \<Rightarrow>
      let released = filter (\<lambda>w. w \<notin> set wireIds) (tc_mask tc);
          tc = tc\<lparr>tc_mask := js_set wireIds\<rparr>
      in map_option (Pair tc) (canvas_restore N send m tc released s))"

section \<open>The transform returns\<close>

text \<open>
  What the library documents: the result of a call depends on the output buffer only in that a
  result which does not fit gives \<open>-2\<close>.
\<close>

definition native_ok :: "native_image \<Rightarrow> bool" where
  "native_ok N \<longleftrightarrow> (\<forall>img args. (\<exists>n err. \<forall>cap. proc_transform N img args cap = Proc_error n err)
     \<or> (\<exists>bs. \<forall>cap. proc_transform N img args cap = (if length bs \<le> cap then Proc_done bs else Proc_too_small)))"

definition native_result :: "native_image \<Rightarrow> bytes \<Rightarrow> transform_args \<Rightarrow> image_error + bytes" where
  "native_result N img args =
     (case proc_transform N img args OUT_MAX_BYTES of
        Proc_done bs \<Rightarrow> Inr bs
      | Proc_error n err \<Rightarrow> Inl (throwImageProcError n err)
      | Proc_too_small \<Rightarrow> Inl Output_exceeds_cap)"

text \<open>The sizes the scratch buffer takes.\<close>

definition out_sizes :: "nat set" where
  "out_sizes = (\<lambda>k. OUT_INITIAL_BYTES * 2 ^ k) ` {..4}"

lemma out_sizes_eq: "out_sizes = {262144, 524288, 1048576, 2097152, 4194304}"
proof -
  have "{..4 :: nat} = {0, 1, 2, 3, 4}" by auto
  then show ?thesis by (simp add: out_sizes_def OUT_INITIAL_BYTES_def)
qed

lemma growOut_sizes:
  "n \<in> out_sizes \<Longrightarrow> n \<noteq> OUT_MAX_BYTES \<Longrightarrow> growOut n = Some (n * 2) \<and> n * 2 \<in> out_sizes"
  "growOut OUT_MAX_BYTES = None"
  by (auto simp: growOut_def out_sizes_eq OUT_MAX_BYTES_def)

lemma transform_loop_result:
  assumes "native_ok N" "n \<in> out_sizes"
  shows "\<exists>n'\<in>out_sizes. transform_loop N img args n = Some (native_result N img args, n')"
  using assms(2)
proof (induction "OUT_MAX_BYTES - n" arbitrary: n rule: less_induct)
  case less
  consider (err) k e where "\<And>cap. proc_transform N img args cap = Proc_error k e"
    | (fits) bs where "\<And>cap. proc_transform N img args cap = (if length bs \<le> cap then Proc_done bs else Proc_too_small)"
    using assms(1) unfolding native_ok_def by blast
  then show ?case
  proof cases
    case err
    then show ?thesis using less(2) by (subst transform_loop.simps) (simp add: native_result_def)
  next
    case (fits bs)
    have le: "n \<le> OUT_MAX_BYTES" using less(2) by (auto simp: out_sizes_eq OUT_MAX_BYTES_def)
    show ?thesis
    proof (cases "length bs \<le> n")
      case True
      then show ?thesis using less(2) le by (subst transform_loop.simps) (simp add: native_result_def fits)
    next
      case small: False
      show ?thesis
      proof (cases "n = OUT_MAX_BYTES")
        case True
        then show ?thesis using less(2) small growOut_sizes(2)
          by (subst transform_loop.simps) (simp add: native_result_def fits)
      next
        case False
        note g = growOut_sizes(1)[OF less(2) False]
        have "0 < n" using less(2) by (auto simp: out_sizes_eq)
        then have "OUT_MAX_BYTES - n * 2 < OUT_MAX_BYTES - n" using le False by simp
        from less(1)[OF this] g show ?thesis
          using small by (subst transform_loop.simps) (simp add: fits)
      qed
    qed
  qed
qed

section \<open>The cache is invisible\<close>

type_synonym frame = "device_model \<times> int \<times> bytes \<times> image_format"

definition direct_native :: "native_image \<Rightarrow> frame \<Rightarrow> image_error + bytes" where
  "direct_native N f = (case f of (m, key, img, fmt) \<Rightarrow>
     if fmt = Bmp \<and> sp_format (dm_image m) = Bmp \<or> sp_transform (dm_image m) = Passthrough then Inr img
     else native_result N img (transform_args_of (dm_image m)))"

definition frame_key :: "native_image \<Rightarrow> frame \<Rightarrow> string" where
  "frame_key N f = (case f of (m, key, img, fmt) \<Rightarrow> cache_key N m img)"

text \<open>Rendering without a cache: transform, map the key, write.\<close>

definition render_direct :: "native_image \<Rightarrow> 'd send_image \<Rightarrow> frame \<Rightarrow> 'd \<Rightarrow> image_error option \<times> 'd" where
  "render_direct N send f d =
     (case direct_native N f of
        Inl e \<Rightarrow> (Some e, d)
      | Inr bs \<Rightarrow>
          (let wire = mk2IndexToDeviceImgId (fst (snd f)) (dm_keyMap (fst f))
           in if wire < 0 then (None, d) else apfst (map_option Device_error) (send wire bs d)))"

fun direct_run :: "native_image \<Rightarrow> 'd send_image \<Rightarrow> frame list \<Rightarrow> 'd \<Rightarrow> image_error option list \<times> 'd" where
  "direct_run N send [] d = ([], d)"
| "direct_run N send (f # fs) d =
     (case render_direct N send f d of (e, d') \<Rightarrow> apfst ((#) e) (direct_run N send fs d'))"

definition outcome_error :: "image_error + 'a \<Rightarrow> image_error option" where
  "outcome_error r = (case r of Inl e \<Rightarrow> Some e | Inr _ \<Rightarrow> None)"

fun cached_run :: "native_image \<Rightarrow> 'd send_image \<Rightarrow> frame list \<Rightarrow> 'd render_state
    \<Rightarrow> (image_error option list \<times> 'd render_state) option" where
  "cached_run N send [] s = Some ([], s)"
| "cached_run N send ((m, key, img, fmt) # fs) s =
     (case renderImage N send m key img fmt s of
        None \<Rightarrow> None
      | Some (r, s') \<Rightarrow> map_option (apfst ((#) (outcome_error r))) (cached_run N send fs s'))"

text \<open>The frames that share a cache key have the same native image.\<close>

definition collision_free :: "native_image \<Rightarrow> frame set \<Rightarrow> bool" where
  "collision_free N F \<longleftrightarrow> (\<forall>f\<in>F. \<forall>g\<in>F. frame_key N f = frame_key N g \<longrightarrow> direct_native N f = direct_native N g)"

definition native_for :: "native_image \<Rightarrow> frame set \<Rightarrow> string \<Rightarrow> bytes \<Rightarrow> bool" where
  "native_for N F k bs \<longleftrightarrow> (\<forall>f\<in>F. frame_key N f = k \<longrightarrow> direct_native N f = Inr bs)"

lemma render_native_direct:
  assumes "native_ok N" "n \<in> out_sizes"
  shows "\<exists>n'\<in>out_sizes. render_native N m img fmt n = Some (direct_native N (m, key, img, fmt), n')"
  using transform_loop_result[OF assms, of img "transform_args_of (dm_image m)"] assms(2)
  by (auto simp: render_native_def direct_native_def transformImageForDevice_def)

lemma dispatch_direct:
  assumes "direct_native N (m, key, img, fmt) = Inr bs" "dispatch_image send m key bs r s = (res, s')"
  shows "render_direct N send (m, key, img, fmt) (rs_dev s) = (outcome_error res, rs_dev s')
    \<and> rs_cache s' = rs_cache s \<and> rs_out s' = rs_out s"
  using assms
  by (auto simp: render_direct_def dispatch_image_def outcome_error_def Let_def split: if_splits prod.splits option.splits)

lemma renderImage_direct:
  assumes "native_ok N" "rs_out s \<in> out_sizes" "image_cache.right_for (native_for N F) (rs_cache s)"
    and "collision_free N F" "f \<in> F" "f = (m, key, img, fmt)"
  shows "\<exists>r s'. renderImage N send m key img fmt s = Some (r, s')
    \<and> render_direct N send f (rs_dev s) = (outcome_error r, rs_dev s')
    \<and> rs_out s' \<in> out_sizes \<and> image_cache.right_for (native_for N F) (rs_cache s')"
proof -
  let ?k = "cache_key N m img"
  have fk: "frame_key N f = ?k" using assms(6) by (simp add: frame_key_def)
  obtain hit c where g: "lru_get ?k (rs_cache s) = (hit, c)" by fastforce
  note rc = image_cache.right_get[OF assms(3) g]
  show ?thesis
  proof (cases hit)
    case (Some bs)
    then have n: "direct_native N f = Inr bs" using rc(2) assms(5) fk by (simp add: native_for_def)
    obtain r s' where d: "dispatch_image send m key bs (hashJpeg img, True) (s\<lparr>rs_cache := c\<rparr>) = (r, s')" by fastforce
    from dispatch_direct[OF n[unfolded assms(6)] d] rc(1) assms(2) show ?thesis
      by (simp add: renderImage_def g Some d assms(6))
  next
    case None
    obtain n' where n': "n' \<in> out_sizes" "render_native N m img fmt (rs_out s) = Some (direct_native N f, n')"
      using render_native_direct[OF assms(1,2), of m img fmt key] assms(6) by auto
    show ?thesis
    proof (cases "direct_native N f")
      case (Inl e)
      then show ?thesis using n' rc(1)
        by (simp add: renderImage_def g None render_direct_def outcome_error_def)
    next
      case (Inr bs)
      then have "native_for N F ?k bs"
        using assms(4,5) fk unfolding native_for_def collision_free_def by metis
      from image_cache.right_store[OF rc(1) this] obtain c' where
        c': "lru_set image_cache_limits ?k bs c = Some c'" "image_cache.right_for (native_for N F) c'" by blast
      obtain r s' where d: "dispatch_image send m key bs (hashJpeg img, False) (s\<lparr>rs_cache := c', rs_out := n'\<rparr>) = (r, s')"
        by fastforce
      from dispatch_direct[OF Inr[unfolded assms(6)] d] c' n' show ?thesis
        by (simp add: renderImage_def g None Inr[unfolded assms(6)] d assms(6))
    qed
  qed
qed

lemma cached_run_direct:
  assumes "native_ok N" "collision_free N F"
    and "rs_out s \<in> out_sizes" "image_cache.right_for (native_for N F) (rs_cache s)" "set fs \<subseteq> F"
  shows "\<exists>s'. cached_run N send fs s = Some (fst (direct_run N send fs (rs_dev s)), s')
    \<and> rs_dev s' = snd (direct_run N send fs (rs_dev s))"
  using assms(3-5)
proof (induction fs arbitrary: s)
  case (Cons f fs)
  obtain m key img fmt where f: "f = (m, key, img, fmt)" by (cases f) blast
  have "f \<in> F" "set fs \<subseteq> F" using Cons(4) by auto
  from renderImage_direct[OF assms(1) Cons(2,3) assms(2) this(1) f, of send] obtain r s' where
    r: "renderImage N send m key img fmt s = Some (r, s')"
      "render_direct N send f (rs_dev s) = (outcome_error r, rs_dev s')"
      "rs_out s' \<in> out_sizes" "image_cache.right_for (native_for N F) (rs_cache s')" by blast
  from Cons(1)[OF r(3,4) \<open>set fs \<subseteq> F\<close>] obtain s'' where
    "cached_run N send fs s' = Some (fst (direct_run N send fs (rs_dev s')), s'')"
    "rs_dev s'' = snd (direct_run N send fs (rs_dev s'))" by blast
  then show ?case using r by (auto simp: f split: prod.split)
qed auto

section \<open>Properties\<close>

text \<open>A library for the witnesses: it copies its input.\<close>

definition copy_native :: native_image where
  "copy_native = \<lparr>proc_transform = (\<lambda>img _ cap. if length img \<le> cap then Proc_done img else Proc_too_small),
     proc_blit = (\<lambda>canvas _ _ _ _ _. (None, canvas)), json_spec = (\<lambda>_. ''{}'')\<rparr>"

lemma copy_native_ok: "native_ok copy_native"
proof -
  have "\<exists>bs. \<forall>cap. proc_transform copy_native img args cap
      = (if length bs \<le> cap then Proc_done bs else Proc_too_small)" for img args
    by (rule exI[of _ img]) (simp add: copy_native_def)
  then show ?thesis unfolding native_ok_def by blast
qed

text \<open>The transform of an image always returns: the scratch buffer doubles from any of its
sizes until the result fits or the 4 MiB cap is reached, and the outcome does not depend on
how large it had grown before.\<close>

theorem transform_returns:
  assumes "native_ok N" "n \<in> out_sizes"
  shows "\<exists>n'\<in>out_sizes. transformImageForDevice N img sp n
    = Some (case proc_transform N img (transform_args_of sp) OUT_MAX_BYTES of
              Proc_done bs \<Rightarrow> Inr bs
            | Proc_error k err \<Rightarrow> Inl (throwImageProcError k err)
            | Proc_too_small \<Rightarrow> Inl Output_exceeds_cap, n')"
  using transform_loop_result[OF assms] unfolding transformImageForDevice_def native_result_def .


definition plain_model :: device_model where
  "plain_model = \<lparr>dm_id = ''m'', dm_image = ZONE_FIT_SPEC,
     dm_keyMap = \<lparr>coraToWireImage = None, wireInputToCora = None, inputOffset = None, imageOffset = Some 1,
       extraKeys = None, extraKeyInputs = None\<rparr>,
     dm_batchProtocol = False, dm_batchImages = False, dm_hasSleep = False, widgetDisplays = None,
     touchStripDisplay = None\<rparr>"

text \<open>The driver of the witnesses records what it is sent.\<close>

definition log_send :: "(int \<times> bytes) list send_image" where
  "log_send wire bs calls = (None, calls @ [(wire, bs)])"


lemma bmp_header_fields:
  assumes "54 \<le> length bmp" "length bmp < 2 ^ 32" "w < 2 ^ 31" "ch < 2 ^ 31"
  shows "at0 (bmp_header w ch bmp) 0 = 0x42 \<and> at0 (bmp_header w ch bmp) 1 = 0x4d
    \<and> readUInt32LE (bmp_header w ch bmp) 2 = length bmp \<and> readUInt32LE (bmp_header w ch bmp) 10 = 54
    \<and> readUInt32LE (bmp_header w ch bmp) 18 = w \<and> readUInt32LE (bmp_header w ch bmp) 22 = ch"
proof -
  have v: "nat (int w mod 2 ^ 32) = w" "nat (int ch mod 2 ^ 32) = ch" using assms(3,4) by simp_all
  have ne: "bmp \<noteq> []" using assms(1) by auto
  have d: "v mod 256 + 256 * (v div 256 mod 256) + 65536 * (v div 65536 mod 256)
     + 16777216 * (v div 16777216 mod 256) = v" if "v < 4294967296" for v :: nat
    using byte_digits32[of v] that by simp
  show ?thesis
    using assms ne d[of w] d[of ch] d[of "length bmp"]
    unfolding bmp_header_def writeInt32LE_def v
    by (simp add: at0_writes at0_put readUInt32LE_sum byte_of_vals)
qed

lemma length_bmp_header [simp]: "length (bmp_header w ch bmp) = length bmp"
  by (simp add: bmp_header_def writeInt32LE_def)

text \<open>The BMP of a zone is the zone: a valid header (magic, file length, pixel offset, width,
height), and the pixel a BMP reader finds at any row and column, bottom-up and in BGR order
behind padded rows, is the canvas pixel at that row and column of the slice.\<close>

theorem canvas_slice_pixels:
  fixes canvas :: bytes and cw x :: nat
  assumes "row < ch" "col < w" "54 + bmp_row_bytes w * ch < 2 ^ 31"
  defines "bmp \<equiv> canvasSliceToBmp canvas cw ch x w"
  shows "length bmp = 54 + bmp_row_bytes w * ch
    \<and> at0 bmp 0 = 0x42 \<and> at0 bmp 1 = 0x4d \<and> readUInt32LE bmp 2 = length bmp \<and> readUInt32LE bmp 10 = 54
    \<and> readUInt32LE bmp 18 = w \<and> readUInt32LE bmp 22 = ch
    \<and> (let pixel = 54 + (ch - 1 - row) * bmp_row_bytes w + col * 3; src = (row * cw + x + col) * 3
       in at0 bmp pixel = at0 canvas (src + 2) \<and> at0 bmp (pixel + 1) = at0 canvas (src + 1)
          \<and> at0 bmp (pixel + 2) = at0 canvas src)"
proof -
  let ?b = "bmp_header w ch (replicate (54 + bmp_row_bytes w * ch) 0)"
  have len: "length ?b = 54 + bmp_row_bytes w * ch" by simp
  have "w * 1 \<le> bmp_row_bytes w * ch"
    using row_bytes_ge[of w] assms(1) by (intro mult_le_mono) linarith+
  moreover have "1 * ch \<le> bmp_row_bytes w * ch"
    using row_bytes_ge[of w] assms(2) by (intro mult_le_mono1) linarith
  ultimately have small: "w < 2 ^ 31" "ch < 2 ^ 31" using assms(3) by linarith+
  have h: "at0 ?b 0 = 0x42 \<and> at0 ?b 1 = 0x4d \<and> readUInt32LE ?b 2 = 54 + bmp_row_bytes w * ch
      \<and> readUInt32LE ?b 10 = 54 \<and> readUInt32LE ?b 18 = w \<and> readUInt32LE ?b 22 = ch"
    using bmp_header_fields[OF _ _ small, of "replicate (54 + bmp_row_bytes w * ch) 0"] assms(3) by simp
  note r = bmp_rows[OF order_refl len, of canvas cw x, folded canvasSliceToBmp_def bmp_def, unfolded len]
  have hd: "at0 bmp i = at0 ?b i" if "i < 54" for i using r that by blast
  have px: "at0 bmp (54 + (ch - 1 - row) * bmp_row_bytes w + (col * 3 + k)) = at0 canvas ((row * cw + x + col) * 3 + (2 - k))"
    if "k < 3" for k
  proof -
    have "col * 3 + k < w * 3" using assms(2) that by simp
    then have "at0 bmp (54 + (ch - 1 - row) * bmp_row_bytes w + (col * 3 + k)) = slice_byte canvas cw x row (col * 3 + k)"
      using r assms(1) by blast
    also have "\<dots> = at0 canvas ((row * cw + x + col) * 3 + (2 - k))"
      using that by (simp add: slice_byte_def algebra_simps)
    finally show ?thesis .
  qed
  show ?thesis
    using h px[of 0] px[of 1] px[of 2] r by (simp add: readUInt32LE_sum hd Let_def add.assoc)
qed

section \<open>Zones DeckBridge owns\<close>

text \<open>
  Which wire ids an operation may have sent to, with a driver that records its calls.
\<close>

definition sends_only :: "int set \<Rightarrow> (int \<times> bytes) list render_state \<Rightarrow> (int \<times> bytes) list render_state \<Rightarrow> bool" where
  "sends_only W s s' \<longleftrightarrow> (\<exists>calls. rs_dev s' = rs_dev s @ calls \<and> fst ` set calls \<subseteq> W)"

lemma sends_refl [simp]: "sends_only W s s" by (simp add: sends_only_def)

lemma sends_trans: "sends_only W s s' \<Longrightarrow> sends_only W s' s'' \<Longrightarrow> sends_only W s s''"
proof -
  assume "sends_only W s s'" "sends_only W s' s''"
  then obtain a b where "rs_dev s'' = rs_dev s @ (a @ b)" "fst ` set a \<subseteq> W" "fst ` set b \<subseteq> W"
    by (auto simp only: sends_only_def append_assoc)
  then show "sends_only W s s''" unfolding sends_only_def by (intro exI[of _ "a @ b"]) (simp add: image_Un)
qed

lemma sends_out [simp]: "sends_only W (s\<lparr>rs_out := n\<rparr>) s' = sends_only W s s'"
  "sends_only W s (s'\<lparr>rs_out := n\<rparr>) = sends_only W s s'"
  by (simp_all add: sends_only_def)

lemma sends_upload:
  "upload_transformed N log_send wire bmp sp s = Some s' \<Longrightarrow> wire \<in> W \<Longrightarrow> sends_only W s s'"
  by (auto simp: upload_transformed_def log_send_def sends_only_def split: option.splits sum.splits prod.splits)

lemma sends_zone:
  "sendZone N log_send m ds tc i s = Some s' \<Longrightarrow> wd_wireId (ds ! i) \<in> W \<Longrightarrow> sends_only W s s'"
  by (auto simp: sendZone_def split: option.splits sum.splits prod.splits dest: sends_upload)

lemma sends_each:
  assumes "\<And>x s s'. x \<in> set xs \<Longrightarrow> f x s = Some s' \<Longrightarrow> sends_only W s s'"
  shows "each_opt f xs s = Some s' \<Longrightarrow> sends_only W s s'"
  using assms
proof (induction xs arbitrary: s)
  case (Cons x xs)
  from Cons(2) obtain s1 where s1: "f x s = Some s1" "each_opt f xs s1 = Some s'"
    by (auto simp: bind_eq_Some_conv)
  have "sends_only W s s1" by (rule Cons(3)[OF _ s1(1)]) simp
  moreover have "sends_only W s1 s'" by (rule Cons(1)[OF s1(2)], rule Cons(3)) simp_all
  ultimately show ?case by (rule sends_trans)
qed simp

text \<open>A full-strip upload is not even tried while a zone is masked.\<close>

lemma full_strip_masked:
  "tc_mask tc \<noteq> [] \<Longrightarrow> sendFullStrip N send m tc s = Some (False, s)"
  by (simp add: sendFullStrip_def split: option.split)

lemma js_set_set [simp]: "set (js_set xs) = set xs" "js_set xs = [] \<longleftrightarrow> xs = []"
  by (simp_all add: js_set_def)

lemma js_set_distinct: "distinct (js_set xs)"
  by (simp add: js_set_def)

definition display_ids :: "device_model \<Rightarrow> int set" where
  "display_ids m = wd_wireId ` set (or_else (widgetDisplays m) [])"

lemma touched_lt: "i \<in> set (touchedZones n r) \<Longrightarrow> i < n"
  by (simp add: touchedZones_def Let_def split: option.splits)

lemma apply_masked:
  assumes "tc_mask tc \<noteq> []" "canvas_apply N log_send m img r (tc, s) = Some (tc', s')"
  shows "sends_only (display_ids m - set (tc_mask tc)) s s' \<and> tc_mask tc' = tc_mask tc"
proof -
  let ?ds = "or_else (widgetDisplays m) []"
  let ?W = "display_ids m - set (tc_mask tc)"
  obtain e rgb where b: "proc_blit N (tc_rgb tc) PLUS_TOUCH_WIDTH PLUS_TOUCH_HEIGHT img
      (case r of Some r \<Rightarrow> rx r | None \<Rightarrow> 0) (case r of Some r \<Rightarrow> ry r | None \<Rightarrow> 0) = (e, rgb)" by fastforce
  let ?tc = "tc\<lparr>tc_rgb := rgb\<rparr>"
  let ?zone = "\<lambda>i s. if wd_wireId (?ds ! i) \<in> set (tc_mask ?tc) then Some s else sendZone N log_send m ?ds ?tc i s"
  consider "?ds = [] \<or> e \<noteq> None" "tc_mask tc' = tc_mask tc" "s' = s"
    | "tc' = ?tc" "each_opt ?zone (touchedZones (length ?ds) r) s = Some s'"
    using assms full_strip_masked[of ?tc N log_send m s]
    by (auto simp: canvas_apply_def Let_def b split: if_splits option.splits)
  then show ?thesis
  proof cases
    case 2
    have "sends_only ?W t t'" if "i \<in> set (touchedZones (length ?ds) r)" "?zone i t = Some t'" for i t t'
    proof (cases "wd_wireId (?ds ! i) \<in> set (tc_mask tc)")
      case False
      have "wd_wireId (?ds ! i) \<in> display_ids m"
        using touched_lt[OF that(1)] by (simp add: display_ids_def)
      then show ?thesis using that(2) False by (auto intro: sends_zone)
    qed (use that in simp)
    from sends_each[OF this 2(2)] show ?thesis using 2(1) by simp
  qed simp
qed

lemma setMask_masked:
  assumes "mask' \<noteq> []" "canvas_setMask N log_send m mask' (tc, s) = Some (tc', s')"
  shows "sends_only (display_ids m - set mask') s s' \<and> set (tc_mask tc') = set mask'"
proof -
  let ?ds = "or_else (widgetDisplays m) []"
  let ?tc = "tc\<lparr>tc_mask := js_set mask'\<rparr>" and ?rel = "filter (\<lambda>w. w \<notin> set mask') (tc_mask tc)"
  let ?zone = "\<lambda>i s. if wd_wireId (?ds ! i) \<in> set ?rel then sendZone N log_send m ?ds ?tc i s else Some s"
  have r: "canvas_restore N log_send m ?tc ?rel s = Some s'" and tc': "tc' = ?tc"
    using assms(2) by (auto simp: canvas_setMask_def Let_def)
  have "s' = s \<or> each_opt ?zone [0..<length ?ds] s = Some s'"
    using r full_strip_masked[of ?tc N log_send m s] assms(1)
    by (auto simp: canvas_restore_def Let_def simp del: each_opt.simps split: if_splits)
  moreover have "sends_only (display_ids m - set mask') t t'" if "i \<in> set [0..<length ?ds]" "?zone i t = Some t'" for i t t'
  proof (cases "wd_wireId (?ds ! i) \<in> set ?rel")
    case True
    then have "wd_wireId (?ds ! i) \<in> display_ids m - set mask'" using that(1) by (simp add: display_ids_def)
    then show ?thesis using that(2) True by (auto intro: sends_zone)
  qed (use that in auto)
  ultimately show ?thesis using sends_each[of "[0..<length ?ds]" ?zone] tc' by auto
qed

text \<open>C9. While DeckBridge owns some zones of the strip, nothing the Elgato app draws, neither a
full frame nor a patch, and no change of the mask sends an image to a zone that is owned
after it: only the other displays are written, so a widget is never painted over.\<close>

theorem masked_zones_untouched:
  "(tc_mask tc \<noteq> [] \<longrightarrow> canvas_apply N log_send m img r (tc, s) = Some (tc', s')
      \<longrightarrow> sends_only (display_ids m - set (tc_mask tc)) s s' \<and> tc_mask tc' = tc_mask tc)
   \<and> (owned \<noteq> [] \<longrightarrow> canvas_setMask N log_send m owned (tc, s) = Some (tc', s')
      \<longrightarrow> sends_only (display_ids m - set owned) s s' \<and> set (tc_mask tc') = set owned)"
  using apply_masked setMask_masked by blast

definition strip_model :: device_model where
  "strip_model = plain_model\<lparr>widgetDisplays := Some [\<lparr>wd_wireId = 1, wd_image = ZONE_FIT_SPEC, wd_stripX = None\<rparr>,
     \<lparr>wd_wireId = 2, wd_image = ZONE_FIT_SPEC, wd_stripX = None\<rparr>]\<rparr>"

theorem masked_zones_untouched_witness:
  "canvas_setMask copy_native log_send strip_model [1]
     (canvas_reset, \<lparr>rs_cache = new_lru, rs_out = OUT_INITIAL_BYTES, rs_dev = []\<rparr>)
     = Some (canvas_reset\<lparr>tc_mask := [1]\<rparr>, \<lparr>rs_cache = new_lru, rs_out = OUT_INITIAL_BYTES, rs_dev = []\<rparr>)
   \<and> set (tc_mask (canvas_reset\<lparr>tc_mask := [1]\<rparr>)) = {1}"
proof -
  let ?s = "\<lparr>rs_cache = new_lru, rs_out = OUT_INITIAL_BYTES, rs_dev = [] :: (int \<times> bytes) list\<rparr>"
  have "canvas_setMask copy_native log_send strip_model [1] (canvas_reset, ?s) = Some (canvas_reset\<lparr>tc_mask := [1]\<rparr>, ?s)"
    by (simp add: canvas_setMask_def canvas_restore_def canvas_reset_def js_set_def Let_def)
  moreover from masked_zones_untouched[THEN conjunct2, rule_format, OF _ this]
  have "set (tc_mask (canvas_reset\<lparr>tc_mask := [1 :: int]\<rparr>)) = set [1]" by blast
  ultimately show ?thesis by simp
qed

end
