(* ===== verification/Worker_Host.thy ===== *)
theory Worker_Host
  imports Work_Queue Image_Render
begin

text \<open>
  The main thread's proxy of the USB worker: \<^verbatim>\<open>src/ts/src/worker/hid-worker-host.ts\<close>, with the
  messages of \<^verbatim>\<open>worker/hid-worker-protocol.ts\<close>.

  A worker is a number, fresh for every spawn; a promise is a number, fresh for every call of
  \<open>open\<close> and \<open>close\<close>, and settling it is an output event.  What the host posts goes to the list
  \<open>channel\<close>, with the worker it was posted to, so that the queue's messages and the
  unqueued \<^verbatim>\<open>open\<close> and \<^verbatim>\<open>close\<close> keep their order.  Timers are flags; the handler of a timer is an
  operation guarded by its flag.  \<^verbatim>\<open>openResolve\<close> and \<^verbatim>\<open>openReject\<close>, always set and
  cleared together, are one field.  An event handler of the driver's owner runs as a
  separate operation after the one that emitted.  User overrides are of a type \<open>'ov\<close> the host
  only forwards; image specs and strip options are those of \<open>Image_Render\<close>.
\<close>

section \<open>Messages\<close>

datatype 'ov main_to_worker =
    M_open string string "'ov option"
  | M_image int bytes image_format
  | M_imageWithSpec int bytes image_spec
  | M_setBrightness int
  | M_setSleep bool
  | M_clearKey int
  | M_setOverrides "'ov option"
  | M_touchImage bytes "region option"
  | M_setTouchStripMask "int list"
  | M_restoreTouchSegments "int list"
  | M_setTouchStripOptions touch_options
  | M_setLogLevel string
  | M_close

datatype worker_to_main =
    W_opened_ok "string option" "string option" "string option"
  | W_opened_err string
  | W_key int bool
  | W_dial int int
  | W_touch int int
  | W_inputAction string
  | W_log string
  | W_error string
  | W_imageSent int "string option" bool
  | W_stripWrite int bytes bool
  | W_reinit
  | W_disconnect
  | W_closed
  | W_workDone "nat list"

datatype host_event =
    Settled nat "string option"
  | Emit_worker worker_to_main
  | Emit_frameHash int string
  | Emit_error string
  | Emit_disconnect
  | Emit_overload
  | Emit_imagesDrained
  | Warned
  | Terminate nat nat
  | Revoke_url

section \<open>State\<close>

record host_closing =
  hc_worker :: nat
  hc_promise :: nat

record 'ov worker_host =
  wh_model :: string
  overrides :: "'ov option"
  deviceSerial :: "string option"
  deviceFirmware :: "string option"
  hidPath :: "string option"
  touchStripOptions :: touch_options
  worker :: "nat option"
  spawned :: nat
  objectUrl :: bool
  pendingOpen :: "nat option"
  openTimer :: bool
  closing :: "host_closing option"
  queue :: "'ov main_to_worker work_queue"
  coraSuspended :: bool
  localSuspended :: bool
  needStripBase :: bool
  orphans :: "nat list"
  nextPromise :: nat
  channel :: "(nat \<times> nat option \<times> 'ov main_to_worker) list"
  events :: "host_event list"

definition new_host :: "string \<Rightarrow> 'ov option \<Rightarrow> 'ov worker_host" where
  "new_host m ov = \<lparr>wh_model = m, overrides = ov, deviceSerial = None, deviceFirmware = None, hidPath = None,
     touchStripOptions = DEFAULT_TOUCH_STRIP_OPTIONS, worker = None, spawned = 0, objectUrl = False,
     pendingOpen = None, openTimer = False, closing = None, queue = new_work_queue, coraSuspended = False,
     localSuspended = False, needStripBase = False, orphans = [], nextPromise = 0, channel = [], events = []\<rparr>"

definition CLOSE_GRACE_MS :: nat where "CLOSE_GRACE_MS = 1000"

definition emit :: "host_event \<Rightarrow> 'ov worker_host \<Rightarrow> 'ov worker_host" where
  "emit e h = h\<lparr>events := events h @ [e]\<rparr>"

text \<open>A post outside the queue, to the current worker.\<close>

definition post_raw :: "'ov main_to_worker \<Rightarrow> 'ov worker_host \<Rightarrow> 'ov worker_host" where
  "post_raw m h =
     (case worker h of None \<Rightarrow> h | Some w \<Rightarrow> h\<lparr>channel := channel h @ [(w, None, m)]\<rparr>)"

text \<open>A new state of the queue: what it posted meanwhile goes to the current worker.\<close>

definition with_queue :: "'ov main_to_worker work_queue \<Rightarrow> 'ov worker_host \<Rightarrow> 'ov worker_host" where
  "with_queue q h =
     (let posts = drop (length (outbox (queue h))) (outbox q)
      in h\<lparr>queue := q,
           channel := channel h @ (case worker h of None \<Rightarrow> []
             | Some w \<Rightarrow> map (\<lambda>(i, m). (w, Some i, m)) posts)\<rparr>)"

section \<open>Generations, pendingOpen and closing\<close>

definition resetGeneration :: "'ov worker_host \<Rightarrow> 'ov worker_host" where
  "resetGeneration h = h\<lparr>queue := queue_reset (queue h), coraSuspended := False, localSuspended := False,
     needStripBase := False\<rparr>"

definition detachWorker :: "'ov worker_host \<Rightarrow> 'ov worker_host" where
  "detachWorker h =
     (let h1 = resetGeneration (h\<lparr>worker := None\<rparr>)
      in (if objectUrl h1 then emit Revoke_url h1 else h1)\<lparr>objectUrl := False\<rparr>)"

definition cleanupWorker :: "nat \<Rightarrow> 'ov worker_host \<Rightarrow> 'ov worker_host" where
  "cleanupWorker delay h =
     (case worker h of None \<Rightarrow> detachWorker h | Some w \<Rightarrow> emit (Terminate w delay) (detachWorker h))"

text \<open>A promise that nobody waits for any more is not settled again.\<close>

definition settleOpen :: "string option \<Rightarrow> 'ov worker_host \<Rightarrow> 'ov worker_host" where
  "settleOpen err h =
     (let h1 = h\<lparr>openTimer := False, pendingOpen := None\<rparr>
      in case pendingOpen h of None \<Rightarrow> h1 | Some p \<Rightarrow> emit (Settled p err) h1)"

definition finishClose :: "'ov worker_host \<Rightarrow> 'ov worker_host" where
  "finishClose h =
     (case closing h of None \<Rightarrow> h
      | Some c \<Rightarrow> emit (Settled (hc_promise c) None) (h\<lparr>closing := None\<rparr>))"

definition new_promise :: "'ov worker_host \<Rightarrow> nat \<times> 'ov worker_host" where
  "new_promise h = (nextPromise h, h\<lparr>nextPromise := nextPromise h + 1\<rparr>)"

definition host_open :: "string \<Rightarrow> 'ov worker_host \<Rightarrow> nat \<times> 'ov worker_host" where
  "host_open path h =
     (case new_promise h of (p, h) \<Rightarrow>
        if pendingOpen h \<noteq> None then (p, emit (Settled p (Some ''open already in flight'')) h)
        else if closing h \<noteq> None then (p, emit (Settled p (Some ''driver is closing'')) h)
        else
          (let h1 = resetGeneration (h\<lparr>touchStripOptions := DEFAULT_TOUCH_STRIP_OPTIONS\<rparr>);
               h2 = (if worker h1 = None
                     then h1\<lparr>worker := Some (spawned h1), spawned := spawned h1 + 1, objectUrl := True\<rparr>
                     else h1)
           in (p, post_raw (M_open (wh_model h2) path (overrides h2)) (h2\<lparr>pendingOpen := Some p, openTimer := True\<rparr>))))"

definition onOpenTimeout :: "'ov worker_host \<Rightarrow> 'ov worker_host" where
  "onOpenTimeout h =
     (if openTimer h then cleanupWorker 0 (settleOpen (Some ''worker open timed out'') h) else h)"

definition host_close :: "'ov worker_host \<Rightarrow> nat \<times> 'ov worker_host" where
  "host_close h =
     (case closing h of Some c \<Rightarrow> (hc_promise c, h)
      | None \<Rightarrow>
          (case worker h of
             None \<Rightarrow> (case new_promise h of (p, h) \<Rightarrow> (p, emit (Settled p None) h))
           | Some w \<Rightarrow>
               (case new_promise (resetGeneration (settleOpen (Some ''driver closed'') h)) of
                  (p, h1) \<Rightarrow> (p, post_raw M_close (h1\<lparr>closing := Some \<lparr>hc_worker = w, hc_promise = p\<rparr>\<rparr>)))))"

definition onCloseTimeout :: "nat \<Rightarrow> 'ov worker_host \<Rightarrow> 'ov worker_host" where
  "onCloseTimeout w h =
     (case closing h of
        None \<Rightarrow> h
      | Some c \<Rightarrow>
          if hc_worker c \<noteq> w then h
          else
            (let h1 = h\<lparr>closing := None\<rparr>;
                 h2 = (if worker h1 = Some w then detachWorker h1 else h1);
                 h3 = emit Warned (h2\<lparr>orphans := (if w \<in> set (orphans h2) then orphans h2 else orphans h2 @ [w])\<rparr>)
             in emit (Settled (hc_promise c) (Some ''worker close timed out'')) h3))"

section \<open>Submitting work\<close>

definition onOverload :: "bool \<Rightarrow> 'ov worker_host \<Rightarrow> 'ov worker_host" where
  "onOverload loc h =
     (let wasSuspended = localSuspended h;
          dropCora = (\<not> loc \<and> \<not> coraSuspended h);
          h1 = h\<lparr>localSuspended := True, coraSuspended := (if loc then coraSuspended h else True)\<rparr>;
          h2 = (if wasSuspended then h1 else emit Warned h1)
      in if dropCora then emit Emit_overload h2 else h2)"

definition host_submit :: "(nat \<Rightarrow> bool) \<Rightarrow> 'ov main_to_worker \<Rightarrow> 'ov main_to_worker work_options \<Rightarrow> bool
    \<Rightarrow> 'ov worker_host \<Rightarrow> 'ov worker_host" where
  "host_submit throws m opts loc h =
     (if worker h = None \<or> closing h \<noteq> None then h
      else if work_kind opts \<noteq> Kind_control \<and> (if loc then localSuspended h else coraSuspended h) then h
      else if work_kind opts \<noteq> Kind_control \<and> max_posted_bytes DEFAULT_WORK_BUDGETS < work_bytes opts
        then emit Warned h
      else (case submit DEFAULT_WORK_BUDGETS throws m opts (queue h) of
              (a, q) \<Rightarrow>
                (let h1 = with_queue q h
                 in if a = Rejected then onOverload loc h1
                    else if a = Failed then emit Warned h1
                    else h1)))"

definition control_opts :: "'ov main_to_worker work_options" where
  "control_opts = \<lparr>work_kind = Kind_control, work_bytes = 0, coalesceKey = None, snapshot = None\<rparr>"

definition control :: "(nat \<Rightarrow> bool) \<Rightarrow> 'ov main_to_worker \<Rightarrow> 'ov worker_host \<Rightarrow> 'ov worker_host" where
  "control throws m h = host_submit throws m control_opts False h"

text \<open>A number in a template string.\<close>

fun dec_nat :: "nat \<Rightarrow> string" where
  "dec_nat n = (if n < 10 then [hex_digit n] else dec_nat (n div 10) @ [hex_digit (n mod 10)])"

declare dec_nat.simps [simp del]

definition dec_int :: "int \<Rightarrow> string" where
  "dec_int i = (if i < 0 then CHR ''-'' # dec_nat (nat (- i)) else dec_nat (nat i))"

definition cora_key :: "int \<Rightarrow> string" where
  "cora_key k = ''cora:'' @ dec_int k"

definition spec_key :: "(image_spec \<Rightarrow> string) \<Rightarrow> int \<Rightarrow> image_spec \<Rightarrow> string" where
  "spec_key json k sp = ''spec:'' @ dec_int k @ '':'' @ json sp"

definition renderCoraImage :: "(nat \<Rightarrow> bool) \<Rightarrow> int \<Rightarrow> bytes \<Rightarrow> image_format \<Rightarrow> 'ov worker_host \<Rightarrow> 'ov worker_host" where
  "renderCoraImage throws k img fmt h =
     host_submit throws (M_image k img fmt)
       \<lparr>work_kind = Kind_image, work_bytes = length img, coalesceKey = Some (cora_key k),
        snapshot = Some (M_image k img fmt)\<rparr> False h"

definition sendSplashImage :: "(image_spec \<Rightarrow> string) \<Rightarrow> (nat \<Rightarrow> bool) \<Rightarrow> int \<Rightarrow> bytes \<Rightarrow> image_spec
    \<Rightarrow> 'ov worker_host \<Rightarrow> 'ov worker_host" where
  "sendSplashImage json throws k img sp h =
     host_submit throws (M_imageWithSpec k img sp)
       \<lparr>work_kind = Kind_image, work_bytes = length img, coalesceKey = Some (spec_key json k sp),
        snapshot = Some (M_imageWithSpec k img sp)\<rparr> True h"

definition renderTouchImage :: "(nat \<Rightarrow> bool) \<Rightarrow> bytes \<Rightarrow> region option \<Rightarrow> 'ov worker_host \<Rightarrow> 'ov worker_host" where
  "renderTouchImage throws img r h =
     (if needStripBase h \<and> r \<noteq> None then h
      else host_submit throws (M_touchImage img r)
        \<lparr>work_kind = Kind_touch, work_bytes = length img, coalesceKey = None, snapshot = Some (M_touchImage img r)\<rparr>
        False (h\<lparr>needStripBase := False\<rparr>))"

definition setTouchStripMask :: "(nat \<Rightarrow> bool) \<Rightarrow> int list \<Rightarrow> 'ov worker_host \<Rightarrow> 'ov worker_host" where
  "setTouchStripMask throws ids = control throws (M_setTouchStripMask ids)"

definition restoreTouchSegments :: "(nat \<Rightarrow> bool) \<Rightarrow> int list \<Rightarrow> 'ov worker_host \<Rightarrow> 'ov worker_host" where
  "restoreTouchSegments throws ids = control throws (M_restoreTouchSegments ids)"

definition setTouchStripOptions :: "(nat \<Rightarrow> bool) \<Rightarrow> touch_options \<Rightarrow> 'ov worker_host \<Rightarrow> 'ov worker_host" where
  "setTouchStripOptions throws opts h = control throws (M_setTouchStripOptions opts) (h\<lparr>touchStripOptions := opts\<rparr>)"

definition host_setBrightness :: "(nat \<Rightarrow> bool) \<Rightarrow> int \<Rightarrow> 'ov worker_host \<Rightarrow> 'ov worker_host" where
  "host_setBrightness throws l = control throws (M_setBrightness l)"

definition host_setSleep :: "(nat \<Rightarrow> bool) \<Rightarrow> bool \<Rightarrow> 'ov worker_host \<Rightarrow> 'ov worker_host" where
  "host_setSleep throws b = control throws (M_setSleep b)"

definition host_clearKey :: "(nat \<Rightarrow> bool) \<Rightarrow> int \<Rightarrow> 'ov worker_host \<Rightarrow> 'ov worker_host" where
  "host_clearKey throws k = control throws (M_clearKey k)"

definition applyOverrides :: "(nat \<Rightarrow> bool) \<Rightarrow> 'ov option \<Rightarrow> string \<Rightarrow> 'ov worker_host \<Rightarrow> 'ov worker_host" where
  "applyOverrides throws ov m h = control throws (M_setOverrides ov) (h\<lparr>overrides := ov, wh_model := m\<rparr>)"

definition host_setLogLevel :: "(nat \<Rightarrow> bool) \<Rightarrow> string \<Rightarrow> 'ov worker_host \<Rightarrow> 'ov worker_host" where
  "host_setLogLevel throws l = control throws (M_setLogLevel l)"

definition resumeImages :: "'ov worker_host \<Rightarrow> 'ov worker_host" where
  "resumeImages h = (if coraSuspended h then h\<lparr>coraSuspended := False, needStripBase := True\<rparr> else h)"

section \<open>Messages of the worker\<close>

definition resumeLocalIfDrained :: "'ov worker_host \<Rightarrow> 'ov worker_host" where
  "resumeLocalIfDrained h =
     (if \<not> localSuspended h \<or> \<not> queue_isEmpty (queue h) \<or> worker h = None \<or> closing h \<noteq> None then h
      else emit Emit_imagesDrained (h\<lparr>localSuspended := False\<rparr>))"

definition reportError :: "string \<Rightarrow> 'ov worker_host \<Rightarrow> 'ov worker_host" where
  "reportError msg h = emit (Emit_error msg) (emit Warned h)"

definition onLifecycleMessage :: "(nat \<Rightarrow> bool) \<Rightarrow> worker_to_main \<Rightarrow> 'ov worker_host \<Rightarrow> ('ov worker_host) option" where
  "onLifecycleMessage throws msg h =
     (case msg of
        W_workDone ids \<Rightarrow>
          (case queue_complete DEFAULT_WORK_BUDGETS throws ids (queue h) of
             (n, q) \<Rightarrow> Some (if 0 < n then resumeLocalIfDrained (with_queue q h) else with_queue q h))
      | W_disconnect \<Rightarrow> Some (finishClose (cleanupWorker CLOSE_GRACE_MS (emit Emit_disconnect h)))
      | W_closed \<Rightarrow> Some (finishClose (cleanupWorker 0 h))
      | _ \<Rightarrow> None)"

definition onOpened :: "worker_to_main \<Rightarrow> 'ov worker_host \<Rightarrow> 'ov worker_host" where
  "onOpened msg h =
     (case msg of
        W_opened_ok ser fw path \<Rightarrow>
          settleOpen None (h\<lparr>deviceSerial := ser, deviceFirmware := fw, hidPath := path\<rparr>)
      | W_opened_err e \<Rightarrow> settleOpen (Some e) h
      | _ \<Rightarrow> h)"

definition onOrphanMessage :: "nat \<Rightarrow> worker_to_main \<Rightarrow> 'ov worker_host \<Rightarrow> 'ov worker_host" where
  "onOrphanMessage w msg h =
     (if msg = W_closed \<and> w \<in> set (orphans h)
      then emit (Terminate w 0) (h\<lparr>orphans := remove1 w (orphans h)\<rparr>) else h)"

definition onWorkerMessage :: "(nat \<Rightarrow> bool) \<Rightarrow> nat \<Rightarrow> worker_to_main \<Rightarrow> 'ov worker_host \<Rightarrow> 'ov worker_host" where
  "onWorkerMessage throws w msg h =
     (if worker h \<noteq> Some w then onOrphanMessage w msg h
      else case onLifecycleMessage throws msg h of
        Some h' \<Rightarrow> h'
      | None \<Rightarrow>
          (case msg of
             W_opened_ok _ _ _ \<Rightarrow> onOpened msg h
           | W_opened_err _ \<Rightarrow> onOpened msg h
           | W_imageSent k hash cached \<Rightarrow>
               emit (Emit_worker msg) (case hash of Some x \<Rightarrow> emit (Emit_frameHash k x) h | None \<Rightarrow> h)
           | W_log _ \<Rightarrow> emit Warned h
           | W_error e \<Rightarrow> reportError e h
           | _ \<Rightarrow> emit (Emit_worker msg) h))"

text \<open>The worker's \<^verbatim>\<open>error\<close> event.\<close>

definition onWorkerError :: "nat \<Rightarrow> string \<Rightarrow> 'ov worker_host \<Rightarrow> 'ov worker_host" where
  "onWorkerError w msg h =
     (if worker h \<noteq> Some w then h
      else if pendingOpen h \<noteq> None then cleanupWorker 0 (settleOpen (Some msg) h)
      else reportError msg h)"

section \<open>Runs of the host\<close>

text \<open>Everything that can happen to the host: calls of its owner, timers, and the worker's events.\<close>

datatype 'ov host_op =
    Do_open string | Do_openTimeout | Do_close | Do_closeTimeout nat
  | Do_coraImage int bytes image_format | Do_splash int bytes image_spec
  | Do_touch bytes "region option" | Do_mask "int list" | Do_restore "int list"
  | Do_options touch_options | Do_brightness int | Do_sleep bool | Do_clear int
  | Do_overrides "'ov option" string | Do_logLevel string | Do_resume
  | Do_message nat worker_to_main | Do_error nat string

fun host_do :: "(image_spec \<Rightarrow> string) \<Rightarrow> (nat \<Rightarrow> bool) \<Rightarrow> 'ov host_op \<Rightarrow> 'ov worker_host \<Rightarrow> 'ov worker_host" where
  "host_do json t (Do_open path) h = snd (host_open path h)"
| "host_do json t Do_openTimeout h = onOpenTimeout h"
| "host_do json t Do_close h = snd (host_close h)"
| "host_do json t (Do_closeTimeout w) h = onCloseTimeout w h"
| "host_do json t (Do_coraImage k img fmt) h = renderCoraImage t k img fmt h"
| "host_do json t (Do_splash k img sp) h = sendSplashImage json t k img sp h"
| "host_do json t (Do_touch img r) h = renderTouchImage t img r h"
| "host_do json t (Do_mask ids) h = setTouchStripMask t ids h"
| "host_do json t (Do_restore ids) h = restoreTouchSegments t ids h"
| "host_do json t (Do_options opts) h = setTouchStripOptions t opts h"
| "host_do json t (Do_brightness l) h = host_setBrightness t l h"
| "host_do json t (Do_sleep b) h = host_setSleep t b h"
| "host_do json t (Do_clear k) h = host_clearKey t k h"
| "host_do json t (Do_overrides ov m) h = applyOverrides t ov m h"
| "host_do json t (Do_logLevel l) h = host_setLogLevel t l h"
| "host_do json t Do_resume h = resumeImages h"
| "host_do json t (Do_message w msg) h = onWorkerMessage t w msg h"
| "host_do json t (Do_error w msg) h = onWorkerError w msg h"

inductive host_reach :: "(image_spec \<Rightarrow> string) \<Rightarrow> 'ov worker_host \<Rightarrow> bool" for json where
  host_new: "host_reach json (new_host m ov)"
| host_step: "host_reach json h \<Longrightarrow> host_reach json (host_do json throws op h)"

section \<open>Promises\<close>

definition settled :: "'ov worker_host \<Rightarrow> nat list" where
  "settled h = List.concat (map (\<lambda>e. case e of Settled p _ \<Rightarrow> [p] | _ \<Rightarrow> []) (events h))"

definition pending :: "'ov worker_host \<Rightarrow> nat list" where
  "pending h = (case pendingOpen h of Some p \<Rightarrow> [p] | None \<Rightarrow> [])
     @ (case closing h of Some c \<Rightarrow> [hc_promise c] | None \<Rightarrow> [])"

definition promises_ok :: "'ov worker_host \<Rightarrow> bool" where
  "promises_ok h \<longleftrightarrow> distinct (settled h @ pending h) \<and> set (settled h @ pending h) = {..<nextPromise h}
     \<and> (openTimer h \<longleftrightarrow> pendingOpen h \<noteq> None)"

lemma settled_emit [simp]:
  "settled (emit e h) = settled h @ (case e of Settled p _ \<Rightarrow> [p] | _ \<Rightarrow> [])"
  by (simp add: settled_def emit_def)

text \<open>What an operation leaves alone: promises see only these fields.\<close>

definition same_promises :: "'ov worker_host \<Rightarrow> 'ov worker_host \<Rightarrow> bool" where
  "same_promises h h' \<longleftrightarrow> settled h' = settled h \<and> pendingOpen h' = pendingOpen h \<and> openTimer h' = openTimer h
     \<and> closing h' = closing h \<and> nextPromise h' = nextPromise h"

lemma same_promises_ok: "same_promises h h' \<Longrightarrow> promises_ok h \<Longrightarrow> promises_ok h'"
  by (simp add: same_promises_def promises_ok_def pending_def)

lemma same_promises_trans: "same_promises h h' \<Longrightarrow> same_promises h' h'' \<Longrightarrow> same_promises h h''"
  by (simp add: same_promises_def)

lemma same_emit: "(\<And>p e. ev \<noteq> Settled p e) \<Longrightarrow> same_promises h (emit ev h)"
  by (cases ev) (auto simp: same_promises_def emit_def settled_def)

lemma same_reset [simp]: "same_promises h (resetGeneration h)"
  by (simp add: same_promises_def resetGeneration_def settled_def)

lemma same_detach [simp]: "same_promises h (detachWorker h)"
  by (simp add: same_promises_def detachWorker_def resetGeneration_def settled_def emit_def Let_def)

lemma same_cleanup [simp]: "same_promises h (cleanupWorker d h)"
  using same_promises_trans[OF same_detach same_emit]
  by (auto simp: cleanupWorker_def split: option.split)

lemma same_with_queue [simp]: "same_promises h (with_queue q h)"
  by (simp add: same_promises_def with_queue_def settled_def Let_def)

lemma same_post_raw [simp]: "same_promises h (post_raw m h)"
  by (auto simp: same_promises_def post_raw_def settled_def split: option.split)

lemma same_overload [simp]: "same_promises h (onOverload loc h)"
  by (auto simp: same_promises_def onOverload_def settled_def emit_def Let_def)

lemma same_submit [simp]: "same_promises h (host_submit t m opts loc h)"
proof -
  have "same_promises h (onOverload loc (with_queue q h))" "same_promises h (emit Warned (with_queue q h))" for q
    using same_promises_trans[OF same_with_queue same_overload] same_promises_trans[OF same_with_queue same_emit]
    by blast+
  moreover have "same_promises h h" by (simp add: same_promises_def)
  ultimately show ?thesis by (auto simp: host_submit_def same_emit Let_def split: prod.split)
qed

lemma same_submit_fields:
  "same_promises h (host_submit t m opts loc (h\<lparr>needStripBase := b\<rparr>))"
  "same_promises h (host_submit t m opts loc (h\<lparr>touchStripOptions := so\<rparr>))"
  "same_promises h (host_submit t m opts loc (h\<lparr>overrides := ov, wh_model := md\<rparr>))"
  by (rule same_promises_trans[OF _ same_submit], simp add: same_promises_def settled_def)+

text \<open>Settling the open promise or the close promise moves it from pending to settled.\<close>

lemma settleOpen_ok: "promises_ok h \<Longrightarrow> promises_ok (settleOpen err h) \<and> pendingOpen (settleOpen err h) = None
    \<and> closing (settleOpen err h) = closing h \<and> nextPromise (settleOpen err h) = nextPromise h"
  by (cases "pendingOpen h")
    (auto simp: promises_ok_def settleOpen_def pending_def settled_def emit_def split: option.splits)

lemma finishClose_ok: "promises_ok h \<Longrightarrow> promises_ok (finishClose h)"
  by (cases "closing h")
    (auto simp: promises_ok_def finishClose_def pending_def settled_def emit_def split: option.splits)

lemma new_settled_ok:
  assumes "promises_ok h"
  shows "promises_ok (emit (Settled (nextPromise h) e) (snd (new_promise h)))"
proof -
  let ?h = "emit (Settled (nextPromise h) e) (snd (new_promise h))"
  have s: "settled ?h = settled h @ [nextPromise h]"
    by (simp add: new_promise_def settled_def emit_def)
  have f: "pending ?h = pending h" "nextPromise ?h = Suc (nextPromise h)" "openTimer ?h = openTimer h"
    "pendingOpen ?h = pendingOpen h"
    by (simp_all add: new_promise_def emit_def pending_def)
  have d: "distinct (settled h @ pending h)" and r: "set (settled h @ pending h) = {..<nextPromise h}"
    and t: "openTimer h = (pendingOpen h \<noteq> None)"
    using assms by (simp_all only: promises_ok_def)
  have n: "nextPromise h \<notin> set (settled h @ pending h)" unfolding r by simp
  have "distinct (settled ?h @ pending ?h)" unfolding s f using d n by simp
  moreover have "set (settled ?h @ pending ?h) = insert (nextPromise h) (set (settled h @ pending h))"
    unfolding s f by simp
  ultimately show ?thesis unfolding promises_ok_def f r lessThan_Suc using t by simp
qed

text \<open>A fresh promise becomes the pending open or close promise.\<close>

lemma new_pending_ok:
  assumes "promises_ok h" "settled h' = settled h" "nextPromise h' = Suc (nextPromise h)"
    and "set (pending h') = insert (nextPromise h) (set (pending h))" "distinct (pending h')"
    and "openTimer h' = (pendingOpen h' \<noteq> None)"
  shows "promises_ok h'"
proof -
  have d: "distinct (settled h)" and r: "set (settled h @ pending h) = {..<nextPromise h}"
    and dj: "set (settled h) \<inter> set (pending h) = {}"
    using assms(1) by (simp_all add: promises_ok_def)
  have n: "nextPromise h \<notin> set (settled h @ pending h)" unfolding r by simp
  have "distinct (settled h' @ pending h')" using d n dj assms(2,4,5) by simp
  moreover have "set (settled h' @ pending h') = insert (nextPromise h) (set (settled h @ pending h))"
    using assms(2,4) by simp
  ultimately show ?thesis unfolding promises_ok_def assms(3,6) r lessThan_Suc by simp
qed

lemma open_promises: "promises_ok h \<Longrightarrow> promises_ok (snd (host_open path h))"
proof -
  assume ok: "promises_ok h"
  consider (busy) "pendingOpen h \<noteq> None \<or> closing h \<noteq> None" | (go) "pendingOpen h = None" "closing h = None" by blast
  then show ?thesis
  proof cases
    case busy
    then show ?thesis using new_settled_ok[OF ok]
      by (auto simp: host_open_def new_promise_def split: prod.split)
  next
    case go
    have "promises_ok (snd (host_open path h))"
    proof (rule new_pending_ok[OF ok])
      show "settled (snd (host_open path h)) = settled h"
        using go by (simp add: host_open_def new_promise_def settled_def resetGeneration_def post_raw_def Let_def split: option.split)
    qed (use go in \<open>simp_all add: host_open_def new_promise_def pending_def resetGeneration_def post_raw_def Let_def
          split: option.split\<close>)
    then show ?thesis .
  qed
qed

lemma close_promises: "promises_ok h \<Longrightarrow> promises_ok (snd (host_close h))"
proof -
  assume ok: "promises_ok h"
  show ?thesis
  proof (cases "closing h")
    case (Some c)
    then show ?thesis using ok by (simp add: host_close_def)
  next
    case open_state: None
    show ?thesis
    proof (cases "worker h")
      case None
      then show ?thesis using new_settled_ok[OF ok] open_state
        by (auto simp: host_close_def new_promise_def split: prod.split)
    next
      case (Some w)
      let ?s = "resetGeneration (settleOpen (Some ''driver closed'') h)"
      have ok': "promises_ok ?s"
        using settleOpen_ok[OF ok] same_promises_ok[OF same_reset] by blast
      have n: "pendingOpen ?s = None" "closing ?s = None"
        using settleOpen_ok[OF ok] open_state by (auto simp: resetGeneration_def)
      have "promises_ok (snd (host_close h))"
      proof (rule new_pending_ok[OF ok'])
        show "settled (snd (host_close h)) = settled ?s"
          using open_state Some by (simp add: host_close_def new_promise_def settled_def post_raw_def split: option.split)
      qed (use open_state Some n ok' in \<open>simp_all add: host_close_def new_promise_def pending_def post_raw_def
            promises_ok_def split: option.split\<close>)
      then show ?thesis .
    qed
  qed
qed

lemma closeTimeout_promises: "promises_ok h \<Longrightarrow> promises_ok (onCloseTimeout w h)"
proof -
  assume ok: "promises_ok h"
  show ?thesis
  proof (cases "\<exists>c. closing h = Some c \<and> hc_worker c = w")
    case False
    then show ?thesis using ok by (auto simp: onCloseTimeout_def split: option.split)
  next
    case True
    then obtain c where c: "closing h = Some c" "hc_worker c = w" by blast
    have f: "promises_ok (emit (Settled (hc_promise c) e) (h\<lparr>closing := None\<rparr>))" for e
      using ok c(1) by (auto simp: promises_ok_def pending_def settled_def emit_def split: option.splits)
    have "onCloseTimeout w h = emit (Settled (hc_promise c) (Some ''worker close timed out''))
       (emit Warned ((if worker h = Some w then detachWorker (h\<lparr>closing := None\<rparr>) else h\<lparr>closing := None\<rparr>)
          \<lparr>orphans := (if w \<in> set (orphans h) then orphans h else orphans h @ [w])\<rparr>))"
      using c by (simp add: onCloseTimeout_def Let_def detachWorker_def resetGeneration_def emit_def)
    moreover have "promises_ok \<dots>"
      using f[of "Some ''worker close timed out''"]
      by (auto simp: promises_ok_def pending_def settled_def emit_def detachWorker_def resetGeneration_def Let_def)
    ultimately show ?thesis by simp
  qed
qed

lemma same_fields:
  "same_promises h (h\<lparr>deviceSerial := ser, deviceFirmware := fw, hidPath := path\<rparr>)"
  "same_promises h (h\<lparr>orphans := os\<rparr>)" "same_promises h (h\<lparr>localSuspended := b\<rparr>)"
  "same_promises h (h\<lparr>coraSuspended := c, needStripBase := d\<rparr>)" "same_promises h h"
  by (simp_all add: same_promises_def settled_def)

lemma same_resume: "same_promises h (resumeLocalIfDrained h)"
  unfolding resumeLocalIfDrained_def
  using same_fields(5) same_promises_trans[OF same_fields(3) same_emit] by (auto split: if_splits)

lemma same_emit_after: "same_promises h h' \<Longrightarrow> (\<And>p e. ev \<noteq> Settled p e) \<Longrightarrow> same_promises h (emit ev h')"
  using same_promises_trans same_emit by blast

lemma lifecycle_promises:
  assumes "promises_ok h" "onLifecycleMessage t msg h = Some h'"
  shows "promises_ok h'"
proof (cases msg)
  case (W_workDone ids)
  then have "same_promises h h'"
    using assms(2) same_promises_trans[OF same_with_queue same_resume]
    by (auto simp: onLifecycleMessage_def split: prod.splits)
  then show ?thesis using assms(1) same_promises_ok by blast
next
  case W_disconnect
  have "same_promises h (cleanupWorker CLOSE_GRACE_MS (emit Emit_disconnect h))"
    by (rule same_promises_trans[OF same_emit same_cleanup]) simp
  then show ?thesis using W_disconnect assms finishClose_ok same_promises_ok
    by (auto simp: onLifecycleMessage_def)
next
  case W_closed
  then show ?thesis using assms finishClose_ok same_promises_ok[OF same_cleanup]
    by (auto simp: onLifecycleMessage_def)
qed (use assms in \<open>simp_all add: onLifecycleMessage_def\<close>)

lemma opened_promises: "promises_ok h \<Longrightarrow> promises_ok (onOpened msg h)"
  by (cases msg) (simp_all add: onOpened_def settleOpen_ok same_promises_ok[OF same_fields(1)])

lemma message_promises:
  assumes "promises_ok h"
  shows "promises_ok (onWorkerMessage t w msg h)"
proof (cases "worker h \<noteq> Some w \<or> onLifecycleMessage t msg h \<noteq> None")
  case True
  have "same_promises h (onOrphanMessage w msg h)"
    by (simp add: onOrphanMessage_def same_fields same_emit_after)
  then show ?thesis
    using True assms same_promises_ok lifecycle_promises[OF assms] by (auto simp: onWorkerMessage_def)
next
  case False
  show ?thesis
  proof (cases "\<exists>a b c e. msg = W_opened_ok a b c \<or> msg = W_opened_err e")
    case True
    then show ?thesis using False opened_promises[OF assms] by (auto simp: onWorkerMessage_def)
  next
    case other: False
    have "same_promises h (onWorkerMessage t w msg h)"
      using False other
      by (cases msg) (auto simp: onWorkerMessage_def reportError_def same_fields same_emit_after split: option.split)
    then show ?thesis using assms same_promises_ok by blast
  qed
qed

lemma do_promises:
  assumes "promises_ok h"
  shows "promises_ok (host_do json t op h)"
proof -
  have cleanup: "promises_ok (cleanupWorker d (settleOpen e h))" for d e
    using settleOpen_ok[OF assms] same_promises_ok[OF same_cleanup] by blast
  have sub: "promises_ok (host_submit t m opts loc h)" for m opts loc
    using same_promises_ok[OF same_submit assms] .
  have err: "promises_ok (reportError msg h)" for msg
    using same_promises_ok[of h "reportError msg h"] assms by (simp add: reportError_def same_emit_after same_fields)
  have res: "promises_ok (resumeImages h)"
    using same_promises_ok[OF same_fields(4) assms] assms by (simp add: resumeImages_def)
  note submits = renderCoraImage_def sendSplashImage_def renderTouchImage_def setTouchStripMask_def
    restoreTouchSegments_def setTouchStripOptions_def host_setBrightness_def host_setSleep_def host_clearKey_def
    applyOverrides_def host_setLogLevel_def control_def
  show ?thesis
    using assms open_promises[OF assms] close_promises[OF assms] closeTimeout_promises[OF assms]
      message_promises[OF assms] cleanup sub err res same_promises_ok[OF same_submit_fields(1) assms]
      same_promises_ok[OF same_submit_fields(2) assms] same_promises_ok[OF same_submit_fields(3) assms]
    by (cases op) (simp_all add: submits onOpenTimeout_def onWorkerError_def)
qed

lemma reach_promises: "host_reach json h \<Longrightarrow> promises_ok h"
proof (induction rule: host_reach.induct)
  case (host_new m ov)
  then show ?case by (simp add: promises_ok_def new_host_def settled_def pending_def)
qed (rule do_promises)

section \<open>Flow\<close>

text \<open>
  Without a worker, or while it closes, nothing is queued; a pause of the local producers
  always has an acknowledgement ahead of it.
\<close>

definition flow_ok :: "'ov worker_host \<Rightarrow> bool" where
  "flow_ok h \<longleftrightarrow> queue_ok DEFAULT_WORK_BUDGETS (queue h)
     \<and> (\<forall>c. closing h = Some c \<longrightarrow> worker h = Some (hc_worker c) \<and> pendingOpen h = None)
     \<and> (worker h = None \<or> closing h \<noteq> None \<longrightarrow> queue_isEmpty (queue h))
     \<and> (localSuspended h \<longrightarrow> posted (queue h) \<noteq> [])
     \<and> (\<forall>w. worker h = Some w \<longrightarrow> w < spawned h \<and> w \<notin> set (orphans h))
     \<and> (\<forall>w\<in>set (orphans h). w < spawned h) \<and> distinct (orphans h)"

lemma budgets_pos: "0 < max_posted DEFAULT_WORK_BUDGETS"
  by (simp add: DEFAULT_WORK_BUDGETS_def)

lemma reset_empty [simp]: "queue_isEmpty (queue_reset q)" "posted (queue_reset q) = []"
  by (simp_all add: queue_reset_def queue_isEmpty_def)

lemma flow_emit [simp]: "flow_ok (emit e h) = flow_ok h"
  by (simp add: flow_ok_def emit_def)

lemma flow_reset: "flow_ok h \<Longrightarrow> flow_ok (resetGeneration h)"
  by (simp add: flow_ok_def resetGeneration_def reset_ok)

lemma flow_post_raw [simp]: "flow_ok (post_raw m h) = flow_ok h"
  by (simp add: flow_ok_def post_raw_def split: option.split)

lemma flow_identity:
  "flow_ok (h\<lparr>deviceSerial := ser, deviceFirmware := fw, hidPath := path\<rparr>) = flow_ok h"
  by (simp add: flow_ok_def)

lemma flow_settleOpen: "flow_ok h \<Longrightarrow> flow_ok (settleOpen e h)"
  by (cases "pendingOpen h") (simp_all add: settleOpen_def flow_ok_def emit_def)

lemma detach_fields [simp]:
  "worker (detachWorker h) = None" "queue (detachWorker h) = queue_reset (queue h)"
  "closing (detachWorker h) = closing h" "pendingOpen (detachWorker h) = pendingOpen h"
  "localSuspended (detachWorker h) = False" "spawned (detachWorker h) = spawned h"
  "orphans (detachWorker h) = orphans h"
  by (simp_all add: detachWorker_def resetGeneration_def emit_def Let_def)

lemma flow_detach:
  "flow_ok h \<Longrightarrow> flow_ok (detachWorker (h\<lparr>closing := None\<rparr>))"
  by (simp add: flow_ok_def reset_ok)

text \<open>The worker goes away while its close may be pending: the promise is settled with it.\<close>

lemma cleanup_fields [simp]:
  "worker (cleanupWorker d h) = None" "queue (cleanupWorker d h) = queue_reset (queue h)"
  "closing (cleanupWorker d h) = closing h" "pendingOpen (cleanupWorker d h) = pendingOpen h"
  "localSuspended (cleanupWorker d h) = False" "spawned (cleanupWorker d h) = spawned h"
  "orphans (cleanupWorker d h) = orphans h"
  by (simp_all add: cleanupWorker_def emit_def split: option.split)

lemma flow_cleanup:
  "flow_ok h \<Longrightarrow> closing h = None \<Longrightarrow> flow_ok (cleanupWorker d h)"
  by (simp add: flow_ok_def reset_ok)

lemma flow_finishClose_cleanup:
  "flow_ok h \<Longrightarrow> flow_ok (finishClose (cleanupWorker d h))"
  by (cases "closing h") (simp_all add: flow_ok_def finishClose_def reset_ok emit_def)

lemma flow_with_queue:
  assumes "flow_ok h" "queue_ok DEFAULT_WORK_BUDGETS q"
    and "worker h = None \<or> closing h \<noteq> None \<Longrightarrow> queue_isEmpty q" "localSuspended h \<Longrightarrow> posted q \<noteq> []"
  shows "flow_ok (with_queue q h)"
  using assms by (simp add: flow_ok_def with_queue_def Let_def)

lemma flow_overload: "flow_ok h \<Longrightarrow> posted (queue h) \<noteq> [] \<Longrightarrow> flow_ok (onOverload loc h)"
  by (auto simp: onOverload_def flow_ok_def emit_def Let_def)

lemma flow_submit:
  assumes "flow_ok h" "work_kind opts = Kind_control \<longrightarrow> work_bytes opts = 0"
  shows "flow_ok (host_submit t m opts loc h)"
proof (cases "worker h = None \<or> closing h \<noteq> None
    \<or> work_kind opts \<noteq> Kind_control \<and> (if loc then localSuspended h else coraSuspended h)
    \<or> work_kind opts \<noteq> Kind_control \<and> max_posted_bytes DEFAULT_WORK_BUDGETS < work_bytes opts")
  case True
  then show ?thesis using assms(1) by (auto simp: host_submit_def)
next
  case False
  let ?B = DEFAULT_WORK_BUDGETS
  obtain a q where s: "submit ?B t m opts (queue h) = (a, q)" by fastforce
  have ok: "queue_ok ?B (queue h)" using assms(1) by (simp add: flow_ok_def)
  have q: "queue_ok ?B q" using submit_ok[OF ok budgets_pos, of t m opts] s by simp
  have kept: "posted q \<noteq> []" if "localSuspended h"
    using submit_keeps_posted[of ?B "queue h" t m opts] ok assms(1) that s
    by (simp add: flow_ok_def queue_ok_def)
  have f: "flow_ok (with_queue q h)"
    using False by (intro flow_with_queue assms(1) q kept) auto
  have "posted q \<noteq> []" if "a = Rejected"
  proof -
    have "work_bytes opts \<le> max_posted_bytes ?B" using False assms(2) by (cases "work_kind opts = Kind_control") auto
    then show ?thesis using submit_rejected[OF ok budgets_pos] s that by blast
  qed
  then show ?thesis using False s f
    by (auto simp: host_submit_def Let_def intro: flow_overload) (auto simp: with_queue_def Let_def intro!: flow_overload)
qed

lemma flow_resume:
  assumes "flow_ok h"
  shows "flow_ok (resumeLocalIfDrained h)"
  using assms by (simp add: resumeLocalIfDrained_def flow_ok_def emit_def)

text \<open>Before a pause is lifted, only the pause itself may lack its acknowledgement.\<close>

lemma flow_workDone:
  assumes "flow_ok h" "onLifecycleMessage t (W_workDone ids) h = Some h'"
  shows "flow_ok h'"
proof -
  let ?B = DEFAULT_WORK_BUDGETS
  obtain n q where c: "queue_complete ?B t ids (queue h) = (n, q)" by fastforce
  have ok: "queue_ok ?B (queue h)" using assms(1) by (simp add: flow_ok_def)
  have q: "queue_ok ?B q" using complete_ok[OF ok budgets_pos, of t ids] c by simp
  have idle: "queue_isEmpty q" if off: "worker h = None \<or> closing h \<noteq> None"
  proof -
    have "queue_isEmpty (queue h)" using assms(1) off unfolding flow_ok_def by blast
    then show ?thesis using complete_empty[of "queue h" ?B t ids] c by simp
  qed
  show ?thesis
  proof (cases "localSuspended h \<and> queue_isEmpty q")
    case False
    then have "localSuspended h \<Longrightarrow> posted q \<noteq> []"
      using q by (auto simp: queue_ok_def not_stuck_def queue_isEmpty_def)
    then have "flow_ok (with_queue q h)" using flow_with_queue[OF assms(1) q idle] by blast
    then show ?thesis using assms(2) flow_resume by (auto simp: onLifecycleMessage_def c split: if_splits)
  next
    case True
    then have pe: "posted (queue h) \<noteq> []" "posted q = []" using assms(1) by (simp_all add: flow_ok_def queue_isEmpty_def)
    have "0 < n" using complete_released[of ?B "queue h" t ids q] ok pe c by (cases n) (auto simp: queue_ok_def)
    moreover have "worker h \<noteq> None \<and> closing h = None"
      using assms(1) pe(1) by (auto simp: flow_ok_def queue_isEmpty_def)
    ultimately have "h' = emit Emit_imagesDrained ((with_queue q h)\<lparr>localSuspended := False\<rparr>)"
      using True assms(2) by (auto simp: onLifecycleMessage_def c resumeLocalIfDrained_def with_queue_def Let_def)
    moreover have "flow_ok ((with_queue q h)\<lparr>localSuspended := False\<rparr>)"
      using assms(1) q True by (simp add: flow_ok_def with_queue_def Let_def)
    ultimately show ?thesis by simp
  qed
qed

lemma flow_message:
  assumes "flow_ok h"
  shows "flow_ok (onWorkerMessage t w msg h)"
proof (cases "worker h = Some w")
  case False
  have "flow_ok (h\<lparr>orphans := remove1 w (orphans h)\<rparr>)"
    using assms set_remove1_subset[of w "orphans h"] by (auto simp: flow_ok_def)
  then show ?thesis using False assms by (simp add: onWorkerMessage_def onOrphanMessage_def)
next
  case w: True
  show ?thesis
  proof (cases "\<exists>ids. msg = W_workDone ids")
    case True
    then obtain ids where m: "msg = W_workDone ids" by blast
    obtain n q where "queue_complete DEFAULT_WORK_BUDGETS t ids (queue h) = (n, q)" by fastforce
    then obtain h' where "onLifecycleMessage t msg h = Some h'"
      using m by (auto simp: onLifecycleMessage_def)
    then show ?thesis using w m flow_workDone[OF assms] by (simp add: onWorkerMessage_def)
  next
    case False
    show ?thesis
    proof (cases "msg = W_disconnect \<or> msg = W_closed")
      case True
      then show ?thesis using w assms flow_finishClose_cleanup[of "emit Emit_disconnect h"] flow_finishClose_cleanup[of h]
        by (auto simp: onWorkerMessage_def onLifecycleMessage_def)
    next
      case other: False
      have "flow_ok (onOpened msg h)"
        using assms by (cases msg) (simp_all add: onOpened_def flow_settleOpen flow_identity)
      then show ?thesis using False other w assms
        by (cases msg) (simp_all add: onWorkerMessage_def onLifecycleMessage_def reportError_def split: option.split)
    qed
  qed
qed

lemma flow_open:
  assumes "flow_ok h"
  shows "flow_ok (snd (host_open path h))"
proof (cases "pendingOpen h = None \<and> closing h = None")
  case False
  have "flow_ok (h\<lparr>nextPromise := n\<rparr>)" for n using assms by (simp add: flow_ok_def)
  then show ?thesis using False by (auto simp: host_open_def new_promise_def)
next
  case True
  let ?s = "resetGeneration (h\<lparr>nextPromise := Suc (nextPromise h), touchStripOptions := DEFAULT_TOUCH_STRIP_OPTIONS\<rparr>)"
  let ?w = "if worker ?s = None then ?s\<lparr>worker := Some (spawned ?s), spawned := spawned ?s + 1, objectUrl := True\<rparr> else ?s"
  let ?o = "?w\<lparr>pendingOpen := Some (nextPromise h), openTimer := True\<rparr>"
  have "flow_ok (h\<lparr>nextPromise := Suc (nextPromise h), touchStripOptions := DEFAULT_TOUCH_STRIP_OPTIONS\<rparr>)"
    using assms by (simp add: flow_ok_def)
  then have "flow_ok ?s" by (rule flow_reset)
  then have "flow_ok ?w" using True by (auto simp: flow_ok_def resetGeneration_def)
  then have "flow_ok ?o" using True by (simp add: flow_ok_def resetGeneration_def)
  moreover have "snd (host_open path h) = post_raw (M_open (wh_model ?w) path (overrides ?w)) ?o"
    using True by (simp add: host_open_def new_promise_def Let_def)
  ultimately show ?thesis by (simp only: flow_post_raw)
qed

lemma flow_close: "flow_ok h \<Longrightarrow> flow_ok (snd (host_close h))"
proof -
  assume ok: "flow_ok h"
  show ?thesis
  proof (cases "closing h = None \<and> worker h \<noteq> None")
    case True
    then obtain w where w: "worker h = Some w" by blast
    let ?s = "resetGeneration (settleOpen (Some ''driver closed'') h)"
    have s: "flow_ok ?s" using flow_reset flow_settleOpen[OF ok] by blast
    have f: "worker ?s = Some w" "pendingOpen ?s = None" "queue_isEmpty (queue ?s)" "\<not> localSuspended ?s"
      using w by (simp_all add: resetGeneration_def settleOpen_def emit_def Let_def split: option.split)
    let ?c = "?s\<lparr>nextPromise := nextPromise ?s + 1, closing := Some \<lparr>hc_worker = w, hc_promise = nextPromise ?s\<rparr>\<rparr>"
    have "flow_ok ?c" using s f by (simp add: flow_ok_def)
    moreover have "snd (host_close h) = post_raw M_close ?c"
      using True w by (simp add: host_close_def new_promise_def)
    ultimately show ?thesis by (simp only: flow_post_raw)
  next
    case False
    then show ?thesis using ok
      by (auto simp: host_close_def new_promise_def split: option.split) (auto simp: flow_ok_def)
  qed
qed

lemma flow_closeTimeout: "flow_ok h \<Longrightarrow> flow_ok (onCloseTimeout w h)"
proof -
  assume ok: "flow_ok h"
  show ?thesis
  proof (cases "\<exists>c. closing h = Some c \<and> hc_worker c = w")
    case True
    then obtain c where c: "closing h = Some c" "hc_worker c = w" by blast
    have w: "worker h = Some w" "w < spawned h" "w \<notin> set (orphans h)"
      using ok c unfolding flow_ok_def by blast+
    have "flow_ok ((detachWorker (h\<lparr>closing := None\<rparr>))\<lparr>orphans := orphans h @ [w]\<rparr>)"
      using ok w(2,3) by (auto simp: flow_ok_def reset_ok)
    then show ?thesis using c w by (simp add: onCloseTimeout_def Let_def)
  qed (use ok in \<open>auto simp: onCloseTimeout_def split: option.split\<close>)
qed

lemma flow_do:
  assumes "flow_ok h" and assms': "promises_ok h"
  shows "flow_ok (host_do json t op h)"
proof -
  have f: "flow_ok (h\<lparr>needStripBase := b\<rparr>)" "flow_ok (h\<lparr>touchStripOptions := so\<rparr>)"
    "flow_ok (h\<lparr>overrides := ov, wh_model := md\<rparr>)" "flow_ok (h\<lparr>coraSuspended := False, needStripBase := b\<rparr>)" for b so ov md
    using assms(1) by (simp_all add: flow_ok_def)
  have timeout: "flow_ok (onOpenTimeout h)" "flow_ok (onWorkerError w e h)" if "promises_ok h" for w e
  proof -
    have s: "flow_ok (settleOpen x h)" "closing (settleOpen x h) = closing h" for x
      using flow_settleOpen[OF assms(1)] settleOpen_ok[OF that] by blast+
    have c: "closing h = None" if "pendingOpen h \<noteq> None" using assms(1) that unfolding flow_ok_def by (cases "closing h") auto
    show "flow_ok (onOpenTimeout h)"
      using flow_cleanup[OF s(1)] s(2) c that assms(1) by (auto simp: onOpenTimeout_def promises_ok_def)
    show "flow_ok (onWorkerError w e h)"
      using flow_cleanup[OF s(1)] s(2) c assms(1) by (simp add: onWorkerError_def reportError_def)
  qed
  note submits = renderCoraImage_def sendSplashImage_def renderTouchImage_def setTouchStripMask_def
    restoreTouchSegments_def setTouchStripOptions_def host_setBrightness_def host_setSleep_def host_clearKey_def
    applyOverrides_def host_setLogLevel_def control_def control_opts_def resumeImages_def
  show ?thesis
    by (cases op) (simp_all add: submits flow_submit f assms(1) flow_open flow_close flow_closeTimeout
        flow_message timeout[OF assms'])
qed

lemma reach_flow: "host_reach json h \<Longrightarrow> flow_ok h"
proof (induction rule: host_reach.induct)
  case (host_new m ov)
  then show ?case using new_queue_ok by (simp add: flow_ok_def new_host_def queue_isEmpty_def new_work_queue_def)
next
  case (host_step h throws op)
  then show ?case using flow_do reach_promises by blast
qed

section \<open>Properties\<close>

text \<open>The worker acknowledges everything that is posted to it.\<close>

definition host_ack :: "(nat \<Rightarrow> bool) \<Rightarrow> nat \<Rightarrow> 'ov worker_host \<Rightarrow> 'ov worker_host" where
  "host_ack t w h = onWorkerMessage t w (W_workDone (keys_of (posted (queue h)))) h"

lemma host_ack_fields:
  assumes "worker h = Some w"
  shows "queue (host_ack t w h) = ack_all DEFAULT_WORK_BUDGETS t (queue h)" "worker (host_ack t w h) = Some w"
proof -
  obtain n q where c: "queue_complete DEFAULT_WORK_BUDGETS t (keys_of (posted (queue h))) (queue h) = (n, q)" by fastforce
  have "host_ack t w h = (if 0 < n then resumeLocalIfDrained (with_queue q h) else with_queue q h)"
    using assms by (simp add: host_ack_def onWorkerMessage_def onLifecycleMessage_def c)
  then show "queue (host_ack t w h) = ack_all DEFAULT_WORK_BUDGETS t (queue h)" "worker (host_ack t w h) = Some w"
    using assms by (simp_all add: ack_all_def c resumeLocalIfDrained_def with_queue_def emit_def Let_def)
qed

lemma flow_host_ack: "flow_ok h \<Longrightarrow> flow_ok (host_ack t w h)"
  unfolding host_ack_def by (rule flow_message)

lemma host_acks:
  assumes "worker h = Some w" "flow_ok h"
  shows "queue ((host_ack t w ^^ n) h) = (ack_all DEFAULT_WORK_BUDGETS t ^^ n) (queue h)
    \<and> worker ((host_ack t w ^^ n) h) = Some w \<and> flow_ok ((host_ack t w ^^ n) h)"
proof (induction n)
  case (Suc n)
  let ?h = "(host_ack t w ^^ n) h"
  have "flow_ok (host_ack t w ?h)" using Suc flow_host_ack by blast
  then show ?case using Suc host_ack_fields[of ?h w t] by simp
qed (use assms in simp)

text \<open>A run for the witnesses: open, worker ready, then four strip frames of 2 MiB each, of which one is
posted, two wait, and the last finds no room.\<close>

definition big_frame :: bytes where
  "big_frame = replicate 2097152 0"

lemma length_big_frame [simp]: "length big_frame = 2097152"
  by (simp add: big_frame_def)

definition overload_run :: "unit worker_host" where
  "overload_run = fold (host_do (\<lambda>_. []) never)
     [Do_open ''p'', Do_message 0 (W_opened_ok None None None), Do_touch big_frame None,
      Do_touch big_frame None, Do_touch big_frame None, Do_touch big_frame None]
     (new_host ''m'' None)"

lemma fold_reach: "host_reach json h \<Longrightarrow> host_reach json (fold (host_do json t) ops h)"
  by (induction ops arbitrary: h) (auto intro: host_step)

lemma overload_reach: "host_reach (\<lambda>_. []) overload_run"
  unfolding overload_run_def by (rule fold_reach, rule host_new)

text \<open>C10. Every promise of \<open>open\<close> and \<open>close\<close> is settled at most once, and none is forgotten: whatever
calls, timers and worker events came before, in whatever order, a promise that is not settled yet
is settled by the timer of its call at the latest.\<close>

theorem promises_settle_once:
  assumes "host_reach json h"
  shows "distinct (settled h)
    \<and> (\<forall>p<nextPromise h. p \<in> set (settled h)
        \<or> p \<in> set (settled (onOpenTimeout h)) - set (settled h)
        \<or> (\<exists>w. p \<in> set (settled (onCloseTimeout w h)) - set (settled h)))"
proof -
  have ok: "promises_ok h" using reach_promises[OF assms] .
  then have d: "distinct (settled h)" and dj: "set (settled h) \<inter> set (pending h) = {}"
    and r: "set (settled h) \<union> set (pending h) = {..<nextPromise h}"
    by (simp_all add: promises_ok_def)
  have "p \<in> set (settled (onOpenTimeout h))" if "pendingOpen h = Some p" for p
  proof -
    have t: "openTimer h" using ok that by (simp add: promises_ok_def)
    have "settled (cleanupWorker 0 h') = settled h'" for h' :: "'a worker_host"
      using same_cleanup[of h' 0] by (simp add: same_promises_def)
    then show ?thesis using that t
      by (simp add: onOpenTimeout_def settleOpen_def Let_def)
  qed
  moreover have "p \<in> set (settled (onCloseTimeout (hc_worker c) h))" if "closing h = Some c" "p = hc_promise c" for p c
    using that by (simp add: onCloseTimeout_def Let_def)
  moreover have "p \<in> set (settled h) \<or> pendingOpen h = Some p \<or> (\<exists>c. closing h = Some c \<and> p = hc_promise c)"
    if "p < nextPromise h" for p
  proof -
    have "p \<in> set (settled h) \<union> set (pending h)" unfolding r using that by simp
    then show ?thesis by (cases "closing h"; cases "pendingOpen h") (auto simp: pending_def)
  qed
  moreover have "p \<notin> set (settled h)" if "pendingOpen h = Some p \<or> (\<exists>c. closing h = Some c \<and> p = hc_promise c)" for p
    using dj that by (auto simp: pending_def)
  ultimately show ?thesis using d by blast
qed

theorem promises_settle_once_witness:
  "distinct (settled overload_run)"
  using promises_settle_once[OF overload_reach] by blast

text \<open>A pause of the local image producers always ends: while it lasts something is posted, and
a worker that acknowledges what it is given lifts it within one round more than messages
are waiting, even if posts throw.\<close>

theorem local_pause_ends:
  assumes "host_reach json h" "localSuspended h"
  shows "\<exists>w. worker h = Some w \<and> posted (queue h) \<noteq> []
    \<and> \<not> localSuspended ((host_ack t w ^^ Suc (length (waiting (queue h)))) h)"
proof -
  have ok: "flow_ok h" using reach_flow[OF assms(1)] .
  have p: "posted (queue h) \<noteq> []" and q: "queue_ok DEFAULT_WORK_BUDGETS (queue h)"
    using ok assms(2) by (simp_all add: flow_ok_def)
  then obtain w where w: "worker h = Some w"
    using ok by (cases "worker h") (auto simp: flow_ok_def queue_isEmpty_def)
  let ?n = "Suc (length (waiting (queue h)))"
  let ?q = "(ack_all DEFAULT_WORK_BUDGETS t ^^ length (waiting (queue h))) (queue h)"
  have "waiting ?q = []" using ack_rounds_waiting[OF q budgets_pos, where n = "length (waiting (queue h))" and throws = t] by simp
  then have "queue_isEmpty (ack_all DEFAULT_WORK_BUDGETS t ?q)"
    by (rule ack_all_step(1)[OF ack_rounds_ok[OF q budgets_pos] budgets_pos])
  then have "posted (queue ((host_ack t w ^^ ?n) h)) = []"
    using host_acks[OF w ok, where t = t and n = ?n] by (simp add: queue_isEmpty_def)
  moreover have "flow_ok ((host_ack t w ^^ ?n) h)" using host_acks[OF w ok, where t = t and n = ?n] by blast
  ultimately have "\<not> localSuspended ((host_ack t w ^^ ?n) h)" unfolding flow_ok_def by blast
  then show ?thesis using w p by blast
qed

lemma overload_value: "localSuspended overload_run" "worker overload_run = Some 0"
  by (simp_all add: overload_run_def new_host_def host_open_def new_promise_def resetGeneration_def post_raw_def
      onWorkerMessage_def onLifecycleMessage_def onOpened_def settleOpen_def emit_def renderTouchImage_def
      host_submit_def submit_def post_msg_def with_queue_def push_waiting_def wait_entry_def superseded_by_def
      fitsPosted_def DEFAULT_WORK_BUDGETS_def new_work_queue_def queue_reset_def onOverload_def Let_def)

end
