(* ===== verification/Hid_Worker.thy ===== *)
theory Hid_Worker
  imports Worker_Host "HOL-Library.Sublist"
begin

text \<open>
  The USB worker thread: \<^verbatim>\<open>src/ts/src/worker/hid-worker.ts\<close>.

  The promise chain \<^verbatim>\<open>queue\<close> is a list of tasks that run one after the other; a task is atomic,
  and messages and the batch timer are handled between tasks.  What the worker posts is the
  list \<open>wk_out\<close>.  The model registry, the merge of user overrides and the driver's methods are
  the fields of an environment, each method a function on the device state \<open>'d\<close> that may throw a
  message; \<open>we_batch\<close> holds what a driver that can batch does before and after the uploads.  A task
  that calls the native transform may not return, which is the value \<open>None\<close>.  Forwarding the
  driver's input events to the main thread, and log lines, are left out.
\<close>

section \<open>State\<close>

type_synonym 'd device_op = "'d \<Rightarrow> string option \<times> 'd"

record ('d, 'ov) worker_env =
  we_native :: native_image
  we_find :: "string \<Rightarrow> device_model option"
  we_merge :: "device_model \<Rightarrow> 'ov option \<Rightarrow> device_model"
  we_open :: "device_model \<Rightarrow> string \<Rightarrow> 'd \<Rightarrow> (string + string option \<times> string option \<times> string option) \<times> 'd"
  we_close :: "'d \<Rightarrow> 'd"
  we_send :: "'d send_image"
  we_brightness :: "int \<Rightarrow> 'd device_op"
  we_sleep :: "(bool \<Rightarrow> 'd device_op) option"
  we_clear :: "int \<Rightarrow> 'd device_op"
  we_batch :: "('d device_op \<times> 'd device_op) option"
  we_message :: "image_error \<Rightarrow> string"

type_synonym 'ov work_message = "nat option \<times> 'ov main_to_worker"

datatype 'ov task = Task_batch "'ov work_message list" | Task_one "'ov work_message"

record ('d, 'ov) hid_worker =
  wk_driver :: bool
  currentModel :: "device_model option"
  openRegistryModel :: "device_model option"
  touchCanvas :: touch_canvas
  wk_render :: "'d render_state"
  wk_tasks :: "'ov task list"
  pendingImages :: "'ov work_message list"
  batchTimer :: bool
  wk_out :: "worker_to_main list"

definition new_worker :: "'d \<Rightarrow> ('d, 'ov) hid_worker" where
  "new_worker d = \<lparr>wk_driver = False, currentModel = None, openRegistryModel = None,
     touchCanvas = canvas_reset, wk_render = \<lparr>rs_cache = new_lru, rs_out = OUT_INITIAL_BYTES, rs_dev = d\<rparr>,
     wk_tasks = [], pendingImages = [], batchTimer = False, wk_out = []\<rparr>"

definition wk_post :: "worker_to_main \<Rightarrow> ('d, 'ov) hid_worker \<Rightarrow> ('d, 'ov) hid_worker" where
  "wk_post m w = w\<lparr>wk_out := wk_out w @ [m]\<rparr>"

section \<open>Handling one message\<close>

text \<open>A handler returns an error message when it throws.\<close>

type_synonym ('d, 'ov) handled = "(string option \<times> ('d, 'ov) hid_worker) option"

definition device_call :: "'d device_op \<Rightarrow> ('d, 'ov) hid_worker \<Rightarrow> ('d, 'ov) handled" where
  "device_call f w =
     (case f (rs_dev (wk_render w)) of
        (e, d) \<Rightarrow> Some (e, w\<lparr>wk_render := (wk_render w)\<lparr>rs_dev := d\<rparr>\<rparr>))"

definition handleOpen :: "('d, 'ov) worker_env \<Rightarrow> string \<Rightarrow> string \<Rightarrow> 'ov option \<Rightarrow> ('d, 'ov) hid_worker
    \<Rightarrow> ('d, 'ov) handled" where
  "handleOpen E modelId path ov w =
     (case we_find E modelId of
        None \<Rightarrow> Some (None, wk_post (W_opened_err (''Unknown modelId: '' @ modelId)) w)
      | Some reg \<Rightarrow>
          (let m = we_merge E reg ov; r = wk_render w
           in case we_open E m path (rs_dev r) of
                (res, d) \<Rightarrow>
                  (let w1 = w\<lparr>wk_driver := True, currentModel := Some m, openRegistryModel := Some reg,
                              touchCanvas := canvas_reset,
                              wk_render := r\<lparr>rs_cache := lru_clear (rs_cache r), rs_dev := d\<rparr>\<rparr>
                   in Some (None, wk_post (case res of Inl e \<Rightarrow> W_opened_err e
                                            | Inr (ser, fw, p) \<Rightarrow> W_opened_ok ser fw p) w1))))"

definition applyLiveOverrides :: "('d, 'ov) worker_env \<Rightarrow> 'ov option \<Rightarrow> ('d, 'ov) hid_worker \<Rightarrow> ('d, 'ov) hid_worker" where
  "applyLiveOverrides E ov w =
     (case openRegistryModel w of
        None \<Rightarrow> w
      | Some reg \<Rightarrow> w\<lparr>currentModel := Some (we_merge E reg ov),
          wk_render := (wk_render w)\<lparr>rs_cache := lru_clear (rs_cache (wk_render w))\<rparr>\<rparr>)"

definition imageSent :: "int \<Rightarrow> (string \<times> bool) option \<Rightarrow> worker_to_main" where
  "imageSent k r = (case r of None \<Rightarrow> W_imageSent k None False | Some (hash, cached) \<Rightarrow> W_imageSent k (Some hash) cached)"

text \<open>The result of \<^verbatim>\<open>handleImage\<close>: an error, nothing (no driver), or the hash and the cache flag.\<close>

definition handleImage :: "('d, 'ov) worker_env \<Rightarrow> int \<Rightarrow> bytes \<Rightarrow> image_format \<Rightarrow> bool \<Rightarrow> ('d, 'ov) hid_worker
    \<Rightarrow> ((string + (string \<times> bool) option) \<times> ('d, 'ov) hid_worker) option" where
  "handleImage E k img fmt deferred w =
     (case (wk_driver w, currentModel w) of
        (True, Some m) \<Rightarrow>
          (case renderImage (we_native E) (we_send E) m k img fmt (wk_render w) of
             None \<Rightarrow> None
           | Some (Inl e, r) \<Rightarrow> Some (Inl (we_message E e), w\<lparr>wk_render := r\<rparr>)
           | Some (Inr x, r) \<Rightarrow>
               (let w1 = w\<lparr>wk_render := r\<rparr>
                in Some (Inr (Some x), if deferred then w1 else wk_post (imageSent k (Some x)) w1)))
      | _ \<Rightarrow> Some (Inr None, w))"

definition handleSplashImage :: "('d, 'ov) worker_env \<Rightarrow> int \<Rightarrow> bytes \<Rightarrow> image_spec \<Rightarrow> ('d, 'ov) hid_worker
    \<Rightarrow> ('d, 'ov) handled" where
  "handleSplashImage E k img sp w =
     (if \<not> wk_driver w then Some (None, w)
      else (case transformImageForDevice (we_native E) img sp (rs_out (wk_render w)) of
              None \<Rightarrow> None
            | Some (Inl e, n) \<Rightarrow> Some (Some (we_message E e), w\<lparr>wk_render := (wk_render w)\<lparr>rs_out := n\<rparr>\<rparr>)
            | Some (Inr bs, n) \<Rightarrow>
                device_call (we_send E k bs) (w\<lparr>wk_render := (wk_render w)\<lparr>rs_out := n\<rparr>\<rparr>)))"

definition isTouchStripMsg :: "'ov main_to_worker \<Rightarrow> bool" where
  "isTouchStripMsg msg = (case msg of M_touchImage _ _ \<Rightarrow> True | M_setTouchStripMask _ \<Rightarrow> True
     | M_restoreTouchSegments _ \<Rightarrow> True | M_setTouchStripOptions _ \<Rightarrow> True | _ \<Rightarrow> False)"

definition handleTouchStripMsg :: "('d, 'ov) worker_env \<Rightarrow> 'ov main_to_worker \<Rightarrow> ('d, 'ov) hid_worker
    \<Rightarrow> ('d, 'ov) hid_worker option" where
  "handleTouchStripMsg E msg w =
     (case msg of
        M_setTouchStripOptions opts \<Rightarrow> Some (w\<lparr>touchCanvas := canvas_setOptions opts (touchCanvas w)\<rparr>)
      | _ \<Rightarrow>
        (case (wk_driver w, currentModel w) of
           (True, Some m) \<Rightarrow>
             (let N = we_native E; send = we_send E; cs = (touchCanvas w, wk_render w);
                  store = (\<lambda>(tc, r). w\<lparr>touchCanvas := tc, wk_render := r\<rparr>)
              in case msg of
                   M_touchImage img r \<Rightarrow> map_option store (canvas_apply N send m img r cs)
                 | M_setTouchStripMask ids \<Rightarrow> map_option store (canvas_setMask N send m ids cs)
                 | M_restoreTouchSegments ids \<Rightarrow>
                     map_option (\<lambda>r. store (touchCanvas w, r)) (canvas_restore N send m (touchCanvas w) ids (wk_render w))
                 | _ \<Rightarrow> Some w)
         | _ \<Rightarrow> Some w))"

text \<open>A method of the driver, skipped when there is none (\<^verbatim>\<open>driver?.\<close>).\<close>

definition driver_call :: "'d device_op \<Rightarrow> ('d, 'ov) hid_worker \<Rightarrow> ('d, 'ov) handled" where
  "driver_call f w = (if wk_driver w then device_call f w else Some (None, w))"

definition handleClose :: "('d, 'ov) worker_env \<Rightarrow> ('d, 'ov) hid_worker \<Rightarrow> ('d, 'ov) hid_worker" where
  "handleClose E w =
     (let r = wk_render w;
          r1 = (if wk_driver w then r\<lparr>rs_dev := we_close E (rs_dev r)\<rparr> else r)
      in wk_post W_closed (w\<lparr>wk_driver := False, currentModel := None, openRegistryModel := None,
           touchCanvas := canvas_reset, wk_render := r1\<rparr>))"

text \<open>
  The result carries the render result of a CORA image, which a batch announces later (the
  \<^verbatim>\<open>deferredRenders\<close> of the source).
\<close>

definition handle :: "('d, 'ov) worker_env \<Rightarrow> 'ov main_to_worker \<Rightarrow> bool \<Rightarrow> ('d, 'ov) hid_worker
    \<Rightarrow> ((string option \<times> (string \<times> bool) option) \<times> ('d, 'ov) hid_worker) option" where
  "handle E msg deferred w =
     (let plain = map_option (\<lambda>(e, w). ((e, None), w))
      in if isTouchStripMsg msg then map_option (\<lambda>w. ((None, None), w)) (handleTouchStripMsg E msg w)
      else case msg of
        M_open modelId path ov \<Rightarrow> plain (handleOpen E modelId path ov w)
      | M_image k img fmt \<Rightarrow>
          (case handleImage E k img fmt deferred w of
             None \<Rightarrow> None
           | Some (Inl e, w) \<Rightarrow> Some ((Some e, None), w)
           | Some (Inr x, w) \<Rightarrow> Some ((None, x), w))
      | M_imageWithSpec k img sp \<Rightarrow> plain (handleSplashImage E k img sp w)
      | M_setBrightness l \<Rightarrow> plain (driver_call (we_brightness E l) w)
      | M_setSleep b \<Rightarrow> plain (case we_sleep E of None \<Rightarrow> Some (None, w) | Some f \<Rightarrow> driver_call (f b) w)
      | M_clearKey k \<Rightarrow> plain (driver_call (we_clear E k) w)
      | M_close \<Rightarrow> Some ((None, None), handleClose E w)
      | M_setOverrides ov \<Rightarrow> Some ((None, None), applyLiveOverrides E ov w)
      | _ \<Rightarrow> Some ((None, None), w))"

section \<open>The queue of tasks\<close>

definition ids_of :: "'ov work_message list \<Rightarrow> nat list" where
  "ids_of msgs = List.map_filter fst msgs"

definition workDone :: "'ov work_message list \<Rightarrow> ('d, 'ov) hid_worker \<Rightarrow> ('d, 'ov) hid_worker" where
  "workDone msgs w = (if ids_of msgs = [] then w else wk_post (W_workDone (ids_of msgs)) w)"

text \<open>The uploads of a batch, up to the first that throws, with their render results.\<close>

fun batch_run :: "('d, 'ov) worker_env \<Rightarrow> 'ov work_message list \<Rightarrow> ('d, 'ov) hid_worker
    \<Rightarrow> ((string option \<times> (string \<times> bool) option list) \<times> ('d, 'ov) hid_worker) option" where
  "batch_run E [] w = Some ((None, []), w)"
| "batch_run E ((i, msg) # msgs) w =
     (case handle E msg True w of
        None \<Rightarrow> None
      | Some ((Some e, x), w') \<Rightarrow> Some ((Some e, []), w')
      | Some ((None, x), w') \<Rightarrow> map_option (\<lambda>((e, xs), w). ((e, x # xs), w)) (batch_run E msgs w'))"

fun post_sent :: "'ov work_message list \<Rightarrow> (string \<times> bool) option list \<Rightarrow> ('d, 'ov) hid_worker \<Rightarrow> ('d, 'ov) hid_worker" where
  "post_sent ((i, M_image k img fmt) # msgs) (x # xs) w = post_sent msgs xs (wk_post (imageSent k x) w)"
| "post_sent (_ # msgs) (_ # xs) w = post_sent msgs xs w"
| "post_sent _ _ w = w"

text \<open>The commit of a batch runs whether or not an upload threw; its own error wins.\<close>

definition batch_commit :: "('d, 'ov) worker_env \<Rightarrow> 'd device_op \<Rightarrow> 'ov work_message list \<Rightarrow> ('d, 'ov) hid_worker
    \<Rightarrow> ('d, 'ov) handled" where
  "batch_commit E commit images w =
     Option.bind (batch_run E images w) (\<lambda>((e, xs), w1).
       map_option (\<lambda>(e2, w2).
           if e2 \<noteq> None then (e2, w2)
           else if e \<noteq> None then (e, w2)
           else (None, post_sent images xs w2))
         (device_call commit w1))"

definition upload_batch :: "('d, 'ov) worker_env \<Rightarrow> 'ov work_message list \<Rightarrow> ('d, 'ov) hid_worker
    \<Rightarrow> ('d, 'ov) handled" where
  "upload_batch E images w =
     (case (wk_driver w, we_batch E) of
        (True, Some (begin_batch, commit)) \<Rightarrow>
          Option.bind (device_call begin_batch w) (\<lambda>(e0, w0).
            if e0 \<noteq> None then Some (e0, w0) else batch_commit E commit images w0)
      | _ \<Rightarrow> Some (None, w))"

definition handleImageBatch :: "('d, 'ov) worker_env \<Rightarrow> 'ov work_message list \<Rightarrow> ('d, 'ov) hid_worker
    \<Rightarrow> ('d, 'ov) handled" where
  "handleImageBatch E images w = map_option (apsnd (workDone images)) (upload_batch E images w)"

definition post_error :: "string option \<Rightarrow> ('d, 'ov) hid_worker \<Rightarrow> ('d, 'ov) hid_worker" where
  "post_error e w = (case e of None \<Rightarrow> w | Some msg \<Rightarrow> wk_post (W_error msg) w)"

definition run_task :: "('d, 'ov) worker_env \<Rightarrow> 'ov task \<Rightarrow> ('d, 'ov) hid_worker \<Rightarrow> ('d, 'ov) hid_worker option" where
  "run_task E t w =
     (case t of
        Task_batch images \<Rightarrow> map_option (\<lambda>(e, w). post_error e w) (handleImageBatch E images w)
      | Task_one (i, msg) \<Rightarrow>
          map_option (\<lambda>((e, x), w). workDone [(i, msg)] (post_error e w)) (handle E msg False w))"

text \<open>The next link of the promise chain.\<close>

definition run_next :: "('d, 'ov) worker_env \<Rightarrow> ('d, 'ov) hid_worker \<Rightarrow> ('d, 'ov) hid_worker option" where
  "run_next E w =
     (case wk_tasks w of [] \<Rightarrow> Some w | t # ts \<Rightarrow> run_task E t (w\<lparr>wk_tasks := ts\<rparr>))"

definition enqueueImageBatch :: "('d, 'ov) hid_worker \<Rightarrow> ('d, 'ov) hid_worker" where
  "enqueueImageBatch w =
     (let w1 = w\<lparr>batchTimer := False\<rparr>
      in if pendingImages w = [] then w1
         else w1\<lparr>pendingImages := [], wk_tasks := wk_tasks w @ [Task_batch (pendingImages w)]\<rparr>)"

definition is_image :: "'ov main_to_worker \<Rightarrow> bool" where
  "is_image msg = (case msg of M_image _ _ _ \<Rightarrow> True | M_imageWithSpec _ _ _ \<Rightarrow> True | _ \<Rightarrow> False)"

definition batching :: "('d, 'ov) hid_worker \<Rightarrow> bool" where
  "batching w = (case currentModel w of None \<Rightarrow> False | Some m \<Rightarrow> imageBatchingEnabled m)"

definition onMessage :: "'ov work_message \<Rightarrow> ('d, 'ov) hid_worker \<Rightarrow> ('d, 'ov) hid_worker" where
  "onMessage wm w =
     (if batching w \<and> is_image (snd wm) then
        (let w1 = w\<lparr>pendingImages := pendingImages w @ [wm]\<rparr>
         in if length (pendingImages w1) = 15 then enqueueImageBatch w1
            else w1\<lparr>batchTimer := True\<rparr>)
      else (let w1 = enqueueImageBatch w in w1\<lparr>wk_tasks := wk_tasks w1 @ [Task_one wm]\<rparr>))"

definition onBatchTimer :: "('d, 'ov) hid_worker \<Rightarrow> ('d, 'ov) hid_worker" where
  "onBatchTimer w = (if batchTimer w then enqueueImageBatch w else w)"

section \<open>Every handler returns\<close>

definition render_ok :: "'d render_state \<Rightarrow> bool" where
  "render_ok r \<longleftrightarrow> rs_out r \<in> out_sizes \<and> image_cache_ok (rs_cache r)"

definition safe :: "'d render_state option \<Rightarrow> bool" where
  "safe x \<longleftrightarrow> (\<exists>r. x = Some r \<and> render_ok r)"

lemma render_ok_dev [simp]:
  "render_ok (r\<lparr>rs_dev := d\<rparr>) = render_ok r"
  "render_ok (r\<lparr>rs_out := n, rs_dev := d\<rparr>) = (n \<in> out_sizes \<and> image_cache_ok (rs_cache r))"
  "render_ok (r\<lparr>rs_out := n\<rparr>) = (n \<in> out_sizes \<and> image_cache_ok (rs_cache r))"
  by (simp_all add: render_ok_def)

lemma safe_Some [simp]: "safe (Some r) = render_ok r"
  by (simp add: safe_def)

lemma safe_bind: "safe x \<Longrightarrow> (\<And>r. render_ok r \<Longrightarrow> safe (f r)) \<Longrightarrow> safe (Option.bind x f)"
  by (auto simp: safe_def)

lemma transform_safe:
  assumes "native_ok N" "n \<in> out_sizes"
  obtains res n' where "transformImageForDevice N img sp n = Some (res, n')" "n' \<in> out_sizes"
  using transform_loop_result[OF assms, of img "transform_args_of sp"]
  unfolding transformImageForDevice_def by blast

lemma upload_safe:
  assumes "native_ok N" "render_ok s"
  shows "safe (upload_transformed N send wire bmp sp s)"
proof -
  have n: "rs_out s \<in> out_sizes" using assms(2) by (simp add: render_ok_def)
  obtain res n' where "transformImageForDevice N bmp sp (rs_out s) = Some (res, n')" "n' \<in> out_sizes"
    by (rule transform_safe[OF assms(1) n])
  then show ?thesis using assms(2)
    by (cases res) (simp_all add: upload_transformed_def render_ok_def)
qed

lemma zoneBmp_safe:
  assumes "native_ok N" "n \<in> out_sizes"
  shows "\<exists>res n'. zoneBmp N m ds i tc n = Some (res, n') \<and> n' \<in> out_sizes"
proof -
  have "\<exists>res n'. zone_scaled N display zw i tc n = Some (res, n') \<and> n' \<in> out_sizes" for display zw
    unfolding zone_scaled_def Let_def using transform_safe[OF assms] by metis
  then show ?thesis using assms(2)
    by (auto simp: zoneBmp_def Let_def split: option.split)
qed

lemma sendZone_safe:
  assumes "native_ok N" "render_ok s"
  shows "safe (sendZone N send m ds tc i s)"
proof -
  have "rs_out s \<in> out_sizes" using assms(2) by (simp add: render_ok_def)
  from zoneBmp_safe[OF assms(1) this] obtain res n' where
    z: "zoneBmp N m ds i tc (rs_out s) = Some (res, n')" "n' \<in> out_sizes" by blast
  show ?thesis
  proof (cases res)
    case (Inl e)
    then show ?thesis using z assms(2) by (simp add: sendZone_def render_ok_def)
  next
    case (Inr bmp)
    have "render_ok (s\<lparr>rs_out := n'\<rparr>)" using z(2) assms(2) by (simp add: render_ok_def)
    from upload_safe[OF assms(1) this] show ?thesis using z Inr by (simp add: sendZone_def)
  qed
qed

lemma each_safe:
  "(\<And>x s. render_ok s \<Longrightarrow> safe (f x s)) \<Longrightarrow> render_ok s \<Longrightarrow> safe (each_opt f xs s)"
proof (induction xs arbitrary: s)
  case (Cons x xs)
  show ?case unfolding each_opt.simps
    by (rule safe_bind[OF Cons(2)[OF Cons(3)]]) (rule Cons(1)[OF Cons(2)], assumption)
qed simp

lemma fullStrip_safe:
  assumes "native_ok N" "render_ok s"
  shows "\<exists>b s'. sendFullStrip N send m tc s = Some (b, s') \<and> render_ok s'"
proof (cases "touchStripDisplay m")
  case (Some strip)
  obtain s' where "upload_transformed N send (sd_wireId strip) (strip_slice tc 0 PLUS_TOUCH_WIDTH) (sd_image strip) s
      = Some s'" "render_ok s'"
    using upload_safe[OF assms] unfolding safe_def by blast
  then show ?thesis using assms(2) by (auto simp: sendFullStrip_def Some)
qed (use assms(2) in \<open>auto simp: sendFullStrip_def\<close>)

lemma restore_safe:
  assumes "native_ok N" "render_ok s"
  shows "safe (canvas_restore N send m tc ids s)"
proof -
  let ?ds = "or_else (widgetDisplays m) []"
  let ?f = "\<lambda>i s. if wd_wireId (?ds ! i) \<in> set ids then sendZone N send m ?ds tc i s else Some s"
  have z: "safe (each_opt ?f is s')" if "render_ok s'" for "is" s'
    by (rule each_safe[OF _ that]) (simp add: sendZone_safe[OF assms(1)])
  obtain b s' where "sendFullStrip N send m tc s = Some (b, s')" "render_ok s'"
    using fullStrip_safe[OF assms] by blast
  then show ?thesis using z assms(2) unfolding canvas_restore_def Let_def by simp
qed

definition safe_canvas :: "(touch_canvas \<times> 'd render_state) option \<Rightarrow> bool" where
  "safe_canvas x \<longleftrightarrow> (\<exists>tc r. x = Some (tc, r) \<and> render_ok r)"

lemma safe_canvas_Some [simp]: "safe_canvas (Some (tc, r)) = render_ok r"
  by (simp add: safe_canvas_def)

lemma safe_canvas_map: "safe x \<Longrightarrow> safe_canvas (map_option (Pair tc) x)"
  by (auto simp: safe_def safe_canvas_def)

lemma setMask_safe:
  assumes "native_ok N" "render_ok s"
  shows "safe_canvas (canvas_setMask N send m ids (tc, s))"
  unfolding canvas_setMask_def Let_def prod.case
  by (rule safe_canvas_map[OF restore_safe[OF assms]])

lemma apply_safe:
  assumes "native_ok N" "render_ok s"
  shows "safe_canvas (canvas_apply N send m img r (tc, s))"
proof -
  let ?ds = "or_else (widgetDisplays m) []"
  have z: "safe_canvas (map_option (Pair tc') (each_opt (\<lambda>i s. if wd_wireId (?ds ! i) \<in> set (tc_mask tc') then Some s
      else sendZone N send m ?ds tc' i s) is s'))" if "render_ok s'" for "is" s' tc'
    by (rule safe_canvas_map, rule each_safe[OF _ that]) (simp add: sendZone_safe[OF assms(1)])
  have f: "\<exists>b s'. sendFullStrip N send m tc' s = Some (b, s') \<and> render_ok s'" for tc'
    using fullStrip_safe[OF assms] by blast
  show ?thesis
  proof (cases "?ds = []")
    case True
    then show ?thesis using assms(2) by (simp add: canvas_apply_def)
  next
    case ds: False
    obtain e rgb where b: "proc_blit N (tc_rgb tc) PLUS_TOUCH_WIDTH PLUS_TOUCH_HEIGHT img
        (case r of Some r \<Rightarrow> rx r | None \<Rightarrow> 0) (case r of Some r \<Rightarrow> ry r | None \<Rightarrow> 0) = (e, rgb)" by fastforce
    obtain sent s' where "sendFullStrip N send m (tc\<lparr>tc_rgb := rgb\<rparr>) s = Some (sent, s')" "render_ok s'"
      using f by blast
    then show ?thesis
      using ds z[where tc' = "tc\<lparr>tc_rgb := rgb\<rparr>" and s' = s'] z[where tc' = "tc\<lparr>tc_rgb := rgb\<rparr>" and s' = s] assms(2)
      by (cases e) (simp_all add: canvas_apply_def b Let_def)
  qed
qed

lemma dispatch_ok: "render_ok s \<Longrightarrow> render_ok (snd (dispatch_image send m key bs r s))"
  by (auto simp: dispatch_image_def Let_def split: option.split prod.split)

lemma renderImage_safe:
  assumes "native_ok N" "render_ok s"
  shows "\<exists>res s'. renderImage N send m key img fmt s = Some (res, s') \<and> render_ok s'"
proof -
  have n: "rs_out s \<in> out_sizes" and c: "image_cache_ok (rs_cache s)"
    using assms(2) by (simp_all add: render_ok_def)
  obtain hit c1 where g: "lru_get (cache_key N m img) (rs_cache s) = (hit, c1)" by fastforce
  then have c1: "image_cache_ok c1" using image_cache.get_lookup[OF c] by blast
  then have s1: "render_ok (s\<lparr>rs_cache := c1\<rparr>)" using n by (simp add: render_ok_def)
  show ?thesis
  proof (cases hit)
    case (Some bs)
    obtain res s' where "dispatch_image send m key bs (hashJpeg img, True) (s\<lparr>rs_cache := c1\<rparr>) = (res, s')"
      by fastforce
    then show ?thesis using dispatch_ok[OF s1, of send m key bs "(hashJpeg img, True)"]
      by (simp add: renderImage_def g Some)
  next
    case None
    from render_native_direct[OF assms(1) n, of m img fmt key] obtain n' where
      n': "n' \<in> out_sizes" "render_native N m img fmt (rs_out s) = Some (direct_native N (m, key, img, fmt), n')"
      by blast
    show ?thesis
    proof (cases "direct_native N (m, key, img, fmt)")
      case (Inl e)
      then show ?thesis using n' c1 by (simp add: renderImage_def g None render_ok_def)
    next
      case (Inr bs)
      obtain c2 where c2: "lru_set image_cache_limits (cache_key N m img) bs c1 = Some c2" "image_cache_ok c2"
        using image_cache.store_total[OF c1] by blast
      then have "render_ok (s\<lparr>rs_cache := c2, rs_out := n'\<rparr>)" using n' by (simp add: render_ok_def)
      moreover obtain res s' where
        "dispatch_image send m key bs (hashJpeg img, False) (s\<lparr>rs_cache := c2, rs_out := n'\<rparr>) = (res, s')" by fastforce
      ultimately show ?thesis
        using n' c2 dispatch_ok[of "s\<lparr>rs_cache := c2, rs_out := n'\<rparr>" send m key bs "(hashJpeg img, False)"]
        by (simp add: renderImage_def g None Inr)
    qed
  qed
qed

text \<open>A handler leaves the chain and the waiting batch alone and acknowledges nothing.\<close>

definition acked :: "('d, 'ov) hid_worker \<Rightarrow> nat list" where
  "acked w = List.concat (map (\<lambda>m. case m of W_workDone ids \<Rightarrow> ids | _ \<Rightarrow> []) (wk_out w))"

definition handler_step :: "('d, 'ov) hid_worker \<Rightarrow> ('d, 'ov) hid_worker \<Rightarrow> bool" where
  "handler_step w w' \<longleftrightarrow> wk_tasks w' = wk_tasks w \<and> pendingImages w' = pendingImages w
     \<and> batchTimer w' = batchTimer w \<and> acked w' = acked w \<and> prefix (wk_out w) (wk_out w')"

lemma acked_post [simp]:
  "acked (wk_post m w) = acked w @ (case m of W_workDone ids \<Rightarrow> ids | _ \<Rightarrow> [])"
  by (simp add: acked_def wk_post_def)

lemma acked_fields [simp]:
  "acked (w\<lparr>wk_render := r\<rparr>) = acked w" "acked (w\<lparr>touchCanvas := tc\<rparr>) = acked w"
  "acked (w\<lparr>wk_driver := dr\<rparr>) = acked w" "acked (w\<lparr>currentModel := m\<rparr>) = acked w"
  "acked (w\<lparr>openRegistryModel := m\<rparr>) = acked w" "acked (w\<lparr>wk_tasks := ts\<rparr>) = acked w"
  "acked (w\<lparr>pendingImages := ps\<rparr>) = acked w" "acked (w\<lparr>batchTimer := b\<rparr>) = acked w"
  by (simp_all add: acked_def)

lemma post_fields [simp]:
  "wk_tasks (wk_post m w) = wk_tasks w" "pendingImages (wk_post m w) = pendingImages w"
  "batchTimer (wk_post m w) = batchTimer w" "wk_render (wk_post m w) = wk_render w"
  "wk_out (wk_post m w) = wk_out w @ [m]"
  by (simp_all add: wk_post_def)

lemma handler_step_refl [simp]: "handler_step w w"
  by (simp add: handler_step_def)

lemma handler_step_trans: "handler_step w w' \<Longrightarrow> handler_step w' w'' \<Longrightarrow> handler_step w w''"
  unfolding handler_step_def using prefix_order.trans by auto

text \<open>What a call that returns has kept.\<close>

definition kept :: "('d, 'ov) hid_worker \<Rightarrow> ('r \<times> ('d, 'ov) hid_worker) option \<Rightarrow> bool" where
  "kept w x \<longleftrightarrow> (\<exists>r w'. x = Some (r, w') \<and> handler_step w w' \<and> render_ok (wk_render w'))"

lemma kept_Some [simp]: "kept w (Some (r, w')) = (handler_step w w' \<and> render_ok (wk_render w'))"
  by (simp add: kept_def)

lemma kept_map: "kept w x \<Longrightarrow> kept w (map_option (\<lambda>(r, w). (f r, w)) x)"
  by (auto simp: kept_def)

lemma device_call_kept:
  "render_ok (wk_render w) \<Longrightarrow> kept w (device_call f w)"
  by (auto simp: device_call_def kept_def handler_step_def split: prod.split)

lemma driver_call_kept: "render_ok (wk_render w) \<Longrightarrow> kept w (driver_call f w)"
  by (simp add: driver_call_def device_call_kept)

lemma cleared_ok: "render_ok r \<Longrightarrow> render_ok (r\<lparr>rs_cache := lru_clear (rs_cache r)\<rparr>)"
  using image_cache.clear_lookup by (auto simp: render_ok_def)

lemma handleOpen_kept:
  assumes "render_ok (wk_render w)"
  shows "kept w (handleOpen E m path ov w)"
proof (cases "we_find E m")
  case None
  then show ?thesis using assms by (simp add: handleOpen_def handler_step_def)
next
  case (Some reg)
  obtain res d where "we_open E (we_merge E reg ov) path (rs_dev (wk_render w)) = (res, d)" by fastforce
  moreover have "render_ok (wk_render w\<lparr>rs_cache := lru_clear (rs_cache (wk_render w)), rs_dev := d\<rparr>)"
    using cleared_ok[OF assms] by (simp add: render_ok_def)
  ultimately show ?thesis
    by (cases res) (auto simp: handleOpen_def Some handler_step_def Let_def)
qed

lemma handleImage_kept:
  assumes "native_ok (we_native E)" "render_ok (wk_render w)"
  shows "kept w (handleImage E k img fmt deferred w)"
proof (cases "wk_driver w \<and> currentModel w \<noteq> None")
  case False
  then show ?thesis using assms(2) by (auto simp: handleImage_def split: option.split bool.split)
next
  case True
  then obtain m where m: "wk_driver w" "currentModel w = Some m" by blast
  from renderImage_safe[OF assms] obtain res s' where
    "renderImage (we_native E) (we_send E) m k img fmt (wk_render w) = Some (res, s')" "render_ok s'" by blast
  then show ?thesis
    by (cases res) (simp_all add: handleImage_def m handler_step_def imageSent_def Let_def split: prod.split)
qed

lemma handleSplash_kept:
  assumes "native_ok (we_native E)" "render_ok (wk_render w)"
  shows "kept w (handleSplashImage E k img sp w)"
proof -
  have "rs_out (wk_render w) \<in> out_sizes" using assms(2) by (simp add: render_ok_def)
  then obtain res n' where t: "transformImageForDevice (we_native E) img sp (rs_out (wk_render w)) = Some (res, n')"
    "n' \<in> out_sizes" by (rule transform_safe[OF assms(1)])
  then have r: "render_ok (wk_render w\<lparr>rs_out := n'\<rparr>)" using assms(2) by (simp add: render_ok_def)
  show ?thesis
  proof (cases res)
    case (Inl e)
    then show ?thesis using t r assms(2) by (simp add: handleSplashImage_def handler_step_def)
  next
    case (Inr bs)
    let ?w = "w\<lparr>wk_render := wk_render w\<lparr>rs_out := n'\<rparr>\<rparr>"
    have "kept ?w (device_call (we_send E k bs) ?w)" by (rule device_call_kept) (use r in simp)
    then show ?thesis using t Inr assms(2) by (auto simp: handleSplashImage_def kept_def handler_step_def)
  qed
qed

lemma touchStrip_kept:
  assumes "native_ok (we_native E)" "render_ok (wk_render w)"
  shows "\<exists>w'. handleTouchStripMsg E msg w = Some w' \<and> handler_step w w' \<and> render_ok (wk_render w')"
proof (cases "wk_driver w \<and> currentModel w \<noteq> None")
  case False
  then show ?thesis using assms(2)
    by (cases msg) (auto simp: handleTouchStripMsg_def handler_step_def split: option.split bool.split)
next
  case True
  then obtain m where m: "wk_driver w" "currentModel w = Some m" by blast
  note safes = apply_safe[OF assms, of "we_send E" m] setMask_safe[OF assms, of "we_send E" m]
    restore_safe[OF assms, of "we_send E" m]
  show ?thesis
  proof (cases msg)
    case (M_touchImage img r)
    then show ?thesis using safes(1)[of img r "touchCanvas w"]
      by (auto simp: handleTouchStripMsg_def m safe_canvas_def handler_step_def)
  next
    case (M_setTouchStripMask ids)
    then show ?thesis using safes(2)[of ids "touchCanvas w"]
      by (auto simp: handleTouchStripMsg_def m safe_canvas_def handler_step_def)
  next
    case (M_restoreTouchSegments ids)
    then show ?thesis using safes(3)[of "touchCanvas w" ids]
      by (auto simp: handleTouchStripMsg_def m safe_def handler_step_def)
  qed (use assms(2) in \<open>auto simp: handleTouchStripMsg_def m handler_step_def\<close>)
qed

lemma handle_kept:
  assumes "native_ok (we_native E)" "render_ok (wk_render w)"
  shows "kept w (handle E msg deferred w)"
proof (cases "isTouchStripMsg msg")
  case True
  then show ?thesis using touchStrip_kept[OF assms, of msg] by (auto simp: handle_def kept_def)
next
  case False
  have k: "kept w (map_option (\<lambda>(e, w). ((e, None), w)) x)" if "kept w x" for x
    using that by (rule kept_map)
  show ?thesis
  proof (cases msg)
    case (M_image i img fmt)
    then show ?thesis using False handleImage_kept[OF assms, of i img fmt deferred]
      by (auto simp: handle_def kept_def split: sum.splits)
  next
    case (M_setSleep b)
    then show ?thesis using False assms(2) driver_call_kept[OF assms(2)]
      by (auto simp: handle_def isTouchStripMsg_def intro!: k split: option.split)
  next
    case M_close
    then show ?thesis using assms(2)
      by (simp add: handle_def isTouchStripMsg_def handleClose_def handler_step_def Let_def)
  next
    case (M_setOverrides ov)
    then show ?thesis using assms(2) cleared_ok[OF assms(2)]
      by (simp add: handle_def isTouchStripMsg_def applyLiveOverrides_def handler_step_def split: option.split)
  qed (use False assms in \<open>simp_all add: handle_def isTouchStripMsg_def k handleOpen_kept handleSplash_kept driver_call_kept\<close>)
qed

section \<open>Acknowledgements in order\<close>

definition task_messages :: "'ov task \<Rightarrow> 'ov work_message list" where
  "task_messages t = (case t of Task_batch images \<Rightarrow> images | Task_one wm \<Rightarrow> [wm])"

definition backlog :: "('d, 'ov) hid_worker \<Rightarrow> 'ov work_message list" where
  "backlog w = List.concat (map task_messages (wk_tasks w)) @ pendingImages w"

lemma ids_of_simps [simp]:
  "ids_of [] = []" "ids_of (xs @ ys) = ids_of xs @ ids_of ys"
  by (simp_all add: ids_of_def map_filter_def)

lemma acked_workDone [simp]: "acked (workDone msgs w) = acked w @ ids_of msgs"
  by (simp add: workDone_def)

lemma workDone_fields [simp]:
  "wk_tasks (workDone msgs w) = wk_tasks w" "pendingImages (workDone msgs w) = pendingImages w"
  "batchTimer (workDone msgs w) = batchTimer w" "wk_render (workDone msgs w) = wk_render w"
  "prefix xs (wk_out w) \<Longrightarrow> prefix xs (wk_out (workDone msgs w))"
  by (simp_all add: workDone_def)

lemma post_error_fields [simp]:
  "wk_tasks (post_error e w) = wk_tasks w" "pendingImages (post_error e w) = pendingImages w"
  "batchTimer (post_error e w) = batchTimer w" "wk_render (post_error e w) = wk_render w"
  "acked (post_error e w) = acked w" "prefix xs (wk_out w) \<Longrightarrow> prefix xs (wk_out (post_error e w))"
  by (simp_all add: post_error_def split: option.split)

lemma post_sent_step: "handler_step w (post_sent msgs xs w) \<and> wk_render (post_sent msgs xs w) = wk_render w"
proof (induction msgs xs w rule: post_sent.induct)
  case (1 i k img fmt msgs x xs w)
  have "handler_step w (wk_post (imageSent k x) w)"
    by (simp add: handler_step_def imageSent_def split: option.split prod.split)
  then show ?case using 1 handler_step_trans by auto
qed simp_all

lemma batch_run_kept:
  assumes "native_ok (we_native E)" "render_ok (wk_render w)"
  shows "kept w (batch_run E images w)"
  using assms(2)
proof (induction images arbitrary: w)
  case (Cons wm msgs)
  obtain i msg where wm: "wm = (i, msg)" by fastforce
  obtain e x w' where h: "handle E msg True w = Some ((e, x), w')" "handler_step w w'" "render_ok (wk_render w')"
    using handle_kept[OF assms(1) Cons(2), of msg True] by (auto simp: kept_def)
  show ?case
  proof (cases e)
    case None
    from Cons(1)[OF h(3)] obtain r w2 where "batch_run E msgs w' = Some (r, w2)" "handler_step w' w2" "render_ok (wk_render w2)"
      by (auto simp: kept_def)
    then show ?thesis using h None handler_step_trans by (cases r) (auto simp: wm)
  qed (use h in \<open>simp add: wm\<close>)
qed simp

text \<open>Whatever a task does, it returns and acknowledges exactly its own messages.\<close>

lemma batch_acks:
  fixes w :: "('d, 'ov) hid_worker"
  assumes "native_ok (we_native E)" "render_ok (wk_render w)"
  shows "\<exists>e w'. handleImageBatch E images w = Some (e, w') \<and> wk_tasks w' = wk_tasks w
    \<and> pendingImages w' = pendingImages w \<and> batchTimer w' = batchTimer w \<and> render_ok (wk_render w')
    \<and> acked w' = acked w @ ids_of images \<and> prefix (wk_out w) (wk_out w')"
proof -
  have "kept w (upload_batch E images w)"
  proof (cases "wk_driver w \<and> we_batch E \<noteq> None")
    case True
    then obtain bg commit where b: "wk_driver w" "we_batch E = Some (bg, commit)" by auto
    have inner: "kept w0 (batch_commit E commit images w0)" if ok: "render_ok (wk_render w0)" for w0 :: "('d, 'ov) hid_worker"
    proof -
      obtain e xs w1 where r: "batch_run E images w0 = Some ((e, xs), w1)" "handler_step w0 w1" "render_ok (wk_render w1)"
        using batch_run_kept[OF assms(1) ok, of images] by (auto simp: kept_def)
      obtain e2 w2 where c: "device_call commit w1 = Some (e2, w2)" "handler_step w1 w2" "render_ok (wk_render w2)"
        using device_call_kept[OF r(3), of commit] by (auto simp: kept_def)
      have "handler_step w2 (post_sent images xs w2)" "wk_render (post_sent images xs w2) = wk_render w2"
        using post_sent_step by blast+
      moreover have "handler_step w0 w2" using handler_step_trans r(2) c(2) by blast
      ultimately show ?thesis using r c handler_step_trans by (auto simp: batch_commit_def)
    qed
    obtain e0 w0 where c: "device_call bg w = Some (e0, w0)" "handler_step w w0" "render_ok (wk_render w0)"
      using device_call_kept[OF assms(2), of bg] by (auto simp: kept_def)
    then show ?thesis using inner[OF c(3)] handler_step_trans
      by (cases e0) (auto simp: upload_batch_def b kept_def)
  qed (use assms(2) in \<open>auto simp: upload_batch_def split: option.split bool.split\<close>)
  then show ?thesis unfolding handleImageBatch_def by (auto simp: kept_def handler_step_def)
qed

lemma task_acks:
  assumes "native_ok (we_native E)" "render_ok (wk_render w)"
  shows "\<exists>w'. run_task E t w = Some w' \<and> wk_tasks w' = wk_tasks w \<and> pendingImages w' = pendingImages w
    \<and> batchTimer w' = batchTimer w \<and> render_ok (wk_render w') \<and> acked w' = acked w @ ids_of (task_messages t)
    \<and> prefix (wk_out w) (wk_out w')"
proof (cases t)
  case (Task_batch images)
  then show ?thesis using batch_acks[OF assms, of images] by (auto simp: run_task_def task_messages_def)
next
  case (Task_one wm)
  obtain i msg where wm: "wm = (i, msg)" by fastforce
  from handle_kept[OF assms, of msg False] obtain e x w' where
    "handle E msg False w = Some ((e, x), w')" "handler_step w w'" "render_ok (wk_render w')"
    by (auto simp: kept_def)
  then show ?thesis by (simp add: run_task_def task_messages_def Task_one wm handler_step_def)
qed

text \<open>Runs of the thread: it receives messages, its batch timer fires, and its chain advances.\<close>

inductive worker_reach :: "('d, 'ov) worker_env \<Rightarrow> 'ov work_message list \<Rightarrow> ('d, 'ov) hid_worker \<Rightarrow> bool" for E where
  worker_new: "worker_reach E [] (new_worker d)"
| worker_receive: "worker_reach E rs w \<Longrightarrow> worker_reach E (rs @ [wm]) (onMessage wm w)"
| worker_timer: "worker_reach E rs w \<Longrightarrow> worker_reach E rs (onBatchTimer w)"
| worker_runs: "worker_reach E rs w \<Longrightarrow> run_next E w = Some w' \<Longrightarrow> worker_reach E rs w'"

definition worker_ok :: "('d, 'ov) hid_worker \<Rightarrow> bool" where
  "worker_ok w \<longleftrightarrow> length (pendingImages w) < 15 \<and> (batchTimer w \<longleftrightarrow> pendingImages w \<noteq> []) \<and> render_ok (wk_render w)"

lemma enqueue_backlog [simp]:
  "backlog (enqueueImageBatch w) = backlog w" "acked (enqueueImageBatch w) = acked w"
  "pendingImages (enqueueImageBatch w) = []" "batchTimer (enqueueImageBatch w) = False"
  "wk_render (enqueueImageBatch w) = wk_render w"
  by (simp_all add: enqueueImageBatch_def backlog_def task_messages_def Let_def)

lemma onMessage_step:
  assumes "worker_ok w"
  shows "worker_ok (onMessage wm w) \<and> acked (onMessage wm w) = acked w
    \<and> backlog (onMessage wm w) = backlog w @ [wm]"
proof (cases "batching w \<and> is_image (snd wm)")
  case True
  let ?w = "w\<lparr>pendingImages := pendingImages w @ [wm]\<rparr>"
  have "backlog ?w = backlog w @ [wm]" by (simp add: backlog_def)
  then show ?thesis using True assms enqueue_backlog[of ?w]
    by (auto simp: onMessage_def worker_ok_def backlog_def Let_def)
next
  case False
  have "backlog (enqueueImageBatch w) = List.concat (map task_messages (wk_tasks (enqueueImageBatch w)))"
    by (simp add: backlog_def del: enqueue_backlog(1))
  then show ?thesis using False assms
    by (auto simp: onMessage_def worker_ok_def backlog_def[of "_\<lparr>wk_tasks := _\<rparr>"] task_messages_def Let_def)
qed

lemma onBatchTimer_step:
  "worker_ok w \<Longrightarrow> worker_ok (onBatchTimer w) \<and> acked (onBatchTimer w) = acked w \<and> backlog (onBatchTimer w) = backlog w"
  by (simp add: onBatchTimer_def worker_ok_def)

lemma run_next_step:
  assumes "native_ok (we_native E)" "worker_ok w"
  shows "\<exists>w'. run_next E w = Some w' \<and> worker_ok w' \<and> acked w' @ ids_of (backlog w') = acked w @ ids_of (backlog w)
    \<and> wk_tasks w' = tl (wk_tasks w) \<and> pendingImages w' = pendingImages w \<and> prefix (wk_out w) (wk_out w')"
proof (cases "wk_tasks w")
  case (Cons t ts)
  have "render_ok (wk_render (w\<lparr>wk_tasks := ts\<rparr>))" using assms(2) by (simp add: worker_ok_def)
  from task_acks[OF assms(1) this, of t] show ?thesis using assms(2) Cons
    by (auto simp: run_next_def worker_ok_def backlog_def)
qed (use assms(2) in \<open>simp add: run_next_def\<close>)

lemma new_worker_ok: "worker_ok (new_worker d)"
  by (simp add: new_worker_def worker_ok_def render_ok_def out_sizes_eq OUT_INITIAL_BYTES_def image_cache_ok_def
      lru_ok_def lru_counted_def new_lru_def)

lemma reach_worker_ok:
  assumes "worker_reach E rs w" "native_ok (we_native E)"
  shows "worker_ok w \<and> acked w @ ids_of (backlog w) = ids_of rs"
  using assms(1)
proof induction
  case (worker_new d)
  then show ?case using new_worker_ok by (simp add: new_worker_def acked_def backlog_def)
next
  case (worker_receive rs w wm)
  then show ?case using onMessage_step[of w wm] by (simp del: append_assoc add: append_assoc[symmetric])
next
  case (worker_timer rs w)
  then show ?case using onBatchTimer_step[of w] by simp
next
  case (worker_runs rs w w')
  then show ?case using run_next_step[OF assms(2), of w] by auto
qed

lemma batch_timer_empties:
  "worker_ok w \<Longrightarrow> pendingImages (onBatchTimer w) = []"
  by (simp add: onBatchTimer_def worker_ok_def)

text \<open>The chain runs to its end.\<close>

fun run_chain :: "('d, 'ov) worker_env \<Rightarrow> nat \<Rightarrow> ('d, 'ov) hid_worker \<Rightarrow> ('d, 'ov) hid_worker option" where
  "run_chain E 0 w = Some w"
| "run_chain E (Suc n) w = Option.bind (run_next E w) (run_chain E n)"

lemma run_chain_all:
  assumes "native_ok (we_native E)" "worker_ok w" "length (wk_tasks w) = n"
  shows "\<exists>w'. run_chain E n w = Some w' \<and> wk_tasks w' = [] \<and> pendingImages w' = pendingImages w
    \<and> acked w' @ ids_of (backlog w') = acked w @ ids_of (backlog w)"
  using assms(2,3)
proof (induction n arbitrary: w)
  case (Suc n)
  from run_next_step[OF assms(1) Suc(2)] obtain w1 where
    w1: "run_next E w = Some w1" "worker_ok w1" "acked w1 @ ids_of (backlog w1) = acked w @ ids_of (backlog w)"
      "wk_tasks w1 = tl (wk_tasks w)" "pendingImages w1 = pendingImages w" by blast
  from Suc(1)[OF w1(2)] Suc(3) w1 show ?case by auto
qed simp

section \<open>Properties\<close>

text \<open>The thread loses, repeats and reorders nothing: whatever it received, whichever driver
calls, transforms and batch commits throw in between, the ids it has acknowledged followed by
the ids it still holds are the ids received, in order; and fewer than 15 images ever wait for
a batch, never without the timer that will send them.\<close>

theorem acknowledged_in_order:
  assumes "worker_reach E rs w" "native_ok (we_native E)"
  shows "acked w @ ids_of (backlog w) = ids_of rs \<and> length (pendingImages w) < 15
    \<and> (pendingImages w \<noteq> [] \<longleftrightarrow> batchTimer w)"
  using reach_worker_ok[OF assms] by (auto simp: worker_ok_def)

text \<open>A driver for the witnesses that batches, and whose second upload throws.\<close>

definition batch_model :: device_model where
  "batch_model = plain_model\<lparr>dm_id := ''m'', dm_image := (dm_image plain_model)\<lparr>sp_transform := Passthrough\<rparr>,
     dm_batchProtocol := True, dm_batchImages := True\<rparr>"

definition batch_env :: "((int \<times> bytes) list, unit) worker_env" where
  "batch_env = \<lparr>we_native = copy_native, we_find = (\<lambda>i. if i = ''m'' then Some batch_model else None),
     we_merge = (\<lambda>m _. m), we_open = (\<lambda>_ p d. (Inr (None, None, Some p), d)), we_close = (\<lambda>d. d),
     we_send = (\<lambda>k bs d. if d = [] then (None, [(k, bs)]) else (Some ''hid_write'', d)),
     we_brightness = (\<lambda>_ d. (None, d)), we_sleep = None, we_clear = (\<lambda>_ d. (None, d)),
     we_batch = Some (\<lambda>d. (None, d), \<lambda>d. (None, d)), we_message = (\<lambda>_. ''write failed'')\<rparr>"

definition batch_messages :: "unit work_message list" where
  "batch_messages = [(None, M_open ''m'' ''p'' None), (Some 1, M_image 0 [1] Jpeg), (Some 2, M_image 1 [2] Jpeg),
     (Some 3, M_setBrightness 50)]"

text \<open>Opened first; then two images wait, are flushed by the brightness change, and all of it runs.\<close>

definition batch_start :: "((int \<times> bytes) list, unit) hid_worker" where
  "batch_start = the (run_next batch_env (onMessage (batch_messages ! 0) (new_worker [])))"

definition batch_waiting :: "((int \<times> bytes) list, unit) hid_worker" where
  "batch_waiting = fold onMessage (tl batch_messages) batch_start"

lemma batch_start_value:
  "run_next batch_env (onMessage (batch_messages ! 0) (new_worker []))
     = Some ((new_worker [])\<lparr>wk_driver := True, currentModel := Some batch_model,
         openRegistryModel := Some batch_model, wk_out := [W_opened_ok None None (Some ''p'')]\<rparr>)"
  by (simp add: batch_messages_def onMessage_def new_worker_def batching_def enqueueImageBatch_def run_next_def
      run_task_def handle_def isTouchStripMsg_def handleOpen_def batch_env_def wk_post_def post_error_def
      workDone_def ids_of_def map_filter_def new_lru_def lru_clear_def Let_def)

lemmas batch_start_eq = batch_start_def[unfolded batch_start_value option.sel]

lemma batch_reach: "worker_reach batch_env batch_messages batch_waiting"
proof -
  have "worker_reach batch_env [batch_messages ! 0] batch_start"
    using worker_runs[OF worker_receive[OF worker_new[of batch_env "[]"], of "batch_messages ! 0"] batch_start_value]
    by (simp add: batch_start_def batch_start_value)
  then have "worker_reach batch_env ([batch_messages ! 0] @ [batch_messages ! 1] @ [batch_messages ! 2] @ [batch_messages ! 3])
      (onMessage (batch_messages ! 3) (onMessage (batch_messages ! 2) (onMessage (batch_messages ! 1) batch_start)))"
    using worker_receive by (metis append_assoc)
  then show ?thesis by (simp add: batch_waiting_def batch_messages_def)
qed

lemma batch_waiting_value: "length (wk_tasks batch_waiting) = 2" "pendingImages batch_waiting = []"
  by (simp_all add: batch_waiting_def batch_start_eq batch_messages_def onMessage_def batching_def
      is_image_def enqueueImageBatch_def batch_model_def imageBatchingEnabled_def new_worker_def Let_def)

lemma batch_native: "native_ok (we_native batch_env)"
  by (simp add: batch_env_def copy_native_ok)

text \<open>C11. The thread never hangs on what it received: once the batch timer has fired, running its
chain to the end returns, with every id acknowledged, once and in order, even when uploads throw.\<close>

theorem every_message_acknowledged:
  assumes "worker_reach E rs w" "native_ok (we_native E)"
  shows "\<exists>w'. run_chain E (length (wk_tasks (onBatchTimer w))) (onBatchTimer w) = Some w'
    \<and> acked w' = ids_of rs \<and> backlog w' = []"
proof -
  have ok: "worker_ok w" and a: "acked w @ ids_of (backlog w) = ids_of rs" using reach_worker_ok[OF assms] by blast+
  note t = onBatchTimer_step[OF ok]
  from run_chain_all[OF assms(2), of "onBatchTimer w"] t obtain w' where
    w': "run_chain E (length (wk_tasks (onBatchTimer w))) (onBatchTimer w) = Some w'"
      "wk_tasks w' = []" "pendingImages w' = []" "acked w' @ ids_of (backlog w') = ids_of rs"
    using batch_timer_empties[OF ok] a by auto
  then show ?thesis by (simp add: backlog_def)
qed

theorem every_message_acknowledged_witness:
  "\<exists>w'. run_chain batch_env 2 batch_waiting = Some w' \<and> acked w' = [1, 2, 3]"
proof -
  have "onBatchTimer batch_waiting = batch_waiting"
    using reach_worker_ok[OF batch_reach batch_native] batch_waiting_value by (simp add: worker_ok_def onBatchTimer_def)
  then show ?thesis
    using every_message_acknowledged[OF batch_reach batch_native] batch_waiting_value
    by (auto simp: batch_messages_def ids_of_def map_filter_def)
qed

end
