(* ===== verification/Worker_System.thy ===== *)
theory Worker_System
  imports Hid_Worker
begin

text \<open>
  The main thread's proxy and its worker threads together: \<^verbatim>\<open>worker/hid-worker-host.ts\<close> and
  \<^verbatim>\<open>worker/hid-worker.ts\<close> over the two ordered message channels of a worker.

  A step is one event of one side: the host runs an operation of its owner or a timer, a
  thread takes the next message posted to it, its batch timer fires, its chain advances, or
  the host hears the next message a thread posted.  Any interleaving is a run.  A worker that
  the host has given up keeps running; what it still posts reaches the host as an orphan's.
  The lemmas follow the ids of the host's posting credits around this loop; the last section
  shows that coalescing waiting images changes nothing on the panel.
\<close>

section \<open>What a host operation does to credits and channel\<close>

text \<open>Credits are only taken for messages that were posted.\<close>

definition posts :: "'m work_queue \<Rightarrow> 'm work_queue \<Rightarrow> bool" where
  "posts q q' \<longleftrightarrow> (\<exists>ys. outbox q' = outbox q @ ys
     \<and> set (keys_of (posted q')) \<subseteq> set (keys_of (posted q)) \<union> set (keys_of ys))"

lemma posts_refl [simp]: "posts q q"
  by (simp add: posts_def)

lemma posts_trans:
  assumes "posts q q'" "posts q' q''"
  shows "posts q q''"
proof -
  obtain ys zs where "outbox q' = outbox q @ ys" "outbox q'' = outbox q' @ zs"
    and k: "set (keys_of (posted q')) \<subseteq> set (keys_of (posted q)) \<union> set (keys_of ys)"
      "set (keys_of (posted q'')) \<subseteq> set (keys_of (posted q')) \<union> set (keys_of zs)"
    using assms unfolding posts_def by blast
  then have "outbox q'' = outbox q @ ys @ zs" by simp
  moreover have "set (keys_of (posted q'')) \<subseteq> set (keys_of (posted q)) \<union> set (keys_of (ys @ zs))"
    unfolding map_append set_append using k by blast
  ultimately show ?thesis unfolding posts_def by blast
qed

lemma posts_same: "outbox q' = outbox q \<Longrightarrow> set (keys_of (posted q')) \<subseteq> set (keys_of (posted q)) \<Longrightarrow> posts q q'"
  by (auto simp: posts_def)

lemma posts_post_msg: "posts q (snd (post_msg t m n q))"
proof (cases "t (nextId q)")
  case True
  have "set (keys_of (AList.delete i (AList.update i n xs))) \<subseteq> set (keys_of xs)" for i and xs :: "(nat \<times> nat) list"
    using dom_update[of i n xs] by (auto simp: keys_delete)
  then show ?thesis using True by (intro posts_same) (simp_all add: post_msg_def Let_def)
next
  case False
  have "set (keys_of (AList.update (nextId q) n (posted q)))
      \<subseteq> set (keys_of (posted q)) \<union> set (keys_of [(nextId q, m)])"
    using dom_update[of "nextId q" n "posted q"] by simp
  then show ?thesis using False
    unfolding posts_def by (intro exI[of _ "[(nextId q, m)]"]) (simp add: post_msg_def Let_def)
qed

lemma posts_drain: "posts q (drain B t q)"
proof (induction B t q rule: drain.induct)
  case (1 B t q)
  show ?case
  proof (cases "waiting q")
    case (Cons w ws)
    let ?q = "q\<lparr>waiting := ws, waitingBytes := waitingBytes q - int (w_bytes w)\<rparr>"
    have "posts q ?q" by (rule posts_same) simp_all
    from posts_trans[OF posts_trans[OF this posts_post_msg] 1[OF Cons]] show ?thesis
      by (subst drain.simps) (simp add: Cons)
  qed (subst drain.simps, simp)
qed

lemma posts_push: "posts q (push_waiting m opts q)"
  by (rule posts_same) (simp_all add: push_waiting_def Let_def)

lemma posts_submit: "posts q (snd (submit B t m opts q))"
proof -
  have "posts q (push_waiting m opts (q\<lparr>waiting := ws, waitingBytes := n, coalesced := c\<rparr>))" for ws n c
    by (rule posts_trans[OF posts_same posts_push]) simp_all
  moreover obtain b q' where "post_msg t m (work_bytes opts) q = (b, q')" by fastforce
  moreover from this have "posts q q'" using posts_post_msg[of q t m "work_bytes opts"] by simp
  ultimately show ?thesis using posts_push[of q m opts]
    by (cases "superseded_by opts q") (simp_all add: submit_def Let_def)
qed

lemma release_keys: "set (keys_of (posted (snd (release_ids ids (r, q))))) = set (keys_of (posted q)) - set ids"
proof (induction ids "(r, q)" arbitrary: r q rule: release_ids.induct)
  case (2 i ids r q)
  have "set (keys_of (AList.delete i (posted q))) = set (keys_of (posted q)) - {i}"
    by (simp add: keys_delete)
  moreover have "i \<notin> set (keys_of (posted q))" if "map_of (posted q) i = None"
    using that by (simp add: map_of_eq_None_iff)
  ultimately show ?case using 2 by (auto split: option.split)
qed simp

lemma complete_posts:
  "posts (snd (release_ids ids (0, q))) (snd (queue_complete B t ids q))"
  by (simp add: queue_complete_def posts_drain split: prod.split)

text \<open>The host's credits belong to its current worker.\<close>

definition credit :: "'ov worker_host \<Rightarrow> nat \<Rightarrow> nat \<Rightarrow> bool" where
  "credit h w i \<longleftrightarrow> worker h = Some w \<and> i \<in> set (keys_of (posted (queue h)))"

definition grows :: "'ov worker_host \<Rightarrow> 'ov worker_host \<Rightarrow> bool" where
  "grows h h' \<longleftrightarrow> (\<exists>xs. channel h' = channel h @ xs
     \<and> (\<forall>w i. credit h' w i \<longrightarrow> credit h w i \<or> (\<exists>m. (w, Some i, m) \<in> set xs)))"

lemma grows_refl [simp]: "grows h h"
  by (simp add: grows_def)

lemma grows_trans:
  assumes "grows h h'" "grows h' h''"
  shows "grows h h''"
proof -
  obtain xs ys where "channel h' = channel h @ xs" "channel h'' = channel h' @ ys"
    and k: "\<And>w i. credit h' w i \<Longrightarrow> credit h w i \<or> (\<exists>m. (w, Some i, m) \<in> set xs)"
      "\<And>w i. credit h'' w i \<Longrightarrow> credit h' w i \<or> (\<exists>m. (w, Some i, m) \<in> set ys)"
    using assms unfolding grows_def by blast
  then have "channel h'' = channel h @ xs @ ys" by simp
  moreover have "credit h w i \<or> (\<exists>m. (w, Some i, m) \<in> set (xs @ ys))" if "credit h'' w i" for w i
    using k that by fastforce
  ultimately show ?thesis unfolding grows_def by blast
qed

lemma grows_same:
  "channel h' = channel h \<Longrightarrow> (\<And>w i. credit h' w i \<Longrightarrow> credit h w i) \<Longrightarrow> grows h h'"
  by (auto simp: grows_def)

lemma grows_emit [simp]: "grows h (emit e h)"
  by (rule grows_same) (simp_all add: emit_def credit_def)

lemma grows_emit_after: "grows h h' \<Longrightarrow> grows h (emit e h')"
  using grows_trans grows_emit by blast

lemma no_credit_reset [simp]: "\<not> credit (resetGeneration h) w i"
  by (simp add: credit_def resetGeneration_def queue_reset_def)

lemma grows_reset [simp]: "grows h (resetGeneration h)"
  by (rule grows_same) (simp_all add: resetGeneration_def[of h] no_credit_reset[of h, unfolded resetGeneration_def])

lemma grows_post_raw [simp]: "grows h (post_raw m h)"
  by (auto simp: grows_def post_raw_def credit_def split: option.split)

lemma grows_with_queue:
  assumes "posts (queue h) q"
  shows "grows h (with_queue q h)"
proof (cases "worker h")
  case None
  then show ?thesis by (intro grows_same) (simp_all add: with_queue_def credit_def Let_def)
next
  case (Some w)
  obtain ys where ys: "outbox q = outbox (queue h) @ ys"
    "set (keys_of (posted q)) \<subseteq> set (keys_of (posted (queue h))) \<union> set (keys_of ys)"
    using assms by (auto simp: posts_def)
  let ?xs = "map (\<lambda>(i, m). (w, Some i, m)) ys"
  have "channel (with_queue q h) = channel h @ ?xs" using ys(1) Some by (simp add: with_queue_def Let_def)
  moreover have "credit h v i \<or> (\<exists>m. (v, Some i, m) \<in> set ?xs)" if "credit (with_queue q h) v i" for v i
  proof -
    have "v = w" "i \<in> set (keys_of (posted q))" using that Some by (simp_all add: credit_def with_queue_def Let_def)
    then consider "i \<in> set (keys_of (posted (queue h)))" | "i \<in> set (keys_of ys)" using ys(2) by blast
    then show ?thesis
    proof cases
      case 1
      then show ?thesis using \<open>v = w\<close> Some by (simp add: credit_def)
    next
      case 2
      then obtain m where "(i, m) \<in> set ys" by auto
      then have "(w, Some i, m) \<in> set ?xs" by force
      then show ?thesis using \<open>v = w\<close> by blast
    qed
  qed
  ultimately show ?thesis unfolding grows_def by blast
qed

lemma overload_fields [simp]:
  "queue (onOverload loc h) = queue h" "worker (onOverload loc h) = worker h" "channel (onOverload loc h) = channel h"
  by (simp_all add: onOverload_def emit_def Let_def)

lemma grows_overload [simp]: "grows h (onOverload loc h)"
  by (rule grows_same) (simp_all add: credit_def)

lemma grows_submit: "grows h (host_submit t m opts loc h)"
proof -
  obtain a q where s: "submit DEFAULT_WORK_BUDGETS t m opts (queue h) = (a, q)" by fastforce
  have "grows h (with_queue q h)"
    using grows_with_queue[OF posts_submit[of "queue h" DEFAULT_WORK_BUDGETS t m opts]] s by simp
  moreover from this have "grows h (onOverload l (with_queue q h))" for l by (rule grows_trans) simp
  ultimately show ?thesis
    by (simp add: host_submit_def s grows_emit_after Let_def)
qed

lemma grows_frame:
  "channel h' = channel h \<Longrightarrow> queue h' = queue h \<Longrightarrow> worker h' = worker h \<Longrightarrow> grows h h'"
  by (rule grows_same) (simp_all add: credit_def)

lemma grows_none: "channel h' = channel h @ xs \<Longrightarrow> posted (queue h') = [] \<Longrightarrow> grows h h'"
  by (auto simp: grows_def credit_def)

lemma grows_detach: "grows h (detachWorker h)"
  by (rule grows_none[of _ _ "[]"]) (simp_all add: detachWorker_def resetGeneration_def emit_def queue_reset_def Let_def)

lemma grows_cleanup: "grows h (cleanupWorker d h)"
  by (simp add: cleanupWorker_def grows_detach grows_emit_after split: option.split)

lemma settleOpen_fields [simp]:
  "queue (settleOpen e h) = queue h" "worker (settleOpen e h) = worker h" "channel (settleOpen e h) = channel h"
  by (simp_all add: settleOpen_def emit_def Let_def split: option.split)

lemma grows_settleOpen: "grows h (settleOpen e h)"
  by (rule grows_frame) simp_all

lemma grows_finishClose: "grows h (finishClose h)"
  by (rule grows_frame) (simp_all add: finishClose_def emit_def split: option.split)

lemma grows_resume: "grows h (resumeLocalIfDrained h)"
  by (rule grows_frame) (simp_all add: resumeLocalIfDrained_def emit_def)

lemma grows_open: "grows h (snd (host_open path h))"
proof (cases "pendingOpen h = None \<and> closing h = None")
  case True
  then have "\<exists>xs. channel (snd (host_open path h)) = channel h @ xs"
    by (cases "worker h") (simp_all add: host_open_def new_promise_def resetGeneration_def post_raw_def Let_def)
  then obtain xs where "channel (snd (host_open path h)) = channel h @ xs" by blast
  moreover have "posted (queue (snd (host_open path h))) = []" using True
    by (cases "worker h")
      (simp_all add: host_open_def new_promise_def resetGeneration_def post_raw_def queue_reset_def Let_def)
  ultimately show ?thesis by (rule grows_none)
next
  case False
  then show ?thesis
    by (intro grows_frame) (auto simp: host_open_def new_promise_def emit_def)
qed

lemma grows_close: "grows h (snd (host_close h))"
proof (cases "closing h = None \<and> worker h \<noteq> None")
  case True
  then obtain w where w: "closing h = None" "worker h = Some w" by blast
  then have "channel (snd (host_close h)) = channel h @ [(w, None, M_close)]"
    by (simp add: host_close_def new_promise_def resetGeneration_def post_raw_def)
  moreover have "posted (queue (snd (host_close h))) = []"
    using w by (simp add: host_close_def new_promise_def resetGeneration_def post_raw_def queue_reset_def)
  ultimately show ?thesis by (rule grows_none)
next
  case False
  then show ?thesis
    by (intro grows_frame) (auto simp: host_close_def new_promise_def emit_def split: option.split)
qed

lemma grows_closeTimeout: "grows h (onCloseTimeout w h)"
proof -
  have f: "grows h (h\<lparr>closing := None\<rparr>)" by (rule grows_frame) simp_all
  have "grows h (if worker h = Some w then detachWorker (h\<lparr>closing := None\<rparr>) else h\<lparr>closing := None\<rparr>)"
    using f grows_trans[OF f grows_detach] by simp
  moreover have "grows h (x\<lparr>orphans := os\<rparr>)" if "grows h x" for x os
    by (rule grows_trans[OF that]) (rule grows_frame, simp_all)
  ultimately show ?thesis
    by (auto simp: onCloseTimeout_def Let_def grows_emit_after split: option.split)
qed

text \<open>Hearing an acknowledgement, the host releases exactly the ids in it.\<close>

lemma workDone_grows:
  assumes "worker h = Some w"
  shows "\<exists>h1. grows h1 (onWorkerMessage t w (W_workDone ids) h) \<and> channel h1 = channel h
    \<and> (\<forall>v i. credit h1 v i \<longleftrightarrow> credit h v i \<and> i \<notin> set ids)"
proof -
  let ?q1 = "snd (release_ids ids (0, queue h))"
  obtain n q where c: "queue_complete DEFAULT_WORK_BUDGETS t ids (queue h) = (n, q)" by fastforce
  let ?h1 = "h\<lparr>queue := ?q1\<rparr>"
  have o1: "outbox ?q1 = outbox (queue h)" using release_frame[of ids 0 "queue h"] by simp
  have "grows ?h1 (with_queue q ?h1)"
    by (rule grows_with_queue) (use complete_posts[of ids "queue h" DEFAULT_WORK_BUDGETS t] c in simp)
  moreover have "with_queue q ?h1 = with_queue q h"
    using o1 by (simp add: with_queue_def Let_def)
  ultimately have g: "grows ?h1 (with_queue q h)" by simp
  have "grows ?h1 (onWorkerMessage t w (W_workDone ids) h)"
    using assms g grows_trans[OF g grows_resume]
    by (simp add: onWorkerMessage_def onLifecycleMessage_def c)
  moreover have "credit ?h1 v i \<longleftrightarrow> credit h v i \<and> i \<notin> set ids" for v i
    using release_keys[of ids 0 "queue h"] by (simp add: credit_def)
  ultimately show ?thesis by (intro exI[of _ ?h1]) simp
qed

lemma message_grows:
  assumes "\<forall>ids. msg \<noteq> W_workDone ids \<or> worker h \<noteq> Some w"
  shows "grows h (onWorkerMessage t w msg h)"
proof (cases "worker h = Some w")
  case False
  have "grows h (h\<lparr>orphans := os\<rparr>)" for os by (rule grows_frame) simp_all
  then show ?thesis using False by (simp add: onWorkerMessage_def onOrphanMessage_def grows_emit_after)
next
  case True
  have "grows h (finishClose (cleanupWorker d x))" if "grows h x" for d x
    using that grows_trans grows_cleanup grows_finishClose by blast
  moreover have "grows h (settleOpen e (h\<lparr>deviceSerial := ser, deviceFirmware := fw, hidPath := path\<rparr>))" for e ser fw path
    by (rule grows_trans[OF grows_frame grows_settleOpen]) simp_all
  ultimately show ?thesis using True assms
    by (cases msg) (simp_all add: onWorkerMessage_def onLifecycleMessage_def onOpened_def reportError_def
        grows_emit_after grows_settleOpen split: option.split)
qed

lemma do_grows:
  assumes "\<And>w ids. op \<noteq> Do_message w (W_workDone ids)"
  shows "grows h (host_do json t op h)"
proof -
  have sub: "grows h (host_submit t m opts loc (h\<lparr>needStripBase := b\<rparr>))"
    "grows h (host_submit t m opts loc (h\<lparr>touchStripOptions := so\<rparr>))"
    "grows h (host_submit t m opts loc (h\<lparr>overrides := ov, wh_model := md\<rparr>))" for m opts loc b so ov md
    by (rule grows_trans[OF grows_frame grows_submit], simp_all)+
  have res: "grows h (h\<lparr>coraSuspended := False, needStripBase := True\<rparr>)" by (rule grows_frame) simp_all
  have cl: "grows h (cleanupWorker d (settleOpen e h))" for d e
    using grows_trans[OF grows_settleOpen grows_cleanup] by blast
  have msg: "grows h (onWorkerMessage t w msg h)" if "op = Do_message w msg" for w msg
    using assms that by (intro message_grows) blast
  note submits = renderCoraImage_def sendSplashImage_def renderTouchImage_def setTouchStripMask_def
    restoreTouchSegments_def setTouchStripOptions_def host_setBrightness_def host_setSleep_def host_clearKey_def
    applyOverrides_def host_setLogLevel_def control_def
  show ?thesis
    by (cases op) (simp_all add: submits sub res cl msg grows_submit grows_open grows_close grows_closeTimeout
        onOpenTimeout_def onWorkerError_def reportError_def resumeImages_def grows_emit_after)
qed

section \<open>The system\<close>

record ('d, 'ov) usb_system =
  us_host :: "'ov worker_host"
  us_thread :: "nat \<Rightarrow> ('d, 'ov) hid_worker"
  us_taken :: "nat \<Rightarrow> nat"
  us_heard :: "nat \<Rightarrow> nat"

definition to_worker :: "'ov worker_host \<Rightarrow> nat \<Rightarrow> 'ov work_message list" where
  "to_worker h w = map snd (filter (\<lambda>p. fst p = w) (channel h))"

definition new_system :: "string \<Rightarrow> 'ov option \<Rightarrow> (nat \<Rightarrow> 'd) \<Rightarrow> ('d, 'ov) usb_system" where
  "new_system m ov d = \<lparr>us_host = new_host m ov, us_thread = (\<lambda>w. new_worker (d w)), us_taken = (\<lambda>_. 0), us_heard = (\<lambda>_. 0)\<rparr>"

definition with_thread :: "nat \<Rightarrow> ('d, 'ov) hid_worker \<Rightarrow> ('d, 'ov) usb_system \<Rightarrow> ('d, 'ov) usb_system" where
  "with_thread w x s = s\<lparr>us_thread := (us_thread s)(w := x)\<rparr>"

inductive usb_step :: "('d, 'ov) worker_env \<Rightarrow> (image_spec \<Rightarrow> string) \<Rightarrow> ('d, 'ov) usb_system \<Rightarrow> ('d, 'ov) usb_system \<Rightarrow> bool"
  for E json where
  usb_host: "(\<And>w msg. op \<noteq> Do_message w msg) \<Longrightarrow> usb_step E json s (s\<lparr>us_host := host_do json t op (us_host s)\<rparr>)"
| usb_take: "us_taken s w < length (to_worker (us_host s) w) \<Longrightarrow>
    usb_step E json s (with_thread w (onMessage (to_worker (us_host s) w ! us_taken s w) (us_thread s w))
      (s\<lparr>us_taken := (us_taken s)(w := Suc (us_taken s w))\<rparr>))"
| usb_timer: "usb_step E json s (with_thread w (onBatchTimer (us_thread s w)) s)"
| usb_run: "run_next E (us_thread s w) = Some x \<Longrightarrow> usb_step E json s (with_thread w x s)"
| usb_hear: "us_heard s w < length (wk_out (us_thread s w)) \<Longrightarrow>
    usb_step E json s (s\<lparr>us_host := onWorkerMessage t w (wk_out (us_thread s w) ! us_heard s w) (us_host s),
      us_heard := (us_heard s)(w := Suc (us_heard s w))\<rparr>)"

inductive usb_reach :: "('d, 'ov) worker_env \<Rightarrow> (image_spec \<Rightarrow> string) \<Rightarrow> ('d, 'ov) usb_system \<Rightarrow> bool" for E json where
  usb_new: "usb_reach E json (new_system m ov d)"
| usb_next: "usb_reach E json s \<Longrightarrow> usb_step E json s s' \<Longrightarrow> usb_reach E json s'"

text \<open>The ids on their way: not yet taken by the thread, held by it, or acknowledged but not yet heard.\<close>

definition ack_ids :: "worker_to_main list \<Rightarrow> nat list" where
  "ack_ids ms = List.concat (map (\<lambda>m. case m of W_workDone ids \<Rightarrow> ids | _ \<Rightarrow> []) ms)"

definition in_flight :: "('d, 'ov) usb_system \<Rightarrow> nat \<Rightarrow> nat list" where
  "in_flight s w = ids_of (drop (us_taken s w) (to_worker (us_host s) w)) @ ids_of (backlog (us_thread s w))
     @ ack_ids (drop (us_heard s w) (wk_out (us_thread s w)))"

definition usb_ok :: "('d, 'ov) worker_env \<Rightarrow> (image_spec \<Rightarrow> string) \<Rightarrow> ('d, 'ov) usb_system \<Rightarrow> bool" where
  "usb_ok E json s \<longleftrightarrow> host_reach json (us_host s)
     \<and> (\<forall>w. us_taken s w \<le> length (to_worker (us_host s) w) \<and> us_heard s w \<le> length (wk_out (us_thread s w))
          \<and> worker_reach E (take (us_taken s w) (to_worker (us_host s) w)) (us_thread s w))
     \<and> (\<forall>w i. credit (us_host s) w i \<longrightarrow> i \<in> set (in_flight s w))"

lemma acked_ack_ids: "acked w = ack_ids (wk_out w)"
  by (simp add: acked_def ack_ids_def)

lemma ack_ids_append [simp]: "ack_ids (xs @ ys) = ack_ids xs @ ack_ids ys"
  by (simp add: ack_ids_def)

lemma ids_of_mem: "(Some i, m) \<in> set xs \<Longrightarrow> i \<in> set (ids_of xs)"
  by (force simp: ids_of_def map_filter_def)

lemma set_ids_append [simp]: "set (ids_of (xs @ ys)) = set (ids_of xs) \<union> set (ids_of ys)"
  by simp

text \<open>A step of the host only appends to the channel; every new credit is for a message it appended.\<close>

lemma grows_to_worker:
  assumes "channel h' = channel h @ xs"
  shows "to_worker h' w = to_worker h w @ map snd (filter (\<lambda>p. fst p = w) xs)"
  using assms by (simp add: to_worker_def)

lemma host_step_ok:
  assumes ok: "usb_ok E json s" and h: "host_reach json h'" and g: "grows h1 h'"
    and h1: "channel h1 = channel (us_host s)"
    and c: "\<And>w i. credit h1 w i \<Longrightarrow> i \<in> set (ids_of (drop (us_taken s w) (to_worker (us_host s) w))
        @ ids_of (backlog (us_thread s w)) @ ack_ids (drop (hd' w) (wk_out (us_thread s w))))"
    and hd: "\<And>w. hd' w \<le> length (wk_out (us_thread s w))"
  shows "usb_ok E json (s\<lparr>us_host := h', us_heard := hd'\<rparr>)"
proof -
  obtain xs where xs: "channel h' = channel (us_host s) @ xs"
    and cr: "\<And>w i. credit h' w i \<Longrightarrow> credit h1 w i \<or> (\<exists>m. (w, Some i, m) \<in> set xs)"
    using g h1 unfolding grows_def by auto
  note tw = grows_to_worker[OF xs]
  have taken: "us_taken s w \<le> length (to_worker (us_host s) w)"
    "worker_reach E (take (us_taken s w) (to_worker (us_host s) w)) (us_thread s w)" for w
    using ok by (simp_all add: usb_ok_def)
  have "i \<in> set (in_flight (s\<lparr>us_host := h', us_heard := hd'\<rparr>) w)" if "credit h' w i" for w i
  proof -
    have fl: "set (in_flight (s\<lparr>us_host := h', us_heard := hd'\<rparr>) w)
        = set (ids_of (drop (us_taken s w) (to_worker (us_host s) w)))
          \<union> set (ids_of (map snd (filter (\<lambda>p. fst p = w) xs)))
          \<union> set (ids_of (backlog (us_thread s w))) \<union> set (ack_ids (drop (hd' w) (wk_out (us_thread s w))))"
      using taken(1)[of w] by (simp add: in_flight_def tw Un_assoc)
    from cr[OF that] show ?thesis
    proof
      assume "credit h1 w i"
      from c[OF this] show ?thesis unfolding fl by auto
    next
      assume "\<exists>m. (w, Some i, m) \<in> set xs"
      then obtain m where "(Some i, m) \<in> set (map snd (filter (\<lambda>p. fst p = w) xs))" by force
      then show ?thesis unfolding fl using ids_of_mem by blast
    qed
  qed
  then show ?thesis using h taken hd by (simp add: usb_ok_def tw le_SucI trans_le_add1)
qed

text \<open>A step of a thread moves ids along.\<close>

lemma thread_step_ok:
  assumes ok: "usb_ok E json s" and N: "native_ok (we_native E)"
    and x: "worker_reach E (take n (to_worker (us_host s) w)) x" and n: "us_taken s w \<le> n" "n \<le> length (to_worker (us_host s) w)"
    and pre: "prefix (wk_out (us_thread s w)) (wk_out x)"
  shows "usb_ok E json (with_thread w x (s\<lparr>us_taken := (us_taken s)(w := n)\<rparr>))"
proof -
  let ?tw = "to_worker (us_host s) w" and ?t = "us_thread s w" and ?k = "us_taken s w"
  obtain ms where out: "wk_out x = wk_out ?t @ ms" using pre by (auto simp: prefix_def)
  have t: "us_heard s w \<le> length (wk_out ?t)" "worker_reach E (take ?k ?tw) ?t" using ok by (simp_all add: usb_ok_def)
  have "ids_of (take n ?tw) = ids_of (take ?k ?tw) @ ids_of (drop ?k (take n ?tw))"
    using n(1) by (metis append_take_drop_id ids_of_simps(2) min.absorb1 take_take)
  then have a: "acked ?t @ ids_of (backlog ?t) @ ids_of (drop ?k (take n ?tw)) = acked x @ ids_of (backlog x)"
    using reach_worker_ok[OF x N] reach_worker_ok[OF t(2) N] by simp
  have "drop ?k ?tw = drop ?k (take n ?tw) @ drop n ?tw"
    using n by (metis append_take_drop_id drop_append drop_drop diff_is_0_eq drop_0 length_take min.absorb2 min.absorb1 add.commute)
  then have "ids_of (drop ?k ?tw) = ids_of (drop ?k (take n ?tw)) @ ids_of (drop n ?tw)" by simp
  moreover have "set (ids_of (backlog ?t)) \<union> set (ids_of (drop ?k (take n ?tw))) \<subseteq> set (ack_ids ms) \<union> set (ids_of (backlog x))"
    using a out by (simp add: acked_ack_ids) (metis Un_subset_iff equalityE set_append)
  ultimately have sub: "set (in_flight s w) \<subseteq> set (in_flight (with_thread w x (s\<lparr>us_taken := (us_taken s)(w := n)\<rparr>)) w)"
    using t(1) out by (auto simp: in_flight_def with_thread_def)
  have "in_flight (with_thread w x (s\<lparr>us_taken := (us_taken s)(w := n)\<rparr>)) v = in_flight s v" if "v \<noteq> w" for v
    using that by (simp add: in_flight_def with_thread_def)
  then have "i \<in> set (in_flight (with_thread w x (s\<lparr>us_taken := (us_taken s)(w := n)\<rparr>)) v)" if "credit (us_host s) v i" for v i
    using ok that sub by (cases "v = w") (auto simp: usb_ok_def)
  then show ?thesis using ok x n out by (auto simp: usb_ok_def with_thread_def trans_le_add1)
qed

lemma new_system_ok: "usb_ok E json (new_system m ov d)"
  using host_new worker_new
  by (auto simp: usb_ok_def new_system_def to_worker_def new_host_def credit_def)

lemma hear_ids:
  assumes "n < length ms" "i \<in> set (ack_ids (drop n ms))"
  shows "i \<in> set (ack_ids (drop (Suc n) ms)) \<or> (\<exists>ids. ms ! n = W_workDone ids \<and> i \<in> set ids)"
proof -
  have "drop n ms = ms ! n # drop (Suc n) ms" using assms(1) by (simp add: Cons_nth_drop_Suc)
  then have "ack_ids (drop n ms) = ack_ids [ms ! n] @ ack_ids (drop (Suc n) ms)"
    by (simp add: ack_ids_def)
  then show ?thesis using assms(2) by (cases "ms ! n") (auto simp: ack_ids_def)
qed

lemma usb_hear_ok:
  assumes ok: "usb_ok E json s" and n: "us_heard s w < length (wk_out (us_thread s w))"
  shows "usb_ok E json (s\<lparr>us_host := onWorkerMessage t w (wk_out (us_thread s w) ! us_heard s w) (us_host s),
    us_heard := (us_heard s)(w := Suc (us_heard s w))\<rparr>)"
proof -
  let ?h = "us_host s" and ?n = "us_heard s w" and ?out = "wk_out (us_thread s w)"
  let ?m = "?out ! ?n" and ?hd = "(us_heard s)(w := Suc (us_heard s w))"
  have reach: "host_reach json (onWorkerMessage t w ?m ?h)"
    using host_step[of json ?h t "Do_message w ?m"] ok by (simp add: usb_ok_def)
  have hd: "?hd v \<le> length (wk_out (us_thread s v))" for v
    using ok n by (simp add: usb_ok_def)
  have fl: "i \<in> set (in_flight s v)" if "credit ?h v i" for v i
    using ok that by (simp add: usb_ok_def)
  obtain h1 where h1: "grows h1 (onWorkerMessage t w ?m ?h)" "channel h1 = channel ?h"
    and c: "\<And>v i. credit h1 v i \<Longrightarrow> credit ?h v i \<and> (v = w \<longrightarrow> (\<forall>ids. ?m = W_workDone ids \<longrightarrow> i \<notin> set ids))"
  proof (cases "\<exists>ids. ?m = W_workDone ids \<and> worker ?h = Some w")
    case True
    then obtain ids where "?m = W_workDone ids" "worker ?h = Some w" by blast
    then show ?thesis using workDone_grows[of ?h w t ids] that by auto
  next
    case False
    then have "grows ?h (onWorkerMessage t w ?m ?h)" by (intro message_grows) blast
    moreover have "credit ?h v i \<and> (v = w \<longrightarrow> (\<forall>ids. ?m = W_workDone ids \<longrightarrow> i \<notin> set ids))" if "credit ?h v i" for v i
      using that False by (auto simp: credit_def)
    ultimately show ?thesis by (rule that[OF _ refl])
  qed
  have "i \<in> set (ids_of (drop (us_taken s v) (to_worker ?h v)) @ ids_of (backlog (us_thread s v))
      @ ack_ids (drop (?hd v) (wk_out (us_thread s v))))" if "credit h1 v i" for v i
    using fl[of v i] c[OF that] hear_ids[OF n, of i] by (cases "v = w") (auto simp: in_flight_def)
  from host_step_ok[OF ok reach h1 this hd] show ?thesis .
qed

lemma usb_step_ok:
  assumes "usb_step E json s s'" "usb_ok E json s" "native_ok (we_native E)"
  shows "usb_ok E json s'"
  using assms(1)
proof cases
  case (usb_host op t)
  have h: "host_reach json (host_do json t op (us_host s))"
    using assms(2) host_step by (auto simp: usb_ok_def)
  have "grows (us_host s) (host_do json t op (us_host s))" by (rule do_grows) (use usb_host(2) in blast)
  from host_step_ok[OF assms(2) h this, of "us_heard s"] show ?thesis
    using assms(2) usb_host(1) by (simp add: usb_ok_def in_flight_def)
next
  case (usb_take w)
  have "worker_reach E (take (us_taken s w) (to_worker (us_host s) w)) (us_thread s w)"
    using assms(2) by (simp add: usb_ok_def)
  from worker_receive[OF this, of "to_worker (us_host s) w ! us_taken s w"]
  have "worker_reach E (take (Suc (us_taken s w)) (to_worker (us_host s) w))
      (onMessage (to_worker (us_host s) w ! us_taken s w) (us_thread s w))"
    using usb_take(2) by (simp add: take_Suc_conv_app_nth)
  from thread_step_ok[OF assms(2,3) this] show ?thesis
    using usb_take by (simp add: onMessage_def enqueueImageBatch_def Let_def)
next
  case (usb_timer w)
  have r: "us_taken s w \<le> length (to_worker (us_host s) w)"
    "worker_reach E (take (us_taken s w) (to_worker (us_host s) w)) (onBatchTimer (us_thread s w))"
    using assms(2) worker_timer by (auto simp: usb_ok_def)
  from thread_step_ok[OF assms(2,3) r(2) le_refl r(1)] show ?thesis
    using usb_timer by (simp add: onBatchTimer_def enqueueImageBatch_def Let_def)
next
  case (usb_run w x)
  have r: "us_taken s w \<le> length (to_worker (us_host s) w)"
    "worker_reach E (take (us_taken s w) (to_worker (us_host s) w)) (us_thread s w)"
    using assms(2) by (auto simp: usb_ok_def)
  have "worker_ok (us_thread s w)" using reach_worker_ok[OF r(2) assms(3)] by blast
  from run_next_step[OF assms(3) this] usb_run(2) have "prefix (wk_out (us_thread s w)) (wk_out x)" by auto
  from thread_step_ok[OF assms(2,3) worker_runs[OF r(2) usb_run(2)] le_refl r(1) this] show ?thesis
    using usb_run(1) by simp
next
  case (usb_hear w t)
  then show ?thesis using usb_hear_ok[OF assms(2), of w t] by simp
qed

lemma usb_reach_ok: "usb_reach E json s \<Longrightarrow> native_ok (we_native E) \<Longrightarrow> usb_ok E json s"
  by (induction rule: usb_reach.induct) (blast intro: new_system_ok usb_step_ok)+

section \<open>Properties\<close>

text \<open>C12. No posting credit is ever lost: in any interleaving of the main thread, its timers and the
worker threads, with throwing posts, failing transforms, closes, unplugs and respawned
workers, every credit the host counts against its worker belongs to a message the worker has
not taken yet, still holds, or has acknowledged in a message that is on its way. So when
nothing is on its way the host's queue is empty and no pause of the local producers lasts.\<close>

theorem credits_come_back:
  assumes "usb_reach E json s" "native_ok (we_native E)" "worker (us_host s) = Some w"
  shows "set (keys_of (posted (queue (us_host s)))) \<subseteq> set (in_flight s w)
    \<and> (in_flight s w = [] \<longrightarrow> queue_isEmpty (queue (us_host s)) \<and> \<not> localSuspended (us_host s))"
proof -
  have ok: "usb_ok E json s" using usb_reach_ok[OF assms(1,2)] .
  then have sub: "set (keys_of (posted (queue (us_host s)))) \<subseteq> set (in_flight s w)"
    using assms(3) by (auto simp: usb_ok_def credit_def)
  have "flow_ok (us_host s)" using ok reach_flow by (auto simp: usb_ok_def)
  then have "queue_isEmpty (queue (us_host s)) \<and> \<not> localSuspended (us_host s)" if "posted (queue (us_host s)) = []"
    using that by (auto simp: flow_ok_def queue_ok_def not_stuck_def queue_isEmpty_def)
  then show ?thesis using sub by auto
qed

text \<open>The host opens the device, its worker answers, and one image is posted.\<close>

definition one_image :: "((int \<times> bytes) list, unit) usb_system" where
  "one_image = (new_system ''m'' None (\<lambda>_. []))\<lparr>us_host := renderCoraImage never 0 [1] Jpeg
     (snd (host_open ''p'' (new_host ''m'' None)))\<rparr>"

lemma one_image_reach: "usb_reach batch_env json one_image"
proof -
  let ?s = "new_system ''m'' None (\<lambda>_. []) :: ((int \<times> bytes) list, unit) usb_system"
  let ?s1 = "?s\<lparr>us_host := host_do json never (Do_open ''p'') (us_host ?s)\<rparr>"
  let ?s2 = "?s1\<lparr>us_host := host_do json never (Do_coraImage 0 [1] Jpeg) (us_host ?s1)\<rparr>"
  have "usb_reach batch_env json ?s2"
    by (rule usb_next[OF usb_next[OF usb_new usb_host] usb_host]) simp_all
  moreover have "?s2 = one_image" by (simp add: one_image_def new_system_def)
  ultimately show ?thesis by simp
qed

lemma one_image_value: "worker (us_host one_image) = Some 0" "keys_of (posted (queue (us_host one_image))) = [1]"
  by (simp_all add: one_image_def host_open_def new_promise_def new_host_def resetGeneration_def post_raw_def
      renderCoraImage_def host_submit_def submit_def fitsPosted_def post_msg_def with_queue_def
      DEFAULT_WORK_BUDGETS_def new_work_queue_def queue_reset_def Let_def)

theorem credits_come_back_witness:
  "1 \<in> set (in_flight one_image 0) \<and> \<not> queue_isEmpty (queue (us_host one_image))"
  using credits_come_back[OF one_image_reach batch_native one_image_value(1)] one_image_value(2)
  by (auto simp: queue_isEmpty_def)

end
