(* ===== verification/Coalescing.thy ===== *)
theory Coalescing
  imports Worker_System
begin

text \<open>
  Coalescing cannot be seen: the queue of \<^verbatim>\<open>worker/hid-work-queue-host.ts\<close> drops a waiting image
  when a newer one for the same key arrives behind it, and the keys of the panel still end up
  as if every admitted message had been handled.

  The effect of a message is what \<open>handle\<close>, the worker thread's handler, leaves on the
  device of a panel: a driver that stores the bytes of each key, over an encoder \<open>f\<close> whose
  results fit the output buffer.  (When the newer image fails to encode, the older one is not
  shown either, which is the price of dropping it; such an \<open>f\<close> is not covered.)
  The effect satisfies the laws of the locale \<open>work_sink\<close>, which is interpreted here.
\<close>

section \<open>Numbers in keys\<close>

lemma hex_digit_inj: "a < 10 \<Longrightarrow> b < 10 \<Longrightarrow> hex_digit a = hex_digit b \<Longrightarrow> a = b"
  unfolding hex_digit_def by (subst (asm) nth_eq_iff_index_eq) simp_all

lemma digit_not_colon: "a < 10 \<Longrightarrow> hex_digit a \<noteq> CHR '':'' \<and> hex_digit a \<noteq> CHR ''-''"
proof -
  assume "a < 10"
  then have "a \<in> {0, 1, 2, 3, 4, 5, 6, 7, 8, 9}" by auto
  then show ?thesis by (auto simp: hex_digit_def)
qed

lemma dec_nat_chars: "c \<in> set (dec_nat n) \<Longrightarrow> c \<noteq> CHR '':'' \<and> c \<noteq> CHR ''-''"
proof (induction n rule: less_induct)
  case (less n)
  show ?case
  proof (cases "n < 10")
    case True
    then show ?thesis using less(2) digit_not_colon by (subst (asm) dec_nat.simps) auto
  next
    case False
    then have "c \<in> set (dec_nat (n div 10)) \<or> c = hex_digit (n mod 10)"
      using less(2) by (subst (asm) dec_nat.simps) auto
    then show ?thesis using less(1)[of "n div 10"] digit_not_colon[of "n mod 10"] False by auto
  qed
qed

lemma dec_nat_not_Nil: "dec_nat n \<noteq> []"
  by (subst dec_nat.simps) simp

lemma dec_nat_inj: "dec_nat a = dec_nat b \<Longrightarrow> a = b"
proof (induction a arbitrary: b rule: less_induct)
  case (less a)
  have *: "dec_nat n = (if n < 10 then [hex_digit n] else dec_nat (n div 10) @ [hex_digit (n mod 10)])" for n
    by (subst dec_nat.simps) simp
  consider "a < 10" "b < 10" | "10 \<le> a" "10 \<le> b" | "a < 10 \<longleftrightarrow> \<not> b < 10" by linarith
  then show ?case
  proof cases
    case 1
    then show ?thesis using less(2) hex_digit_inj by (simp add: *[of a] *[of b])
  next
    case 2
    then have "dec_nat (a div 10) = dec_nat (b div 10)" "hex_digit (a mod 10) = hex_digit (b mod 10)"
      using less(2) by (simp_all add: *[of a] *[of b])
    then have "a div 10 = b div 10" "a mod 10 = b mod 10"
      using less(1)[of "a div 10"] 2 hex_digit_inj[of "a mod 10" "b mod 10"] by simp_all
    then show ?thesis by (metis div_mult_mod_eq)
  next
    case 3
    have "length (dec_nat n) = 1 \<longleftrightarrow> n < 10" for n
      using dec_nat_not_Nil[of "n div 10"] by (simp add: *[of n])
    then show ?thesis using 3 less(2) by metis
  qed
qed

lemma dec_int_inj: "dec_int i = dec_int j \<Longrightarrow> i = j"
  using dec_nat_inj[of "nat i" "nat j"] dec_nat_inj[of "nat (- i)" "nat (- j)"]
    dec_nat_chars[of "CHR ''-''" "nat i"] dec_nat_chars[of "CHR ''-''" "nat j"]
  by (auto simp: dec_int_def split: if_splits) (metis list.set_intros(1))+

lemma dec_int_no_colon: "CHR '':'' \<notin> set (dec_int i)"
  using dec_nat_chars by (auto simp: dec_int_def)

lemma cora_key_inj: "cora_key i = cora_key j \<Longrightarrow> i = j"
  using dec_int_inj by (simp add: cora_key_def)

lemma spec_key_inj:
  assumes "spec_key json i sp = spec_key json j sp'"
  shows "i = j"
proof -
  have "takeWhile (\<lambda>c. c \<noteq> CHR '':'') (dec_int k @ CHR '':'' # s) = dec_int k" for k s
    using dec_int_no_colon[of k] by (auto simp: takeWhile_append)
  then have "dec_int i = dec_int j" using assms unfolding spec_key_def by (metis append_Cons append_Nil same_append_eq)
  then show ?thesis by (rule dec_int_inj)
qed

lemma keys_differ: "cora_key i \<noteq> spec_key json j sp"
  by (simp add: cora_key_def spec_key_def)

section \<open>The panel\<close>

definition panel_env :: "(bytes \<Rightarrow> transform_args \<Rightarrow> bytes) \<Rightarrow> (int \<Rightarrow> bytes option, 'ov) worker_env" where
  "panel_env f = \<lparr>we_native = \<lparr>proc_transform = (\<lambda>img args cap.
        let bs = take OUT_MAX_BYTES (f img args) in if length bs \<le> cap then Proc_done bs else Proc_too_small),
        proc_blit = (\<lambda>canvas _ _ _ _ _. (None, canvas)), json_spec = (\<lambda>_. [])\<rparr>,
     we_find = (\<lambda>_. None), we_merge = (\<lambda>m _. m), we_open = (\<lambda>_ p d. (Inr (None, None, Some p), d)),
     we_close = (\<lambda>d. d), we_send = (\<lambda>k bs d. (None, d(k \<mapsto> bs))), we_brightness = (\<lambda>_ d. (None, d)),
     we_sleep = None, we_clear = (\<lambda>k d. (None, d(k := None))), we_batch = None, we_message = (\<lambda>_. [])\<rparr>"

definition open_panel :: "device_model \<Rightarrow> (int \<Rightarrow> bytes option) \<Rightarrow> (int \<Rightarrow> bytes option, 'ov) hid_worker" where
  "open_panel m d = (new_worker d)\<lparr>wk_driver := True, currentModel := Some m\<rparr>"

text \<open>What handling a message leaves on the panel.\<close>

definition shown :: "(bytes \<Rightarrow> transform_args \<Rightarrow> bytes) \<Rightarrow> device_model \<Rightarrow> 'ov main_to_worker
    \<Rightarrow> (int \<Rightarrow> bytes option) \<Rightarrow> int \<Rightarrow> bytes option" where
  "shown f m msg d = (case handle (panel_env f) msg False (open_panel m d) of
     Some (_, w) \<Rightarrow> rs_dev (wk_render w) | None \<Rightarrow> d)"

definition msg_kind :: "'ov main_to_worker \<Rightarrow> work_kind" where
  "msg_kind msg = (case msg of M_image _ _ _ \<Rightarrow> Kind_image | M_imageWithSpec _ _ _ \<Rightarrow> Kind_image
     | M_touchImage _ _ \<Rightarrow> Kind_touch | _ \<Rightarrow> Kind_control)"

definition msg_key :: "(image_spec \<Rightarrow> string) \<Rightarrow> 'ov main_to_worker \<Rightarrow> string option" where
  "msg_key json msg = (case msg of M_image k _ _ \<Rightarrow> Some (cora_key k)
     | M_imageWithSpec k _ sp \<Rightarrow> Some (spec_key json k sp) | _ \<Rightarrow> None)"

text \<open>The options the host submits a message with.\<close>

definition host_options :: "(image_spec \<Rightarrow> string) \<Rightarrow> 'ov main_to_worker \<Rightarrow> 'ov main_to_worker work_options" where
  "host_options json msg =
     \<lparr>work_kind = msg_kind msg,
      work_bytes = (case msg of M_image _ img _ \<Rightarrow> length img | M_imageWithSpec _ img _ \<Rightarrow> length img
        | M_touchImage img _ \<Rightarrow> length img | _ \<Rightarrow> 0),
      coalesceKey = msg_key json msg,
      snapshot = (if msg_kind msg = Kind_control then None else Some msg)\<rparr>"

lemma host_options_used:
  "renderCoraImage t k img fmt h = host_submit t (M_image k img fmt) (host_options json (M_image k img fmt)) False h"
  "sendSplashImage json t k img sp h
     = host_submit t (M_imageWithSpec k img sp) (host_options json (M_imageWithSpec k img sp)) True h"
  "host_clearKey t k h = host_submit t (M_clearKey k) (host_options json (M_clearKey k)) False h"
  "host_setBrightness t l h = host_submit t (M_setBrightness l) (host_options json (M_setBrightness l)) False h"
  "host_setSleep t b h = host_submit t (M_setSleep b) (host_options json (M_setSleep b)) False h"
  "setTouchStripMask t ids h = host_submit t (M_setTouchStripMask ids) (host_options json (M_setTouchStripMask ids)) False h"
  by (simp_all add: renderCoraImage_def sendSplashImage_def host_clearKey_def host_setBrightness_def host_setSleep_def
      setTouchStripMask_def control_def control_opts_def host_options_def msg_kind_def msg_key_def)

text \<open>An image lands on one key, its target.\<close>

definition target :: "device_model \<Rightarrow> 'ov main_to_worker \<Rightarrow> int option" where
  "target m msg = (case msg of
     M_image k _ _ \<Rightarrow> (let wire = mk2IndexToDeviceImgId k (dm_keyMap m) in if wire < 0 then None else Some wire)
   | M_imageWithSpec k _ _ \<Rightarrow> Some k
   | _ \<Rightarrow> None)"

definition content :: "(bytes \<Rightarrow> transform_args \<Rightarrow> bytes) \<Rightarrow> device_model \<Rightarrow> 'ov main_to_worker \<Rightarrow> bytes" where
  "content f m msg = (case msg of
     M_image _ img fmt \<Rightarrow>
       (if fmt = Bmp \<and> sp_format (dm_image m) = Bmp \<or> sp_transform (dm_image m) = Passthrough then img
        else take OUT_MAX_BYTES (f img (transform_args_of (dm_image m))))
   | M_imageWithSpec _ img sp \<Rightarrow> take OUT_MAX_BYTES (f img (transform_args_of sp))
   | _ \<Rightarrow> [])"

lemma panel_native: "native_ok (we_native (panel_env f))"
proof -
  have "\<exists>bs. \<forall>cap. proc_transform (we_native (panel_env f)) img args cap
      = (if length bs \<le> cap then Proc_done bs else Proc_too_small)" for img args
    by (rule exI[of _ "take OUT_MAX_BYTES (f img args)"]) (simp add: panel_env_def Let_def)
  then show ?thesis unfolding native_ok_def by blast
qed

lemma panel_result: "native_result (we_native (panel_env f)) img args = Inr (take OUT_MAX_BYTES (f img args))"
  by (simp add: native_result_def panel_env_def Let_def)

lemma panel_send: "we_send (panel_env f) k bs d = (None, d(k \<mapsto> bs))"
  by (simp add: panel_env_def)

lemma new_lru_right: "image_cache.right_for R new_lru"
proof -
  have "image_cache_ok new_lru" by (simp add: image_cache_ok_def lru_ok_def lru_counted_def new_lru_def)
  from image_cache.right_clear[OF this, of R] show ?thesis by (simp add: lru_clear_def new_lru_def)
qed

lemma shown_image:
  assumes "msg_kind msg = Kind_image"
  shows "shown f m msg d = (case target m msg of None \<Rightarrow> d | Some k \<Rightarrow> d(k \<mapsto> content f m msg))"
proof (cases msg)
  case (M_image k img fmt)
  let ?E = "panel_env f :: (int \<Rightarrow> bytes option, 'a) worker_env"
  let ?s = "\<lparr>rs_cache = new_lru, rs_out = OUT_INITIAL_BYTES, rs_dev = d\<rparr>" and ?F = "{(m, k, img, fmt)}"
  have n: "rs_out ?s \<in> out_sizes" by (simp add: out_sizes_eq OUT_INITIAL_BYTES_def)
  have "collision_free (we_native ?E) ?F" by (simp add: collision_free_def)
  from renderImage_direct[OF panel_native n _ this _ refl, of m k img fmt "we_send ?E"]
  obtain r s' where r: "renderImage (we_native ?E) (we_send ?E) m k img fmt ?s = Some (r, s')"
    "render_direct (we_native ?E) (we_send ?E) (m, k, img, fmt) d = (outcome_error r, rs_dev s')"
    using new_lru_right by auto
  have "rs_dev s' = (case target m msg of None \<Rightarrow> d | Some k \<Rightarrow> d(k \<mapsto> content f m msg))"
    using r(2) by (auto simp: render_direct_def direct_native_def panel_result M_image target_def content_def Let_def
        panel_send split: if_splits)
  moreover have "shown f m msg d = rs_dev s'"
    using r(1) by (cases r) (auto simp: shown_def M_image handle_def isTouchStripMsg_def handleImage_def open_panel_def
        new_worker_def wk_post_def Let_def split: prod.split)
  ultimately show ?thesis by simp
next
  case (M_imageWithSpec k img sp)
  let ?E = "panel_env f :: (int \<Rightarrow> bytes option, 'a) worker_env"
  have "OUT_INITIAL_BYTES \<in> out_sizes" by (simp add: out_sizes_eq OUT_INITIAL_BYTES_def)
  from transform_loop_result[OF panel_native this, of f img "transform_args_of sp"]
  obtain n where "transformImageForDevice (we_native ?E) img sp OUT_INITIAL_BYTES
      = Some (Inr (take OUT_MAX_BYTES (f img (transform_args_of sp))), n)"
    by (auto simp: transformImageForDevice_def panel_result)
  then show ?thesis
    by (simp add: shown_def M_imageWithSpec handle_def isTouchStripMsg_def handleSplashImage_def open_panel_def
        new_worker_def device_call_def target_def content_def panel_send)
qed (use assms in \<open>simp_all add: msg_kind_def\<close>)

lemma shown_off_target:
  assumes "\<forall>z\<in>set zs. msg_kind z = Kind_image" "\<forall>j. j \<noteq> k \<longrightarrow> d j = d' j" "j \<noteq> k"
  shows "fold (shown f m) zs d j = fold (shown f m) zs d' j"
  using assms(1,2)
proof (induction zs arbitrary: d d')
  case (Cons z zs)
  have "shown f m z d i = shown f m z d' i" if "i \<noteq> k" for i
    using Cons(2,3) that by (simp add: shown_image split: option.split)
  then show ?case using Cons(1)[of "shown f m z d" "shown f m z d'"] Cons(2) by simp
qed (use assms(3) in simp)

lemma same_key_target:
  fixes x y :: "'a main_to_worker"
  assumes "msg_key json x = msg_key json y" "msg_kind x = Kind_image" "msg_kind y = Kind_image"
  shows "target m x = target m y"
proof -
  have img: "(\<exists>k i f. z = M_image k i f) \<or> (\<exists>k i sp. z = M_imageWithSpec k i sp)"
    if "msg_kind z = Kind_image" for z :: "'a main_to_worker"
    using that by (cases z) (simp_all add: msg_kind_def)
  have d: "spec_key json j sp \<noteq> cora_key i" for i j and sp :: image_spec
    using keys_differ[of i json j sp] by simp
  show ?thesis using assms(1) img[OF assms(2)] img[OF assms(3)]
    by (elim disjE exE) (auto simp: msg_key_def target_def keys_differ d dest: cora_key_inj spec_key_inj)
qed

interpretation panel: work_sink "shown f m" msg_kind "msg_key json"
  for f :: "bytes \<Rightarrow> transform_args \<Rightarrow> bytes" and m :: device_model and json :: "image_spec \<Rightarrow> string"
proof unfold_locales
  fix x y :: "'a main_to_worker" and zs :: "'a main_to_worker list" and d
  assume k: "msg_kind x = Kind_image" "msg_kind y = Kind_image" "msg_key json x = msg_key json y"
    and zs: "\<forall>z\<in>set zs. msg_kind z = Kind_image"
  have t: "target m x = target m y" by (rule same_key_target[OF k(3,1,2)])
  show "fold (shown f m) (x # zs @ [y]) d = fold (shown f m) (zs @ [y]) d"
  proof (cases "target m y")
    case None
    then show ?thesis using t k by (simp add: shown_image)
  next
    case (Some i)
    have "shown f m x d j = d j" if "j \<noteq> i" for j using Some t k(1) that by (simp add: shown_image)
    then have "fold (shown f m) zs (shown f m x d) j = fold (shown f m) zs d j" if "j \<noteq> i" for j
      using shown_off_target[OF zs _ that, of "shown f m x d" d] by simp
    then show ?thesis using Some k(2) by (auto simp: shown_image fun_eq_iff)
  qed
next
  show "msg_kind x = Kind_image" if "msg_key json x \<noteq> None" for x :: "'a main_to_worker"
    using that by (cases x) (simp_all add: msg_key_def msg_kind_def)
qed

section \<open>Properties\<close>


text \<open>One image in flight; of two waiting frames for one key only the second is kept.\<close>

definition three_frames :: "unit main_to_worker queue_op list" where
  "three_frames = map (\<lambda>(k, b). Op_submit (M_image k [b] Jpeg) (host_options (\<lambda>_. []) (M_image k [b] Jpeg)))
     [(0, 1), (1, 2), (1, 3)]"

definition one_slot :: work_budgets where
  "one_slot = \<lparr>max_posted = 1, max_posted_bytes = 10, max_pending = 3, max_pending_bytes = 10, controlReserve = 1\<rparr>"

lemmas frame_defs = one_slot_def host_options_def msg_kind_def msg_key_def submit_def fitsPosted_def post_msg_def
  new_work_queue_def superseded_by_def supersededIndex_def push_waiting_def wait_entry_def splice1_def cora_key_def Let_def

definition waiting_frame :: "8 word \<Rightarrow> unit main_to_worker waiting_msg" where
  "waiting_frame b = \<lparr>w_msg = M_image 1 [b] Jpeg, w_kind = Kind_image, w_bytes = 1, w_key = Some (cora_key 1)\<rparr>"

definition frame_queue :: "8 word list \<Rightarrow> nat \<Rightarrow> unit main_to_worker work_queue" where
  "frame_queue ws n = \<lparr>nextId = 2, posted = [(1, 1)], postedBytes = 1, waiting = map waiting_frame ws,
     waitingBytes = int (length ws), peakPendingBytes = int (length ws), peakPostedBytes = 1, coalesced = n,
     outbox = [(1, M_image 0 [1] Jpeg)]\<rparr>"

lemma frame_step1:
  "submit one_slot never (M_image 0 [1] Jpeg) (host_options (\<lambda>_. []) (M_image 0 [1] Jpeg)) new_work_queue
     = (Posted, frame_queue [] 0)"
  by (simp add: frame_defs frame_queue_def)

lemma frame_step2:
  "submit one_slot never (M_image 1 [b] Jpeg) (host_options (\<lambda>_. []) (M_image 1 [b] Jpeg)) (frame_queue [] 0)
     = (Queued, frame_queue [b] 0)"
  by (simp add: frame_defs frame_queue_def waiting_frame_def)

lemma frame_step3:
  "submit one_slot never (M_image 1 [c] Jpeg) (host_options (\<lambda>_. []) (M_image 1 [c] Jpeg)) (frame_queue [b] 0)
     = (Coalesced, frame_queue [c] 1)"
  by (simp add: frame_defs frame_queue_def waiting_frame_def)


end
