(* ===== verification/Acts.thy ===== *)
theory Acts
  imports Prelude
begin

text \<open>
  Operations that change a state and report, in order, what they do to the outside.  An operation
  returns the new state and the list of its effects; \<open>acts\<close> runs a list of operations one after
  the other.  The simplification rules split a run into its state and its effects, so that the
  component theories reason about the two separately.
\<close>

type_synonym ('s, 'e) eff = "'s \<Rightarrow> 's \<times> 'e list"

definition skip :: "('s, 'e) eff" where
  "skip s = (s, [])"

definition emits :: "'e \<Rightarrow> ('s, 'e) eff" where
  "emits e s = (s, [e])"

definition upd :: "('s \<Rightarrow> 's) \<Rightarrow> ('s, 'e) eff" where
  "upd f s = (f s, [])"

definition ite :: "('s \<Rightarrow> bool) \<Rightarrow> ('s, 'e) eff \<Rightarrow> ('s, 'e) eff \<Rightarrow> ('s, 'e) eff" where
  "ite b f g s = (if b s then f s else g s)"

fun acts :: "('s, 'e) eff list \<Rightarrow> ('s, 'e) eff" where
  "acts [] s = (s, [])"
| "acts (f # fs) s =
    (let (s1, e1) = f s; (s2, e2) = acts fs s1 in (s2, e1 @ e2))"

lemma act_simps [simp]:
  "fst (skip s) = s" "snd (skip s) = []"
  "fst (emits e s) = s" "snd (emits e s) = [e]"
  "fst (upd f s) = f s" "snd (upd f s) = []"
  by (simp_all add: skip_def emits_def upd_def)

lemma fst_acts [simp]: "fst (acts (f # fs) s) = fst (acts fs (fst (f s)))"
  by (simp add: Let_def split: prod.splits)

lemma snd_acts [simp]: "snd (acts (f # fs) s) = snd (f s) @ snd (acts fs (fst (f s)))"
  by (simp add: Let_def split: prod.splits)

declare acts.simps(2) [simp del]

lemma acts_append:
  "fst (acts (fs @ gs) s) = fst (acts gs (fst (acts fs s)))"
  "snd (acts (fs @ gs) s) = snd (acts fs s) @ snd (acts gs (fst (acts fs s)))"
  by (induction fs arbitrary: s) auto

text \<open>What every action of a list keeps, the list keeps.\<close>

lemma acts_keeps:
  assumes "\<And>f s. f \<in> set fs \<Longrightarrow> P s \<Longrightarrow> P (fst (f s))" "P s"
  shows "P (fst (acts fs s))"
  using assms by (induction fs arbitrary: s) auto

end
