(* ===== verification/Cora_Server.thy ===== *)
theory Cora_Server
  imports Acts Cora_Frame Image_Assembler
begin

text \<open>
  \<^verbatim>\<open>cora/server-base.ts\<close>: the single-client TCP server both CORA servers extend.  The class
  is a record that the servers extend in turn, so that its operations apply to every
  extension; its abstract operations (\<^verbatim>\<open>handleCoraPacket\<close>, \<^verbatim>\<open>onClientConnected\<close>) and the
  listeners a server registers on itself are arguments.  An operation returns the new state
  and, in order, what it does to the outside: the calls on sockets, the emitted events, the
  settled promises.  Logs and communication traces are not modelled.
\<close>

section \<open>Effects\<close>

datatype sock = Inbound nat | Outbound nat

datatype cora_event =
    Write sock bytes
  | Destroy sock
  | Dial sock string
  | Client_connected string
  | Client_disconnected
  | App_detected string
  | Brightness byte
  | Image_received image_event
  | Touch_image bytes "region option"
  | Start_resolved nat
  | Start_rejected nat
  | Server_closed
  | Native_advertise string nat string
  | Native_withdraw nat
  | Spawn "string list"
  | Kill

type_synonym 's act = "('s, cora_event) eff"

section \<open>State\<close>

record cora_server =
  cs_port :: nat
  cs_client :: "sock option"
  cs_timer :: bool
  cs_seq :: byte
  cs_reader :: reader
  cs_lastRx :: nat
  cs_grace :: nat
  cs_errorHandler :: "nat option"
  cs_cancelStart :: "nat option"
  cs_starts :: nat
  cs_started :: "nat list"

text \<open>\<open>cs_starts\<close> counts the calls of \<^verbatim>\<open>startServer\<close>; a call's closure (\<^verbatim>\<open>onError\<close>) is its number,
  and \<open>cs_started\<close> lists the calls whose \<^verbatim>\<open>started\<close> variable is true.\<close>

definition new_server :: "nat \<Rightarrow> cora_server" where
  "new_server port =
     \<lparr> cs_port = port, cs_client = None, cs_timer = False, cs_seq = 0, cs_reader = empty_reader,
       cs_lastRx = 0, cs_grace = CLIENT_EVICTION_GRACE_MS, cs_errorHandler = None,
       cs_cancelStart = None, cs_starts = 0, cs_started = [] \<rparr>"

definition hasClient :: "'a cora_server_scheme \<Rightarrow> bool" where
  "hasClient s \<longleftrightarrow> cs_client s \<noteq> None"

definition rxIdleMs :: "nat \<Rightarrow> 'a cora_server_scheme \<Rightarrow> nat" where
  "rxIdleMs now s = (if hasClient s then now - cs_lastRx s else 0)"

section \<open>Starting and stopping\<close>

definition dropClient :: "'a cora_server_scheme act" where
  "dropClient s = (s, case cs_client s of None \<Rightarrow> [] | Some k \<Rightarrow> [Destroy k])"

text \<open>\<^verbatim>\<open>onError\<close> of the call \<open>n\<close> of \<^verbatim>\<open>startServer\<close>: after the start only a log line.\<close>

definition startError :: "nat \<Rightarrow> 'a cora_server_scheme act" where
  "startError n s =
     (if n \<in> set (cs_started s) then skip s
      else (s\<lparr>cs_cancelStart := None\<rparr>, [Start_rejected n]))"

definition startServer :: "'a cora_server_scheme act" where
  "startServer s =
     (let n = cs_starts s
      in (s\<lparr>cs_starts := n + 1, cs_errorHandler := Some n, cs_cancelStart := Some n\<rparr>, []))"

text \<open>The listen callback of the call \<open>n\<close>.\<close>

definition startListening :: "nat \<Rightarrow> 'a cora_server_scheme act" where
  "startListening n s =
     (s\<lparr>cs_started := n # cs_started s, cs_cancelStart := None\<rparr>, [Start_resolved n])"

text \<open>An \<^verbatim>\<open>error\<close> event of the listening socket.\<close>

definition serverError :: "'a cora_server_scheme act" where
  "serverError s = (case cs_errorHandler s of None \<Rightarrow> skip s | Some n \<Rightarrow> startError n s)"

definition clearKeepalive :: "'a cora_server_scheme act" where
  "clearKeepalive = upd (\<lambda>s. s\<lparr>cs_timer := False\<rparr>)"

definition dropAndForget :: "'a cora_server_scheme act" where
  "dropAndForget s =
     (case cs_client s of None \<Rightarrow> skip s | Some k \<Rightarrow> (s\<lparr>cs_client := None\<rparr>, [Destroy k]))"

definition stopServer :: "'a cora_server_scheme act" where
  "stopServer = acts
     [ \<lambda>s. (case cs_cancelStart s of None \<Rightarrow> skip s | Some n \<Rightarrow> startError n s),
       upd (\<lambda>s. s\<lparr>cs_cancelStart := None\<rparr>),
       clearKeepalive,
       upd (\<lambda>s. s\<lparr>cs_errorHandler := None\<rparr>),
       dropAndForget,
       emits Server_closed ]"

section \<open>Sending\<close>

definition sendFrame :: "bytes \<Rightarrow> nat \<Rightarrow> nat \<Rightarrow> nat \<Rightarrow> 'a cora_server_scheme act" where
  "sendFrame payload fl op mid s =
     (s, case cs_client s of None \<Rightarrow> [] | Some k \<Rightarrow> [Write k (encodeCoraFrame payload fl op mid)])"

definition keepalive_payload :: "byte \<Rightarrow> bytes" where
  "keepalive_payload q =
     (let p = alloc KEEPALIVE_PAYLOAD_SIZE;
          p = put p 0 (of_nat PKT_EVENT);
          p = put p 1 (of_nat EVENT_SUBTYPE_KEEPALIVE);
          p = put p 2 (of_nat KEEPALIVE_SUBTYPE);
          p = put p 4 0x01
      in put p KEEPALIVE_PKT_SEQ_OFFSET q)"

definition sendKeepalive :: "'a cora_server_scheme act" where
  "sendKeepalive s =
     acts [ sendFrame (keepalive_payload (cs_seq s)) 0 0 (unat (cs_seq s)),
            upd (\<lambda>s. s\<lparr>cs_seq := cs_seq s + 1\<rparr>) ] s"

definition sendAckNak :: "nat \<Rightarrow> nat \<Rightarrow> 'a cora_server_scheme act" where
  "sendAckNak mid op = sendFrame (alloc 4) (CORA_FLAG_VERBATIM OR CORA_FLAG_ACKNAK) op mid"

section \<open>The client's connection\<close>

text \<open>\<^verbatim>\<open>acceptConnection\<close>: a newcomer is turned away while the client was heard from within
  the grace period, and otherwise replaces it.  \<open>onConnected\<close> is the server's
  \<^verbatim>\<open>onClientConnected\<close>.\<close>

definition adopt ::
  "(string \<Rightarrow> nat \<Rightarrow> 'a cora_server_scheme act) \<Rightarrow> sock \<Rightarrow> string \<Rightarrow> nat \<Rightarrow> 'a cora_server_scheme act" where
  "adopt onConnected k addr now = acts
     [ upd (\<lambda>s. s\<lparr>cs_client := Some k, cs_reader := empty_reader, cs_seq := 0, cs_lastRx := now\<rparr>),
       emits (Client_connected addr),
       onConnected addr now,
       sendKeepalive,
       upd (\<lambda>s. s\<lparr>cs_timer := True\<rparr>) ]"

definition acceptConnection ::
  "(string \<Rightarrow> nat \<Rightarrow> 'a cora_server_scheme act) \<Rightarrow> sock \<Rightarrow> string \<Rightarrow> nat \<Rightarrow> 'a cora_server_scheme act" where
  "acceptConnection onConnected k addr now s =
     (case cs_client s of
        None \<Rightarrow> adopt onConnected k addr now s
      | Some c \<Rightarrow>
          if now < cs_lastRx s + cs_grace s then (s, [Destroy k])
          else acts [ emits (Destroy c), upd (\<lambda>s. s\<lparr>cs_client := None\<rparr>), clearKeepalive,
                      adopt onConnected k addr now ] s)"

text \<open>The interval callback, which runs while the timer is set.\<close>

definition keepaliveTick :: "'a cora_server_scheme act" where
  "keepaliveTick s = (if cs_timer s then sendKeepalive s else skip s)"

text \<open>A \<^verbatim>\<open>data\<close> event: every frame the chunk completes is handled, in order.\<close>

definition onData ::
  "(cora_frame \<Rightarrow> 'a cora_server_scheme act) \<Rightarrow> reader \<Rightarrow> nat \<Rightarrow> 'a cora_server_scheme act" where
  "onData handle chunk now s =
     (let (fs, r) = drainFrames (append_chunk (cs_reader s) chunk)
      in acts (map handle fs) (s\<lparr>cs_lastRx := now, cs_reader := r\<rparr>))"

text \<open>A \<^verbatim>\<open>close\<close> event; \<open>onGone\<close> is the server's own listener of \<^verbatim>\<open>clientDisconnected\<close>, the
  first to be registered and so the first to run.\<close>

definition onClose ::
  "'a cora_server_scheme act \<Rightarrow> sock \<Rightarrow> 'a cora_server_scheme act" where
  "onClose onGone k s =
     (if cs_client s \<noteq> Some k then skip s
      else acts [ clearKeepalive, upd (\<lambda>s. s\<lparr>cs_client := None\<rparr>), onGone,
                  emits Client_disconnected ] s)"

definition onSocketError :: "sock \<Rightarrow> 'a cora_server_scheme act" where
  "onSocketError k = emits (Destroy k)"

section \<open>The contract of a server's own operations\<close>

text \<open>What the base class relies on: a server's packet handler and its listeners leave the
  base class's fields alone, and write only to the attached client.\<close>

abbreviation base_of :: "'a cora_server_scheme \<Rightarrow> cora_server" where
  "base_of \<equiv> cora_server.truncate"

lemma base_fields:
  assumes "base_of s = base_of t"
  shows "cs_port s = cs_port t" "cs_client s = cs_client t" "cs_timer s = cs_timer t"
    "cs_seq s = cs_seq t" "cs_reader s = cs_reader t" "cs_lastRx s = cs_lastRx t"
    "cs_grace s = cs_grace t"
  using assms by (simp_all add: cora_server.truncate_def)

definition writes_only :: "sock option \<Rightarrow> cora_event list \<Rightarrow> bool" where
  "writes_only c es \<longleftrightarrow> (\<forall>k b. Write k b \<in> set es \<longrightarrow> c = Some k)"

lemma writes_only_simps [simp]:
  "writes_only c []" "writes_only c (es @ fs) \<longleftrightarrow> writes_only c es \<and> writes_only c fs"
  "writes_only c (Write k b # es) \<longleftrightarrow> c = Some k \<and> writes_only c es"
  by (auto simp: writes_only_def)

lemma writes_only_other [simp]:
  "writes_only c (Destroy k # es) = writes_only c es"
  "writes_only c (Dial k a # es) = writes_only c es"
  "writes_only c (Client_connected a # es) = writes_only c es"
  "writes_only c (Client_disconnected # es) = writes_only c es"
  "writes_only c (App_detected a # es) = writes_only c es"
  "writes_only c (Brightness v # es) = writes_only c es"
  "writes_only c (Image_received i # es) = writes_only c es"
  "writes_only c (Touch_image d r # es) = writes_only c es"
  by (auto simp: writes_only_def)

lemma send_keeps [simp]:
  "fst (sendFrame p fl op mid s) = s" "fst (sendAckNak mid op s) = s"
  "writes_only (cs_client s) (snd (sendFrame p fl op mid s))"
  "writes_only (cs_client s) (snd (sendAckNak mid op s))"
  by (auto simp: sendFrame_def sendAckNak_def split: option.splits)

lemma send_no_destroy [simp]:
  "Destroy k \<notin> set (snd (sendFrame p fl op mid s))" "Destroy k \<notin> set (snd (sendAckNak mid op s))"
  "Dial k a \<notin> set (snd (sendFrame p fl op mid s))" "Dial k a \<notin> set (snd (sendAckNak mid op s))"
  by (auto simp: sendFrame_def sendAckNak_def split: option.splits)

locale server_hooks =
  fixes onConnected :: "string \<Rightarrow> nat \<Rightarrow> 'a cora_server_scheme act"
    and handle :: "nat \<Rightarrow> cora_frame \<Rightarrow> 'a cora_server_scheme act"
    and onGone :: "'a cora_server_scheme act"
  assumes connected_base: "base_of (fst (onConnected addr now s)) = base_of s"
    and handle_base: "base_of (fst (handle now f s)) = base_of s"
    and gone_base: "base_of (fst (onGone s)) = base_of s"
    and handle_writes: "writes_only (cs_client s) (snd (handle now f s))"
    and connected_writes: "writes_only (cs_client s) (snd (onConnected addr now s))"
    and handle_destroys: "Destroy k \<notin> set (snd (handle now f s))"
begin

lemma handle_all_base: "base_of (fst (acts (map (handle now) fs) s)) = base_of s"
  by (induction fs arbitrary: s) (simp_all add: handle_base)

lemma handle_all_writes: "writes_only (cs_client s) (snd (acts (map (handle now) fs) s))"
proof (induction fs arbitrary: s)
  case (Cons f fs)
  have "cs_client (fst (handle now f s)) = cs_client s"
    using base_fields(2)[OF handle_base] .
  then show ?case using Cons[of "fst (handle now f s)"] handle_writes by simp
qed simp

lemma handle_all_destroys: "Destroy k \<notin> set (snd (acts (map (handle now) fs) s))"
  by (induction fs arbitrary: s) (simp_all add: handle_destroys)

lemma data_fields:
  fixes s c now
  defines "t \<equiv> fst (onData (handle now) c now s)"
  shows "cs_client t = cs_client s" "cs_timer t = cs_timer s" "cs_seq t = cs_seq s"
    "cs_lastRx t = now" "cs_reader t = snd (drainFrames (append_chunk (cs_reader s) c))"
proof -
  obtain fs r where d: "drainFrames (append_chunk (cs_reader s) c) = (fs, r)" by fastforce
  have "base_of t = base_of (s\<lparr>cs_lastRx := now, cs_reader := r\<rparr>)"
    by (simp add: t_def onData_def d handle_all_base)
  from base_fields[OF this] show "cs_client t = cs_client s" "cs_timer t = cs_timer s"
    "cs_seq t = cs_seq s" "cs_lastRx t = now"
    "cs_reader t = snd (drainFrames (append_chunk (cs_reader s) c))"
    by (simp_all add: d)
qed

lemma data_events:
  "writes_only (cs_client s) (snd (onData (handle now) c now s))"
  "Destroy k \<notin> set (snd (onData (handle now) c now s))"
proof -
  obtain fs r where d: "drainFrames (append_chunk (cs_reader s) c) = (fs, r)" by fastforce
  show "writes_only (cs_client s) (snd (onData (handle now) c now s))"
    using handle_all_writes[of "s\<lparr>cs_lastRx := now, cs_reader := r\<rparr>" now fs]
    by (simp add: onData_def d)
  show "Destroy k \<notin> set (snd (onData (handle now) c now s))"
    by (simp add: onData_def d handle_all_destroys)
qed

lemma adopt_fields:
  fixes k addr now s
  defines "t \<equiv> fst (adopt onConnected k addr now s)"
  shows "cs_client t = Some k" "cs_timer t" "cs_seq t = 1" "cs_lastRx t = now"
    "cs_reader t = empty_reader" "cs_grace t = cs_grace s"
proof -
  let ?u = "s\<lparr>cs_client := Some k, cs_reader := empty_reader, cs_seq := 0, cs_lastRx := now\<rparr>"
  have b: "base_of (fst (onConnected addr now ?u)) = base_of ?u" by (rule connected_base)
  show "cs_client t = Some k" "cs_timer t" "cs_seq t = 1" "cs_lastRx t = now"
    "cs_reader t = empty_reader" "cs_grace t = cs_grace s"
    using base_fields[OF b] by (simp_all add: t_def adopt_def sendKeepalive_def)
qed

text \<open>The first thing a new client is sent by the base class is the keepalive numbered 0.\<close>

lemma adopt_events:
  "snd (adopt onConnected k addr now s) =
     Client_connected addr #
     snd (onConnected addr now
       (s\<lparr>cs_client := Some k, cs_reader := empty_reader, cs_seq := 0, cs_lastRx := now\<rparr>)) @
     [Write k (encodeCoraFrame (keepalive_payload 0) 0 0 0)]"
proof -
  let ?u = "s\<lparr>cs_client := Some k, cs_reader := empty_reader, cs_seq := 0, cs_lastRx := now\<rparr>"
  have b: "base_of (fst (onConnected addr now ?u)) = base_of ?u" by (rule connected_base)
  show ?thesis
    using base_fields[OF b] by (simp add: adopt_def sendKeepalive_def sendFrame_def)
qed

lemma close_fields:
  fixes k s
  defines "t \<equiv> fst (onClose onGone k s)"
  shows "cs_client t = (if cs_client s = Some k then None else cs_client s)"
    "cs_timer t = (cs_timer s \<and> cs_client s \<noteq> Some k)"
    "cs_reader t = cs_reader s"
proof -
  let ?u = "s\<lparr>cs_timer := False, cs_client := None\<rparr>"
  have b: "base_of (fst (onGone ?u)) = base_of ?u" by (rule gone_base)
  show "cs_client t = (if cs_client s = Some k then None else cs_client s)"
    "cs_timer t = (cs_timer s \<and> cs_client s \<noteq> Some k)"
    "cs_reader t = cs_reader s"
    using base_fields[OF b] by (simp_all add: t_def onClose_def clearKeepalive_def)
qed

end

end
