(* ===== verification/Child_Reconnector.thy ===== *)
theory Child_Reconnector
  imports Cora_Server
begin

text \<open>
  \<^verbatim>\<open>cora/child-reconnector.ts\<close>: dialling back to the desktop app after its child session
  dropped.  \<open>rc_dials\<close> counts the connections dialled so far, so that \<open>Outbound n\<close> names the
  socket \<^verbatim>\<open>createConnection\<close> returns for the n-th.  The host's \<^verbatim>\<open>hasClient\<close> is an argument of
  the operations that ask for it; \<^verbatim>\<open>accept\<close> is called by the child server.
\<close>

datatype reconnect_state = Idle | In_progress | Scheduled

record reconnector =
  rc_remote :: "string option"
  rc_timer :: bool
  rc_enabled :: bool
  rc_state :: reconnect_state
  rc_outbound :: "sock option"
  rc_allow :: bool
  rc_dials :: nat

definition new_reconnector :: "bool \<Rightarrow> reconnector" where
  "new_reconnector allowOutbound =
     \<lparr> rc_remote = None, rc_timer = False, rc_enabled = False, rc_state = Idle,
       rc_outbound = None, rc_allow = allowOutbound, rc_dials = 0 \<rparr>"

definition rc_start :: "reconnector act" where
  "rc_start = upd (\<lambda>r. r\<lparr>rc_enabled := True\<rparr>)"

definition dropOutbound :: "reconnector act" where
  "dropOutbound r =
     (case rc_outbound r of None \<Rightarrow> skip r | Some k \<Rightarrow> (r\<lparr>rc_outbound := None\<rparr>, [Destroy k]))"

definition rc_stop :: "reconnector act" where
  "rc_stop = acts
     [ upd (\<lambda>r. r\<lparr>rc_enabled := False\<rparr>), dropOutbound, upd (\<lambda>r. r\<lparr>rc_timer := False\<rparr>) ]"

definition onInbound :: "string \<Rightarrow> reconnector act" where
  "onInbound addr = acts
     [ upd (\<lambda>r. r\<lparr>rc_remote := Some addr, rc_state := Idle\<rparr>), dropOutbound,
       upd (\<lambda>r. r\<lparr>rc_timer := False\<rparr>) ]"

text \<open>\<^verbatim>\<open>!this.remoteAddress\<close>: no address, or an empty one.\<close>

definition has_remote :: "reconnector \<Rightarrow> bool" where
  "has_remote r \<longleftrightarrow> rc_remote r \<noteq> None \<and> rc_remote r \<noteq> Some ''''"

definition tryConnect :: "bool \<Rightarrow> reconnector act" where
  "tryConnect client r =
     (if \<not> rc_enabled r \<or> \<not> has_remote r \<or> \<not> rc_allow r then skip r
      else if client then skip r
      else if rc_state r = Scheduled then skip r
      else if rc_state r = In_progress then skip r
      else (r\<lparr>rc_state := In_progress, rc_outbound := Some (Outbound (rc_dials r)),
               rc_dials := rc_dials r + 1\<rparr>,
            [Dial (Outbound (rc_dials r)) (the (rc_remote r))]))"

definition onDisconnected :: "bool \<Rightarrow> reconnector act" where
  "onDisconnected client r =
     (if \<not> rc_enabled r \<or> rc_state r \<noteq> Idle then skip r else tryConnect client r)"

text \<open>The connect callback, up to handing the socket to the host.\<close>

definition onDialled :: "reconnector act" where
  "onDialled = upd (\<lambda>r. r\<lparr>rc_timer := False, rc_state := Idle, rc_outbound := None\<rparr>)"

definition onDialError :: "sock \<Rightarrow> reconnector act" where
  "onDialError k r =
     (if rc_outbound r \<noteq> Some k then skip r
      else (r\<lparr>rc_outbound := None, rc_state := Scheduled, rc_timer := True\<rparr>, [Destroy k]))"

definition onRetryTimer :: "bool \<Rightarrow> reconnector act" where
  "onRetryTimer client r =
     (if rc_timer r then tryConnect client (r\<lparr>rc_timer := False, rc_state := Idle\<rparr>) else skip r)"

section \<open>Invariant\<close>

text \<open>A dial in flight and a scheduled retry exclude each other, both need an enabled
  reconnector and show in the state (a stopped reconnector keeps the state of what it
  cancelled), and only the newest dial can be in flight.\<close>

definition rc_ok :: "reconnector \<Rightarrow> bool" where
  "rc_ok r \<longleftrightarrow>
     (rc_outbound r \<noteq> None \<longrightarrow> rc_state r = In_progress \<and> rc_enabled r \<and> rc_allow r
        \<and> 0 < rc_dials r \<and> rc_outbound r = Some (Outbound (rc_dials r - 1)))
     \<and> (rc_timer r \<longrightarrow> rc_state r = Scheduled \<and> rc_enabled r \<and> rc_allow r)"

definition rc_quiet :: "reconnector \<Rightarrow> bool" where
  "rc_quiet r \<longleftrightarrow> rc_outbound r = None \<and> \<not> rc_timer r \<and> rc_state r = Idle"

lemmas rc_defs = rc_start_def rc_stop_def onInbound_def onDialled_def onDialError_def
  onRetryTimer_def onDisconnected_def tryConnect_def dropOutbound_def

lemma rc_new [simp]: "rc_ok (new_reconnector a)" "rc_quiet (new_reconnector a)"
  by (simp_all add: rc_ok_def rc_quiet_def new_reconnector_def)

lemma rc_quiet_ok: "rc_quiet r \<Longrightarrow> rc_ok r"
  by (simp add: rc_quiet_def rc_ok_def)

lemma rc_ok_ops:
  assumes "rc_ok r"
  shows "rc_ok (fst (rc_start r))" "rc_ok (fst (rc_stop r))" "rc_ok (fst (onInbound a r))"
    "rc_ok (fst (onDialled r))" "rc_ok (fst (onDialError k r))"
    "rc_ok (fst (onRetryTimer c r))" "rc_ok (fst (onDisconnected c r))"
  using assms by (auto simp: rc_ok_def rc_defs skip_def split: option.splits)

lemma rc_quiet_ops:
  "rc_quiet (fst (onInbound a r))" "rc_ok r \<Longrightarrow> rc_quiet (fst (onDialled r))"
  "rc_quiet r \<Longrightarrow> rc_quiet (fst (rc_start r))" "rc_quiet r \<Longrightarrow> rc_quiet (fst (rc_stop r))"
  by (auto simp: rc_quiet_def rc_ok_def rc_defs skip_def split: option.splits)

text \<open>What the operations do to the outside.\<close>

lemma rc_stop_events:
  "snd (rc_stop r) = (case rc_outbound r of None \<Rightarrow> [] | Some k \<Rightarrow> [Destroy k])"
  "snd (onInbound a r) = (case rc_outbound r of None \<Rightarrow> [] | Some k \<Rightarrow> [Destroy k])"
  by (auto simp: rc_defs skip_def split: option.splits)

lemma tryConnect_events:
  "snd (tryConnect c r) =
     (if rc_enabled r \<and> has_remote r \<and> rc_allow r \<and> \<not> c \<and> rc_state r = Idle
      then [Dial (Outbound (rc_dials r)) (the (rc_remote r))] else [])"
  by (cases "rc_state r") (auto simp: tryConnect_def skip_def)

lemma rc_fields [simp]:
  "rc_allow (fst (rc_start r)) = rc_allow r" "rc_allow (fst (rc_stop r)) = rc_allow r"
  "rc_allow (fst (onInbound a r)) = rc_allow r" "rc_allow (fst (onDialled r)) = rc_allow r"
  "rc_allow (fst (onDialError k r)) = rc_allow r" "rc_allow (fst (onRetryTimer c r)) = rc_allow r"
  "rc_allow (fst (onDisconnected c r)) = rc_allow r"
  by (auto simp: rc_defs skip_def split: option.splits)

lemma rc_dials_mono:
  "rc_dials (fst (rc_start r)) = rc_dials r" "rc_dials (fst (rc_stop r)) = rc_dials r"
  "rc_dials (fst (onInbound a r)) = rc_dials r" "rc_dials (fst (onDialled r)) = rc_dials r"
  "rc_dials (fst (onDialError k r)) = rc_dials r"
  "rc_dials r \<le> rc_dials (fst (onRetryTimer c r))" "rc_dials r \<le> rc_dials (fst (onDisconnected c r))"
  by (auto simp: rc_defs skip_def split: option.splits)

end
