(* ===== verification/Child_Server.thy ===== *)
theory Child_Server
  imports Child_Reconnector Cora_Responses
begin

text \<open>
  \<^verbatim>\<open>cora/child-server.ts\<close> and \<^verbatim>\<open>cora/child-payload.ts\<close>: the server of one emulated panel.  It
  extends the server record with the geometry it advertises, the state of its keys and
  encoders, the image assemblies and the reconnector.  Traces and log lines (and with them
  the log-level tests) are not modelled; \<open>ch_sessionStart\<close>, \<open>ch_sessionId\<close> and \<open>ch_warned\<close> only
  feed them.
\<close>

datatype chunk_key = Key int | Undefined | Not_a_number

datatype key_state = Down | Up

datatype dial_event =
    Dial_press int key_state
  | Dial_rotate int int

record child_server = cora_server +
  ch_geometry :: child_geometry
  ch_config :: device_config
  ch_asm :: assembler
  ch_keyStates :: bytes
  ch_pressMask :: "32 word"
  ch_warned :: "chunk_key list"
  ch_rc :: reconnector
  ch_sessionStart :: nat
  ch_sessionId :: nat

type_synonym child_act = "child_server act"

definition new_child_server ::
  "child_geometry \<Rightarrow> nat \<Rightarrow> device_config \<Rightarrow> bool \<Rightarrow> child_server" where
  "new_child_server geo port config outbound =
     cora_server.extend (new_server port)
       \<lparr> ch_geometry = geo, ch_config = config, ch_asm = empty_assembler,
         ch_keyStates = alloc (keyCount geo), ch_pressMask = 0, ch_warned = [],
         ch_rc = new_reconnector outbound, ch_sessionStart = 0, ch_sessionId = 0 \<rparr>"

definition with_rc :: "reconnector act \<Rightarrow> child_act" where
  "with_rc f s = (let (r, e) = f (ch_rc s) in (s\<lparr>ch_rc := r\<rparr>, e))"

section \<open>Session and geometry\<close>

definition setChildGeometry :: "child_geometry \<Rightarrow> child_act" where
  "setChildGeometry geo =
     upd (\<lambda>s. s\<lparr>ch_geometry := geo,
       ch_keyStates := set_at (alloc (keyCount geo)) 0
         (subarray (ch_keyStates s) 0 (min (length (ch_keyStates s)) (keyCount geo))),
       ch_warned := []\<rparr>)"

definition onChildClientDisconnected :: child_act where
  "onChildClientDisconnected = acts
     [ upd (\<lambda>s. s\<lparr>ch_sessionStart := 0, ch_asm := resetAssemblies (ch_asm s),
                  ch_sessionId := ch_sessionId s + 1\<rparr>),
       \<lambda>s. with_rc (onDisconnected (hasClient s)) s ]"

definition onClientConnected :: "string \<Rightarrow> nat \<Rightarrow> child_act" where
  "onClientConnected addr now = acts
     [ with_rc (onInbound addr),
       upd (\<lambda>s. s\<lparr>ch_sessionStart := now, ch_keyStates := alloc (keyCount (ch_geometry s)),
                  ch_asm := resetAssemblies (ch_asm s), ch_pressMask := 0, ch_warned := []\<rparr>) ]"

text \<open>\<^verbatim>\<open>start\<close> runs the reconnector only once the server listens.\<close>

definition childStart :: child_act where
  "childStart = startServer"

definition childListening :: "nat \<Rightarrow> child_act" where
  "childListening n = acts [ startListening n, with_rc rc_start ]"

definition childStop :: child_act where
  "childStop = acts [ with_rc rc_stop, stopServer ]"

section \<open>Input reports\<close>

definition key_report :: "nat \<Rightarrow> bytes \<Rightarrow> bytes" where
  "key_report kc states =
     (let pkt = alloc ELGATO_PKT_SIZE_TX;
          pkt = put pkt 0 (of_nat REPORT_BUTTON_STATE_INPUT);
          pkt = put pkt 1 (of_nat INPUT_SUBTYPE_BUTTONS);
          pkt = put pkt 2 (of_nat kc)
      in put_all pkt KEY_EVENT_STATE_OFFSET (map (\<lambda>i. unat (at0 states i)) [0..<kc]))"

definition sendAllKeyStates :: child_act where
  "sendAllKeyStates s =
     sendFrame (key_report (keyCount (ch_geometry s)) (ch_keyStates s)) 0 0 0 s"

text \<open>A negative index writes nothing into a typed array.\<close>

definition sendKeyEvent :: "int \<Rightarrow> key_state \<Rightarrow> child_act" where
  "sendKeyEvent keyIndex state s =
     (if int (keyCount (ch_geometry s)) \<le> keyIndex then skip s
      else if \<not> hasClient s then skip s
      else acts
        [ upd (\<lambda>s. if keyIndex < 0 then s
                   else s\<lparr>ch_keyStates := put (ch_keyStates s) (nat keyIndex)
                                             (if state = Down then 1 else 0)\<rparr>),
          sendAllKeyStates ] s)"

text \<open>\<^verbatim>\<open>1 << index\<close>: the shift count is taken modulo 32.\<close>

definition encoder_bit :: "nat \<Rightarrow> 32 word" where
  "encoder_bit i = push_bit (i mod 32) 1"

definition sendDial :: "dial_event \<Rightarrow> child_act" where
  "sendDial event s =
     (let count = or_default (encoderCount (ch_geometry s)) 0;
          index = (case event of Dial_press i _ \<Rightarrow> i | Dial_rotate i _ \<Rightarrow> i)
      in if index < 0 \<or> int count \<le> index then skip s
         else (case event of
             Dial_rotate _ delta \<Rightarrow>
               sendFrame (buildEncoderRotateReport count (nat index) delta) 0 0 0 s
           | Dial_press _ state \<Rightarrow>
               let m = (if state = Down then ch_pressMask s OR encoder_bit (nat index)
                        else ch_pressMask s AND NOT (encoder_bit (nat index)))
               in sendFrame (buildEncoderPressReport count m) 0 0 0 (s\<lparr>ch_pressMask := m\<rparr>)))"

definition sendTouch :: "touch_event \<Rightarrow> child_act" where
  "sendTouch event s =
     (let w = or_default (touchWidth (ch_geometry s)) 0;
          h = or_default (touchHeight (ch_geometry s)) 0
      in if w = 0 \<or> h = 0 then skip s
         else sendFrame (buildTouchReport event w h) 0 0 0 s)"

section \<open>Requests of the client\<close>

definition parseChildBrightness :: "bytes \<Rightarrow> byte option" where
  "parseChildBrightness p =
     (if at_opt p 0 = Some (of_nat PAYLOAD_TYPE_FEATURE)
         \<and> at_opt p 1 \<in> {Some 0x02, Some 0x05, Some 0x08, Some 0x0d} then at_opt p 2
      else if 6 \<le> length p \<and> at_opt p 0 = Some 0x05 \<and> at_opt p 1 = Some 0x55
         \<and> at_opt p 2 = Some 0xaa \<and> at_opt p 3 = Some 0xd1 then at_opt p 5
      else None)"

definition isValidChildImageKey :: "chunk_key \<Rightarrow> nat \<Rightarrow> bool" where
  "isValidChildImageKey k count =
     (case k of Key i \<Rightarrow> 0 \<le> i \<and> i < int count | _ \<Rightarrow> False)"

definition warnOob :: "chunk_key \<Rightarrow> child_act" where
  "warnOob k = upd (\<lambda>s. if k \<in> set (ch_warned s) then s else s\<lparr>ch_warned := k # ch_warned s\<rparr>)"

definition chunk_key_at :: "bytes \<Rightarrow> chunk_key" where
  "chunk_key_at pkt =
     (case at_opt pkt IMAGE_CHUNK_KEY_OFFSET of None \<Rightarrow> Undefined | Some b \<Rightarrow> Key (uint b))"

definition gen1_key_at :: "bytes \<Rightarrow> chunk_key" where
  "gen1_key_at pkt =
     (case at_opt pkt GEN1_IMAGE_KEY_OFFSET of None \<Rightarrow> Not_a_number | Some b \<Rightarrow> Key (uint b - 1))"

definition assembled :: "(assembler \<Rightarrow> assembler \<times> image_event option) \<Rightarrow> child_act" where
  "assembled f s =
     (let (a, e) = f (ch_asm s)
      in (s\<lparr>ch_asm := a\<rparr>, case e of None \<Rightarrow> [] | Some i \<Rightarrow> [Image_received i]))"

definition handleImageChunk :: "bytes \<Rightarrow> nat \<Rightarrow> child_act" where
  "handleImageChunk pkt now s =
     (let k = chunk_key_at pkt
      in if isValidChildImageKey k (keyCount (ch_geometry s))
         then assembled (\<lambda>a. assembleImageChunk a ImagePages pkt None now) s
         else warnOob k s)"

definition handleGen1ImageChunk :: "bytes \<Rightarrow> nat \<Rightarrow> child_act" where
  "handleGen1ImageChunk pkt now s =
     (let k = gen1_key_at pkt
      in if isValidChildImageKey k (keyCount (ch_geometry s))
         then assembled (\<lambda>a. assembleGen1ImageChunk a pkt now) s
         else warnOob k s)"

definition acceptTouch :: "nat \<Rightarrow> bytes \<Rightarrow> nat \<Rightarrow> child_act" where
  "acceptTouch cmd pkt now s =
     (let (a, t) = touch_accept (ch_asm s) cmd pkt now
      in (s\<lparr>ch_asm := a\<rparr>, case t of None \<Rightarrow> [] | Some (d, r) \<Rightarrow> [Touch_image d r]))"

definition ackIf :: "nat \<Rightarrow> nat \<Rightarrow> nat \<Rightarrow> child_act" where
  "ackIf flags mid op = (if has_flag flags CORA_FLAG_REQACK then sendAckNak mid op else skip)"

text \<open>The acknowledgement is written before the chunk is assembled.\<close>

definition handleOutputReport :: "nat \<Rightarrow> nat \<Rightarrow> nat \<Rightarrow> nat \<Rightarrow> bytes \<Rightarrow> nat \<Rightarrow> child_act" where
  "handleOutputReport cmd flags op mid payload now =
     (if cmd = IMG_CMD_WRITE then acts [ackIf flags mid op, handleImageChunk payload now]
      else if cmd = GEN1_IMG_CMD then acts [ackIf flags mid op, handleGen1ImageChunk payload now]
      else if cmd = IMG_CMD_LCD \<or> cmd = IMG_CMD_WINDOW \<or> cmd = IMG_CMD_WINDOW_PARTIAL
        then acts [ackIf flags mid op, acceptTouch cmd payload now]
      else skip)"

definition handleSendReport :: "bytes \<Rightarrow> nat \<Rightarrow> nat \<Rightarrow> child_act" where
  "handleSendReport payload flags mid =
     (if length payload < 3 then skip
      else case parseChildBrightness payload of
          None \<Rightarrow> skip
        | Some level \<Rightarrow> acts [emits (Brightness level), ackIf flags mid 0])"

definition handleGetReport :: "nat \<Rightarrow> nat \<Rightarrow> child_act" where
  "handleGetReport reportId mid s =
     (case map_of CHILD_REPORT_SPECS reportId of
        None \<Rightarrow> skip s
      | Some build \<Rightarrow> sendFrame (build (ch_config s) reportId) CORA_VERBATIM_RESULT 0 mid s)"

definition buildSelfDeviceInfo :: "child_server \<Rightarrow> bytes" where
  "buildSelfDeviceInfo s = buildCapabilitiesPacket (ch_config s) (cs_port s) (ch_geometry s)"

text \<open>\<^verbatim>\<open>handleFeatureRequest\<close>: None where the request is not one it answers.\<close>

definition handleFeatureRequest :: "nat \<Rightarrow> nat \<Rightarrow> nat \<Rightarrow> child_act option" where
  "handleFeatureRequest byte1 op mid =
     (if byte1 = FEATURE_KEEPALIVE_ACK \<or> byte1 = FEATURE_GET_DEVICE_INFO then Some skip
      else if byte1 = FEATURE_GET_CAPABILITIES
        then Some (\<lambda>s. sendFrame (buildSelfDeviceInfo s) CORA_FLAG_RESULT op mid s)
      else None)"

definition routeRequest :: "nat \<Rightarrow> nat \<Rightarrow> nat \<Rightarrow> nat \<Rightarrow> nat \<Rightarrow> bytes \<Rightarrow> nat \<Rightarrow> child_act" where
  "routeRequest byte0 byte1 flags op mid payload now =
     (case (if byte0 = PAYLOAD_TYPE_FEATURE then handleFeatureRequest byte1 op mid else None) of
        Some f \<Rightarrow> f
      | None \<Rightarrow>
          if op = HID_OP_GET_REPORT then handleGetReport byte0 mid
          else if op = HID_OP_SEND_REPORT \<or> byte0 = PAYLOAD_TYPE_FEATURE
            then handleSendReport payload flags mid
          else if byte0 = PAYLOAD_TYPE_OUTPUT_REPORT
            then handleOutputReport byte1 flags op mid payload now
          else skip)"

definition routeChildPacket :: "nat \<Rightarrow> nat \<Rightarrow> nat \<Rightarrow> bytes \<Rightarrow> nat \<Rightarrow> child_act" where
  "routeChildPacket flags op mid payload now =
     (let byte0 = unat (at0 payload 0);
          byte1 = (if 1 < length payload then unat (payload ! 1) else 0);
          isVerbatim = has_flag flags CORA_FLAG_VERBATIM
      in acts
        [ if isVerbatim \<and> byte0 = REPORT_SECONDARY_DETECT
            then emits (App_detected ''bitfocus'') else skip,
          \<lambda>s. (case (if isVerbatim then buildVerbatimProbeReport byte0 (ch_config s) else None) of
                 Some probe \<Rightarrow> sendFrame probe CORA_VERBATIM_RESULT op mid s
               | None \<Rightarrow> routeRequest byte0 byte1 flags op mid payload now s) ])"

definition childHandlePacket :: "nat \<Rightarrow> cora_frame \<Rightarrow> child_act" where
  "childHandlePacket now f =
     (if length (cf_payload f) < 1 then skip
      else routeChildPacket (cf_flags f) (cf_hidOp f) (cf_messageId f) (cf_payload f) now)"

section \<open>The server keeps the contract of its base class\<close>

lemma with_rc_simps [simp]:
  "fst (with_rc f s) = s\<lparr>ch_rc := fst (f (ch_rc s))\<rparr>" "snd (with_rc f s) = snd (f (ch_rc s))"
  by (simp_all add: with_rc_def split: prod.splits)

lemma assembled_simps [simp]:
  "fst (assembled f s) = s\<lparr>ch_asm := fst (f (ch_asm s))\<rparr>"
  "snd (assembled f s) = (case snd (f (ch_asm s)) of None \<Rightarrow> [] | Some i \<Rightarrow> [Image_received i])"
  by (simp_all add: assembled_def split: prod.splits)

lemma acceptTouch_simps [simp]:
  "fst (acceptTouch cmd pkt now s) = s\<lparr>ch_asm := fst (touch_accept (ch_asm s) cmd pkt now)\<rparr>"
  "snd (acceptTouch cmd pkt now s) =
     (case snd (touch_accept (ch_asm s) cmd pkt now) of None \<Rightarrow> [] | Some (d, r) \<Rightarrow> [Touch_image d r])"
  by (simp_all add: acceptTouch_def split: prod.splits)

lemma ackIf_simps [simp]:
  "fst (ackIf fl mid op s) = s"
  "writes_only (cs_client s) (snd (ackIf fl mid op s))" "Destroy k \<notin> set (snd (ackIf fl mid op s))"
  "Dial k a \<notin> set (snd (ackIf fl mid op s))"
  by (simp_all add: ackIf_def)

lemma base_of_update [simp]:
  "base_of (s\<lparr>ch_rc := r\<rparr>) = base_of s" "base_of (s\<lparr>ch_asm := a\<rparr>) = base_of s"
  "base_of (s\<lparr>ch_warned := w\<rparr>) = base_of s" "base_of (s\<lparr>ch_pressMask := m\<rparr>) = base_of s"
  "base_of (s\<lparr>ch_keyStates := ks\<rparr>) = base_of s" "base_of (s\<lparr>ch_geometry := g\<rparr>) = base_of s"
  "base_of (s\<lparr>ch_sessionStart := t\<rparr>) = base_of s" "base_of (s\<lparr>ch_sessionId := i\<rparr>) = base_of s"
  by (simp_all add: cora_server.truncate_def)

text \<open>What a handler of a packet may change: the assemblies and the warned keys.\<close>

definition packet_frame :: "child_server \<Rightarrow> child_server \<Rightarrow> bool" where
  "packet_frame s t \<longleftrightarrow> (\<exists>a w. t = s\<lparr>ch_asm := a, ch_warned := w\<rparr>)"

lemma packet_frame_simps [simp]:
  "packet_frame s s" "packet_frame s (s\<lparr>ch_asm := a\<rparr>)" "packet_frame s (s\<lparr>ch_warned := w\<rparr>)"
proof -
  have "s = s\<lparr>ch_asm := ch_asm s, ch_warned := ch_warned s\<rparr>" for s :: child_server by simp
  moreover have "s\<lparr>ch_asm := a\<rparr> = s\<lparr>ch_asm := a, ch_warned := ch_warned s\<rparr>"
    "s\<lparr>ch_warned := w\<rparr> = s\<lparr>ch_asm := ch_asm s, ch_warned := w\<rparr>" by simp_all
  ultimately show "packet_frame s s" "packet_frame s (s\<lparr>ch_asm := a\<rparr>)"
    "packet_frame s (s\<lparr>ch_warned := w\<rparr>)"
    unfolding packet_frame_def by blast+
qed

lemmas output_defs = handleOutputReport_def handleImageChunk_def handleGen1ImageChunk_def
  warnOob_def Let_def

lemma output_report_frame: "packet_frame s (fst (handleOutputReport cmd fl op mid p now s))"
  by (simp add: output_defs)

lemma send_report_frame: "packet_frame s (fst (handleSendReport p fl mid s))"
  by (simp add: handleSendReport_def split: option.splits)

lemma get_report_frame: "fst (handleGetReport rid mid s) = s"
  by (simp add: handleGetReport_def split: option.splits)

lemma feature_frame: "handleFeatureRequest b op mid = Some f \<Longrightarrow> fst (f s) = s"
  by (auto simp: handleFeatureRequest_def split: if_splits)

lemma request_frame: "packet_frame s (fst (routeRequest b0 b1 fl op mid p now s))"
proof (cases "if b0 = PAYLOAD_TYPE_FEATURE then handleFeatureRequest b1 op mid else None")
  case None
  then show ?thesis
    by (simp add: routeRequest_def get_report_frame output_report_frame send_report_frame)
next
  case (Some f)
  then have "fst (f s) = s" by (auto split: if_splits dest: feature_frame)
  then show ?thesis by (simp add: routeRequest_def Some)
qed

lemma packet_step_frame: "packet_frame s (fst (childHandlePacket now f s))"
  by (simp add: childHandlePacket_def routeChildPacket_def Let_def request_frame
      split: option.splits)

lemma packet_frame_base: "packet_frame s t \<Longrightarrow> base_of t = base_of s"
  by (auto simp: packet_frame_def)

text \<open>What it does to the outside: it writes to the client only, destroys and dials nothing.\<close>

definition polite :: "sock option \<Rightarrow> cora_event list \<Rightarrow> bool" where
  "polite c es \<longleftrightarrow>
     writes_only c es \<and> (\<forall>k. Destroy k \<notin> set es) \<and> (\<forall>k a. Dial k a \<notin> set es)"

lemma polite_simps [simp]:
  "polite c []" "polite c (es @ fs) \<longleftrightarrow> polite c es \<and> polite c fs"
  "polite (cs_client s) (snd (sendFrame p fl op mid s))"
  "polite (cs_client s) (snd (ackIf fl mid op s))"
  "polite c [App_detected n]" "polite c [Brightness v]" "polite c [Image_received i]"
  "polite c [Touch_image d r]"
  by (auto simp: polite_def)

lemma output_report_polite:
  "polite (cs_client s) (snd (handleOutputReport cmd fl op mid p now s))"
  by (simp add: output_defs split: option.splits)

lemma send_report_polite: "polite (cs_client s) (snd (handleSendReport p fl mid s))"
  by (simp add: handleSendReport_def split: option.splits)
    (metis append_Cons append_Nil polite_simps(2,4,6))

lemma get_report_polite: "polite (cs_client s) (snd (handleGetReport rid mid s))"
  by (simp add: handleGetReport_def split: option.splits)

lemma feature_polite:
  "handleFeatureRequest b op mid = Some f \<Longrightarrow> polite (cs_client s) (snd (f s))"
  by (auto simp: handleFeatureRequest_def split: if_splits)

lemma request_polite: "polite (cs_client s) (snd (routeRequest b0 b1 fl op mid p now s))"
proof (cases "if b0 = PAYLOAD_TYPE_FEATURE then handleFeatureRequest b1 op mid else None")
  case None
  then show ?thesis
    by (simp add: routeRequest_def get_report_polite output_report_polite send_report_polite)
next
  case (Some f)
  then have "polite (cs_client s) (snd (f s))" by (auto split: if_splits dest: feature_polite)
  then show ?thesis by (simp add: routeRequest_def Some)
qed

lemma packet_step_polite: "polite (cs_client s) (snd (childHandlePacket now f s))"
  by (simp add: childHandlePacket_def routeChildPacket_def Let_def request_polite
      split: option.splits)

lemma connected_keeps:
  "base_of (fst (onClientConnected addr now s)) = base_of s"
  "snd (onClientConnected addr now s) =
     (case rc_outbound (ch_rc s) of None \<Rightarrow> [] | Some k \<Rightarrow> [Destroy k])"
  by (simp_all add: onClientConnected_def rc_stop_events)

lemma gone_keeps: "base_of (fst (onChildClientDisconnected s)) = base_of s"
  by (simp add: onChildClientDisconnected_def)

interpretation child: server_hooks onClientConnected childHandlePacket onChildClientDisconnected
proof unfold_locales
  show "base_of (fst (childHandlePacket now f s)) = base_of s" for now f s
    by (rule packet_frame_base[OF packet_step_frame])
qed (use packet_step_polite in \<open>auto simp: connected_keeps gone_keeps polite_def split: option.splits\<close>)

end
