(* ===== verification/Child_Session.thy ===== *)
theory Child_Session
  imports Child_Server
begin

text \<open>
  The child server in its environment: the callbacks that reach it as inputs, the sockets the
  process holds open, and what holds in every reachable state.  \<^verbatim>\<open>platform/tcp.ts\<close> gives a
  destroyed socket no further data, which is the only thing assumed of the environment: data
  arrives on an open socket.
\<close>

section \<open>Inputs and steps\<close>

datatype child_input =
    Accepted nat string nat
  | Dialled sock string nat
  | Dial_failed sock
  | Retry
  | Data sock reader nat
  | Closed sock
  | Socket_failed sock
  | Tick
  | Key_event int key_state
  | Dial_event dial_event
  | Touch_event touch_event
  | Set_geometry child_geometry
  | Drop_client
  | Start
  | Listening nat
  | Server_failed
  | Stop

fun child_step :: "child_input \<Rightarrow> child_act" where
  "child_step (Accepted n addr now) = acceptConnection onClientConnected (Inbound n) addr now"
| "child_step (Dialled k addr now) =
     acts [with_rc onDialled, acceptConnection onClientConnected k addr now]"
| "child_step (Dial_failed k) = with_rc (onDialError k)"
| "child_step Retry = (\<lambda>s. with_rc (onRetryTimer (hasClient s)) s)"
| "child_step (Data k chunk now) = onData (childHandlePacket now) chunk now"
| "child_step (Closed k) = onClose onChildClientDisconnected k"
| "child_step (Socket_failed k) = onSocketError k"
| "child_step Tick = keepaliveTick"
| "child_step (Key_event i st) = sendKeyEvent i st"
| "child_step (Dial_event e) = sendDial e"
| "child_step (Touch_event e) = sendTouch e"
| "child_step (Set_geometry g) = setChildGeometry g"
| "child_step Drop_client = dropClient"
| "child_step Start = childStart"
| "child_step (Listening n) = childListening n"
| "child_step Server_failed = serverError"
| "child_step Stop = childStop"

record child_net =
  nt_server :: child_server
  nt_open :: "sock list"
  nt_accepted :: nat

definition destroyed :: "cora_event list \<Rightarrow> sock list" where
  "destroyed es = List.concat (map (\<lambda>e. case e of Destroy k \<Rightarrow> [k] | _ \<Rightarrow> []) es)"

fun opens :: "child_input \<Rightarrow> sock list" where
  "opens (Accepted n addr now) = [Inbound n]"
| "opens (Dialled k addr now) = [k]"
| "opens _ = []"

fun closes :: "child_input \<Rightarrow> sock list" where
  "closes (Closed k) = [k]"
| "closes _ = []"

fun enabled :: "child_input \<Rightarrow> child_net \<Rightarrow> bool" where
  "enabled (Accepted n addr now) t \<longleftrightarrow> n = nt_accepted t"
| "enabled (Dialled k addr now) t \<longleftrightarrow> rc_outbound (ch_rc (nt_server t)) = Some k"
| "enabled (Data k chunk now) t \<longleftrightarrow> k \<in> set (nt_open t)"
| "enabled _ t \<longleftrightarrow> True"

definition net_after :: "child_input \<Rightarrow> child_net \<Rightarrow> child_net \<times> cora_event list" where
  "net_after i t =
     (let (s, es) = child_step i (nt_server t)
      in (\<lparr> nt_server = s,
            nt_open = filter (\<lambda>k. k \<notin> set (closes i @ destroyed es)) (opens i @ nt_open t),
            nt_accepted = (case i of Accepted n addr now \<Rightarrow> n + 1 | _ \<Rightarrow> nt_accepted t) \<rparr>, es))"

inductive net_step :: "child_net \<Rightarrow> child_input \<Rightarrow> cora_event list \<Rightarrow> child_net \<Rightarrow> bool" where
  net_stepI: "enabled i t \<Longrightarrow> net_after i t = (t', es) \<Longrightarrow> net_step t i es t'"

inductive_cases net_stepE [elim]: "net_step t i es t'"

definition net_init :: "child_geometry \<Rightarrow> nat \<Rightarrow> device_config \<Rightarrow> bool \<Rightarrow> child_net" where
  "net_init geo port config outbound =
     \<lparr> nt_server = new_child_server geo port config outbound, nt_open = [], nt_accepted = 0 \<rparr>"

inductive net_reachable :: "child_net \<Rightarrow> bool" where
  net_start: "net_reachable (net_init geo port config outbound)"
| net_more: "net_reachable t \<Longrightarrow> net_step t i es t' \<Longrightarrow> net_reachable t'"

lemma in_destroyed [simp]: "k \<in> set (destroyed es) \<longleftrightarrow> Destroy k \<in> set es"
  by (auto simp: destroyed_def split: cora_event.splits)

section \<open>Well-formed servers\<close>

definition child_wf :: "child_server \<Rightarrow> bool" where
  "child_wf s \<longleftrightarrow>
     (cs_timer s \<longleftrightarrow> cs_client s \<noteq> None)
     \<and> length (ch_keyStates s) = keyCount (ch_geometry s) \<and> set (ch_keyStates s) \<subseteq> {0, 1}
     \<and> inv (ch_asm s) \<and> length (rbuf (cs_reader s)) < MAX_RECEIVE_BUFFER
     \<and> rc_ok (ch_rc s) \<and> (cs_client s \<noteq> None \<longrightarrow> rc_quiet (ch_rc s))"

lemma child_wf_new: "child_wf (new_child_server geo port config outbound)"
  by (auto simp: child_wf_def new_child_server_def cora_server.extend_def new_server_def
      empty_reader_def empty_inv)

lemma child_wf_packet_frame:
  "child_wf s \<Longrightarrow> packet_frame s t \<Longrightarrow> inv (ch_asm t) \<Longrightarrow> child_wf t"
  by (auto simp: packet_frame_def child_wf_def)

lemma output_report_asm:
  "inv (ch_asm s) \<Longrightarrow> inv (ch_asm (fst (handleOutputReport cmd fl op mid p now s)))"
  by (simp add: output_defs image_chunk_inv gen1_chunk_inv touch_accept_inv)

lemma request_asm:
  assumes "inv (ch_asm s)"
  shows "inv (ch_asm (fst (routeRequest b0 b1 fl op mid p now s)))"
proof (cases "if b0 = PAYLOAD_TYPE_FEATURE then handleFeatureRequest b1 op mid else None")
  case None
  have "fst (handleSendReport p fl mid s) = s"
    by (simp add: handleSendReport_def split: option.splits)
  then show ?thesis
    using assms by (simp add: routeRequest_def None get_report_frame output_report_asm)
next
  case (Some f)
  then have "fst (f s) = s" by (auto split: if_splits dest: feature_frame)
  then show ?thesis using assms by (simp add: routeRequest_def Some)
qed

lemma packet_step_asm: "inv (ch_asm s) \<Longrightarrow> inv (ch_asm (fst (childHandlePacket now f s)))"
  by (simp add: childHandlePacket_def routeChildPacket_def Let_def request_asm
      split: option.splits)

lemma child_wf_packet: "child_wf s \<Longrightarrow> child_wf (fst (childHandlePacket now f s))"
  by (rule child_wf_packet_frame[OF _ packet_step_frame])
    (simp_all add: packet_step_asm child_wf_def)

lemma drained_bound: "length (rbuf (snd (drainFrames r))) < MAX_RECEIVE_BUFFER"
  using drain_rest_bound[of "rbuf r"] by (simp add: drainFrames_eq)

lemma wf_data: "child_wf s \<Longrightarrow> child_wf (fst (onData (childHandlePacket now) c now s))"
proof -
  assume wf: "child_wf s"
  obtain fs r where d: "drainFrames (append_chunk (cs_reader s) c) = (fs, r)" by fastforce
  have "length (rbuf r) < MAX_RECEIVE_BUFFER"
    using drained_bound[of "append_chunk (cs_reader s) c"] d by simp
  then have "child_wf (s\<lparr>cs_lastRx := now, cs_reader := r\<rparr>)"
    using wf by (simp add: child_wf_def)
  then have "child_wf (fst (acts (map (childHandlePacket now) fs) (s\<lparr>cs_lastRx := now, cs_reader := r\<rparr>)))"
    by (rule acts_keeps[rotated]) (auto simp: child_wf_packet)
  then show ?thesis by (simp add: onData_def d)
qed

lemma connected_fields [simp]:
  "ch_geometry (fst (onClientConnected addr now s)) = ch_geometry s"
  "ch_keyStates (fst (onClientConnected addr now s)) = alloc (keyCount (ch_geometry s))"
  "ch_pressMask (fst (onClientConnected addr now s)) = 0"
  "ch_asm (fst (onClientConnected addr now s)) = resetAssemblies (ch_asm s)"
  "ch_rc (fst (onClientConnected addr now s)) = fst (onInbound addr (ch_rc s))"
  by (simp_all add: onClientConnected_def)

lemma adopt_own [simp]:
  fixes s :: child_server
  shows "ch_geometry (fst (adopt onClientConnected k addr now s)) = ch_geometry s"
  "ch_keyStates (fst (adopt onClientConnected k addr now s)) = alloc (keyCount (ch_geometry s))"
  "ch_pressMask (fst (adopt onClientConnected k addr now s)) = 0"
  "ch_asm (fst (adopt onClientConnected k addr now s)) = resetAssemblies (ch_asm s)"
  "ch_rc (fst (adopt onClientConnected k addr now s)) = fst (onInbound addr (ch_rc s))"
  by (simp_all add: adopt_def sendKeepalive_def)

lemma wf_adopt: "child_wf s \<Longrightarrow> child_wf (fst (adopt onClientConnected k addr now s))"
  using child.adopt_fields[of k addr now s]
  by (auto simp: child_wf_def reset_inv rc_quiet_ops rc_quiet_ok empty_reader_def)

lemma wf_accept: "child_wf s \<Longrightarrow> child_wf (fst (acceptConnection onClientConnected k addr now s))"
proof (cases "cs_client s")
  case (Some c)
  assume "child_wf s"
  then have "child_wf (s\<lparr>cs_client := None, cs_timer := False\<rparr>)" by (simp add: child_wf_def)
  then show ?thesis
    using \<open>child_wf s\<close> Some by (simp add: acceptConnection_def clearKeepalive_def wf_adopt)
qed (simp add: acceptConnection_def wf_adopt)

lemma gone_own [simp]:
  "ch_geometry (fst (onChildClientDisconnected s)) = ch_geometry s"
  "ch_keyStates (fst (onChildClientDisconnected s)) = ch_keyStates s"
  "ch_asm (fst (onChildClientDisconnected s)) = resetAssemblies (ch_asm s)"
  "ch_rc (fst (onChildClientDisconnected s)) = fst (onDisconnected (hasClient s) (ch_rc s))"
  by (simp_all add: onChildClientDisconnected_def hasClient_def)

lemma wf_close: "child_wf s \<Longrightarrow> child_wf (fst (onClose onChildClientDisconnected k s))"
proof (cases "cs_client s = Some k")
  case True
  assume wf: "child_wf s"
  let ?t = "fst (onClose onChildClientDisconnected k s)"
  have "ch_geometry ?t = ch_geometry s" "ch_keyStates ?t = ch_keyStates s"
    "ch_asm ?t = resetAssemblies (ch_asm s)" "ch_rc ?t = fst (onDisconnected False (ch_rc s))"
    using True by (simp_all add: onClose_def clearKeepalive_def hasClient_def)
  then show ?thesis
    using wf child.close_fields[of k s] True
    by (simp add: child_wf_def reset_inv rc_ok_ops)
qed (simp add: onClose_def)

lemma wf_rc:
  assumes "child_wf s" "rc_ok r" "cs_client s \<noteq> None \<Longrightarrow> rc_quiet r"
  shows "child_wf (s\<lparr>ch_rc := r\<rparr>)"
  using assms by (simp add: child_wf_def)

lemma quiet_timer:
  "rc_quiet r \<Longrightarrow> rc_quiet (fst (onDialError k r))" "rc_quiet r \<Longrightarrow> rc_quiet (fst (onRetryTimer c r))"
  by (auto simp: rc_quiet_def rc_defs skip_def)

lemma wf_starts:
  "child_wf s \<Longrightarrow> child_wf (fst (startError n s))" "child_wf s \<Longrightarrow> child_wf (fst (startServer s))"
  "child_wf s \<Longrightarrow> child_wf (fst (startListening n s))" "child_wf s \<Longrightarrow> child_wf (fst (serverError s))"
  by (auto simp: child_wf_def startError_def startServer_def startListening_def serverError_def
      Let_def split: option.splits)

lemma wf_keys:
  "child_wf s \<Longrightarrow> child_wf (fst (sendKeyEvent i st s))"
  "child_wf s \<Longrightarrow> child_wf (fst (setChildGeometry g s))"
  "child_wf s \<Longrightarrow> child_wf (fst (sendDial e s))"
  "child_wf s \<Longrightarrow> child_wf (fst (sendTouch te s))"
proof -
  have "set (put b n v) \<subseteq> {0, 1}" if "set b \<subseteq> {0, 1}" "v \<in> {0, 1}" for b :: bytes and n v
    using that set_update_subset_insert[of b n v] by blast
  then show "child_wf s \<Longrightarrow> child_wf (fst (sendKeyEvent i st s))"
    by (simp add: child_wf_def sendKeyEvent_def sendAllKeyStates_def)
  have "set (take n b) \<subseteq> {0, 1}" if "set b \<subseteq> {0, 1}" for b :: bytes and n
    using that set_take_subset[of n b] by blast
  moreover have "set (alloc n) \<subseteq> {0, 1}" for n by auto
  ultimately show "child_wf s \<Longrightarrow> child_wf (fst (setChildGeometry g s))"
    by (simp add: child_wf_def setChildGeometry_def set_at_def subarray_def)
  show "child_wf s \<Longrightarrow> child_wf (fst (sendDial e s))"
    by (simp add: child_wf_def sendDial_def Let_def split: dial_event.splits)
  show "child_wf s \<Longrightarrow> child_wf (fst (sendTouch te s))"
    by (simp add: sendTouch_def Let_def)
qed

lemma keepalive_own [simp]:
  fixes s :: child_server
  shows "ch_geometry (fst (sendKeepalive s)) = ch_geometry s"
    "ch_keyStates (fst (sendKeepalive s)) = ch_keyStates s"
    "ch_asm (fst (sendKeepalive s)) = ch_asm s" "ch_rc (fst (sendKeepalive s)) = ch_rc s"
    "cs_client (fst (sendKeepalive s)) = cs_client s" "cs_timer (fst (sendKeepalive s)) = cs_timer s"
    "cs_reader (fst (sendKeepalive s)) = cs_reader s"
  by (simp_all add: sendKeepalive_def)

lemma wf_tick: "child_wf s \<Longrightarrow> child_wf (fst (keepaliveTick s))"
  by (simp add: keepaliveTick_def child_wf_def)

lemma wf_stop: "child_wf s \<Longrightarrow> child_wf (fst (childStop s))"
  by (auto simp: childStop_def stopServer_def clearKeepalive_def dropAndForget_def startError_def
      child_wf_def rc_quiet_ops rc_ok_ops skip_def split: option.splits)

lemma wf_step:
  assumes "child_wf s"
  shows "child_wf (fst (child_step i s))"
proof (cases i)
  case (Dialled k addr now)
  have "child_wf (fst (with_rc onDialled s))"
    using assms by (simp add: wf_rc rc_ok_ops rc_quiet_ops child_wf_def)
  then show ?thesis using Dialled by (simp add: wf_accept del: with_rc_simps)
next
  case (Dial_failed k)
  then show ?thesis using assms by (simp add: wf_rc rc_ok_ops quiet_timer child_wf_def)
next
  case Retry
  then show ?thesis using assms by (simp add: wf_rc rc_ok_ops quiet_timer child_wf_def)
next
  case (Listening n)
  have "child_wf (fst (startListening n s))" using assms by (rule wf_starts)
  then show ?thesis
    using Listening by (simp add: childListening_def wf_rc rc_ok_ops rc_quiet_ops child_wf_def)
qed (use assms in \<open>simp_all add: wf_data wf_accept wf_close wf_keys wf_starts wf_tick wf_stop
      onSocketError_def dropClient_def childStart_def\<close>)

section \<open>Open sockets\<close>

text \<open>The only socket the process holds open is the client's; the client's number is not a
  future one, and no dial in flight is the client.\<close>

definition net_ok :: "child_net \<Rightarrow> bool" where
  "net_ok t \<longleftrightarrow>
     child_wf (nt_server t)
     \<and> (\<forall>k \<in> set (nt_open t). cs_client (nt_server t) = Some k)
     \<and> (\<forall>n. cs_client (nt_server t) = Some (Inbound n) \<longrightarrow> n < nt_accepted t)
     \<and> (\<forall>n. cs_client (nt_server t) = Some (Outbound n) \<longrightarrow> n < rc_dials (ch_rc (nt_server t)))"

lemma net_after_simps [simp]:
  "nt_server (fst (net_after i t)) = fst (child_step i (nt_server t))"
  "snd (net_after i t) = snd (child_step i (nt_server t))"
  "set (nt_open (fst (net_after i t))) =
     (set (opens i) \<union> set (nt_open t)) - set (closes i) - {k. Destroy k \<in> set (snd (child_step i (nt_server t)))}"
  by (auto simp: net_after_def split: prod.splits)

lemma net_accepted_mono:
  "nt_accepted (fst (net_after i t)) = (case i of Accepted n addr now \<Rightarrow> n + 1 | _ \<Rightarrow> nt_accepted t)"
  by (simp add: net_after_def split: prod.splits)

text \<open>Inputs that leave the client alone.\<close>

lemma send_client [simp]:
  fixes s :: child_server
  shows "cs_client (fst (sendKeyEvent i st s)) = cs_client s"
    "cs_client (fst (sendDial e s)) = cs_client s" "cs_client (fst (sendTouch te s)) = cs_client s"
    "cs_client (fst (setChildGeometry g s)) = cs_client s"
    "ch_rc (fst (sendKeyEvent i st s)) = ch_rc s"
    "ch_rc (fst (sendDial e s)) = ch_rc s" "ch_rc (fst (sendTouch te s)) = ch_rc s"
    "ch_rc (fst (setChildGeometry g s)) = ch_rc s"
  by (auto simp: sendKeyEvent_def sendAllKeyStates_def sendDial_def sendTouch_def
      setChildGeometry_def Let_def split: dial_event.splits)

lemma start_client [simp]:
  fixes s :: child_server
  shows "cs_client (fst (startError n s)) = cs_client s" "ch_rc (fst (startError n s)) = ch_rc s"
    "cs_client (fst (startServer s)) = cs_client s" "ch_rc (fst (startServer s)) = ch_rc s"
    "cs_client (fst (startListening n s)) = cs_client s" "ch_rc (fst (startListening n s)) = ch_rc s"
    "cs_client (fst (serverError s)) = cs_client s" "ch_rc (fst (serverError s)) = ch_rc s"
  by (auto simp: startError_def startServer_def startListening_def serverError_def Let_def
      split: option.splits)

lemma data_rc [simp]:
  "ch_rc (fst (onData (childHandlePacket now) c now s)) = ch_rc s"
proof -
  obtain fs r where d: "drainFrames (append_chunk (cs_reader s) c) = (fs, r)" by fastforce
  have p: "ch_rc (fst (childHandlePacket now f u)) = ch_rc u" for f u
    using packet_step_frame[of u now f] by (auto simp: packet_frame_def)
  have "ch_rc (fst (acts (map (childHandlePacket now) fs) u)) = ch_rc u" for u
    by (induction fs arbitrary: u) (simp_all add: p)
  then show ?thesis by (simp add: onData_def d)
qed

lemma accept_survivors:
  fixes s :: child_server and k addr now
  defines "r \<equiv> acceptConnection onClientConnected k addr now s"
  shows "j = k \<or> cs_client s = Some j \<Longrightarrow> Destroy j \<notin> set (snd r) \<Longrightarrow> cs_client (fst r) = Some j"
    "cs_client (fst r) = Some k \<or> cs_client (fst r) = cs_client s"
    "rc_dials (ch_rc (fst r)) = rc_dials (ch_rc s)"
proof -
  note f = child.adopt_fields(1)
  have "(j = k \<or> cs_client s = Some j \<longrightarrow> Destroy j \<notin> set (snd r) \<longrightarrow> cs_client (fst r) = Some j)
    \<and> (cs_client (fst r) = Some k \<or> cs_client (fst r) = cs_client s)
    \<and> rc_dials (ch_rc (fst r)) = rc_dials (ch_rc s)"
    by (cases "cs_client s") (auto simp: r_def acceptConnection_def f rc_dials_mono clearKeepalive_def)
  then show "j = k \<or> cs_client s = Some j \<Longrightarrow> Destroy j \<notin> set (snd r) \<Longrightarrow> cs_client (fst r) = Some j"
    "cs_client (fst r) = Some k \<or> cs_client (fst r) = cs_client s"
    "rc_dials (ch_rc (fst r)) = rc_dials (ch_rc s)"
    by blast+
qed

lemma stop_client:
  fixes s :: child_server
  shows "cs_client (fst (childStop s)) = None" "ch_rc (fst (childStop s)) = fst (rc_stop (ch_rc s))"
    "cs_client s = Some k \<Longrightarrow> Destroy k \<in> set (snd (childStop s))"
  by (auto simp: childStop_def stopServer_def clearKeepalive_def dropAndForget_def startError_def
      skip_def split: option.splits)

lemma close_rc:
  fixes s :: child_server
  shows "ch_rc (fst (onClose onChildClientDisconnected k s)) =
    (if cs_client s = Some k then fst (onDisconnected False (ch_rc s)) else ch_rc s)"
  by (simp add: onClose_def clearKeepalive_def hasClient_def)

lemma tick_client [simp]:
  fixes s :: child_server
  shows "cs_client (fst (keepaliveTick s)) = cs_client s" "ch_rc (fst (keepaliveTick s)) = ch_rc s"
  by (simp_all add: keepaliveTick_def)

text \<open>Everywhere else the client stays, or goes with its socket.\<close>

lemma step_client:
  assumes "\<And>n addr now. i \<noteq> Accepted n addr now" "\<And>k addr now. i \<noteq> Dialled k addr now"
  shows "cs_client (fst (child_step i s)) = cs_client s \<or>
    cs_client (fst (child_step i s)) = None \<and>
      (\<forall>k. cs_client s = Some k \<longrightarrow> k \<in> set (closes i) \<or> Destroy k \<in> set (snd (child_step i s)))"
    "rc_dials (ch_rc s) \<le> rc_dials (ch_rc (fst (child_step i s)))"
proof -
  show "cs_client (fst (child_step i s)) = cs_client s \<or>
    cs_client (fst (child_step i s)) = None \<and>
      (\<forall>k. cs_client s = Some k \<longrightarrow> k \<in> set (closes i) \<or> Destroy k \<in> set (snd (child_step i s)))"
    using assms child.close_fields(1)
    by (cases i) (auto simp: onSocketError_def dropClient_def childStart_def childListening_def
        stop_client child.data_fields)
  show "rc_dials (ch_rc s) \<le> rc_dials (ch_rc (fst (child_step i s)))"
    using assms
    by (cases i) (auto simp: onSocketError_def dropClient_def childStart_def childListening_def
        stop_client close_rc rc_dials_mono)
qed

lemma net_ok_accept:
  assumes ok: "net_ok t"
    and sur: "\<And>j. j \<in> set (opens i) \<or> cs_client (nt_server t) = Some j \<Longrightarrow>
      Destroy j \<notin> set (snd (child_step i (nt_server t))) \<Longrightarrow>
      cs_client (fst (child_step i (nt_server t))) = Some j"
    and inb: "\<And>n. cs_client (fst (child_step i (nt_server t))) = Some (Inbound n) \<Longrightarrow>
      n < nt_accepted (fst (net_after i t))"
    and outb: "\<And>n. cs_client (fst (child_step i (nt_server t))) = Some (Outbound n) \<Longrightarrow>
      n < rc_dials (ch_rc (fst (child_step i (nt_server t))))"
  shows "net_ok (fst (net_after i t))"
  using ok inb outb unfolding net_ok_def by (auto simp: wf_step intro!: sur)

lemma net_ok_step:
  assumes ok: "net_ok t" and en: "enabled i t"
  shows "net_ok (fst (net_after i t))"
proof (cases "(\<exists>n addr now. i = Accepted n addr now) \<or> (\<exists>k addr now. i = Dialled k addr now)")
  case True
  then show ?thesis
  proof (elim disjE exE)
    fix n addr now assume i: "i = Accepted n addr now"
    note a = accept_survivors[where k = "Inbound n" and s = "nt_server t" and addr = addr and now = now]
    show ?thesis
      by (rule net_ok_accept[OF ok])
        (use a ok en in \<open>auto simp: i net_ok_def net_accepted_mono less_Suc_eq\<close>)
  next
    fix k addr now assume i: "i = Dialled k addr now"
    let ?s = "fst (with_rc onDialled (nt_server t))"
    note a = accept_survivors[where k = k and s = ?s and addr = addr and now = now]
    have k: "rc_outbound (ch_rc (nt_server t)) = Some k" using en i by simp
    then have "rc_ok (ch_rc (nt_server t))" "k = Outbound (rc_dials (ch_rc (nt_server t)) - 1)"
      "0 < rc_dials (ch_rc (nt_server t))"
      using ok by (auto simp: net_ok_def child_wf_def rc_ok_def)
    then show ?thesis
      by (intro net_ok_accept[OF ok])
        (use a ok in \<open>auto simp: i net_ok_def net_accepted_mono rc_dials_mono onDialled_def\<close>)
  qed
next
  case False
  then have c: "cs_client (fst (child_step i (nt_server t))) = cs_client (nt_server t) \<or>
      cs_client (fst (child_step i (nt_server t))) = None \<and>
      (\<forall>k. cs_client (nt_server t) = Some k \<longrightarrow> k \<in> set (closes i) \<or>
           Destroy k \<in> set (snd (child_step i (nt_server t))))"
    and d: "rc_dials (ch_rc (nt_server t)) \<le> rc_dials (ch_rc (fst (child_step i (nt_server t))))"
    and o: "opens i = []" "nt_accepted (fst (net_after i t)) = nt_accepted t"
    using step_client[of i "nt_server t"] by (auto simp: net_accepted_mono split: child_input.splits)
      (cases i; simp)+
  have q: "n < rc_dials (ch_rc (fst (child_step i (nt_server t))))"
    if "cs_client (fst (child_step i (nt_server t))) = Some (Outbound n)" for n
    using c that d ok unfolding net_ok_def by (metis less_le_trans option.discI)
  show ?thesis
    using ok c unfolding net_ok_def by (auto simp: o wf_step intro!: q)
qed

lemma net_ok_reachable: "net_reachable t \<Longrightarrow> net_ok t"
proof (induction rule: net_reachable.induct)
  case (net_start geo port config outbound)
  then show ?case
    by (simp add: net_ok_def net_init_def child_wf_new)
      (simp add: new_child_server_def cora_server.extend_def new_server_def)
next
  case (net_more t i es t')
  then show ?case using net_ok_step by (metis fst_conv net_stepE)
qed

section \<open>Reads and packets\<close>

text \<open>The packet handler looks neither at the reader nor at the time of the last read, so the
  frames of a connection are handled as one sequence, however the bytes are cut.\<close>

definition re_read :: "nat \<Rightarrow> reader \<Rightarrow> child_server \<Rightarrow> child_server" where
  "re_read l r s = s\<lparr>cs_lastRx := l, cs_reader := r\<rparr>"

definition blind :: "child_act \<Rightarrow> bool" where
  "blind f \<longleftrightarrow> (\<forall>l r s. f (re_read l r s) = apfst (re_read l r) (f s))"

lemma re_read_fields [simp]:
  "cs_client (re_read l r s) = cs_client s" "ch_geometry (re_read l r s) = ch_geometry s"
  "ch_config (re_read l r s) = ch_config s" "ch_asm (re_read l r s) = ch_asm s"
  "ch_warned (re_read l r s) = ch_warned s" "cs_port (re_read l r s) = cs_port s"
  "cs_reader (re_read l r s) = r" "re_read l r (re_read l' r' s) = re_read l r s"
  "ch_asm_update g (re_read l r s) = re_read l r (ch_asm_update g s)"
  "ch_warned_update h (re_read l r s) = re_read l r (ch_warned_update h s)"
  by (simp_all add: re_read_def)

lemma blind_acts:
  "(\<And>f. f \<in> set fs \<Longrightarrow> blind f) \<Longrightarrow> blind (acts fs)"
proof (induction fs)
  case Nil
  then show ?case by (simp add: blind_def)
next
  case (Cons f fs)
  then have "blind f" "blind (acts fs)" by simp_all
  then show ?case by (auto simp: blind_def acts.simps(2) Let_def split: prod.splits)
qed

lemma blind_prims [simp]:
  "blind skip" "blind (emits e)" "blind (sendFrame p fl op mid)" "blind (ackIf fl mid op)"
  "blind (handleImageChunk p now)" "blind (handleGen1ImageChunk p now)"
  "blind (acceptTouch cmd p now)" "blind (handleGetReport rid mid)"
  by (auto simp: blind_def skip_def emits_def sendFrame_def ackIf_def sendAckNak_def
      handleImageChunk_def handleGen1ImageChunk_def warnOob_def upd_def assembled_def
      acceptTouch_def handleGetReport_def Let_def split: option.splits prod.splits)

lemma blind_request: "blind (routeRequest b0 b1 fl op mid p now)"
proof -
  have a: "blind f" if "handleFeatureRequest b1 op mid = Some f" for f
    using that by (auto simp: handleFeatureRequest_def blind_def sendFrame_def skip_def
        buildSelfDeviceInfo_def split: if_splits option.splits)
  have "blind (handleSendReport p fl mid)" "blind (handleOutputReport b1 fl op mid p now)"
    by (auto simp: handleSendReport_def handleOutputReport_def split: option.splits
        intro!: blind_acts)
  then show ?thesis by (auto simp: routeRequest_def a split: option.splits if_splits)
qed

lemma blind_packet: "blind (childHandlePacket now f)"
proof -
  have "blind (\<lambda>s. case buildVerbatimProbeReport b (ch_config s) of
        Some probe \<Rightarrow> sendFrame probe CORA_VERBATIM_RESULT op mid s
      | None \<Rightarrow> routeRequest b0 b1 fl op mid p now s)" for b b0 b1 fl op mid p
    using blind_request[of b0 b1 fl op mid p now]
    by (auto simp: blind_def sendFrame_def split: option.splits)
  then show ?thesis
    by (cases "has_flag (cf_flags f) CORA_FLAG_VERBATIM")
      (auto simp: childHandlePacket_def routeChildPacket_def Let_def blind_request
        intro!: blind_acts)
qed

fun feed_timed :: "reader \<Rightarrow> (reader \<times> nat) list \<Rightarrow> (cora_frame \<times> nat) list" where
  "feed_timed r [] = []"
| "feed_timed r ((c, t) # cs) =
    (let (fs, r') = drainFrames (append_chunk r c) in map (\<lambda>f. (f, t)) fs @ feed_timed r' cs)"

lemma feed_timed_frames: "map fst (feed_timed r cs) = fst (feed r (map fst cs))"
  by (induction r cs rule: feed_timed.induct) (auto simp: Let_def comp_def split: prod.splits)

abbreviation reads :: "(reader \<times> nat) list \<Rightarrow> child_act" where
  "reads cs \<equiv> acts (map (\<lambda>(c, t). onData (childHandlePacket t) c t) cs)"

abbreviation packets :: "(cora_frame \<times> nat) list \<Rightarrow> child_act" where
  "packets fts \<equiv> acts (map (\<lambda>(f, t). childHandlePacket t f) fts)"

lemma blind_packets: "blind (packets fts)"
  by (rule blind_acts) (auto simp: blind_packet)

lemma packets_keep: "cs_reader (fst (packets fts s)) = cs_reader s"
proof (induction fts arbitrary: s)
  case (Cons ft fts)
  obtain f t where "ft = (f, t)" by fastforce
  then show ?case using Cons base_fields(5)[OF child.handle_base] by simp
qed simp

lemma reads_packets:
  "\<exists>l r. reads cs s = apfst (re_read l r) (packets (feed_timed (cs_reader s) cs) s)"
proof (induction cs arbitrary: s)
  case Nil
  have "re_read (cs_lastRx s) (cs_reader s) s = s" by (simp add: re_read_def)
  then show ?case by (auto intro!: exI[of _ "cs_lastRx s"] exI[of _ "cs_reader s"])
next
  case (Cons ct cs)
  obtain c t where ct: "ct = (c, t)" by fastforce
  obtain fs r where d: "drainFrames (append_chunk (cs_reader s) c) = (fs, r)" by fastforce
  let ?fts = "map (\<lambda>f. (f, t)) fs" and ?gts = "feed_timed r cs"
  have one: "onData (childHandlePacket t) c t s = apfst (re_read t r) (packets ?fts s)"
    using blind_packets[of ?fts] by (simp add: onData_def d blind_def re_read_def[symmetric] comp_def)
  let ?u = "re_read t r (fst (packets ?fts s))"
  obtain l' r' where ih: "reads cs ?u = apfst (re_read l' r') (packets (feed_timed (cs_reader ?u) cs) ?u)"
    using Cons.IH by blast
  have "packets ?gts ?u = apfst (re_read t r) (packets ?gts (fst (packets ?fts s)))"
    using blind_packets[of ?gts] by (simp add: blind_def)
  then have "reads cs ?u = apfst (re_read l' r') (packets ?gts (fst (packets ?fts s)))"
    using ih by (simp add: prod_eq_iff)
  then have "reads (ct # cs) s = apfst (re_read l' r') (packets (?fts @ ?gts) s)"
    by (simp add: prod_eq_iff ct one acts_append)
  then show ?case by (auto simp: ct d)
qed

lemma net_step_after: "enabled i t \<Longrightarrow> net_step t i (snd (net_after i t)) (fst (net_after i t))"
  by (rule net_stepI) (simp_all only: prod.collapse)

text \<open>Runs of inputs.\<close>

fun net_run :: "child_net \<Rightarrow> child_input list \<Rightarrow> child_net" where
  "net_run t [] = t"
| "net_run t (i # is) = net_run (fst (net_after i t)) is"

fun admissible :: "child_net \<Rightarrow> child_input list \<Rightarrow> bool" where
  "admissible t [] \<longleftrightarrow> True"
| "admissible t (i # is) \<longleftrightarrow> enabled i t \<and> admissible (fst (net_after i t)) is"

lemma run_reachable: "net_reachable t \<Longrightarrow> admissible t is \<Longrightarrow> net_reachable (net_run t is)"
  by (induction t "is" rule: net_run.induct) (auto intro: net_more net_step_after)

section \<open>Dials\<close>

lemma packets_no_dial: "Dial d a \<notin> set (snd (packets fts s))"
proof (induction fts arbitrary: s)
  case (Cons ft fts)
  then show ?case using packet_step_polite[of s "snd ft" "fst ft"]
    by (simp add: polite_def case_prod_unfold)
qed simp

lemma data_no_dial: "Dial d a \<notin> set (snd (onData (childHandlePacket now) c now s))"
  using reads_packets[of "[(c, now)]" s] packets_no_dial by (auto simp: prod_eq_iff)

lemma accept_no_dial:
  fixes s :: child_server
  shows "Dial d a \<notin> set (snd (acceptConnection onClientConnected k addr now s))"
  by (auto simp: acceptConnection_def child.adopt_events connected_keeps clearKeepalive_def
      split: option.splits)

lemma start_no_dial [simp]:
  fixes s :: child_server
  shows "Dial d a \<notin> set (snd (startError n s))" "Dial d a \<notin> set (snd (serverError s))"
    "Dial d a \<notin> set (snd (startServer s))" "Dial d a \<notin> set (snd (startListening n s))"
  by (auto simp: startError_def serverError_def startServer_def startListening_def Let_def skip_def
      split: option.splits)

lemma stop_no_dial:
  fixes s :: child_server
  shows "Dial d a \<notin> set (snd (childStop s))"
  by (auto simp: childStop_def stopServer_def rc_stop_events clearKeepalive_def dropAndForget_def
      startError_def skip_def split: option.splits)

lemma send_no_dial:
  fixes s :: child_server
  shows "Dial d a \<notin> set (snd (sendKeyEvent i st s))" "Dial d a \<notin> set (snd (sendDial e s))"
    "Dial d a \<notin> set (snd (sendTouch te s))" "Dial d a \<notin> set (snd (setChildGeometry g s))"
    "Dial d a \<notin> set (snd (keepaliveTick s))"
  by (auto simp: sendKeyEvent_def sendAllKeyStates_def sendDial_def sendTouch_def
      setChildGeometry_def keepaliveTick_def sendKeepalive_def Let_def split: dial_event.splits)

text \<open>Only the loss of the client and the retry timer dial.\<close>

lemma dial_inputs:
  assumes "Dial d a \<in> set (snd (child_step i s))"
  shows "i = Retry \<or> (\<exists>k. i = Closed k \<and> cs_client s = Some k)"
  using assms
proof (cases i)
  case (Closed k)
  then show ?thesis using assms by (auto simp: onClose_def split: if_splits)
qed (use assms in \<open>auto simp: accept_no_dial data_no_dial stop_no_dial send_no_dial onDialled_def
    onDialError_def rc_defs onSocketError_def dropClient_def childStart_def childListening_def
    skip_def split: if_splits option.splits\<close>)

lemma rc_dial_facts:
  "Dial d a \<in> set (snd (tryConnect c r)) \<Longrightarrow>
     \<not> c \<and> rc_enabled r \<and> rc_allow r \<and> rc_remote r = Some a \<and> d = Outbound (rc_dials r)
     \<and> rc_outbound (fst (tryConnect c r)) = Some d"
  by (auto simp: tryConnect_def has_remote_def skip_def split: if_splits)

lemma dial_facts:
  assumes wf: "child_wf s" and d: "Dial d a \<in> set (snd (child_step i s))"
  defines "r \<equiv> ch_rc s" and "u \<equiv> fst (child_step i s)"
  shows "cs_client u = None" "rc_outbound r = None" "\<not> rc_timer (ch_rc u)"
    "rc_enabled r" "rc_allow r" "rc_remote r = Some a" "d = Outbound (rc_dials r)"
    "rc_outbound (ch_rc u) = Some d"
proof -
  consider "i = Retry" | k where "i = Closed k" "cs_client s = Some k"
    using dial_inputs[OF d] by blast
  then have "cs_client u = None \<and> rc_outbound r = None \<and> \<not> rc_timer (ch_rc u)
    \<and> rc_enabled r \<and> rc_allow r \<and> rc_remote r = Some a \<and> d = Outbound (rc_dials r)
    \<and> rc_outbound (ch_rc u) = Some d"
  proof cases
    case 1
    have t: "rc_timer r" using d by (simp add: 1 r_def onRetryTimer_def skip_def split: if_splits)
    let ?r = "r\<lparr>rc_timer := False, rc_state := Idle\<rparr>"
    have "Dial d a \<in> set (snd (tryConnect (hasClient s) ?r))"
      using d t by (simp add: 1 r_def onRetryTimer_def)
    note f = rc_dial_facts[OF this]
    have "ch_rc u = fst (tryConnect (hasClient s) ?r)" "cs_client u = cs_client s"
      using t by (simp_all add: u_def 1 r_def onRetryTimer_def)
    moreover have "rc_timer (fst (tryConnect c ?r)) = False" for c
      by (simp add: tryConnect_def skip_def)
    moreover have "rc_outbound r = None" using t wf by (auto simp: r_def child_wf_def rc_ok_def)
    moreover have h: "hasClient s = False" using f by simp
    moreover have "cs_client s = None" using h by (simp add: hasClient_def)
    ultimately show ?thesis using f[unfolded h] by simp
  next
    case 2
    have q: "rc_quiet r" using wf 2 by (simp add: r_def child_wf_def)
    let ?v = "s\<lparr>cs_timer := False, cs_client := None\<rparr>"
    have "Dial d a \<in> set (snd (onDisconnected False r))"
      using d 2 by (simp add: onClose_def clearKeepalive_def onChildClientDisconnected_def
          hasClient_def r_def)
    then have "Dial d a \<in> set (snd (tryConnect False r))"
      "fst (onDisconnected False r) = fst (tryConnect False r)"
      by (auto simp: onDisconnected_def skip_def split: if_splits)
    note f = rc_dial_facts[OF this(1)] this(2)
    have "ch_rc u = fst (onDisconnected False r)" "cs_client u = None"
      using 2 child.close_fields(1)[of k s] by (simp_all add: u_def close_rc r_def)
    moreover have "\<not> rc_timer (fst (tryConnect False r))"
      using q by (simp add: tryConnect_def skip_def rc_quiet_def)
    ultimately show ?thesis using f q by (simp add: rc_quiet_def)
  qed
  then show "cs_client u = None" "rc_outbound r = None" "\<not> rc_timer (ch_rc u)"
    "rc_enabled r" "rc_allow r" "rc_remote r = Some a" "d = Outbound (rc_dials r)"
    "rc_outbound (ch_rc u) = Some d"
    by blast+
qed

end
