(* ===== verification/Child_Upload.thy ===== *)
theory Child_Upload
  imports Child_Session
begin

text \<open>
  An upload seen end to end: the bytes of a connection, cut into reads by TCP, through the
  frame reader, the packet routing and the assembler, to the acknowledgements on the socket and
  the image event; and the other properties of a child server.
\<close>

section \<open>The frames of an uploaded image\<close>

text \<open>A chunk: flags, HID operation and message id of its frame; page bytes, body and padding.\<close>

type_synonym chunk = "nat \<times> nat \<times> nat \<times> bytes \<times> bytes \<times> bytes"

abbreviation chunk_body :: "chunk \<Rightarrow> bytes" where
  "chunk_body c \<equiv> (case c of (fl, op, mid, pg, body, pad) \<Rightarrow> body)"

fun image_frames :: "byte \<Rightarrow> chunk list \<Rightarrow> cora_frame list" where
  "image_frames k [] = []"
| "image_frames k ((fl, op, mid, pg, body, pad) # cs) =
     \<lparr> cf_flags = fl, cf_hidOp = op, cf_messageId = mid,
       cf_payload = gen2_packet k (cs = []) pg body pad \<rparr> # image_frames k cs"

fun ack_of :: "sock \<Rightarrow> chunk \<Rightarrow> cora_event" where
  "ack_of skt (fl, op, mid, pg, body, pad) =
     Write skt (encodeCoraFrame (alloc 4) (CORA_FLAG_VERBATIM OR CORA_FLAG_ACKNAK) op mid)"

fun chunk_ok :: "chunk \<Rightarrow> bool" where
  "chunk_ok (fl, op, mid, pg, body, pad) \<longleftrightarrow>
     has_flag fl CORA_FLAG_REQACK \<and> op \<notin> {HID_OP_SEND_REPORT, HID_OP_GET_REPORT}
     \<and> length pg = 2 \<and> body \<noteq> [] \<and> length body < 65536"

fun timed_bodies :: "chunk list \<Rightarrow> nat list \<Rightarrow> (bytes \<times> bytes \<times> bytes \<times> nat) list" where
  "timed_bodies ((fl, op, mid, pg, body, pad) # cs) (t # ts) = (pg, body, pad, t) # timed_bodies cs ts"
| "timed_bodies _ _ = []"

lemma timed_bodies_facts:
  assumes "length ts = length cs"
  shows "map body_of (timed_bodies cs ts) = map chunk_body cs"
    "length (timed_bodies cs ts) = length cs" "timed_bodies cs ts = [] \<longleftrightarrow> cs = []"
    "list_all chunk_ok cs \<Longrightarrow>
     \<forall>b \<in> set (timed_bodies cs ts). length (fst b) = 2 \<and> body_of b \<noteq> [] \<and> length (body_of b) < 65536"
  using assms by (induction cs ts rule: timed_bodies.induct) auto

lemma image_packet_route:
  assumes "chunk_ok (fl, op, mid, pg, body, pad)" "uint k < int (keyCount (ch_geometry s))"
  shows "childHandlePacket now \<lparr> cf_flags = fl, cf_hidOp = op, cf_messageId = mid,
           cf_payload = gen2_packet k l pg body pad \<rparr> s
    = acts [sendAckNak mid op,
            assembled (\<lambda>a. assembleImageChunk a ImagePages (gen2_packet k l pg body pad) None now)] s"
proof -
  let ?p = "gen2_packet k l pg body pad"
  have p: "chunk_key_at ?p = Key (uint k)" "at0 ?p 0 = 2" "?p ! Suc 0 = 7" "1 < length ?p" "?p \<noteq> []"
    by (simp_all add: chunk_key_at_def gen2_packet_def at_opt_def)
  show ?thesis
    using assms p(4)
    by (simp add: prod_eq_iff p childHandlePacket_def routeChildPacket_def routeRequest_def Let_def
        buildVerbatimProbeReport_def handleOutputReport_def ackIf_def handleImageChunk_def
        isValidChildImageKey_def)
qed

lemma gen2_step_pending:
  assumes "length pg = 2" "length body < 65536" "body \<noteq> []"
  shows "snd (assembleImageChunk a own (gen2_packet k False pg body pad) mp now) = None"
  using gen2_packet_step[of pg body False a own k pad mp now] assms
  by (auto split: prod.splits option.splits)

lemma assemble_run_snd:
  "snd (assemble_run a own ((p, t) # ps)) =
     (case snd (assembleImageChunk a own p None t) of None \<Rightarrow> [] | Some e \<Rightarrow> [e])
       @ snd (assemble_run (fst (assembleImageChunk a own p None t)) own ps)"
  by (simp add: Let_def split: prod.splits option.splits)

text \<open>Every chunk is acknowledged when it is handled; the image comes with the last one.\<close>

lemma image_packets_events:
  assumes "list_all chunk_ok cs" "uint k < int (keyCount (ch_geometry s))" "cs_client s = Some skt"
    "length ts = length cs" "cs \<noteq> []"
  shows "snd (packets (zip (image_frames k cs) ts) s) =
     map (ack_of skt) cs
       @ map Image_received (snd (assemble_run (ch_asm s) ImagePages (gen2_packets k (timed_bodies cs ts))))"
  using assms
proof (induction cs arbitrary: s ts)
  case (Cons c cs)
  obtain fl op mid pg body pad where c: "c = (fl, op, mid, pg, body, pad)" by (cases c)
  obtain t us where ts: "ts = t # us" "length us = length cs" using Cons.prems(4) by (cases ts) auto
  have ok: "chunk_ok (fl, op, mid, pg, body, pad)" using Cons.prems(1) c by simp
  let ?p = "gen2_packet k (cs = []) pg body pad"
  let ?a = "assembleImageChunk (ch_asm s) ImagePages ?p None t"
  let ?s = "s\<lparr>ch_asm := fst ?a\<rparr>"
  note route = image_packet_route[OF ok Cons.prems(2), of t "cs = []"]
  have snd1: "snd (packets (zip (image_frames k (c # cs)) ts) s) =
      [ack_of skt c] @ (case snd ?a of None \<Rightarrow> [] | Some e \<Rightarrow> [Image_received e])
      @ snd (packets (zip (image_frames k cs) us) ?s)"
    using Cons.prems(3) by (simp add: c ts route sendAckNak_def sendFrame_def)
  show ?case
  proof (cases "cs = []")
    case True
    then show ?thesis unfolding snd1 using ts by (simp add: c assemble_run_snd split: option.splits
          del: assemble_run.simps(2))
  next
    case False
    have "snd ?a = None" using ok False by (simp add: gen2_step_pending)
    moreover have "snd (packets (zip (image_frames k cs) us) ?s) = map (ack_of skt) cs
      @ map Image_received (snd (assemble_run (fst ?a) ImagePages (gen2_packets k (timed_bodies cs us))))"
      using Cons.IH[of ?s us] Cons.prems False ts c by simp
    ultimately show ?thesis
      unfolding snd1 using ts timed_bodies_facts(3)[OF ts(2)] False
      by (simp add: c assemble_run_snd del: assemble_run.simps(2))
  qed
qed simp

lemma image_frames_wf:
  assumes "list_all chunk_ok cs"
    "\<forall>(fl, op, mid, pg, body, pad) \<in> set cs. fl < 2 ^ 16 \<and> op < 2 ^ 8 \<and> mid < 2 ^ 32 \<and>
       length body + length pad \<le> 131048"
  shows "list_all frame_wf (image_frames k cs)" "length (image_frames k cs) = length cs"
  using assms by (induction k cs rule: image_frames.induct) (auto simp: frame_wf_def gen2_packet_def)

lemma reads_snd: "snd (reads rs s) = snd (packets (feed_timed (cs_reader s) rs) s)"
  using reads_packets[of rs s] by (auto simp: prod_eq_iff)

lemma uploaded_events:
  assumes "inv (ch_asm s)" "page_at (ch_asm s) (ImagePages, uint k) = None"
    "cs_client s = Some skt" "cs_reader s = empty_reader" "uint k < int (keyCount (ch_geometry s))"
    "list_all chunk_ok cs" "cs \<noteq> []" "length cs \<le> MAX_IMAGE_ASSEMBLY_CHUNKS"
    "length (List.concat (map chunk_body cs)) \<le> MAX_IMAGE_ASSEMBLY_BYTES"
    and wf: "list_all frame_wf (image_frames k cs)" and n: "length (image_frames k cs) = length cs"
    and rs: "fits empty_reader (map fst rs)"
      "List.concat (map (rbuf \<circ> fst) rs) = List.concat (map encode_frame (image_frames k cs))"
  shows "snd (reads rs s) = map (ack_of skt) cs @
     [Image_received \<lparr> ie_key = uint k, ie_data = List.concat (map chunk_body cs), ie_format = Jpeg \<rparr>]"
proof -
  let ?fts = "feed_timed empty_reader rs"
  have "drainLoop (List.concat (map encode_frame (image_frames k cs))) = (image_frames k cs, [])"
    using drain_encoded[OF wf, of "[]"] by (simp add: drain_short)
  then have d: "fst (drainLoop (List.concat (map rbuf (map fst rs)))) = image_frames k cs"
    using rs(2) by simp
  have "rs \<noteq> []" using d assms(7) n by (auto simp: drain_short)
  then have "map fst ?fts = image_frames k cs"
    using feed_frames[OF rs(1)] d by (simp add: feed_timed_frames empty_reader_def)
  then have fts: "?fts = zip (image_frames k cs) (map snd ?fts)" "length (map snd ?fts) = length cs"
    by (metis zip_map_fst_snd) (metis \<open>map fst ?fts = _\<close> length_map n)
  let ?ts = "map snd ?fts"
  note tb = timed_bodies_facts[OF fts(2)]
  have o: "old_page (ch_asm s) (ImagePages, uint k) = \<lparr> chunks = [], abytes = 0 \<rparr>"
    using assms(2) by (simp add: old_page_def)
  have "sum_list (map (length \<circ> body_of) (timed_bodies cs ?ts)) = length (List.concat (map chunk_body cs))"
    by (simp add: length_concat comp_def flip: tb(1)) 
  then obtain a' where "assemble_run (ch_asm s) ImagePages (gen2_packets k (timed_bodies cs ?ts)) =
      (a', [\<lparr> ie_key = uint k, ie_data = List.concat (map chunk_body cs), ie_format = Jpeg \<rparr>])"
    using gen2_run[OF assms(1) _ tb(4)[OF assms(6)], of ImagePages k] assms(7-9)
    unfolding o by (auto simp: tb)
  then show ?thesis
    using image_packets_events[OF assms(6,5,3) fts(2) assms(7)] fts(1)
    unfolding reads_snd assms(4) by simp
qed

section \<open>Properties\<close>

lemma accepted_state:
  fixes s :: child_server and n addr now
  assumes "cs_client s = None"
  defines "u \<equiv> fst (child_step (Accepted n addr now) s)"
  shows "cs_client u = Some (Inbound n)" "cs_reader u = empty_reader"
    "inv (ch_asm u)" "page_at (ch_asm u) x = None" "ch_geometry u = ch_geometry s"
    "snd (child_step (Accepted n addr now) s) = Client_connected addr
       # (case rc_outbound (ch_rc s) of None \<Rightarrow> [] | Some d \<Rightarrow> [Destroy d])
       @ [Write (Inbound n) (encodeCoraFrame (keepalive_payload 0) 0 0 0)]"
  using child.adopt_fields[of "Inbound n" addr now s] assms
  by (simp_all add: u_def acceptConnection_def child.adopt_events connected_keeps reset_inv
      page_at_def reset_pages split: option.splits)

text \<open>C15. An upload, end to end: a client that connects to an idle child server and sends an
  image as acknowledged chunks is greeted with keepalive 0, then gets exactly one
  acknowledgement per chunk, in order, and the panel gets exactly that image, once, after the
  last chunk, however TCP cuts the bytes of the frames into reads and whenever the reads
  arrive.\<close>

theorem upload_end_to_end:
  assumes "net_reachable t" "cs_client (nt_server t) = None"
    and k: "uint k < int (keyCount (ch_geometry (nt_server t)))"
    and cs: "list_all chunk_ok cs" "cs \<noteq> []" "length cs \<le> MAX_IMAGE_ASSEMBLY_CHUNKS"
      "length (List.concat (map chunk_body cs)) \<le> MAX_IMAGE_ASSEMBLY_BYTES"
      "\<forall>(fl, op, mid, pg, body, pad) \<in> set cs. fl < 2 ^ 16 \<and> op < 2 ^ 8 \<and> mid < 2 ^ 32 \<and>
         length body + length pad \<le> 131048"
    and rs: "fits empty_reader (map fst rs)"
      "List.concat (map (rbuf \<circ> fst) rs) = List.concat (map encode_frame (image_frames k cs))"
  shows "snd (acts (child_step (Accepted n addr now)
           # map (\<lambda>(c, tm). child_step (Data (Inbound n) c tm)) rs) (nt_server t)) =
     Client_connected addr
       # (case rc_outbound (ch_rc (nt_server t)) of None \<Rightarrow> [] | Some d \<Rightarrow> [Destroy d])
       @ Write (Inbound n) (encodeCoraFrame (keepalive_payload 0) 0 0 0)
       # map (ack_of (Inbound n)) cs
       @ [Image_received \<lparr> ie_key = uint k, ie_data = List.concat (map chunk_body cs),
                           ie_format = Jpeg \<rparr>]"
proof -
  let ?u = "fst (child_step (Accepted n addr now) (nt_server t))"
  note u = accepted_state[OF assms(2), of n addr now]
  have "snd (reads rs ?u) = map (ack_of (Inbound n)) cs @
     [Image_received \<lparr> ie_key = uint k, ie_data = List.concat (map chunk_body cs), ie_format = Jpeg \<rparr>]"
    by (rule uploaded_events[OF u(3) u(4) u(1,2) _ cs(1-4) image_frames_wf[OF cs(1,5)] rs])
      (use k in \<open>simp only: u(5)\<close>)
  then show ?thesis by (simp only: snd_acts u(6) child_step.simps(5)) simp
qed

definition example_geometry :: child_geometry where
  "example_geometry = \<lparr> rows = 2, columns = 3, keyCount = 6, keyWidth = 80, keyHeight = 80,
     productName = ''Deck'', encoderCount = None, touchWidth = None, touchHeight = None \<rparr>"

definition example_config :: device_config where
  "example_config = \<lparr> dockFirmwareVersion = ''1.0'', childFirmwareVersion = ''1.0'',
     serialNumber = ''S'', childSerialNumber = ''C'', productId = 0x80, macAddress = [] \<rparr>"

lemma upload_end_to_end_witness:
  "snd (acts [child_step (Accepted 0 ''h'' 5),
      child_step (Data (Inbound 0) \<lparr> rbuf = encode_frame (hd (image_frames 3
        [(0x4000, 0, 9, [0, 0], [0xff, 0xd8], [])])), rbacking = 64 \<rparr> 7)]
      (nt_server (net_init example_geometry 5344 example_config True)))
   = [Client_connected ''h'', Write (Inbound 0) (encodeCoraFrame (keepalive_payload 0) 0 0 0),
      Write (Inbound 0) (encodeCoraFrame (alloc 4) 0x8200 0 9),
      Image_received \<lparr> ie_key = 3, ie_data = [0xff, 0xd8], ie_format = Jpeg \<rparr>]"
proof -
  let ?t = "net_init example_geometry 5344 example_config True"
  let ?cs = "[(0x4000, 0, 9, [0, 0], [0xff, 0xd8], [])] :: chunk list"
  let ?f = "encode_frame (hd (image_frames 3 ?cs))"
  have l: "length ?f = 26" by (simp add: encode_frame_length frameTotalLength_def gen2_packet_def)
  have init: "cs_client (nt_server ?t) = None" "rc_outbound (ch_rc (nt_server ?t)) = None"
    "keyCount (ch_geometry (nt_server ?t)) = 6"
    by (simp_all add: net_init_def new_child_server_def cora_server.extend_def new_server_def
        new_reconnector_def example_geometry_def)
  show ?thesis
    using upload_end_to_end[OF net_start init(1), of 3 ?cs "[(\<lparr> rbuf = ?f, rbacking = 64 \<rparr>, 7)]" 0 "''h''" 5]
    unfolding init using l by (simp add: has_flag_def empty_reader_def del: snd_acts)
qed

text \<open>C16. The state of a child server is always well formed, and no socket leaks: in every
  reachable state the keepalive timer runs exactly while a client is attached, every key has
  one state byte, 0 or 1, the assemblies respect their budget, the reader is below its cap,
  a dial in flight or a scheduled retry is reflected in the reconnector's state and excludes a
  client, and the only socket held open is the client's.\<close>

theorem child_server_wellformed:
  assumes "net_reachable t"
  shows "child_wf (nt_server t)
    \<and> (\<forall>k \<in> set (nt_open t). cs_client (nt_server t) = Some k)
    \<and> (cs_client (nt_server t) \<noteq> None \<longrightarrow>
         rc_outbound (ch_rc (nt_server t)) = None \<and> \<not> rc_timer (ch_rc (nt_server t)))"
  using net_ok_reachable[OF assms] by (auto simp: net_ok_def child_wf_def rc_quiet_def)

lemma child_server_wellformed_witness:
  "child_wf (fst (child_step (Accepted 0 ''h'' 5)
     (nt_server (net_init example_geometry 5344 example_config True))))"
proof -
  let ?t = "net_init example_geometry 5344 example_config True"
  have "enabled (Accepted 0 ''h'' 5) ?t" by (simp add: net_init_def)
  from child_server_wellformed[OF net_more[OF net_start net_step_after[OF this]]]
  show ?thesis by simp
qed



section \<open>Key reports\<close>

text \<open>What a key is after a list of its and other keys' events.\<close>

definition pressed_after :: "(int \<times> key_state) list \<Rightarrow> nat \<Rightarrow> bool" where
  "pressed_after es j = foldl (\<lambda>b (i, st). if i = int j then st = Down else b) False es"

lemma pressed_after_snoc [simp]:
  "pressed_after [] j = False"
  "pressed_after (es @ [(i, st)]) j = (if i = int j then st = Down else pressed_after es j)"
  by (simp_all add: pressed_after_def)

abbreviation key_events :: "(int \<times> key_state) list \<Rightarrow> child_act" where
  "key_events es \<equiv> acts (map (\<lambda>(i, st). child_step (Key_event i st)) es)"

lemma sendKeyEvent_state:
  assumes "cs_client s = Some k" "i < int (keyCount (ch_geometry s))"
  shows "fst (sendKeyEvent i st s) =
      (if i < 0 then s else s\<lparr>ch_keyStates := put (ch_keyStates s) (nat i) (if st = Down then 1 else 0)\<rparr>)"
    "snd (sendKeyEvent i st s) = [Write k (encodeCoraFrame (key_report (keyCount (ch_geometry s))
       (ch_keyStates (fst (sendKeyEvent i st s)))) 0 0 0)]"
  using assms by (simp_all add: sendKeyEvent_def sendAllKeyStates_def hasClient_def sendFrame_def)

lemma key_events_state:
  fixes s
  assumes "cs_client s = Some k" "length (ch_keyStates s) = keyCount (ch_geometry s)"
    "ch_keyStates s = alloc (keyCount (ch_geometry s))"
  shows "cs_client (fst (key_events es s)) = Some k
    \<and> ch_geometry (fst (key_events es s)) = ch_geometry s
    \<and> length (ch_keyStates (fst (key_events es s))) = keyCount (ch_geometry s)
    \<and> (\<forall>j < keyCount (ch_geometry s).
         ch_keyStates (fst (key_events es s)) ! j = (if pressed_after es j then 1 else 0))"
proof (induction es rule: rev_induct)
  case (snoc e es)
  obtain i st where e: "e = (i, st)" by fastforce
  let ?u = "fst (key_events es s)"
  show ?case
  proof (cases "i < int (keyCount (ch_geometry ?u))")
    case True
    have "cs_client ?u = Some k" using snoc by simp
    from sendKeyEvent_state(1)[OF this True, of st] show ?thesis
      using snoc True by (auto simp: e acts_append nth_list_update)
  next
    case False
    then have "fst (sendKeyEvent i st ?u) = ?u" by (simp add: sendKeyEvent_def)
    then show ?thesis using snoc False by (auto simp: e acts_append)
  qed
qed (use assms in simp)

text \<open>The report sent for a key event describes the whole deck: after any key events of a
  session, whatever their indices, the report of the next one says for every key whether its
  own latest event was a press (and released for a key without one), in the key's own byte.\<close>

theorem key_report_describes_deck:
  assumes "cs_client s = Some k" "ch_keyStates s = alloc (keyCount (ch_geometry s))"
    and "keyCount (ch_geometry s) \<le> 508" "i < int (keyCount (ch_geometry s))"
    and "j < keyCount (ch_geometry s)"
  shows "\<exists>p. snd (child_step (Key_event i st) (fst (key_events es s)))
        = [Write k (encodeCoraFrame p 0 0 0)]
     \<and> length p = ELGATO_PKT_SIZE_TX
     \<and> at0 p 0 = 0x01 \<and> at0 p 1 = 0x00 \<and> at0 p 2 = of_nat (keyCount (ch_geometry s))
     \<and> at0 p (4 + j) = (if pressed_after (es @ [(i, st)]) j then 1 else 0)"
proof -
  let ?n = "keyCount (ch_geometry s)"
  let ?u = "fst (key_events es s)" and ?v = "fst (key_events (es @ [(i, st)]) s)"
  note u = key_events_state[OF assms(1) _ assms(2), of es]
    and v = key_events_state[OF assms(1) _ assms(2), of "es @ [(i, st)]"]
  have ev: "snd (child_step (Key_event i st) ?u) =
      [Write k (encodeCoraFrame (key_report ?n (ch_keyStates ?v)) 0 0 0)]"
    using sendKeyEvent_state(2)[of ?u k i st] u assms by (simp add: acts_append)
  have 1: "at0 (key_report ?n b) 0 = 0x01" "at0 (key_report ?n b) 1 = 0x00"
    "at0 (key_report ?n b) 2 = of_nat ?n" "length (key_report ?n b) = 512" for b
    by (simp_all add: key_report_def Let_def at0_put_all at0_put)
  have 2: "at0 (key_report ?n (ch_keyStates ?v)) (4 + j)
      = (if pressed_after (es @ [(i, st)]) j then 1 else 0)"
  proof -
    have "at0 (key_report ?n b) (4 + j) = at0 b j" for b
      using assms(3,5) by (simp add: key_report_def Let_def at0_put_all)
    then show ?thesis using v assms(2,5) by (simp add: at0_def)
  qed
  show ?thesis
    by (intro exI[of _ "key_report ?n (ch_keyStates ?v)"] conjI ev 1 2)
qed

section \<open>Takeovers\<close>

text \<open>The inputs of a run in which the client keeps being heard: every newcomer arrives within
  the grace period of the last read, and nothing ends the session.\<close>

fun heard :: "sock \<Rightarrow> nat \<Rightarrow> nat \<Rightarrow> child_input list \<Rightarrow> bool" where
  "heard k g l [] \<longleftrightarrow> True"
| "heard k g l (Accepted n addr now # is) \<longleftrightarrow> now < l + g \<and> heard k g l is"
| "heard k g l (Data j c now # is) \<longleftrightarrow> heard k g now is"
| "heard k g l (Closed j # is) \<longleftrightarrow> j \<noteq> k \<and> heard k g l is"
| "heard k g l (Stop # is) \<longleftrightarrow> False"
| "heard k g l (i # is) \<longleftrightarrow> heard k g l is"

text \<open>The time the client was last heard, after an input.\<close>

fun heard_at :: "nat \<Rightarrow> child_input \<Rightarrow> nat" where
  "heard_at l (Data k c now) = now"
| "heard_at l _ = l"

lemma heard_Cons:
  "heard k g l (i # is) \<longleftrightarrow> heard k g l [i] \<and> heard k g (heard_at l i) is"
  by (cases i) simp_all

lemma other_step_keeps:
  fixes s :: child_server
  shows
    "cs_lastRx (fst (sendKeyEvent x st s)) = cs_lastRx s" "cs_grace (fst (sendKeyEvent x st s)) = cs_grace s"
    "cs_lastRx (fst (sendDial e s)) = cs_lastRx s" "cs_grace (fst (sendDial e s)) = cs_grace s"
    "cs_lastRx (fst (sendTouch te s)) = cs_lastRx s" "cs_grace (fst (sendTouch te s)) = cs_grace s"
    "cs_lastRx (fst (startError n s)) = cs_lastRx s" "cs_grace (fst (startError n s)) = cs_grace s"
    "cs_lastRx (fst (serverError s)) = cs_lastRx s" "cs_grace (fst (serverError s)) = cs_grace s"
    "cs_lastRx (fst (keepaliveTick s)) = cs_lastRx s" "cs_grace (fst (keepaliveTick s)) = cs_grace s"
  by (auto simp: sendKeyEvent_def sendAllKeyStates_def sendDial_def sendTouch_def startError_def
      serverError_def keepaliveTick_def sendKeepalive_def Let_def
      split: dial_event.splits option.splits)

lemma data_grace: "cs_grace (fst (onData (childHandlePacket now) c now s)) = cs_grace s"
proof -
  obtain fs r where d: "drainFrames (append_chunk (cs_reader s) c) = (fs, r)" by fastforce
  show ?thesis
    using base_fields(7)[OF child.handle_all_base[of now fs "s\<lparr>cs_lastRx := now, cs_reader := r\<rparr>"]]
    by (simp add: onData_def d)
qed

lemma heard_step:
  assumes wf: "child_wf s" and k: "cs_client s = Some k"
    and en: "\<And>j addr now. i = Dialled j addr now \<Longrightarrow> rc_outbound (ch_rc s) = Some j"
    and h: "heard k (cs_grace s) (cs_lastRx s) [i]"
  shows "cs_client (fst (child_step i s)) = Some k
    \<and> cs_grace (fst (child_step i s)) = cs_grace s
    \<and> cs_lastRx (fst (child_step i s)) = heard_at (cs_lastRx s) i"
proof (cases i)
  case (Dialled j addr now)
  then have False using wf k en by (auto simp: child_wf_def rc_quiet_def)
  then show ?thesis ..
qed (use k h in \<open>auto simp: acceptConnection_def child.data_fields data_grace other_step_keeps
      onClose_def onSocketError_def setChildGeometry_def dropClient_def childStart_def
      startServer_def childListening_def startListening_def Let_def\<close>)

text \<open>C18. A panel in use is never taken over: as long as every newcomer arrives within the grace
  period after the client was last heard, the client keeps its session through any run of
  inputs that does not close its socket or stop the server.\<close>

theorem active_client_stays:
  assumes "net_reachable t" "cs_client (nt_server t) = Some k" "admissible t is"
    "heard k (cs_grace (nt_server t)) (cs_lastRx (nt_server t)) is"
  shows "cs_client (nt_server (net_run t is)) = Some k"
  using assms
proof (induction "is" arbitrary: t)
  case (Cons i "is")
  let ?t = "fst (net_after i t)"
  have wf: "child_wf (nt_server t)"
    using net_ok_reachable[OF Cons.prems(1)] by (simp add: net_ok_def)
  have en: "enabled i t" "admissible ?t is" using Cons.prems(3) by simp_all
  have h: "heard k (cs_grace (nt_server t)) (cs_lastRx (nt_server t)) [i]"
    "heard k (cs_grace (nt_server t)) (heard_at (cs_lastRx (nt_server t)) i) is"
    using Cons.prems(4) by (simp_all only: heard_Cons[of k _ _ i "is"])
  have "cs_client (nt_server ?t) = Some k
    \<and> cs_grace (nt_server ?t) = cs_grace (nt_server t)
    \<and> cs_lastRx (nt_server ?t) = heard_at (cs_lastRx (nt_server t)) i"
    unfolding net_after_simps
    by (rule heard_step[OF wf Cons.prems(2) _ h(1)]) (use en in simp)
  then show ?case
    using Cons.IH[OF net_more[OF Cons.prems(1) net_step_after[OF en(1)]] _ en(2)] h(2) by simp
qed simp

lemma active_client_stays_witness:
  fixes t
  defines "t \<equiv> net_run (net_init example_geometry 5344 example_config True) [Accepted 0 ''h'' 5]"
  shows "cs_client (nt_server (net_run t [Accepted 1 ''x'' 9000, Data (Inbound 0) empty_reader 9500,
     Tick, Accepted 2 ''x'' 19000])) = Some (Inbound 0)"
proof (rule active_client_stays)
  show r: "net_reachable t"
    unfolding t_def by (rule run_reachable[OF net_start]) (simp add: net_init_def)
  show c: "cs_client (nt_server t) = Some (Inbound 0)"
    by (simp add: t_def net_init_def new_child_server_def cora_server.extend_def new_server_def
        acceptConnection_def child.adopt_fields)
  show "heard (Inbound 0) (cs_grace (nt_server t)) (cs_lastRx (nt_server t))
     [Accepted 1 ''x'' 9000, Data (Inbound 0) empty_reader 9500, Tick, Accepted 2 ''x'' 19000]"
    by (simp add: t_def net_init_def new_child_server_def cora_server.extend_def new_server_def
        acceptConnection_def child.adopt_fields)
  show "admissible t
     [Accepted 1 ''x'' 9000, Data (Inbound 0) empty_reader 9500, Tick, Accepted 2 ''x'' 19000]"
    by (simp add: net_accepted_mono)
      (simp add: t_def net_init_def new_child_server_def cora_server.extend_def new_server_def
        acceptConnection_def child.adopt_events child.adopt_fields connected_keeps
        net_accepted_mono new_reconnector_def)
qed

end
