(* ===== verification/Js_Values.thy ===== *)
theory Js_Values
  imports Prelude Complex_Main
begin

text \<open>
  The JavaScript values that cross a boundary of the program (settings files, HTTP bodies):
  JSON documents, how the program reads properties, numbers and strings of them, and the
  number formatting and remainder the program uses.  A property that is absent, or set to
  \<^verbatim>\<open>undefined\<close>, is \<^const>\<open>None\<close>; the properties of an object are listed in insertion order,
  each key once.
\<close>

section \<open>Numbers\<close>

text \<open>\<^verbatim>\<open>String(n)\<close> and \<^verbatim>\<open>padStart(2, '0')\<close>.\<close>

fun decimal :: "nat \<Rightarrow> string" where
  "decimal n = (if n < 10 then [char_of (48 + n)] else decimal (n div 10) @ [char_of (48 + n mod 10)])"

declare decimal.simps [simp del]

definition padStart2 :: "string \<Rightarrow> string" where
  "padStart2 s = replicate (2 - length s) (CHR ''0'') @ s"

text \<open>The \<^verbatim>\<open>%\<close> of JavaScript has the sign of its left operand.\<close>

definition js_rem :: "int \<Rightarrow> int \<Rightarrow> int" where
  "js_rem a b = (if a < 0 then - ((- a) mod \<bar>b\<bar>) else a mod \<bar>b\<bar>)"

lemma js_rem_wrap:
  assumes "0 < n"
  shows "js_rem (js_rem a n + n) n = a mod n"
proof -
  have eq: "(js_rem a n + n) mod n = a mod n"
    using assms by (cases "a < 0") (simp_all add: js_rem_def mod_minus_eq)
  have b: "(- a) mod n \<le> n" using pos_mod_bound[OF assms, of "- a"] by linarith
  have "0 \<le> js_rem a n + n"
    using assms by (cases "a < 0") (simp_all add: js_rem_def b)
  then have "js_rem (js_rem a n + n) n = (js_rem a n + n) mod n"
    using assms by (simp add: js_rem_def[of "js_rem a n + n"])
  then show ?thesis by (simp only: eq)
qed

section \<open>JSON\<close>

datatype json =
    J_null
  | J_bool bool
  | J_num rat
  | J_str string
  | J_arr "json list"
  | J_obj "(string \<times> json) list"

fun field :: "json \<Rightarrow> string \<Rightarrow> json option" where
  "field (J_obj ps) k = map_of ps k"
| "field _ k = None"

fun is_obj :: "json \<Rightarrow> bool" where
  "is_obj (J_obj ps) = True"
| "is_obj _ = False"

fun j_truthy :: "json \<Rightarrow> bool" where
  "j_truthy J_null = False"
| "j_truthy (J_bool b) = b"
| "j_truthy (J_num q) = (q \<noteq> 0)"
| "j_truthy (J_str s) = (s \<noteq> [])"
| "j_truthy _ = True"

text \<open>The integers \<^verbatim>\<open>min..max\<close>: \<^verbatim>\<open>Number.isInteger\<close> with two comparisons.\<close>

fun is_int_in :: "int \<Rightarrow> int \<Rightarrow> json \<Rightarrow> bool" where
  "is_int_in lo hi (J_num q) = (of_int \<lfloor>q\<rfloor> = q \<and> of_int lo \<le> q \<and> q \<le> of_int hi)"
| "is_int_in lo hi _ = False"

fun num_of :: "json \<Rightarrow> rat option" where
  "num_of (J_num q) = Some q"
| "num_of _ = None"

fun str_of :: "json \<Rightarrow> string option" where
  "str_of (J_str s) = Some s"
| "str_of _ = None"

fun bool_of :: "json \<Rightarrow> bool option" where
  "bool_of (J_bool b) = Some b"
| "bool_of _ = None"

text \<open>\<^verbatim>\<open>join\<close> with a separator.\<close>

fun join_with :: "string \<Rightarrow> string list \<Rightarrow> string" where
  "join_with sep [] = []"
| "join_with sep [s] = s"
| "join_with sep (s # ss) = s @ sep @ join_with sep ss"

lemma is_int_inD:
  "is_int_in lo hi v \<Longrightarrow> \<exists>i. v = J_num (of_int i) \<and> lo \<le> i \<and> i \<le> hi"
proof (cases v)
  case (J_num q)
  assume "is_int_in lo hi v"
  then have "q = of_int \<lfloor>q\<rfloor>" "lo \<le> \<lfloor>q\<rfloor>" "\<lfloor>q\<rfloor> \<le> hi"
    using J_num by (auto simp: le_floor_iff floor_le_iff)
  then show ?thesis using J_num by blast
qed simp_all

end
