(* ===== verification/Primary_Server.thy ===== *)
theory Primary_Server
  imports Js_Values Cora_Server Cora_Responses
begin

text \<open>
  \<^verbatim>\<open>cora/primary-server.ts\<close>: the server of the emulated Network Dock, which tells the app
  where the child server is, and \<^verbatim>\<open>infra/mdns-advertiser.ts\<close>, the process or operating
  system service that makes the dock discoverable.  What the operating system answers (the
  platform, whether the native service starts, whether a subprocess can be spawned) is an
  argument.
\<close>

section \<open>The mDNS advertiser\<close>

record os_answers =
  os_dll :: bool
  os_linux :: bool
  os_native :: bool
  os_spawn :: bool

abbreviation (input) MDNS_TYPE :: string where "MDNS_TYPE \<equiv> ''_elg._tcp''"

record advertiser =
  ad_port :: nat
  ad_name :: string
  ad_pid :: nat
  ad_serial :: string
  ad_native :: bool
  ad_proc :: bool

definition new_advertiser :: "nat \<Rightarrow> string \<Rightarrow> advertiser" where
  "new_advertiser port name =
     \<lparr> ad_port = port, ad_name = name, ad_pid = 0, ad_serial = '''', ad_native = False,
       ad_proc = False \<rparr>"

definition updateIdentity :: "nat \<Rightarrow> string \<Rightarrow> advertiser \<Rightarrow> advertiser" where
  "updateIdentity pid sn a = a\<lparr>ad_pid := pid, ad_serial := sn\<rparr>"

definition mdns_txt :: "advertiser \<Rightarrow> string list" where
  "mdns_txt a = [''dt=215'', ''vid=4057'', ''pid='' @ decimal (ad_pid a), ''sn='' @ ad_serial a]"

definition buildArgs :: "bool \<Rightarrow> string \<Rightarrow> nat \<Rightarrow> string list \<Rightarrow> string list" where
  "buildArgs linux name port txt =
     (if linux then [''avahi-publish-service'', name, MDNS_TYPE, decimal port] @ txt
      else [''dns-sd'', ''-R'', name, MDNS_TYPE, ''.'', decimal port] @ txt)"

fun join_lines :: "string list \<Rightarrow> string" where
  "join_lines [] = ''''"
| "join_lines [s] = s"
| "join_lines (s # ss) = s @ [CHR 0x0A] @ join_lines ss"

definition adStart :: "os_answers \<Rightarrow> advertiser act" where
  "adStart os a =
     (let native = (if os_dll os
            then [Native_advertise (ad_name a) (ad_port a) (join_lines (mdns_txt a))] else [])
      in if os_dll os \<and> os_native os then (a\<lparr>ad_native := True\<rparr>, native)
         else (let args = buildArgs (os_linux os) (ad_name a) (ad_port a) (mdns_txt a)
               in if os_spawn os then (a\<lparr>ad_proc := True\<rparr>, native @ [Spawn args])
                  else (a, native)))"

definition adStop :: "advertiser act" where
  "adStop a =
     (if ad_native a then (a\<lparr>ad_native := False\<rparr>, [Native_withdraw (ad_port a)])
      else if ad_proc a then (a\<lparr>ad_proc := False\<rparr>, [Kill])
      else (a, []))"

section \<open>The server\<close>

abbreviation (input) ELGATO_MK2_PID :: nat where "ELGATO_MK2_PID \<equiv> 0x00a5"

definition default_config :: device_config where
  "default_config =
     \<lparr> dockFirmwareVersion = ''1.01.016'', childFirmwareVersion = ''1.01.000'',
       serialNumber = ''A7FZA5190ILSAA'', childSerialNumber = ''A7FZA5191ILSNQ'',
       productId = ELGATO_MK2_PID, macAddress = [0x02, 0x00, 0x00, 0x00, 0x00, 0x01] \<rparr>"

record primary_server = cora_server +
  pr_ad :: "advertiser option"
  pr_skipMdns :: bool
  pr_childPort :: nat
  pr_name :: string
  pr_geometry :: child_geometry
  pr_lastPid :: int
  pr_lastSerial :: string
  pr_ackSince :: nat
  pr_acks :: nat
  pr_config :: device_config

type_synonym primary_act = "primary_server act"

definition new_primary_server ::
  "child_geometry \<Rightarrow> nat \<Rightarrow> bool \<Rightarrow> nat \<Rightarrow> string \<Rightarrow> string option \<Rightarrow> string option \<Rightarrow> primary_server" where
  "new_primary_server geo port skipMdns childPort name dockSerial childSerial =
     cora_server.extend (new_server port)
       \<lparr> pr_ad = None, pr_skipMdns = skipMdns, pr_childPort = childPort, pr_name = name,
         pr_geometry = geo, pr_lastPid = -1, pr_lastSerial = '''', pr_ackSince = 0, pr_acks = 0,
         pr_config = default_config
           \<lparr>serialNumber := or_default dockSerial (serialNumber default_config),
            childSerialNumber := or_default childSerial (childSerialNumber default_config)\<rparr> \<rparr>"

text \<open>The fields of the partial config are those present.\<close>

definition setDeviceConfig :: "(device_config \<Rightarrow> device_config) \<Rightarrow> primary_act" where
  "setDeviceConfig f = upd (\<lambda>s. s\<lparr>pr_config := f (pr_config s)\<rparr>)"

definition setPrimaryGeometry :: "child_geometry \<Rightarrow> primary_act" where
  "setPrimaryGeometry geo = upd (\<lambda>s. s\<lparr>pr_geometry := geo\<rparr>)"

definition rememberAdvertised :: "nat \<Rightarrow> string \<Rightarrow> primary_server \<Rightarrow> primary_server" where
  "rememberAdvertised pid sn s = s\<lparr>pr_lastPid := int pid, pr_lastSerial := sn\<rparr>"

text \<open>\<^verbatim>\<open>spawnAdvertiser\<close>, assigned to the field, and \<^verbatim>\<open>start\<close> of it.\<close>

definition spawnAdvertiser :: "os_answers \<Rightarrow> primary_act" where
  "spawnAdvertiser os s =
     (let s = rememberAdvertised (productId (pr_config s)) (serialNumber (pr_config s)) s;
          a = updateIdentity (productId (pr_config s)) (serialNumber (pr_config s))
                (new_advertiser (cs_port s) (pr_name s));
          (a, es) = adStart os a
      in (s\<lparr>pr_ad := Some a\<rparr>, es))"

definition restartMdns :: "nat \<Rightarrow> os_answers \<Rightarrow> primary_act" where
  "restartMdns pid os s =
     (case pr_ad s of
        None \<Rightarrow> skip s
      | Some a \<Rightarrow>
          if pr_lastPid s = int pid \<and> pr_lastSerial s = serialNumber (pr_config s) then skip s
          else (let s = rememberAdvertised pid (serialNumber (pr_config s)) s;
                    (a, stopped) = adStop a;
                    a = updateIdentity pid (serialNumber (pr_config s)) a;
                    (a, started) = adStart os a
                in (s\<lparr>pr_ad := Some a\<rparr>, stopped @ started)))"

definition setMdnsServiceName :: "string \<Rightarrow> os_answers \<Rightarrow> primary_act" where
  "setMdnsServiceName name os s =
     (if name = pr_name s then skip s
      else (let s = s\<lparr>pr_name := name\<rparr> in
        case pr_ad s of
          None \<Rightarrow> skip s
        | Some a \<Rightarrow> (let (s, started) = spawnAdvertiser os s in (s, snd (adStop a) @ started))))"

definition primaryStart :: primary_act where
  "primaryStart = startServer"

definition primaryListening :: "nat \<Rightarrow> os_answers \<Rightarrow> primary_act" where
  "primaryListening n os =
     acts [ startListening n, ite pr_skipMdns skip (spawnAdvertiser os) ]"

definition stopAdvertiser :: primary_act where
  "stopAdvertiser s =
     (case pr_ad s of None \<Rightarrow> skip s | Some a \<Rightarrow> (s\<lparr>pr_ad := None\<rparr>, snd (adStop a)))"

definition primaryStop :: primary_act where
  "primaryStop = acts [ stopAdvertiser, stopServer ]"

definition primaryConnected :: "string \<Rightarrow> nat \<Rightarrow> primary_act" where
  "primaryConnected addr now = upd (\<lambda>s. s\<lparr>pr_ackSince := 0, pr_acks := 0\<rparr>)"

definition recordKeepaliveAck :: "nat \<Rightarrow> primary_act" where
  "recordKeepaliveAck now =
     upd (\<lambda>s. let since = (if pr_ackSince s = 0 then now else pr_ackSince s);
                  s = s\<lparr>pr_ackSince := since, pr_acks := pr_acks s + 1\<rparr>
              in if now < since + 60000 then s else s\<lparr>pr_ackSince := now, pr_acks := 0\<rparr>)"

definition buildChildDeviceInfo :: "primary_server \<Rightarrow> bytes" where
  "buildChildDeviceInfo s = buildCapabilitiesPacket (pr_config s) (pr_childPort s) (pr_geometry s)"

definition pushChildCapabilities :: primary_act where
  "pushChildCapabilities s =
     (if hasClient s then sendFrame (buildChildDeviceInfo s) 0 0 0 s else skip s)"

definition buildDeviceInfo :: bytes where
  "buildDeviceInfo =
     (let pkt = alloc ELGATO_PKT_SIZE_TX;
          pkt = put pkt 0 (of_nat PAYLOAD_TYPE_FEATURE);
          pkt = put pkt 1 (of_nat FEATURE_GET_DEVICE_INFO);
          pkt = writeUInt16LE ELGATO_VID 12 pkt
      in writeUInt16LE NETWORK_DOCK_PID 14 pkt)"

definition primaryHandlePacket :: "nat \<Rightarrow> cora_frame \<Rightarrow> primary_act" where
  "primaryHandlePacket now f =
     (let payload = cf_payload f; op = cf_hidOp f; mid = cf_messageId f in
      if length payload < 2 then skip
      else let byte0 = unat (payload ! 0); byte1 = unat (payload ! 1) in
      if byte0 \<noteq> PAYLOAD_TYPE_FEATURE then skip
      else if byte1 = FEATURE_KEEPALIVE_ACK then recordKeepaliveAck now
      else if byte1 = FEATURE_GET_DEVICE_INFO then sendFrame buildDeviceInfo CORA_FLAG_RESULT op mid
      else if byte1 = FEATURE_GET_CAPABILITIES
        then (\<lambda>s. sendFrame (buildChildDeviceInfo s) CORA_FLAG_RESULT op mid s)
      else acts
        [ if byte1 = FEATURE_GET_CHILD_FW \<or> byte1 = FEATURE_GET_QUICK_PROBE
            then emits (App_detected ''elgato'') else skip,
          \<lambda>s. sendFrame (buildFeatureResponse byte1 (pr_config s) ELGATO_PKT_SIZE_RX)
                CORA_FLAG_RESULT op mid s ])"

section \<open>The contract of the base class\<close>

lemma primary_base_of [simp]:
  "base_of (s\<lparr>pr_ackSince := t\<rparr>) = base_of s" "base_of (s\<lparr>pr_acks := n\<rparr>) = base_of s"
  by (simp_all add: cora_server.truncate_def)

lemma ack_base: "base_of (fst (recordKeepaliveAck now s)) = base_of s"
  by (simp add: recordKeepaliveAck_def Let_def)

lemma ack_quiet: "snd (recordKeepaliveAck now s) = []"
  by (simp add: recordKeepaliveAck_def)

interpretation primary: server_hooks primaryConnected primaryHandlePacket skip
proof unfold_locales
  show "base_of (fst (primaryHandlePacket now f s)) = base_of s" for now f s
    by (simp add: primaryHandlePacket_def Let_def ack_base)
  show "writes_only (cs_client s) (snd (primaryHandlePacket now f s))" for now f s
    by (simp add: primaryHandlePacket_def Let_def ack_quiet)
  show "Destroy k \<notin> set (snd (primaryHandlePacket now f s))" for k now f s
    by (simp add: primaryHandlePacket_def Let_def ack_quiet)
qed (simp_all add: primaryConnected_def)

section \<open>What is advertised\<close>

text \<open>The advertiser carries the server's port, its name and the identity it was last started
  with, and runs at most one of the two kinds of advertisement.\<close>

definition mdns_ok :: "primary_server \<Rightarrow> bool" where
  "mdns_ok s \<longleftrightarrow>
     (case pr_ad s of
        None \<Rightarrow> True
      | Some a \<Rightarrow> ad_port a = cs_port s \<and> ad_name a = pr_name s \<and> int (ad_pid a) = pr_lastPid s
          \<and> ad_serial a = pr_lastSerial s \<and> \<not> (ad_native a \<and> ad_proc a))"

text \<open>What stops the running advertisement of an advertiser.\<close>

definition withdrawal :: "advertiser \<Rightarrow> cora_event list" where
  "withdrawal a = (if ad_native a then [Native_withdraw (ad_port a)] else if ad_proc a then [Kill] else [])"

definition idle_ad :: "advertiser \<Rightarrow> advertiser" where
  "idle_ad a = a\<lparr>ad_native := False, ad_proc := False\<rparr>"

lemma adStop_eq:
  "\<not> (ad_native a \<and> ad_proc a) \<Longrightarrow> adStop a = (idle_ad a, withdrawal a)"
  by (auto simp: adStop_def idle_ad_def withdrawal_def)

lemma adStop_events: "snd (adStop a) = withdrawal a"
  by (simp add: adStop_def withdrawal_def)

lemma adStart_fields:
  "ad_port (fst (adStart os a)) = ad_port a" "ad_name (fst (adStart os a)) = ad_name a"
  "ad_pid (fst (adStart os a)) = ad_pid a" "ad_serial (fst (adStart os a)) = ad_serial a"
  "\<not> ad_native a \<Longrightarrow> \<not> ad_proc a \<Longrightarrow>
     \<not> (ad_native (fst (adStart os a)) \<and> ad_proc (fst (adStart os a)))"
  by (auto simp: adStart_def Let_def)

lemma spawnAdvertiser_eq:
  "spawnAdvertiser os s =
     (let a = adStart os (updateIdentity (productId (pr_config s)) (serialNumber (pr_config s))
                (new_advertiser (cs_port s) (pr_name s)))
      in (s\<lparr>pr_lastPid := int (productId (pr_config s)),
            pr_lastSerial := serialNumber (pr_config s), pr_ad := Some (fst a)\<rparr>, snd a))"
  by (simp add: spawnAdvertiser_def rememberAdvertised_def Let_def split: prod.splits)

lemma spawn_ok: "mdns_ok (fst (spawnAdvertiser os s))"
  by (simp add: spawnAdvertiser_eq mdns_ok_def Let_def adStart_fields updateIdentity_def
      new_advertiser_def)

lemma restart_eq:
  assumes "mdns_ok s" "pr_ad s = Some a"
  shows "restartMdns pid os s =
     (if ad_pid a = pid \<and> ad_serial a = serialNumber (pr_config s) then (s, [])
      else let b = adStart os (updateIdentity pid (serialNumber (pr_config s)) (idle_ad a))
           in (s\<lparr>pr_lastPid := int pid, pr_lastSerial := serialNumber (pr_config s),
                 pr_ad := Some (fst b)\<rparr>, withdrawal a @ snd b))"
proof -
  have st: "adStop a = (idle_ad a, withdrawal a)"
    using assms by (intro adStop_eq) (simp add: mdns_ok_def)
  have "pr_lastPid s = int (ad_pid a)" "pr_lastSerial s = ad_serial a"
    using assms by (simp_all add: mdns_ok_def)
  then show ?thesis
    using assms(2) st by (simp add: restartMdns_def rememberAdvertised_def skip_def Let_def
        split: prod.splits)
qed

lemma idle_ad_fields [simp]:
  "\<not> ad_native (updateIdentity p sn (idle_ad a))" "\<not> ad_proc (updateIdentity p sn (idle_ad a))"
  "ad_port (updateIdentity p sn (idle_ad a)) = ad_port a"
  "ad_name (updateIdentity p sn (idle_ad a)) = ad_name a"
  "ad_pid (updateIdentity p sn b) = p" "ad_serial (updateIdentity p sn b) = sn"
  by (simp_all add: idle_ad_def updateIdentity_def)

lemma restart_ok:
  assumes "mdns_ok s"
  shows "mdns_ok (fst (restartMdns pid os s))"
proof (cases "pr_ad s")
  case None
  then show ?thesis using assms by (simp add: restartMdns_def)
next
  case (Some a)
  then show ?thesis
    using assms by (simp add: restart_eq[OF assms Some] Let_def mdns_ok_def adStart_fields)
qed



end
