(* ===== verification/Device_Catalog.thy ===== *)
theory Device_Catalog
  imports Cora_Responses Image_Render
begin

text \<open>
  The catalogue of supported decks: the model type of \<^verbatim>\<open>devices/driver.ts\<close>, the protocol facts
  of \<^verbatim>\<open>devices/protocol-metadata.ts\<close>, every model under \<^verbatim>\<open>devices/\<close>, the lookups of
  \<^verbatim>\<open>devices/registry.ts\<close>.  An object spread is a record update; an absent object of emulations
  is the empty list.
\<close>

section \<open>Protocols\<close>

datatype protocol = Elgato_gen1 | Elgato_gen2 | Mirabox_cora | Mirabox_cora_v1 | Ajazz_akp05

datatype wire_key = W_packetSize | W_inSize | W_heartbeatMs | W_reportId | W_chunkDelayMs
  | W_chunkPadByte | W_synthesizeKeyUp | W_sendStpAfterImage | W_batchImageTransfers

datatype family = Family_elgato | Family_mirabox_v3 | Family_mirabox_v1 | Family_akp05

definition WIRE_OVERRIDE_KEYS :: "wire_key list" where
  "WIRE_OVERRIDE_KEYS = [W_packetSize, W_inSize, W_heartbeatMs, W_reportId, W_chunkDelayMs,
     W_chunkPadByte, W_synthesizeKeyUp, W_sendStpAfterImage, W_batchImageTransfers]"

definition MIRABOX_WIRE_KEYS :: "wire_key list" where
  "MIRABOX_WIRE_KEYS = [W_packetSize, W_inSize, W_heartbeatMs, W_reportId, W_chunkDelayMs,
     W_chunkPadByte, W_synthesizeKeyUp, W_sendStpAfterImage]"

definition PROTOCOLS :: "protocol list" where
  "PROTOCOLS = [Elgato_gen1, Elgato_gen2, Mirabox_cora, Mirabox_cora_v1, Ajazz_akp05]"

fun tunableWireKeys :: "protocol \<Rightarrow> wire_key list" where
  "tunableWireKeys Elgato_gen1 = []"
| "tunableWireKeys Elgato_gen2 = []"
| "tunableWireKeys Mirabox_cora = MIRABOX_WIRE_KEYS"
| "tunableWireKeys Mirabox_cora_v1 = MIRABOX_WIRE_KEYS @ [W_batchImageTransfers]"
| "tunableWireKeys Ajazz_akp05 = [W_inSize]"

fun protocol_family :: "protocol \<Rightarrow> family" where
  "protocol_family Elgato_gen1 = Family_elgato"
| "protocol_family Elgato_gen2 = Family_elgato"
| "protocol_family Mirabox_cora = Family_mirabox_v3"
| "protocol_family Mirabox_cora_v1 = Family_mirabox_v1"
| "protocol_family Ajazz_akp05 = Family_akp05"

fun protocol_strategy :: "protocol \<Rightarrow> bool" where
  "protocol_strategy Elgato_gen1 = True"
| "protocol_strategy Elgato_gen2 = True"
| "protocol_strategy _ = False"

section \<open>Models\<close>

record wire_facts =
  wf_packetSize :: int
  wf_inSize :: int
  wf_heartbeatMs :: "int option"
  wf_synthesizeKeyUp :: "bool option"
  wf_batchImageTransfers :: "bool option"
  wf_sendStpAfterImage :: "bool option"
  wf_reportId :: "int option"
  wf_chunkPadByte :: "bool option"
  wf_sharedSerial :: "bool option"
  wf_chunkDelayMs :: "int option"
  wf_packetSizeCandidates :: "int list option"

record emulation =
  em_image :: image_spec
  em_keyMap :: key_map

record cora_spec =
  co_productId :: nat
  co_advertiseAs :: "string option"
  co_usePhysicalIdentity :: bool
  co_childFirmwareVersion :: "string option"
  co_emulations :: "(string \<times> emulation) list"

record splash_transform =
  st_rotate :: "nat option"
  st_flipH :: "bool option"
  st_flipV :: "bool option"

record splash_facts =
  sf_keys :: "int list option"
  sf_transform :: "splash_transform option"

record model =
  m_id :: string
  m_vendor :: string
  m_protocol :: protocol
  m_name :: string
  m_usbVendorId :: nat
  m_usbProductIds :: "nat list"
  m_usagePage :: "nat option"
  m_usage :: "nat option"
  m_keyCount :: nat
  m_columns :: nat
  m_rows :: nat
  m_keyWidth :: nat
  m_keyHeight :: nat
  m_encoderCount :: "nat option"
  m_touchWidth :: "nat option"
  m_touchHeight :: "nat option"
  m_image :: image_spec
  m_wire :: wire_facts
  m_keyMap :: key_map
  m_cora :: cora_spec
  m_splash :: "splash_facts option"
  m_widgetDisplays :: "widget_display list"
  m_touchStrip :: "strip_display option"
  m_sleep :: bool

text \<open>The part of a model the renderer sees.\<close>

definition render_model :: "model \<Rightarrow> device_model" where
  "render_model m =
     \<lparr> dm_id = m_id m, dm_image = m_image m, dm_keyMap = m_keyMap m,
       dm_batchProtocol = (W_batchImageTransfers \<in> set (tunableWireKeys (m_protocol m))),
       dm_batchImages = (wf_batchImageTransfers (m_wire m) = Some True), dm_hasSleep = m_sleep m,
       widgetDisplays = (if m_widgetDisplays m = [] then None else Some (m_widgetDisplays m)),
       touchStripDisplay = m_touchStrip m \<rparr>"

definition plain_image :: "image_format \<Rightarrow> int \<Rightarrow> int \<Rightarrow> image_spec" where
  "plain_image fmt w h =
     \<lparr> sp_format = fmt, sp_width = w, sp_height = h, sp_rotate = 0, sp_flipH = False,
       sp_flipV = False, sp_bgr = False, sp_bmpPpm = None, sp_maxBytes = 0, sp_quality = 95 / 100,
       sp_blur = None, sp_sharpen = None, sp_crop = None, sp_cropRect = None,
       sp_resizeFilter = None, sp_resizeMode = None, sp_padFill = None,
       sp_transform = Passthrough \<rparr>"

definition plain_wire :: wire_facts where
  "plain_wire =
     \<lparr> wf_packetSize = 1024, wf_inSize = 512, wf_heartbeatMs = None, wf_synthesizeKeyUp = None,
       wf_batchImageTransfers = None, wf_sendStpAfterImage = None, wf_reportId = None,
       wf_chunkPadByte = None, wf_sharedSerial = None, wf_chunkDelayMs = None,
       wf_packetSizeCandidates = None \<rparr>"

definition no_keymap :: key_map where
  "no_keymap =
     \<lparr> coraToWireImage = None, wireInputToCora = None, inputOffset = None, imageOffset = None,
       extraKeys = None, extraKeyInputs = None \<rparr>"

definition rotate_splash :: "nat \<Rightarrow> bool option \<Rightarrow> splash_facts option" where
  "rotate_splash r fh =
     Some \<lparr> sf_keys = None,
            sf_transform = Some \<lparr> st_rotate = Some r, st_flipH = fh, st_flipV = None \<rparr> \<rparr>"

text \<open>\<^verbatim>\<open>shared/types.ts\<close>.\<close>

abbreviation (input) MK2_PID :: nat where "MK2_PID \<equiv> 0x00a5"
abbreviation (input) PLUS_PID :: nat where "PLUS_PID \<equiv> 0x0084"
definition IMAGE_JPEG_QUALITY :: rat where "IMAGE_JPEG_QUALITY = 9 / 10"

section \<open>The catalogue\<close>

definition MK2_MODEL :: model where
  "MK2_MODEL =
     \<lparr> m_id = ''mk2'', m_vendor = ''elgato'', m_protocol = Elgato_gen2, m_name = ''Stream Deck MK.2'',
       m_usbVendorId = 0x0fd9, m_usbProductIds = [0x0080, 0x006d, 0x00a5],
       m_usagePage = None, m_usage = None, m_keyCount = 15, m_columns = 5, m_rows = 3,
       m_keyWidth = 72, m_keyHeight = 72, m_encoderCount = None, m_touchWidth = None,
       m_touchHeight = None, m_image = plain_image Jpeg 72 72, m_wire = plain_wire,
       m_keyMap = no_keymap,
       m_cora = \<lparr> co_productId = 0x0080, co_advertiseAs = None, co_usePhysicalIdentity = True,
                  co_childFirmwareVersion = None, co_emulations = [] \<rparr>,
       m_splash = rotate_splash 180 None, m_widgetDisplays = [], m_touchStrip = None,
       m_sleep = False \<rparr>"

definition MINI_MODEL :: model where
  "MINI_MODEL =
     \<lparr> m_id = ''mini'', m_vendor = ''elgato'', m_protocol = Elgato_gen1, m_name = ''Stream Deck Mini'',
       m_usbVendorId = 0x0fd9, m_usbProductIds = [0x0063, 0x0090, 0x00b3, 0x00b8],
       m_usagePage = None, m_usage = None, m_keyCount = 6, m_columns = 3, m_rows = 2,
       m_keyWidth = 80, m_keyHeight = 80, m_encoderCount = None, m_touchWidth = None,
       m_touchHeight = None,
       m_image = (plain_image Bmp 80 80)\<lparr>sp_rotate := 90, sp_bgr := True, sp_bmpPpm := Some 2835,
                    sp_quality := 0\<rparr>,
       m_wire = plain_wire, m_keyMap = no_keymap,
       m_cora = \<lparr> co_productId = 0x0063, co_advertiseAs = None, co_usePhysicalIdentity = True,
                  co_childFirmwareVersion = None, co_emulations = [] \<rparr>,
       m_splash = rotate_splash 90 (Some True), m_widgetDisplays = [], m_touchStrip = None,
       m_sleep = False \<rparr>"

definition STREAM_DECK_PLUS_MODEL :: model where
  "STREAM_DECK_PLUS_MODEL =
     \<lparr> m_id = ''stream-deck-plus'', m_vendor = ''elgato'', m_protocol = Elgato_gen2,
       m_name = ''Stream Deck +'', m_usbVendorId = 0x0fd9, m_usbProductIds = [PLUS_PID],
       m_usagePage = None, m_usage = None, m_keyCount = 8, m_columns = 4, m_rows = 2,
       m_keyWidth = 120, m_keyHeight = 120, m_encoderCount = Some 4, m_touchWidth = Some 800,
       m_touchHeight = Some 100, m_image = plain_image Jpeg 120 120, m_wire = plain_wire,
       m_keyMap = no_keymap,
       m_cora = \<lparr> co_productId = PLUS_PID, co_advertiseAs = None, co_usePhysicalIdentity = False,
                  co_childFirmwareVersion = Some ''2.00.026'', co_emulations = [] \<rparr>,
       m_splash = None, m_widgetDisplays = [], m_touchStrip = None, m_sleep = False \<rparr>"

definition as_mk2 :: cora_spec where
  "as_mk2 = \<lparr> co_productId = MK2_PID, co_advertiseAs = Some ''mk2'', co_usePhysicalIdentity = False,
              co_childFirmwareVersion = None, co_emulations = [] \<rparr>"

definition MIRABOX_293_MODEL :: model where
  "MIRABOX_293_MODEL =
     \<lparr> m_id = ''mirabox-293'', m_vendor = ''mirabox'', m_protocol = Mirabox_cora,
       m_name = ''Mirabox 293V3'', m_usbVendorId = 0x6603,
       m_usbProductIds = [0x1005, 0x1006, 0x1010, 0x1014],
       m_usagePage = Some 0xffa0, m_usage = Some 1, m_keyCount = 15, m_columns = 5, m_rows = 3,
       m_keyWidth = 112, m_keyHeight = 112, m_encoderCount = None, m_touchWidth = None,
       m_touchHeight = None,
       m_image = (plain_image Jpeg 112 112)\<lparr>sp_maxBytes := 10240, sp_quality := IMAGE_JPEG_QUALITY,
                    sp_resizeFilter := Some Filter_lanczos3, sp_sharpen := Some (6 / 10),
                    sp_transform := Sidecar\<rparr>,
       m_wire = plain_wire\<lparr>wf_heartbeatMs := Some 8000, wf_synthesizeKeyUp := Some False,
                   wf_sendStpAfterImage := Some True\<rparr>,
       m_keyMap = no_keymap
         \<lparr>coraToWireImage := Some [11, 12, 13, 14, 15, 6, 7, 8, 9, 10, 1, 2, 3, 4, 5],
          inputOffset := Some 1\<rparr>,
       m_cora = as_mk2, m_splash = rotate_splash 180 None, m_widgetDisplays = [],
       m_touchStrip = None, m_sleep = False \<rparr>"

definition MIRABOX_293S_MODEL :: model where
  "MIRABOX_293S_MODEL =
     \<lparr> m_id = ''mirabox-293s'', m_vendor = ''mirabox'', m_protocol = Mirabox_cora_v1,
       m_name = ''Mirabox 293S Stream Deck'', m_usbVendorId = 0x5548, m_usbProductIds = [0x6670],
       m_usagePage = Some 0xffa0, m_usage = Some 1, m_keyCount = 15, m_columns = 5, m_rows = 3,
       m_keyWidth = 85, m_keyHeight = 85, m_encoderCount = None, m_touchWidth = None,
       m_touchHeight = None,
       m_image = (plain_image Jpeg 85 85)\<lparr>sp_rotate := 90, sp_maxBytes := 5120,
                    sp_quality := 7 / 10, sp_resizeMode := Some Mode_pad, sp_padFill := Some Fill_edge,
                    sp_sharpen := Some 0, sp_transform := Sidecar\<rparr>,
       m_wire = plain_wire\<lparr>wf_packetSize := 512, wf_heartbeatMs := Some 8000,
                   wf_synthesizeKeyUp := Some True, wf_sendStpAfterImage := Some False,
                   wf_batchImageTransfers := Some True, wf_sharedSerial := Some True\<rparr>,
       m_keyMap = no_keymap
         \<lparr>coraToWireImage := Some [13, 10, 7, 4, 1, 14, 11, 8, 5, 2, 15, 12, 9, 6, 3],
          wireInputToCora := Some [-1, 4, 9, 14, 3, 8, 13, 2, 7, 12, 1, 6, 11, 0, 5, 10, -1, -1, -1],
          extraKeys := Some [16, 17, 18]\<rparr>,
       m_cora = as_mk2, m_splash = rotate_splash 270 None, m_widgetDisplays = [],
       m_touchStrip = None, m_sleep = False \<rparr>"

definition MIRABOX_K1PRO_MODEL :: model where
  "MIRABOX_K1PRO_MODEL =
     \<lparr> m_id = ''mirabox-k1pro'', m_vendor = ''mirabox'', m_protocol = Mirabox_cora,
       m_name = ''Mirabox K1 Pro'', m_usbVendorId = 0x6603, m_usbProductIds = [0x1015, 0x1019],
       m_usagePage = Some 0xffa0, m_usage = Some 1, m_keyCount = 6, m_columns = 3, m_rows = 2,
       m_keyWidth = 64, m_keyHeight = 64, m_encoderCount = None, m_touchWidth = None,
       m_touchHeight = None,
       m_image = (plain_image Jpeg 64 64)\<lparr>sp_flipH := True, sp_crop := Some 6, sp_maxBytes := 4096,
                    sp_quality := 9 / 10, sp_resizeFilter := Some Filter_lanczos3,
                    sp_transform := Sidecar\<rparr>,
       m_wire = plain_wire\<lparr>wf_heartbeatMs := Some 2000, wf_synthesizeKeyUp := Some False,
                   wf_sendStpAfterImage := Some True, wf_reportId := Some 0x04,
                   wf_chunkPadByte := Some True\<rparr>,
       m_keyMap = no_keymap
         \<lparr>coraToWireImage := Some [5, 3, 1, 6, 4, 2],
          wireInputToCora := Some [-1, 2, 5, 1, 4, 0, 3]\<rparr>,
       m_cora = \<lparr> co_productId = 0x0063, co_advertiseAs = Some ''mini'',
                  co_usePhysicalIdentity = False, co_childFirmwareVersion = None,
                  co_emulations = [] \<rparr>,
       m_splash = rotate_splash 90 (Some False), m_widgetDisplays = [], m_touchStrip = None,
       m_sleep = False \<rparr>"

definition KEY_IMAGE :: image_spec where
  "KEY_IMAGE = (plain_image Jpeg 112 112)\<lparr>sp_maxBytes := 0xffff, sp_quality := IMAGE_JPEG_QUALITY,
     sp_resizeFilter := Some Filter_lanczos3, sp_sharpen := Some (6 / 10), sp_transform := Sidecar\<rparr>"

definition TOUCH_SLOT_IMAGE :: image_spec where
  "TOUCH_SLOT_IMAGE = KEY_IMAGE\<lparr>sp_width := 176, sp_height := 112, sp_rotate := 180,
     sp_maxBytes := 10100, sp_sharpen := Some 0, sp_resizeMode := Some Mode_pad,
     sp_padFill := Some Fill_edge\<rparr>"

definition TOUCH_STRIP_IMAGE :: image_spec where
  "TOUCH_STRIP_IMAGE = TOUCH_SLOT_IMAGE\<lparr>sp_width := 800\<rparr>"

definition STREAM_DECK_PLUS_EMULATION :: emulation where
  "STREAM_DECK_PLUS_EMULATION =
     \<lparr> em_image = KEY_IMAGE\<lparr>sp_rotate := 180\<rparr>,
       em_keyMap = no_keymap
         \<lparr>coraToWireImage := Some [11, 12, 13, 14, 6, 7, 8, 9],
          wireInputToCora := Some [-1, 0, 1, 2, 3, -1, 4, 5, 6, 7, -1],
          extraKeys := Some [15, 10], extraKeyInputs := Some [5, 10]\<rparr> \<rparr>"

definition touch_slot :: "int \<Rightarrow> int \<Rightarrow> widget_display" where
  "touch_slot wire x = \<lparr> wd_wireId = wire, wd_image = TOUCH_SLOT_IMAGE, wd_stripX = Some x \<rparr>"

definition AJAZZ_AKP05E_MODEL :: model where
  "AJAZZ_AKP05E_MODEL =
     \<lparr> m_id = ''ajazz-akp05e'', m_vendor = ''ajazz'', m_protocol = Ajazz_akp05,
       m_name = ''AJAZZ AKP05E'', m_usbVendorId = 0x0300, m_usbProductIds = [0x3004],
       m_usagePage = Some 0xffa0, m_usage = Some 1, m_keyCount = 10, m_columns = 5, m_rows = 2,
       m_keyWidth = 112, m_keyHeight = 112, m_encoderCount = None, m_touchWidth = None,
       m_touchHeight = None, m_image = em_image STREAM_DECK_PLUS_EMULATION,
       m_wire = plain_wire\<lparr>wf_reportId := Some 0\<rparr>,
       m_keyMap = em_keyMap STREAM_DECK_PLUS_EMULATION,
       m_cora = \<lparr> co_productId = PLUS_PID, co_advertiseAs = Some ''stream-deck-plus'',
                  co_usePhysicalIdentity = False, co_childFirmwareVersion = None,
                  co_emulations = [(''stream-deck-plus'', STREAM_DECK_PLUS_EMULATION)] \<rparr>,
       m_splash = rotate_splash 180 None,
       m_widgetDisplays = [touch_slot 1 0, touch_slot 2 204, touch_slot 3 406, touch_slot 4 610],
       m_touchStrip = Some \<lparr> sd_wireId = 1, sd_image = TOUCH_STRIP_IMAGE \<rparr>, m_sleep = False \<rparr>"

definition AJAZZ_AKP05_MODEL :: model where
  "AJAZZ_AKP05_MODEL = AJAZZ_AKP05E_MODEL\<lparr>m_id := ''ajazz-akp05'', m_name := ''AJAZZ AKP05'',
     m_usbProductIds := [0x3006]\<rparr>"

definition AKP153_REV2_BASE :: model where
  "AKP153_REV2_BASE = MIRABOX_293_MODEL\<lparr>m_vendor := ''ajazz'', m_usbVendorId := 0x0300\<rparr>"

definition AJAZZ_AKP153E_REV2_MODEL :: model where
  "AJAZZ_AKP153E_REV2_MODEL = AKP153_REV2_BASE
     \<lparr>m_id := ''ajazz-akp153e-rev2'', m_name := ''Ajazz AKP153E (rev. 2)'',
      m_usbProductIds := [0x3010], m_keyWidth := 95, m_keyHeight := 95,
      m_image := (m_image AKP153_REV2_BASE)\<lparr>sp_width := 95, sp_height := 95, sp_rotate := 90\<rparr>,
      m_keyMap := no_keymap
        \<lparr>coraToWireImage := Some [13, 10, 7, 4, 1, 14, 11, 8, 5, 2, 15, 12, 9, 6, 3],
         wireInputToCora := Some [-1, 4, 9, 14, 3, 8, 13, 2, 7, 12, 1, 6, 11, 0, 5, 10]\<rparr>\<rparr>"

definition AJAZZ_AKP153R_REV2_MODEL :: model where
  "AJAZZ_AKP153R_REV2_MODEL = AKP153_REV2_BASE
     \<lparr>m_id := ''ajazz-akp153r-rev2'', m_name := ''Ajazz AKP153R (rev. 2)'',
      m_usbProductIds := [0x3011]\<rparr>"

definition FIFINE_D6_BASE :: model where
  "FIFINE_D6_BASE = MIRABOX_293_MODEL\<lparr>m_vendor := ''fifine'', m_usbVendorId := 0x3142\<rparr>"

definition D6_WIRE_COMMON :: wire_facts where
  "D6_WIRE_COMMON = plain_wire\<lparr>wf_inSize := 512, wf_heartbeatMs := Some 8000,
     wf_synthesizeKeyUp := Some False, wf_sendStpAfterImage := Some True,
     wf_packetSizeCandidates := Some [512, 1024]\<rparr>"

definition FIFINE_D6_MODEL :: model where
  "FIFINE_D6_MODEL = FIFINE_D6_BASE
     \<lparr>m_id := ''fifine-d6'', m_name := ''Fifine AmpliGame D6'', m_usbProductIds := [0x0007],
      m_wire := D6_WIRE_COMMON\<lparr>wf_packetSize := 512\<rparr>\<rparr>"

definition FIFINE_D6_REV2_MODEL :: model where
  "FIFINE_D6_REV2_MODEL = FIFINE_D6_BASE
     \<lparr>m_id := ''fifine-d6-rev2'', m_name := ''Fifine AmpliGame D6 (rev. 2)'',
      m_usbProductIds := [0x0060], m_wire := D6_WIRE_COMMON\<lparr>wf_packetSize := 1024\<rparr>\<rparr>"

definition UPHERE_293V3_MODEL :: model where
  "UPHERE_293V3_MODEL = MIRABOX_293_MODEL
     \<lparr>m_id := ''uphere-293v3'', m_vendor := ''uphere'', m_name := ''upHere 293V3'',
      m_usbVendorId := 0x1200, m_usbProductIds := [0x2012]\<rparr>"

text \<open>A rebadge: id, name, vendor, vendor id, product id.\<close>

type_synonym clone_spec = "string \<times> string \<times> string \<times> nat \<times> nat"

fun clone_of :: "model \<Rightarrow> clone_spec \<Rightarrow> model" where
  "clone_of m (ident, name, vendor, vid, pid) =
     m\<lparr>m_id := ident, m_name := name, m_vendor := vendor, m_usbVendorId := vid,
       m_usbProductIds := [pid]\<rparr>"

definition AKP05_CLONE_MODELS :: "model list" where
  "AKP05_CLONE_MODELS = map (clone_of AJAZZ_AKP05E_MODEL)
     [ (''redragon-ss552'', ''Redragon SS552'', ''redragon'', 0x0200, 0x3001),
       (''mirabox-n4'', ''Mirabox N4'', ''mirabox'', 0x6602, 0x1001),
       (''mirabox-n4e'', ''Mirabox N4E'', ''mirabox'', 0x6603, 0x1007),
       (''mirabox-n4-pro'', ''Mirabox N4 Pro'', ''mirabox'', 0x5548, 0x1008),
       (''mirabox-n4-pro-e'', ''Mirabox N4 Pro E'', ''mirabox'', 0x5548, 0x1021),
       (''vsdinside-n4'', ''VSDinside N4'', ''vsdinside'', 0x5548, 0x1004),
       (''vsdinside-n4-pro'', ''VSDinside N4 Pro'', ''vsdinside'', 0x5548, 0x1023),
       (''mars-msd-pro'', ''Mars Gaming MSD-PRO'', ''mars-gaming'', 0x0b00, 0x1003),
       (''soomfon-cn003'', ''Soomfon CN003'', ''soomfon'', 0x1500, 0x3002),
       (''streonor-s10-pro'', ''Streonor S10 Pro'', ''streonor'', 0x1500, 0x3007),
       (''ajazz-akp05e-pro'', ''AJAZZ AKP05E Pro'', ''ajazz'', 0x0300, 0x3013),
       (''ajazz-akp05cn-pro'', ''AJAZZ AKP05CN Pro'', ''ajazz'', 0x0300, 0x3014) ]"

definition V1_CLONE_BASE :: model where
  "V1_CLONE_BASE = MIRABOX_293S_MODEL
     \<lparr>m_wire := (m_wire MIRABOX_293S_MODEL)\<lparr>wf_heartbeatMs := Some 8000,
                   wf_synthesizeKeyUp := Some True, wf_batchImageTransfers := Some False\<rparr>\<rparr>"

definition AKP153_V1_CLONE_MODELS :: "model list" where
  "AKP153_V1_CLONE_MODELS = map (clone_of V1_CLONE_BASE)
     [ (''ajazz-akp153'', ''Ajazz AKP153'', ''ajazz'', 0x5548, 0x6674),
       (''ajazz-akp153e'', ''Ajazz AKP153E (rev. 1)'', ''ajazz'', 0x0300, 0x1010),
       (''ajazz-akp153r'', ''Ajazz AKP153R (rev. 1)'', ''ajazz'', 0x0300, 0x1020),
       (''mars-msd-one'', ''Mars Gaming MSD-ONE'', ''mars-gaming'', 0x0b00, 0x1000),
       (''maddog-gk150k'', ''Mad Dog GK150K'', ''mad-dog'', 0x0c00, 0x1000),
       (''risemode-vision-01'', ''Risemode Vision 01'', ''risemode'', 0x0a00, 0x1001),
       (''tmice-stream-controller'', ''TMICE Stream Controller'', ''tmice'', 0x0500, 0x1001) ]"

definition K1PRO_CLONE_MODELS :: "model list" where
  "K1PRO_CLONE_MODELS = map (clone_of MIRABOX_K1PRO_MODEL)
     [ (''mirabox-k1pro-5548'', ''Mirabox K1 Pro (0x5548)'', ''mirabox'', 0x5548, 0x1025) ]"

definition BROWSER_DECK_MK2_MODEL :: model where
  "BROWSER_DECK_MK2_MODEL = MK2_MODEL
     \<lparr>m_id := ''browser-deck-mk2'', m_name := ''Browser deck (MK.2 layout)'', m_usbVendorId := 0,
      m_usbProductIds := [], m_splash := None,
      m_cora := \<lparr> co_productId = 0x0080, co_advertiseAs = Some ''mk2'',
                  co_usePhysicalIdentity = False, co_childFirmwareVersion = None,
                  co_emulations = [] \<rparr>\<rparr>"

section \<open>The registry\<close>

definition DEVICE_MODELS :: "model list" where
  "DEVICE_MODELS =
     [ MK2_MODEL, MINI_MODEL, MIRABOX_293_MODEL, MIRABOX_293S_MODEL, MIRABOX_K1PRO_MODEL,
       AJAZZ_AKP05E_MODEL, AJAZZ_AKP05_MODEL, AJAZZ_AKP153E_REV2_MODEL, AJAZZ_AKP153R_REV2_MODEL,
       FIFINE_D6_MODEL, FIFINE_D6_REV2_MODEL ]
     @ AKP153_V1_CLONE_MODELS @ AKP05_CLONE_MODELS @ K1PRO_CLONE_MODELS @ [ UPHERE_293V3_MODEL ]"

definition CORA_PROFILES :: "model list" where
  "CORA_PROFILES = [STREAM_DECK_PLUS_MODEL]"

text \<open>The lookups, over a catalogue of probed models and one of all models.\<close>

definition findModelById :: "model list \<Rightarrow> string \<Rightarrow> model option" where
  "findModelById every ident = List.find (\<lambda>m. m_id m = ident) every"

definition findModel :: "model list \<Rightarrow> nat \<Rightarrow> nat \<Rightarrow> model option" where
  "findModel models vid pid =
     List.find (\<lambda>m. m_usbVendorId m = vid \<and> pid \<in> set (m_usbProductIds m)) models"

definition modelToChildGeometry :: "model \<Rightarrow> child_geometry" where
  "modelToChildGeometry m =
     \<lparr> rows = m_rows m, columns = m_columns m, keyCount = m_keyCount m, keyWidth = m_keyWidth m,
       keyHeight = m_keyHeight m, productName = m_name m,
       encoderCount = Some (or_default (m_encoderCount m) 0),
       touchWidth = Some (or_default (m_touchWidth m) 0),
       touchHeight = Some (or_default (m_touchHeight m) 0) \<rparr>"

text \<open>The thrown error is None; an empty \<^verbatim>\<open>advertiseAs\<close> counts as absent.\<close>

definition advertisedModel :: "model list \<Rightarrow> model \<Rightarrow> model option" where
  "advertisedModel every m =
     (case co_advertiseAs (m_cora m) of
        None \<Rightarrow> Some m
      | Some ident \<Rightarrow> if ident = '''' then Some m else findModelById every ident)"

definition advertisedGeometry :: "model list \<Rightarrow> model \<Rightarrow> child_geometry option" where
  "advertisedGeometry every m = map_option modelToChildGeometry (advertisedModel every m)"

end
