(* ===== verification/Cora_Dock.thy ===== *)
theory Cora_Dock
  imports Child_Session Primary_Server Device_Catalog
begin

text \<open>
  \<^verbatim>\<open>cora/pairing-watchdog.ts\<close>, \<^verbatim>\<open>main/cora-dock.ts\<close> and the server-facing half of
  \<^verbatim>\<open>main/dock-status.ts\<close>: one dock's pair of servers with the watchdog between them.  The device
  configuration is one object shared by the two servers.  The watchdog listens to events of
  the servers; its listeners touch only the watchdog, so they run after the step that emitted.
\<close>

section \<open>The watchdog\<close>

record watchdog =
  wd_childSince :: nat
  wd_retries :: nat
  wd_timer :: bool
  wd_earlyDrop :: nat
  wd_max :: nat

definition new_watchdog :: watchdog where
  "new_watchdog = \<lparr> wd_childSince = 0, wd_retries = 0, wd_timer = False, wd_earlyDrop = 2000, wd_max = 3 \<rparr>"

definition wd_cancel :: "watchdog \<Rightarrow> watchdog" where
  "wd_cancel w = w\<lparr>wd_timer := False\<rparr>"

definition wd_childUp :: "nat \<Rightarrow> watchdog \<Rightarrow> watchdog" where
  "wd_childUp now w = wd_cancel (w\<lparr>wd_childSince := now\<rparr>)"

definition lasted_long :: "nat \<Rightarrow> watchdog \<Rightarrow> bool" where
  "lasted_long now w \<longleftrightarrow> wd_childSince w + wd_earlyDrop w \<le> now"

definition onChildGone :: "nat \<Rightarrow> bool \<Rightarrow> watchdog \<Rightarrow> watchdog" where
  "onChildGone now primaryHas w =
     (if lasted_long now w then w\<lparr>wd_retries := 0\<rparr>
      else if \<not> primaryHas then w
      else (wd_cancel w)\<lparr>wd_timer := True\<rparr>)"

text \<open>The timer's callback: the new state and whether the primary client is dropped.\<close>

definition wd_recheck :: "bool \<Rightarrow> bool \<Rightarrow> watchdog \<Rightarrow> watchdog \<times> bool" where
  "wd_recheck childHas primaryHas w =
     (if \<not> wd_timer w then (w, False)
      else let w = w\<lparr>wd_timer := False\<rparr> in
        if childHas \<or> \<not> primaryHas then (w, False)
        else if wd_max w \<le> wd_retries w then (w, False)
        else (w\<lparr>wd_retries := wd_retries w + 1\<rparr>, True))"

text \<open>The listeners on the child's events, counting the sessions that lasted.\<close>

fun watch_child :: "nat \<Rightarrow> bool \<Rightarrow> cora_event list \<Rightarrow> watchdog \<Rightarrow> watchdog \<times> nat" where
  "watch_child now has [] w = (w, 0)"
| "watch_child now has (Client_connected a # es) w = watch_child now has es (wd_childUp now w)"
| "watch_child now has (Client_disconnected # es) w =
     (let (w', n) = watch_child now has es (onChildGone now has w)
      in (w', if lasted_long now w then Suc n else n))"
| "watch_child now has (e # es) w = watch_child now has es w"

section \<open>The dock\<close>

datatype dock_event = Of_primary cora_event | Of_child cora_event

record cora_dock =
  cd_primary :: primary_server
  cd_child :: child_server
  cd_watch :: watchdog
  cd_stops :: nat

type_synonym dock_act = "(cora_dock, dock_event) eff"

definition new_dock :: "primary_server \<Rightarrow> child_server \<Rightarrow> cora_dock" where
  "new_dock p c = \<lparr> cd_primary = p, cd_child = c\<lparr>ch_config := pr_config p\<rparr>, cd_watch = new_watchdog,
                    cd_stops = 0 \<rparr>"

definition on_primary :: "primary_act \<Rightarrow> dock_act" where
  "on_primary f d =
     (let (p, es) = f (cd_primary d)
      in (d\<lparr>cd_primary := p, cd_child := (cd_child d)\<lparr>ch_config := pr_config p\<rparr>,
            cd_watch := (if Client_disconnected \<in> set es then wd_cancel (cd_watch d) else cd_watch d)\<rparr>,
          map Of_primary es))"

definition on_child :: "nat \<Rightarrow> child_act \<Rightarrow> dock_act" where
  "on_child now f d =
     (let (c, es) = f (cd_child d)
      in (d\<lparr>cd_child := c,
            cd_watch := fst (watch_child now (hasClient (cd_primary d)) es (cd_watch d))\<rparr>,
          map Of_child es))"

definition recheckPairing :: dock_act where
  "recheckPairing d =
     (let (w, drop) = wd_recheck (hasClient (cd_child d)) (hasClient (cd_primary d)) (cd_watch d);
          d = d\<lparr>cd_watch := w\<rparr>
      in if drop then on_primary dropClient d else (d, []))"

definition dockStop :: "nat \<Rightarrow> dock_act" where
  "dockStop now = acts
     [ \<lambda>d. (d\<lparr>cd_stops := cd_stops d + 1, cd_watch := wd_cancel (cd_watch d)\<rparr>, []),
       on_primary primaryStop, on_child now childStop ]"

section \<open>Advertising a model\<close>

record device_info =
  di_serial :: "string option"
  di_firmware :: "string option"

text \<open>A missing or empty string is false in a condition.\<close>

definition truthy :: "string option \<Rightarrow> bool" where
  "truthy v \<longleftrightarrow> v \<noteq> None \<and> v \<noteq> Some ''''"

definition childFirmwareFor :: "model \<Rightarrow> model \<Rightarrow> device_info option \<Rightarrow> string" where
  "childFirmwareFor m advertised info =
     (let fw = Option.bind info di_firmware
      in if co_usePhysicalIdentity (m_cora m) \<and> truthy fw then the fw
         else or_default (co_childFirmwareVersion (m_cora advertised)) (childFirmwareVersion default_config))"

definition model_config :: "model \<Rightarrow> model \<Rightarrow> device_info option \<Rightarrow> device_config \<Rightarrow> device_config" where
  "model_config m advertised info c =
     (let c = c\<lparr>productId := co_productId (m_cora m),
                childFirmwareVersion := childFirmwareFor m advertised info\<rparr>;
          sn = Option.bind info di_serial
      in if co_usePhysicalIdentity (m_cora m) \<and> truthy sn then c\<lparr>childSerialNumber := the sn\<rparr> else c)"

text \<open>None where the advertised model is unknown, before anything is changed.\<close>

definition applyModelToServers ::
  "model list \<Rightarrow> model \<Rightarrow> device_info option \<Rightarrow> os_answers \<Rightarrow> nat \<Rightarrow> dock_act option" where
  "applyModelToServers every m info os now =
     (case advertisedModel every m of
        None \<Rightarrow> None
      | Some a \<Rightarrow>
          let pid = co_productId (m_cora m); geo = modelToChildGeometry a in
          Some (acts
            [ on_primary (setDeviceConfig (model_config m a info)),
              on_primary (setPrimaryGeometry geo),
              on_primary (restartMdns pid os),
              on_child now (setChildGeometry geo),
              on_primary pushChildCapabilities ]))"

section \<open>Starting with retries\<close>

datatype start_result = Started | Cancelled | Gave_up | Still_trying

text \<open>One attempt as the loop sees it: whether it was cancelled before it, whether both servers
  came up, and whether it was cancelled meanwhile.  The result comes with the number of times
  the pair was stopped again after a failed attempt.\<close>

record attempt =
  at_cancelled :: bool
  at_bound :: bool
  at_cancelledAfter :: bool

fun startWithRetry :: "nat option \<Rightarrow> nat \<Rightarrow> attempt list \<Rightarrow> start_result \<times> nat" where
  "startWithRetry maxAttempts n [] = (Still_trying, 0)"
| "startWithRetry maxAttempts n (a # as) =
     (if at_cancelled a then (Cancelled, 0)
      else if at_bound a then (Started, 0)
      else if at_cancelledAfter a then (Cancelled, 0)
      else if (case maxAttempts of None \<Rightarrow> False | Some m \<Rightarrow> m \<le> n) then (Gave_up, 1)
      else (let (r, k) = startWithRetry maxAttempts (n + 1) as in (r, k + 1)))"

section \<open>The watchdog's bound\<close>

text \<open>What happens to a dock, as far as the watchdog sees it.\<close>

datatype primary_input =
    P_accepted nat string nat
  | P_data reader nat
  | P_closed sock
  | P_tick
  | P_socket_failed sock
  | P_drop
  | P_start
  | P_listening nat os_answers
  | P_failed
  | P_config "device_config"
  | P_rename string os_answers

fun primary_step :: "primary_input \<Rightarrow> primary_act" where
  "primary_step (P_accepted n addr now) = acceptConnection primaryConnected (Inbound n) addr now"
| "primary_step (P_data c now) = onData (primaryHandlePacket now) c now"
| "primary_step (P_closed k) = onClose skip k"
| "primary_step P_tick = keepaliveTick"
| "primary_step (P_socket_failed k) = onSocketError k"
| "primary_step P_drop = dropClient"
| "primary_step P_start = primaryStart"
| "primary_step (P_listening n os) = primaryListening n os"
| "primary_step P_failed = serverError"
| "primary_step (P_config c) = setDeviceConfig (\<lambda>_. c)"
| "primary_step (P_rename name os) = setMdnsServiceName name os"

datatype dock_input =
    Primary_in primary_input
  | Child_in child_input
  | Recheck
  | Stop_dock

fun dock_step :: "dock_input \<Rightarrow> nat \<Rightarrow> dock_act" where
  "dock_step (Primary_in i) now = on_primary (primary_step i)"
| "dock_step (Child_in i) now = on_child now (child_step i)"
| "dock_step Recheck now = recheckPairing"
| "dock_step Stop_dock now = dockStop now"

text \<open>Whether a step makes the watchdog drop the primary's client, and how many child sessions
  that lasted it ends.\<close>

fun drops_at :: "dock_input \<Rightarrow> cora_dock \<Rightarrow> nat" where
  "drops_at Recheck d =
     (if snd (wd_recheck (hasClient (cd_child d)) (hasClient (cd_primary d)) (cd_watch d)) then 1 else 0)"
| "drops_at _ d = 0"

fun lasting_at :: "dock_input \<Rightarrow> nat \<Rightarrow> cora_dock \<Rightarrow> nat" where
  "lasting_at (Child_in i) now d =
     snd (watch_child now (hasClient (cd_primary d)) (snd (child_step i (cd_child d))) (cd_watch d))"
| "lasting_at _ now d = 0"

fun dock_run :: "cora_dock \<Rightarrow> (dock_input \<times> nat) list \<Rightarrow> cora_dock \<times> nat \<times> nat" where
  "dock_run d [] = (d, 0, 0)"
| "dock_run d ((i, now) # is) =
    (let (d', k, n) = dock_run (fst (dock_step i now d)) is
     in (d', drops_at i d + k, lasting_at i now d + n))"

lemma watch_child_facts:
  "wd_max (fst (watch_child now has es w)) = wd_max w
   \<and> (wd_retries (fst (watch_child now has es w)) = wd_retries w
      \<or> wd_retries (fst (watch_child now has es w)) = 0 \<and> 0 < snd (watch_child now has es w))"
  by (induction now has es w rule: watch_child.induct)
    (auto simp: wd_childUp_def wd_cancel_def onChildGone_def split: prod.splits)

lemma recheck_facts:
  assumes "wd_retries w \<le> wd_max w"
  shows "wd_max (fst (wd_recheck c p w)) = wd_max w"
    "wd_retries (fst (wd_recheck c p w)) = wd_retries w + (if snd (wd_recheck c p w) then 1 else 0)"
    "wd_retries (fst (wd_recheck c p w)) \<le> wd_max w"
    "snd (wd_recheck c p w) \<Longrightarrow> p \<and> \<not> c"
  using assms by (auto simp: wd_recheck_def Let_def split: if_splits)

lemma on_primary_watch:
  "wd_max (cd_watch (fst (on_primary f d))) = wd_max (cd_watch d)"
  "wd_retries (cd_watch (fst (on_primary f d))) = wd_retries (cd_watch d)"
  by (simp_all add: on_primary_def wd_cancel_def split: prod.splits)

lemma on_child_watch:
  "cd_watch (fst (on_child now f d)) =
     fst (watch_child now (hasClient (cd_primary d)) (snd (f (cd_child d))) (cd_watch d))"
  by (simp add: on_child_def split: prod.splits)

lemma stop_quiet:
  fixes s :: child_server
  shows "watch_child now has (snd (childStop s)) w = (w, 0)"
proof -
  have "Client_connected a \<notin> set (snd (childStop s)) \<and> Client_disconnected \<notin> set (snd (childStop s))" for a
    by (auto simp: childStop_def stopServer_def rc_stop_events clearKeepalive_def dropAndForget_def
        startError_def skip_def split: option.splits)
  moreover have "watch_child now has es w = (w, 0)"
    if "\<forall>a. Client_connected a \<notin> set es \<and> Client_disconnected \<notin> set es" for es
    using that by (induction now has es w rule: watch_child.induct) auto
  ultimately show ?thesis by blast
qed

lemma dock_step_watch:
  fixes i now d
  assumes "wd_retries (cd_watch d) \<le> wd_max (cd_watch d)"
  defines "d' \<equiv> fst (dock_step i now d)"
  shows "wd_max (cd_watch d') = wd_max (cd_watch d)"
    "wd_retries (cd_watch d') \<le> wd_max (cd_watch d)"
    "wd_retries (cd_watch d') = wd_retries (cd_watch d) + drops_at i d
     \<or> wd_retries (cd_watch d') = 0 \<and> 0 < lasting_at i now d \<and> drops_at i d = 0"
proof -
  have "wd_max (cd_watch d') = wd_max (cd_watch d)
    \<and> wd_retries (cd_watch d') \<le> wd_max (cd_watch d)
    \<and> (wd_retries (cd_watch d') = wd_retries (cd_watch d) + drops_at i d
       \<or> wd_retries (cd_watch d') = 0 \<and> 0 < lasting_at i now d \<and> drops_at i d = 0)"
  proof (cases i)
    case (Primary_in j)
    then show ?thesis using assms(1) by (simp add: d'_def on_primary_watch)
  next
    case (Child_in j)
    then show ?thesis
      using assms(1) watch_child_facts[of now "hasClient (cd_primary d)" "snd (child_step j (cd_child d))" "cd_watch d"]
      by (auto simp: d'_def on_child_watch)
  next
    case Recheck
    have "cd_watch d' = fst (wd_recheck (hasClient (cd_child d)) (hasClient (cd_primary d)) (cd_watch d))
      \<or> cd_watch d' = wd_cancel (fst (wd_recheck (hasClient (cd_child d)) (hasClient (cd_primary d)) (cd_watch d)))"
      by (simp add: d'_def Recheck recheckPairing_def on_primary_def dropClient_def Let_def split: prod.splits)
    then show ?thesis
      using recheck_facts(1-3)[OF assms(1), of "hasClient (cd_child d)" "hasClient (cd_primary d)"]
      by (auto simp: Recheck wd_cancel_def)
  next
    case Stop_dock
    then show ?thesis
      using assms(1) by (simp add: d'_def dockStop_def on_primary_watch on_child_watch stop_quiet wd_cancel_def)
  qed
  then show "wd_max (cd_watch d') = wd_max (cd_watch d)"
    "wd_retries (cd_watch d') \<le> wd_max (cd_watch d)"
    "wd_retries (cd_watch d') = wd_retries (cd_watch d) + drops_at i d
     \<or> wd_retries (cd_watch d') = 0 \<and> 0 < lasting_at i now d \<and> drops_at i d = 0"
    by blast+
qed

lemma dock_run_bound:
  assumes "wd_retries (cd_watch d) \<le> wd_max (cd_watch d)" "dock_run d is = (d', k, n)"
  shows "wd_retries (cd_watch d) + k \<le> wd_max (cd_watch d) * (n + 1)"
  using assms
proof (induction d "is" arbitrary: d' k n rule: dock_run.induct)
  case (2 d i now "is")
  let ?d = "fst (dock_step i now d)"
  obtain d2 k2 n2 where r: "dock_run ?d is = (d2, k2, n2)" by (cases "dock_run ?d is")
  have kn: "k = drops_at i d + k2" "n = lasting_at i now d + n2" using 2(3) r by simp_all
  note w = dock_step_watch[OF 2(2), of i now]
  have ih: "wd_retries (cd_watch ?d) + k2 \<le> wd_max (cd_watch d) * (n2 + 1)"
    using 2(1)[OF _ r] w(1,2) by simp
  from w(3) show ?case
  proof
    assume "wd_retries (cd_watch ?d) = wd_retries (cd_watch d) + drops_at i d"
    then have "wd_retries (cd_watch d) + k \<le> wd_max (cd_watch d) * (n2 + 1)"
      using ih kn by simp
    also have "\<dots> \<le> wd_max (cd_watch d) * (n + 1)" using kn by simp
    finally show ?thesis .
  next
    assume z: "wd_retries (cd_watch ?d) = 0 \<and> 0 < lasting_at i now d \<and> drops_at i d = 0"
    have "wd_retries (cd_watch d) + k \<le> wd_max (cd_watch d) + wd_max (cd_watch d) * (n2 + 1)"
      using 2(2) ih kn z by simp
    also have "\<dots> = wd_max (cd_watch d) * ((n2 + 1) + 1)" by simp
    also have "\<dots> \<le> wd_max (cd_watch d) * (n + 1)"
      by (rule mult_le_mono2) (use z kn in simp)
    finally show ?thesis .
  qed
qed simp


section \<open>What the two servers say\<close>

lemma on_primary_fields [simp]:
  "cd_primary (fst (on_primary f d)) = fst (f (cd_primary d))"
  "cd_child (fst (on_primary f d)) = (cd_child d)\<lparr>ch_config := pr_config (fst (f (cd_primary d)))\<rparr>"
  "snd (on_primary f d) = map Of_primary (snd (f (cd_primary d)))"
  by (simp_all add: on_primary_def split: prod.splits)

lemma on_child_fields [simp]:
  "cd_primary (fst (on_child now f d)) = cd_primary d"
  "cd_child (fst (on_child now f d)) = fst (f (cd_child d))"
  "snd (on_child now f d) = map Of_child (snd (f (cd_child d)))"
  by (simp_all add: on_child_def split: prod.splits)

lemma restart_keeps [simp]:
  "pr_config (fst (restartMdns pid os s)) = pr_config s"
  "pr_geometry (fst (restartMdns pid os s)) = pr_geometry s"
  "pr_childPort (fst (restartMdns pid os s)) = pr_childPort s"
  "cs_client (fst (restartMdns pid os s)) = cs_client s"
  by (auto simp: restartMdns_def rememberAdvertised_def Let_def split: option.splits prod.splits)

text \<open>C21. The two servers of a dock describe the same panel: once a model is applied, the
  capabilities the primary pushes to the app are byte for byte the ones the child server
  answers with, for the geometry and product id of the model that is advertised, and every key of
  the new grid has a state.\<close>

theorem servers_describe_one_panel:
  assumes "applyModelToServers every m info os now = Some f" "advertisedModel every m = Some a"
    and "cs_client (cd_primary d) = Some k" "cs_port (cd_child d) = pr_childPort (cd_primary d)"
  shows "\<exists>es. snd (f d) = es @ [Of_primary (Write k
        (encodeCoraFrame (buildSelfDeviceInfo (cd_child (fst (f d)))) 0 0 0))]
    \<and> ch_geometry (cd_child (fst (f d))) = modelToChildGeometry a
    \<and> productId (ch_config (cd_child (fst (f d)))) = co_productId (m_cora m)
    \<and> childFirmwareVersion (ch_config (cd_child (fst (f d)))) = childFirmwareFor m a info
    \<and> length (ch_keyStates (cd_child (fst (f d)))) = m_keyCount a"
proof -
  let ?p = "fst (restartMdns (co_productId (m_cora m)) os
    ((cd_primary d)\<lparr>pr_config := model_config m a info (pr_config (cd_primary d)),
                    pr_geometry := modelToChildGeometry a\<rparr>))"
  have f: "f = acts
            [ on_primary (setDeviceConfig (model_config m a info)),
              on_primary (setPrimaryGeometry (modelToChildGeometry a)),
              on_primary (restartMdns (co_productId (m_cora m)) os),
              on_child now (setChildGeometry (modelToChildGeometry a)),
              on_primary pushChildCapabilities ]"
    using assms(1,2) by (simp add: applyModelToServers_def Let_def)
  have push: "pushChildCapabilities ?p = (?p, [Write k (encodeCoraFrame
      (buildCapabilitiesPacket (model_config m a info (pr_config (cd_primary d)))
        (pr_childPort (cd_primary d)) (modelToChildGeometry a)) 0 0 0)])"
    using assms(3) by (simp add: pushChildCapabilities_def hasClient_def sendFrame_def
        buildChildDeviceInfo_def)
  have c: "cd_child (fst (f d)) = fst (setChildGeometry (modelToChildGeometry a)
      ((cd_child d)\<lparr>ch_config := model_config m a info (pr_config (cd_primary d))\<rparr>))
      \<lparr>ch_config := model_config m a info (pr_config (cd_primary d))\<rparr>"
    by (simp add: f setDeviceConfig_def setPrimaryGeometry_def push)
  have e: "\<exists>es. snd (f d) = es @ [Of_primary (Write k (encodeCoraFrame
      (buildCapabilitiesPacket (model_config m a info (pr_config (cd_primary d)))
        (pr_childPort (cd_primary d)) (modelToChildGeometry a)) 0 0 0))]"
    by (simp add: f setDeviceConfig_def setPrimaryGeometry_def push setChildGeometry_def)
  have g: "ch_geometry (cd_child (fst (f d))) = modelToChildGeometry a"
    "ch_config (cd_child (fst (f d))) = model_config m a info (pr_config (cd_primary d))"
    "cs_port (cd_child (fst (f d))) = pr_childPort (cd_primary d)"
    "length (ch_keyStates (cd_child (fst (f d)))) = m_keyCount a"
    using assms(4) by (simp_all add: c setChildGeometry_def set_at_def modelToChildGeometry_def subarray_def)
  have "productId (model_config m a info x) = co_productId (m_cora m)"
    "childFirmwareVersion (model_config m a info x) = childFirmwareFor m a info" for x
    by (simp_all add: model_config_def Let_def)
  then show ?thesis using e by (simp add: buildSelfDeviceInfo_def g)
qed

lemma servers_describe_one_panel_witness:
  fixes d
  defines "d \<equiv> new_dock
      ((new_primary_server (modelToChildGeometry MK2_MODEL) 5343 True 5344 ''Dock'' None None)
        \<lparr>cs_client := Some (Inbound 0)\<rparr>)
      (new_child_server (modelToChildGeometry MK2_MODEL) 5344 default_config True)"
  shows "\<exists>f es. applyModelToServers DEVICE_MODELS MINI_MODEL None undefined 0 = Some f
    \<and> snd (f d) = es @ [Of_primary (Write (Inbound 0)
        (encodeCoraFrame (buildSelfDeviceInfo (cd_child (fst (f d)))) 0 0 0))]
    \<and> length (ch_keyStates (cd_child (fst (f d)))) = 6"
proof -
  have a: "advertisedModel DEVICE_MODELS MINI_MODEL = Some MINI_MODEL"
    by (simp add: advertisedModel_def MINI_MODEL_def)
  then obtain f where f: "applyModelToServers DEVICE_MODELS MINI_MODEL None undefined 0 = Some f"
    by (simp add: applyModelToServers_def Let_def)
  have d: "cs_client (cd_primary d) = Some (Inbound 0)"
    "cs_port (cd_child d) = pr_childPort (cd_primary d)"
    by (simp_all add: d_def new_dock_def new_primary_server_def new_child_server_def
        cora_server.extend_def new_server_def)
  show ?thesis
    using servers_describe_one_panel[OF f a d] f by (auto simp: MINI_MODEL_def)
qed

text \<open>The serial of a physical deck stays on the wire once that deck is gone: a model that does
  not forward its own identity replaces the firmware but not the serial.\<close>

lemma physical_serial_sticks:
  assumes "co_usePhysicalIdentity (m_cora m)" "\<not> co_usePhysicalIdentity (m_cora m')"
    "di_serial info = Some sn" "sn \<noteq> ''''"
  shows "childSerialNumber (model_config m' a' info' (model_config m a (Some info) c)) = sn"
  using assms by (simp add: model_config_def truthy_def Let_def)

end
