(* ===== verification/Catalog_Check.thy ===== *)
theory Catalog_Check
  imports Device_Catalog
begin

text \<open>
  \<^verbatim>\<open>devices/validate-model.ts\<close>: the structural checks of the catalogue.  A problem is a value
  where the code pushes a message; the table of protocol strategies is the argument \<open>strat\<close>,
  true of the protocols that have a complete entry.
\<close>

datatype problem =
    Duplicate_id string
  | Bad_usb_id string
  | Usb_overlap string nat nat string
  | No_strategy protocol
  | Model_without_strategy string
  | No_heartbeat string
  | Batching_unsupported string
  | Wrong_key_count string
  | Bad_product_id string
  | Unknown_emulation string string
  | Unresolved_advertise string
  | Advertise_cycle string
  | Foreign_product_id string nat
  | Key_map_length string
  | Key_map_target string int
  | Extra_inputs_length string
  | Extra_input_maps string int
  | Bad_dimension string
  | Bad_max_bytes string
  | Bad_quality string
  | Candidates_lack_size string
  | Bad_vendor string

definition isU16 :: "nat \<Rightarrow> bool" where
  "isU16 n \<longleftrightarrow> n \<le> 0xffff"

text \<open>\<^verbatim>\<open>checkIds\<close> walks the models with the ids seen so far.\<close>

fun checkIds :: "string list \<Rightarrow> model list \<Rightarrow> problem list" where
  "checkIds seen [] = []"
| "checkIds seen (m # ms) =
     (if m_id m \<in> set seen then Duplicate_id (m_id m) # checkIds seen ms
      else checkIds (m_id m # seen) ms)"

definition checkUsbIds :: "model \<Rightarrow> problem list" where
  "checkUsbIds m =
     (if isU16 (m_usbVendorId m) then [] else [Bad_usb_id (m_id m)])
     @ map (\<lambda>_. Bad_usb_id (m_id m)) (filter (\<lambda>p. \<not> isU16 p) (m_usbProductIds m))"

text \<open>\<^verbatim>\<open>checkOverlap\<close>: the owners found so far, by vendor and product id.\<close>

type_synonym owners = "((nat \<times> nat) \<times> string) list"

fun overlapPids :: "model \<Rightarrow> nat list \<Rightarrow> owners \<Rightarrow> owners \<times> problem list" where
  "overlapPids m [] own = (own, [])"
| "overlapPids m (p # ps) own =
     (case map_of own (m_usbVendorId m, p) of
        Some first \<Rightarrow>
          (let (own, es) = overlapPids m ps own
           in (own, Usb_overlap (m_id m) (m_usbVendorId m) p first # es))
      | None \<Rightarrow> overlapPids m ps (((m_usbVendorId m, p), m_id m) # own))"

fun checkOverlap :: "model list \<Rightarrow> owners \<Rightarrow> problem list" where
  "checkOverlap [] own = []"
| "checkOverlap (m # ms) own =
     (let (own, es) = overlapPids m (m_usbProductIds m) own in es @ checkOverlap ms own)"

definition checkStrategyTable :: "(protocol \<Rightarrow> bool) \<Rightarrow> problem list" where
  "checkStrategyTable strat =
     map No_strategy (filter (\<lambda>p. protocol_strategy p \<and> \<not> strat p) PROTOCOLS)"

definition checkExtraKeys :: "string \<Rightarrow> key_map \<Rightarrow> problem list" where
  "checkExtraKeys ident km =
     (case extraKeyInputs km of
        None \<Rightarrow> []
      | Some ins \<Rightarrow>
          (if map_option length (extraKeys km) \<noteq> Some (length ins) then [Extra_inputs_length ident] else [])
          @ (case wireInputToCora km of
               None \<Rightarrow> []
             | Some arr \<Rightarrow> map (Extra_input_maps ident) (filter (\<lambda>c. or_else (js_nth arr c) (- 1) \<noteq> - 1) ins)))"

definition checkKeyMap :: "string \<Rightarrow> key_map \<Rightarrow> nat \<Rightarrow> problem list" where
  "checkKeyMap ident km count =
     (case coraToWireImage km of
        Some arr \<Rightarrow> if length arr \<noteq> count then [Key_map_length ident] else []
      | None \<Rightarrow> [])
     @ map (Key_map_target ident)
         (filter (\<lambda>d. d \<noteq> - 1 \<and> \<not> (0 \<le> d \<and> d < int count)) (or_default (wireInputToCora km) []))
     @ checkExtraKeys ident km"

definition imageSpecs :: "model \<Rightarrow> image_spec list" where
  "imageSpecs m =
     m_image m # map (em_image \<circ> snd) (co_emulations (m_cora m))
     @ map wd_image (m_widgetDisplays m)
     @ (case m_touchStrip m of None \<Rightarrow> [] | Some d \<Rightarrow> [sd_image d])"

definition checkImage :: "string \<Rightarrow> image_spec \<Rightarrow> problem list" where
  "checkImage ident sp =
     (if 0 < sp_width sp then [] else [Bad_dimension ident])
     @ (if 0 < sp_height sp then [] else [Bad_dimension ident])
     @ (if sp_format sp = Jpeg \<and> \<not> (0 < sp_quality sp \<and> sp_quality sp \<le> 1) then [Bad_quality ident] else [])"

definition checkImages :: "model \<Rightarrow> problem list" where
  "checkImages m = List.concat (map (checkImage (m_id m)) (imageSpecs m))"

text \<open>\<^verbatim>\<open>new Map(all.map(...))\<close>: of two models with one id the last is in the map.\<close>

definition by_id :: "model list \<Rightarrow> string \<Rightarrow> model option" where
  "by_id every ident = findModelById (rev every) ident"

text \<open>\<^verbatim>\<open>hasAdvertiseCycle\<close>: every round adds an id of the catalogue to the visited ones.  The models
  followed are all of the catalogue; the test for it is for termination.\<close>

function cycle_from :: "model list \<Rightarrow> string list \<Rightarrow> model option \<Rightarrow> bool" where
  "cycle_from every visited None = False"
| "cycle_from every visited (Some cur) =
     (if m_id cur \<in> set visited then True
      else if m_id cur \<notin> set (map m_id every) then False
      else cycle_from every (m_id cur # visited)
             (by_id every (or_default (co_advertiseAs (m_cora cur)) '''')))"
  by pat_completeness auto
termination
proof (relation "measure (\<lambda>(every, visited, _). length (filter (\<lambda>m. m_id m \<notin> set visited) every))",
    goal_cases)
  case (2 every visited cur)
  then have c: "m_id cur \<in> set (map m_id every)" "m_id cur \<notin> set visited" by auto
  have le: "length (filter (\<lambda>m. m_id m \<notin> set (m_id cur # visited)) ms)
      \<le> length (filter (\<lambda>m. m_id m \<notin> set visited) ms)" for ms :: "model list"
    by (induction ms) auto
  have "length (filter (\<lambda>m. m_id m \<notin> set (m_id cur # visited)) every)
      < length (filter (\<lambda>m. m_id m \<notin> set visited) every)"
    using c
  proof (induction every)
    case (Cons m ms)
    then show ?case using le[of ms] by (cases "m_id m = m_id cur") (auto simp: less_Suc_eq_le)
  qed simp
  then show ?case by simp
qed simp

definition hasAdvertiseCycle :: "model list \<Rightarrow> model \<Rightarrow> bool" where
  "hasAdvertiseCycle every m = cycle_from every [] (Some m)"

definition checkCora :: "model list \<Rightarrow> string list \<Rightarrow> model \<Rightarrow> problem list" where
  "checkCora every profileIds m =
     (let c = m_cora m; pid = co_productId c; ident = m_id m;
          start = (if isU16 pid then [] else [Bad_product_id ident])
            @ map (Unknown_emulation ident) (filter (\<lambda>k. k \<notin> set profileIds) (map fst (co_emulations c)));
          advertised = (case co_advertiseAs c of
              None \<Rightarrow> Some m
            | Some a \<Rightarrow> if a = '''' then Some m else by_id every a)
      in case advertised of
          None \<Rightarrow> start @ [Unresolved_advertise ident]
        | Some a \<Rightarrow>
            (let pids = (if m_id a = m_id m \<and> a = m then m_usbProductIds m else co_productId (m_cora a) # m_usbProductIds a)
             in start
               @ (if hasAdvertiseCycle every m then [Advertise_cycle ident] else [])
               @ (if isU16 pid \<and> pid \<notin> set pids then [Foreign_product_id ident pid] else [])
               @ checkKeyMap ident (m_keyMap m) (m_keyCount a)
               @ List.concat (map (\<lambda>(k, e). case by_id every k of
                      None \<Rightarrow> []
                    | Some profile \<Rightarrow> checkKeyMap ident (em_keyMap e) (m_keyCount profile))
                   (co_emulations c))))"

definition checkWireAndProtocol :: "(protocol \<Rightarrow> bool) \<Rightarrow> model \<Rightarrow> problem list" where
  "checkWireAndProtocol strat m =
     (if protocol_strategy (m_protocol m) \<and> \<not> strat (m_protocol m)
      then [Model_without_strategy (m_id m)] else [])
     @ (if protocol_family (m_protocol m) \<in> {Family_mirabox_v3, Family_mirabox_v1}
           \<and> or_default (wf_heartbeatMs (m_wire m)) 0 \<le> 0 then [No_heartbeat (m_id m)] else [])
     @ (if wf_batchImageTransfers (m_wire m) = Some True
           \<and> W_batchImageTransfers \<notin> set (tunableWireKeys (m_protocol m))
        then [Batching_unsupported (m_id m)] else [])"

text \<open>\<^verbatim>\<open>VENDOR_SLUG\<close>: runs of lower-case letters and digits, joined by single dashes.\<close>

fun slug_run :: "bool \<Rightarrow> string \<Rightarrow> bool" where
  "slug_run inside [] = inside"
| "slug_run inside (c # cs) =
     (if c = CHR ''-'' then inside \<and> slug_run False cs
      else c \<in> set ''abcdefghijklmnopqrstuvwxyz0123456789'' \<and> slug_run True cs)"

definition checkModel :: "model list \<Rightarrow> string list \<Rightarrow> (protocol \<Rightarrow> bool) \<Rightarrow> model \<Rightarrow> problem list" where
  "checkModel every profileIds strat m =
     checkUsbIds m @ checkWireAndProtocol strat m
     @ (if m_keyCount m = m_rows m * m_columns m then [] else [Wrong_key_count (m_id m)])
     @ checkCora every profileIds m @ checkImages m
     @ (case wf_packetSizeCandidates (m_wire m) of
          Some cs \<Rightarrow> if wf_packetSize (m_wire m) \<in> set cs then [] else [Candidates_lack_size (m_id m)]
        | None \<Rightarrow> [])
     @ (if slug_run False (m_vendor m) then [] else [Bad_vendor (m_id m)])"

definition validateCatalog :: "model list \<Rightarrow> model list \<Rightarrow> (protocol \<Rightarrow> bool) \<Rightarrow> problem list" where
  "validateCatalog models profiles strat =
     (let every = models @ profiles
      in checkStrategyTable strat @ checkIds [] every @ checkOverlap models []
         @ List.concat (map (checkModel every (map m_id profiles) strat) every))"

text \<open>The protocols \<^verbatim>\<open>PROTOCOL_STRATEGY\<close> has an entry for.\<close>

definition shipped_strategies :: "protocol \<Rightarrow> bool" where
  "shipped_strategies p \<longleftrightarrow> p = Elgato_gen1 \<or> p = Elgato_gen2"

section \<open>The shipped catalogue\<close>

definition ALL_MODELS :: "model list" where
  "ALL_MODELS = DEVICE_MODELS @ CORA_PROFILES"

lemmas model_defs = MK2_MODEL_def MINI_MODEL_def MIRABOX_293_MODEL_def MIRABOX_293S_MODEL_def
  MIRABOX_K1PRO_MODEL_def AJAZZ_AKP05E_MODEL_def AJAZZ_AKP05_MODEL_def AKP153_REV2_BASE_def
  AJAZZ_AKP153E_REV2_MODEL_def AJAZZ_AKP153R_REV2_MODEL_def FIFINE_D6_BASE_def FIFINE_D6_MODEL_def
  FIFINE_D6_REV2_MODEL_def UPHERE_293V3_MODEL_def V1_CLONE_BASE_def STREAM_DECK_PLUS_MODEL_def

lemmas list_defs = ALL_MODELS_def DEVICE_MODELS_def CORA_PROFILES_def AKP153_V1_CLONE_MODELS_def
  AKP05_CLONE_MODELS_def K1PRO_CLONE_MODELS_def

lemma clone_fields [simp]:
  "m_id (clone_of m (i, n, v, vid, pid)) = i" "m_vendor (clone_of m (i, n, v, vid, pid)) = v"
  "m_usbVendorId (clone_of m (i, n, v, vid, pid)) = vid"
  "m_usbProductIds (clone_of m (i, n, v, vid, pid)) = [pid]"
  "m_protocol (clone_of m (i, n, v, vid, pid)) = m_protocol m"
  "m_keyCount (clone_of m (i, n, v, vid, pid)) = m_keyCount m"
  "m_rows (clone_of m (i, n, v, vid, pid)) = m_rows m"
  "m_columns (clone_of m (i, n, v, vid, pid)) = m_columns m"
  "m_image (clone_of m (i, n, v, vid, pid)) = m_image m"
  "m_wire (clone_of m (i, n, v, vid, pid)) = m_wire m"
  "m_keyMap (clone_of m (i, n, v, vid, pid)) = m_keyMap m"
  "m_cora (clone_of m (i, n, v, vid, pid)) = m_cora m"
  "m_widgetDisplays (clone_of m (i, n, v, vid, pid)) = m_widgetDisplays m"
  "m_touchStrip (clone_of m (i, n, v, vid, pid)) = m_touchStrip m"
  by simp_all

declare clone_of.simps [simp del]

lemma shipped_ids:
  "map m_id ALL_MODELS =
     [''mk2'', ''mini'', ''mirabox-293'', ''mirabox-293s'', ''mirabox-k1pro'', ''ajazz-akp05e'',
      ''ajazz-akp05'', ''ajazz-akp153e-rev2'', ''ajazz-akp153r-rev2'', ''fifine-d6'',
      ''fifine-d6-rev2'', ''ajazz-akp153'', ''ajazz-akp153e'', ''ajazz-akp153r'', ''mars-msd-one'',
      ''maddog-gk150k'', ''risemode-vision-01'', ''tmice-stream-controller'', ''redragon-ss552'',
      ''mirabox-n4'', ''mirabox-n4e'', ''mirabox-n4-pro'', ''mirabox-n4-pro-e'', ''vsdinside-n4'',
      ''vsdinside-n4-pro'', ''mars-msd-pro'', ''soomfon-cn003'', ''streonor-s10-pro'',
      ''ajazz-akp05e-pro'', ''ajazz-akp05cn-pro'', ''mirabox-k1pro-5548'', ''uphere-293v3'',
      ''stream-deck-plus'']"
  by (simp add: list_defs model_defs)

lemma shipped_usb:
  "map (\<lambda>m. (m_usbVendorId m, m_usbProductIds m)) DEVICE_MODELS =
     [(0xfd9, [0x80, 0x6d, 0xa5]), (0xfd9, [0x63, 0x90, 0xb3, 0xb8]),
      (0x6603, [0x1005, 0x1006, 0x1010, 0x1014]), (0x5548, [0x6670]), (0x6603, [0x1015, 0x1019]),
      (0x300, [0x3004]), (0x300, [0x3006]), (0x300, [0x3010]), (0x300, [0x3011]), (0x3142, [7]),
      (0x3142, [0x60]), (0x5548, [0x6674]), (0x300, [0x1010]), (0x300, [0x1020]), (0xb00, [0x1000]),
      (0xc00, [0x1000]), (0xa00, [0x1001]), (0x500, [0x1001]), (0x200, [0x3001]), (0x6602, [0x1001]),
      (0x6603, [0x1007]), (0x5548, [0x1008]), (0x5548, [0x1021]), (0x5548, [0x1004]),
      (0x5548, [0x1023]), (0xb00, [0x1003]), (0x1500, [0x3002]), (0x1500, [0x3007]),
      (0x300, [0x3013]), (0x300, [0x3014]), (0x5548, [0x1025]), (0x1200, [0x2012])]"
  by (simp add: list_defs model_defs)

section \<open>What the checks mean\<close>

lemma checkIds_clean:
  "checkIds seen ms = [] \<longleftrightarrow> distinct (map m_id ms) \<and> set seen \<inter> set (map m_id ms) = {}"
  by (induction seen ms rule: checkIds.induct) auto

lemma overlapPids_clean:
  assumes "overlapPids m ps own = (own', [])"
  shows "distinct (map (Pair (m_usbVendorId m)) ps)
    \<and> fst ` set own \<inter> Pair (m_usbVendorId m) ` set ps = {}
    \<and> fst ` set own' = fst ` set own \<union> Pair (m_usbVendorId m) ` set ps"
  using assms
proof (induction m ps own rule: overlapPids.induct)
  case (2 m p ps own)
  show ?case
  proof (cases "map_of own (m_usbVendorId m, p)")
    case None
    then have "(m_usbVendorId m, p) \<notin> fst ` set own" by (simp add: map_of_eq_None_iff)
    moreover have "overlapPids m ps (((m_usbVendorId m, p), m_id m) # own) = (own', [])"
      using 2(3) None by simp
    note ih = 2(1)[OF None this]
    ultimately show ?thesis using ih by auto
  next
    case (Some f)
    then show ?thesis using 2(3) by (simp split: prod.splits)
  qed
qed simp

abbreviation usb_pairs :: "model \<Rightarrow> (nat \<times> nat) list" where
  "usb_pairs m \<equiv> map (Pair (m_usbVendorId m)) (m_usbProductIds m)"

lemma checkOverlap_clean:
  assumes "checkOverlap ms own = []"
  shows "distinct (List.concat (map usb_pairs ms))
    \<and> fst ` set own \<inter> set (List.concat (map usb_pairs ms)) = {}"
  using assms
proof (induction ms own rule: checkOverlap.induct)
  case (2 m ms own)
  obtain own' es where o: "overlapPids m (m_usbProductIds m) own = (own', es)" by fastforce
  then have e: "es = []" "checkOverlap ms own' = []" using 2(2) by simp_all
  have "distinct (List.concat (map usb_pairs ms))
      \<and> fst ` set own' \<inter> set (List.concat (map usb_pairs ms)) = {}"
    by (rule "2.IH"[OF o[symmetric] _ e(2)]) simp
  then show ?case using overlapPids_clean[OF o[unfolded e(1)]] by auto
qed simp

lemma find_model_by_id:
  assumes "distinct (map m_id ms)" "m \<in> set ms"
  shows "findModelById ms (m_id m) = Some m" "by_id ms (m_id m) = Some m"
proof -
  have f: "findModelById ms (m_id m) = Some m" if "distinct (map m_id ms)" "m \<in> set ms" for ms
    using that by (induction ms) (auto simp: findModelById_def)
  show "findModelById ms (m_id m) = Some m" by (rule f[OF assms])
  show "by_id ms (m_id m) = Some m"
    unfolding by_id_def by (rule f) (use assms in \<open>simp_all add: rev_map[symmetric]\<close>)
qed

lemma find_model_facts:
  assumes "findModelById ms i = Some m"
  shows "m \<in> set ms" "m_id m = i"
  using assms by (auto simp: findModelById_def find_Some_iff)

lemma find_usb:
  assumes "distinct (List.concat (map usb_pairs ms))" "m \<in> set ms" "p \<in> set (m_usbProductIds m)"
  shows "findModel ms (m_usbVendorId m) p = Some m"
  using assms
proof (induction ms)
  case (Cons n ns)
  show ?case
  proof (cases "n = m")
    case False
    then have "m \<in> set ns" using Cons.prems(2) by simp
    then have "(m_usbVendorId m, p) \<in> set (List.concat (map usb_pairs ns))" using Cons.prems(3) by auto
    then have "(m_usbVendorId m, p) \<notin> set (usb_pairs n)" using Cons.prems(1) by auto
    then show ?thesis using Cons \<open>m \<in> set ns\<close> by (auto simp: findModel_def)
  qed (use Cons.prems in \<open>simp add: findModel_def\<close>)
qed simp

section \<open>The shipped catalogue is clean\<close>

lemma shipped_distinct: "distinct (map m_id ALL_MODELS)"
  unfolding shipped_ids by simp

lemma overlap_clean_if:
  assumes "distinct (map (Pair (m_usbVendorId m)) ps)"
    "fst ` set own \<inter> Pair (m_usbVendorId m) ` set ps = {}"
  shows "\<exists>own'. overlapPids m ps own = (own', [])
    \<and> fst ` set own' = fst ` set own \<union> Pair (m_usbVendorId m) ` set ps"
  using assms
proof (induction m ps own rule: overlapPids.induct)
  case (2 m p ps own)
  have n: "map_of own (m_usbVendorId m, p) = None" using 2(4) by (auto simp: map_of_eq_None_iff)
  have "distinct (map (Pair (m_usbVendorId m)) ps)"
    "fst ` set (((m_usbVendorId m, p), m_id m) # own) \<inter> Pair (m_usbVendorId m) ` set ps = {}"
    using 2(3,4) by auto
  then obtain own' where "overlapPids m ps (((m_usbVendorId m, p), m_id m) # own) = (own', [])"
    "fst ` set own' = fst ` set (((m_usbVendorId m, p), m_id m) # own) \<union> Pair (m_usbVendorId m) ` set ps"
    using 2(1)[OF n] by blast
  then show ?case using n by auto
qed simp

lemma checkOverlap_clean_if:
  assumes "distinct (List.concat (map usb_pairs ms))"
    "fst ` set own \<inter> set (List.concat (map usb_pairs ms)) = {}"
  shows "checkOverlap ms own = []"
  using assms
proof (induction ms arbitrary: own)
  case (Cons m ms)
  obtain own' where "overlapPids m (m_usbProductIds m) own = (own', [])"
    "fst ` set own' = fst ` set own \<union> Pair (m_usbVendorId m) ` set (m_usbProductIds m)"
    using overlap_clean_if[of m "m_usbProductIds m" own] Cons.prems by (auto simp: Int_Un_distrib)
  then show ?case using Cons.IH[of own'] Cons.prems by (auto simp: Int_Un_distrib Int_Un_distrib2)
qed simp

lemma shipped_no_overlap: "checkOverlap DEVICE_MODELS [] = []"
proof (rule checkOverlap_clean_if)
  have "map usb_pairs DEVICE_MODELS
      = map (\<lambda>(v, ps). map (Pair v) ps) (map (\<lambda>m. (m_usbVendorId m, m_usbProductIds m)) DEVICE_MODELS)"
    by simp
  then show "distinct (List.concat (map usb_pairs DEVICE_MODELS))"
    unfolding shipped_usb by simp
qed simp

lemma cycle_step:
  assumes "m \<in> set every" "m_id m \<notin> set visited"
  shows "cycle_from every visited (Some m) =
    cycle_from every (m_id m # visited) (by_id every (or_default (co_advertiseAs (m_cora m)) ''''))"
  using assms by auto

declare cycle_from.simps(2) [simp del]

lemma no_cycle:
  assumes "m \<in> set every" "by_id every '''' = None"
    "co_advertiseAs (m_cora m) = None
     \<or> (\<exists>a t. co_advertiseAs (m_cora m) = Some a \<and> by_id every a = Some t
          \<and> co_advertiseAs (m_cora t) = None \<and> m_id t \<noteq> m_id m)"
  shows "\<not> hasAdvertiseCycle every m"
proof -
  have "t \<in> set every" if "by_id every a = Some t" for a t
    using find_model_facts(1)[of "rev every"] that by (auto simp: by_id_def)
  then show ?thesis using assms by (auto simp: hasAdvertiseCycle_def cycle_step)
qed

lemma shipped_lookups:
  "by_id ALL_MODELS ''mk2'' = Some MK2_MODEL" "by_id ALL_MODELS ''mini'' = Some MINI_MODEL"
  "by_id ALL_MODELS ''stream-deck-plus'' = Some STREAM_DECK_PLUS_MODEL"
  "by_id ALL_MODELS '''' = None"
proof -
  have "MK2_MODEL \<in> set ALL_MODELS" "MINI_MODEL \<in> set ALL_MODELS"
    "STREAM_DECK_PLUS_MODEL \<in> set ALL_MODELS"
    by (simp_all add: list_defs)
  from this[THEN find_model_by_id(2)[OF shipped_distinct]]
  show "by_id ALL_MODELS ''mk2'' = Some MK2_MODEL" "by_id ALL_MODELS ''mini'' = Some MINI_MODEL"
    "by_id ALL_MODELS ''stream-deck-plus'' = Some STREAM_DECK_PLUS_MODEL"
    by (simp_all add: MK2_MODEL_def MINI_MODEL_def STREAM_DECK_PLUS_MODEL_def)
  have "'''' \<notin> set (map m_id ALL_MODELS)" unfolding shipped_ids by simp
  then show "by_id ALL_MODELS '''' = None"
    unfolding by_id_def findModelById_def find_None_iff by (simp) (metis image_eqI)
qed

lemmas check_defs = checkModel_def checkUsbIds_def checkWireAndProtocol_def checkCora_def Let_def
  checkImages_def imageSpecs_def checkImage_def checkKeyMap_def checkExtraKeys_def isU16_def
  shipped_strategies_def no_keymap_def plain_image_def plain_wire_def as_mk2_def
  STREAM_DECK_PLUS_EMULATION_def KEY_IMAGE_def TOUCH_SLOT_IMAGE_def TOUCH_STRIP_IMAGE_def
  touch_slot_def IMAGE_JPEG_QUALITY_def D6_WIRE_COMMON_def js_nth_def or_else_def MIRABOX_WIRE_KEYS_def

lemma shipped_advertise:
  "list_all (\<lambda>m. co_advertiseAs (m_cora m) = None
     \<or> co_advertiseAs (m_cora m) \<in> {Some ''mk2'', Some ''mini'', Some ''stream-deck-plus''}
       \<and> m_id m \<notin> {''mk2'', ''mini'', ''stream-deck-plus''}) ALL_MODELS"
  by (simp add: list_defs model_defs as_mk2_def)

lemma target_facts:
  "co_advertiseAs (m_cora MK2_MODEL) = None" "m_id MK2_MODEL = ''mk2''"
  "co_advertiseAs (m_cora MINI_MODEL) = None" "m_id MINI_MODEL = ''mini''"
  "co_advertiseAs (m_cora STREAM_DECK_PLUS_MODEL) = None"
  "m_id STREAM_DECK_PLUS_MODEL = ''stream-deck-plus''"
  by (simp_all add: MK2_MODEL_def MINI_MODEL_def STREAM_DECK_PLUS_MODEL_def)

lemma shipped_no_cycles: "m \<in> set ALL_MODELS \<Longrightarrow> \<not> hasAdvertiseCycle ALL_MODELS m"
proof (rule no_cycle)
  assume "m \<in> set ALL_MODELS"
  then show "co_advertiseAs (m_cora m) = None
     \<or> (\<exists>a t. co_advertiseAs (m_cora m) = Some a \<and> by_id ALL_MODELS a = Some t
          \<and> co_advertiseAs (m_cora t) = None \<and> m_id t \<noteq> m_id m)"
    using shipped_advertise unfolding list_all_iff
    by (auto simp: shipped_lookups target_facts dest!: bspec)
qed (simp_all add: shipped_lookups)

abbreviation clean :: "model \<Rightarrow> bool" where
  "clean m \<equiv> checkModel ALL_MODELS [''stream-deck-plus''] shipped_strategies m = []"

lemma target_ids:
  "m_keyCount MK2_MODEL = 15" "m_keyCount MINI_MODEL = 6" "m_keyCount STREAM_DECK_PLUS_MODEL = 8"
  "co_productId (m_cora MK2_MODEL) = 0x80" "m_usbProductIds MK2_MODEL = [0x80, 0x6d, 0xa5]"
  "co_productId (m_cora MINI_MODEL) = 0x63"
  "co_productId (m_cora STREAM_DECK_PLUS_MODEL) = 0x84"
  by (simp_all add: MK2_MODEL_def MINI_MODEL_def STREAM_DECK_PLUS_MODEL_def)

lemmas target_simps = shipped_lookups target_facts target_ids

lemma target_fields:
  "m_keyCount MK2_MODEL = 15" "m_keyCount MINI_MODEL = 6" "m_keyCount STREAM_DECK_PLUS_MODEL = 8"
  "co_productId (m_cora MK2_MODEL) = 0x80" "m_usbProductIds MK2_MODEL = [0x80, 0x6d, 0xa5]"
  "co_productId (m_cora MINI_MODEL) = 0x63"
  "co_productId (m_cora STREAM_DECK_PLUS_MODEL) = 0x84"
  by (simp_all add: MK2_MODEL_def MINI_MODEL_def STREAM_DECK_PLUS_MODEL_def)

text \<open>The checks of a model without the cycle test, as conditions.\<close>

definition image_ok :: "image_spec \<Rightarrow> bool" where
  "image_ok sp \<longleftrightarrow> 0 < sp_width sp \<and> 0 < sp_height sp
     \<and> (sp_format sp = Jpeg \<longrightarrow> 0 < sp_quality sp \<and> sp_quality sp \<le> 1)"

definition advertised_of :: "model list \<Rightarrow> model \<Rightarrow> model option" where
  "advertised_of every m =
     (case co_advertiseAs (m_cora m) of
        None \<Rightarrow> Some m
      | Some a \<Rightarrow> if a = '''' then Some m else by_id every a)"

definition cora_ok :: "model list \<Rightarrow> string list \<Rightarrow> model \<Rightarrow> bool" where
  "cora_ok every profileIds m \<longleftrightarrow>
     isU16 (co_productId (m_cora m))
     \<and> list_all (\<lambda>(k, e). k \<in> set profileIds) (co_emulations (m_cora m))
     \<and> (case advertised_of every m of
          None \<Rightarrow> False
        | Some a \<Rightarrow>
            co_productId (m_cora m) \<in>
              set (if m_id a = m_id m \<and> a = m then m_usbProductIds m
                   else co_productId (m_cora a) # m_usbProductIds a)
            \<and> checkKeyMap (m_id m) (m_keyMap m) (m_keyCount a) = []
            \<and> list_all (\<lambda>(k, e). case by_id every k of
                   None \<Rightarrow> True
                 | Some profile \<Rightarrow> checkKeyMap (m_id m) (em_keyMap e) (m_keyCount profile) = [])
                (co_emulations (m_cora m)))"

lemma checkImages_clean: "checkImages m = [] \<longleftrightarrow> list_all image_ok (imageSpecs m)"
  by (auto simp: checkImages_def checkImage_def image_ok_def list_all_iff)

lemma checkCora_clean:
  "checkCora every ids m = [] \<longleftrightarrow> \<not> hasAdvertiseCycle every m \<and> cora_ok every ids m"
proof (cases "advertised_of every m")
  case None
  then show ?thesis by (simp add: checkCora_def cora_ok_def Let_def advertised_of_def)
next
  case (Some a)
  have l: "(\<forall>x\<in>set es. f x = []) \<longleftrightarrow> list_all (\<lambda>x. f x = []) es" for es and f :: "string \<times> emulation \<Rightarrow> problem list"
    by (simp add: list_all_iff)
  show ?thesis using Some
    by (auto simp: checkCora_def cora_ok_def Let_def advertised_of_def list_all_iff filter_empty_conv
        split: option.splits if_splits)
qed

lemma checkModel_clean:
  "checkModel every ids strat m = [] \<longleftrightarrow>
     checkUsbIds m = [] \<and> checkWireAndProtocol strat m = [] \<and> m_keyCount m = m_rows m * m_columns m
     \<and> \<not> hasAdvertiseCycle every m \<and> cora_ok every ids m \<and> list_all image_ok (imageSpecs m)
     \<and> (case wf_packetSizeCandidates (m_wire m) of
          Some cs \<Rightarrow> wf_packetSize (m_wire m) \<in> set cs | None \<Rightarrow> True)
     \<and> slug_run False (m_vendor m)"
  by (simp add: checkModel_def checkCora_clean checkImages_clean split: option.splits)

lemma shipped_parts:
  "list_all (\<lambda>m. checkUsbIds m = []) ALL_MODELS"
  "list_all (\<lambda>m. m_keyCount m = m_rows m * m_columns m) ALL_MODELS"
  "list_all (\<lambda>m. slug_run False (m_vendor m)) ALL_MODELS"
  "list_all (\<lambda>m. checkWireAndProtocol shipped_strategies m = []) ALL_MODELS"
  "list_all (\<lambda>m. case wf_packetSizeCandidates (m_wire m) of
      Some cs \<Rightarrow> wf_packetSize (m_wire m) \<in> set cs | None \<Rightarrow> True) ALL_MODELS"
  "list_all (\<lambda>m. list_all image_ok (imageSpecs m)) ALL_MODELS"
  subgoal by (simp add: checkUsbIds_def isU16_def list_defs model_defs)
  subgoal by (simp add: list_defs model_defs)
  subgoal by (simp add: list_defs model_defs)
  subgoal by (simp add: list_defs model_defs checkWireAndProtocol_def shipped_strategies_def)
      (simp add: plain_wire_def D6_WIRE_COMMON_def MIRABOX_WIRE_KEYS_def)
  subgoal by (simp add: list_defs model_defs) (simp add: plain_wire_def D6_WIRE_COMMON_def)
  subgoal by (simp add: list_defs imageSpecs_def model_defs)
      (simp add: as_mk2_def image_ok_def plain_image_def STREAM_DECK_PLUS_EMULATION_def KEY_IMAGE_def
        TOUCH_SLOT_IMAGE_def TOUCH_STRIP_IMAGE_def touch_slot_def IMAGE_JPEG_QUALITY_def)
  done

lemma shipped_cora:
  assumes "by_id every ''mk2'' = Some MK2_MODEL" "by_id every ''mini'' = Some MINI_MODEL"
    "by_id every ''stream-deck-plus'' = Some STREAM_DECK_PLUS_MODEL"
  shows "list_all (cora_ok every [''stream-deck-plus'']) ALL_MODELS"
  by (simp add: list_defs cora_ok_def advertised_of_def isU16_def model_defs assms)
    (simp add: as_mk2_def STREAM_DECK_PLUS_EMULATION_def checkKeyMap_def checkExtraKeys_def
      no_keymap_def js_nth_def or_else_def assms target_facts target_fields)

lemma profile_ids: "map m_id CORA_PROFILES = [''stream-deck-plus'']"
  by (simp add: CORA_PROFILES_def STREAM_DECK_PLUS_MODEL_def)

lemma shipped_clean: "validateCatalog DEVICE_MODELS CORA_PROFILES shipped_strategies = []"
proof -
  have "checkModel ALL_MODELS [''stream-deck-plus''] shipped_strategies m = []"
    if "m \<in> set ALL_MODELS" for m
    using that shipped_parts shipped_cora[of ALL_MODELS] shipped_no_cycles[OF that] shipped_lookups
    unfolding list_all_iff checkModel_clean by blast
  then have "List.concat (map (checkModel ALL_MODELS [''stream-deck-plus''] shipped_strategies) ALL_MODELS) = []"
    by simp
  moreover have "checkIds [] ALL_MODELS = []"
    using shipped_distinct by (simp add: checkIds_clean)
  moreover have "checkStrategyTable shipped_strategies = []"
    by (simp add: checkStrategyTable_def shipped_strategies_def PROTOCOLS_def)
  ultimately show ?thesis
    by (simp add: validateCatalog_def profile_ids ALL_MODELS_def[symmetric] shipped_no_overlap)
qed

end
