(* ===== verification/Catalog_Facts.thy ===== *)
theory Catalog_Facts
  imports Catalog_Check
begin

text \<open>
  The properties of the catalogue: what a clean verdict of the checks guarantees to the code that
  looks models up, and that on every shipped model each key of the advertised grid is drawn and
  pressed as itself.
\<close>

section \<open>What a clean verdict guarantees\<close>

lemma clean_parts:
  assumes "validateCatalog models profiles strat = []"
  shows "distinct (map m_id (models @ profiles))"
    "distinct (List.concat (map usb_pairs models))"
    "m \<in> set (models @ profiles) \<Longrightarrow>
       checkModel (models @ profiles) (map m_id profiles) strat m = []"
proof -
  have p: "checkIds [] (models @ profiles) = []" "checkOverlap models [] = []"
    "List.concat (map (checkModel (models @ profiles) (map m_id profiles) strat) (models @ profiles)) = []"
    using assms unfolding validateCatalog_def Let_def by simp_all
  show "distinct (map m_id (models @ profiles))" using p(1) by (simp only: checkIds_clean)
  show "distinct (List.concat (map usb_pairs models))" using checkOverlap_clean[OF p(2)] by blast
  show "m \<in> set (models @ profiles) \<Longrightarrow>
       checkModel (models @ profiles) (map m_id profiles) strat m = []"
    using p(3) by (metis concat_eq_Nil_conv image_eqI list.set_map)
qed

lemma by_id_first:
  assumes "distinct (map m_id every)"
  shows "by_id every i = findModelById every i"
proof (cases "findModelById every i")
  case None
  then have n: "\<forall>m \<in> set every. m_id m \<noteq> i" by (simp add: findModelById_def find_None_iff)
  have "by_id every i = None" using n by (simp add: by_id_def findModelById_def find_None_iff)
  then show ?thesis using None by simp
next
  case (Some m)
  then have "m \<in> set every" "m_id m = i" by (rule find_model_facts)+
  then show ?thesis using find_model_by_id(2)[OF assms] Some by auto
qed

lemma advertised_of_eq:
  "distinct (map m_id every) \<Longrightarrow> advertised_of every m = advertisedModel every m"
  by (simp add: advertised_of_def advertisedModel_def by_id_first split: option.splits)

lemma key_map_clean:
  assumes "checkKeyMap ident km n = []"
  shows "coraToWireImage km = Some arr \<Longrightarrow> length arr = n"
    "wireInputToCora km = Some brr \<Longrightarrow>
       deviceInputToMk2Index c km = -1 \<or> 0 \<le> deviceInputToMk2Index c km \<and> deviceInputToMk2Index c km < int n"
    "extraKeyInputs km = Some ins \<Longrightarrow> wireInputToCora km = Some brr \<Longrightarrow> c \<in> set ins \<Longrightarrow>
       deviceInputToMk2Index c km = -1"
proof -
  show "coraToWireImage km = Some arr \<Longrightarrow> length arr = n"
    using assms by (auto simp: checkKeyMap_def split: if_splits)
  show "wireInputToCora km = Some brr \<Longrightarrow>
       deviceInputToMk2Index c km = -1 \<or> 0 \<le> deviceInputToMk2Index c km \<and> deviceInputToMk2Index c km < int n"
  proof -
    assume b: "wireInputToCora km = Some brr"
    then have "\<forall>d \<in> set brr. d = -1 \<or> 0 \<le> d \<and> d < int n"
      using assms by (auto simp: checkKeyMap_def filter_empty_conv)
    moreover have "brr ! nat c \<in> set brr" if "0 \<le> c" "c < int (length brr)"
      using that by (intro nth_mem) simp
    ultimately show ?thesis
      using b by (auto simp: deviceInputToMk2Index_def js_nth_def or_else_def)
  qed
  show "extraKeyInputs km = Some ins \<Longrightarrow> wireInputToCora km = Some brr \<Longrightarrow> c \<in> set ins \<Longrightarrow>
       deviceInputToMk2Index c km = -1"
    using assms by (auto simp: checkKeyMap_def checkExtraKeys_def filter_empty_conv
        deviceInputToMk2Index_def split: if_splits)
qed

text \<open>C22. A catalogue the checks accept is one the program can use: every product id of a probed
  model finds that model and no other, every id finds its own model, the advertised model of
  every model resolves without a cycle, its image map covers exactly the advertised grid, every
  input code the map lists is a key of that grid or unused, and the switch of an extra key
  never presses a key of the grid.\<close>

theorem clean_catalog_usable:
  assumes "validateCatalog models profiles strat = []" "m \<in> set (models @ profiles)"
  shows "(m \<in> set models \<longrightarrow> p \<in> set (m_usbProductIds m) \<longrightarrow> findModel models (m_usbVendorId m) p = Some m)
    \<and> findModelById (models @ profiles) (m_id m) = Some m
    \<and> (\<exists>a. advertisedModel (models @ profiles) m = Some a
        \<and> (\<forall>arr. coraToWireImage (m_keyMap m) = Some arr \<longrightarrow> length arr = m_keyCount a)
        \<and> (wireInputToCora (m_keyMap m) \<noteq> None \<longrightarrow>
             deviceInputToMk2Index c (m_keyMap m) = -1
             \<or> 0 \<le> deviceInputToMk2Index c (m_keyMap m)
               \<and> deviceInputToMk2Index c (m_keyMap m) < int (m_keyCount a))
        \<and> (\<forall>ins. extraKeyInputs (m_keyMap m) = Some ins \<longrightarrow> wireInputToCora (m_keyMap m) \<noteq> None \<longrightarrow>
             c \<in> set ins \<longrightarrow> deviceInputToMk2Index c (m_keyMap m) = -1))
    \<and> \<not> hasAdvertiseCycle (models @ profiles) m"
proof -
  let ?all = "models @ profiles"
  note d = clean_parts[OF assms(1)]
  have c: "\<not> hasAdvertiseCycle ?all m" "cora_ok ?all (map m_id profiles) m"
    using d(3)[OF assms(2)] by (simp_all add: checkModel_clean)
  from c(2) obtain a where a: "advertised_of ?all m = Some a"
    "checkKeyMap (m_id m) (m_keyMap m) (m_keyCount a) = []"
    by (auto simp: cora_ok_def split: option.splits)
  have u: "m \<in> set models \<Longrightarrow> p \<in> set (m_usbProductIds m) \<Longrightarrow> findModel models (m_usbVendorId m) p = Some m"
    using find_usb[OF d(2)] by blast
  have "advertisedModel ?all m = Some a" using a(1) advertised_of_eq[OF d(1)] by metis
  then show ?thesis
    using u find_model_by_id(1)[OF d(1) assms(2)] c(1) key_map_clean[OF a(2)] by blast
qed

lemma clean_catalog_usable_witness:
  "findModel DEVICE_MODELS 0x6603 0x1019 = Some MIRABOX_K1PRO_MODEL"
proof -
  have "MIRABOX_K1PRO_MODEL \<in> set DEVICE_MODELS" by (simp add: DEVICE_MODELS_def)
  then show ?thesis
    using clean_catalog_usable[OF shipped_clean, of MIRABOX_K1PRO_MODEL "0x1019"]
    by (simp add: MIRABOX_K1PRO_MODEL_def)
qed

section \<open>Keys of the shipped models\<close>

text \<open>An executable check of a key map against a grid of \<open>n\<close> keys.\<close>

definition inputs_ok :: "key_map \<Rightarrow> nat \<Rightarrow> bool" where
  "inputs_ok km n \<longleftrightarrow>
     (case wireInputToCora km of
        None \<Rightarrow> True
      | Some arr \<Rightarrow> distinct (filter (\<lambda>d. d \<noteq> -1) arr) \<and> list_all (\<lambda>i. int i \<in> set arr) [0..<n])"

definition images_ok :: "key_map \<Rightarrow> nat \<Rightarrow> bool" where
  "images_ok km n \<longleftrightarrow>
     (case coraToWireImage km of
        None \<Rightarrow> or_else (imageOffset km) 0 \<ge> 0
      | Some arr \<Rightarrow> distinct arr \<and> length arr = n \<and> list_all (\<lambda>w. 0 \<le> w) arr
          \<and> list_all (\<lambda>w. w \<notin> set arr) (or_default (extraKeys km) []))"

lemma filter_distinct_nth:
  assumes "distinct (filter P xs)" "j < length xs" "k < length xs" "xs ! j = xs ! k" "P (xs ! k)"
  shows "j = k"
  using assms
proof (induction xs arbitrary: j k)
  case (Cons x xs)
  have "xs ! i \<noteq> x" if "i < length xs" "P x" for i
    using Cons.prems(1) nth_mem[OF that(1)] that(2) by auto
  moreover have "distinct (filter P xs)" using Cons.prems(1) by (simp split: if_splits)
  ultimately show ?case using Cons.IH Cons.prems(2-) by (cases j; cases k) auto
qed simp

lemma inputs_ok_unique:
  assumes "inputs_ok km n" "i < n"
  shows "\<exists>!c. deviceInputToMk2Index c km = int i"
proof (cases "wireInputToCora km")
  case None
  then show ?thesis
    by (cases "inputOffset km")
      (auto simp: deviceInputToMk2Index_def intro: exI[of _ "int i + k" for k])
next
  case (Some arr)
  then have d: "distinct (filter (\<lambda>d. d \<noteq> -1) arr)" "int i \<in> set arr"
    using assms by (auto simp: inputs_ok_def list_all_iff)
  from d(2) obtain k where k: "k < length arr" "arr ! k = int i" by (auto simp: in_set_conv_nth)
  have inj: "j = k" if "j < length arr" "arr ! j = arr ! k" "arr ! k \<noteq> -1" for j
    by (rule filter_distinct_nth[OF d(1) that(1) k(1) that(2,3)])
  have e: "deviceInputToMk2Index c km = int i \<longleftrightarrow> 0 \<le> c \<and> c < int (length arr) \<and> arr ! nat c = int i" for c
    using Some by (auto simp: deviceInputToMk2Index_def js_nth_def or_else_def)
  show ?thesis
  proof (rule ex1I[of _ "int k"])
    show "deviceInputToMk2Index (int k) km = int i" using k by (simp add: e)
    fix c assume "deviceInputToMk2Index c km = int i"
    then have c: "0 \<le> c" "nat c < length arr" "arr ! nat c = int i" by (simp_all add: e nat_less_iff)
    then have "nat c = k" using inj[of "nat c"] k(2) by simp
    then show "c = int k" using c(1) by simp
  qed
qed

lemma images_ok_distinct:
  assumes "images_ok km n" "i < n" "j < n"
  shows "0 \<le> mk2IndexToDeviceImgId (int i) km"
    "mk2IndexToDeviceImgId (int i) km = mk2IndexToDeviceImgId (int j) km \<Longrightarrow> i = j"
    "coraToWireImage km \<noteq> None \<Longrightarrow>
       mk2IndexToDeviceImgId (int i) km \<notin> set (or_default (extraKeys km) [])"
  using assms
  by (auto simp: images_ok_def mk2IndexToDeviceImgId_def js_nth_def or_else_def list_all_iff
      nth_eq_iff_index_eq split: option.splits)

lemma grid_lists:
  "[0..<15] = [0, 1, 2, 3, 4, 5, 6, 7, 8, 9, 10, 11, 12, 13, 14 :: nat]"
  "[0..<8] = [0, 1, 2, 3, 4, 5, 6, 7 :: nat]" "[0..<6] = [0, 1, 2, 3, 4, 5 :: nat]"
  by (simp_all add: upt_rec)

lemma shipped_key_maps:
  assumes "by_id every ''mk2'' = Some MK2_MODEL" "by_id every ''mini'' = Some MINI_MODEL"
    "by_id every ''stream-deck-plus'' = Some STREAM_DECK_PLUS_MODEL"
  shows "list_all (\<lambda>m. case advertised_of every m of
       None \<Rightarrow> False
     | Some a \<Rightarrow> inputs_ok (m_keyMap m) (m_keyCount a) \<and> images_ok (m_keyMap m) (m_keyCount a)) ALL_MODELS"
  by (simp add: list_defs advertised_of_def model_defs assms)
    (simp add: as_mk2_def STREAM_DECK_PLUS_EMULATION_def inputs_ok_def images_ok_def grid_lists
      no_keymap_def or_else_def assms target_facts target_fields)

text \<open>On every shipped model each key of the grid the Elgato app sees is pressed and drawn as
  itself: exactly one input code of the device means that key, its picture goes to a picture
  slot of its own, and never to the slot of an extra key.\<close>

theorem shipped_keys_match_grid:
  assumes "m \<in> set (DEVICE_MODELS @ CORA_PROFILES)"
  shows "\<exists>a. advertisedModel (DEVICE_MODELS @ CORA_PROFILES) m = Some a \<and>
     (\<forall>i < m_keyCount a.
        (\<exists>!c. deviceInputToMk2Index c (m_keyMap m) = int i)
        \<and> 0 \<le> mk2IndexToDeviceImgId (int i) (m_keyMap m)
        \<and> (\<forall>j < m_keyCount a. mk2IndexToDeviceImgId (int i) (m_keyMap m)
              = mk2IndexToDeviceImgId (int j) (m_keyMap m) \<longrightarrow> i = j)
        \<and> (coraToWireImage (m_keyMap m) \<noteq> None \<longrightarrow>
             mk2IndexToDeviceImgId (int i) (m_keyMap m) \<notin> set (or_default (extraKeys (m_keyMap m)) [])))"
proof -
  have m: "m \<in> set ALL_MODELS" using assms by (simp add: ALL_MODELS_def)
  obtain a where a: "advertised_of ALL_MODELS m = Some a"
    "inputs_ok (m_keyMap m) (m_keyCount a)" "images_ok (m_keyMap m) (m_keyCount a)"
    using shipped_key_maps[OF shipped_lookups(1-3)] m
    unfolding list_all_iff by (auto dest!: bspec split: option.splits)
  have "advertisedModel (DEVICE_MODELS @ CORA_PROFILES) m = Some a"
    using a(1) advertised_of_eq[OF shipped_distinct, of m] by (simp add: ALL_MODELS_def)
  then show ?thesis using inputs_ok_unique[OF a(2)] images_ok_distinct[OF a(3)] by blast
qed

end
