(* ===== verification/Standby_Policy.thy ===== *)
theory Standby_Policy
  imports Js_Values
begin

text \<open>
  \<^verbatim>\<open>shared/standby-settings.ts\<close> and \<^verbatim>\<open>main/standby-policy.ts\<close>: the per-device settings of the
  burn-in care with their checks, and the pure decisions made from them: the effective
  backlight, the night window, the orbit of the pixel shift and the slots of the standby clock.
\<close>

section \<open>Settings\<close>

datatype off_mode = Off_auto | Off_brightness0
datatype wake_press = Wake_swallow | Wake_forward
datatype gone_action = Gone_none | Gone_clock | Gone_off

record standby_settings =
  ss_idleDim :: bool
  ss_idleMinutes :: int
  ss_idleLevel :: int
  ss_offWhenIdle :: bool
  ss_offMinutes :: int
  ss_offMode :: off_mode
  ss_wakePress :: wake_press
  ss_appGoneAction :: gone_action
  ss_clockLevel :: int
  ss_night :: bool
  ss_nightStart :: string
  ss_nightEnd :: string
  ss_nightLevel :: int
  ss_nightOffWhenIdle :: bool
  ss_pixelShift :: bool
  ss_sleepCommand :: "string option"
  ss_wakeCommand :: "string option"

text \<open>\<^verbatim>\<open>DEFAULT_STANDBY\<close>, as the object it is.\<close>

definition DEFAULT_STANDBY :: "(string \<times> json) list" where
  "DEFAULT_STANDBY =
     [(''idleDim'', J_bool False), (''idleMinutes'', J_num 5), (''idleLevel'', J_num 10),
      (''offWhenIdle'', J_bool False), (''offMinutes'', J_num 30), (''offMode'', J_str ''auto''),
      (''wakePress'', J_str ''swallow''), (''appGoneAction'', J_str ''none''),
      (''clockLevel'', J_num 20), (''night'', J_bool False), (''nightStart'', J_str ''23:00''),
      (''nightEnd'', J_str ''07:00''), (''nightLevel'', J_num 10),
      (''nightOffWhenIdle'', J_bool True), (''pixelShift'', J_bool False)]"

abbreviation (input) STANDBY_COMMAND_MAX :: nat where "STANDBY_COMMAND_MAX \<equiv> 1024"

fun digit_of :: "char \<Rightarrow> nat option" where
  "digit_of c = (let n = of_char c :: nat in if 48 \<le> n \<and> n \<le> 57 then Some (n - 48) else None)"

text \<open>\<^verbatim>\<open>/^([01]\d|2[0-3]):([0-5]\d)$/\<close>, as the minute of the day.\<close>

definition hhmm_digits :: "nat \<Rightarrow> nat \<Rightarrow> nat \<Rightarrow> nat \<Rightarrow> nat option" where
  "hhmm_digits a b c d =
     (if (a < 2 \<or> a = 2 \<and> b < 4) \<and> c < 6 then Some ((a * 10 + b) * 60 + (c * 10 + d)) else None)"

fun hhmm_minutes :: "string \<Rightarrow> nat option" where
  "hhmm_minutes [a, b, x, c, d] =
     (if x \<noteq> CHR '':'' then None
      else do { a \<leftarrow> digit_of a; b \<leftarrow> digit_of b; c \<leftarrow> digit_of c; d \<leftarrow> digit_of d; hhmm_digits a b c d })"
| "hhmm_minutes _ = None"

definition parseHhmm :: "json option \<Rightarrow> nat option" where
  "parseHhmm v = Option.bind (Option.bind v str_of) hhmm_minutes"

definition formatHhmm :: "nat \<Rightarrow> string" where
  "formatHhmm n = padStart2 (decimal (n div 60)) @ '':'' @ padStart2 (decimal (n mod 60))"

subsection \<open>Checks\<close>

text \<open>A check gives the complaint about a value, None for a good one.\<close>

type_synonym check = "json \<Rightarrow> string option"

definition bool_check :: check where
  "bool_check v = (case v of J_bool b \<Rightarrow> None | _ \<Rightarrow> Some ''must be a boolean'')"

definition intIn :: "nat \<Rightarrow> nat \<Rightarrow> check" where
  "intIn lo hi v =
     (if is_int_in (int lo) (int hi) v then None
      else Some (''must be an integer '' @ decimal lo @ ''..'' @ decimal hi))"

definition oneOf :: "string list \<Rightarrow> check" where
  "oneOf allowed v =
     (if v \<in> J_str ` set allowed then None else Some (''must be one of: '' @ join_with '', '' allowed))"

definition hhmm_check :: check where
  "hhmm_check v = (if parseHhmm (Some v) = None then Some ''must be 'HH:MM' (00:00..23:59)'' else None)"

definition command_check :: check where
  "command_check v =
     (case str_of v of
        Some s \<Rightarrow> if s \<noteq> [] \<and> length s \<le> STANDBY_COMMAND_MAX then None
                  else Some ''must be a non-empty string of at most 1024 characters''
      | None \<Rightarrow> Some ''must be a non-empty string of at most 1024 characters'')"

definition CHECKS :: "(string \<times> check) list" where
  "CHECKS =
     [(''idleDim'', bool_check), (''idleMinutes'', intIn 1 240), (''idleLevel'', intIn 1 100),
      (''offWhenIdle'', bool_check), (''offMinutes'', intIn 1 1440),
      (''offMode'', oneOf [''auto'', ''brightness0'']),
      (''wakePress'', oneOf [''swallow'', ''forward'']),
      (''appGoneAction'', oneOf [''none'', ''clock'', ''off'']), (''clockLevel'', intIn 1 100),
      (''night'', bool_check), (''nightStart'', hhmm_check), (''nightEnd'', hhmm_check),
      (''nightLevel'', intIn 1 100), (''nightOffWhenIdle'', bool_check),
      (''pixelShift'', bool_check), (''sleepCommand'', command_check),
      (''wakeCommand'', command_check)]"

text \<open>The partial settings win over the defaults key by key.\<close>

definition resolveStandby :: "json option \<Rightarrow> json" where
  "resolveStandby partial =
     (case partial of
        None \<Rightarrow> J_obj DEFAULT_STANDBY
      | Some src \<Rightarrow> J_obj (fold (\<lambda>k out. case field src k of None \<Rightarrow> out | Some v \<Rightarrow> AList.update k v out)
                             (map fst CHECKS) DEFAULT_STANDBY))"

fun first_error :: "json \<Rightarrow> (string \<times> check) list \<Rightarrow> string option" where
  "first_error r [] = None"
| "first_error r ((k, chk) # cs) =
     (case Option.bind (field r k) chk of
        Some e \<Rightarrow> Some (k @ '' '' @ e)
      | None \<Rightarrow> first_error r cs)"

definition num_le :: "json option \<Rightarrow> json option \<Rightarrow> bool" where
  "num_le a b =
     (case (Option.bind a num_of, Option.bind b num_of) of
        (Some p, Some q) \<Rightarrow> p \<le> q | _ \<Rightarrow> False)"

definition is_set :: "json option \<Rightarrow> bool" where
  "is_set v = (case v of None \<Rightarrow> False | Some j \<Rightarrow> j_truthy j)"

definition standbySettingsError :: "json \<Rightarrow> string option" where
  "standbySettingsError v =
     (if \<not> is_obj v then Some ''standby must be an object''
      else case first_error v CHECKS of
        Some e \<Rightarrow> Some e
      | None \<Rightarrow>
          (let s = resolveStandby (Some v) in
           if field s ''nightStart'' = field s ''nightEnd'' then Some ''nightStart and nightEnd must differ''
           else if is_set (field s ''idleDim'') \<and> is_set (field s ''offWhenIdle'')
              \<and> num_le (field s ''offMinutes'') (field s ''idleMinutes'')
             then Some ''offMinutes must be greater than idleMinutes''
           else None))"

definition pickStandbyKeys :: "json \<Rightarrow> json" where
  "pickStandbyKeys v =
     J_obj (List.map_filter (\<lambda>k. map_option (Pair k) (field v k))
       (filter (\<lambda>k. k \<noteq> ''sleepCommand'' \<and> k \<noteq> ''wakeCommand'') (map fst CHECKS)))"

fun publicStandby :: "json \<Rightarrow> json" where
  "publicStandby (J_obj s) = J_obj (AList.delete ''wakeCommand'' (AList.delete ''sleepCommand'' s))"
| "publicStandby v = v"

subsection \<open>Settings as the program reads them\<close>

text \<open>The typed view of a resolved object; None where a field does not have its type.\<close>

definition int_field :: "json \<Rightarrow> string \<Rightarrow> int option" where
  "int_field v k = map_option floor (Option.bind (field v k) num_of)"

definition bool_field :: "json \<Rightarrow> string \<Rightarrow> bool option" where
  "bool_field v k = Option.bind (field v k) bool_of"

definition str_field :: "json \<Rightarrow> string \<Rightarrow> string option" where
  "str_field v k = Option.bind (field v k) str_of"

definition offMode_of :: "string \<Rightarrow> off_mode option" where
  "offMode_of s = (if s = ''auto'' then Some Off_auto
     else if s = ''brightness0'' then Some Off_brightness0 else None)"

definition wakePress_of :: "string \<Rightarrow> wake_press option" where
  "wakePress_of s = (if s = ''swallow'' then Some Wake_swallow
     else if s = ''forward'' then Some Wake_forward else None)"

definition gone_of :: "string \<Rightarrow> gone_action option" where
  "gone_of s = (if s = ''none'' then Some Gone_none else if s = ''clock'' then Some Gone_clock
     else if s = ''off'' then Some Gone_off else None)"

definition typed_settings :: "json \<Rightarrow> standby_settings option" where
  "typed_settings v = do {
     idleDim \<leftarrow> bool_field v ''idleDim''; idleMinutes \<leftarrow> int_field v ''idleMinutes'';
     idleLevel \<leftarrow> int_field v ''idleLevel''; offWhenIdle \<leftarrow> bool_field v ''offWhenIdle'';
     offMinutes \<leftarrow> int_field v ''offMinutes'';
     offMode \<leftarrow> Option.bind (str_field v ''offMode'') offMode_of;
     wakePress \<leftarrow> Option.bind (str_field v ''wakePress'') wakePress_of;
     gone \<leftarrow> Option.bind (str_field v ''appGoneAction'') gone_of;
     clockLevel \<leftarrow> int_field v ''clockLevel''; night \<leftarrow> bool_field v ''night'';
     nightStart \<leftarrow> str_field v ''nightStart''; nightEnd \<leftarrow> str_field v ''nightEnd'';
     nightLevel \<leftarrow> int_field v ''nightLevel''; nightOff \<leftarrow> bool_field v ''nightOffWhenIdle'';
     pixelShift \<leftarrow> bool_field v ''pixelShift'';
     Some \<lparr> ss_idleDim = idleDim, ss_idleMinutes = idleMinutes, ss_idleLevel = idleLevel,
       ss_offWhenIdle = offWhenIdle, ss_offMinutes = offMinutes, ss_offMode = offMode,
       ss_wakePress = wakePress, ss_appGoneAction = gone, ss_clockLevel = clockLevel,
       ss_night = night, ss_nightStart = nightStart, ss_nightEnd = nightEnd,
       ss_nightLevel = nightLevel, ss_nightOffWhenIdle = nightOff, ss_pixelShift = pixelShift,
       ss_sleepCommand = str_field v ''sleepCommand'', ss_wakeCommand = str_field v ''wakeCommand'' \<rparr> }"

subsection \<open>Accepted settings are usable\<close>

definition settings_ok :: "standby_settings \<Rightarrow> bool" where
  "settings_ok s \<longleftrightarrow>
     1 \<le> ss_idleMinutes s \<and> ss_idleMinutes s \<le> 240 \<and> 1 \<le> ss_offMinutes s \<and> ss_offMinutes s \<le> 1440
     \<and> 1 \<le> ss_idleLevel s \<and> ss_idleLevel s \<le> 100 \<and> 1 \<le> ss_clockLevel s \<and> ss_clockLevel s \<le> 100
     \<and> 1 \<le> ss_nightLevel s \<and> ss_nightLevel s \<le> 100
     \<and> hhmm_minutes (ss_nightStart s) \<noteq> None \<and> hhmm_minutes (ss_nightEnd s) \<noteq> None
     \<and> ss_nightStart s \<noteq> ss_nightEnd s
     \<and> (ss_idleDim s \<longrightarrow> ss_offWhenIdle s \<longrightarrow> ss_idleMinutes s < ss_offMinutes s)
     \<and> (\<forall>c. ss_sleepCommand s = Some c \<or> ss_wakeCommand s = Some c \<longrightarrow> 0 < length c \<and> length c \<le> 1024)"

lemma fold_update_field:
  "map_of (fold (\<lambda>k out. case f k of None \<Rightarrow> out | Some v \<Rightarrow> AList.update k v out) ks d) k
     = (if k \<in> set ks \<and> f k \<noteq> None then f k else map_of d k)"
  by (induction ks arbitrary: d) (auto simp: update_conv' split: option.splits)

lemma resolve_field:
  "field (resolveStandby (Some v)) k =
     (if k \<in> fst ` set CHECKS \<and> field v k \<noteq> None then field v k else map_of DEFAULT_STANDBY k)"
  by (simp add: resolveStandby_def fold_update_field)

lemma first_errorD:
  "first_error r cs = None \<Longrightarrow> (k, chk) \<in> set cs \<Longrightarrow> field r k = Some x \<Longrightarrow> chk x = None"
  by (induction r cs rule: first_error.induct) (auto split: option.splits)

lemma defaults_pass:
  "(k, chk) \<in> set CHECKS \<Longrightarrow> map_of DEFAULT_STANDBY k = Some x \<Longrightarrow> chk x = None"
  by (auto simp: CHECKS_def DEFAULT_STANDBY_def bool_check_def intIn_def oneOf_def hhmm_check_def
      parseHhmm_def hhmm_digits_def command_check_def)

lemma resolved_pass:
  assumes "first_error v CHECKS = None" "(k, chk) \<in> set CHECKS"
    and "field (resolveStandby (Some v)) k = Some x"
  shows "chk x = None"
  using assms first_errorD[OF assms(1,2)] defaults_pass[OF assms(2)]
  by (auto simp: resolve_field split: if_splits)

lemma resolved_value:
  assumes "first_error v CHECKS = None" "(k, chk) \<in> set CHECKS" "map_of DEFAULT_STANDBY k \<noteq> None"
  obtains x where "field (resolveStandby (Some v)) k = Some x" "chk x = None"
proof -
  have "field (resolveStandby (Some v)) k \<noteq> None" using assms(3) by (simp add: resolve_field)
  then show ?thesis using that resolved_pass[OF assms(1,2)] by blast
qed

lemma bool_checkD: "bool_check x = None \<Longrightarrow> \<exists>b. x = J_bool b"
  by (cases x) (simp_all add: bool_check_def)

lemma intInD: "intIn lo hi x = None \<Longrightarrow> \<exists>i. x = J_num (of_int i) \<and> int lo \<le> i \<and> i \<le> int hi"
  using is_int_inD[of "int lo" "int hi" x] by (auto simp: intIn_def split: if_splits)

lemma oneOfD: "oneOf ss x = None \<Longrightarrow> \<exists>s \<in> set ss. x = J_str s"
  by (auto simp: oneOf_def split: if_splits)

lemma hhmm_checkD: "hhmm_check x = None \<Longrightarrow> \<exists>s. x = J_str s \<and> hhmm_minutes s \<noteq> None"
  by (cases x) (auto simp: hhmm_check_def parseHhmm_def split: if_splits)

lemma command_checkD: "command_check x = None \<Longrightarrow> \<exists>s. x = J_str s \<and> 0 < length s \<and> length s \<le> 1024"
  by (cases x) (auto simp: command_check_def split: if_splits)

lemma check_in:
  "(''idleDim'', bool_check) \<in> set CHECKS" "(''idleMinutes'', intIn 1 240) \<in> set CHECKS"
  "(''idleLevel'', intIn 1 100) \<in> set CHECKS" "(''offWhenIdle'', bool_check) \<in> set CHECKS"
  "(''offMinutes'', intIn 1 1440) \<in> set CHECKS"
  "(''offMode'', oneOf [''auto'', ''brightness0'']) \<in> set CHECKS"
  "(''wakePress'', oneOf [''swallow'', ''forward'']) \<in> set CHECKS"
  "(''appGoneAction'', oneOf [''none'', ''clock'', ''off'']) \<in> set CHECKS"
  "(''clockLevel'', intIn 1 100) \<in> set CHECKS" "(''night'', bool_check) \<in> set CHECKS"
  "(''nightStart'', hhmm_check) \<in> set CHECKS" "(''nightEnd'', hhmm_check) \<in> set CHECKS"
  "(''nightLevel'', intIn 1 100) \<in> set CHECKS" "(''nightOffWhenIdle'', bool_check) \<in> set CHECKS"
  "(''pixelShift'', bool_check) \<in> set CHECKS" "(''sleepCommand'', command_check) \<in> set CHECKS"
  "(''wakeCommand'', command_check) \<in> set CHECKS"
  by (simp_all add: CHECKS_def)

lemma default_in:
  "map_of DEFAULT_STANDBY ''idleDim'' \<noteq> None"
  "map_of DEFAULT_STANDBY ''idleMinutes'' \<noteq> None"
  "map_of DEFAULT_STANDBY ''idleLevel'' \<noteq> None"
  "map_of DEFAULT_STANDBY ''offWhenIdle'' \<noteq> None"
  "map_of DEFAULT_STANDBY ''offMinutes'' \<noteq> None"
  "map_of DEFAULT_STANDBY ''offMode'' \<noteq> None"
  "map_of DEFAULT_STANDBY ''wakePress'' \<noteq> None"
  "map_of DEFAULT_STANDBY ''appGoneAction'' \<noteq> None"
  "map_of DEFAULT_STANDBY ''clockLevel'' \<noteq> None"
  "map_of DEFAULT_STANDBY ''night'' \<noteq> None"
  "map_of DEFAULT_STANDBY ''nightStart'' \<noteq> None"
  "map_of DEFAULT_STANDBY ''nightEnd'' \<noteq> None"
  "map_of DEFAULT_STANDBY ''nightLevel'' \<noteq> None"
  "map_of DEFAULT_STANDBY ''nightOffWhenIdle'' \<noteq> None"
  "map_of DEFAULT_STANDBY ''pixelShift'' \<noteq> None"
  by (simp_all add: DEFAULT_STANDBY_def)

lemma bool_resolved:
  assumes pass: "first_error v CHECKS = None"
    and key: "(k, bool_check) \<in> set CHECKS" "map_of DEFAULT_STANDBY k \<noteq> None"
  shows "\<exists>b. field (resolveStandby (Some v)) k = Some (J_bool b)"
  using resolved_value[OF pass key] bool_checkD by metis

lemma int_resolved:
  assumes pass: "first_error v CHECKS = None"
    and key: "(k, intIn lo hi) \<in> set CHECKS" "map_of DEFAULT_STANDBY k \<noteq> None"
  shows "\<exists>i. field (resolveStandby (Some v)) k = Some (J_num (of_int i)) \<and> int lo \<le> i \<and> i \<le> int hi"
  using resolved_value[OF pass key] intInD by metis

lemma one_resolved:
  assumes pass: "first_error v CHECKS = None"
    and key: "(k, oneOf ss) \<in> set CHECKS" "map_of DEFAULT_STANDBY k \<noteq> None"
  shows "\<exists>s \<in> set ss. field (resolveStandby (Some v)) k = Some (J_str s)"
  using resolved_value[OF pass key] oneOfD by metis

lemma hhmm_resolved:
  assumes pass: "first_error v CHECKS = None"
    and key: "(k, hhmm_check) \<in> set CHECKS" "map_of DEFAULT_STANDBY k \<noteq> None"
  shows "\<exists>s. field (resolveStandby (Some v)) k = Some (J_str s) \<and> hhmm_minutes s \<noteq> None"
  using resolved_value[OF pass key] hhmm_checkD by metis

lemma command_resolved:
  assumes pass: "first_error v CHECKS = None"
    and key: "(k, command_check) \<in> set CHECKS" "str_field (resolveStandby (Some v)) k = Some c"
  shows "0 < length c \<and> length c \<le> 1024"
proof -
  obtain x where x: "field (resolveStandby (Some v)) k = Some x" "str_of x = Some c"
    using key(2) by (auto simp: str_field_def bind_eq_Some_conv)
  then show ?thesis using command_checkD[OF resolved_pass[OF pass key(1) x(1)]] by auto
qed

lemma map_of_map_filter:
  "map_of (List.map_filter (\<lambda>k. map_option (Pair k) (f k)) ks) k = (if k \<in> set ks then f k else None)"
  by (induction ks) (auto simp: map_filter_simps split: option.splits)

lemma pick_field:
  "field (pickStandbyKeys v) k =
     (if k \<in> fst ` set CHECKS \<and> k \<noteq> ''sleepCommand'' \<and> k \<noteq> ''wakeCommand'' then field v k else None)"
  by (auto simp: pickStandbyKeys_def map_of_map_filter)

lemma pick_obj [simp]: "is_obj (pickStandbyKeys v)"
  by (simp add: pickStandbyKeys_def)

lemma first_error_fields:
  "(\<And>k. k \<in> fst ` set cs \<Longrightarrow> field r' k = field r k \<or> field r' k = None) \<Longrightarrow>
     first_error r cs = None \<Longrightarrow> first_error r' cs = None"
proof (induction r cs rule: first_error.induct)
  case (2 r k chk cs)
  then have "field r' k = field r k \<or> field r' k = None" by simp
  then show ?case using 2 by (elim disjE) (auto split: option.splits)
qed simp

lemma typed_resolved:
  assumes "first_error v CHECKS = None" "field (resolveStandby (Some v)) ''nightStart''
      \<noteq> field (resolveStandby (Some v)) ''nightEnd''"
    and "\<not> (is_set (field (resolveStandby (Some v)) ''idleDim'')
        \<and> is_set (field (resolveStandby (Some v)) ''offWhenIdle'')
        \<and> num_le (field (resolveStandby (Some v)) ''offMinutes'') (field (resolveStandby (Some v)) ''idleMinutes''))"
  shows "\<exists>s. typed_settings (resolveStandby (Some v)) = Some s \<and> settings_ok s"
proof -
  let ?r = "resolveStandby (Some v)"
  note bool = bool_resolved[OF assms(1)] and int = int_resolved[OF assms(1)]
    and one = one_resolved[OF assms(1)] and hhmm = hhmm_resolved[OF assms(1)]
  obtain dim off nt no px where b:
    "field ?r ''idleDim'' = Some (J_bool dim)" "field ?r ''offWhenIdle'' = Some (J_bool off)"
    "field ?r ''night'' = Some (J_bool nt)" "field ?r ''nightOffWhenIdle'' = Some (J_bool no)"
    "field ?r ''pixelShift'' = Some (J_bool px)"
    using bool[OF check_in(1) default_in(1)] bool[OF check_in(4) default_in(4)] bool[OF check_in(10) default_in(10)]
      bool[OF check_in(14) default_in(14)] bool[OF check_in(15) default_in(15)] by blast
  obtain im il where i1: "field ?r ''idleMinutes'' = Some (J_num (of_int im))" "1 \<le> im" "im \<le> 240"
    "field ?r ''idleLevel'' = Some (J_num (of_int il))" "1 \<le> il" "il \<le> 100"
    using int[OF check_in(2) default_in(2)] int[OF check_in(3) default_in(3)] by auto
  obtain om cl nl where i2: "field ?r ''offMinutes'' = Some (J_num (of_int om))" "1 \<le> om" "om \<le> 1440"
    "field ?r ''clockLevel'' = Some (J_num (of_int cl))" "1 \<le> cl" "cl \<le> 100"
    "field ?r ''nightLevel'' = Some (J_num (of_int nl))" "1 \<le> nl" "nl \<le> 100"
    using int[OF check_in(5) default_in(5)] int[OF check_in(9) default_in(9)] int[OF check_in(13) default_in(13)] by auto
  obtain o1 w1 g1 where o: "field ?r ''offMode'' = Some (J_str o1)" "offMode_of o1 \<noteq> None"
    "field ?r ''wakePress'' = Some (J_str w1)" "wakePress_of w1 \<noteq> None"
    "field ?r ''appGoneAction'' = Some (J_str g1)" "gone_of g1 \<noteq> None"
    using one[OF check_in(6) default_in(6)] one[OF check_in(7) default_in(7)] one[OF check_in(8) default_in(8)]
    by (auto simp: offMode_of_def wakePress_of_def gone_of_def)
  obtain a z where n: "field ?r ''nightStart'' = Some (J_str a)" "hhmm_minutes a \<noteq> None"
    "field ?r ''nightEnd'' = Some (J_str z)" "hhmm_minutes z \<noteq> None"
    using hhmm[OF check_in(11) default_in(11)] hhmm[OF check_in(12) default_in(12)] by blast
  obtain o2 w2 g2 where m: "offMode_of o1 = Some o2" "wakePress_of w1 = Some w2" "gone_of g1 = Some g2"
    using o(2,4,6) by blast
  note c = command_resolved[OF assms(1) check_in(16)] command_resolved[OF assms(1) check_in(17)]
  show ?thesis
    using n(2,4) assms(2,3) i1 i2 c
    by (auto simp: typed_settings_def int_field_def bool_field_def str_field_def b o(1,3,5) n(1,3) m
        settings_ok_def is_set_def num_le_def)
qed

text \<open>Settings the checks accept are settings the program can use: resolved over the defaults
  every field has its type and range, the night window is not empty, the screen never turns off
  before it dims, and what the browser may persist of them is accepted too, means the same, and
  never holds a shell command.\<close>

theorem accepted_settings_usable:
  assumes "standbySettingsError v = None"
  shows "(\<exists>s. typed_settings (resolveStandby (Some v)) = Some s \<and> settings_ok s)
    \<and> standbySettingsError (pickStandbyKeys v) = None
    \<and> field (resolveStandby (Some (pickStandbyKeys v))) ''sleepCommand'' = None
    \<and> field (resolveStandby (Some (pickStandbyKeys v))) ''wakeCommand'' = None
    \<and> (k \<noteq> ''sleepCommand'' \<longrightarrow> k \<noteq> ''wakeCommand'' \<longrightarrow>
         field (resolveStandby (Some (pickStandbyKeys v))) k = field (resolveStandby (Some v)) k)"
proof -
  have e: "first_error v CHECKS = None"
    using assms by (auto simp: standbySettingsError_def Let_def split: if_splits option.splits)
  have c: "map_of DEFAULT_STANDBY ''sleepCommand'' = None" "map_of DEFAULT_STANDBY ''wakeCommand'' = None"
    by (simp_all add: DEFAULT_STANDBY_def)
  have same: "k \<noteq> ''sleepCommand'' \<Longrightarrow> k \<noteq> ''wakeCommand'' \<Longrightarrow>
     field (resolveStandby (Some (pickStandbyKeys v))) k = field (resolveStandby (Some v)) k" for k
    by (auto simp: resolve_field pick_field)
  have "first_error (pickStandbyKeys v) CHECKS = None"
    by (rule first_error_fields[OF _ e]) (simp add: pick_field)
  then have "standbySettingsError (pickStandbyKeys v) = None"
    using assms by (auto simp: standbySettingsError_def Let_def same split: if_splits option.splits)
  then show ?thesis
    using typed_resolved[OF e] assms same
    by (auto simp: standbySettingsError_def Let_def e resolve_field pick_field c split: if_splits)
qed

section \<open>Timing and the night window\<close>

record standby_timing =
  minuteMs :: int
  tickMs :: int
  appGoneDebounceMs :: int
  bootGraceMs :: int
  silenceMs :: int
  hostResumeGapMs :: int
  pixelShiftPeriodMs :: int

definition DEFAULT_TIMING :: standby_timing where
  "DEFAULT_TIMING =
     \<lparr> minuteMs = 60000, tickMs = 1000, appGoneDebounceMs = 15000, bootGraceMs = 60000,
       silenceMs = 30000, hostResumeGapMs = 30000, pixelShiftPeriodMs = 300000 \<rparr>"

definition FAST_TIMING :: standby_timing where
  "FAST_TIMING = DEFAULT_TIMING\<lparr>minuteMs := 1000, tickMs := 250, appGoneDebounceMs := 1000,
     bootGraceMs := 1000, silenceMs := 0, pixelShiftPeriodMs := 5000\<rparr>"

definition inNightWindow :: "nat \<Rightarrow> nat \<Rightarrow> nat \<Rightarrow> bool" where
  "inNightWindow m start stop =
     (if start = stop then False
      else if start < stop then start \<le> m \<and> m < stop
      else start \<le> m \<or> m < stop)"

section \<open>The level on the panel\<close>

datatype display_state = D_active | D_dimmed | D_night | D_off | D_standby

record cap_input =
  ci_requested :: int
  ci_idle :: bool
  ci_offIdle :: bool
  ci_night :: bool
  ci_appGone :: gone_action
  ci_settings :: standby_settings

definition idleCap :: "cap_input \<Rightarrow> int" where
  "idleCap i =
     (let s = ci_settings i in
      if ci_offIdle i \<or> ci_idle i \<and> ci_night i \<and> ss_nightOffWhenIdle s then 0
      else if ci_idle i \<and> ss_idleDim s then ss_idleLevel s else 100)"

definition standbyCap :: "cap_input \<Rightarrow> int" where
  "standbyCap i =
     (if ci_appGone i = Gone_clock then ss_clockLevel (ci_settings i)
      else if ci_appGone i = Gone_off then 0 else 100)"

definition computeDisplay :: "cap_input \<Rightarrow> int \<times> display_state" where
  "computeDisplay i =
     (let requested = ci_requested i;
          capNight = (if ci_night i then ss_nightLevel (ci_settings i) else 100);
          capIdle = idleCap i;
          effective = Min {requested, capIdle, capNight, standbyCap i}
      in if effective = 0 \<and> 0 < requested then (effective, D_off)
         else if ci_appGone i = Gone_clock then (effective, D_standby)
         else if capIdle < requested \<and> capIdle < capNight then (effective, D_dimmed)
         else (effective, if ci_night i then D_night else D_active))"

section \<open>Pixel shift\<close>

definition PIXEL_SHIFT_ORBIT :: "(int \<times> int) list" where
  "PIXEL_SHIFT_ORBIT = [(0, 0), (1, 0), (1, 1), (0, 1), (-1, 1), (-1, 0), (-1, -1), (0, -1)]"

definition pixelShiftAt :: "int \<Rightarrow> int \<Rightarrow> int \<times> int" where
  "pixelShiftAt now period =
     (let step = now div period in PIXEL_SHIFT_ORBIT ! nat (js_rem (js_rem step 8 + 8) 8))"

section \<open>Slots of the standby clock\<close>

fun js_gcd :: "nat \<Rightarrow> nat \<Rightarrow> nat" where
  "js_gcd a b = (if b = 0 then a else js_gcd b (a mod b))"

declare js_gcd.simps [simp del]

text \<open>\<^verbatim>\<open>while (gcd(step, slotCount) !== 1) step++\<close>; a slot count of 0 does not occur.\<close>

function coprime_step :: "nat \<Rightarrow> nat \<Rightarrow> nat" where
  "coprime_step n step = (if n = 0 \<or> js_gcd step n = 1 then step else coprime_step n (step + 1))"
  by pat_completeness auto

lemma js_gcd_eq: "js_gcd a b = gcd a b"
proof (induction a b rule: js_gcd.induct)
  case (1 a b)
  then show ?case by (cases "b = 0") (simp_all add: js_gcd.simps[of a] gcd_red_nat[symmetric])
qed

text \<open>The step grows at most up to the next number that leaves the remainder 1.\<close>

termination coprime_step
proof (relation "measure (\<lambda>(n, step). (n - (step + n - 1) mod n) mod n)")
  fix n step :: nat
  assume "\<not> (n = 0 \<or> js_gcd step n = 1)"
  then have n: "0 < n" and g: "gcd step n \<noteq> 1" by (simp_all add: js_gcd_eq)
  define r where "r = (step + n - 1) mod n"
  have "(step + n) mod n = Suc r mod n"
    using n unfolding r_def by (metis Suc_pred' add_gr_0 mod_Suc_eq)
  moreover have "(step + 1 + n - 1) mod n = (step + n) mod n" by simp
  moreover have "r \<noteq> 0"
  proof
    assume "r = 0"
    then have "step mod n = 1 mod n" using calculation(1) by simp
    then have "gcd step n = gcd 1 n" by (metis gcd.commute gcd_red_nat)
    then show False using g by simp
  qed
  moreover have "r < n" "(step + n - Suc 0) mod n = r" using n by (simp_all add: r_def)
  ultimately show "((n, step + 1), (n, step)) \<in> measure (\<lambda>(n, step). (n - (step + n - 1) mod n) mod n)"
    by (cases "Suc r = n") simp_all
qed simp

declare coprime_step.simps [simp del]

definition clockSlotAt :: "int \<Rightarrow> nat \<Rightarrow> nat \<Rightarrow> nat" where
  "clockSlotAt n columns keyCount =
     (if keyCount \<le> 1 then 0
      else let pairs = (2 \<le> columns);
               rows = (if pairs then max 1 (keyCount div columns) else 1);
               slotCount = (if pairs then max 1 (rows * (columns - 1)) else keyCount);
               step = coprime_step slotCount 7;
               slot = js_rem (js_rem n (int slotCount) + int slotCount) (int slotCount) * int step + 3;
               s = nat (js_rem slot (int slotCount))
           in if \<not> pairs then s
              else min (s div (columns - 1) * columns + s mod (columns - 1)) (keyCount - 1))"

lemma coprime_step_coprime: "0 < n \<Longrightarrow> coprime (coprime_step n step) n"
proof (induction n step rule: coprime_step.induct)
  case (1 n step)
  then show ?case
    by (cases "js_gcd step n = 1") (simp_all add: coprime_step.simps[of n step] js_gcd_eq coprime_iff_gcd_eq_1)
qed

text \<open>A step coprime to the slot count visits every slot once in as many successive minutes.\<close>

lemma affine_window:
  fixes S st b t start :: int
  assumes "0 < S" "coprime st S" "0 \<le> t" "t < S"
  shows "\<exists>!n. start \<le> n \<and> n < start + S \<and> (n * st + b) mod S = t"
proof (rule ex_ex1I)
  obtain w v where "w * st + v * S = 1"
    using assms(2) bezout_int[of st S] by (auto simp: coprime_iff_gcd_eq_1)
  then have u: "(w * st) mod S = 1 mod S" by (metis mod_mult_self1)
  let ?n = "start + (w * (t - b) - start) mod S"
  have "?n mod S = (w * (t - b)) mod S" by (simp add: mod_simps)
  then have "(?n * st + b) mod S = (w * (t - b) * st + b) mod S" by (metis mod_add_left_eq mod_mult_left_eq)
  also have "\<dots> = ((w * st) * (t - b) + b) mod S" by (simp add: ac_simps)
  also have "\<dots> = ((w * st) mod S * (t - b) + b) mod S" by (metis mod_add_left_eq mod_mult_left_eq)
  also have "\<dots> = (1 * (t - b) + b) mod S" unfolding u by (metis mod_add_left_eq mod_mult_left_eq)
  also have "\<dots> = t" using assms(3,4) by simp
  finally have "(?n * st + b) mod S = t" .
  moreover have "start \<le> ?n \<and> ?n < start + S" using assms(1) by simp
  ultimately show "\<exists>n. start \<le> n \<and> n < start + S \<and> (n * st + b) mod S = t" by blast
next
  fix m n
  assume m: "start \<le> m \<and> m < start + S \<and> (m * st + b) mod S = t"
    and n: "start \<le> n \<and> n < start + S \<and> (n * st + b) mod S = t"
  then have "S dvd (m * st + b) - (n * st + b)" by (metis mod_eq_dvd_iff)
  then have "S dvd (m - n) * st" by (simp add: algebra_simps)
  then have "S dvd m - n" using assms(2) by (simp add: coprime_commute coprime_dvd_mult_left_iff)
  moreover have "\<bar>m - n\<bar> < S" using m n by linarith
  ultimately show "m = n" using dvd_imp_le_int[of "m - n" S] assms(1) by linarith
qed

text \<open>Slot \<open>s\<close> in the row \<open>s div d\<close> and the column \<open>s mod d\<close> of a grid with one column more.\<close>

lemma slot_index:
  fixes d rows s :: nat
  assumes "0 < d" "s < rows * d"
  defines "i \<equiv> s div d * (d + 1) + s mod d"
  shows "i < rows * (d + 1)" "i mod (d + 1) = s mod d" "i div (d + 1) = s div d"
proof -
  have m: "s mod d < d + 1" using assms(1) by (simp add: less_SucI)
  show q: "i mod (d + 1) = s mod d" "i div (d + 1) = s div d"
    unfolding i_def using m by (simp_all del: add_Suc_right)
  have "s div d < rows" using assms(1,2) by (simp add: less_mult_imp_div_less)
  then show "i < rows * (d + 1)"
    using q(2) by (metis add_gr_0 div_less_iff_less_mult less_one)
qed

lemma clock_slot:
  fixes n :: int and columns rows :: nat
  assumes "2 \<le> columns" "0 < rows"
  defines "S \<equiv> rows * (columns - 1)"
  defines "s \<equiv> nat ((n * int (coprime_step S 7) + 3) mod int S)"
  shows "s < S" "clockSlotAt n columns (rows * columns) = s div (columns - 1) * columns + s mod (columns - 1)"
proof -
  have S: "0 < S" using assms(1,2) by (simp add: S_def)
  then show s: "s < S" unfolding s_def by (simp add: nat_less_iff)
  let ?a = "js_rem (js_rem n (int S) + int S) (int S)"
  have a: "?a = n mod int S" using S by (simp add: js_rem_wrap)
  then have "0 \<le> ?a * int (coprime_step S 7) + 3" using S by simp
  then have "nat (js_rem (?a * int (coprime_step S 7) + 3) (int S)) = s"
    unfolding s_def a by (simp add: js_rem_def) (metis mod_add_left_eq mod_mult_left_eq)
  moreover have "s div (columns - 1) * columns + s mod (columns - 1) < rows * columns"
    using slot_index(1)[of "columns - 1" s rows] s assms(1) by (simp add: S_def)
  then have "min (s div (columns - 1) * columns + s mod (columns - 1)) (rows * columns - 1)
      = s div (columns - 1) * columns + s mod (columns - 1)" by linarith
  moreover have "1 < rows * columns" using assms(1,2) mult_le_mono[of 1 rows 2 columns] by simp
  moreover have "max 1 (rows * columns div columns) = rows" "max 1 (rows * (columns - 1)) = S"
    using assms(1,2) S by (simp_all add: S_def)
  ultimately show "clockSlotAt n columns (rows * columns) = s div (columns - 1) * columns + s mod (columns - 1)"
    using assms(1) by (simp add: clockSlotAt_def Let_def S_def)
qed

text \<open>C39. The standby clock wanders over the whole grid: on a grid with at least two columns the
  clock always has the date key to its right in the same row, and in any \<open>rows * (columns - 1)\<close>
  successive minutes it stands at each legal place exactly once; the search for its step ends.\<close>

theorem clock_visits_every_slot:
  assumes "2 \<le> columns" "0 < rows"
  shows "clockSlotAt n columns (rows * columns) < rows * columns
    \<and> clockSlotAt n columns (rows * columns) mod columns < columns - 1
    \<and> (\<forall>j < rows * columns. j mod columns < columns - 1 \<longrightarrow>
         (\<exists>!m. start \<le> m \<and> m < start + int (rows * (columns - 1))
            \<and> clockSlotAt m columns (rows * columns) = j))"
proof (intro conjI allI impI)
  let ?d = "columns - 1" and ?S = "rows * (columns - 1)"
  have d: "0 < ?d" "?d + 1 = columns" and S: "0 < ?S" using assms by simp_all
  note c = clock_slot[OF assms]
  note i = slot_index[OF d(1) c(1), unfolded d(2)]
  show "clockSlotAt n columns (rows * columns) < rows * columns" unfolding c(2) by (rule i(1))
  show "clockSlotAt n columns (rows * columns) mod columns < ?d" unfolding c(2) i(2) using d by simp
  fix j
  assume j: "j < rows * columns" "j mod columns < ?d"
  let ?t = "j div columns * ?d + j mod columns"
  have jd: "j div columns < rows" using j(1) assms(1) by (simp add: less_mult_imp_div_less)
  have t: "?t < ?S"
  proof -
    have "?t < (j div columns + 1) * ?d" using j(2) by simp
    also have "\<dots> \<le> ?S" using jd by (intro mult_le_mono) simp_all
    finally show ?thesis .
  qed
  have "(s div ?d * columns + s mod ?d = j) \<longleftrightarrow> s = ?t" if "s < ?S" for s
  proof
    assume e: "s div ?d * columns + s mod ?d = j"
    then have "j mod columns = s mod ?d" "j div columns = s div ?d"
      using slot_index(2,3)[OF d(1) that, unfolded d(2)] by simp_all
    then show "s = ?t" using div_mult_mod_eq[of s ?d] by simp
  next
    assume "s = ?t"
    then have "s div ?d = j div columns" "s mod ?d = j mod columns" using j(2) d(1) by simp_all
    then show "s div ?d * columns + s mod ?d = j" by simp
  qed
  then have eq: "clockSlotAt m columns (rows * columns) = j
      \<longleftrightarrow> (m * int (coprime_step ?S 7) + 3) mod int ?S = int ?t" for m
    unfolding c(2) using c(1)[of m] S by (metis int_nat_eq nat_int pos_mod_sign of_nat_0_less_iff)
  have "coprime (int (coprime_step ?S 7)) (int ?S)" using coprime_step_coprime[OF S] by simp
  then show "\<exists>!m. start \<le> m \<and> m < start + int ?S \<and> clockSlotAt m columns (rows * columns) = j"
    unfolding eq by (intro affine_window) (use S t in \<open>simp_all only: of_nat_0_less_iff of_nat_less_iff of_nat_0_le_iff\<close>)
qed

lemma clock_visits_every_slot_witness:
  "clockSlotAt (-1) 5 15 mod 5 < 4"
  using clock_visits_every_slot[of 5 3 "-1" 0] by simp

end
