(* ===== verification/Dock_Standby.thy ===== *)
theory Dock_Standby
  imports Acts Standby_Policy
begin

text \<open>
  \<^verbatim>\<open>main/dock-standby.ts\<close>: the controller of one dock's burn-in care.  Its methods and timer
  callbacks are operations on a record; what it tells its sink is their output.  The clock, the
  settings and what the driver and the CORA link answer are an environment that may differ from
  one operation to the next and stays the same during one.  The timers of 0 ms and the debounce
  are part of the state; a timer's callback is an operation that does nothing when the timer is
  not running.
\<close>

section \<open>State\<close>

datatype key_action = Pressed | Released

datatype standby_input =
    In_key int key_action
  | In_extraKey int key_action
  | In_dialPress int key_action
  | In_dialRotate int int
  | In_touch

datatype control = Key_control int | Extra_control int | Dial_control int

datatype hook = Sleep_hook | Wake_hook

datatype standby_event =
    Apply_brightness int
  | Set_sleep bool
  | Enter_standby
  | Exit_standby
  | Paint_standby int
  | Wake_repaint bool
  | Run_hook hook
  | Changed

datatype client_app = App_unknown | App_elgato | App_bitfocus

record standby_env =
  en_now :: int
  en_minuteOfDay :: nat
  en_settings :: standby_settings
  en_pairedBefore :: bool
  en_canSleep :: bool
  en_canShowClock :: bool
  en_childHasClient :: bool
  en_childRxIdleMs :: int

record standby =
  sb_timing :: standby_timing
  sb_bornAt :: int
  sb_requested :: int
  sb_lastInputAt :: int
  sb_lastTickAt :: int
  sb_res :: "int \<times> display_state"
  sb_tick :: bool
  sb_debounce :: "int option"
  sb_exit :: bool
  sb_wake :: "bool option"
  sb_attached :: bool
  sb_sessionSeen :: bool
  sb_detachedGone :: bool
  sb_silent :: bool
  sb_clientApp :: client_app
  sb_off :: bool
  sb_sleeping :: bool
  sb_lastApplied :: "int option"
  sb_inStandby :: bool
  sb_painted :: bool
  sb_lastPaintMinute :: int
  sb_swallowed :: "control set"
  sb_muted :: bool
  sb_wakePending :: bool
  sb_held :: bool

type_synonym standby_act = "(standby, standby_event) eff"

fun tagOf :: "standby_input \<Rightarrow> control option" where
  "tagOf (In_key k a) = Some (Key_control k)"
| "tagOf (In_extraKey w a) = Some (Extra_control w)"
| "tagOf (In_dialPress i a) = Some (Dial_control i)"
| "tagOf _ = None"

fun state_of :: "standby_input \<Rightarrow> key_action option" where
  "state_of (In_key k a) = Some a"
| "state_of (In_extraKey w a) = Some a"
| "state_of (In_dialPress i a) = Some a"
| "state_of _ = None"

section \<open>Deciding\<close>

definition featuresOn :: "standby_env \<Rightarrow> bool" where
  "featuresOn e \<longleftrightarrow> (let s = en_settings e in
     ss_idleDim s \<or> ss_offWhenIdle s \<or> ss_appGoneAction s \<noteq> Gone_none \<or> ss_night s)"

definition inNight :: "standby_env \<Rightarrow> bool" where
  "inNight e \<longleftrightarrow>
     (case (hhmm_minutes (ss_nightStart (en_settings e)), hhmm_minutes (ss_nightEnd (en_settings e))) of
        (Some start, Some stop) \<Rightarrow> inNightWindow (en_minuteOfDay e) start stop
      | _ \<Rightarrow> False)"

definition actionInForce :: "standby_env \<Rightarrow> standby \<Rightarrow> gone_action" where
  "actionInForce e s =
     (let a = ss_appGoneAction (en_settings e) in
      if a = Gone_none \<or> \<not> sb_attached s \<or> \<not> (sb_detachedGone s \<or> sb_silent s) then Gone_none
      else if \<not> sb_sessionSeen s \<and> \<not> en_pairedBefore e then Gone_none
      else if en_now e - sb_bornAt s < bootGraceMs (sb_timing s) then Gone_none
      else if a = Gone_clock \<and> \<not> en_canShowClock e then Gone_off else a)"

definition cap_of :: "standby_env \<Rightarrow> standby \<Rightarrow> cap_input" where
  "cap_of e s =
     (let st = en_settings e; idleFor = en_now e - sb_lastInputAt s; minute = minuteMs (sb_timing s) in
      \<lparr> ci_requested = sb_requested s,
        ci_idle = (ss_idleMinutes st * minute \<le> idleFor),
        ci_offIdle = (ss_offWhenIdle st \<and> ss_offMinutes st * minute \<le> idleFor),
        ci_night = (ss_night st \<and> inNight e),
        ci_appGone = actionInForce e s,
        ci_settings = st \<rparr>)"

definition evaluate :: "standby_env \<Rightarrow> standby \<Rightarrow> (int \<times> display_state) \<times> gone_action" where
  "evaluate e s =
     (if sb_held s then ((sb_requested s, D_active), Gone_none)
      else (computeDisplay (cap_of e s), actionInForce e s))"

section \<open>Acting\<close>

definition writeBacklight :: "standby_env \<Rightarrow> int \<Rightarrow> bool \<Rightarrow> bool \<Rightarrow> standby_act" where
  "writeBacklight e level isOff force s =
     (let wantSleep = (isOff \<and> en_canSleep e \<and> ss_offMode (en_settings e) = Off_auto);
          wakes = (sb_sleeping s \<and> \<not> wantSleep);
          s = (if wakes then s\<lparr>sb_sleeping := False\<rparr> else s);
          es = (if wakes then [Set_sleep False] else [])
      in if wantSleep
         then (s\<lparr>sb_sleeping := True, sb_lastApplied := Some 0\<rparr>,
               es @ (if \<not> sb_sleeping s \<or> force then [Set_sleep True] else []))
         else if force \<or> wakes \<or> sb_lastApplied s \<noteq> Some level
         then (s\<lparr>sb_lastApplied := Some level\<rparr>, es @ [Apply_brightness level])
         else (s, es))"

definition paint_minute :: "standby_env \<Rightarrow> standby \<Rightarrow> standby" where
  "paint_minute e s = s\<lparr>sb_lastPaintMinute := en_now e div minuteMs (sb_timing s)\<rparr>"

definition startPainter :: "standby_env \<Rightarrow> standby_act" where
  "startPainter e = ite (\<lambda>s. snd (sb_res s) = D_off) skip
     (acts [ upd (\<lambda>s. paint_minute e (s\<lparr>sb_painted := True\<rparr>)), emits Enter_standby ])"

definition scheduleWake :: "bool \<Rightarrow> standby \<Rightarrow> standby" where
  "scheduleWake afterSleep s = s\<lparr>sb_wake := Some afterSleep\<rparr>"

definition apply_display ::
  "standby_env \<Rightarrow> int \<times> display_state \<Rightarrow> bool \<Rightarrow> bool \<Rightarrow> bool \<Rightarrow> standby_act" where
  "apply_display e r wantStandby force quiet s =
     (let isOff = (snd r = D_off); wasOff = sb_off s; wasSleeping = sb_sleeping s in acts
      [ ite (\<lambda>s. \<not> wantStandby \<and> sb_inStandby s)
          (acts [ upd (\<lambda>s. s\<lparr>sb_inStandby := False\<rparr>), ite sb_painted (emits Exit_standby) skip,
                  upd (\<lambda>s. s\<lparr>sb_painted := False\<rparr>) ]) skip,
        writeBacklight e (fst r) isOff force,
        upd (\<lambda>s. s\<lparr>sb_off := isOff\<rparr>),
        if isOff \<and> \<not> wasOff \<and> \<not> quiet
          then acts [ upd (\<lambda>s. s\<lparr>sb_wakePending := True\<rparr>), emits (Run_hook Sleep_hook) ] else skip,
        ite (\<lambda>s. wantStandby \<and> \<not> sb_inStandby s)
          (acts [ upd (\<lambda>s. s\<lparr>sb_inStandby := True\<rparr>), startPainter e ]) skip,
        if wasOff \<and> \<not> isOff then upd (scheduleWake wasSleeping) else skip ] s)"

definition runPendingWake :: standby_act where
  "runPendingWake = ite (\<lambda>s. \<not> sb_wakePending s \<or> sb_off s \<or> sb_wake s \<noteq> None) skip
     (acts [ upd (\<lambda>s. s\<lparr>sb_wakePending := False\<rparr>), emits (Run_hook Wake_hook) ])"

definition recompute :: "bool \<Rightarrow> bool \<Rightarrow> standby_env \<Rightarrow> standby_act" where
  "recompute force quiet e s =
     (let (r, action) = evaluate e s; prev = sb_res s in acts
      [ upd (\<lambda>s. s\<lparr>sb_res := r\<rparr>),
        ite sb_attached (acts [ apply_display e r (action = Gone_clock) force quiet, runPendingWake ]) skip,
        ite (\<lambda>s. \<not> sb_muted s \<and> r \<noteq> prev) (emits Changed) skip ] s)"

section \<open>Timers\<close>

definition clearGone :: "standby \<Rightarrow> standby" where
  "clearGone s = s\<lparr>sb_debounce := None, sb_detachedGone := False, sb_silent := False\<rparr>"

definition armDebounce :: "bool \<Rightarrow> standby_env \<Rightarrow> standby \<Rightarrow> standby" where
  "armDebounce restart e s =
     (if sb_debounce s \<noteq> None \<and> \<not> restart then s
      else s\<lparr>sb_debounce := Some (en_now e + appGoneDebounceMs (sb_timing s))\<rparr>)"

definition syncTimers :: "standby_env \<Rightarrow> standby \<Rightarrow> standby" where
  "syncTimers e s =
     (let s = (if \<not> featuresOn e then s\<lparr>sb_tick := False\<rparr>
               else if \<not> sb_tick s then s\<lparr>sb_lastTickAt := en_now e, sb_tick := True\<rparr>
               else s)
      in if ss_appGoneAction (en_settings e) = Gone_none then clearGone s
         else if \<not> en_childHasClient e \<and> \<not> sb_detachedGone s then armDebounce False e s
         else s)"

abbreviation (input) DEFAULT_BRIGHTNESS :: int where "DEFAULT_BRIGHTNESS \<equiv> 100"

definition new_standby :: "standby_timing \<Rightarrow> standby_env \<Rightarrow> standby" where
  "new_standby timing e =
     (let s = \<lparr> sb_timing = timing, sb_bornAt = en_now e, sb_requested = DEFAULT_BRIGHTNESS,
                sb_lastInputAt = en_now e, sb_lastTickAt = en_now e, sb_res = (0, D_active),
                sb_tick = False, sb_debounce = None, sb_exit = False, sb_wake = None,
                sb_attached = False, sb_sessionSeen = False, sb_detachedGone = False,
                sb_silent = False, sb_clientApp = App_unknown, sb_off = False, sb_sleeping = False,
                sb_lastApplied = None, sb_inStandby = False, sb_painted = False,
                sb_lastPaintMinute = -1, sb_swallowed = {}, sb_muted = False,
                sb_wakePending = False, sb_held = False \<rparr>
      in syncTimers e (s\<lparr>sb_res := fst (evaluate e s)\<rparr>))"

section \<open>Operations\<close>

definition setRequested :: "int \<Rightarrow> standby_env \<Rightarrow> standby_act" where
  "setRequested level e s =
     (let s = s\<lparr>sb_requested := level\<rparr>; r = fst (evaluate e s) in acts
      [ upd (\<lambda>s. s\<lparr>sb_muted := True\<rparr>),
        recompute (fst r = level \<and> snd r \<noteq> D_off) False e,
        upd (\<lambda>s. s\<lparr>sb_muted := False\<rparr>) ] s)"

definition noteActivity :: "standby_env \<Rightarrow> standby_act" where
  "noteActivity e = acts [ upd (\<lambda>s. s\<lparr>sb_lastInputAt := en_now e\<rparr>), recompute False False e ]"

text \<open>The first component tells whether the input is consumed.\<close>

definition noteInput :: "standby_env \<Rightarrow> standby_input \<Rightarrow> standby \<Rightarrow> bool \<times> standby \<times> standby_event list" where
  "noteInput e i s =
     (let tags = set_option (tagOf i); isUp = (state_of i = Some Released);
          s = (if state_of i = Some Pressed then s\<lparr>sb_swallowed := sb_swallowed s - tags\<rparr> else s);
          s1 = s\<lparr>sb_lastInputAt := en_now e\<rparr>
      in if \<not> featuresOn e
         then (isUp \<and> tags \<inter> sb_swallowed s \<noteq> {},
               if isUp then s1\<lparr>sb_swallowed := sb_swallowed s - tags\<rparr> else s1, [])
         else let before = fst (fst (evaluate e s));
                  waking = (\<not> isUp \<and> before < fst (fst (evaluate e s1)));
                  (s2, es) = recompute False False e s1
              in if isUp then (tags \<inter> sb_swallowed s2 \<noteq> {}, s2\<lparr>sb_swallowed := sb_swallowed s2 - tags\<rparr>, es)
                 else let swallow = (waking \<and> ss_wakePress (en_settings e) = Wake_swallow)
                      in (swallow,
                          if swallow then s2\<lparr>sb_swallowed := sb_swallowed s2 \<union> tags\<rparr> else s2, es))"

definition onAppAttached :: "standby_env \<Rightarrow> standby_act" where
  "onAppAttached e = acts
     [ upd (\<lambda>s. clearGone (s\<lparr>sb_clientApp := App_unknown, sb_sessionSeen := True\<rparr>)), recompute False False e ]"

definition onAppDetached :: "standby_env \<Rightarrow> standby_act" where
  "onAppDetached e = upd (\<lambda>s. let s = s\<lparr>sb_clientApp := App_unknown\<rparr> in
     if ss_appGoneAction (en_settings e) = Gone_none then s else armDebounce True e s)"

definition onDebounceTimer :: "standby_env \<Rightarrow> standby_act" where
  "onDebounceTimer e s =
     (if sb_debounce s = None then skip s
      else let s = s\<lparr>sb_debounce := None\<rparr> in
        if en_childHasClient e then skip s
        else recompute False False e (s\<lparr>sb_detachedGone := True\<rparr>))"

definition onClientApp :: "client_app \<Rightarrow> standby_act" where
  "onClientApp app = upd (\<lambda>s. s\<lparr>sb_clientApp := app\<rparr>)"

definition noteAppTraffic :: standby_act where
  "noteAppTraffic = upd (\<lambda>s. if \<not> sb_detachedGone s \<and> \<not> sb_silent s then s
     else if sb_exit s then s else s\<lparr>sb_exit := True\<rparr>)"

definition onExitTimer :: "standby_env \<Rightarrow> standby_act" where
  "onExitTimer e s =
     (if \<not> sb_exit s then skip s else recompute False False e (clearGone (s\<lparr>sb_exit := False\<rparr>)))"

definition onDriverAttached :: "int option \<Rightarrow> standby_env \<Rightarrow> standby_act" where
  "onDriverAttached applied e = acts
     [ upd (\<lambda>s. syncTimers e (s\<lparr>sb_attached := True, sb_lastInputAt := en_now e, sb_off := False,
                               sb_sleeping := False, sb_lastApplied := applied\<rparr>)),
       recompute (applied = None) True e ]"

definition onDriverDetached :: "standby_env \<Rightarrow> standby_act" where
  "onDriverDetached e = upd (\<lambda>s.
     let s = s\<lparr>sb_attached := False, sb_sleeping := False, sb_lastApplied := None,
               sb_inStandby := False, sb_painted := False, sb_swallowed := {}, sb_wake := None\<rparr>
     in s\<lparr>sb_res := fst (evaluate e s)\<rparr>)"

definition setHeld :: "bool \<Rightarrow> standby_env \<Rightarrow> standby_act" where
  "setHeld on e = ite (\<lambda>s. sb_held s = on) skip
     (acts [ upd (\<lambda>s. s\<lparr>sb_held := on\<rparr>), recompute False False e ])"

definition onDeviceReinit :: "standby_env \<Rightarrow> standby_act" where
  "onDeviceReinit e = recompute True False e"

definition sb_reload :: "standby_env \<Rightarrow> standby_act" where
  "sb_reload e = acts
     [ upd (\<lambda>s. syncTimers e (s\<lparr>sb_lastInputAt := en_now e\<rparr>)), recompute False False e ]"

definition sb_stop :: standby_act where
  "sb_stop = upd (\<lambda>s. s\<lparr>sb_tick := False, sb_debounce := None, sb_exit := False, sb_wake := None\<rparr>)"

definition is_silent :: "standby_env \<Rightarrow> standby \<Rightarrow> bool" where
  "is_silent e s \<longleftrightarrow>
     0 < silenceMs (sb_timing s) \<and> ss_appGoneAction (en_settings e) \<noteq> Gone_none
     \<and> sb_clientApp s \<noteq> App_bitfocus \<and> en_childHasClient e \<and> silenceMs (sb_timing s) < en_childRxIdleMs e"

definition onTick :: "standby_env \<Rightarrow> standby_act" where
  "onTick e s =
     (if \<not> sb_tick s then skip s
      else let force = (hostResumeGapMs (sb_timing s) < en_now e - sb_lastTickAt s);
               minute = en_now e div minuteMs (sb_timing s) in acts
        [ upd (\<lambda>s. if force then s\<lparr>sb_lastInputAt := en_now e\<rparr> else s),
          upd (\<lambda>s. s\<lparr>sb_lastTickAt := en_now e, sb_silent := is_silent e s\<rparr>),
          recompute force False e,
          ite (\<lambda>s. sb_painted s \<and> 0 < fst (sb_res s) \<and> minute \<noteq> sb_lastPaintMinute s)
            (acts [ upd (\<lambda>s. s\<lparr>sb_lastPaintMinute := minute\<rparr>), emits (Paint_standby (en_now e)) ]) skip ] s)"

definition onWakeTimer :: "standby_env \<Rightarrow> standby_act" where
  "onWakeTimer e s =
     (case sb_wake s of
        None \<Rightarrow> skip s
      | Some afterSleep \<Rightarrow> acts
          [ upd (\<lambda>s. s\<lparr>sb_wake := None\<rparr>), emits (Wake_repaint afterSleep),
            ite sb_inStandby
              (acts [ upd (paint_minute e),
                      ite (\<lambda>s. afterSleep \<or> \<not> sb_painted s) (emits Enter_standby) (emits (Paint_standby (en_now e))),
                      upd (\<lambda>s. s\<lparr>sb_painted := True\<rparr>) ]) skip,
            upd (\<lambda>s. s\<lparr>sb_wakePending := False\<rparr>), emits (Run_hook Wake_hook) ] s)"

subsection \<open>Everything that can happen to a controller\<close>

datatype sb_input =
    Set_requested int
  | Note_activity
  | User_input standby_input
  | App_attached
  | App_detached
  | Client_app client_app
  | App_traffic
  | Driver_attached "int option"
  | Driver_detached
  | Hold bool
  | Device_reinit
  | Reload
  | Tick
  | Debounce_fired
  | Exit_fired
  | Wake_fired

fun sb_step :: "sb_input \<Rightarrow> standby_env \<Rightarrow> standby_act" where
  "sb_step (Set_requested l) e = setRequested l e"
| "sb_step Note_activity e = noteActivity e"
| "sb_step (User_input i) e = (\<lambda>s. snd (noteInput e i s))"
| "sb_step App_attached e = onAppAttached e"
| "sb_step App_detached e = onAppDetached e"
| "sb_step (Client_app a) e = onClientApp a"
| "sb_step App_traffic e = noteAppTraffic"
| "sb_step (Driver_attached l) e = onDriverAttached l e"
| "sb_step Driver_detached e = onDriverDetached e"
| "sb_step (Hold b) e = setHeld b e"
| "sb_step Device_reinit e = onDeviceReinit e"
| "sb_step Reload e = sb_reload e"
| "sb_step Tick e = onTick e"
| "sb_step Debounce_fired e = onDebounceTimer e"
| "sb_step Exit_fired e = onExitTimer e"
| "sb_step Wake_fired e = onWakeTimer e"

section \<open>What an evaluation does\<close>

definition wants_sleep :: "standby_env \<Rightarrow> int \<times> display_state \<Rightarrow> bool" where
  "wants_sleep e r \<longleftrightarrow> snd r = D_off \<and> en_canSleep e \<and> ss_offMode (en_settings e) = Off_auto"

lemma backlight_state:
  "fst (writeBacklight e (fst r) (snd r = D_off) force s) =
     s\<lparr>sb_sleeping := wants_sleep e r,
       sb_lastApplied := Some (if wants_sleep e r then 0 else fst r)\<rparr>"
  by (simp add: writeBacklight_def wants_sleep_def Let_def)

lemmas display_defs = apply_display_def startPainter_def runPendingWake_def paint_minute_def
  scheduleWake_def ite_def Let_def

lemma apply_display_fields [simp]:
  fixes e r want force quiet s
  defines "t \<equiv> fst (apply_display e r want force quiet s)"
  shows "sb_timing t = sb_timing s" "sb_bornAt t = sb_bornAt s" "sb_requested t = sb_requested s"
    "sb_lastInputAt t = sb_lastInputAt s" "sb_lastTickAt t = sb_lastTickAt s" "sb_res t = sb_res s"
    "sb_tick t = sb_tick s" "sb_debounce t = sb_debounce s" "sb_exit t = sb_exit s"
    "sb_attached t = sb_attached s" "sb_sessionSeen t = sb_sessionSeen s"
    "sb_detachedGone t = sb_detachedGone s" "sb_silent t = sb_silent s"
    "sb_clientApp t = sb_clientApp s" "sb_swallowed t = sb_swallowed s" "sb_muted t = sb_muted s"
    "sb_held t = sb_held s" "sb_off t = (snd r = D_off)" "sb_sleeping t = wants_sleep e r"
    "sb_lastApplied t = Some (if wants_sleep e r then 0 else fst r)" "sb_inStandby t = want"
    "sb_wake t = (if sb_off s \<and> snd r \<noteq> D_off then Some (sb_sleeping s) else sb_wake s)"
    "sb_wakePending t = (sb_wakePending s \<or> snd r = D_off \<and> \<not> sb_off s \<and> \<not> quiet)"
  unfolding t_def by (auto simp: display_defs backlight_state)

lemma pending_fields [simp]:
  fixes s defines "t \<equiv> fst (runPendingWake s)"
  shows "sb_timing t = sb_timing s" "sb_bornAt t = sb_bornAt s" "sb_requested t = sb_requested s"
    "sb_lastInputAt t = sb_lastInputAt s" "sb_lastTickAt t = sb_lastTickAt s" "sb_res t = sb_res s"
    "sb_tick t = sb_tick s" "sb_debounce t = sb_debounce s" "sb_exit t = sb_exit s"
    "sb_attached t = sb_attached s" "sb_sessionSeen t = sb_sessionSeen s"
    "sb_detachedGone t = sb_detachedGone s" "sb_silent t = sb_silent s"
    "sb_clientApp t = sb_clientApp s" "sb_swallowed t = sb_swallowed s" "sb_muted t = sb_muted s"
    "sb_held t = sb_held s" "sb_off t = sb_off s" "sb_sleeping t = sb_sleeping s"
    "sb_lastApplied t = sb_lastApplied s" "sb_inStandby t = sb_inStandby s" "sb_painted t = sb_painted s"
    "sb_wake t = sb_wake s"
    "sb_wakePending t = (sb_wakePending s \<and> (sb_off s \<or> sb_wake s \<noteq> None))"
  unfolding t_def by (auto simp: display_defs)

lemma recompute_state:
  "fst (recompute force quiet e s) =
     (let r = fst (evaluate e s); a = snd (evaluate e s); s1 = s\<lparr>sb_res := r\<rparr> in
      if sb_attached s then fst (runPendingWake (fst (apply_display e r (a = Gone_clock) force quiet s1))) else s1)"
  by (auto simp: recompute_def ite_def Let_def split: prod.splits)

lemma recompute_fields [simp]:
  fixes e force quiet s
  defines "t \<equiv> fst (recompute force quiet e s)"
  shows "sb_timing t = sb_timing s" "sb_bornAt t = sb_bornAt s" "sb_requested t = sb_requested s"
    "sb_lastInputAt t = sb_lastInputAt s" "sb_lastTickAt t = sb_lastTickAt s"
    "sb_res t = fst (evaluate e s)" "sb_tick t = sb_tick s" "sb_debounce t = sb_debounce s"
    "sb_exit t = sb_exit s" "sb_attached t = sb_attached s" "sb_sessionSeen t = sb_sessionSeen s"
    "sb_detachedGone t = sb_detachedGone s" "sb_silent t = sb_silent s"
    "sb_clientApp t = sb_clientApp s" "sb_swallowed t = sb_swallowed s" "sb_muted t = sb_muted s"
    "sb_held t = sb_held s"
  unfolding t_def by (simp_all add: recompute_state Let_def)

lemma recompute_attached [simp]:
  fixes e force quiet s
  defines "t \<equiv> fst (recompute force quiet e s)" and "r \<equiv> fst (evaluate e s)"
  assumes "sb_attached s"
  shows "sb_off t = (snd r = D_off)" "sb_sleeping t = wants_sleep e r"
    "sb_lastApplied t = Some (if wants_sleep e r then 0 else fst r)"
    "sb_inStandby t = (snd (evaluate e s) = Gone_clock)"
    "sb_wake t = (if sb_off s \<and> snd r \<noteq> D_off then Some (sb_sleeping s) else sb_wake s)"
    "sb_wakePending t = ((sb_wakePending s \<or> snd r = D_off \<and> \<not> sb_off s \<and> \<not> quiet)
        \<and> (snd r = D_off \<or> sb_off s \<and> snd r \<noteq> D_off \<or> sb_wake s \<noteq> None))"
  using assms(3) unfolding t_def r_def by (auto simp: recompute_state Let_def)

lemma recompute_detached [simp]:
  "\<not> sb_attached s \<Longrightarrow> fst (recompute force quiet e s) = s\<lparr>sb_res := fst (evaluate e s)\<rparr>"
  by (simp add: recompute_state Let_def)

section \<open>The panel and the hooks\<close>

text \<open>What the sink has done so far: the backlight of the panel, where it is known, whether it
  sleeps, and the hook command that ran last.\<close>

record panel =
  pn_level :: "int option"
  pn_asleep :: bool
  pn_hook :: "hook option"

fun panel_event :: "standby_event \<Rightarrow> panel \<Rightarrow> panel" where
  "panel_event (Apply_brightness l) p = p\<lparr>pn_level := Some l\<rparr>"
| "panel_event (Set_sleep b) p = p\<lparr>pn_asleep := b\<rparr>"
| "panel_event (Run_hook h) p = p\<lparr>pn_hook := Some h\<rparr>"
| "panel_event _ p = p"

definition agrees :: "panel \<Rightarrow> standby \<Rightarrow> bool" where
  "agrees p s \<longleftrightarrow> (pn_hook p = Some Sleep_hook) = sb_wakePending s
     \<and> (sb_attached s \<longrightarrow> pn_asleep p = sb_sleeping s
        \<and> (\<not> sb_sleeping s \<longrightarrow> sb_lastApplied s \<noteq> None \<longrightarrow> pn_level p = sb_lastApplied s))"

text \<open>Operations after which the panel still agrees with the controller.\<close>

definition keeps_panel :: "standby_act \<Rightarrow> bool" where
  "keeps_panel f \<longleftrightarrow>
     (\<forall>p s. agrees p s \<longrightarrow> agrees (fold panel_event (snd (f s)) p) (fst (f s)))"

named_theorems panel_intros

lemma keeps_panelD: "keeps_panel f \<Longrightarrow> agrees p s \<Longrightarrow> agrees (fold panel_event (snd (f s)) p) (fst (f s))"
  by (simp add: keeps_panel_def)

lemma keeps_skip [panel_intros]: "keeps_panel skip"
  by (simp add: keeps_panel_def)

lemma keeps_upd [panel_intros]:
  "(\<And>s. sb_attached (f s) = sb_attached s \<and> sb_wakePending (f s) = sb_wakePending s
      \<and> (sb_attached s \<longrightarrow> sb_sleeping (f s) = sb_sleeping s \<and> sb_lastApplied (f s) = sb_lastApplied s))
    \<Longrightarrow> keeps_panel (upd f)"
  by (simp add: keeps_panel_def agrees_def)

lemma keeps_hooks:
  "keeps_panel (acts [ upd (\<lambda>s. s\<lparr>sb_wakePending := True\<rparr>), emits (Run_hook Sleep_hook) ])"
  "keeps_panel (acts [ upd (\<lambda>s. s\<lparr>sb_wakePending := False\<rparr>), emits (Run_hook Wake_hook) ])"
  by (simp_all add: keeps_panel_def agrees_def)

lemma keeps_emits [panel_intros]: "(\<And>p. panel_event v p = p) \<Longrightarrow> keeps_panel (emits v)"
  by (simp add: keeps_panel_def)

lemma keeps_ite [panel_intros]: "keeps_panel f \<Longrightarrow> keeps_panel g \<Longrightarrow> keeps_panel (ite b f g)"
  by (simp add: keeps_panel_def ite_def)

lemma keeps_if [panel_intros]: "keeps_panel f \<Longrightarrow> keeps_panel g \<Longrightarrow> keeps_panel (if b then f else g)"
  by simp

lemma keeps_nil [panel_intros]: "keeps_panel (acts [])"
  by (simp add: keeps_panel_def)

lemma keeps_cons [panel_intros]:
  "keeps_panel f \<Longrightarrow> keeps_panel (acts fs) \<Longrightarrow> keeps_panel (acts (f # fs))"
  by (simp add: keeps_panel_def)

lemma keeps_backlight [panel_intros]: "keeps_panel (writeBacklight e level off force)"
  by (auto simp: keeps_panel_def agrees_def writeBacklight_def Let_def)

lemma keeps_painter [panel_intros]: "keeps_panel (startPainter e)"
  unfolding startPainter_def by (intro panel_intros) (simp_all add: paint_minute_def)

lemma keeps_apply: "keeps_panel (apply_display e r want force quiet)"
proof -
  have k: "keeps_panel (acts
      [ ite (\<lambda>s. \<not> want \<and> sb_inStandby s)
          (acts [ upd (\<lambda>s. s\<lparr>sb_inStandby := False\<rparr>), ite sb_painted (emits Exit_standby) skip,
                  upd (\<lambda>s. s\<lparr>sb_painted := False\<rparr>) ]) skip,
        writeBacklight e (fst r) isOff force,
        upd (\<lambda>s. s\<lparr>sb_off := isOff\<rparr>),
        if b then acts [ upd (\<lambda>s. s\<lparr>sb_wakePending := True\<rparr>), emits (Run_hook Sleep_hook) ] else skip,
        ite (\<lambda>s. want \<and> \<not> sb_inStandby s)
          (acts [ upd (\<lambda>s. s\<lparr>sb_inStandby := True\<rparr>), startPainter e ]) skip,
        if c then upd (scheduleWake d) else skip ])" for isOff b c d
    by (intro keeps_hooks panel_intros) (simp_all add: scheduleWake_def)
  show ?thesis
    unfolding keeps_panel_def apply_display_def Let_def by (intro allI impI keeps_panelD[OF k])
qed

lemma keeps_pending [panel_intros]: "keeps_panel runPendingWake"
  unfolding runPendingWake_def by (intro keeps_hooks panel_intros)

lemma keeps_recompute [panel_intros]: "keeps_panel (recompute force quiet e)"
proof -
  have k: "keeps_panel (acts
      [ upd (\<lambda>s. s\<lparr>sb_res := r\<rparr>),
        ite sb_attached (acts [ apply_display e r want force quiet, runPendingWake ]) skip,
        ite (\<lambda>s. \<not> sb_muted s \<and> r \<noteq> prev) (emits Changed) skip ])" for r want prev
    by (intro panel_intros keeps_apply) simp_all
  show ?thesis
    unfolding keeps_panel_def recompute_def Let_def case_prod_beta
    by (intro allI impI keeps_panelD[OF k])
qed

definition standby_ok :: "panel \<Rightarrow> standby \<Rightarrow> bool" where
  "standby_ok p s \<longleftrightarrow> agrees p s \<and> fst (sb_res s) \<le> sb_requested s
     \<and> (sb_attached s \<longrightarrow>
          sb_off s = (snd (sb_res s) = D_off) \<and> (sb_sleeping s \<longrightarrow> sb_off s)
          \<and> (\<not> sb_sleeping s \<longrightarrow> sb_lastApplied s = Some (fst (sb_res s)))
          \<and> (sb_wakePending s \<longrightarrow> \<not> sb_off s \<longrightarrow> sb_wake s \<noteq> None))"

lemma evaluate_le: "fst (fst (evaluate e s)) \<le> sb_requested s"
  by (simp add: evaluate_def computeDisplay_def cap_of_def Let_def)

lemma recompute_ok:
  assumes "agrees p s"
  shows "standby_ok (fold panel_event (snd (recompute force quiet e s)) p) (fst (recompute force quiet e s))"
  using keeps_panelD[OF keeps_recompute assms, of force quiet e] evaluate_le[of e s]
  by (cases "sb_attached s") (auto simp: standby_ok_def wants_sleep_def)

text \<open>The driver that is attached has a fresh panel, with the backlight it was given.\<close>

fun fresh_panel :: "sb_input \<Rightarrow> panel \<Rightarrow> panel" where
  "fresh_panel (Driver_attached l) p = p\<lparr>pn_level := l, pn_asleep := False\<rparr>"
| "fresh_panel _ p = p"

lemma timers_keep [simp]:
  "sb_attached (syncTimers e s) = sb_attached s" "sb_sleeping (syncTimers e s) = sb_sleeping s"
  "sb_lastApplied (syncTimers e s) = sb_lastApplied s" "sb_wakePending (syncTimers e s) = sb_wakePending s"
  "sb_off (syncTimers e s) = sb_off s" "sb_res (syncTimers e s) = sb_res s"
  "sb_requested (syncTimers e s) = sb_requested s" "sb_wake (syncTimers e s) = sb_wake s"
  "sb_lastInputAt (syncTimers e s) = sb_lastInputAt s"
  by (simp_all add: syncTimers_def clearGone_def armDebounce_def Let_def)

lemma standby_ok_cong:
  assumes "standby_ok p s" "sb_attached s' = sb_attached s" "sb_wakePending s' = sb_wakePending s"
    "sb_sleeping s' = sb_sleeping s" "sb_lastApplied s' = sb_lastApplied s" "sb_res s' = sb_res s"
    "sb_requested s' = sb_requested s" "sb_off s' = sb_off s" "sb_wake s' = sb_wake s"
  shows "standby_ok p s'"
  using assms(1) unfolding standby_ok_def agrees_def assms(2-) .

lemma agrees_cong:
  assumes "standby_ok p s" "sb_attached s' = sb_attached s" "sb_wakePending s' = sb_wakePending s"
    "sb_sleeping s' = sb_sleeping s" "sb_lastApplied s' = sb_lastApplied s"
  shows "agrees p s'"
  using assms(1) by (simp add: standby_ok_def agrees_def assms(2-))

text \<open>The state an input evaluates.\<close>

definition input_state :: "standby_env \<Rightarrow> standby_input \<Rightarrow> standby \<Rightarrow> standby" where
  "input_state e i s =
     (if state_of i = Some Pressed then s\<lparr>sb_swallowed := sb_swallowed s - set_option (tagOf i)\<rparr> else s)
       \<lparr>sb_lastInputAt := en_now e\<rparr>"

lemma input_state_fields [simp]:
  "sb_attached (input_state e i s) = sb_attached s" "sb_wakePending (input_state e i s) = sb_wakePending s"
  "sb_sleeping (input_state e i s) = sb_sleeping s" "sb_lastApplied (input_state e i s) = sb_lastApplied s"
  "sb_res (input_state e i s) = sb_res s" "sb_requested (input_state e i s) = sb_requested s"
  "sb_off (input_state e i s) = sb_off s" "sb_wake (input_state e i s) = sb_wake s"
  "sb_lastInputAt (input_state e i s) = en_now e" "sb_held (input_state e i s) = sb_held s"
  "sb_timing (input_state e i s) = sb_timing s" "sb_detachedGone (input_state e i s) = sb_detachedGone s"
  "sb_silent (input_state e i s) = sb_silent s" "sb_sessionSeen (input_state e i s) = sb_sessionSeen s"
  "sb_bornAt (input_state e i s) = sb_bornAt s"
  "sb_swallowed (input_state e i s) =
     (if state_of i = Some Pressed then sb_swallowed s - set_option (tagOf i) else sb_swallowed s)"
  by (simp_all add: input_state_def)

lemma noteInput_state:
  "snd (snd (noteInput e i s)) =
     (if featuresOn e then snd (recompute False False e (input_state e i s)) else [])"
  "fst (snd (noteInput e i s)) =
     (if featuresOn e then fst (recompute False False e (input_state e i s)) else input_state e i s)
       \<lparr>sb_swallowed := sb_swallowed (fst (snd (noteInput e i s)))\<rparr>"
  by (simp_all add: noteInput_def input_state_def Let_def case_prod_beta)

lemma evaluate_swallowed [simp]:
  "evaluate e (s\<lparr>sb_swallowed := w\<rparr>) = evaluate e s"
  "evaluate e (s\<lparr>sb_swallowed := w, sb_lastInputAt := t\<rparr>) = evaluate e (s\<lparr>sb_lastInputAt := t\<rparr>)"
  by (simp_all add: evaluate_def cap_of_def actionInForce_def Let_def)

lemma noteInput_swallows:
  "fst (noteInput e i s) =
     (if state_of i = Some Released then set_option (tagOf i) \<inter> sb_swallowed s \<noteq> {}
      else featuresOn e \<and> ss_wakePress (en_settings e) = Wake_swallow
        \<and> fst (fst (evaluate e s)) < fst (fst (evaluate e (s\<lparr>sb_lastInputAt := en_now e\<rparr>))))"
  by (cases "state_of i = Some Released"; cases "featuresOn e")
    (simp_all add: noteInput_def Let_def case_prod_beta conj_commute)

lemma untagged: "state_of i \<noteq> None \<longleftrightarrow> tagOf i \<noteq> None"
  by (cases i) simp_all

lemma noteInput_swallowed:
  "sb_swallowed (fst (snd (noteInput e i s))) =
     (if state_of i = Some Released then sb_swallowed s - set_option (tagOf i)
      else if fst (noteInput e i s) then sb_swallowed s \<union> set_option (tagOf i)
      else sb_swallowed s - set_option (tagOf i))"
proof (cases "state_of i")
  case None
  then show ?thesis using untagged[of i] by (simp add: noteInput_def Let_def case_prod_beta)
next
  case (Some a)
  show ?thesis
    by (cases a; cases "featuresOn e") (auto simp: Some noteInput_def Let_def case_prod_beta)
qed

lemma standby_step_ok:
  assumes ok: "standby_ok p s"
  shows "standby_ok (fold panel_event (snd (sb_step i e s)) (fresh_panel i p)) (fst (sb_step i e s))"
proof (cases i)
  case (Set_requested l)
  have "agrees p (s\<lparr>sb_requested := l, sb_muted := True\<rparr>)" by (rule agrees_cong[OF ok]) simp_all
  note r = recompute_ok[OF this]
  show ?thesis by (simp add: Set_requested setRequested_def Let_def) (rule standby_ok_cong[OF r]; simp)
next
  case Note_activity
  have "agrees p (s\<lparr>sb_lastInputAt := en_now e\<rparr>)" by (rule agrees_cong[OF ok]) simp_all
  from recompute_ok[OF this] show ?thesis by (simp add: Note_activity noteActivity_def)
next
  case (User_input j)
  have a: "agrees p (input_state e j s)" by (rule agrees_cong[OF ok]) simp_all
  have b: "standby_ok p (input_state e j s)" by (rule standby_ok_cong[OF ok]) simp_all
  show ?thesis
    unfolding User_input sb_step.simps fresh_panel.simps noteInput_state(1)
    by (subst noteInput_state(2)) (auto intro: standby_ok_cong[OF recompute_ok[OF a]] standby_ok_cong[OF b])
next
  case App_attached
  have "agrees p (clearGone (s\<lparr>sb_clientApp := App_unknown, sb_sessionSeen := True\<rparr>))"
    by (rule agrees_cong[OF ok]) (simp_all add: clearGone_def)
  from recompute_ok[OF this] show ?thesis by (simp add: App_attached onAppAttached_def)
next
  case App_detached
  show ?thesis
    by (simp add: App_detached onAppDetached_def Let_def) (rule conjI impI standby_ok_cong[OF ok] | simp add: armDebounce_def)+
next
  case (Client_app a)
  show ?thesis by (simp add: Client_app onClientApp_def) (rule standby_ok_cong[OF ok]; simp)
next
  case App_traffic
  show ?thesis by (simp add: App_traffic noteAppTraffic_def) (rule conjI impI ok standby_ok_cong[OF ok] | simp add: ok)+
next
  case (Driver_attached l)
  let ?u = "syncTimers e (s\<lparr>sb_attached := True, sb_lastInputAt := en_now e, sb_off := False,
     sb_sleeping := False, sb_lastApplied := l\<rparr>)"
  have "agrees (fresh_panel i p) ?u" using ok by (simp add: Driver_attached standby_ok_def agrees_def)
  from recompute_ok[OF this] show ?thesis by (simp add: Driver_attached onDriverAttached_def)
next
  case Driver_detached
  show ?thesis
    using ok evaluate_le[of e "s\<lparr>sb_attached := False, sb_sleeping := False, sb_lastApplied := None,
        sb_inStandby := False, sb_painted := False, sb_swallowed := {}, sb_wake := None\<rparr>"]
    by (simp add: Driver_detached onDriverDetached_def Let_def standby_ok_def agrees_def)
next
  case (Hold b)
  have "agrees p (s\<lparr>sb_held := b\<rparr>)" by (rule agrees_cong[OF ok]) simp_all
  from recompute_ok[OF this] show ?thesis using ok by (simp add: Hold setHeld_def ite_def)
next
  case Device_reinit
  have "agrees p s" using ok by (simp add: standby_ok_def)
  from recompute_ok[OF this] show ?thesis by (simp add: Device_reinit onDeviceReinit_def)
next
  case Reload
  have "agrees p (syncTimers e (s\<lparr>sb_lastInputAt := en_now e\<rparr>))" by (rule agrees_cong[OF ok]) simp_all
  from recompute_ok[OF this] show ?thesis by (simp add: Reload sb_reload_def)
next
  case Tick
  define force where "force = (hostResumeGapMs (sb_timing s) < en_now e - sb_lastTickAt s)"
  define minute where "minute = en_now e div minuteMs (sb_timing s)"
  define u where "u = (if force then s\<lparr>sb_lastInputAt := en_now e\<rparr> else s)
     \<lparr>sb_lastTickAt := en_now e, sb_silent := is_silent e (if force then s\<lparr>sb_lastInputAt := en_now e\<rparr> else s)\<rparr>"
  define paint where "paint = (ite (\<lambda>s. sb_painted s \<and> 0 < fst (sb_res s) \<and> minute \<noteq> sb_lastPaintMinute s)
     (acts [ upd (\<lambda>s. s\<lparr>sb_lastPaintMinute := minute\<rparr>), emits (Paint_standby (en_now e)) ]) skip :: standby_act)"
  have "agrees p u" by (rule agrees_cong[OF ok]) (simp_all add: u_def)
  note r = recompute_ok[OF this, of force False e]
  have k: "standby_ok (fold panel_event (snd (paint t)) q) (fst (paint t))" if "standby_ok q t" for q t
    using that by (auto simp: paint_def ite_def elim: standby_ok_cong)
  have "sb_tick s \<Longrightarrow> fst (onTick e s) = fst (paint (fst (recompute force False e u)))
      \<and> snd (onTick e s) = snd (recompute force False e u) @ snd (paint (fst (recompute force False e u)))"
    by (simp add: onTick_def Let_def force_def[symmetric] minute_def[symmetric] paint_def[symmetric] u_def[symmetric])
  then show ?thesis
    using k[OF r] ok by (cases "sb_tick s") (simp_all add: Tick onTick_def)
next
  case Debounce_fired
  have "agrees p (s\<lparr>sb_debounce := None, sb_detachedGone := True\<rparr>)" by (rule agrees_cong[OF ok]) simp_all
  from recompute_ok[OF this] have "standby_ok (fold panel_event (snd (recompute False False e (s\<lparr>sb_debounce := None, sb_detachedGone := True\<rparr>))) p)
    (fst (recompute False False e (s\<lparr>sb_debounce := None, sb_detachedGone := True\<rparr>)))" .
  moreover have "standby_ok p (s\<lparr>sb_debounce := None\<rparr>)" by (rule standby_ok_cong[OF ok]) simp_all
  ultimately show ?thesis using ok by (simp add: Debounce_fired onDebounceTimer_def Let_def)
next
  case Exit_fired
  have "agrees p (clearGone (s\<lparr>sb_exit := False\<rparr>))" by (rule agrees_cong[OF ok]) (simp_all add: clearGone_def)
  from recompute_ok[OF this] show ?thesis using ok by (simp add: Exit_fired onExitTimer_def)
next
  case Wake_fired
  show ?thesis
  proof (cases "sb_wake s")
    case (Some after)
    then show ?thesis
      using ok by (simp add: Wake_fired onWakeTimer_def standby_ok_def agrees_def ite_def paint_minute_def)
        blast
  qed (use ok in \<open>simp add: Wake_fired onWakeTimer_def\<close>)
qed

section \<open>Runs\<close>

fun sb_run :: "standby \<times> panel \<Rightarrow> (sb_input \<times> standby_env) list \<Rightarrow> standby \<times> panel" where
  "sb_run (s, p) [] = (s, p)"
| "sb_run (s, p) ((i, e) # is) =
     (let (s', es) = sb_step i e s in sb_run (s', fold panel_event es (fresh_panel i p)) is)"

lemma standby_run_ok: "standby_ok p s \<Longrightarrow> sb_run (s, p) is = (s', p') \<Longrightarrow> standby_ok p' s'"
proof (induction "is" arbitrary: s p)
  case (Cons ie "is")
  obtain i e where "ie = (i, e)" by (cases ie)
  then show ?case using Cons.IH[OF standby_step_ok[OF Cons.prems(1), of i e]] Cons.prems(2)
    by (simp add: Let_def case_prod_beta)
qed simp

lemma standby_new_ok: "pn_hook p = None \<Longrightarrow> standby_ok p (new_standby timing e)"
  by (auto simp: new_standby_def standby_ok_def agrees_def Let_def intro: order_trans[OF evaluate_le])

subsection \<open>An example\<close>

definition example_settings :: standby_settings where
  "example_settings =
     \<lparr> ss_idleDim = True, ss_idleMinutes = 5, ss_idleLevel = 10, ss_offWhenIdle = True,
       ss_offMinutes = 30, ss_offMode = Off_auto, ss_wakePress = Wake_swallow,
       ss_appGoneAction = Gone_none, ss_clockLevel = 20, ss_night = False,
       ss_nightStart = ''23:00'', ss_nightEnd = ''07:00'', ss_nightLevel = 10,
       ss_nightOffWhenIdle = True, ss_pixelShift = False, ss_sleepCommand = None,
       ss_wakeCommand = None \<rparr>"

text \<open>An environment \<open>t\<close> milliseconds after the start.\<close>

definition example_env :: "int \<Rightarrow> standby_env" where
  "example_env t =
     \<lparr> en_now = t, en_minuteOfDay = 720, en_settings = example_settings, en_pairedBefore = True,
       en_canSleep = True, en_canShowClock = True, en_childHasClient = True, en_childRxIdleMs = 0 \<rparr>"

definition example_start :: standby where
  "example_start = new_standby DEFAULT_TIMING (example_env 0)"

abbreviation dark_panel :: panel where
  "dark_panel \<equiv> \<lparr> pn_level = None, pn_asleep = False, pn_hook = None \<rparr>"

text \<open>The deck is plugged in, and nobody touches it for half an hour.\<close>

abbreviation unattended :: "(sb_input \<times> standby_env) list" where
  "unattended \<equiv> [(Driver_attached None, example_env 0), (Device_reinit, example_env 1800000)]"

lemma example_evaluate:
  "evaluate (example_env t) s =
     (if sb_held s then ((sb_requested s, D_active), Gone_none)
      else (computeDisplay
        \<lparr> ci_requested = sb_requested s, ci_idle = (5 * minuteMs (sb_timing s) \<le> t - sb_lastInputAt s),
          ci_offIdle = (30 * minuteMs (sb_timing s) \<le> t - sb_lastInputAt s), ci_night = False,
          ci_appGone = Gone_none, ci_settings = example_settings \<rparr>, Gone_none))"
  by (simp add: evaluate_def cap_of_def actionInForce_def example_env_def example_settings_def Let_def)

lemmas example_simps = example_evaluate computeDisplay_def idleCap_def standbyCap_def Let_def

lemma example_start_fields:
  "sb_lastInputAt example_start = 0" "sb_timing example_start = DEFAULT_TIMING"
  "sb_requested example_start = 100" "\<not> sb_held example_start"
  by (simp_all add: example_start_def new_standby_def Let_def example_env_def syncTimers_def
      clearGone_def armDebounce_def)

lemma timers_keep2 [simp]:
  "sb_timing (syncTimers e s) = sb_timing s" "sb_held (syncTimers e s) = sb_held s"
  by (simp_all add: syncTimers_def clearGone_def armDebounce_def Let_def)

lemma unattended_sleeps:
  "\<exists>s q. sb_run (example_start, dark_panel) unattended = (s, q) \<and> sb_attached s \<and> pn_asleep q
     \<and> sb_requested s = 100 \<and> \<not> sb_held s \<and> sb_timing s = DEFAULT_TIMING"
proof -
  obtain s q where r: "sb_run (example_start, dark_panel) unattended = (s, q)"
    by (cases "sb_run (example_start, dark_panel) unattended")
  let ?a = "fst (onDriverAttached None (example_env 0) example_start)"
  have a: "sb_attached ?a" "sb_lastInputAt ?a = 0" "sb_timing ?a = DEFAULT_TIMING" "sb_requested ?a = 100"
    "\<not> sb_held ?a"
    by (simp_all add: onDriverAttached_def example_start_fields example_env_def)
  have s: "s = fst (recompute True False (example_env 1800000) ?a)"
    using r by (simp add: case_prod_beta Let_def onDeviceReinit_def)
  have "fst (evaluate (example_env 1800000) ?a) = (0, D_off)"
    by (simp add: example_simps a DEFAULT_TIMING_def example_settings_def)
  then have "sb_sleeping s"
    using a by (simp add: s wants_sleep_def) (simp add: example_env_def example_settings_def)
  moreover have "standby_ok q s"
    using standby_run_ok[OF standby_new_ok r[unfolded example_start_def]] by simp
  ultimately show ?thesis using r a by (simp add: s standby_ok_def agrees_def)
qed

subsection \<open>Properties\<close>

text \<open>C36. The panel shows what the controller says: in every run, whatever the app, the user, the
  driver and the timers do, and however the settings change, an attached panel sleeps only while
  the display is off, and otherwise has exactly the effective level, which is never above the
  requested one.\<close>

theorem panel_shows_display:
  assumes "sb_run (new_standby timing e, p) is = (s, q)" "pn_hook p = None" "sb_attached s"
  shows "(if pn_asleep q then snd (sb_res s) = D_off else pn_level q = Some (fst (sb_res s)))
    \<and> fst (sb_res s) \<le> sb_requested s"
  using standby_run_ok[OF standby_new_ok[OF assms(2)] assms(1)] assms(3) by (auto simp: standby_ok_def agrees_def)

lemma panel_shows_display_witness:
  "\<exists>s q. sb_run (example_start, dark_panel) unattended = (s, q) \<and> snd (sb_res s) = D_off"
proof -
  obtain s q where r: "sb_run (example_start, dark_panel) unattended = (s, q)" "sb_attached s" "pn_asleep q"
    using unattended_sleeps by auto
  then show ?thesis using panel_shows_display[OF r(1)[unfolded example_start_def] _ r(2)] by auto
qed

text \<open>A wake command is never lost: in every run, once the attached panel is on again and the
  wake timer has fired, the hook command that ran last is not the sleep command.\<close>

theorem wake_hook_not_lost:
  assumes "sb_run (new_standby timing e, p) is = (s, q)" "pn_hook p = None"
    and "sb_attached s" "snd (sb_res s) \<noteq> D_off" "sb_wake s = None"
  shows "pn_hook q \<noteq> Some Sleep_hook"
  using standby_run_ok[OF standby_new_ok[OF assms(2)] assms(1)] assms(3-) by (auto simp: standby_ok_def agrees_def)

text \<open>Whether the latest event of a control since the driver was attached was a consumed press.\<close>

fun press_consumed :: "control \<Rightarrow> bool \<Rightarrow> standby \<Rightarrow> (sb_input \<times> standby_env) list \<Rightarrow> bool" where
  "press_consumed c b s [] = b"
| "press_consumed c b s ((i, e) # is) =
     press_consumed c
       (case i of
          User_input j \<Rightarrow> if tagOf j = Some c then state_of j = Some Pressed \<and> fst (noteInput e j s) else b
        | Driver_detached \<Rightarrow> False
        | _ \<Rightarrow> b)
       (fst (sb_step i e s)) is"

fun sb_states :: "standby \<Rightarrow> (sb_input \<times> standby_env) list \<Rightarrow> standby" where
  "sb_states s [] = s"
| "sb_states s ((i, e) # is) = sb_states (fst (sb_step i e s)) is"

lemma swallowed_kept:
  "(\<And>j. i \<noteq> User_input j) \<Longrightarrow> i \<noteq> Driver_detached \<Longrightarrow> sb_swallowed (fst (sb_step i e s)) = sb_swallowed s"
  by (cases i) (auto simp: setRequested_def noteActivity_def onAppAttached_def onAppDetached_def
      clearGone_def armDebounce_def onClientApp_def noteAppTraffic_def onDriverAttached_def
      syncTimers_def setHeld_def ite_def onDeviceReinit_def sb_reload_def onTick_def
      onDebounceTimer_def onExitTimer_def onWakeTimer_def paint_minute_def Let_def split: option.splits)

lemma swallowed_iff:
  "(c \<in> sb_swallowed (sb_states s is)) = press_consumed c (c \<in> sb_swallowed s) s is"
proof (induction "is" arbitrary: s)
  case (Cons ie "is")
  obtain i e where ie: "ie = (i, e)" by (cases ie)
  have "(c \<in> sb_swallowed (fst (sb_step i e s))) =
       (case i of
          User_input j \<Rightarrow> if tagOf j = Some c then state_of j = Some Pressed \<and> fst (noteInput e j s) else c \<in> sb_swallowed s
        | Driver_detached \<Rightarrow> False
        | _ \<Rightarrow> c \<in> sb_swallowed s)"
  proof (cases i)
    case (User_input j)
    show ?thesis
    proof (cases "state_of j")
      case (Some a)
      then show ?thesis using untagged[of j] by (cases a) (auto simp: User_input noteInput_swallowed)
    qed (use untagged[of j] in \<open>auto simp: User_input noteInput_swallowed\<close>)
  next
    case Driver_detached
    then show ?thesis by (simp add: onDriverDetached_def Let_def)
  qed (use swallowed_kept[of i e s] in simp_all)
  then show ?case using Cons by (simp add: ie)
qed simp

text \<open>C37. A press and its release share their fate: whatever happens in between, and whether or
  not the features stay on, the release of a key, an extra key or a knob is consumed exactly if
  its press was, as long as the driver stays attached.\<close>

theorem release_follows_press:
  assumes "state_of j = Some Released" "tagOf j = Some c"
  shows "fst (noteInput e j (sb_states (new_standby timing e0) is))
     = press_consumed c False (new_standby timing e0) is"
proof -
  have "sb_swallowed (new_standby timing e0) = {}"
    by (simp add: new_standby_def Let_def syncTimers_def clearGone_def armDebounce_def)
  then show ?thesis
    using swallowed_iff[of c "new_standby timing e0" "is"] assms by (simp add: noteInput_swallows)
qed

lemma release_follows_press_witness:
  "\<not> fst (noteInput (example_env 5) (In_key 3 Released) (sb_states example_start []))"
  using release_follows_press[of "In_key 3 Released" "Key_control 3" "example_env 5" DEFAULT_TIMING "example_env 0" "[]"]
  by (simp add: example_start_def)

lemma evaluate_fresh_input:
  assumes "settings_ok (en_settings e)" "0 < minuteMs (sb_timing s)" "actionInForce e s = Gone_none"
    and "sb_lastInputAt s = en_now e" "sb_requested s \<le> 100"
  shows "fst (evaluate e s) =
     (if sb_held s then (sb_requested s, D_active)
      else if ss_night (en_settings e) \<and> inNight e
      then (min (sb_requested s) (ss_nightLevel (en_settings e)), D_night)
      else (sb_requested s, D_active))"
proof -
  have "0 < ss_idleMinutes (en_settings e) * minuteMs (sb_timing s)"
    "0 < ss_offMinutes (en_settings e) * minuteMs (sb_timing s)"
    using assms(1,2) by (auto simp: settings_ok_def intro!: mult_pos_pos)
  then have n: "\<not> ci_idle (cap_of e s)" "\<not> ci_offIdle (cap_of e s)" "ci_appGone (cap_of e s) = Gone_none"
    "ci_requested (cap_of e s) = sb_requested s" "ci_settings (cap_of e s) = en_settings e"
    "ci_night (cap_of e s) = (ss_night (en_settings e) \<and> inNight e)"
    using assms(3,4) by (simp_all add: cap_of_def Let_def)
  have "1 \<le> ss_nightLevel (en_settings e)" "ss_nightLevel (en_settings e) \<le> 100"
    using assms(1) by (simp_all add: settings_ok_def)
  then show ?thesis
    using assms(5) by (auto simp: evaluate_def computeDisplay_def idleCap_def standbyCap_def Let_def n min_def)
qed

lemma action_input_state [simp]: "actionInForce e (input_state e i s) = actionInForce e s"
  by (simp add: actionInForce_def Let_def cong: if_cong)

text \<open>C38. Any input brings the panel back at once: in every run, after an input to an attached
  panel whose app is not gone, the panel is awake and its backlight is the requested level,
  lowered to the night level inside the night window only; a press is consumed exactly if the
  settings say so and it made the panel brighter.\<close>

theorem input_wakes_panel:
  assumes run: "sb_run (new_standby timing e0, p) is = (s, q)" "pn_hook p = None"
    and e: "settings_ok (en_settings e)" "featuresOn e" "0 < minuteMs (sb_timing s)"
    and s: "sb_attached s" "actionInForce e s = Gone_none" "\<not> sb_held s" "0 < sb_requested s" "sb_requested s \<le> 100"
  defines "level \<equiv> (if ss_night (en_settings e) \<and> inNight e
      then min (sb_requested s) (ss_nightLevel (en_settings e)) else sb_requested s)"
  shows "\<exists>t r. sb_run (s, q) [(User_input i, e)] = (t, r) \<and> \<not> pn_asleep r \<and> pn_level r = Some level
    \<and> 0 < level
    \<and> (state_of i \<noteq> Some Released \<longrightarrow> fst (noteInput e i s) =
         (ss_wakePress (en_settings e) = Wake_swallow \<and> fst (fst (evaluate e s)) < level))"
proof -
  let ?u = "input_state e i s" and ?t = "fst (sb_step (User_input i) e s)"
  let ?r = "fold panel_event (snd (sb_step (User_input i) e s)) q"
  have ok: "standby_ok ?r ?t"
    using standby_step_ok[OF standby_run_ok[OF standby_new_ok[OF run(2)] run(1)], of "User_input i" e] by simp
  have l: "fst (fst (evaluate e ?u)) = level" "snd (fst (evaluate e ?u)) \<noteq> D_off"
    using evaluate_fresh_input[of e ?u] e s by (auto simp: level_def)
  have "sb_res ?t = fst (evaluate e ?u)" "sb_attached ?t"
    using s(1) e(2) by (subst sb_step.simps, subst noteInput_state(2), simp)+
  then have "\<not> pn_asleep ?r \<and> pn_level ?r = Some level"
    using ok l by (auto simp: standby_ok_def agrees_def)
  moreover have "0 < level" using e(1) s(4) by (auto simp: level_def settings_ok_def)
  moreover have "fst (fst (evaluate e (s\<lparr>sb_lastInputAt := en_now e\<rparr>))) = level"
    using l(1) by (auto simp: input_state_def split: if_splits)
  ultimately show ?thesis
    using e(2) by (simp add: noteInput_swallows Let_def case_prod_beta)
qed

lemma input_wakes_panel_witness:
  "\<exists>s q t r. sb_run (example_start, dark_panel) unattended = (s, q) \<and> pn_asleep q
    \<and> sb_run (s, q) [(User_input In_touch, example_env 1800001)] = (t, r)
    \<and> \<not> pn_asleep r \<and> pn_level r = Some 100"
proof -
  let ?e = "example_env 1800001"
  obtain s q where r: "sb_run (example_start, dark_panel) unattended = (s, q)" "sb_attached s" "pn_asleep q"
    "sb_requested s = 100" "\<not> sb_held s" "sb_timing s = DEFAULT_TIMING"
    using unattended_sleeps by auto
  have e: "settings_ok (en_settings ?e)" "featuresOn ?e" "actionInForce ?e s = Gone_none"
    "\<not> ss_night (en_settings ?e)"
    by (simp_all add: example_env_def example_settings_def settings_ok_def featuresOn_def actionInForce_def hhmm_digits_def)
  show ?thesis
    using input_wakes_panel[OF r(1)[unfolded example_start_def] _ e(1,2) _ r(2) e(3), of In_touch] r e(4)
    by (auto simp: DEFAULT_TIMING_def)
qed

end
