(* ===== verification/Page_Match.thy ===== *)
theory Page_Match
  imports Acts Js_Values
begin

text \<open>
  \<^verbatim>\<open>shared/page-match.ts\<close> and the matching half of \<^verbatim>\<open>shared/page-config.ts\<close>: which saved page of
  the Elgato app do the hashes of the key frames on the deck show.  A frame hash is a string, a
  key without a frame is None.  Fractions are exact; the epsilon of the source is kept.
\<close>

section \<open>Saved pages\<close>

record page =
  pg_id :: string
  pg_name :: string
  pg_profile :: string
  pg_keyCount :: nat
  pg_hashes :: "string option list"
  pg_ignore :: "nat list option"
  pg_minMatch :: "rat option"
  pg_extraKeys :: "(string \<times> json) list option"

abbreviation (input) MAX_PAGES :: nat where "MAX_PAGES \<equiv> 32"
definition PAGE_MIN_MATCH_DEFAULT :: rat where "PAGE_MIN_MATCH_DEFAULT = 8 / 10"

type_synonym frame_hashes = "string option list"

definition consideredKeys :: "page \<Rightarrow> nat list" where
  "consideredKeys p =
     filter (\<lambda>i. pg_hashes p ! i \<noteq> None \<and> i \<notin> set (case pg_ignore p of None \<Rightarrow> [] | Some is \<Rightarrow> is))
       [0..<length (pg_hashes p)]"

text \<open>The hash of key \<open>k\<close>; a key beyond the vector has none.\<close>

definition hash_at :: "frame_hashes \<Rightarrow> nat \<Rightarrow> string option" where
  "hash_at hs k = (if k < length hs then hs ! k else None)"

text \<open>\<^verbatim>\<open>(page?.extraKeys ?? base)[wireId]\<close>.\<close>

definition layoutConfigFor :: "page option \<Rightarrow> (string \<times> json) list \<Rightarrow> string \<Rightarrow> json option" where
  "layoutConfigFor p base wireId =
     map_of (case Option.bind p pg_extraKeys of None \<Rightarrow> base | Some own \<Rightarrow> own) wireId"

definition withPageLayout :: "page list \<Rightarrow> string \<Rightarrow> (string \<times> json) list option \<Rightarrow> page list" where
  "withPageLayout ps pid own = map (\<lambda>p. if pg_id p \<noteq> pid then p else p\<lparr>pg_extraKeys := own\<rparr>) ps"

section \<open>Scores\<close>

record page_score =
  sc_page :: string
  sc_matched :: nat
  sc_considered :: nat
  sc_mismatched :: "nat list"

definition requiredMatches :: "nat \<Rightarrow> rat \<Rightarrow> int" where
  "requiredMatches considered minMatch = max 1 \<lceil>of_nat considered * minMatch - 1 / 10 ^ 9\<rceil>"

definition scorePage :: "page \<Rightarrow> frame_hashes \<Rightarrow> page_score" where
  "scorePage p current =
     (let considered = consideredKeys p;
          mismatched = filter (\<lambda>k. hash_at current k \<noteq> hash_at (pg_hashes p) k) considered
      in \<lparr> sc_page = pg_id p, sc_matched = length considered - length mismatched,
           sc_considered = length considered, sc_mismatched = mismatched \<rparr>)"

definition isEligible :: "page \<Rightarrow> string \<Rightarrow> nat \<Rightarrow> bool" where
  "isEligible p profile keyCount \<longleftrightarrow>
     pg_profile p = profile \<and> pg_keyCount p = keyCount \<and> 0 < length (consideredKeys p)"

text \<open>\<open>a\<close> does not come after \<open>b\<close>: the comparison function gives at most 0.\<close>

definition ranks_before :: "page_score \<Rightarrow> page_score \<Rightarrow> bool" where
  "ranks_before a b \<longleftrightarrow>
     (let d = int (sc_matched b * sc_considered a) - int (sc_matched a * sc_considered b)
      in if d \<noteq> 0 then d < 0 else sc_considered b \<le> sc_considered a)"

text \<open>\<^verbatim>\<open>toSorted\<close> is a stable sort.\<close>

fun insert_score :: "page_score \<Rightarrow> page_score list \<Rightarrow> page_score list" where
  "insert_score x [] = [x]"
| "insert_score x (y # ys) = (if ranks_before x y then x # y # ys else y # insert_score x ys)"

definition sort_scores :: "page_score list \<Rightarrow> page_score list" where
  "sort_scores xs = foldr insert_score xs []"

definition rankPages :: "page list \<Rightarrow> frame_hashes \<Rightarrow> string \<Rightarrow> nat \<Rightarrow> page_score list" where
  "rankPages ps current profile keyCount =
     sort_scores (map (\<lambda>p. scorePage p current) (filter (\<lambda>p. isEligible p profile keyCount) ps))"

definition find_page :: "page list \<Rightarrow> string \<Rightarrow> page option" where
  "find_page ps pid = List.find (\<lambda>p. pg_id p = pid) ps"

definition passes :: "page list \<Rightarrow> page_score \<Rightarrow> bool" where
  "passes ps s =
     (case find_page ps (sc_page s) of
        None \<Rightarrow> False
      | Some p \<Rightarrow> requiredMatches (sc_considered s)
          (case pg_minMatch p of None \<Rightarrow> PAGE_MIN_MATCH_DEFAULT | Some q \<Rightarrow> q) \<le> int (sc_matched s))"

definition pickWinner :: "page_score list \<Rightarrow> page list \<Rightarrow> page_score option" where
  "pickWinner scores ps = List.find (passes ps) scores"

text \<open>A vector with fewer than two distinct hashes (\<^verbatim>\<open>PAGE_HOLD_MIN_DISTINCT\<close>).\<close>

definition isHeldVector :: "frame_hashes \<Rightarrow> bool" where
  "isHeldVector current \<longleftrightarrow> card (set (filter (\<lambda>h. h \<noteq> None) current)) < 2"

definition suggestIgnore :: "frame_hashes \<Rightarrow> nat set \<Rightarrow> nat list" where
  "suggestIgnore current animated =
     (let counts = (\<lambda>h. length (filter (\<lambda>x. x = h) current));
          duplicates = filter (\<lambda>i. current ! i \<noteq> None \<and> 2 \<le> counts (current ! i)) [0..<length current];
          withDuplicates = sorted_list_of_set (set duplicates \<union> animated);
          left = length (filter (\<lambda>i. current ! i \<noteq> None \<and> i \<notin> set withDuplicates) [0..<length current])
      in if 0 < left then withDuplicates else sorted_list_of_set animated)"

section \<open>The winner\<close>

lemma set_insert_score [simp]: "set (insert_score x ys) = insert x (set ys)"
  by (induction x ys rule: insert_score.induct) auto

lemma set_sort_scores [simp]: "set (sort_scores xs) = set xs"
  by (induction xs) (simp_all add: sort_scores_def)

text \<open>On scores that consider at least one key the order is total and transitive.\<close>

lemma ranks_total: "ranks_before a b \<or> ranks_before b a"
  by (auto simp: ranks_before_def Let_def)

lemma ranks_trans:
  assumes "ranks_before a b" "ranks_before b c"
    "0 < sc_considered a" "0 < sc_considered b" "0 < sc_considered c"
  shows "ranks_before a c"
proof -
  let ?r = "\<lambda>x. (of_nat (sc_matched x) :: rat) / of_nat (sc_considered x)"
  have r: "ranks_before x y \<longleftrightarrow> ?r y < ?r x \<or> ?r y = ?r x \<and> sc_considered y \<le> sc_considered x"
    if "0 < sc_considered x" "0 < sc_considered y" for x y
  proof -
    have "?r y < ?r x \<longleftrightarrow> (of_nat (sc_matched y * sc_considered x) :: rat) < of_nat (sc_matched x * sc_considered y)"
      using that by (simp add: divide_less_eq less_divide_eq field_simps)
    moreover have "?r y = ?r x \<longleftrightarrow> (of_nat (sc_matched y * sc_considered x) :: rat) = of_nat (sc_matched x * sc_considered y)"
      using that by (simp add: divide_eq_eq eq_divide_eq field_simps)
    ultimately show ?thesis
      unfolding of_nat_less_iff of_nat_eq_iff ranks_before_def Let_def
      by (auto simp del: of_nat_mult)
  qed
  show ?thesis using assms(1,2) unfolding r[OF assms(3,4)] r[OF assms(4,5)] r[OF assms(3,5)] by auto
qed

lemma sorted_insert_score:
  assumes "sorted_wrt ranks_before ys" "0 < sc_considered x" "\<forall>y \<in> set ys. 0 < sc_considered y"
  shows "sorted_wrt ranks_before (insert_score x ys)"
  using assms
proof (induction x ys rule: insert_score.induct)
  case (2 x y ys)
  then show ?case
    using ranks_total[of x y] ranks_trans[of x y] by (auto simp: Ball_def)
qed simp

lemma sorted_sort_scores:
  "\<forall>y \<in> set xs. 0 < sc_considered y \<Longrightarrow> sorted_wrt ranks_before (sort_scores xs)"
proof (induction xs)
  case (Cons x xs)
  then show ?case
    using sorted_insert_score[of "sort_scores xs" x] by (simp add: sort_scores_def[of "x # xs"] sort_scores_def[symmetric])
qed (simp add: sort_scores_def)

lemma find_SomeD: "List.find P xs = Some x \<Longrightarrow> \<exists>us vs. xs = us @ x # vs \<and> P x \<and> (\<forall>u \<in> set us. \<not> P u)"
proof (induction xs)
  case (Cons y ys)
  show ?case
  proof (cases "P y")
    case True
    then show ?thesis using Cons.prems by (auto intro: exI[of _ "[]"])
  next
    case False
    then obtain us vs where "ys = us @ x # vs" "P x" "\<forall>u \<in> set us. \<not> P u" using Cons by auto
    then show ?thesis using False by (intro exI[of _ "y # us"] exI[of _ vs]) simp
  qed
qed simp

text \<open>The winner is the score of an eligible page that passes its own threshold, and no other
  page that passes ranks before it; without a winner no page passes.\<close>

lemma pickWinner_best:
  assumes "pickWinner (rankPages ps current profile keyCount) ps = Some s"
  shows "\<exists>p \<in> set ps. isEligible p profile keyCount \<and> s = scorePage p current"
    "passes ps s"
    "\<And>q. q \<in> set ps \<Longrightarrow> isEligible q profile keyCount \<Longrightarrow> passes ps (scorePage q current) \<Longrightarrow>
       ranks_before s (scorePage q current)"
proof -
  let ?r = "rankPages ps current profile keyCount"
  obtain us vs where r: "?r = us @ s # vs" "passes ps s" "\<forall>u \<in> set us. \<not> passes ps u"
    using find_SomeD[OF assms[unfolded pickWinner_def]] by (elim exE conjE)
  have set: "set ?r = (\<lambda>p. scorePage p current) ` {p \<in> set ps. isEligible p profile keyCount}"
    by (simp add: rankPages_def)
  then show "\<exists>p \<in> set ps. isEligible p profile keyCount \<and> s = scorePage p current" using r(1) by auto
  show "passes ps s" by (rule r(2))
  have "\<forall>y \<in> set ?r. 0 < sc_considered y"
    unfolding set by (auto simp: scorePage_def isEligible_def Let_def)
  then have "sorted_wrt ranks_before ?r"
    unfolding rankPages_def set_sort_scores by (rule sorted_sort_scores)
  then have after: "v = s \<or> ranks_before s v" if "v \<in> set (s # vs)" for v
    using that unfolding r(1) by (auto simp: sorted_wrt_append)
  fix q
  assume "q \<in> set ps" "isEligible q profile keyCount" "passes ps (scorePage q current)"
  then have "scorePage q current \<in> set (s # vs)" using set r by auto
  then show "ranks_before s (scorePage q current)" using after ranks_total[of s s] by blast
qed

lemma pickWinner_None:
  assumes "pickWinner (rankPages ps current profile keyCount) ps = None"
    "q \<in> set ps" "isEligible q profile keyCount"
  shows "\<not> passes ps (scorePage q current)"
  using assms by (auto simp: pickWinner_def find_None_iff rankPages_def)

end
