(* ===== verification/Page_Tracker.thy ===== *)
theory Page_Tracker
  imports Page_Match
begin

text \<open>
  \<^verbatim>\<open>main/page-tracker.ts\<close>: follows the page the Elgato app shows from the hashes of the key frames,
  without switching layouts in the middle of a burst of frames.  The saved pages, the advertised
  geometry and the clock are an environment that may differ from one operation to the next.  A
  timer is the time it is due; its callback is an operation that does nothing when the timer is
  not set.  The last observation the tracker pushes is what the browser sees.
\<close>

section \<open>State\<close>

record page_env =
  pe_pages :: "page list"
  pe_profile :: string
  pe_keyCount :: nat
  pe_columns :: nat
  pe_now :: int

record observation =
  ob_profile :: string
  ob_keyCount :: nat
  ob_columns :: nat
  ob_hashes :: frame_hashes
  ob_active :: "string option"
  ob_scores :: "page_score list"
  ob_suggested :: "nat list"
  ob_settling :: bool
  ob_held :: bool

datatype tracker_event = Active_change "page option" | Observe observation

datatype eval_kind = Eval_quiet | Eval_forced | Eval_reload

record tracker =
  tk_hashes :: frame_hashes
  tk_lastFrameAt :: "nat \<Rightarrow> int option"
  tk_animated :: "nat set"
  tk_activeId :: "string option"
  tk_pendingId :: "string option option"
  tk_lastQuietBreakAt :: int
  tk_settleTimer :: "int option"
  tk_maxWaitTimer :: "int option"
  tk_stopped :: bool
  tk_lastHeld :: bool
  tk_lastScores :: "page_score list"

type_synonym tracker_act = "(tracker, tracker_event) eff"

abbreviation (input) PAGE_SETTLE_MS :: int where "PAGE_SETTLE_MS \<equiv> 150"
abbreviation (input) PAGE_MAX_WAIT_MS :: int where "PAGE_MAX_WAIT_MS \<equiv> 600"
abbreviation (input) PAGE_ANIMATED_GAP_MS :: int where "PAGE_ANIMATED_GAP_MS \<equiv> 400"

definition new_tracker :: tracker where
  "new_tracker =
     \<lparr> tk_hashes = [], tk_lastFrameAt = (\<lambda>_. None), tk_animated = {}, tk_activeId = None,
       tk_pendingId = None, tk_lastQuietBreakAt = 0, tk_settleTimer = None, tk_maxWaitTimer = None,
       tk_stopped = False, tk_lastHeld = True, tk_lastScores = [] \<rparr>"

section \<open>Operations\<close>

definition activePage :: "page_env \<Rightarrow> tracker \<Rightarrow> page option" where
  "activePage e t = Option.bind (tk_activeId t) (find_page (pe_pages e))"

definition tk_push :: "bool \<Rightarrow> page_score list \<Rightarrow> page_env \<Rightarrow> tracker_act" where
  "tk_push held scores e t =
     (let t = t\<lparr>tk_lastHeld := held, tk_lastScores := scores\<rparr>
      in (t, [Observe \<lparr> ob_profile = pe_profile e, ob_keyCount = pe_keyCount e,
                ob_columns = pe_columns e, ob_hashes = tk_hashes t,
                ob_active = map_option pg_id (activePage e t), ob_scores = scores,
                ob_suggested = suggestIgnore (tk_hashes t) (tk_animated t),
                ob_settling = (tk_settleTimer t \<noteq> None), ob_held = held \<rparr>]))"

definition commit :: "string option \<Rightarrow> page_env \<Rightarrow> tracker_act" where
  "commit pid e t =
     (let t = t\<lparr>tk_activeId := pid, tk_pendingId := None\<rparr> in (t, [Active_change (activePage e t)]))"

definition armMaxWait :: "page_env \<Rightarrow> tracker \<Rightarrow> tracker" where
  "armMaxWait e t =
     (if tk_maxWaitTimer t = None then t\<lparr>tk_maxWaitTimer := Some (pe_now e + PAGE_MAX_WAIT_MS)\<rparr> else t)"

definition winner_of :: "page_env \<Rightarrow> tracker \<Rightarrow> page_score option" where
  "winner_of e t =
     pickWinner (rankPages (pe_pages e) (tk_hashes t) (pe_profile e) (pe_keyCount e)) (pe_pages e)"

definition tk_evaluate :: "eval_kind \<Rightarrow> page_env \<Rightarrow> tracker_act" where
  "tk_evaluate kind e = ite tk_stopped skip (acts
     [ upd (\<lambda>t. t\<lparr>tk_maxWaitTimer := None\<rparr>),
       upd (\<lambda>t. if kind = Eval_forced then t else t\<lparr>tk_settleTimer := None\<rparr>),
       ite (\<lambda>t. isHeldVector (tk_hashes t)) (tk_push True [] e)
         (\<lambda>t. let scores = rankPages (pe_pages e) (tk_hashes t) (pe_profile e) (pe_keyCount e);
                  candidate = map_option sc_page (pickWinner scores (pe_pages e))
              in acts
                [ if candidate = tk_activeId t then upd (\<lambda>t. t\<lparr>tk_pendingId := None\<rparr>)
                  else if kind \<noteq> Eval_forced \<or> tk_pendingId t = Some candidate then commit candidate e
                  else upd (\<lambda>t. t\<lparr>tk_pendingId := Some candidate\<rparr>),
                  upd (\<lambda>t. if tk_pendingId t \<noteq> None then armMaxWait e t else t),
                  tk_push False scores e ] t) ])"

definition tk_resize :: "nat \<Rightarrow> tracker \<Rightarrow> tracker" where
  "tk_resize n t = t\<lparr>tk_hashes := map (hash_at (tk_hashes t)) [0..<n], tk_lastFrameAt := (\<lambda>_. None),
     tk_animated := {}\<rparr>"

text \<open>What a frame with a new hash changes, and whether the key is animated.\<close>

definition is_animated :: "page_env \<Rightarrow> nat \<Rightarrow> tracker \<Rightarrow> bool" where
  "is_animated e k t \<longleftrightarrow>
     (case tk_lastFrameAt t k of None \<Rightarrow> False | Some prev \<Rightarrow> pe_now e - prev < PAGE_ANIMATED_GAP_MS)"

definition store_frame :: "page_env \<Rightarrow> nat \<Rightarrow> string \<Rightarrow> tracker \<Rightarrow> tracker" where
  "store_frame e k h t =
     t\<lparr>tk_lastFrameAt := (tk_lastFrameAt t)(k := Some (pe_now e)),
       tk_animated := (if is_animated e k t then insert k (tk_animated t) else tk_animated t - {k}),
       tk_hashes := (tk_hashes t)[k := Some h]\<rparr>"

definition noteFrame :: "int \<Rightarrow> string \<Rightarrow> page_env \<Rightarrow> tracker_act" where
  "noteFrame key h e t =
     (if tk_stopped t \<or> key < 0 \<or> int (pe_keyCount e) \<le> key then skip t
      else let k = nat key;
               t = (if length (tk_hashes t) \<noteq> pe_keyCount e then tk_resize (pe_keyCount e) t else t)
           in if hash_at (tk_hashes t) k = Some h then skip t
              else let animated = is_animated e k t in acts
                [ upd (store_frame e k h),
                  if animated then skip
                  else acts
                    [ upd (\<lambda>t. t\<lparr>tk_lastQuietBreakAt := pe_now e\<rparr>),
                      ite (\<lambda>t. tk_settleTimer t = None)
                        (acts [ upd (\<lambda>t. t\<lparr>tk_settleTimer := Some (pe_now e + PAGE_SETTLE_MS)\<rparr>),
                                \<lambda>t. tk_push (tk_lastHeld t) (tk_lastScores t) e t ]) skip ],
                  upd (armMaxWait e) ] t)"

definition onSettleTimer :: "page_env \<Rightarrow> tracker_act" where
  "onSettleTimer e t =
     (if tk_settleTimer t = None then skip t
      else let t = t\<lparr>tk_settleTimer := None\<rparr>; quietFor = pe_now e - tk_lastQuietBreakAt t
           in if PAGE_SETTLE_MS \<le> quietFor then tk_evaluate Eval_quiet e t
              else (t\<lparr>tk_settleTimer := Some (pe_now e + (PAGE_SETTLE_MS - quietFor))\<rparr>, []))"

definition onMaxWaitTimer :: "page_env \<Rightarrow> tracker_act" where
  "onMaxWaitTimer e t = (if tk_maxWaitTimer t = None then skip t else tk_evaluate Eval_forced e t)"

definition tk_clearTimers :: "tracker \<Rightarrow> tracker" where
  "tk_clearTimers t = t\<lparr>tk_settleTimer := None, tk_maxWaitTimer := None\<rparr>"

definition tk_reset :: "page_env \<Rightarrow> tracker_act" where
  "tk_reset e = ite tk_stopped skip (acts
     [ upd (\<lambda>t. (tk_clearTimers t)\<lparr>tk_hashes := [], tk_lastFrameAt := (\<lambda>_. None), tk_animated := {},
                                   tk_pendingId := None\<rparr>),
       ite (\<lambda>t. case activePage e t of None \<Rightarrow> False
               | Some p \<Rightarrow> pg_profile p \<noteq> pe_profile e \<or> pg_keyCount p \<noteq> pe_keyCount e)
         (commit None e) skip,
       tk_push True [] e ])"

text \<open>\<^verbatim>\<open>reload\<close> and what it returns.\<close>

definition tk_reload :: "page_env \<Rightarrow> tracker_act" where
  "tk_reload e = ite tk_stopped skip (acts
     [ upd (\<lambda>t. t\<lparr>tk_pendingId := None\<rparr>),
       ite (\<lambda>t. tk_settleTimer t \<noteq> None) skip (acts
         [ ite (\<lambda>t. tk_activeId t \<noteq> None \<and> activePage e t = None \<and> isHeldVector (tk_hashes t))
             (commit None e) skip,
           tk_evaluate Eval_reload e ]) ])"

definition reload_switched :: "page_env \<Rightarrow> tracker \<Rightarrow> bool" where
  "reload_switched e t \<longleftrightarrow>
     \<not> tk_stopped t \<and> tk_settleTimer t = None \<and> tk_activeId (fst (tk_reload e t)) \<noteq> tk_activeId t"

definition tk_stop :: tracker_act where
  "tk_stop = upd (\<lambda>t. tk_clearTimers (t\<lparr>tk_stopped := True\<rparr>))"

datatype tracker_input =
    Frame int string
  | Settle_fired
  | Max_wait_fired
  | Reset_tracker
  | Pages_changed
  | Stop_tracker

fun tracker_step :: "tracker_input \<Rightarrow> page_env \<Rightarrow> tracker_act" where
  "tracker_step (Frame k h) e = noteFrame k h e"
| "tracker_step Settle_fired e = onSettleTimer e"
| "tracker_step Max_wait_fired e = onMaxWaitTimer e"
| "tracker_step Reset_tracker e = tk_reset e"
| "tracker_step Pages_changed e = tk_reload e"
| "tracker_step Stop_tracker e = tk_stop"

section \<open>What an evaluation does\<close>

lemma push_simps [simp]:
  "fst (tk_push held scores e t) = t\<lparr>tk_lastHeld := held, tk_lastScores := scores\<rparr>"
  "Active_change a \<notin> set (snd (tk_push held scores e t))"
  by (simp_all add: tk_push_def Let_def)

lemma commit_simps [simp]:
  "fst (commit pid e t) = t\<lparr>tk_activeId := pid, tk_pendingId := None\<rparr>"
  "snd (commit pid e t) = [Active_change (activePage e (t\<lparr>tk_activeId := pid, tk_pendingId := None\<rparr>))]"
  by (simp_all add: commit_def Let_def)

lemma active_page_eq [simp]:
  "activePage e (t\<lparr>tk_activeId := pid, tk_pendingId := x\<rparr>) = Option.bind pid (find_page (pe_pages e))"
  by (simp add: activePage_def)

lemma armMaxWait_fields [simp]:
  "tk_hashes (armMaxWait e t) = tk_hashes t" "tk_activeId (armMaxWait e t) = tk_activeId t"
  "tk_settleTimer (armMaxWait e t) = tk_settleTimer t" "tk_stopped (armMaxWait e t) = tk_stopped t"
  "tk_pendingId (armMaxWait e t) = tk_pendingId t"
  "tk_lastQuietBreakAt (armMaxWait e t) = tk_lastQuietBreakAt t"
  "tk_maxWaitTimer (armMaxWait e t) =
     (case tk_maxWaitTimer t of None \<Rightarrow> Some (pe_now e + PAGE_MAX_WAIT_MS) | Some d \<Rightarrow> Some d)"
  by (simp_all add: armMaxWait_def split: option.splits)

text \<open>The page an evaluation switches to, if it does.\<close>

definition candidate_of :: "page_env \<Rightarrow> tracker \<Rightarrow> string option" where
  "candidate_of e t = map_option sc_page (winner_of e t)"

definition switches :: "eval_kind \<Rightarrow> page_env \<Rightarrow> tracker \<Rightarrow> bool" where
  "switches kind e t \<longleftrightarrow>
     \<not> tk_stopped t \<and> \<not> isHeldVector (tk_hashes t) \<and> candidate_of e t \<noteq> tk_activeId t
     \<and> (kind \<noteq> Eval_forced \<or> tk_pendingId t = Some (candidate_of e t))"

lemma evaluate_state:
  fixes kind e t
  defines "t' \<equiv> fst (tk_evaluate kind e t)"
  shows "tk_hashes t' = tk_hashes t" "tk_stopped t' = tk_stopped t"
    "tk_activeId t' = (if switches kind e t then candidate_of e t else tk_activeId t)"
    "tk_settleTimer t' = (if kind = Eval_forced \<or> tk_stopped t then tk_settleTimer t else None)"
    "\<not> tk_stopped t \<Longrightarrow> tk_maxWaitTimer t' \<in> {None, Some (pe_now e + PAGE_MAX_WAIT_MS)}"
  unfolding t'_def switches_def candidate_of_def winner_of_def
  by (auto simp: tk_evaluate_def ite_def Let_def)

lemma evaluate_stopped: "tk_stopped t \<Longrightarrow> tk_evaluate kind e t = (t, [])"
  by (simp add: tk_evaluate_def ite_def skip_def)

lemma evaluate_events:
  "Active_change a \<in> set (snd (tk_evaluate kind e t)) \<longleftrightarrow>
     switches kind e t \<and> a = Option.bind (candidate_of e t) (find_page (pe_pages e))"
  unfolding switches_def candidate_of_def winner_of_def
  by (auto simp: tk_evaluate_def ite_def Let_def)

section \<open>No frame is forgotten\<close>

text \<open>A frame that shows something else on its key.\<close>

definition new_frame :: "int \<Rightarrow> string \<Rightarrow> page_env \<Rightarrow> tracker \<Rightarrow> bool" where
  "new_frame k h e t \<longleftrightarrow>
     \<not> tk_stopped t \<and> 0 \<le> k \<and> k < int (pe_keyCount e) \<and> hash_at (tk_hashes t) (nat k) \<noteq> Some h"

text \<open>The time of the first new frame that no evaluation has seen yet.\<close>

definition unseen_after :: "tracker_input \<Rightarrow> page_env \<Rightarrow> tracker \<Rightarrow> int option \<Rightarrow> int option" where
  "unseen_after i e t d =
     (case i of
        Frame k h \<Rightarrow> if new_frame k h e t \<and> d = None then Some (pe_now e) else d
      | Settle_fired \<Rightarrow> if tk_settleTimer t \<noteq> None \<and> PAGE_SETTLE_MS \<le> pe_now e - tk_lastQuietBreakAt t then None else d
      | Max_wait_fired \<Rightarrow> if tk_maxWaitTimer t \<noteq> None then None else d
      | Pages_changed \<Rightarrow> if tk_settleTimer t = None then None else d
      | Reset_tracker \<Rightarrow> None
      | Stop_tracker \<Rightarrow> None)"

fun tracker_run :: "tracker \<Rightarrow> int option \<Rightarrow> (tracker_input \<times> page_env) list \<Rightarrow> tracker \<times> int option" where
  "tracker_run t d [] = (t, d)"
| "tracker_run t d ((i, e) # is) = tracker_run (fst (tracker_step i e t)) (unseen_after i e t d) is"

fun clock_runs :: "int \<Rightarrow> (tracker_input \<times> page_env) list \<Rightarrow> bool" where
  "clock_runs now [] = True"
| "clock_runs now ((i, e) # is) = (now \<le> pe_now e \<and> clock_runs (pe_now e) is)"

definition waits_ok :: "int \<Rightarrow> int option \<Rightarrow> tracker \<Rightarrow> bool" where
  "waits_ok now d t \<longleftrightarrow>
     (tk_stopped t \<longrightarrow> d = None)
     \<and> (\<forall>due. tk_maxWaitTimer t = Some due \<longrightarrow> due \<le> now + PAGE_MAX_WAIT_MS)
     \<and> (\<forall>since. d = Some since \<longrightarrow>
          (\<exists>due. tk_maxWaitTimer t = Some due \<and> due \<le> since + PAGE_MAX_WAIT_MS))"

lemma resize_fields [simp]:
  "tk_stopped (tk_resize n t) = tk_stopped t" "tk_maxWaitTimer (tk_resize n t) = tk_maxWaitTimer t"
  "tk_settleTimer (tk_resize n t) = tk_settleTimer t" "tk_activeId (tk_resize n t) = tk_activeId t"
  "tk_pendingId (tk_resize n t) = tk_pendingId t" "length (tk_hashes (tk_resize n t)) = n"
  "k < n \<Longrightarrow> hash_at (tk_hashes (tk_resize n t)) k = hash_at (tk_hashes t) k"
  by (simp_all add: tk_resize_def hash_at_def)

lemma store_fields [simp]:
  "tk_stopped (store_frame e k h t) = tk_stopped t" "tk_maxWaitTimer (store_frame e k h t) = tk_maxWaitTimer t"
  "tk_settleTimer (store_frame e k h t) = tk_settleTimer t" "tk_activeId (store_frame e k h t) = tk_activeId t"
  "tk_pendingId (store_frame e k h t) = tk_pendingId t" "tk_hashes (store_frame e k h t) = (tk_hashes t)[k := Some h]"
  by (simp_all add: store_frame_def)

lemma frame_state:
  fixes k h e t
  defines "t' \<equiv> fst (noteFrame k h e t)"
  shows "tk_stopped t' = tk_stopped t"
    "tk_maxWaitTimer t' =
       (if new_frame k h e t \<and> tk_maxWaitTimer t = None then Some (pe_now e + PAGE_MAX_WAIT_MS)
        else tk_maxWaitTimer t)"
    "new_frame k h e t \<Longrightarrow> hash_at (tk_hashes t') (nat k) = Some h"
    "tk_activeId t' = tk_activeId t" "tk_pendingId t' = tk_pendingId t"
    "Active_change a \<notin> set (snd (noteFrame k h e t))"
proof -
  define u where "u = (if length (tk_hashes t) \<noteq> pe_keyCount e then tk_resize (pe_keyCount e) t else t)"
  have u: "tk_stopped u = tk_stopped t" "tk_maxWaitTimer u = tk_maxWaitTimer t" "tk_activeId u = tk_activeId t"
    "tk_pendingId u = tk_pendingId t" "length (tk_hashes u) = pe_keyCount e"
    "j < pe_keyCount e \<Longrightarrow> hash_at (tk_hashes u) j = hash_at (tk_hashes t) j" for j
    by (simp_all add: u_def)
  have n: "0 \<le> k \<Longrightarrow> k < int (pe_keyCount e) \<Longrightarrow> nat k < pe_keyCount e" by linarith
  have eq: "noteFrame k h e t =
     (if new_frame k h e t
      then acts
        [ upd (store_frame e (nat k) h),
          if is_animated e (nat k) u then skip
          else acts
            [ upd (\<lambda>t. t\<lparr>tk_lastQuietBreakAt := pe_now e\<rparr>),
              ite (\<lambda>t. tk_settleTimer t = None)
                (acts [ upd (\<lambda>t. t\<lparr>tk_settleTimer := Some (pe_now e + PAGE_SETTLE_MS)\<rparr>),
                        \<lambda>t. tk_push (tk_lastHeld t) (tk_lastScores t) e t ]) skip ],
          upd (armMaxWait e) ] u
      else if tk_stopped t \<or> k < 0 \<or> int (pe_keyCount e) \<le> k then skip t else skip u)"
    using n u(6)[of "nat k"] by (auto simp: noteFrame_def new_frame_def Let_def u_def[symmetric] skip_def)
  show "tk_stopped t' = tk_stopped t" "tk_activeId t' = tk_activeId t" "tk_pendingId t' = tk_pendingId t"
    "Active_change a \<notin> set (snd (noteFrame k h e t))"
    "tk_maxWaitTimer t' =
       (if new_frame k h e t \<and> tk_maxWaitTimer t = None then Some (pe_now e + PAGE_MAX_WAIT_MS)
        else tk_maxWaitTimer t)"
    unfolding t'_def eq by (auto simp: u ite_def split: option.splits)
  assume "new_frame k h e t"
  moreover from this have "nat k < length (tk_hashes u)" using n u(5) by (simp add: new_frame_def)
  ultimately show "hash_at (tk_hashes t') (nat k) = Some h"
    unfolding t'_def eq by (auto simp: ite_def hash_at_def)
qed

lemma waits_mono: "waits_ok now d t \<Longrightarrow> now \<le> now' \<Longrightarrow> waits_ok now' d t"
  by (fastforce simp: waits_ok_def)

lemma waits_seen: "waits_ok now d t \<Longrightarrow> waits_ok now None t"
  by (simp add: waits_ok_def)

lemma waits_cong:
  "tk_stopped u = tk_stopped t \<Longrightarrow> tk_maxWaitTimer u = tk_maxWaitTimer t \<Longrightarrow> waits_ok now d u = waits_ok now d t"
  by (simp add: waits_ok_def)

lemma evaluate_waits:
  assumes "waits_ok now d t" "now \<le> pe_now e"
  shows "waits_ok (pe_now e) None (fst (tk_evaluate kind e t))"
proof (cases "tk_stopped t")
  case True
  then show ?thesis using waits_seen[OF waits_mono[OF assms]] by (simp add: evaluate_stopped)
next
  case False
  then show ?thesis using evaluate_state(5)[of t kind e] by (auto simp: waits_ok_def evaluate_state(2))
qed

lemma step_waits:
  assumes "waits_ok now d t" "now \<le> pe_now e"
  shows "waits_ok (pe_now e) (unseen_after i e t d) (fst (tracker_step i e t))"
proof (cases i)
  case (Frame k h)
  then show ?thesis
    using assms by (auto simp: waits_ok_def unseen_after_def frame_state new_frame_def split: if_splits)
next
  case Settle_fired
  have "waits_ok now d (t\<lparr>tk_settleTimer := x\<rparr>)" for x using assms(1) by (simp add: waits_ok_def)
  note w = waits_mono[OF this assms(2)] evaluate_waits[OF this assms(2)]
  show ?thesis
    using w waits_mono[OF assms] by (auto simp: Settle_fired unseen_after_def onSettleTimer_def Let_def)
next
  case Max_wait_fired
  then show ?thesis
    using evaluate_waits[OF assms] waits_mono[OF assms] by (auto simp: unseen_after_def onMaxWaitTimer_def)
next
  case Reset_tracker
  then show ?thesis
    using assms by (auto simp: waits_ok_def unseen_after_def tk_reset_def tk_clearTimers_def ite_def)
next
  case Pages_changed
  have "waits_ok now d (t\<lparr>tk_pendingId := x\<rparr>)" "waits_ok now d (t\<lparr>tk_pendingId := x, tk_activeId := y, tk_pendingId := z\<rparr>)"
    for x y z using assms(1) by (simp_all add: waits_ok_def)
  note w = waits_mono[OF this(1) assms(2)] evaluate_waits[OF this(1) assms(2)] evaluate_waits[OF this(2) assms(2)]
  have "tk_stopped t \<Longrightarrow> d = None" using assms(1) by (simp add: waits_ok_def)
  then show ?thesis
    using w waits_mono[OF assms] by (auto simp: Pages_changed unseen_after_def tk_reload_def ite_def)
next
  case Stop_tracker
  then show ?thesis by (simp add: waits_ok_def unseen_after_def tk_stop_def tk_clearTimers_def)
qed

lemma run_waits:
  "waits_ok now d t \<Longrightarrow> clock_runs now is \<Longrightarrow> tracker_run t d is = (t', d') \<Longrightarrow> \<exists>now'. waits_ok now' d' t'"
proof (induction t d "is" arbitrary: now rule: tracker_run.induct)
  case (2 t d i e "is")
  then show ?case using step_waits[OF 2(2), of e i] by auto
qed auto

text \<open>No frame is forgotten: in every run of the tracker, from the moment a key shows something
  new until an evaluation has seen it, the evaluation is scheduled at most 600 ms after that
  moment, however long the burst of frames goes on.\<close>

theorem no_frame_forgotten:
  assumes "tracker_run new_tracker None is = (t, Some since)" "clock_runs 0 is"
  shows "\<exists>due. tk_maxWaitTimer t = Some due \<and> due \<le> since + PAGE_MAX_WAIT_MS"
proof -
  have "waits_ok 0 None new_tracker" by (simp add: waits_ok_def new_tracker_def)
  from run_waits[OF this assms(2,1)] show ?thesis by (auto simp: waits_ok_def)
qed

section \<open>When the layout switches\<close>

lemma find_page_id: "find_page ps pid = Some p \<Longrightarrow> pg_id p = pid \<and> p \<in> set ps"
  by (auto simp: find_page_def dest!: find_SomeD)

lemma winner_fields [simp]:
  "winner_of e (t\<lparr>tk_settleTimer := x\<rparr>) = winner_of e t" "winner_of e (t\<lparr>tk_pendingId := y\<rparr>) = winner_of e t"
  "winner_of e (t\<lparr>tk_activeId := z, tk_pendingId := y\<rparr>) = winner_of e t"
  "candidate_of e (t\<lparr>tk_settleTimer := x\<rparr>) = candidate_of e t"
  "candidate_of e (t\<lparr>tk_pendingId := y\<rparr>) = candidate_of e t"
  "candidate_of e (t\<lparr>tk_activeId := z, tk_pendingId := y\<rparr>) = candidate_of e t"
  by (simp_all add: winner_of_def candidate_of_def)

text \<open>A page that shows on the deck: enough of its keys have the hash it was saved with.\<close>

definition shows_now :: "page_env \<Rightarrow> tracker \<Rightarrow> page \<Rightarrow> bool" where
  "shows_now e t p \<longleftrightarrow>
     isEligible p (pe_profile e) (pe_keyCount e) \<and> passes (pe_pages e) (scorePage p (tk_hashes t))"

lemma switch_page:
  assumes "switches kind e t" "Some p = Option.bind (candidate_of e t) (find_page (pe_pages e))"
  shows "pg_id p = the (candidate_of e t)" "candidate_of e t \<noteq> None" "\<not> isHeldVector (tk_hashes t)"
    "\<exists>q \<in> set (pe_pages e). pg_id q = pg_id p \<and> shows_now e t q"
proof -
  obtain s where s: "winner_of e t = Some s" "find_page (pe_pages e) (sc_page s) = Some p"
    using assms(2) by (cases "winner_of e t") (simp_all add: candidate_of_def)
  have p: "pg_id p = sc_page s" using find_page_id[OF s(2)] by simp
  then show "pg_id p = the (candidate_of e t)" "candidate_of e t \<noteq> None"
    using s(1) by (simp_all add: candidate_of_def)
  show "\<not> isHeldVector (tk_hashes t)" using assms(1) by (simp add: switches_def)
  show "\<exists>q \<in> set (pe_pages e). pg_id q = pg_id p \<and> shows_now e t q"
    using pickWinner_best(1,2)[OF s(1)[unfolded winner_of_def]] p
    by (auto simp: shows_now_def scorePage_def Let_def)
qed

lemma switched_page:
  assumes "switches kind e u" "Some p = Option.bind (candidate_of e u) (find_page (pe_pages e))"
    "tk_hashes u = tk_hashes t" "distinct (map pg_id (pe_pages e))"
  shows "p \<in> set (pe_pages e) \<and> shows_now e t p \<and> \<not> isHeldVector (tk_hashes t) \<and> candidate_of e t = Some (pg_id p)"
proof -
  have c: "candidate_of e u = candidate_of e t" "shows_now e u q = shows_now e t q" for q
    using assms(3) by (simp_all add: candidate_of_def winner_of_def shows_now_def)
  note sw = switch_page[OF assms(1,2)]
  obtain q where q: "q \<in> set (pe_pages e)" "pg_id q = pg_id p" "shows_now e u q" using sw(4) by (elim bexE conjE)
  have "find_page (pe_pages e) (the (candidate_of e u)) = Some p"
    using assms(2) sw(2) by (cases "candidate_of e u") simp_all
  then have p: "p \<in> set (pe_pages e)" by (rule find_page_id[THEN conjunct2])
  then have "q = p" using inj_onD[OF conjunct2[OF assms(4)[unfolded distinct_map]] q(2,1)] by simp
  then show ?thesis using q(3) p sw(1-3) c assms(3) by (cases "candidate_of e u") simp_all
qed


text \<open>Once the frames have settled, the deck's page is the best one: when the settle timer fires
  after 150 ms of quiet, on frames that are worth judging, the active page shows on the deck and no
  other page that does ranks before it; without an active page no saved page shows on the deck; no
  timer is left running.\<close>

theorem settled_page_is_best:
  assumes "\<not> tk_stopped t" "tk_settleTimer t \<noteq> None" "PAGE_SETTLE_MS \<le> pe_now e - tk_lastQuietBreakAt t"
    and "\<not> isHeldVector (tk_hashes t)"
  defines "t' \<equiv> fst (tracker_step Settle_fired e t)"
  shows "(case tk_activeId t' of
        None \<Rightarrow> \<forall>q \<in> set (pe_pages e). \<not> shows_now e t q
      | Some pid \<Rightarrow> \<exists>p \<in> set (pe_pages e). pg_id p = pid \<and> shows_now e t p
          \<and> (\<forall>q \<in> set (pe_pages e). shows_now e t q \<longrightarrow>
               ranks_before (scorePage p (tk_hashes t)) (scorePage q (tk_hashes t))))
    \<and> tk_settleTimer t' = None \<and> tk_maxWaitTimer t' = None"
proof -
  let ?u = "t\<lparr>tk_settleTimer := None\<rparr>"
  have t': "t' = fst (tk_evaluate Eval_quiet e ?u)"
    using assms(2,3) by (cases "tk_settleTimer t") (simp_all add: t'_def onSettleTimer_def Let_def)
  have a: "tk_activeId t' = candidate_of e t"
    using assms(1,4) unfolding t' by (auto simp: evaluate_state(3) switches_def)
  have "tk_settleTimer t' = None" unfolding t' by (simp add: evaluate_state(4))
  moreover have "tk_maxWaitTimer t' = None"
    unfolding t' using assms(1,4) by (auto simp: tk_evaluate_def ite_def Let_def)
  moreover have "case candidate_of e t of
        None \<Rightarrow> \<forall>q \<in> set (pe_pages e). \<not> shows_now e t q
      | Some pid \<Rightarrow> \<exists>p \<in> set (pe_pages e). pg_id p = pid \<and> shows_now e t p
          \<and> (\<forall>q \<in> set (pe_pages e). shows_now e t q \<longrightarrow>
               ranks_before (scorePage p (tk_hashes t)) (scorePage q (tk_hashes t)))"
  proof (cases "winner_of e t")
    case None
    then show ?thesis
      using pickWinner_None[of "pe_pages e" "tk_hashes t" "pe_profile e" "pe_keyCount e"]
      by (auto simp: candidate_of_def winner_of_def shows_now_def)
  next
    case (Some s)
    note b = pickWinner_best[OF Some[unfolded winner_of_def]]
    obtain p where p: "p \<in> set (pe_pages e)" "isEligible p (pe_profile e) (pe_keyCount e)" "s = scorePage p (tk_hashes t)"
      using b(1) by blast
    then show ?thesis
      using b(2,3) by (auto simp: candidate_of_def Some shows_now_def scorePage_def[of p] Let_def intro!: bexI[of _ p])
  qed
  ultimately show ?thesis using a by simp
qed

section \<open>Concrete runs\<close>

definition two_pages :: "page list" where
  "two_pages =
     [ \<lparr> pg_id = ''a'', pg_name = ''A'', pg_profile = ''15'', pg_keyCount = 2, pg_hashes = [Some ''h1'', Some ''h2''],
         pg_ignore = None, pg_minMatch = None, pg_extraKeys = None \<rparr>,
       \<lparr> pg_id = ''b'', pg_name = ''B'', pg_profile = ''15'', pg_keyCount = 2, pg_hashes = [Some ''h3'', Some ''h4''],
         pg_ignore = None, pg_minMatch = None, pg_extraKeys = None \<rparr> ]"

definition env_at :: "int \<Rightarrow> page_env" where
  "env_at now = \<lparr> pe_pages = two_pages, pe_profile = ''15'', pe_keyCount = 2, pe_columns = 2, pe_now = now \<rparr>"

definition waiting_tracker :: tracker where
  "waiting_tracker = new_tracker\<lparr>tk_hashes := [Some ''h3'', Some ''h4''], tk_settleTimer := Some 250,
     tk_lastQuietBreakAt := 100\<rparr>"

lemmas page_eval = two_pages_def env_at_def waiting_tracker_def new_tracker_def consideredKeys_def hash_at_def
  scorePage_def isEligible_def ranks_before_def sort_scores_def rankPages_def find_page_def passes_def
  requiredMatches_def PAGE_MIN_MATCH_DEFAULT_def pickWinner_def isHeldVector_def

lemma waiting_winner:
  "pickWinner (rankPages two_pages [Some ''h3'', Some ''h4''] ''15'' 2) two_pages =
     Some \<lparr> sc_page = ''b'', sc_matched = 2, sc_considered = 2, sc_mismatched = [] \<rparr>"
  by code_simp


end
