(* ===== verification/Dock_Scanner.thy ===== *)
theory Dock_Scanner
  imports Acts
begin

text \<open>
  \<^verbatim>\<open>main/dock-scanner.ts\<close> with the worker pool it uses (\<^verbatim>\<open>main/worker-pool.ts\<close>): docks 1..N, one
  per physical unit.  Every point where the code awaits (the enumeration, the open of a worker, the
  start of a dock, the close of a driver) ends an operation; what follows is an operation of its
  own, so that the others may run in between.  The rest of the program (mode, shutdown, the
  primary's unit, the enumerated paths) is an environment that may differ from one operation to the
  next.  A worker is a fresh number, and so is the dock built around it.
\<close>

section \<open>HID paths\<close>

text \<open>Strings compare by their code units.\<close>

datatype hid_path = Hid_path (path_text: string)

abbreviation code_units :: "hid_path \<Rightarrow> nat list" where
  "code_units p \<equiv> map of_char (path_text p)"

lemma code_units_inj: "code_units p = code_units q \<Longrightarrow> p = q"
  by (metis inj_map_eq_map inj_of_char hid_path.expand)

instantiation hid_path :: linorder
begin

definition less_eq_hid_path :: "hid_path \<Rightarrow> hid_path \<Rightarrow> bool" where
  "less_eq_hid_path p q = ord_class.lexordp_eq (code_units p) (code_units q)"

definition less_hid_path :: "hid_path \<Rightarrow> hid_path \<Rightarrow> bool" where
  "less_hid_path p q = ord_class.lexordp (code_units p) (code_units q)"

instance
proof
  fix p q r :: hid_path
  show "(p < q) = (p \<le> q \<and> \<not> q \<le> p)"
    unfolding less_eq_hid_path_def less_hid_path_def
    using lexordp_conv_lexordp_eq[of "code_units p" "code_units q"] by simp
  show "p \<le> p" by (simp add: less_eq_hid_path_def lexordp_eq_refl)
  show "p \<le> q \<Longrightarrow> q \<le> r \<Longrightarrow> p \<le> r"
    unfolding less_eq_hid_path_def by (rule lexordp_eq_trans)
  show "p \<le> q \<Longrightarrow> q \<le> p \<Longrightarrow> p = q"
    unfolding less_eq_hid_path_def by (intro code_units_inj lexordp_eq_antisym)
  show "p \<le> q \<or> q \<le> p"
    unfolding less_eq_hid_path_def by (rule lexordp_eq_linear)
qed

end

section \<open>State\<close>

record scan_env =
  se_shuttingDown :: bool
  se_realMode :: bool
  se_probing :: bool
  se_hasFactory :: bool
  se_primary :: "(string \<times> hid_path option) option"
  se_units :: "(string \<times> hid_path list) list"
  se_allowed :: "string \<Rightarrow> hid_path \<Rightarrow> bool"

record scanned_unit =
  su_path :: hid_path
  su_model :: string
  su_driver :: nat

text \<open>Where the one creation that may be under way awaits: the open of its worker, the start of its
  dock, or the close of a worker it gave up.\<close>

datatype creation =
    Opening string hid_path nat nat
  | Starting nat nat nat
  | Closing nat

datatype dock_ref = Scanned nat | Outside

record scanner =
  sc_units :: "(nat \<times> scanned_unit) list"
  sc_maxDocks :: nat
  sc_free :: "nat list"
  sc_reserved :: "nat set"
  sc_timer :: bool
  sc_scanWanted :: bool
  sc_scanInFlight :: bool
  sc_createInFlight :: bool
  sc_generation :: nat
  sc_creating :: "creation option"
  sc_docks :: "(nat \<times> dock_ref) list"
  sc_idle :: "(string \<times> nat) list"
  sc_workers :: nat
  sc_stopped :: "nat set"

datatype scan_event =
    Spawn_worker nat string
  | Remove_listeners nat
  | Open_unit nat hid_path
  | Start_dock nat nat
  | Stop_dock nat
  | Close_worker nat
  | Scan_seen
  | Docks_changed
  | Dock_connected nat

type_synonym scan_act = "(scanner, scan_event) eff"

abbreviation (input) MAX_DOCKS :: int where "MAX_DOCKS \<equiv> 4"

definition freshIndexPool :: "nat \<Rightarrow> nat set \<Rightarrow> nat list" where
  "freshIndexPool maxDocks reserved = filter (\<lambda>i. i \<notin> reserved) [1..<maxDocks]"

definition new_scanner :: scanner where
  "new_scanner =
     \<lparr> sc_units = [], sc_maxDocks = 1, sc_free = freshIndexPool 1 {}, sc_reserved = {}, sc_timer = False,
       sc_scanWanted = False, sc_scanInFlight = False, sc_createInFlight = False, sc_generation = 0,
       sc_creating = None, sc_docks = [(0, Outside)], sc_idle = [], sc_workers = 0, sc_stopped = {} \<rparr>"

section \<open>The worker pool\<close>

definition pool_acquire :: "string \<Rightarrow> scanner \<Rightarrow> nat \<times> bool \<times> scanner" where
  "pool_acquire m s =
     (case map_of (sc_idle s) m of
        Some d \<Rightarrow> (d, False, s\<lparr>sc_idle := AList.delete m (sc_idle s)\<rparr>)
      | None \<Rightarrow> (sc_workers s, True, s\<lparr>sc_workers := sc_workers s + 1\<rparr>))"

definition pool_park :: "string \<Rightarrow> nat \<Rightarrow> scanner \<Rightarrow> scanner" where
  "pool_park m d s = s\<lparr>sc_idle := AList.update m d (sc_idle s)\<rparr>"

definition pool_closeAll :: scan_act where
  "pool_closeAll s =
     (s\<lparr>sc_idle := []\<rparr>, List.concat (map (\<lambda>(m, d). [Remove_listeners d, Close_worker d]) (sc_idle s)))"

section \<open>Indices and timers\<close>

definition releaseIndex :: "nat \<Rightarrow> scanner \<Rightarrow> scanner" where
  "releaseIndex i s = (if i \<in> set (sc_free s) then s else s\<lparr>sc_free := sc_free s @ [i]\<rparr>)"

definition allocIndex :: "scanner \<Rightarrow> nat option \<times> scanner" where
  "allocIndex s =
     (case sort (sc_free s) of
        [] \<Rightarrow> (None, s)
      | i # rest \<Rightarrow> (Some i, s\<lparr>sc_free := rest\<rparr>))"

definition syncTimer :: "scan_env \<Rightarrow> scanner \<Rightarrow> scanner" where
  "syncTimer e s = s\<lparr>sc_timer := (sc_scanWanted s \<and> 1 < sc_maxDocks s \<and> \<not> se_shuttingDown e)\<rparr>"

definition startScan :: "scan_env \<Rightarrow> scanner \<Rightarrow> scanner" where
  "startScan e s = syncTimer e (s\<lparr>sc_scanWanted := True\<rparr>)"

definition stopScan :: "scan_env \<Rightarrow> scanner \<Rightarrow> scanner" where
  "stopScan e s = syncTimer e (s\<lparr>sc_scanWanted := False\<rparr>)"

text \<open>\<^verbatim>\<open>reserveIndex\<close> with the dock it is reserved for (\<^verbatim>\<open>addExternalDock\<close> of
  \<^verbatim>\<open>main/driver-manager.ts\<close>), None for the error.\<close>

definition reserveIndex :: "nat \<Rightarrow> scanner \<Rightarrow> scanner option" where
  "reserveIndex i s =
     (if map_of (sc_units s) i \<noteq> None then None
      else Some (s\<lparr>sc_reserved := insert i (sc_reserved s), sc_free := filter (\<lambda>j. j \<noteq> i) (sc_free s)\<rparr>))"

definition unreserveIndex :: "nat \<Rightarrow> scanner \<Rightarrow> scanner" where
  "unreserveIndex i s =
     (if i \<notin> sc_reserved s then s
      else let s = s\<lparr>sc_reserved := sc_reserved s - {i}\<rparr>
           in if i < sc_maxDocks s \<and> 0 < i \<and> map_of (sc_units s) i = None then releaseIndex i s else s)"

definition addExternalDock :: "nat \<Rightarrow> scanner \<Rightarrow> scanner option" where
  "addExternalDock i s =
     (if map_of (sc_docks s) i \<noteq> None then None
      else map_option (\<lambda>s. s\<lparr>sc_docks := AList.update i Outside (sc_docks s)\<rparr>) (reserveIndex i s))"

definition removeExternalDock :: "nat \<Rightarrow> scanner \<Rightarrow> scanner" where
  "removeExternalDock i s =
     (if i = 0 \<or> map_of (sc_docks s) i = None then s
      else unreserveIndex i (s\<lparr>sc_docks := AList.delete i (sc_docks s)\<rparr>))"

section \<open>Stopping docks\<close>

text \<open>\<^verbatim>\<open>dock.stop()\<close>: the first call closes the driver the dock has attached; a dock whose start is
  still awaited has none.\<close>

definition starting :: "nat \<Rightarrow> scanner \<Rightarrow> bool" where
  "starting d s \<longleftrightarrow> (case sc_creating s of Some (Starting i d' g) \<Rightarrow> d' = d | _ \<Rightarrow> False)"

definition stop_dock :: "nat \<Rightarrow> scan_act" where
  "stop_dock d s =
     (if d \<in> sc_stopped s then (s, [])
      else (s\<lparr>sc_stopped := insert d (sc_stopped s)\<rparr>,
            Stop_dock d # (if starting d s then [] else [Close_worker d])))"

definition forget :: "nat \<Rightarrow> scanner \<Rightarrow> scanner" where
  "forget i s =
     releaseIndex i (s\<lparr>sc_units := AList.delete i (sc_units s), sc_docks := AList.delete i (sc_docks s)\<rparr>)"

definition teardownDock :: "nat \<Rightarrow> scan_act" where
  "teardownDock i s =
     (case (map_of (sc_docks s) i, map_of (sc_units s) i) of
        (Some r, Some u) \<Rightarrow> acts
          [ upd (forget i), case r of Scanned d \<Rightarrow> stop_dock d | Outside \<Rightarrow> skip, emits Docks_changed ] s
      | _ \<Rightarrow> (s, []))"

definition scanned_docks :: "scanner \<Rightarrow> nat list" where
  "scanned_docks s =
     List.map_filter (\<lambda>(i, u). case map_of (sc_docks s) i of Some (Scanned d) \<Rightarrow> Some d | _ \<Rightarrow> None) (sc_units s)"

definition stopScannedDocks :: scan_act where
  "stopScannedDocks s =
     (let ds = scanned_docks s;
          s = s\<lparr>sc_generation := sc_generation s + 1,
                sc_docks := filter (\<lambda>(i, r). i \<notin> fst ` set (sc_units s)) (sc_docks s),
                sc_units := [], sc_free := freshIndexPool (sc_maxDocks s) (sc_reserved s)\<rparr>
      in acts (map stop_dock ds @ [emits Docks_changed]) s)"

text \<open>\<^verbatim>\<open>setMaxDocks\<close>; lowering the cap to one dock awaits the stop before it synchronizes the timer.\<close>

definition setMaxDocks :: "int \<Rightarrow> scan_env \<Rightarrow> scan_act" where
  "setMaxDocks n e s =
     (let cap = nat (min (max 1 n) MAX_DOCKS)
      in if cap = sc_maxDocks s then (s, [])
         else if cap \<le> 1 then stopScannedDocks (s\<lparr>sc_maxDocks := cap\<rparr>)
         else (syncTimer e (s\<lparr>sc_maxDocks := cap,
                 sc_free := filter (\<lambda>i. i \<notin> fst ` set (sc_units s)) (freshIndexPool cap (sc_reserved s))\<rparr>), []))"

text \<open>Whom a change of the device tuning, and a change of the user's choice, tear down.\<close>

definition reload_targets :: "string \<Rightarrow> scanner \<Rightarrow> nat list" where
  "reload_targets m s = map fst (filter (\<lambda>(i, u). m = '''' \<or> su_model u = m) (sc_units s))"

definition claimedPaths :: "scanner \<Rightarrow> hid_path list" where
  "claimedPaths s = map (su_path \<circ> snd) (sc_units s)"

section \<open>Scanning\<close>

definition scanTarget :: "scan_env \<Rightarrow> scanner \<Rightarrow> (string \<times> hid_path option) option" where
  "scanTarget e s =
     (if sc_maxDocks s \<le> 1 \<or> se_shuttingDown e \<or> \<not> se_realMode e \<or> se_probing e
         \<or> \<not> se_hasFactory e \<or> sc_createInFlight s
      then None else se_primary e)"

definition scanForDocks :: "scan_env \<Rightarrow> scanner \<Rightarrow> scanner" where
  "scanForDocks e s =
     (if sc_scanInFlight s \<or> scanTarget e s = None then s else s\<lparr>sc_scanInFlight := True\<rparr>)"

definition candidates :: "scan_env \<Rightarrow> string \<times> hid_path option \<Rightarrow> scanner \<Rightarrow> (string \<times> hid_path) list" where
  "candidates e primary s =
     (let claimed = set (claimedPaths s) \<union> set_option (snd primary);
          skipModel = (if snd primary = None then Some (fst primary) else None)
      in List.concat (map (\<lambda>(m, ps). if skipModel = Some m then []
           else map (Pair m) (filter (\<lambda>p. p \<notin> claimed \<and> se_allowed e m p) ps)) (se_units e)))"

fun lowest :: "(string \<times> hid_path) option \<Rightarrow> (string \<times> hid_path) list \<Rightarrow> (string \<times> hid_path) option" where
  "lowest pick [] = pick"
| "lowest pick ((m, p) # cs) =
     lowest (case pick of None \<Rightarrow> Some (m, p) | Some (m', p') \<Rightarrow> if p < p' then Some (m, p) else pick) cs"

definition pickUnclaimedPath ::
  "scan_env \<Rightarrow> string \<times> hid_path option \<Rightarrow> scanner \<Rightarrow> (string \<times> hid_path) option" where
  "pickUnclaimedPath e primary s = lowest None (candidates e primary s)"

definition stale :: "nat \<Rightarrow> scan_env \<Rightarrow> scanner \<Rightarrow> bool" where
  "stale g e s \<longleftrightarrow> g \<noteq> sc_generation s \<or> se_shuttingDown e \<or> \<not> se_realMode e"

definition createDock :: "string \<Rightarrow> hid_path \<Rightarrow> scan_act" where
  "createDock m p s =
     (let (d, fresh, s) = pool_acquire m s
      in (s\<lparr>sc_creating := Some (Opening m p (sc_generation s) d)\<rparr>,
          (if fresh then [Spawn_worker d m] else [Remove_listeners d]) @ [Open_unit d p]))"

definition creation_over :: "scanner \<Rightarrow> scanner" where
  "creation_over s = s\<lparr>sc_creating := None, sc_createInFlight := False, sc_scanInFlight := False\<rparr>"

text \<open>\<^verbatim>\<open>await closeDriver(driver)\<close>, then the end of the creation.\<close>

definition give_up :: "nat \<Rightarrow> scan_act" where
  "give_up d s = (s\<lparr>sc_creating := Some (Closing d)\<rparr>, [Remove_listeners d, Close_worker d])"

text \<open>The enumeration is over; None if it failed.\<close>

definition onEnumerated :: "bool \<Rightarrow> scan_env \<Rightarrow> scan_act" where
  "onEnumerated ok e s =
     (if \<not> sc_scanInFlight s \<or> sc_creating s \<noteq> None then (s, [])
      else if \<not> ok then (s\<lparr>sc_scanInFlight := False\<rparr>, [])
      else case scanTarget e s of
          None \<Rightarrow> (s\<lparr>sc_scanInFlight := False\<rparr>, [])
        | Some primary \<Rightarrow> acts
            [ emits Scan_seen,
              \<lambda>s. case (if sc_free s = [] then None else pickUnclaimedPath e primary s) of
                    None \<Rightarrow> (s\<lparr>sc_scanInFlight := False\<rparr>, [])
                  | Some (m, p) \<Rightarrow> createDock m p (s\<lparr>sc_createInFlight := True\<rparr>) ] s)"

definition register_dock :: "nat \<Rightarrow> string \<Rightarrow> hid_path \<Rightarrow> nat \<Rightarrow> nat \<Rightarrow> scan_act" where
  "register_dock i m p d g s =
     (s\<lparr>sc_units := AList.update i \<lparr> su_path = p, su_model = m, su_driver = d \<rparr> (sc_units s),
        sc_docks := AList.update i (Scanned d) (sc_docks s),
        sc_creating := Some (Starting i d g)\<rparr>, [Start_dock i d])"

definition onOpened :: "bool \<Rightarrow> scan_env \<Rightarrow> scan_act" where
  "onOpened ok e s =
     (case sc_creating s of
        Some (Opening m p g d) \<Rightarrow>
          if stale g e s then give_up d s
          else if \<not> ok then (creation_over (pool_park m d s), [])
          else (case (if 1 < sc_maxDocks s then allocIndex s else (None, s)) of
                  (None, s) \<Rightarrow> give_up d s
                | (Some i, s) \<Rightarrow> register_dock i m p d g s)
      | _ \<Rightarrow> (s, []))"

text \<open>The start of the dock is over; a dock stopped meanwhile fails to start.  After a failure the code
  awaits the dock's stop before it closes the worker; both are one operation here.\<close>

definition onStarted :: "bool \<Rightarrow> scan_env \<Rightarrow> scan_act" where
  "onStarted ok e s =
     (case sc_creating s of
        Some (Starting i d g) \<Rightarrow>
          if ok \<and> d \<notin> sc_stopped s
          then (creation_over s, [Docks_changed, Dock_connected i])
          else acts [ upd (forget i), stop_dock d, give_up d ] s
      | _ \<Rightarrow> (s, []))"

definition onClosed :: "scanner \<Rightarrow> scanner" where
  "onClosed s = (case sc_creating s of Some (Closing d) \<Rightarrow> creation_over s | _ \<Rightarrow> s)"

datatype scan_input =
    Start_scan
  | Stop_scan
  | Set_max_docks int
  | Sync_timer
  | Scan_tick
  | Enumerated bool
  | Opened bool
  | Started bool
  | Closed
  | Teardown nat
  | Stop_scanned
  | Add_external nat
  | Remove_external nat
  | Close_pool

text \<open>Whoever removes an external dock has added it.\<close>

fun scan_step :: "scan_input \<Rightarrow> scan_env \<Rightarrow> scan_act" where
  "scan_step Start_scan e = upd (startScan e)"
| "scan_step Stop_scan e = upd (stopScan e)"
| "scan_step (Set_max_docks n) e = setMaxDocks n e"
| "scan_step Sync_timer e = upd (syncTimer e)"
| "scan_step Scan_tick e = ite sc_timer (upd (scanForDocks e)) skip"
| "scan_step (Enumerated ok) e = onEnumerated ok e"
| "scan_step (Opened ok) e = onOpened ok e"
| "scan_step (Started ok) e = onStarted ok e"
| "scan_step Closed e = upd onClosed"
| "scan_step (Teardown i) e = teardownDock i"
| "scan_step Stop_scanned e = stopScannedDocks"
| "scan_step (Add_external i) e = upd (\<lambda>s. case addExternalDock i s of None \<Rightarrow> s | Some s \<Rightarrow> s)"
| "scan_step (Remove_external i) e =
     ite (\<lambda>s. map_of (sc_docks s) i = Some Outside) (upd (removeExternalDock i)) skip"
| "scan_step Close_pool e = pool_closeAll"

fun scan_run :: "scanner \<Rightarrow> (scan_input \<times> scan_env) list \<Rightarrow> scanner \<times> scan_event list" where
  "scan_run s [] = (s, [])"
| "scan_run s ((i, e) # is) =
     (let (s1, es) = scan_step i e s; (s2, fs) = scan_run s1 is in (s2, es @ fs))"

section \<open>The invariant\<close>

definition unit_indices :: "scanner \<Rightarrow> nat set" where
  "unit_indices s = fst ` set (sc_units s)"

text \<open>The path of the worker that is being opened.\<close>

definition opening_path :: "scanner \<Rightarrow> hid_path list" where
  "opening_path s = (case sc_creating s of Some (Opening m p g d) \<Rightarrow> [p] | _ \<Rightarrow> [])"

text \<open>The workers that are in use or parked.\<close>

definition worker_of :: "creation option \<Rightarrow> nat set" where
  "worker_of c = (case c of Some (Opening m p g d) \<Rightarrow> {d} | Some (Starting i d g) \<Rightarrow> {d} | _ \<Rightarrow> {})"

definition alive :: "scanner \<Rightarrow> nat set" where
  "alive s = snd ` set (sc_idle s) \<union> su_driver ` snd ` set (sc_units s) \<union> worker_of (sc_creating s)"

definition pool_ok :: "scanner \<Rightarrow> bool" where
  "pool_ok s \<longleftrightarrow>
     distinct (keys_of (sc_idle s)) \<and> distinct (vals_of (sc_idle s))
     \<and> snd ` set (sc_idle s) \<inter> (su_driver ` snd ` set (sc_units s) \<union> worker_of (sc_creating s)) = {}
     \<and> (\<forall>d \<in> alive s. d < sc_workers s)
     \<and> (\<forall>d \<in> sc_stopped s. d < sc_workers s \<and> d \<notin> snd ` set (sc_idle s))"

definition units_ok :: "scanner \<Rightarrow> bool" where
  "units_ok s \<longleftrightarrow>
     distinct (keys_of (sc_units s)) \<and> distinct (claimedPaths s @ opening_path s)
     \<and> distinct (map (su_driver \<circ> snd) (sc_units s))
     \<and> distinct (sc_free s) \<and> set (sc_free s) \<inter> unit_indices s = {}
     \<and> set (sc_free s) \<union> unit_indices s \<subseteq> {1..3} \<and> 1 \<le> sc_maxDocks s \<and> sc_maxDocks s \<le> 4"

definition creation_ok :: "scanner \<Rightarrow> bool" where
  "creation_ok s \<longleftrightarrow>
     (sc_createInFlight s = (sc_creating s \<noteq> None)) \<and> (sc_creating s \<noteq> None \<longrightarrow> sc_scanInFlight s)
     \<and> (case sc_creating s of
          Some (Opening m p g d) \<Rightarrow> g \<le> sc_generation s \<and> map_of (sc_idle s) m = None \<and> d \<notin> su_driver ` snd ` set (sc_units s) \<and> d \<notin> sc_stopped s
        | Some (Starting i d g) \<Rightarrow> i \<in> {1..3}
            \<and> (\<forall>j u. map_of (sc_units s) j = Some u \<longrightarrow> (su_driver u = d) = (j = i))
            \<and> (d \<in> sc_stopped s \<longleftrightarrow> map_of (sc_units s) i = None)
        | _ \<Rightarrow> True)"

definition docks_ok :: "scanner \<Rightarrow> bool" where
  "docks_ok s \<longleftrightarrow>
     (\<forall>i u. map_of (sc_units s) i = Some u \<longrightarrow>
        map_of (sc_docks s) i = Some (Scanned (su_driver u)) \<and> su_driver u \<notin> sc_stopped s)
     \<and> (\<forall>i d. map_of (sc_docks s) i = Some (Scanned d) \<longrightarrow> map_of (sc_units s) i \<noteq> None)"

definition scan_ok :: "scanner \<Rightarrow> bool" where
  "scan_ok s \<longleftrightarrow> units_ok s \<and> creation_ok s \<and> docks_ok s \<and> pool_ok s"

lemmas scan_ok_defs = scan_ok_def units_ok_def creation_ok_def docks_ok_def pool_ok_def

definition closed_once :: "scanner \<Rightarrow> scan_event list \<Rightarrow> bool" where
  "closed_once s es \<longleftrightarrow>
     (\<forall>d. count_list es (Close_worker d) = (if d < sc_workers s \<and> d \<notin> alive s then 1 else 0))"

lemma delete_filter: "AList.delete k m = filter (\<lambda>p. fst p \<noteq> k) m"
  by (auto simp: AList.delete_eq intro: filter_cong)

lemma distinct_map_delete: "distinct (map f m) \<Longrightarrow> distinct (map f (AList.delete k m))"
  by (simp add: delete_filter distinct_map_filter)

lemma release_fields [simp]:
  "sc_units (releaseIndex i s) = sc_units s" "sc_docks (releaseIndex i s) = sc_docks s"
  "sc_idle (releaseIndex i s) = sc_idle s" "sc_workers (releaseIndex i s) = sc_workers s"
  "sc_stopped (releaseIndex i s) = sc_stopped s" "sc_creating (releaseIndex i s) = sc_creating s"
  "sc_createInFlight (releaseIndex i s) = sc_createInFlight s"
  "sc_scanInFlight (releaseIndex i s) = sc_scanInFlight s" "sc_maxDocks (releaseIndex i s) = sc_maxDocks s"
  "sc_generation (releaseIndex i s) = sc_generation s"
  "set (sc_free (releaseIndex i s)) = insert i (set (sc_free s))"
  "distinct (sc_free s) \<Longrightarrow> distinct (sc_free (releaseIndex i s))"
  by (auto simp: releaseIndex_def)

lemma forget_fields [simp]:
  "sc_units (forget i s) = AList.delete i (sc_units s)" "sc_docks (forget i s) = AList.delete i (sc_docks s)"
  "sc_idle (forget i s) = sc_idle s" "sc_workers (forget i s) = sc_workers s"
  "sc_stopped (forget i s) = sc_stopped s" "sc_creating (forget i s) = sc_creating s"
  "sc_createInFlight (forget i s) = sc_createInFlight s"
  "sc_scanInFlight (forget i s) = sc_scanInFlight s" "sc_maxDocks (forget i s) = sc_maxDocks s"
  "sc_generation (forget i s) = sc_generation s"
  "set (sc_free (forget i s)) = insert i (set (sc_free s))"
  "distinct (sc_free s) \<Longrightarrow> distinct (sc_free (forget i s))"
  by (simp_all add: forget_def)

lemma stop_dock_fields [simp]:
  "sc_units (fst (stop_dock d s)) = sc_units s" "sc_docks (fst (stop_dock d s)) = sc_docks s"
  "sc_idle (fst (stop_dock d s)) = sc_idle s" "sc_workers (fst (stop_dock d s)) = sc_workers s"
  "sc_stopped (fst (stop_dock d s)) = insert d (sc_stopped s)" "sc_creating (fst (stop_dock d s)) = sc_creating s"
  "sc_createInFlight (fst (stop_dock d s)) = sc_createInFlight s" "sc_free (fst (stop_dock d s)) = sc_free s"
  "sc_scanInFlight (fst (stop_dock d s)) = sc_scanInFlight s" "sc_maxDocks (fst (stop_dock d s)) = sc_maxDocks s"
  "sc_generation (fst (stop_dock d s)) = sc_generation s"
  by (auto simp: stop_dock_def)

lemma sync_fields [simp]:
  "sc_units (syncTimer e s) = sc_units s" "sc_docks (syncTimer e s) = sc_docks s"
  "sc_idle (syncTimer e s) = sc_idle s" "sc_workers (syncTimer e s) = sc_workers s"
  "sc_stopped (syncTimer e s) = sc_stopped s" "sc_creating (syncTimer e s) = sc_creating s"
  "sc_createInFlight (syncTimer e s) = sc_createInFlight s" "sc_free (syncTimer e s) = sc_free s"
  "sc_scanInFlight (syncTimer e s) = sc_scanInFlight s" "sc_maxDocks (syncTimer e s) = sc_maxDocks s"
  "sc_generation (syncTimer e s) = sc_generation s"
  by (simp_all add: syncTimer_def)

text \<open>Operations that touch none of the fields of the invariant.\<close>

definition same_scan :: "scanner \<Rightarrow> scanner \<Rightarrow> bool" where
  "same_scan s t \<longleftrightarrow>
     sc_units t = sc_units s \<and> sc_docks t = sc_docks s \<and> sc_idle t = sc_idle s \<and> sc_workers t = sc_workers s
     \<and> sc_stopped t = sc_stopped s \<and> sc_creating t = sc_creating s
     \<and> sc_createInFlight t = sc_createInFlight s \<and> sc_free t = sc_free s
     \<and> sc_maxDocks t = sc_maxDocks s \<and> sc_generation t = sc_generation s
     \<and> (sc_creating s \<noteq> None \<longrightarrow> sc_scanInFlight t = sc_scanInFlight s)"

lemma same_scan_ok: "same_scan s t \<Longrightarrow> scan_ok s \<Longrightarrow> scan_ok t"
  unfolding same_scan_def scan_ok_defs alive_def unit_indices_def claimedPaths_def opening_path_def
  by (clarsimp split: option.splits creation.splits)

lemma alive_cong:
  "sc_idle t = sc_idle s \<Longrightarrow> sc_units t = sc_units s \<Longrightarrow> sc_creating t = sc_creating s \<Longrightarrow> alive t = alive s"
  by (simp add: alive_def)

text \<open>How the workers move: what is no longer alive is closed once, what is new is alive.\<close>

definition moves :: "scanner \<Rightarrow> scanner \<Rightarrow> scan_event list \<Rightarrow> bool" where
  "moves s t es \<longleftrightarrow>
     sc_workers s \<le> sc_workers t
     \<and> (\<forall>d. count_list es (Close_worker d) = (if d \<in> alive s \<and> d \<notin> alive t then 1 else 0))
     \<and> (\<forall>d < sc_workers s. d \<in> alive t \<longrightarrow> d \<in> alive s)
     \<and> (\<forall>d. sc_workers s \<le> d \<longrightarrow> (d \<in> alive t) = (d < sc_workers t))"

lemma closed_once_moves:
  assumes "closed_once s es" "moves s t fs" "\<forall>d \<in> alive s. d < sc_workers s"
  shows "closed_once t (es @ fs)"
  unfolding closed_once_def
proof
  fix d
  show "count_list (es @ fs) (Close_worker d) = (if d < sc_workers t \<and> d \<notin> alive t then 1 else 0)"
    using assms by (cases "d < sc_workers s") (auto simp: closed_once_def moves_def)
qed

lemma movesI:
  assumes "sc_workers t = sc_workers s" "\<forall>d \<in> alive s. d < sc_workers s" "alive t \<subseteq> alive s"
    "\<And>d. count_list es (Close_worker d) = (if d \<in> alive s \<and> d \<notin> alive t then 1 else 0)"
  shows "moves s t es"
  using assms unfolding moves_def by (auto simp: subset_iff not_le[symmetric])

lemma moves_same:
  "sc_workers t = sc_workers s \<Longrightarrow> alive t = alive s \<Longrightarrow> (\<And>d. Close_worker d \<notin> set es) \<Longrightarrow>
     \<forall>d \<in> alive s. d < sc_workers s \<Longrightarrow> moves s t es"
  unfolding moves_def by (auto simp: count_list_0_iff)

lemma opening_cong: "sc_creating t = sc_creating s \<Longrightarrow> opening_path t = opening_path s"
  by (simp add: opening_path_def)

lemma units_ok_forget: "units_ok s \<Longrightarrow> i \<in> {1..3} \<Longrightarrow> units_ok (forget i s)"
  unfolding units_ok_def claimedPaths_def unit_indices_def
  by (auto simp: opening_cong[of "forget i s" s] distinct_map_delete[unfolded delete_filter] delete_filter)

lemma docks_ok_forget: "docks_ok s \<Longrightarrow> docks_ok (forget i s)"
  by (auto simp: docks_ok_def)

lemma unit_in_range: "units_ok s \<Longrightarrow> map_of (sc_units s) i = Some u \<Longrightarrow> i \<in> {1..3}"
  by (force simp: units_ok_def unit_indices_def dest: map_of_SomeD)

lemma delete_one:
  assumes "distinct (keys_of us)" "distinct (map f us)" "map_of us i = Some u"
  shows "f ` set (AList.delete i us) = f ` set us - {f (i, u)}"
proof -
  have u: "(i, u) \<in> set us" using map_of_SomeD[OF assms(3)] .
  have "fst v = i \<longleftrightarrow> f v = f (i, u)" if "v \<in> set us" for v
  proof
    assume "fst v = i"
    then have "map_of us i = Some (snd v)" using assms(1) that by (cases v) simp
    then show "f v = f (i, u)" using assms(3) \<open>fst v = i\<close> by (cases v) simp
  next
    assume "f v = f (i, u)"
    then have "v = (i, u)" using assms(2) that u by (auto simp: distinct_map dest: inj_onD)
    then show "fst v = i" by simp
  qed
  then show ?thesis by (auto simp: delete_filter)
qed

lemma drivers_delete:
  assumes "units_ok s" "map_of (sc_units s) i = Some u"
  shows "su_driver ` snd ` set (AList.delete i (sc_units s)) = su_driver ` snd ` set (sc_units s) - {su_driver u}"
  using delete_one[of "sc_units s" "su_driver \<circ> snd" i u] assms by (simp add: units_ok_def image_comp)

lemma drivers_delete_none: "map_of us i = None \<Longrightarrow> AList.delete i us = us"
  by (rule om_delete_fresh)

lemma starting_cong: "sc_creating t = sc_creating s \<Longrightarrow> starting d t = starting d s"
  by (simp add: starting_def)

lemma starting_worker: "starting d s \<longleftrightarrow> (\<exists>i g. sc_creating s = Some (Starting i d g))"
  by (auto simp: starting_def split: option.splits creation.splits)

lemma creation_ok_removed:
  assumes "creation_ok s" "docks_ok s" "units_ok s" "map_of (sc_units s) i = Some u"
  shows "creation_ok (fst (stop_dock (su_driver u) (forget i s)))"
proof (cases "sc_creating s")
  case (Some c)
  have u: "su_driver u \<notin> sc_stopped s" "su_driver u \<in> su_driver ` snd ` set (sc_units s)"
    using assms(2,4) map_of_SomeD[OF assms(4)] by (force simp: docks_ok_def)+
  show ?thesis
  proof (cases c)
    case (Opening m p g d)
    then show ?thesis
      using assms(1) Some u drivers_delete[OF assms(3,4)] by (auto simp: creation_ok_def)
  next
    case (Starting j d g)
    then have "(su_driver u = d) = (i = j)" using assms(1,4) Some by (auto simp: creation_ok_def)
    then show ?thesis using assms(1) Some Starting u by (auto simp: creation_ok_def)
  qed (use assms(1) Some in \<open>simp add: creation_ok_def\<close>)
qed (use assms(1) in \<open>simp add: creation_ok_def\<close>)

lemma alive_removed:
  assumes "scan_ok s" "map_of (sc_units s) i = Some u"
  defines "d \<equiv> su_driver u"
  shows "alive (fst (stop_dock d (forget i s))) = (if starting d s then alive s else alive s - {d})"
proof -
  note ok = assms(1)[unfolded scan_ok_def]
  have d: "d \<in> su_driver ` snd ` set (sc_units s)" using map_of_SomeD[OF assms(2)] by (force simp: d_def)
  have n: "d \<notin> snd ` set (sc_idle s)" using ok d by (auto simp: pool_ok_def)
  have a: "alive (fst (stop_dock d (forget i s)))
      = snd ` set (sc_idle s) \<union> (su_driver ` snd ` set (sc_units s) - {d}) \<union> worker_of (sc_creating s)"
    using drivers_delete[of s i u] ok assms(2) by (simp add: alive_def d_def)
  show ?thesis
  proof (cases "starting d s")
    case True
    then have "d \<in> worker_of (sc_creating s)" by (auto simp: starting_worker worker_of_def)
    then show ?thesis using True unfolding a by (auto simp: alive_def)
  next
    case False
    then have "d \<notin> worker_of (sc_creating s)"
      using d ok by (auto simp: starting_worker worker_of_def creation_ok_def split: option.splits creation.splits)
    then show ?thesis using False n unfolding a by (auto simp: alive_def)
  qed
qed

lemma disjoint_part: "A \<inter> B = {} \<Longrightarrow> C \<subseteq> B \<Longrightarrow> A \<inter> C = {}"
  by blast

lemma pool_ok_alive:
  assumes "pool_ok s" "sc_idle t = sc_idle s" "sc_workers t = sc_workers s"
    "alive t \<subseteq> alive s" "sc_stopped t \<subseteq> insert d (sc_stopped s)" "d < sc_workers s" "d \<notin> snd ` set (sc_idle s)"
    "su_driver ` snd ` set (sc_units t) \<union> worker_of (sc_creating t)
       \<subseteq> su_driver ` snd ` set (sc_units s) \<union> worker_of (sc_creating s)"
  shows "pool_ok t"
proof -
  have "snd ` set (sc_idle t) \<inter> (su_driver ` snd ` set (sc_units t) \<union> worker_of (sc_creating t)) = {}"
    unfolding assms(2) by (rule disjoint_part[OF conjunct1[OF conjunct2[OF conjunct2[OF assms(1)[unfolded pool_ok_def]]]] assms(8)])
  moreover have "\<forall>x \<in> alive t. x < sc_workers t" using assms(1,3,4) by (auto simp: pool_ok_def)
  moreover have "\<forall>x \<in> sc_stopped t. x < sc_workers t \<and> x \<notin> snd ` set (sc_idle t)"
  proof
    fix x assume "x \<in> sc_stopped t"
    then have "x = d \<or> x \<in> sc_stopped s" using assms(5) by auto
    then show "x < sc_workers t \<and> x \<notin> snd ` set (sc_idle t)"
      using assms(1,6,7) unfolding pool_ok_def assms(2,3) by auto
  qed
  ultimately show ?thesis
    using assms(1) unfolding pool_ok_def assms(2) by (elim conjE) (intro conjI; assumption)
qed

lemma driver_inj:
  assumes "units_ok s" "map_of (sc_units s) i = Some u" "map_of (sc_units s) j = Some v" "su_driver u = su_driver v"
  shows "i = j"
proof -
  have "inj_on (su_driver \<circ> snd) (set (sc_units s))" using assms(1) by (simp add: units_ok_def distinct_map)
  from inj_onD[OF this, of "(i, u)" "(j, v)"] show ?thesis
    using assms(4) map_of_SomeD[OF assms(2)] map_of_SomeD[OF assms(3)] by simp
qed

lemma stop_events:
  "d \<notin> sc_stopped s \<Longrightarrow> snd (stop_dock d s) = Stop_dock d # (if starting d s then [] else [Close_worker d])"
  by (simp add: stop_dock_def)

lemma removed_ok:
  assumes "scan_ok s" "map_of (sc_units s) i = Some u"
  defines "t \<equiv> stop_dock (su_driver u) (forget i s)"
  shows "scan_ok (fst t)" "moves s (fst t) (snd t)"
proof -
  note ok = assms(1)[unfolded scan_ok_def]
  let ?d = "su_driver u"
  have d: "?d \<in> su_driver ` snd ` set (sc_units s)" using map_of_SomeD[OF assms(2)] by force
  then have l: "?d < sc_workers s" "?d \<notin> snd ` set (sc_idle s)" "?d \<in> alive s"
    using ok by (auto simp: pool_ok_def alive_def)
  have ns: "?d \<notin> sc_stopped s" using ok assms(2) by (auto simp: docks_ok_def)
  note al = alive_removed[OF assms(1,2)]
  have "units_ok (forget i s)" using units_ok_forget[OF _ unit_in_range[OF _ assms(2)]] ok by simp
  then have "units_ok (fst t)"
    unfolding t_def units_ok_def unit_indices_def claimedPaths_def by (simp add: opening_cong[of "fst (stop_dock ?d (forget i s))" "forget i s"])
  moreover have "docks_ok (fst t)"
    unfolding docks_ok_def t_def
  proof (intro conjI allI impI)
    fix j v assume "map_of (sc_units (fst (stop_dock ?d (forget i s)))) j = Some v"
    then have v: "j \<noteq> i" "map_of (sc_units s) j = Some v" by (simp_all split: if_splits)
    have "su_driver v \<noteq> ?d" using driver_inj[OF _ assms(2) v(2)] ok v(1) by auto
    then show "map_of (sc_docks (fst (stop_dock ?d (forget i s)))) j = Some (Scanned (su_driver v))"
      "su_driver v \<notin> sc_stopped (fst (stop_dock ?d (forget i s)))"
      using v ok by (auto simp: docks_ok_def)
  next
    fix j d assume "map_of (sc_docks (fst (stop_dock ?d (forget i s)))) j = Some (Scanned d)"
    then show "map_of (sc_units (fst (stop_dock ?d (forget i s)))) j \<noteq> None"
      using ok unfolding docks_ok_def by (auto split: if_splits)
  qed
  moreover have "creation_ok (fst t)" unfolding t_def using creation_ok_removed assms(2) ok by blast
  moreover have "pool_ok (fst t)"
    by (rule pool_ok_alive[of s _ ?d])
      (use ok l al in \<open>auto simp: t_def delete_filter\<close>)
  ultimately show "scan_ok (fst t)" by (simp add: scan_ok_def)
  show "moves s (fst t) (snd t)"
    unfolding moves_def t_def al stop_events[of ?d "forget i s", simplified, OF ns]
    using l ok by (auto simp: starting_cong[of "forget i s" s] pool_ok_def)
qed

lemma acts_single [simp]: "acts [f] s = f s"
  by (cases "f s") (simp add: acts.simps)

lemma teardown_ok:
  assumes "scan_ok s"
  shows "scan_ok (fst (teardownDock i s)) \<and> moves s (fst (teardownDock i s)) (snd (teardownDock i s))"
proof (cases "map_of (sc_units s) i")
  case None
  then have "teardownDock i s = (s, [])" by (simp add: teardownDock_def split: option.splits)
  then show ?thesis using assms by (auto simp: scan_ok_def pool_ok_def moves_def)
next
  case (Some u)
  then have "map_of (sc_docks s) i = Some (Scanned (su_driver u))"
    using assms by (simp add: scan_ok_def docks_ok_def)
  then show ?thesis
    using removed_ok[OF assms Some] Some by (simp add: teardownDock_def moves_def)
qed

lemma map_filter_total: "\<forall>x \<in> set xs. f x = Some (g x) \<Longrightarrow> List.map_filter f xs = map g xs"
  by (induction xs) (simp_all add: List.map_filter_simps)

lemma starting_stop [simp]: "starting d (fst (stop_dock x s)) = starting d s"
  by (rule starting_cong) simp

lemma scanned_docks_eq:
  assumes "docks_ok s" "units_ok s"
  shows "scanned_docks s = map (su_driver \<circ> snd) (sc_units s)"
proof -
  have "map_of (sc_docks s) i = Some (Scanned (su_driver u))" if "(i, u) \<in> set (sc_units s)" for i u
    using that assms by (simp add: docks_ok_def units_ok_def)
  then show ?thesis
    unfolding scanned_docks_def by (intro map_filter_total) auto
qed

lemma stop_all:
  assumes "distinct ds" "set ds \<inter> sc_stopped s = {}"
  defines "r \<equiv> acts (map stop_dock ds @ [emits Docks_changed]) s"
  shows "sc_units (fst r) = sc_units s" "sc_docks (fst r) = sc_docks s" "sc_idle (fst r) = sc_idle s"
    "sc_workers (fst r) = sc_workers s" "sc_creating (fst r) = sc_creating s"
    "sc_createInFlight (fst r) = sc_createInFlight s" "sc_free (fst r) = sc_free s"
    "sc_scanInFlight (fst r) = sc_scanInFlight s" "sc_maxDocks (fst r) = sc_maxDocks s"
    "sc_generation (fst r) = sc_generation s" "sc_stopped (fst r) = sc_stopped s \<union> set ds"
    "count_list (snd r) (Close_worker d) = (if d \<in> set ds \<and> \<not> starting d s then 1 else 0)"
    "Start_dock j d \<notin> set (snd r)" "Dock_connected j \<notin> set (snd r)"
  using assms(1,2) unfolding r_def
proof (induction ds arbitrary: s)
  case (Cons x ds)
  {
    case 1 then show ?case using Cons.IH[of "fst (stop_dock x s)"] by simp
  next
    case 2 then show ?case using Cons.IH[of "fst (stop_dock x s)"] by simp
  next
    case 3 then show ?case using Cons.IH[of "fst (stop_dock x s)"] by simp
  next
    case 4 then show ?case using Cons.IH[of "fst (stop_dock x s)"] by simp
  next
    case 5 then show ?case using Cons.IH[of "fst (stop_dock x s)"] by simp
  next
    case 6 then show ?case using Cons.IH[of "fst (stop_dock x s)"] by simp
  next
    case 7 then show ?case using Cons.IH[of "fst (stop_dock x s)"] by simp
  next
    case 8 then show ?case using Cons.IH[of "fst (stop_dock x s)"] by simp
  next
    case 9 then show ?case using Cons.IH[of "fst (stop_dock x s)"] by simp
  next
    case 10 then show ?case using Cons.IH[of "fst (stop_dock x s)"] by simp
  next
    case 11 then show ?case using Cons.IH[of "fst (stop_dock x s)"] by auto
  next
    case 12 then show ?case using Cons.IH(12)[of "fst (stop_dock x s)"] by (auto simp: stop_events)
  next
    case 13 then show ?case using Cons.IH(13)[of "fst (stop_dock x s)"] by (auto simp: stop_events)
  next
    case 14 then show ?case using Cons.IH(14)[of "fst (stop_dock x s)"] by (auto simp: stop_events)
  }
qed (simp_all add: acts.simps)

lemma fresh_pool: "set (freshIndexPool n r) = {1..<n} - r" "distinct (freshIndexPool n r)"
  by (auto simp: freshIndexPool_def)

lemma map_of_filter_keys: "map_of (filter (\<lambda>(i, r). P i) m) k = (if P k then map_of m k else None)"
  by (induction m) auto

lemma stop_scanned_state:
  assumes "scan_ok s"
  defines "r \<equiv> stopScannedDocks s" and "ds \<equiv> map (su_driver \<circ> snd) (sc_units s)"
  shows "sc_units (fst r) = []" "sc_idle (fst r) = sc_idle s" "sc_workers (fst r) = sc_workers s"
    "sc_creating (fst r) = sc_creating s" "sc_createInFlight (fst r) = sc_createInFlight s"
    "sc_free (fst r) = freshIndexPool (sc_maxDocks s) (sc_reserved s)"
    "sc_scanInFlight (fst r) = sc_scanInFlight s" "sc_maxDocks (fst r) = sc_maxDocks s"
    "sc_generation (fst r) = sc_generation s + 1" "sc_stopped (fst r) = sc_stopped s \<union> set ds"
    "map_of (sc_docks (fst r)) i = (if i \<in> unit_indices s then None else map_of (sc_docks s) i)"
    "count_list (snd r) (Close_worker d) = (if d \<in> set ds \<and> \<not> starting d s then 1 else 0)"
    "Start_dock j d \<notin> set (snd r)" "Dock_connected j \<notin> set (snd r)"
proof -
  note ok = assms(1)[unfolded scan_ok_def]
  have ds: "scanned_docks s = ds" unfolding ds_def using scanned_docks_eq ok by blast
  have "d \<in> set ds \<Longrightarrow> d \<notin> sc_stopped s" for d
    using ok by (auto simp: ds_def docks_ok_def units_ok_def)
  then have d: "distinct ds" "set ds \<inter> sc_stopped s = {}" using ok by (auto simp: ds_def units_ok_def)
  let ?s = "s\<lparr>sc_generation := sc_generation s + 1,
      sc_docks := filter (\<lambda>(i, r). i \<notin> fst ` set (sc_units s)) (sc_docks s),
      sc_units := [], sc_free := freshIndexPool (sc_maxDocks s) (sc_reserved s)\<rparr>"
  have r: "r = acts (map stop_dock ds @ [emits Docks_changed]) ?s"
    unfolding r_def stopScannedDocks_def ds Let_def by simp
  have d': "set ds \<inter> sc_stopped ?s = {}" using d(2) by simp
  note st = stop_all[OF d(1) d', folded r]
  have "starting d ?s = starting d s" for d by (rule starting_cong) simp
  then show "count_list (snd r) (Close_worker d) = (if d \<in> set ds \<and> \<not> starting d s then 1 else 0)"
    using st(12) by simp
  show "Start_dock j d \<notin> set (snd r)" "Dock_connected j \<notin> set (snd r)" by (rule st)+
  show "map_of (sc_docks (fst r)) i = (if i \<in> unit_indices s then None else map_of (sc_docks s) i)"
    by (simp add: st map_of_filter_keys unit_indices_def)
  show "sc_units (fst r) = []" "sc_idle (fst r) = sc_idle s" "sc_workers (fst r) = sc_workers s"
    "sc_creating (fst r) = sc_creating s" "sc_createInFlight (fst r) = sc_createInFlight s"
    "sc_free (fst r) = freshIndexPool (sc_maxDocks s) (sc_reserved s)"
    "sc_scanInFlight (fst r) = sc_scanInFlight s" "sc_maxDocks (fst r) = sc_maxDocks s"
    "sc_generation (fst r) = sc_generation s + 1" "sc_stopped (fst r) = sc_stopped s \<union> set ds"
    by (simp_all add: st)
qed

lemma stop_scanned_ok:
  assumes "scan_ok s"
  shows "scan_ok (fst (stopScannedDocks s)) \<and> moves s (fst (stopScannedDocks s)) (snd (stopScannedDocks s))"
proof -
  note ok = assms[unfolded scan_ok_def]
  let ?t = "fst (stopScannedDocks s)" and ?D = "su_driver ` snd ` set (sc_units s)"
  note st = stop_scanned_state[OF assms]
  have D: "set (map (su_driver \<circ> snd) (sc_units s)) = ?D" by (simp add: image_comp)
  have w: "d \<in> ?D \<Longrightarrow> d \<in> worker_of (sc_creating s) \<longleftrightarrow> starting d s" for d
    using ok by (auto simp: creation_ok_def worker_of_def starting_def split: option.splits creation.splits)
  have l: "d < sc_workers s \<and> d \<notin> snd ` set (sc_idle s)" if "d \<in> ?D" for d
    using ok that by (auto simp: pool_ok_def alive_def)
  have "sc_maxDocks s \<le> 4" "1 \<le> sc_maxDocks s" using ok by (simp_all add: units_ok_def)
  then have "units_ok ?t"
    using ok by (auto simp: units_ok_def st claimedPaths_def unit_indices_def fresh_pool opening_cong[of ?t s])
  moreover have "docks_ok ?t"
    using ok by (auto simp: docks_ok_def st unit_indices_def map_of_key split: if_splits)
  moreover have "creation_ok ?t"
  proof (cases "sc_creating s")
    case (Some c)
    show ?thesis
    proof (cases c)
      case (Opening m p g d)
      then show ?thesis using ok Some D by (auto simp: creation_ok_def st)
    next
      case (Starting i d g)
      then have "d \<in> sc_stopped s \<or> d \<in> ?D"
        using ok Some by (force simp: creation_ok_def dest: map_of_SomeD)
      then show ?thesis using ok Some Starting D by (auto simp: creation_ok_def st)
    qed (use ok Some in \<open>simp add: creation_ok_def st\<close>)
  qed (use ok in \<open>simp add: creation_ok_def st\<close>)
  moreover have "pool_ok ?t"
  proof -
    have "\<forall>d \<in> sc_stopped s \<union> ?D. d < sc_workers s \<and> d \<notin> snd ` set (sc_idle s)"
      using ok l by (auto simp only: pool_ok_def Un_iff)
    then show ?thesis
      using ok unfolding pool_ok_def st D alive_def by (simp add: Int_Un_distrib ball_Un)
  qed
  moreover have "moves s ?t (snd (stopScannedDocks s))"
  proof (rule movesI)
    have al: "alive ?t = snd ` set (sc_idle s) \<union> worker_of (sc_creating s)" by (simp add: alive_def st)
    show "\<forall>d \<in> alive s. d < sc_workers s" using ok by (simp add: pool_ok_def)
    show "alive ?t \<subseteq> alive s" unfolding al by (auto simp: alive_def)
    fix d
    show "count_list (snd (stopScannedDocks s)) (Close_worker d) = (if d \<in> alive s \<and> d \<notin> alive ?t then 1 else 0)"
      unfolding st(12) D al using l[of d] w[of d] by (auto simp: alive_def)
  qed (simp add: st)
  ultimately show ?thesis by (simp add: scan_ok_def)
qed

lemma movesD:
  assumes "moves s t es"
  shows "sc_workers s \<le> sc_workers t"
    "count_list es (Close_worker d) = (if d \<in> alive s \<and> d \<notin> alive t then 1 else 0)"
    "d < sc_workers s \<Longrightarrow> d \<in> alive t \<Longrightarrow> d \<in> alive s"
    "\<not> d < sc_workers s \<Longrightarrow> (d \<in> alive t) = (d < sc_workers t)"
  using assms unfolding moves_def not_less by blast+

lemma moves_trans:
  assumes "moves s t es" "moves t u fs" "\<forall>d \<in> alive s. d < sc_workers s" "sc_workers t = sc_workers s"
  shows "moves s u (es @ fs)"
  unfolding moves_def
proof (intro conjI allI impI)
  note m = movesD[OF assms(1)] movesD[OF assms(2), unfolded assms(4)]
  show "sc_workers s \<le> sc_workers u" by (rule m(5))
  fix d
  have l: "d \<in> alive s \<Longrightarrow> d < sc_workers s" using assms(3) by blast
  show "count_list (es @ fs) (Close_worker d) = (if d \<in> alive s \<and> d \<notin> alive u then 1 else 0)"
  proof (cases "d < sc_workers s")
    case True
    then have "d \<in> alive t \<longrightarrow> d \<in> alive s" "d \<in> alive u \<longrightarrow> d \<in> alive t" using m(3,7)[of d] by blast+
    then show ?thesis
      unfolding count_list_append m(2,6) by (cases "d \<in> alive s"; cases "d \<in> alive t"; simp)
  next
    case False
    then have "d \<notin> alive t" "d \<notin> alive s" using m(4)[of d] l assms(4) by (simp, blast)
    then show ?thesis unfolding count_list_append m(2,6) by simp
  qed
  show "d < sc_workers s \<Longrightarrow> d \<in> alive u \<Longrightarrow> d \<in> alive s" using m(3,7)[of d] by blast
  show "sc_workers s \<le> d \<Longrightarrow> (d \<in> alive u) = (d < sc_workers u)" using m(8)[of d] by simp
qed

lemma give_up_ok:
  assumes "scan_ok s" "d \<in> worker_of (sc_creating s)" "d \<notin> su_driver ` snd ` set (sc_units s)"
  shows "scan_ok (fst (give_up d s))" "moves s (fst (give_up d s)) (snd (give_up d s))"
proof -
  note ok = assms(1)[unfolded scan_ok_def]
  have w: "worker_of (sc_creating s) = {d}" "sc_creating s \<noteq> None"
    using assms(2) by (auto simp: worker_of_def split: option.splits creation.splits)
  have n: "d \<notin> snd ` set (sc_idle s)" "d < sc_workers s"
    using ok assms(2) by (auto simp: pool_ok_def alive_def)
  have a: "alive (fst (give_up d s)) = alive s - {d}" "d \<in> alive s"
    using assms(2,3) n w by (auto simp: give_up_def alive_def worker_of_def)
  have "units_ok (fst (give_up d s))"
    using ok by (auto simp: give_up_def units_ok_def claimedPaths_def opening_path_def unit_indices_def)
  moreover have "docks_ok (fst (give_up d s))" using ok by (simp add: give_up_def docks_ok_def)
  moreover have "creation_ok (fst (give_up d s))" using ok w by (simp add: give_up_def creation_ok_def)
  moreover have "pool_ok (fst (give_up d s))"
    by (rule pool_ok_alive[of s _ d]) (use ok n a in \<open>auto simp: give_up_def worker_of_def\<close>)
  ultimately show "scan_ok (fst (give_up d s))" by (simp add: scan_ok_def)
  show "moves s (fst (give_up d s)) (snd (give_up d s))"
    by (rule movesI) (use ok a in \<open>auto simp: pool_ok_def give_up_def\<close>)
qed

lemma lowest_mem: "lowest pick cs = Some x \<Longrightarrow> x \<in> set cs \<or> pick = Some x"
  by (induction pick cs rule: lowest.induct) (auto split: option.splits if_splits)

lemma picked_unclaimed:
  "pickUnclaimedPath e primary s = Some (m, p) \<Longrightarrow>
     p \<notin> set (claimedPaths s) \<and> snd primary \<noteq> Some p \<and> se_allowed e m p"
  by (auto simp: pickUnclaimedPath_def candidates_def Let_def dest!: lowest_mem split: if_splits)

lemma create_ok:
  fixes m p s
  assumes "scan_ok s" "sc_creating s = None" "sc_scanInFlight s" "p \<notin> set (claimedPaths s)"
  defines "r \<equiv> createDock m p (s\<lparr>sc_createInFlight := True\<rparr>)"
  shows "scan_ok (fst r)" "moves s (fst r) (snd r)"
proof -
  note ok = assms(1)[unfolded scan_ok_def]
  have w: "worker_of (sc_creating s) = {}" by (simp add: assms(2) worker_of_def)
  have paths: "units_ok (fst r)" if "sc_units (fst r) = sc_units s" "sc_free (fst r) = sc_free s"
    "sc_maxDocks (fst r) = sc_maxDocks s" "opening_path (fst r) = [p]"
    using ok assms(4) that by (auto simp: units_ok_def claimedPaths_def unit_indices_def)
  show "scan_ok (fst r)" "moves s (fst r) (snd r)"
  proof (atomize(full), cases "map_of (sc_idle s) m")
    case None
    let ?d = "sc_workers s"
    have r: "r = (s\<lparr>sc_createInFlight := True, sc_workers := ?d + 1,
        sc_creating := Some (Opening m p (sc_generation s) ?d)\<rparr>, [Spawn_worker ?d m, Open_unit ?d p])"
      by (simp add: r_def createDock_def pool_acquire_def None)
    have al: "alive (fst r) = insert ?d (alive s)" by (simp add: r alive_def w) (simp add: worker_of_def)
    have "?d \<notin> alive s" "?d \<notin> sc_stopped s" using ok by (auto simp: pool_ok_def)
    then have d: "?d \<notin> snd ` set (sc_idle s)" "?d \<notin> su_driver ` snd ` set (sc_units s)" "?d \<notin> sc_stopped s"
      by (simp_all add: alive_def)
    have "units_ok (fst r)" by (rule paths) (simp_all add: r opening_path_def)
    moreover have "docks_ok (fst r)" using ok by (simp add: r docks_ok_def)
    moreover have "creation_ok (fst r)" using assms(3) d None by (simp add: r creation_ok_def)
    moreover have "pool_ok (fst r)"
      using ok d unfolding pool_ok_def al by (simp add: r w) (auto simp: worker_of_def)
    moreover have "moves s (fst r) (snd r)"
      unfolding moves_def al using ok by (auto simp: r pool_ok_def)
    ultimately show "scan_ok (fst r) \<and> moves s (fst r) (snd r)" by (simp add: scan_ok_def)
  next
    case (Some d)
    have r: "r = (s\<lparr>sc_createInFlight := True, sc_idle := AList.delete m (sc_idle s),
        sc_creating := Some (Opening m p (sc_generation s) d)\<rparr>, [Remove_listeners d, Open_unit d p])"
      by (simp add: r_def createDock_def pool_acquire_def Some)
    have del: "snd ` set (AList.delete m (sc_idle s)) = snd ` set (sc_idle s) - {d}"
      using delete_one[of "sc_idle s" snd m d] ok Some by (simp add: pool_ok_def)
    have mem: "d \<in> snd ` set (sc_idle s)" using map_of_SomeD[OF Some] by force
    have al: "alive (fst r) = alive s"
      using mem by (simp add: r alive_def w del) (auto simp: worker_of_def)
    have d: "d \<notin> su_driver ` snd ` set (sc_units s)" "d \<notin> sc_stopped s" "d < sc_workers s"
      using ok mem by (auto simp: pool_ok_def alive_def)
    have "units_ok (fst r)" by (rule paths) (simp_all add: r opening_path_def)
    moreover have "docks_ok (fst r)" using ok by (simp add: r docks_ok_def)
    moreover have "creation_ok (fst r)" using assms(3) d by (simp add: r creation_ok_def)
    moreover have "pool_ok (fst r)"
    proof -
      have "distinct (keys_of (sc_idle (fst r)))" "distinct (vals_of (sc_idle (fst r)))"
        using ok by (simp_all add: r pool_ok_def distinct_map_delete)
      moreover have "snd ` set (sc_idle (fst r)) \<inter> (su_driver ` snd ` set (sc_units (fst r)) \<union> worker_of (sc_creating (fst r))) = {}"
        using ok by (simp add: r del) (auto simp: pool_ok_def worker_of_def)
      moreover have "\<forall>x \<in> sc_stopped s. x < sc_workers s \<and> x \<notin> snd ` set (sc_idle (fst r))"
        using ok by (simp add: r del pool_ok_def)
      moreover have "\<forall>x \<in> alive s. x < sc_workers s" using ok by (simp add: pool_ok_def)
      ultimately show ?thesis unfolding pool_ok_def al by (simp add: r)
    qed
    moreover have "moves s (fst r) (snd r)"
      by (rule movesI) (use ok al in \<open>auto simp: r pool_ok_def\<close>)
    ultimately show "scan_ok (fst r) \<and> moves s (fst r) (snd r)" by (simp add: scan_ok_def)
  qed
qed

lemma opened_ok:
  fixes good e s
  assumes "scan_ok s"
  defines "r \<equiv> onOpened good e s"
  shows "scan_ok (fst r) \<and> moves s (fst r) (snd r)"
proof (cases "\<exists>m p g d. sc_creating s = Some (Opening m p g d)")
  case False
  then have "r = (s, [])" unfolding r_def onOpened_def by (auto split: option.splits creation.splits)
  then show ?thesis using assms(1) by (auto simp: scan_ok_def pool_ok_def intro: movesI)
next
  case True
  note ok = assms(1)[unfolded scan_ok_def]
  obtain m p g d where c: "sc_creating s = Some (Opening m p g d)" using True by blast
  have w: "worker_of (sc_creating s) = {d}" by (simp add: c worker_of_def)
  have o: "opening_path s = [p]" by (simp add: c opening_path_def)
  have cr: "map_of (sc_idle s) m = None" "d \<notin> su_driver ` snd ` set (sc_units s)" "d \<notin> sc_stopped s"
    using ok by (simp_all add: creation_ok_def c)
  have d: "d \<notin> snd ` set (sc_idle s)" "d < sc_workers s" using ok by (auto simp: pool_ok_def alive_def w)
  have gu: "scan_ok (fst (give_up d s))" "moves s (fst (give_up d s)) (snd (give_up d s))"
    using give_up_ok[OF assms(1), of d] w cr(2) by simp_all
  consider (bad) "stale g e s \<or> good \<and> (sc_maxDocks s \<le> 1 \<or> sc_free s = [])" | (park) "\<not> stale g e s" "\<not> good"
    | (reg) "\<not> stale g e s" "good" "1 < sc_maxDocks s" "sc_free s \<noteq> []" by linarith
  then show ?thesis
  proof cases
    case bad
    then have "r = give_up d s" unfolding r_def onOpened_def by (auto simp: c allocIndex_def)
    then show ?thesis using gu by simp
  next
    case park
    then have r: "r = (creation_over (s\<lparr>sc_idle := sc_idle s @ [(m, d)]\<rparr>), [])"
      unfolding r_def onOpened_def by (simp add: c pool_park_def om_set_fresh[OF cr(1)])
    have al: "alive (fst r) = alive s"
      by (simp add: r creation_over_def alive_def w) (simp add: worker_of_def)
    have "units_ok (fst r)"
      using ok unfolding units_ok_def claimedPaths_def unit_indices_def
      by (simp add: r creation_over_def) (simp add: opening_path_def)
    moreover have "docks_ok (fst r)" using ok by (simp add: r docks_ok_def creation_over_def)
    moreover have "creation_ok (fst r)" by (simp add: r creation_ok_def creation_over_def)
    moreover have "pool_ok (fst r)"
    proof -
      have "distinct (keys_of (sc_idle (fst r)))" "distinct (vals_of (sc_idle (fst r)))"
        using ok cr(1) d(1) by (simp_all add: r creation_over_def pool_ok_def map_of_key)
      moreover have "snd ` set (sc_idle (fst r)) \<inter> (su_driver ` snd ` set (sc_units (fst r)) \<union> worker_of (sc_creating (fst r))) = {}"
        using ok cr(2) by (simp add: r creation_over_def worker_of_def pool_ok_def Int_Un_distrib)
      moreover have "\<forall>x \<in> sc_stopped s. x < sc_workers s \<and> x \<notin> snd ` set (sc_idle (fst r))"
        using ok cr(3) by (auto simp: r creation_over_def pool_ok_def)
      moreover have "\<forall>x \<in> alive s. x < sc_workers s" using ok by (simp add: pool_ok_def)
      ultimately show ?thesis unfolding pool_ok_def al by (simp add: r creation_over_def)
    qed
    moreover have "moves s (fst r) (snd r)"
      by (rule movesI) (use ok al in \<open>auto simp: r pool_ok_def creation_over_def\<close>)
    ultimately show ?thesis by (simp add: scan_ok_def)
  next
    case reg
    then have "set (sort (sc_free s)) \<noteq> {}" by simp
    then obtain i rest where f: "sort (sc_free s) = i # rest" by (cases "sort (sc_free s)") auto
    let ?u = "\<lparr> su_path = p, su_model = m, su_driver = d \<rparr>"
    have s: "set (sc_free s) = insert i (set rest)" "distinct (i # rest)"
      using ok f by (metis list.simps(15) set_sort, simp add: units_ok_def flip: f)
    have i: "map_of (sc_units s) i = None" "i \<in> {1..3}"
      using ok s(1) by (auto simp: units_ok_def unit_indices_def map_of_key)
    have r: "r = (s\<lparr>sc_free := rest, sc_units := sc_units s @ [(i, ?u)],
        sc_docks := AList.update i (Scanned d) (sc_docks s), sc_creating := Some (Starting i d g)\<rparr>, [Start_dock i d])"
      unfolding r_def onOpened_def using reg by (simp add: c allocIndex_def f register_dock_def om_set_fresh[OF i(1)])
    have al: "alive (fst r) = alive s" by (simp add: r alive_def w) (auto simp: worker_of_def)
    have "units_ok (fst r)"
      using ok s i cr(2) o unfolding units_ok_def claimedPaths_def unit_indices_def
      by (simp add: r map_of_key image_comp) (auto simp: opening_path_def)
    moreover have "docks_ok (fst r)"
      using ok i cr(3) by (auto simp: r docks_ok_def map_add_def split: option.splits)
    moreover have "su_driver v \<noteq> d" if "map_of (sc_units s) j = Some v" for j v
      using cr(2) map_of_SomeD[OF that] by force
    then have "creation_ok (fst r)"
      using ok i cr(3) by (auto simp: r creation_ok_def c map_add_def split: option.splits)
    moreover have "pool_ok (fst r)"
      using ok d unfolding pool_ok_def al by (simp add: r) (auto simp: worker_of_def)
    moreover have "moves s (fst r) (snd r)"
      by (rule movesI) (use ok al in \<open>auto simp: r pool_ok_def\<close>)
    ultimately show ?thesis by (simp add: scan_ok_def)
  qed
qed

lemma started_ok:
  fixes good e s
  assumes "scan_ok s"
  defines "r \<equiv> onStarted good e s"
  shows "scan_ok (fst r) \<and> moves s (fst r) (snd r)"
proof (cases "\<exists>i d g. sc_creating s = Some (Starting i d g)")
  case False
  then have "r = (s, [])" unfolding r_def onStarted_def by (auto split: option.splits creation.splits)
  then show ?thesis using assms(1) by (auto simp: scan_ok_def pool_ok_def intro: movesI)
next
  case True
  note ok = assms(1)[unfolded scan_ok_def]
  obtain i d g where c: "sc_creating s = Some (Starting i d g)" using True by blast
  have w: "worker_of (sc_creating s) = {d}" by (simp add: c worker_of_def)
  have cr: "i \<in> {1..3}" "\<And>j u. map_of (sc_units s) j = Some u \<Longrightarrow> (su_driver u = d) = (j = i)"
    "d \<in> sc_stopped s \<longleftrightarrow> map_of (sc_units s) i = None"
    using ok by (simp_all add: creation_ok_def c)
  have bound: "\<forall>x \<in> alive s. x < sc_workers s" using ok by (simp add: pool_ok_def)
  show ?thesis
  proof (cases "good \<and> d \<notin> sc_stopped s")
    case True
    then have r: "r = (creation_over s, [Docks_changed, Dock_connected i])" by (simp add: r_def onStarted_def c)
    obtain u where u: "map_of (sc_units s) i = Some u" using True cr(3) by auto
    then have "d \<in> su_driver ` snd ` set (sc_units s)" using cr(2) map_of_SomeD[OF u] by force
    then have al: "alive (fst r) = alive s"
      by (simp add: r creation_over_def alive_def w) (auto simp: worker_of_def)
    have "units_ok (fst r)"
      using ok unfolding units_ok_def claimedPaths_def unit_indices_def
      by (simp add: r creation_over_def) (simp add: opening_path_def)
    moreover have "docks_ok (fst r)" using ok by (simp add: r docks_ok_def creation_over_def)
    moreover have "creation_ok (fst r)" by (simp add: r creation_ok_def creation_over_def)
    moreover have "pool_ok (fst r)"
      using ok unfolding pool_ok_def al by (simp add: r creation_over_def) (auto simp: worker_of_def)
    moreover have "moves s (fst r) (snd r)"
      by (rule movesI) (use bound al in \<open>auto simp: r creation_over_def\<close>)
    ultimately show ?thesis by (simp add: scan_ok_def)
  next
    case False
    let ?t = "stop_dock d (forget i s)"
    have r: "fst r = fst (give_up d (fst ?t))" "snd r = snd ?t @ snd (give_up d (fst ?t))"
      unfolding r_def onStarted_def by (simp_all only: c option.case creation.case if_not_P[OF False]) simp_all
    have t: "scan_ok (fst ?t)" "moves s (fst ?t) (snd ?t)"
    proof (atomize(full), cases "map_of (sc_units s) i")
      case None
      then have n: "AList.delete i (sc_units s) = sc_units s" "d \<in> sc_stopped s" using cr(3) by (simp_all add: om_delete_fresh)
      then have e: "?t = (forget i s, [])" by (simp add: stop_dock_def)
      have al: "alive (forget i s) = alive s" by (simp add: alive_def n)
      have "creation_ok (forget i s)" using ok n by (simp add: creation_ok_def c)
      moreover have "pool_ok (forget i s)" using ok unfolding pool_ok_def al by (simp add: n)
      moreover have "units_ok (forget i s)" using units_ok_forget ok cr(1) by blast
      moreover have "docks_ok (forget i s)" using docks_ok_forget ok by blast
      moreover have "moves s (forget i s) []" by (rule movesI) (use bound al in auto)
      ultimately show "scan_ok (fst ?t) \<and> moves s (fst ?t) (snd ?t)" by (simp add: scan_ok_def e)
    next
      case (Some u)
      then show "scan_ok (fst ?t) \<and> moves s (fst ?t) (snd ?t)"
        using removed_ok[OF assms(1) Some] cr(2)[OF Some] by simp
    qed
    have "su_driver u \<noteq> d" if "(j, u) \<in> set (AList.delete i (sc_units s))" for j u
    proof -
      have "j \<noteq> i" "(j, u) \<in> set (sc_units s)" using that by (simp_all add: delete_filter)
      then show ?thesis using cr(2)[of j u] ok by (simp add: units_ok_def)
    qed
    then have "d \<notin> su_driver ` snd ` set (sc_units (fst ?t))" by fastforce
    then have gu: "scan_ok (fst (give_up d (fst ?t)))" "moves (fst ?t) (fst (give_up d (fst ?t))) (snd (give_up d (fst ?t)))"
      using give_up_ok[OF t(1), of d] w by simp_all
    show ?thesis unfolding r using gu(1) moves_trans[OF t(2) gu(2) bound] by simp
  qed
qed

lemma quiet_ok:
  assumes "scan_ok s" "same_scan s t" "\<And>d. Close_worker d \<notin> set es"
  shows "scan_ok t \<and> moves s t es"
proof
  show "scan_ok t" by (rule same_scan_ok[OF assms(2,1)])
  show "moves s t es"
    by (rule moves_same) (use assms in \<open>auto simp: same_scan_def alive_def scan_ok_def pool_ok_def\<close>)
qed

lemma closed_creation_ok: "scan_ok s \<Longrightarrow> scan_ok (onClosed s) \<and> moves s (onClosed s) []"
proof (cases "\<exists>d. sc_creating s = Some (Closing d)")
  case False
  then have "onClosed s = s" unfolding onClosed_def by (auto split: option.splits creation.splits)
  then show "scan_ok s \<Longrightarrow> ?thesis" by (auto simp: scan_ok_def pool_ok_def intro: movesI)
next
  case True
  assume ok: "scan_ok s"
  obtain d where c: "sc_creating s = Some (Closing d)" using True by blast
  then have t: "onClosed s = creation_over s" by (simp add: onClosed_def)
  have al: "alive (creation_over s) = alive s" by (simp add: alive_def creation_over_def worker_of_def c)
  have "scan_ok (creation_over s)"
  proof -
    have "units_ok (creation_over s)"
      using ok unfolding scan_ok_def units_ok_def claimedPaths_def unit_indices_def
      by (simp add: creation_over_def) (simp add: opening_path_def c)
    moreover have "docks_ok (creation_over s)"
      using ok unfolding scan_ok_def docks_ok_def by (elim conjE) (simp add: creation_over_def)
    moreover have "creation_ok (creation_over s)" by (simp add: creation_ok_def creation_over_def)
    moreover have "pool_ok (creation_over s)"
      using ok unfolding scan_ok_def pool_ok_def al by (simp add: creation_over_def worker_of_def c)
    ultimately show ?thesis by (simp add: scan_ok_def)
  qed
  moreover have "moves s (creation_over s) []"
    by (rule movesI) (use ok al in \<open>auto simp: creation_over_def scan_ok_def pool_ok_def\<close>)
  ultimately show ?thesis by (simp add: t)
qed

lemma caps_ok:
  assumes "scan_ok s"
  shows "scan_ok (fst (setMaxDocks n e s)) \<and> moves s (fst (setMaxDocks n e s)) (snd (setMaxDocks n e s))"
proof -
  define cap where "cap = nat (min (max 1 n) MAX_DOCKS)"
  have cap: "1 \<le> cap" "cap \<le> 4" unfolding cap_def by linarith+
  note ok = assms[unfolded scan_ok_def]
  let ?s = "s\<lparr>sc_maxDocks := cap\<rparr>"
  have al: "alive ?s = alive s" by (simp add: alive_def)
  have s: "scan_ok ?s"
  proof -
    have "units_ok ?s"
      using ok cap unfolding units_ok_def claimedPaths_def unit_indices_def by (simp add: opening_cong[of ?s s])
    moreover have "creation_ok ?s = creation_ok s"
      by (simp add: creation_ok_def cong: option.case_cong creation.case_cong)
    moreover have "docks_ok ?s = docks_ok s" by (simp add: docks_ok_def)
    moreover have "pool_ok ?s = pool_ok s" unfolding pool_ok_def al by simp
    ultimately show ?thesis using ok by (simp add: scan_ok_def)
  qed
  have same: "moves ?s t es = moves s t es" for t es by (simp add: moves_def al)
  let ?free = "filter (\<lambda>i. i \<notin> fst ` set (sc_units s)) (freshIndexPool cap (sc_reserved s))"
  let ?t = "syncTimer e (?s\<lparr>sc_free := ?free\<rparr>)"
  have up: "scan_ok ?t \<and> moves s ?t []"
  proof
    have at: "alive ?t = alive s" by (simp add: alive_def)
    have "set ?free \<union> unit_indices s \<subseteq> {1..3}" "set ?free \<inter> unit_indices s = {}" "distinct ?free"
      using ok cap(2) by (auto simp: fresh_pool units_ok_def unit_indices_def)
    then have "units_ok ?t"
      using ok cap unfolding units_ok_def claimedPaths_def unit_indices_def by (simp add: opening_cong[of ?t s])
    moreover have "creation_ok ?t = creation_ok s"
      by (simp add: creation_ok_def cong: option.case_cong creation.case_cong)
    moreover have "docks_ok ?t = docks_ok s" by (simp add: docks_ok_def)
    moreover have "pool_ok ?t = pool_ok s" unfolding pool_ok_def at by simp
    ultimately show "scan_ok ?t" using ok by (simp add: scan_ok_def)
    show "moves s ?t []" by (rule movesI) (use ok at in \<open>auto simp: pool_ok_def\<close>)
  qed
  have "scan_ok s \<and> moves s s []" using assms by (auto simp: scan_ok_def pool_ok_def intro: movesI)
  moreover have "scan_ok (fst (stopScannedDocks ?s)) \<and> moves s (fst (stopScannedDocks ?s)) (snd (stopScannedDocks ?s))"
    using stop_scanned_ok[OF s] same by simp
  ultimately show ?thesis using up unfolding setMaxDocks_def Let_def cap_def[symmetric] by simp
qed

lemma enumerated_ok:
  assumes "scan_ok s"
  shows "scan_ok (fst (onEnumerated good e s)) \<and> moves s (fst (onEnumerated good e s)) (snd (onEnumerated good e s))"
proof -
  have bound: "\<forall>d \<in> alive s. d < sc_workers s" using assms by (simp add: scan_ok_def pool_ok_def)
  have idle: "scan_ok s \<and> moves s s []" using assms bound by (auto intro: movesI)
  show ?thesis
  proof (cases "sc_scanInFlight s \<and> sc_creating s = None")
    case False
    then have "onEnumerated good e s = (s, [])" by (auto simp: onEnumerated_def)
    then show ?thesis using idle by simp
  next
    case True
    then have skips: "scan_ok (s\<lparr>sc_scanInFlight := False\<rparr>) \<and> moves s (s\<lparr>sc_scanInFlight := False\<rparr>) es"
      if "\<And>d. Close_worker d \<notin> set es" for es
      using that by (intro quiet_ok[OF assms(1)]) (simp_all add: same_scan_def)
    have creates: "scan_ok (fst r) \<and> moves s (fst r) ([Scan_seen] @ snd r)"
      if "sc_free s \<noteq> []" "pickUnclaimedPath e pr s = Some (m, p)"
        "r = createDock m p (s\<lparr>sc_createInFlight := True\<rparr>)" for pr m p r
      using create_ok[OF assms(1), of p m] picked_unclaimed[OF that(2)] True that(3)
        moves_trans[of s s "[Scan_seen]" "fst r" "snd r"] movesI[of s s "[Scan_seen]"] bound by simp
    show ?thesis
    proof (cases "if good then scanTarget e s else None")
      case None
      then show ?thesis using True skips[of "[]"] by (simp add: onEnumerated_def split: if_splits)
    next
      case (Some pr)
      then have g: "good" "scanTarget e s = Some pr" by (simp_all split: if_splits)
      show ?thesis
      proof (cases "if sc_free s = [] then None else pickUnclaimedPath e pr s")
        case None
        then show ?thesis using g True skips[of "[Scan_seen]"] by (simp add: onEnumerated_def)
      next
        case (Some mp)
        obtain m p where mp: "mp = (m, p)" by (cases mp)
        then show ?thesis
          using creates[of pr m p] Some g True by (simp add: onEnumerated_def split: if_splits)
      qed
    qed
  qed
qed

lemma external_ok:
  assumes "scan_ok s"
  shows "addExternalDock i s = Some t \<Longrightarrow> scan_ok t \<and> moves s t []"
    "map_of (sc_docks s) i = Some Outside \<Longrightarrow>
       scan_ok (removeExternalDock i s) \<and> moves s (removeExternalDock i s) []"
proof -
  note ok = assms[unfolded scan_ok_def]
  have keep: "scan_ok t \<and> moves s t []"
    if "sc_units t = sc_units s" "sc_idle t = sc_idle s" "sc_workers t = sc_workers s" "sc_stopped t = sc_stopped s"
      "sc_creating t = sc_creating s" "sc_createInFlight t = sc_createInFlight s" "sc_scanInFlight t = sc_scanInFlight s"
      "sc_maxDocks t = sc_maxDocks s" "sc_generation t = sc_generation s" "docks_ok t"
      "distinct (sc_free t)" "set (sc_free t) \<inter> unit_indices s = {}" "set (sc_free t) \<subseteq> {1..3}" for t
  proof -
    have al: "alive t = alive s" by (rule alive_cong) (rule that)+
    have "units_ok t"
      using ok that(11-) unfolding units_ok_def claimedPaths_def unit_indices_def that by (simp add: opening_cong[OF that(5)])
    moreover have "creation_ok t" using ok unfolding creation_ok_def that by simp
    moreover have "pool_ok t" using ok unfolding pool_ok_def al that by simp
    moreover have "moves s t []" by (rule movesI) (use that(3) al ok in \<open>simp_all add: pool_ok_def\<close>)
    ultimately show ?thesis using that(10) by (simp add: scan_ok_def)
  qed
  have u: "distinct (sc_free s)" "set (sc_free s) \<inter> unit_indices s = {}" "set (sc_free s) \<subseteq> {1..3}" "sc_maxDocks s \<le> 4"
    using ok by (simp_all add: units_ok_def)
  show "addExternalDock i s = Some t \<Longrightarrow> scan_ok t \<and> moves s t []"
    by (rule keep) (use u ok in \<open>auto simp: addExternalDock_def reserveIndex_def docks_ok_def split: if_splits\<close>)
  assume o: "map_of (sc_docks s) i = Some Outside"
  then have n: "map_of (sc_units s) i = None"
    using ok by (cases "map_of (sc_units s) i") (auto simp: docks_ok_def)
  then have "i \<notin> unit_indices s" by (simp add: unit_indices_def map_of_key)
  then show "scan_ok (removeExternalDock i s) \<and> moves s (removeExternalDock i s) []"
    by (intro keep)
      (use u ok n o in \<open>auto simp: removeExternalDock_def unreserveIndex_def docks_ok_def Let_def releaseIndex_def\<close>)
qed

lemma count_distinct: "distinct xs \<Longrightarrow> count_list xs x = (if x \<in> set xs then 1 else 0)"
  by (induction xs) auto

lemma close_pool_count:
  "count_list (List.concat (map (\<lambda>(m, d). [Remove_listeners d, Close_worker d]) idle)) (Close_worker d)
     = count_list (vals_of idle) d"
  by (induction idle) auto

lemma close_pool_ok:
  assumes "scan_ok s"
  shows "scan_ok (fst (pool_closeAll s)) \<and> moves s (fst (pool_closeAll s)) (snd (pool_closeAll s))"
proof -
  note ok = assms[unfolded scan_ok_def]
  let ?t = "s\<lparr>sc_idle := []\<rparr>"
  have al: "alive ?t = alive s - snd ` set (sc_idle s)"
    using ok by (auto simp: alive_def pool_ok_def)
  have "units_ok ?t"
    using ok unfolding units_ok_def claimedPaths_def unit_indices_def by (simp add: opening_cong[of ?t s])
  moreover have "docks_ok ?t = docks_ok s" by (simp add: docks_ok_def)
  moreover have "creation_ok ?t"
    using ok by (auto simp: creation_ok_def split: option.splits creation.splits)
  moreover have "pool_ok ?t" using ok unfolding pool_ok_def al by simp
  moreover have "moves s ?t (snd (pool_closeAll s))"
  proof (rule movesI)
    show "\<forall>d \<in> alive s. d < sc_workers s" using ok by (simp add: pool_ok_def)
    fix d
    have "count_list (vals_of (sc_idle s)) d = (if d \<in> snd ` set (sc_idle s) then 1 else 0)"
      using ok by (simp add: pool_ok_def count_distinct)
    then show "count_list (snd (pool_closeAll s)) (Close_worker d) = (if d \<in> alive s \<and> d \<notin> alive ?t then 1 else 0)"
      unfolding al by (simp add: pool_closeAll_def close_pool_count) (auto simp: alive_def)
  qed (use al in auto)
  ultimately show ?thesis using ok by (simp add: scan_ok_def pool_closeAll_def)
qed

lemma scan_step_ok:
  assumes "scan_ok s"
  shows "scan_ok (fst (scan_step i e s)) \<and> moves s (fst (scan_step i e s)) (snd (scan_step i e s))"
proof -
  have q: "scan_ok (f s) \<and> moves s (f s) []" if "same_scan s (f s)" for f
    by (rule quiet_ok[OF assms that]) simp
  show ?thesis
  proof (cases i)
    case Scan_tick
    have "sc_creating s \<noteq> None \<longrightarrow> sc_scanInFlight s" using assms by (simp add: scan_ok_def creation_ok_def)
    then have "same_scan s (scanForDocks e s)" by (simp add: same_scan_def scanForDocks_def)
    then show ?thesis using Scan_tick q[of "scanForDocks e"] q[of "\<lambda>s. s"] by (simp add: ite_def same_scan_def)
  next
    case (Add_external j)
    then show ?thesis
      using external_ok(1)[OF assms, of j] q[of "\<lambda>s. s"]
      by (cases "addExternalDock j s") (simp_all add: same_scan_def)
  next
    case (Remove_external j)
    then show ?thesis using external_ok(2)[OF assms, of j] q[of "\<lambda>s. s"] by (simp add: ite_def same_scan_def)
  next
    case Start_scan
    then show ?thesis using q[of "startScan e"] by (simp add: startScan_def same_scan_def)
  next
    case Stop_scan
    then show ?thesis using q[of "stopScan e"] by (simp add: stopScan_def same_scan_def)
  next
    case Sync_timer
    then show ?thesis using q[of "syncTimer e"] by (simp add: same_scan_def)
  qed (use assms caps_ok enumerated_ok opened_ok started_ok closed_creation_ok teardown_ok stop_scanned_ok close_pool_ok in simp_all)
qed

lemma new_scanner_ok: "scan_ok new_scanner" "closed_once new_scanner []"
  by (simp_all add: scan_ok_defs new_scanner_def freshIndexPool_def claimedPaths_def opening_path_def
      unit_indices_def alive_def worker_of_def closed_once_def)

lemma scan_run_ok:
  "scan_ok s \<Longrightarrow> closed_once s es \<Longrightarrow> scan_run s is = (t, fs) \<Longrightarrow> scan_ok t \<and> closed_once t (es @ fs)"
proof (induction "is" arbitrary: s es fs)
  case (Cons ie "is")
  obtain i e where ie: "ie = (i, e)" by (cases ie)
  let ?s = "fst (scan_step i e s)" and ?e = "snd (scan_step i e s)"
  have r: "scan_run ?s is = (t, snd (scan_run ?s is))" "fs = ?e @ snd (scan_run ?s is)"
    using Cons.prems(3) by (auto simp: ie case_prod_beta Let_def)
  note st = scan_step_ok[OF Cons.prems(1), of i e]
  have "\<forall>d \<in> alive s. d < sc_workers s" using Cons.prems(1) by (simp add: scan_ok_def pool_ok_def)
  then have "closed_once ?s (es @ ?e)" using closed_once_moves Cons.prems(2) st by blast
  then show ?case using Cons.IH[OF _ _ r(1), of "es @ ?e"] st r(2) by simp
qed simp

section \<open>Properties\<close>



text \<open>A creation under way that will register nothing.\<close>

definition doomed :: "scanner \<Rightarrow> bool" where
  "doomed s \<longleftrightarrow>
     (case sc_creating s of
        Some (Opening m p g d) \<Rightarrow> g < sc_generation s
      | Some (Starting i d g) \<Rightarrow> d \<in> sc_stopped s
      | _ \<Rightarrow> True)"

definition brings_up :: "scan_event \<Rightarrow> bool" where
  "brings_up e \<longleftrightarrow> (case e of Start_dock i d \<Rightarrow> True | Dock_connected i \<Rightarrow> True | _ \<Rightarrow> False)"

lemma doomed_cong:
  assumes "doomed s" "sc_creating t = sc_creating s" "sc_generation s \<le> sc_generation t" "sc_stopped s \<subseteq> sc_stopped t"
  shows "doomed t"
  using assms by (auto simp: doomed_def split: option.splits creation.splits)

lemma quiet_simps [simp]:
  "\<not> brings_up (Stop_dock d)" "\<not> brings_up (Close_worker d)" "\<not> brings_up (Remove_listeners d)"
  "\<not> brings_up Scan_seen" "\<not> brings_up Docks_changed"
  by (simp_all add: brings_up_def)

lemma stop_dock_quiet: "x \<in> set (snd (stop_dock d s)) \<Longrightarrow> \<not> brings_up x"
  by (auto simp: stop_dock_def split: if_splits)

lemma stop_docks_quiet: "x \<in> set (snd (acts (map stop_dock ds @ [emits Docks_changed]) s)) \<Longrightarrow> \<not> brings_up x"
  by (induction ds arbitrary: s) (auto dest: stop_dock_quiet)

lemma stop_docks_state:
  "sc_creating (fst (acts (map stop_dock ds @ [emits Docks_changed]) s)) = sc_creating s"
  "sc_generation (fst (acts (map stop_dock ds @ [emits Docks_changed]) s)) = sc_generation s"
  "sc_stopped (fst (acts (map stop_dock ds @ [emits Docks_changed]) s)) = sc_stopped s \<union> set ds"
  by (induction ds arbitrary: s) auto

lemma stop_scanned_quiet:
  "x \<in> set (snd (stopScannedDocks s)) \<Longrightarrow> \<not> brings_up x"
  "sc_creating (fst (stopScannedDocks s)) = sc_creating s"
  "sc_generation (fst (stopScannedDocks s)) = sc_generation s + 1"
  "sc_stopped (fst (stopScannedDocks s)) = sc_stopped s \<union> set (scanned_docks s)"
  unfolding stopScannedDocks_def Let_def
  by (rule stop_docks_quiet, assumption) (simp_all add: stop_docks_state)

lemma doomed_step:
  assumes "doomed s" "i \<noteq> Enumerated True \<or> se_shuttingDown e"
  shows "doomed (fst (scan_step i e s)) \<and> (\<forall>x \<in> set (snd (scan_step i e s)). \<not> brings_up x)"
proof -
  have k: "doomed t" if "sc_creating t = sc_creating s" "sc_generation t = sc_generation s" "sc_stopped t = sc_stopped s" for t
    using doomed_cong[OF assms(1)] that by simp
  have none: "doomed t" if "sc_creating t = None \<or> (\<exists>d. sc_creating t = Some (Closing d))" for t
    using that by (auto simp: doomed_def)
  show ?thesis
  proof (cases i)
    case (Set_max_docks n)
    define cap where "cap = nat (min (max 1 n) MAX_DOCKS)"
    let ?s = "s\<lparr>sc_maxDocks := cap\<rparr>"
    have "doomed (fst (stopScannedDocks ?s))"
      by (rule doomed_cong[OF k[of ?s]]) (simp_all add: stop_scanned_quiet)
    moreover have "doomed (syncTimer e (?s\<lparr>sc_free := f\<rparr>))" for f by (rule k) simp_all
    ultimately show ?thesis
      using stop_scanned_quiet(1)[of _ ?s] assms(1)
      unfolding Set_max_docks scan_step.simps setMaxDocks_def Let_def cap_def[symmetric] by simp
  next
    case (Enumerated good)
    then have "\<not> good \<or> scanTarget e s = None" using assms(2) by (auto simp: scanTarget_def)
    then show ?thesis using Enumerated k assms(1) by (auto simp: onEnumerated_def)
  next
    case (Opened good)
    show ?thesis
    proof (cases "\<exists>m p g d. sc_creating s = Some (Opening m p g d)")
      case True
      then obtain m p g d where c: "sc_creating s = Some (Opening m p g d)" by blast
      then have "stale g e s" using assms(1) by (simp add: doomed_def stale_def)
      then show ?thesis using Opened c by (auto simp: onOpened_def give_up_def intro: none)
    next
      case False
      then have "onOpened good e s = (s, [])" unfolding onOpened_def by (auto split: option.splits creation.splits)
      then show ?thesis using Opened assms(1) by simp
    qed
  next
    case (Started good)
    show ?thesis
    proof (cases "\<exists>j d g. sc_creating s = Some (Starting j d g)")
      case True
      then obtain j d g where c: "sc_creating s = Some (Starting j d g)" by blast
      then have "d \<in> sc_stopped s" using assms(1) by (simp add: doomed_def)
      then show ?thesis
        using Started c by (auto simp: onStarted_def give_up_def stop_dock_def intro!: none)
    next
      case False
      then have "onStarted good e s = (s, [])" unfolding onStarted_def by (auto split: option.splits creation.splits)
      then show ?thesis using Started assms(1) by simp
    qed
  next
    case (Teardown j)
    have "doomed (fst (stop_dock d (forget j s)))" "doomed (forget j s)" for d
      by (rule doomed_cong[OF assms(1)], auto)+
    then show ?thesis
      using Teardown assms(1)
      by (auto simp: teardownDock_def split: option.splits dock_ref.splits dest: stop_dock_quiet)
  next
    case Stop_scanned
    have "doomed (fst (stopScannedDocks s))" by (rule doomed_cong[OF assms(1)]) (simp_all add: stop_scanned_quiet)
    then show ?thesis using Stop_scanned stop_scanned_quiet(1)[of _ s] by auto
  next
    case (Add_external j)
    then show ?thesis
      using k assms(1) by (auto simp: addExternalDock_def reserveIndex_def split: option.splits if_splits)
  next
    case (Remove_external j)
    then show ?thesis
      using k assms(1) by (auto simp: ite_def removeExternalDock_def unreserveIndex_def Let_def)
  next
    case Closed
    then show ?thesis
      using assms(1) by (auto simp: onClosed_def creation_over_def doomed_def split: option.splits creation.splits)
  qed (use k assms(1) in \<open>auto simp: startScan_def stopScan_def ite_def scanForDocks_def pool_closeAll_def\<close>)
qed

lemma doomed_run:
  "doomed s \<Longrightarrow> \<forall>(i, e) \<in> set is. i \<noteq> Enumerated True \<or> se_shuttingDown e \<Longrightarrow>
     \<forall>x \<in> set (snd (scan_run s is)). \<not> brings_up x"
proof (induction "is" arbitrary: s)
  case (Cons ie "is")
  obtain i e where ie: "ie = (i, e)" by (cases ie)
  have "i \<noteq> Enumerated True \<or> se_shuttingDown e" using Cons.prems(2) by (auto simp: ie)
  note st = doomed_step[OF Cons.prems(1) this]
  then show ?case using Cons.IH[OF conjunct1[OF st]] Cons.prems(2) by (auto simp: ie case_prod_beta Let_def)
qed simp

text \<open>C25. A stop is final for what was under way: after the scanned docks have been stopped, whatever
  happens next, the creation that was in flight starts no dock and reports no connection; the
  next dock needs a new enumeration, and during a shutdown there is none.\<close>

theorem stop_outlives_creation:
  assumes "scan_run new_scanner is = (s, es)"
    and "\<forall>(i, e) \<in> set js. i \<noteq> Enumerated True \<or> se_shuttingDown e"
  shows "\<forall>x \<in> set (snd (scan_run (fst (stopScannedDocks s)) js)). \<not> brings_up x"
proof -
  have ok: "scan_ok s" using scan_run_ok[OF new_scanner_ok assms(1)] by blast
  note st = stop_scanned_state[OF ok]
  have "doomed (fst (stopScannedDocks s))"
  proof (cases "sc_creating s")
    case (Some c)
    show ?thesis
    proof (cases c)
      case (Opening m p g d)
      then show ?thesis using ok Some by (auto simp: doomed_def st scan_ok_def creation_ok_def)
    next
      case (Starting i d g)
      then have "d \<in> sc_stopped s \<or> d \<in> set (map (su_driver \<circ> snd) (sc_units s))"
        using ok Some by (force simp: scan_ok_def creation_ok_def dest: map_of_SomeD)
      then show ?thesis using Some Starting by (simp add: doomed_def st)
    qed (use Some in \<open>simp add: doomed_def st\<close>)
  qed (simp add: doomed_def st)
  then show ?thesis using assms(2) by (rule doomed_run)
qed

section \<open>Concrete runs\<close>

text \<open>A second deck of a model that is plugged in beside the primary's.\<close>

definition two_decks :: scan_env where
  "two_decks = \<lparr> se_shuttingDown = False, se_realMode = True, se_probing = False, se_hasFactory = True,
     se_primary = Some (''mk2'', Some (Hid_path ''/a'')), se_units = [(''mk2'', [Hid_path ''/a'', Hid_path ''/b''])],
     se_allowed = (\<lambda>m p. True) \<rparr>"

definition opening_run :: "(scan_input \<times> scan_env) list" where
  "opening_run = map (\<lambda>i. (i, two_decks)) [Start_scan, Set_max_docks 2, Scan_tick, Enumerated True]"

definition docked_run :: "(scan_input \<times> scan_env) list" where
  "docked_run = opening_run @ map (\<lambda>i. (i, two_decks)) [Opened True, Started True]"

lemma opening_value:
  "opening_path (fst (scan_run new_scanner opening_run)) = [Hid_path ''/b'']"
  by code_simp

lemma docked_value:
  "sc_units (fst (scan_run new_scanner docked_run))
     = [(1, \<lparr> su_path = Hid_path ''/b'', su_model = ''mk2'', su_driver = 0 \<rparr>)]"
  "sc_workers (fst (scan_run new_scanner docked_run)) = 1"
  by code_simp+



lemma stop_outlives_creation_witness:
  "filter brings_up (snd (scan_run (fst (stopScannedDocks (fst (scan_run new_scanner opening_run)))) [(Opened True, two_decks)])) = []"
  unfolding filter_empty_conv
  using stop_outlives_creation[of opening_run "fst (scan_run new_scanner opening_run)"
      "snd (scan_run new_scanner opening_run)" "[(Opened True, two_decks)]"]
  by simp

end
