(* ===== verification/Driver_Manager.thy ===== *)
theory Driver_Manager
  imports Dock_Scanner
begin

text \<open>
  \<^verbatim>\<open>main/driver-manager.ts\<close> and \<^verbatim>\<open>main/driver-manager-pacing.ts\<close>: the probe that looks for the primary
  dock's deck, its pacing, and its dock, next to the scanner of \<open>Dock_Scanner\<close> whose worker pool it
  shares.  As there, every await ends an operation.  Device tuning, identities and the WebUI's
  notifications are left out; a unit's choice by the user is part of the environment.
\<close>

section \<open>Pacing\<close>

record pacer =
  pc_delay :: int
  pc_attempts :: nat
  pc_probing :: bool
  pc_scheduled :: bool
  pc_timer :: bool
  pc_cancelled :: bool
  pc_cold :: bool

abbreviation (input) HID_POLL_INTERVAL_MS :: int where "HID_POLL_INTERVAL_MS \<equiv> 3000"
abbreviation (input) SLOW_ENUMERATE_MS :: int where "SLOW_ENUMERATE_MS \<equiv> 250"
abbreviation (input) RECONNECT_BACKOFF_MAX_MS :: int where "RECONNECT_BACKOFF_MAX_MS \<equiv> 30000"

definition nextProbeDelayMs :: "int \<Rightarrow> int \<Rightarrow> int" where
  "nextProbeDelayMs current enumerateMs =
     (if enumerateMs < SLOW_ENUMERATE_MS then HID_POLL_INTERVAL_MS
      else min (current * 2) RECONNECT_BACKOFF_MAX_MS)"

definition new_pacer :: pacer where
  "new_pacer = \<lparr> pc_delay = HID_POLL_INTERVAL_MS, pc_attempts = 0, pc_probing = False, pc_scheduled = False,
     pc_timer = False, pc_cancelled = False, pc_cold = True \<rparr>"

definition pc_schedule :: "pacer \<Rightarrow> pacer" where
  "pc_schedule p =
     (if pc_scheduled p \<or> pc_cancelled p then p
      else p\<lparr>pc_scheduled := True, pc_attempts := pc_attempts p + 1, pc_timer := True\<rparr>)"

definition pc_cancel :: "pacer \<Rightarrow> pacer" where
  "pc_cancel p = p\<lparr>pc_cancelled := True, pc_timer := False\<rparr>"

definition pc_started :: "pacer \<Rightarrow> pacer" where
  "pc_started p = p\<lparr>pc_scheduled := False\<rparr>"

definition pc_connected :: "pacer \<Rightarrow> pacer" where
  "pc_connected p = p\<lparr>pc_attempts := 0\<rparr>"

definition pc_note :: "int \<Rightarrow> pacer \<Rightarrow> pacer" where
  "pc_note enumerateMs p =
     (if pc_cold p then p\<lparr>pc_cold := False\<rparr>
      else p\<lparr>pc_delay := nextProbeDelayMs (pc_delay p) enumerateMs\<rparr>)"

section \<open>The manager\<close>

text \<open>The primary's deck: model, path and worker.\<close>

record primary_unit =
  pu_model :: string
  pu_path :: hid_path
  pu_driver :: nat

text \<open>Where the probe awaits: the enumeration, the open of a unit with the models still to try, the
  close of a worker opened too late, or the hand-over of an opened one.\<close>

datatype probe =
    Sweeping
  | Trying primary_unit "string list"
  | Dropping nat "string list"
  | Found primary_unit

record manager =
  dm_scanner :: scanner
  dm_pacer :: pacer
  dm_primary :: "primary_unit option"
  dm_probe :: "probe option"
  dm_closing :: nat
  dm_shutdown :: bool

text \<open>What the enumeration shows and the user allows, as in \<^typ>\<open>scan_env\<close>.\<close>

record found_units =
  fu_units :: "(string \<times> hid_path list) list"
  fu_allowed :: "string \<Rightarrow> hid_path \<Rightarrow> bool"

datatype manager_event =
    Scanner_event scan_event
  | Open_primary nat hid_path
  | Attach_primary nat
  | Detach_primary nat
  | Close_driver nat
  | Probe_again int

type_synonym manager_act = "(manager, manager_event) eff"

definition new_manager :: manager where
  "new_manager = \<lparr> dm_scanner = new_scanner, dm_pacer = new_pacer, dm_primary = None, dm_probe = None,
     dm_closing = 0, dm_shutdown = False \<rparr>"

definition with_pacer :: "(pacer \<Rightarrow> pacer) \<Rightarrow> manager \<Rightarrow> manager" where
  "with_pacer f m = m\<lparr>dm_pacer := f (dm_pacer m)\<rparr>"

definition scheduleReconnect :: manager_act where
  "scheduleReconnect m =
     (if pc_scheduled (dm_pacer m) \<or> pc_cancelled (dm_pacer m) then (m, [])
      else (with_pacer pc_schedule m, [Probe_again (pc_delay (dm_pacer m))]))"

text \<open>The environment the scanner sees, from the manager's state.\<close>

definition scan_env_of :: "found_units \<Rightarrow> manager \<Rightarrow> scan_env" where
  "scan_env_of e m =
     \<lparr> se_shuttingDown = dm_shutdown m, se_realMode = True, se_probing = pc_probing (dm_pacer m),
       se_hasFactory = True, se_primary = map_option (\<lambda>u. (pu_model u, Some (pu_path u))) (dm_primary m),
       se_units = fu_units e, se_allowed = fu_allowed e \<rparr>"

definition on_scanner :: "scan_input \<Rightarrow> found_units \<Rightarrow> manager_act" where
  "on_scanner i e m =
     (let (s, es) = scan_step i (scan_env_of e m) (dm_scanner m)
      in (m\<lparr>dm_scanner := s\<rparr>, map Scanner_event es))"

section \<open>The probe\<close>

text \<open>The first path of a model the probe may open.\<close>

definition probe_path :: "found_units \<Rightarrow> manager \<Rightarrow> string \<Rightarrow> hid_path option" where
  "probe_path e m model =
     (case map_of (fu_units e) model of
        None \<Rightarrow> None
      | Some ps \<Rightarrow> List.find (\<lambda>p. p \<notin> set (claimedPaths (dm_scanner m)) \<and> fu_allowed e model p) ps)"

text \<open>The loop of \<^verbatim>\<open>probeAndOpen\<close> up to its next await, and what \<^verbatim>\<open>acquireRealDriver\<close> does when the
  loop ends without a driver.\<close>

definition probe_missed :: manager_act where
  "probe_missed m =
     (let m = with_pacer (\<lambda>p. p\<lparr>pc_probing := False\<rparr>) (m\<lparr>dm_probe := None\<rparr>)
      in if dm_shutdown m then (m, []) else scheduleReconnect m)"

fun probe_next :: "found_units \<Rightarrow> string list \<Rightarrow> manager_act" where
  "probe_next e [] m = probe_missed m"
| "probe_next e (model # rest) m =
     (case probe_path e m model of
        None \<Rightarrow> probe_next e rest m
      | Some p \<Rightarrow>
          let (d, fresh, s) = pool_acquire model (dm_scanner m);
              u = \<lparr> pu_model = model, pu_path = p, pu_driver = d \<rparr>
          in (m\<lparr>dm_scanner := s, dm_probe := Some (Trying u rest)\<rparr>,
              (if fresh then [Scanner_event (Spawn_worker d model)] else []) @ [Open_primary d p]))"

definition tryRealConnect :: manager_act where
  "tryRealConnect m =
     (let m = with_pacer pc_started m
      in if dm_shutdown m \<or> dm_primary m \<noteq> None \<or> pc_probing (dm_pacer m) then (m, [])
         else (with_pacer (\<lambda>p. p\<lparr>pc_probing := True\<rparr>) (m\<lparr>dm_probe := Some Sweeping\<rparr>), []))"

definition onSwept :: "found_units \<Rightarrow> string list \<Rightarrow> int \<Rightarrow> manager_act" where
  "onSwept e present took m =
     (if dm_probe m = Some Sweeping then probe_next e present (with_pacer (pc_note took) m) else (m, []))"

definition onProbeOpened :: "found_units \<Rightarrow> bool \<Rightarrow> manager_act" where
  "onProbeOpened e ok m =
     (case dm_probe m of
        Some (Trying u rest) \<Rightarrow>
          if ok
          then let m = with_pacer (\<lambda>p. p\<lparr>pc_probing := False\<rparr>) m
               in if dm_shutdown m then (m\<lparr>dm_probe := None\<rparr>, [Close_driver (pu_driver u)])
                  else (m\<lparr>dm_probe := Some (Found u)\<rparr>, [])
          else if dm_shutdown m
          then (m\<lparr>dm_probe := Some (Dropping (pu_driver u) rest)\<rparr>, [Close_driver (pu_driver u)])
          else probe_next e rest (m\<lparr>dm_scanner := pool_park (pu_model u) (pu_driver u) (dm_scanner m)\<rparr>)
      | _ \<Rightarrow> (m, []))"

definition onDropped :: "found_units \<Rightarrow> manager_act" where
  "onDropped e m = (case dm_probe m of Some (Dropping d rest) \<Rightarrow> probe_next e rest m | _ \<Rightarrow> (m, []))"

text \<open>The rest of \<^verbatim>\<open>tryRealConnect\<close>, once the probe has handed over its driver.\<close>

definition onFound :: manager_act where
  "onFound m =
     (case dm_probe m of
        Some (Found u) \<Rightarrow>
          if dm_shutdown m then (m\<lparr>dm_probe := None\<rparr>, [Close_driver (pu_driver u)])
          else (with_pacer pc_connected (m\<lparr>dm_probe := None, dm_primary := Some u\<rparr>),
                (case dm_primary m of None \<Rightarrow> [] | Some v \<Rightarrow> [Detach_primary (pu_driver v)])
                @ [Attach_primary (pu_driver u)])
      | _ \<Rightarrow> (m, []))"

section \<open>Losing and reopening the primary\<close>

definition onReconnectTimer :: manager_act where
  "onReconnectTimer m =
     (if pc_timer (dm_pacer m) then tryRealConnect (with_pacer (\<lambda>p. p\<lparr>pc_timer := False\<rparr>) m) else (m, []))"

definition onPrimaryDisconnect :: manager_act where
  "onPrimaryDisconnect m =
     (case dm_primary m of
        None \<Rightarrow> (m, [])
      | Some u \<Rightarrow> acts [ upd (\<lambda>m. m\<lparr>dm_primary := None\<rparr>), emits (Detach_primary (pu_driver u)), scheduleReconnect ] m)"

text \<open>\<^verbatim>\<open>reloadDeviceTuning\<close> and \<^verbatim>\<open>setActiveDecks\<close> close the primary's driver and await that before
  they schedule the probe.\<close>

definition reopen_primary :: manager_act where
  "reopen_primary m =
     (case dm_primary m of
        None \<Rightarrow> (m, [])
      | Some u \<Rightarrow> (m\<lparr>dm_primary := None, dm_closing := dm_closing m + 1\<rparr>,
                    [Detach_primary (pu_driver u), Close_driver (pu_driver u)]))"

definition reloadDeviceTuning :: "string \<Rightarrow> manager_act" where
  "reloadDeviceTuning model m =
     (case dm_primary m of
        None \<Rightarrow> (m, [])
      | Some u \<Rightarrow> if model \<noteq> '''' \<and> pu_model u \<noteq> model then (m, []) else reopen_primary m)"

definition setActiveDecks :: "(string \<Rightarrow> hid_path \<Rightarrow> bool) \<Rightarrow> manager_act" where
  "setActiveDecks allowed m =
     (case dm_primary m of
        None \<Rightarrow> (m, [])
      | Some u \<Rightarrow> if allowed (pu_model u) (pu_path u) then (m, []) else reopen_primary m)"

definition onReopenClosed :: manager_act where
  "onReopenClosed m =
     (if dm_closing m = 0 then (m, []) else scheduleReconnect (m\<lparr>dm_closing := dm_closing m - 1\<rparr>))"

text \<open>\<^verbatim>\<open>runShutdown\<close>: everything it starts before its first await.\<close>

definition manager_shutdown :: "found_units \<Rightarrow> manager_act" where
  "manager_shutdown e m =
     (if dm_shutdown m then (m, [])
      else acts
        [ upd (\<lambda>m. m\<lparr>dm_shutdown := True\<rparr>),
          on_scanner Stop_scan e, upd (with_pacer pc_cancel),
          \<lambda>m. case dm_primary m of
                None \<Rightarrow> (m, [])
              | Some u \<Rightarrow> (m\<lparr>dm_primary := None\<rparr>, [Detach_primary (pu_driver u), Close_driver (pu_driver u)]),
          on_scanner Stop_scanned e, on_scanner Close_pool e ] m)"

datatype manager_input =
    Start_up
  | Reconnect_timer
  | Swept "string list" int
  | Probe_opened bool
  | Probe_dropped
  | Probe_found
  | Primary_lost
  | Tuning_changed string
  | Choice_changed
  | Reopen_closed
  | Scanner_input scan_input
  | Shut_down

fun manager_step :: "manager_input \<Rightarrow> found_units \<Rightarrow> manager_act" where
  "manager_step Start_up e = tryRealConnect"
| "manager_step Reconnect_timer e = onReconnectTimer"
| "manager_step (Swept present took) e = onSwept e present took"
| "manager_step (Probe_opened ok) e = onProbeOpened e ok"
| "manager_step Probe_dropped e = onDropped e"
| "manager_step Probe_found e = onFound"
| "manager_step Primary_lost e = onPrimaryDisconnect"
| "manager_step (Tuning_changed model) e = reloadDeviceTuning model"
| "manager_step Choice_changed e = setActiveDecks (fu_allowed e)"
| "manager_step Reopen_closed e = onReopenClosed"
| "manager_step (Scanner_input i) e = on_scanner i e"
| "manager_step Shut_down e = manager_shutdown e"

fun manager_run :: "manager \<Rightarrow> (manager_input \<times> found_units) list \<Rightarrow> manager \<times> manager_event list" where
  "manager_run m [] = (m, [])"
| "manager_run m ((i, e) # is) =
     (let (m1, es) = manager_step i e m; (m2, fs) = manager_run m1 is in (m2, es @ fs))"

section \<open>The search for a deck\<close>

definition probing :: "probe option \<Rightarrow> bool" where
  "probing p \<longleftrightarrow> p \<noteq> None \<and> (\<forall>u. p \<noteq> Some (Found u))"

definition pace_ok :: "pacer \<Rightarrow> bool" where
  "pace_ok p \<longleftrightarrow> HID_POLL_INTERVAL_MS \<le> pc_delay p \<and> pc_delay p \<le> RECONNECT_BACKOFF_MAX_MS"

text \<open>How many activities look after the primary's deck: a driver, a probe, a timer, a reopening.\<close>

definition activities :: "manager \<Rightarrow> nat" where
  "activities m =
     of_bool (dm_primary m \<noteq> None) + of_bool (dm_probe m \<noteq> None) + of_bool (pc_timer (dm_pacer m)) + dm_closing m"

definition search_ok :: "manager \<Rightarrow> bool" where
  "search_ok m \<longleftrightarrow> pace_ok (dm_pacer m)
     \<and> (\<not> dm_shutdown m \<longrightarrow> activities m = 1 \<and> \<not> pc_cancelled (dm_pacer m)
          \<and> pc_scheduled (dm_pacer m) = pc_timer (dm_pacer m)
          \<and> pc_probing (dm_pacer m) = probing (dm_probe m))"

lemma pace_ok_simps [simp]:
  "pace_ok (p\<lparr>pc_attempts := n\<rparr>) = pace_ok p" "pace_ok (p\<lparr>pc_probing := b\<rparr>) = pace_ok p"
  "pace_ok (p\<lparr>pc_scheduled := b\<rparr>) = pace_ok p" "pace_ok (p\<lparr>pc_timer := b\<rparr>) = pace_ok p"
  "pace_ok (p\<lparr>pc_cancelled := b\<rparr>) = pace_ok p" "pace_ok (p\<lparr>pc_cold := b\<rparr>) = pace_ok p"
  "pace_ok (pc_schedule p) = pace_ok p" "pace_ok (pc_started p) = pace_ok p"
  "pace_ok (pc_connected p) = pace_ok p" "pace_ok (pc_cancel p) = pace_ok p"
  by (auto simp: pace_ok_def pc_schedule_def pc_started_def pc_connected_def pc_cancel_def)

lemma pace_note [simp]: "pace_ok p \<Longrightarrow> pace_ok (pc_note ms p)"
  by (auto simp: pace_ok_def pc_note_def nextProbeDelayMs_def)

lemma note_fields [simp]:
  "pc_timer (pc_note ms p) = pc_timer p" "pc_scheduled (pc_note ms p) = pc_scheduled p"
  "pc_cancelled (pc_note ms p) = pc_cancelled p" "pc_probing (pc_note ms p) = pc_probing p"
  by (simp_all add: pc_note_def)

lemma with_pacer_fields [simp]:
  "dm_pacer (with_pacer f m) = f (dm_pacer m)" "dm_scanner (with_pacer f m) = dm_scanner m"
  "dm_primary (with_pacer f m) = dm_primary m" "dm_probe (with_pacer f m) = dm_probe m"
  "dm_closing (with_pacer f m) = dm_closing m" "dm_shutdown (with_pacer f m) = dm_shutdown m"
  by (simp_all add: with_pacer_def)

lemma on_scanner_fields [simp]:
  "dm_pacer (fst (on_scanner i e m)) = dm_pacer m" "dm_primary (fst (on_scanner i e m)) = dm_primary m"
  "dm_probe (fst (on_scanner i e m)) = dm_probe m" "dm_closing (fst (on_scanner i e m)) = dm_closing m"
  "dm_shutdown (fst (on_scanner i e m)) = dm_shutdown m"
  by (simp_all add: on_scanner_def case_prod_beta Let_def)

lemma search_scanner [simp]: "search_ok (m\<lparr>dm_scanner := s\<rparr>) = search_ok m"
  by (simp add: search_ok_def activities_def)

lemma search_on_scanner: "search_ok (fst (on_scanner i e m)) = search_ok m"
  by (simp add: search_ok_def activities_def)

lemma missed_ok:
  "search_ok m \<Longrightarrow> probing (dm_probe m) \<Longrightarrow> search_ok (fst (probe_missed m))"
  by (auto simp: search_ok_def activities_def probe_missed_def Let_def scheduleReconnect_def pc_schedule_def probing_def)

lemma next_ok:
  "search_ok m \<Longrightarrow> probing (dm_probe m) \<Longrightarrow> search_ok (fst (probe_next e models m))"
proof (induction e models m rule: probe_next.induct)
  case (1 e m)
  then show ?case by (simp add: missed_ok)
next
  case (2 e model rest m)
  show ?case
  proof (cases "probe_path e m model")
    case None
    then show ?thesis using 2 by simp
  next
    case (Some p)
    then show ?thesis
      using 2(2,3) by (auto simp: search_ok_def activities_def Let_def probing_def case_prod_beta)
  qed
qed

lemma manager_step_ok:
  assumes "search_ok m" "i \<noteq> Start_up"
  shows "search_ok (fst (manager_step i e m))"
proof (cases i)
  case Reconnect_timer
  then show ?thesis
    using assms(1) by (auto simp: onReconnectTimer_def tryRealConnect_def Let_def search_ok_def activities_def
        pc_started_def probing_def)
next
  case (Swept present took)
  have "search_ok (with_pacer (pc_note took) m)" using assms(1) by (simp add: search_ok_def activities_def)
  then show ?thesis using assms(1) Swept next_ok by (simp add: onSwept_def probing_def)
next
  case (Probe_opened good)
  show ?thesis
  proof (cases "\<exists>u rest. dm_probe m = Some (Trying u rest)")
    case True
    then obtain u rest where p: "dm_probe m = Some (Trying u rest)" by blast
    have "search_ok (fst (probe_next e rest (m\<lparr>dm_scanner := s\<rparr>)))" for s
      by (rule next_ok) (use assms(1) p in \<open>simp_all add: probing_def\<close>)
    then show ?thesis
      using assms(1) p Probe_opened
      by (auto simp: onProbeOpened_def Let_def search_ok_def activities_def probing_def)
  next
    case False
    then have "onProbeOpened e good m = (m, [])" unfolding onProbeOpened_def by (auto split: option.splits probe.splits)
    then show ?thesis using assms(1) Probe_opened by simp
  qed
next
  case Probe_dropped
  have "search_ok (fst (probe_next e rest m))" if "dm_probe m = Some (Dropping d rest)" for d rest
    by (rule next_ok) (use assms(1) that in \<open>simp_all add: probing_def\<close>)
  then show ?thesis using assms(1) Probe_dropped by (auto simp: onDropped_def split: option.split probe.split)
next
  case Probe_found
  then show ?thesis
    using assms(1) by (auto simp: onFound_def search_ok_def activities_def probing_def pc_connected_def
        split: option.split probe.split)
next
  case (Scanner_input j)
  then show ?thesis using assms(1) by (simp add: search_on_scanner)
next
  case Shut_down
  then show ?thesis
    using assms(1) by (auto simp: manager_shutdown_def search_ok_def split: option.split)
qed (use assms in \<open>auto simp: onPrimaryDisconnect_def reopen_primary_def reloadDeviceTuning_def setActiveDecks_def
      onReopenClosed_def scheduleReconnect_def pc_schedule_def search_ok_def activities_def probing_def split: option.split\<close>)

lemma manager_run_ok:
  "search_ok m \<Longrightarrow> Start_up \<notin> fst ` set is \<Longrightarrow> search_ok (fst (manager_run m is))"
proof (induction "is" arbitrary: m)
  case (Cons ie "is")
  obtain i e where ie: "ie = (i, e)" by (cases ie)
  then show ?case using Cons manager_step_ok[of m i e] by (auto simp: case_prod_beta Let_def)
qed simp

text \<open>C26. A missing deck is always looked for, and by one activity only: from the start on, whatever
  opens, fails, is unplugged or reopened, until the shutdown either the dock has a driver, or one
  probe is under way, or one timer will start it, or one reopening will; a timer waits at least 3
  and at most 30 seconds.\<close>

theorem deck_always_sought:
  fixes "is" e
  assumes "Start_up \<notin> fst ` set is"
  defines "m \<equiv> fst (manager_run (fst (manager_step Start_up e new_manager)) is)"
  shows "(\<not> dm_shutdown m \<longrightarrow> activities m = 1)
    \<and> 3000 \<le> pc_delay (dm_pacer m) \<and> pc_delay (dm_pacer m) \<le> 30000"
proof -
  have "search_ok (fst (manager_step Start_up e new_manager))"
    by (simp add: tryRealConnect_def new_manager_def new_pacer_def pc_started_def search_ok_def activities_def
        pace_ok_def probing_def)
  from manager_run_ok[OF this assms(1)] show ?thesis
    by (simp_all add: m_def search_ok_def pace_ok_def)
qed

lemma deck_always_sought_witness:
  "activities (fst (manager_run (fst (manager_step Start_up \<lparr> fu_units = [], fu_allowed = \<lambda>m p. True \<rparr> new_manager))
     [(Swept [] 10, \<lparr> fu_units = [], fu_allowed = \<lambda>m p. True \<rparr>)])) = 1"
  using deck_always_sought[of "[(Swept [] 10, \<lparr> fu_units = [], fu_allowed = \<lambda>m p. True \<rparr>)]"
      "\<lparr> fu_units = [], fu_allowed = \<lambda>m p. True \<rparr>"]
  by (simp add: tryRealConnect_def onSwept_def probe_missed_def Let_def scheduleReconnect_def new_manager_def
      new_pacer_def pc_started_def pc_note_def pc_schedule_def)

section \<open>Shutdown\<close>

text \<open>What the shutdown needs of the scanner: the dock that a creation is starting is one the
  scanner will stop, or it has been stopped.\<close>

definition start_known :: "scanner \<Rightarrow> bool" where
  "start_known s \<longleftrightarrow>
     (case sc_creating s of
        Some (Opening m p g d) \<Rightarrow> g \<le> sc_generation s
      | Some (Starting i d g) \<Rightarrow> d \<in> sc_stopped s
          \<or> map_of (sc_units s) i \<noteq> None \<and> map_of (sc_docks s) i = Some (Scanned d)
      | _ \<Rightarrow> True)"

lemma start_known_cong:
  assumes "start_known s" "sc_creating t = sc_creating s" "sc_generation s \<le> sc_generation t"
    "sc_stopped s \<subseteq> sc_stopped t"
    "\<And>i d. map_of (sc_units s) i \<noteq> None \<Longrightarrow> map_of (sc_docks s) i = Some (Scanned d) \<Longrightarrow>
       d \<in> sc_stopped t \<or> map_of (sc_units t) i \<noteq> None \<and> map_of (sc_docks t) i = Some (Scanned d)"
  shows "start_known t"
  using assms by (fastforce simp: start_known_def split: option.splits creation.splits)

lemma start_known_none: "sc_creating s = None \<or> (\<exists>d. sc_creating s = Some (Closing d)) \<Longrightarrow> start_known s"
  by (auto simp: start_known_def)

lemma in_scanned_docks:
  assumes "map_of (sc_units s) i = Some u" "map_of (sc_docks s) i = Some (Scanned d)"
  shows "d \<in> set (scanned_docks s)"
  using map_of_SomeD[OF assms(1)] assms(2) by (force simp: scanned_docks_def List.map_filter_def image_iff)

lemma stop_scanned_known: "start_known s \<Longrightarrow> start_known (fst (stopScannedDocks s))"
  by (rule start_known_cong[of s]) (auto simp: stop_scanned_quiet dest: in_scanned_docks)

lemma stop_scanned_dooms: "start_known s \<Longrightarrow> doomed (fst (stopScannedDocks s))"
  by (auto simp: start_known_def doomed_def stop_scanned_quiet dest: in_scanned_docks split: option.splits creation.splits)

lemma teardown_known: "start_known s \<Longrightarrow> start_known (fst (teardownDock j s))"
proof (cases "map_of (sc_docks s) j = None \<or> map_of (sc_units s) j = None")
  case True
  then show "start_known s \<Longrightarrow> ?thesis" by (auto simp: teardownDock_def split: option.split)
next
  case False
  then obtain r u where r: "map_of (sc_docks s) j = Some r" "map_of (sc_units s) j = Some u" by auto
  assume k: "start_known s"
  show ?thesis
  proof (cases r)
    case (Scanned d)
    have "start_known (fst (stop_dock d (forget j s)))"
      by (rule start_known_cong[OF k]) (use r Scanned in auto)
    then show ?thesis using r Scanned by (simp add: teardownDock_def)
  next
    case Outside
    have "start_known (forget j s)" by (rule start_known_cong[OF k]) (use r Outside in auto)
    then show ?thesis using r Outside by (simp add: teardownDock_def)
  qed
qed

lemma opened_known: "start_known s \<Longrightarrow> start_known (fst (onOpened good e s))"
proof (cases "\<exists>m p g d. sc_creating s = Some (Opening m p g d)")
  case True
  then obtain m p g d where c: "sc_creating s = Some (Opening m p g d)" by blast
  have g: "start_known (fst (give_up d t))" for t by (rule start_known_none) (simp add: give_up_def)
  have p: "start_known (creation_over t)" for t by (rule start_known_none) (simp add: creation_over_def)
  have r: "start_known (fst (register_dock i m p d g t))" for i t by (simp add: register_dock_def start_known_def)
  show ?thesis using g p r by (auto simp: onOpened_def c split: option.split prod.split)
next
  case False
  then have "onOpened good e s = (s, [])" unfolding onOpened_def by (auto split: option.splits creation.splits)
  then show "start_known s \<Longrightarrow> ?thesis" by simp
qed

lemma started_known: "start_known s \<Longrightarrow> start_known (fst (onStarted good e s))"
proof (cases "\<exists>i d g. sc_creating s = Some (Starting i d g)")
  case True
  then obtain i d g where c: "sc_creating s = Some (Starting i d g)" by blast
  have g: "start_known (fst (give_up d t))" for t by (rule start_known_none) (simp add: give_up_def)
  have p: "start_known (creation_over t)" for t by (rule start_known_none) (simp add: creation_over_def)
  show ?thesis using g p by (simp add: onStarted_def c)
next
  case False
  then have "onStarted good e s = (s, [])" unfolding onStarted_def by (auto split: option.splits creation.splits)
  then show "start_known s \<Longrightarrow> ?thesis" by simp
qed

lemma enumerated_known: "start_known s \<Longrightarrow> start_known (fst (onEnumerated good e s))"
proof -
  assume k: "start_known s"
  have f: "start_known (s\<lparr>sc_scanInFlight := False\<rparr>)" by (rule start_known_cong[OF k]) simp_all
  have c: "start_known (fst (createDock m p t))" for m p t
    by (simp add: createDock_def pool_acquire_def start_known_def split: option.split)
  show ?thesis using k f c by (auto simp: onEnumerated_def split: option.split prod.split)
qed

lemma caps_known: "start_known s \<Longrightarrow> start_known (fst (setMaxDocks n e s))"
proof -
  assume k: "start_known s"
  have c: "start_known (s\<lparr>sc_maxDocks := cap\<rparr>)" "start_known (syncTimer e (s\<lparr>sc_maxDocks := cap, sc_free := f\<rparr>))" for cap f
    by (rule start_known_cong[OF k], simp_all)+
  show ?thesis unfolding setMaxDocks_def Let_def using k c stop_scanned_known by simp
qed

lemma external_known:
  assumes "start_known s"
  shows "addExternalDock i s = Some t \<Longrightarrow> start_known t"
    "map_of (sc_docks s) i = Some Outside \<Longrightarrow> start_known (removeExternalDock i s)"
proof -
  show "addExternalDock i s = Some t \<Longrightarrow> start_known t"
    by (rule start_known_cong[OF assms]) (auto simp: addExternalDock_def reserveIndex_def split: if_splits)
  show "map_of (sc_docks s) i = Some Outside \<Longrightarrow> start_known (removeExternalDock i s)"
    by (rule start_known_cong[OF assms])
      (auto simp: removeExternalDock_def unreserveIndex_def Let_def)
qed

lemma scan_step_known:
  assumes "start_known s"
  shows "start_known (fst (scan_step i e s))"
proof (cases i)
  case (Add_external j)
  then show ?thesis using assms external_known(1)[OF assms, of j] by (simp split: option.split)
next
  case (Remove_external j)
  then show ?thesis using assms external_known(2)[OF assms, of j] by (simp add: ite_def)
next
  case Closed
  then show ?thesis
    using assms start_known_none[of "creation_over s"]
    by (simp add: onClosed_def creation_over_def split: option.split creation.split)
next
  case Close_pool
  have "start_known (s\<lparr>sc_idle := []\<rparr>)" by (rule start_known_cong[OF assms]) simp_all
  then show ?thesis using Close_pool by (simp add: pool_closeAll_def)
next
  case Scan_tick
  have "start_known (scanForDocks e s)" by (rule start_known_cong[OF assms]) (simp_all add: scanForDocks_def)
  then show ?thesis using Scan_tick assms by (simp add: ite_def)
next
  case Start_scan
  have "start_known (startScan e s)" by (rule start_known_cong[OF assms]) (simp_all add: startScan_def)
  then show ?thesis using Start_scan by simp
next
  case Stop_scan
  have "start_known (stopScan e s)" by (rule start_known_cong[OF assms]) (simp_all add: stopScan_def)
  then show ?thesis using Stop_scan by simp
next
  case Sync_timer
  have "start_known (syncTimer e s)" by (rule start_known_cong[OF assms]) simp_all
  then show ?thesis using Sync_timer by simp
qed (use assms caps_known enumerated_known opened_known started_known teardown_known stop_scanned_known in simp_all)

lemma known_idle [simp]:
  "start_known (s\<lparr>sc_idle := x\<rparr>) = start_known s" "start_known (s\<lparr>sc_workers := n\<rparr>) = start_known s"
  by (simp_all add: start_known_def cong: option.case_cong creation.case_cong)

lemma known_pool [simp]:
  "start_known (pool_park m d s) = start_known s" "start_known (snd (snd (pool_acquire m s))) = start_known s"
  by (simp_all add: pool_park_def pool_acquire_def split: option.split)

lemma missed_scanner [simp]: "dm_scanner (fst (probe_missed m)) = dm_scanner m"
  by (simp add: probe_missed_def scheduleReconnect_def Let_def)

lemma next_known: "start_known (dm_scanner m) \<Longrightarrow> start_known (dm_scanner (fst (probe_next e models m)))"
proof (induction e models m rule: probe_next.induct)
  case (2 e model rest m)
  then show ?case
    using known_pool(2)[of model "dm_scanner m"] by (simp add: Let_def case_prod_beta split: option.split)
qed simp

lemma scanner_known: "start_known (dm_scanner m) \<Longrightarrow> start_known (dm_scanner (fst (on_scanner i e m)))"
  by (simp add: on_scanner_def case_prod_beta Let_def scan_step_known)

lemma manager_step_known:
  assumes "start_known (dm_scanner m)"
  shows "start_known (dm_scanner (fst (manager_step i e m)))"
proof (cases i)
  case (Swept present took)
  then show ?thesis using assms next_known[of "with_pacer (pc_note took) m"] by (simp add: onSwept_def)
next
  case (Probe_opened good)
  then show ?thesis
    using assms next_known[of "m\<lparr>dm_scanner := s\<rparr>" for s] by (simp add: onProbeOpened_def Let_def split: option.split probe.split)
next
  case Probe_dropped
  then show ?thesis using assms next_known by (simp add: onDropped_def split: option.split probe.split)
next
  case Shut_down
  have "start_known (dm_scanner (case dm_primary m of None \<Rightarrow> m | Some u \<Rightarrow> m\<lparr>dm_primary := None\<rparr>))"
    if "start_known (dm_scanner m)" for m using that by (simp split: option.split)
  then show ?thesis
    using assms unfolding Shut_down manager_step.simps manager_shutdown_def
    by (auto simp: scanner_known split: option.split)
qed (use assms scanner_known in \<open>simp_all add: tryRealConnect_def onReconnectTimer_def onFound_def onPrimaryDisconnect_def
      scheduleReconnect_def reloadDeviceTuning_def setActiveDecks_def reopen_primary_def onReopenClosed_def Let_def
      split: option.split probe.split\<close>)

lemma manager_run_known: "start_known (dm_scanner m) \<Longrightarrow> start_known (dm_scanner (fst (manager_run m is)))"
proof (induction "is" arbitrary: m)
  case (Cons ie "is")
  then show ?case using manager_step_known by (cases ie) (simp add: case_prod_beta Let_def)
qed simp

text \<open>What must not happen once the manager has shut down.\<close>

definition revives :: "manager_event \<Rightarrow> bool" where
  "revives x \<longleftrightarrow> (case x of Scanner_event y \<Rightarrow> brings_up y | Attach_primary d \<Rightarrow> True | Probe_again ms \<Rightarrow> True | _ \<Rightarrow> False)"

lemma revives_simps [simp]:
  "revives (Scanner_event y) = brings_up y" "revives (Attach_primary d)" "revives (Probe_again ms)"
  "\<not> revives (Open_primary d p)" "\<not> revives (Detach_primary d)" "\<not> revives (Close_driver d)"
  "\<not> brings_up (Spawn_worker d model)"
  by (simp_all add: revives_def brings_up_def)

definition shut :: "manager \<Rightarrow> bool" where
  "shut m \<longleftrightarrow> dm_shutdown m \<and> pc_cancelled (dm_pacer m) \<and> dm_primary m = None \<and> doomed (dm_scanner m)"

lemma doomed_pool [simp]:
  "doomed (s\<lparr>sc_idle := x\<rparr>) = doomed s" "doomed (s\<lparr>sc_workers := n\<rparr>) = doomed s"
  "doomed (pool_park m d s) = doomed s" "doomed (snd (snd (pool_acquire m s))) = doomed s"
  by (simp_all add: doomed_def pool_park_def pool_acquire_def cong: option.case_cong creation.case_cong split: option.split)

lemma shut_missed: "shut m \<Longrightarrow> shut (fst (probe_missed m)) \<and> snd (probe_missed m) = []"
  by (simp add: shut_def probe_missed_def Let_def)

lemma shut_next: "shut m \<Longrightarrow> shut (fst (probe_next e models m)) \<and> (\<forall>x \<in> set (snd (probe_next e models m)). \<not> revives x)"
proof (induction e models m rule: probe_next.induct)
  case (1 e m)
  then show ?case using shut_missed by simp
next
  case (2 e model rest m)
  then show ?case
    using doomed_pool(4)[of model "dm_scanner m"] by (auto simp: Let_def case_prod_beta shut_def split: option.split)
qed

lemma shut_scanner:
  "shut m \<Longrightarrow> shut (fst (on_scanner i e m)) \<and> (\<forall>x \<in> set (snd (on_scanner i e m)). \<not> revives x)"
  using doomed_step[of "dm_scanner m" i "scan_env_of e m"]
  by (auto simp: shut_def on_scanner_def case_prod_beta Let_def scan_env_of_def)

lemma shut_step:
  assumes "shut m"
  shows "shut (fst (manager_step i e m)) \<and> (\<forall>x \<in> set (snd (manager_step i e m)). \<not> revives x)"
proof (cases i)
  case (Swept present took)
  have "shut (with_pacer (pc_note took) m)" using assms by (simp add: shut_def)
  then show ?thesis using assms Swept shut_next by (simp add: onSwept_def)
next
  case (Probe_opened good)
  then show ?thesis using assms by (auto simp: onProbeOpened_def Let_def shut_def split: option.split probe.split)
next
  case Probe_dropped
  then show ?thesis using assms shut_next by (simp add: onDropped_def split: option.split probe.split)
next
  case (Scanner_input j)
  then show ?thesis using shut_scanner[OF assms] by simp
next
  case Shut_down
  then show ?thesis using assms by (simp add: manager_shutdown_def shut_def)
qed (use assms in \<open>auto simp: tryRealConnect_def onReconnectTimer_def onFound_def onPrimaryDisconnect_def
      scheduleReconnect_def reloadDeviceTuning_def setActiveDecks_def onReopenClosed_def Let_def shut_def pc_started_def
      split: option.split probe.split\<close>)

lemma shut_run: "shut m \<Longrightarrow> \<forall>x \<in> set (snd (manager_run m is)). \<not> revives x"
proof (induction "is" arbitrary: m)
  case (Cons ie "is")
  obtain i e where ie: "ie = (i, e)" by (cases ie)
  then show ?case using Cons.IH shut_step[OF Cons.prems, of i e] by (auto simp: case_prod_beta Let_def)
qed simp

lemma shut_down_shut:
  assumes "start_known (dm_scanner m)" "\<not> dm_shutdown m"
  shows "shut (fst (manager_shutdown e m))"
proof -
  define a where "a = fst (on_scanner Stop_scan e (m\<lparr>dm_shutdown := True\<rparr>))"
  define b where "b = (case dm_primary m of None \<Rightarrow> with_pacer pc_cancel a | Some u \<Rightarrow> (with_pacer pc_cancel a)\<lparr>dm_primary := None\<rparr>)"
  define c where "c = fst (on_scanner Stop_scanned e b)"
  have a: "start_known (dm_scanner a)" "dm_shutdown a" "dm_primary a = dm_primary m"
    using assms(1) by (simp_all add: a_def scanner_known)
  have b: "start_known (dm_scanner b)" "dm_shutdown b" "dm_primary b = None" "pc_cancelled (dm_pacer b)"
    using a by (auto simp: b_def pc_cancel_def split: option.split)
  have "doomed (dm_scanner c)"
    using stop_scanned_dooms[OF b(1)] by (simp add: c_def on_scanner_def case_prod_beta Let_def)
  then have "shut c" using b by (simp add: shut_def c_def)
  moreover have "fst (manager_shutdown e m) = fst (on_scanner Close_pool e c)"
    using assms(2) a(3) by (simp add: manager_shutdown_def a_def[symmetric] c_def b_def split: option.split)
  ultimately show ?thesis using shut_scanner by simp
qed


section \<open>Concrete runs\<close>

definition units_seen :: "hid_path list \<Rightarrow> found_units" where
  "units_seen ps = \<lparr> fu_units = [(''mk2'', ps)], fu_allowed = (\<lambda>m p. True) \<rparr>"

definition path_a :: hid_path where "path_a = Hid_path ''/a''"
definition path_b :: hid_path where "path_b = Hid_path ''/b''"

definition opening_first :: "(manager_input \<times> found_units) list" where
  "opening_first = map (\<lambda>i. (i, units_seen [path_a])) [Start_up, Swept [''mk2''] 10]"

lemma opening_first_value: "\<not> dm_shutdown (fst (manager_run new_manager opening_first))"
  by code_simp


text \<open>The primary's probe does not know the path the scanner is opening: when the primary's deck is
  unplugged while a second one is being opened, both end up driving the second.\<close>

definition unplugged_run :: "(manager_input \<times> found_units) list" where
  "unplugged_run =
     opening_first
     @ map (\<lambda>i. (i, units_seen [path_a, path_b]))
         [Probe_opened True, Probe_found, Scanner_input Start_scan, Scanner_input (Set_max_docks 2),
          Scanner_input Scan_tick, Scanner_input (Enumerated True), Primary_lost]
     @ map (\<lambda>i. (i, units_seen [path_b]))
         [Reconnect_timer, Swept [''mk2''] 10, Scanner_input (Opened True), Probe_opened True, Probe_found]"

lemma one_unit_opened_twice:
  "map_option pu_path (dm_primary (fst (manager_run new_manager unplugged_run))) = Some path_b"
  "claimedPaths (dm_scanner (fst (manager_run new_manager unplugged_run))) = [path_b]"
  by code_simp+

end
