(* ===== verification/Access_Tokens.thy ===== *)
theory Access_Tokens
  imports Js_Values Image_Hash
begin

text \<open>
  Access control of the network-facing APIs: the bearer tokens of \<^verbatim>\<open>infra/push-tokens.ts\<close> and their
  store in \<^verbatim>\<open>web/server/push-controller.ts\<close>, the rate limits of \<^verbatim>\<open>web/server/push-rate-limit.ts\<close>,
  the request guards of \<^verbatim>\<open>web/server/web-request-guard.ts\<close> and \<^verbatim>\<open>push-auth.ts\<close>, and the pairing of
  a browser in \<^verbatim>\<open>web/server/virtual-deck/pairing-codes.ts\<close> and \<^verbatim>\<open>deck-auth.ts\<close>.  The hash of a token
  (SHA-256), the random numbers and the machine's own addresses are parameters; clocks are in
  milliseconds.
\<close>

section \<open>Tokens\<close>

datatype push_scope = Scope_push | Scope_deck

record token_record =
  tr_id :: string
  tr_name :: string
  tr_scopes :: "push_scope list"
  tr_hash :: string
  tr_prefix :: string
  tr_createdAt :: string

abbreviation (input) ACCESS_TOKENS_MAX :: nat where "ACCESS_TOKENS_MAX \<equiv> 16"
abbreviation (input) PUSH_TOKEN_NAME_MAX :: nat where "PUSH_TOKEN_NAME_MAX \<equiv> 40"

definition char_code :: "char \<Rightarrow> 32 word" where
  "char_code c = of_nat (of_char c)"

definition timingSafeEqualHex :: "string \<Rightarrow> string \<Rightarrow> bool" where
  "timingSafeEqualHex a b \<longleftrightarrow>
     length a = length b \<and>
     fold (\<lambda>(x, y) diff. or diff (xor (char_code x) (char_code y))) (zip a b) 0 = 0"

text \<open>Every record is compared; the last match counts.\<close>

definition findPushToken :: "(string \<Rightarrow> string) \<Rightarrow> token_record list \<Rightarrow> string \<Rightarrow> token_record option" where
  "findPushToken sha records presented =
     fold (\<lambda>r found. if timingSafeEqualHex (sha presented) (tr_hash r) then Some r else found) records None"

section \<open>Token buckets\<close>

record bucket =
  bk_tokens :: rat
  bk_last :: rat

definition new_bucket :: "rat \<Rightarrow> rat \<Rightarrow> bucket" where
  "new_bucket capacity now = \<lparr> bk_tokens = capacity, bk_last = now \<rparr>"

definition refill :: "rat \<Rightarrow> rat \<Rightarrow> rat \<Rightarrow> bucket \<Rightarrow> bucket" where
  "refill capacity perSec now b =
     \<lparr> bk_tokens = min capacity (bk_tokens b + (now - bk_last b) / 1000 * perSec), bk_last = now \<rparr>"

definition bucket_wait :: "rat \<Rightarrow> bucket \<Rightarrow> int" where
  "bucket_wait perSec b = (if 1 \<le> bk_tokens b then 0 else max 1 \<lceil>(1 - bk_tokens b) / perSec\<rceil>)"

definition take_token :: "rat \<Rightarrow> rat \<Rightarrow> rat \<Rightarrow> bucket \<Rightarrow> int \<times> bucket" where
  "take_token capacity perSec now b =
     (let b = refill capacity perSec now b
      in (bucket_wait perSec b, if 1 \<le> bk_tokens b then b\<lparr>bk_tokens := bk_tokens b - 1\<rparr> else b))"

definition wait_token :: "rat \<Rightarrow> rat \<Rightarrow> rat \<Rightarrow> bucket \<Rightarrow> int \<times> bucket" where
  "wait_token capacity perSec now b =
     (let b = refill capacity perSec now b in (bucket_wait perSec b, b))"

record rate_limits =
  rl_perToken :: "(string \<times> bucket) list"
  rl_failed :: "(string \<times> bucket) list"
  rl_global :: bucket

abbreviation (input) TOKEN_CAPACITY :: rat where "TOKEN_CAPACITY \<equiv> 20"
abbreviation (input) TOKEN_REFILL_PER_S :: rat where "TOKEN_REFILL_PER_S \<equiv> 10"
abbreviation (input) GLOBAL_CAPACITY :: rat where "GLOBAL_CAPACITY \<equiv> 50"
abbreviation (input) GLOBAL_REFILL_PER_S :: rat where "GLOBAL_REFILL_PER_S \<equiv> 25"
abbreviation (input) FAIL_CAPACITY :: rat where "FAIL_CAPACITY \<equiv> 10"
abbreviation (input) FAIL_REFILL_PER_S :: rat where "FAIL_REFILL_PER_S \<equiv> 10 / 60"
abbreviation (input) FAIL_MAP_MAX :: nat where "FAIL_MAP_MAX \<equiv> 256"
abbreviation (input) TOKEN_MAP_MAX :: nat where "TOKEN_MAP_MAX \<equiv> 64"

definition new_limits :: "rat \<Rightarrow> rate_limits" where
  "new_limits now = \<lparr> rl_perToken = [], rl_failed = [], rl_global = new_bucket GLOBAL_CAPACITY now \<rparr>"

definition takePush :: "string \<Rightarrow> rat \<Rightarrow> rate_limits \<Rightarrow> int \<times> rate_limits" where
  "takePush tokenId now l =
     (let (m, b) = (case map_of (rl_perToken l) tokenId of
            Some b \<Rightarrow> (rl_perToken l, b)
          | None \<Rightarrow> (if TOKEN_MAP_MAX \<le> length (rl_perToken l) then [] else rl_perToken l, new_bucket TOKEN_CAPACITY now));
          (own, b) = take_token TOKEN_CAPACITY TOKEN_REFILL_PER_S now b;
          l = l\<lparr>rl_perToken := AList.update tokenId b m\<rparr>
      in if 0 < own then (own, l)
         else let (w, g) = take_token GLOBAL_CAPACITY GLOBAL_REFILL_PER_S now (rl_global l)
              in (w, l\<lparr>rl_global := g\<rparr>))"

definition checkFailedAuth :: "string \<Rightarrow> rat \<Rightarrow> rate_limits \<Rightarrow> int \<times> rate_limits" where
  "checkFailedAuth remote now l =
     (case map_of (rl_failed l) remote of
        None \<Rightarrow> (0, l)
      | Some b \<Rightarrow> let (w, b) = wait_token FAIL_CAPACITY FAIL_REFILL_PER_S now b
                 in (w, l\<lparr>rl_failed := AList.update remote b (rl_failed l)\<rparr>))"

text \<open>\<^verbatim>\<open>prune\<close>: reading \<^verbatim>\<open>full\<close> refills the buckets that stay.\<close>

definition prune_failed :: "rat \<Rightarrow> (string \<times> bucket) list \<Rightarrow> (string \<times> bucket) list" where
  "prune_failed now m =
     (let m = filter (\<lambda>(k, b). bk_tokens b < FAIL_CAPACITY)
                (map (\<lambda>(k, b). (k, refill FAIL_CAPACITY FAIL_REFILL_PER_S now b)) m)
      in if FAIL_MAP_MAX \<le> length m then tl m else m)"

definition noteFailedAuth :: "string \<Rightarrow> rat \<Rightarrow> rate_limits \<Rightarrow> rate_limits" where
  "noteFailedAuth remote now l =
     (let (m, b) = (case map_of (rl_failed l) remote of
            Some b \<Rightarrow> (rl_failed l, b)
          | None \<Rightarrow> (if FAIL_MAP_MAX \<le> length (rl_failed l) then prune_failed now (rl_failed l) else rl_failed l,
                     new_bucket FAIL_CAPACITY now))
      in l\<lparr>rl_failed := AList.update remote (snd (take_token FAIL_CAPACITY FAIL_REFILL_PER_S now b)) m\<rparr>)"

section \<open>Requests\<close>

definition lower_char :: "char \<Rightarrow> char" where
  "lower_char c = (let n = (of_char c :: nat) in if 65 \<le> n \<and> n \<le> 90 then char_of (n + 32) else c)"

definition ALLOWED_HOSTNAMES :: "string list" where
  "ALLOWED_HOSTNAMES = [''localhost'', ''127.0.0.1'', ''[::1]'']"

text \<open>\<^verbatim>\<open>own\<close> are the machine's own IPv4 addresses.\<close>

definition isAllowedOrigin :: "string list \<Rightarrow> string \<Rightarrow> nat \<Rightarrow> bool" where
  "isAllowedOrigin own origin port \<longleftrightarrow>
     (let o' = map lower_char origin
      in list_ex (\<lambda>h. o' = ''http://'' @ h \<or> o' = ''http://'' @ h @ '':'' @ decimal port) (ALLOWED_HOSTNAMES @ own))"

definition isAllowedWebRequest :: "string list \<Rightarrow> string option \<Rightarrow> string option \<Rightarrow> nat \<Rightarrow> bool" where
  "isAllowedWebRequest own host origin port \<longleftrightarrow>
     (case host of
        None \<Rightarrow> False
      | Some h0 \<Rightarrow> h0 \<noteq> []
          \<and> (let h' = map lower_char h0
             in list_ex (\<lambda>h. h' = h \<or> h' = h @ '':'' @ decimal port) (ALLOWED_HOSTNAMES @ own))
          \<and> (case origin of None \<Rightarrow> True | Some o' \<Rightarrow> isAllowedOrigin own o' port))"

definition js_space :: "char \<Rightarrow> bool" where
  "js_space c \<longleftrightarrow> (of_char c :: nat) \<in> {9, 10, 11, 12, 13, 32, 160}"

text \<open>\<^verbatim>\<open>/^bearer\s+(\S+)$/i\<close>.\<close>

definition bearer_token :: "string \<Rightarrow> string option" where
  "bearer_token s =
     (if map lower_char (take 6 s) \<noteq> ''bearer'' then None
      else let rest = drop 6 s; t = dropWhile js_space rest
           in if t \<noteq> rest \<and> t \<noteq> [] \<and> list_all (\<lambda>c. \<not> js_space c) t then Some t else None)"

datatype push_auth =
    Auth_ok string
  | Forbidden_origin
  | Rate_limited int
  | Unauthorized
  | Insufficient_scope

text \<open>\<^verbatim>\<open>authenticatePush\<close> up to its await: an answer, or the token to look up.\<close>

definition auth_begin ::
  "string list \<Rightarrow> string option \<Rightarrow> string option \<Rightarrow> nat \<Rightarrow> string \<Rightarrow> rat \<Rightarrow> rate_limits
     \<Rightarrow> (push_auth + string) \<times> rate_limits" where
  "auth_begin own origin authorization port remote now l =
     (if (case origin of None \<Rightarrow> False | Some o' \<Rightarrow> \<not> isAllowedOrigin own o' port) then (Inl Forbidden_origin, l)
      else let (wait, l) = checkFailedAuth remote now l
           in if 0 < wait then (Inl (Rate_limited wait), l)
              else case bearer_token (case authorization of None \<Rightarrow> [] | Some a \<Rightarrow> a) of
                  None \<Rightarrow> (Inl Unauthorized, noteFailedAuth remote now l)
                | Some t \<Rightarrow> (Inr t, l))"

text \<open>What follows the lookup; \<^verbatim>\<open>records\<close> are those of the time of the call.\<close>

definition auth_finish ::
  "(string \<Rightarrow> string) \<Rightarrow> token_record list \<Rightarrow> string \<Rightarrow> rat \<Rightarrow> string \<Rightarrow> rate_limits \<Rightarrow> push_auth \<times> rate_limits" where
  "auth_finish sha records remote now t l =
     (case findPushToken sha records t of
        None \<Rightarrow> (Unauthorized, noteFailedAuth remote now l)
      | Some r \<Rightarrow> (if Scope_push \<in> set (tr_scopes r) then Auth_ok (tr_id r) else Insufficient_scope, l))"

text \<open>The whole, when nothing else runs while the hash is computed.\<close>

definition authenticatePush ::
  "(string \<Rightarrow> string) \<Rightarrow> token_record list \<Rightarrow> string list \<Rightarrow> string option \<Rightarrow> string option \<Rightarrow> nat \<Rightarrow> string
     \<Rightarrow> rat \<Rightarrow> rat \<Rightarrow> rate_limits \<Rightarrow> push_auth \<times> rate_limits" where
  "authenticatePush sha records own origin authorization port remote now now' l =
     (case auth_begin own origin authorization port remote now l of
        (Inl a, l) \<Rightarrow> (a, l)
      | (Inr t, l) \<Rightarrow> auth_finish sha records remote now' t l)"

section \<open>Pairing codes\<close>

text \<open>\<^verbatim>\<open>randomBase32\<close>: the accumulator is a 32-bit integer whose upper bits are shifted out.\<close>

definition BASE32 :: string where
  "BASE32 = ''ABCDEFGHIJKLMNOPQRSTUVWXYZ234567''"

fun base32_emit :: "nat \<Rightarrow> 32 word \<Rightarrow> string \<Rightarrow> nat \<times> string" where
  "base32_emit bits acc out =
     (if bits < 5 then (bits, out)
      else base32_emit (bits - 5) acc (out @ [BASE32 ! unat (and (drop_bit (bits - 5) acc) 31)]))"

declare base32_emit.simps [simp del]

definition base32_byte :: "8 word \<Rightarrow> nat \<times> 32 word \<times> string \<Rightarrow> nat \<times> 32 word \<times> string" where
  "base32_byte b = (\<lambda>(bits, acc, out).
     let acc = or (push_bit 8 acc) (ucast b);
         (bits, out) = base32_emit (bits + 8) acc out
     in (bits, acc, out))"

definition randomBase32 :: "8 word list \<Rightarrow> string" where
  "randomBase32 raw = snd (snd (fold base32_byte raw (0, 0, [])))"

text \<open>\<^verbatim>\<open>randomShortCode\<close> on the words the generator returns; \<^const>\<open>None\<close> when it needs more.\<close>

abbreviation (input) SHORT_CODE_SPACE :: nat where "SHORT_CODE_SPACE \<equiv> 1000000"

definition SHORT_CODE_LIMIT :: nat where
  "SHORT_CODE_LIMIT = 2 ^ 32 div SHORT_CODE_SPACE * SHORT_CODE_SPACE"

definition padStart6 :: "string \<Rightarrow> string" where
  "padStart6 s = replicate (6 - length s) (CHR ''0'') @ s"

fun randomShortCode :: "32 word list \<Rightarrow> string option" where
  "randomShortCode [] = None"
| "randomShortCode (w # ws) =
     (if SHORT_CODE_LIMIT \<le> unat w then randomShortCode ws
      else Some (padStart6 (decimal (unat w mod SHORT_CODE_SPACE))))"

record pending_pairing =
  pp_code :: string
  pp_shortCode :: string
  pp_expiresAt :: rat

record pairing_codes =
  pc_current :: "pending_pairing option"
  pc_fails :: nat

datatype consume_result = C_ok | C_invalid | C_expired | C_none

abbreviation (input) PAIRING_TTL_MS :: rat where "PAIRING_TTL_MS \<equiv> 300000"
abbreviation (input) PAIRING_MAX_FAILS :: nat where "PAIRING_MAX_FAILS \<equiv> 5"

definition no_pairing :: pairing_codes where
  "no_pairing = \<lparr> pc_current = None, pc_fails = 0 \<rparr>"

definition pairing_create :: "string \<Rightarrow> string \<Rightarrow> rat \<Rightarrow> pairing_codes \<Rightarrow> pairing_codes" where
  "pairing_create code short now p =
     p\<lparr>pc_current := Some \<lparr> pp_code = code, pp_shortCode = short, pp_expiresAt = now + PAIRING_TTL_MS \<rparr>, pc_fails := 0\<rparr>"

definition code_matches :: "string option \<Rightarrow> string option \<Rightarrow> pending_pairing \<Rightarrow> bool" where
  "code_matches code short cur \<longleftrightarrow>
     (case code of None \<Rightarrow> False | Some c \<Rightarrow> timingSafeEqualHex c (pp_code cur))
     \<or> (case short of None \<Rightarrow> False | Some c \<Rightarrow> timingSafeEqualHex c (pp_shortCode cur))"

definition pairing_consume ::
  "string option \<Rightarrow> string option \<Rightarrow> rat \<Rightarrow> pairing_codes \<Rightarrow> consume_result \<times> pairing_codes" where
  "pairing_consume code short now p =
     (case pc_current p of
        None \<Rightarrow> (C_none, p)
      | Some cur \<Rightarrow>
          if pp_expiresAt cur < now then (C_expired, p\<lparr>pc_current := None\<rparr>)
          else if code_matches code short cur then (C_ok, p\<lparr>pc_current := None\<rparr>)
          else let p = p\<lparr>pc_fails := pc_fails p + 1\<rparr>
               in (C_invalid, if PAIRING_MAX_FAILS \<le> pc_fails p then p\<lparr>pc_current := None\<rparr> else p))"

definition pairing_cancel :: "pairing_codes \<Rightarrow> pairing_codes" where
  "pairing_cancel p = p\<lparr>pc_current := None\<rparr>"

definition pairing_pending :: "rat \<Rightarrow> pairing_codes \<Rightarrow> pending_pairing option \<times> pairing_codes" where
  "pairing_pending now p =
     (let p = (case pc_current p of
            Some cur \<Rightarrow> if pp_expiresAt cur < now then p\<lparr>pc_current := None\<rparr> else p
          | None \<Rightarrow> p)
      in (pc_current p, p))"

section \<open>The token store and pairing\<close>

datatype request_error = Bad_name | Too_many_tokens | No_such_token

text \<open>\<^verbatim>\<open>createToken\<close> checks the number of tokens, awaits the hash and appends the record.\<close>

definition createToken_check :: "string option \<Rightarrow> token_record list \<Rightarrow> request_error option" where
  "createToken_check trimmed records =
     (let n = (case trimmed of None \<Rightarrow> 0 | Some t \<Rightarrow> length t)
      in if n < 1 \<or> PUSH_TOKEN_NAME_MAX < n then Some Bad_name
         else if ACCESS_TOKENS_MAX \<le> length records then Some Too_many_tokens
         else None)"

definition createToken_finish :: "token_record \<Rightarrow> token_record list \<Rightarrow> token_record list" where
  "createToken_finish r records = records @ [r]"

definition rotateToken_finish :: "string \<Rightarrow> token_record \<Rightarrow> token_record list \<Rightarrow> token_record list" where
  "rotateToken_finish tid r records = map (\<lambda>x. if tr_id x = tid then r else x) records"

definition revokeToken :: "string \<Rightarrow> token_record list \<Rightarrow> request_error + token_record list" where
  "revokeToken tid records =
     (if list_ex (\<lambda>r. tr_id r = tid) records then Inr (filter (\<lambda>r. tr_id r \<noteq> tid) records) else Inl No_such_token)"

abbreviation (input) DECK_DEVICES_MAX :: nat where "DECK_DEVICES_MAX \<equiv> 8"

definition deckRecords :: "token_record list \<Rightarrow> token_record list" where
  "deckRecords records = filter (\<lambda>r. Scope_deck \<in> set (tr_scopes r)) records"

datatype pair_status = Pair_limited int | Pair_device_limit | Pair_wrong | Pair_gone | Pair_accepted

text \<open>\<^verbatim>\<open>pair\<close> up to the creation of the token.\<close>

definition deck_pair ::
  "string option \<Rightarrow> string option \<Rightarrow> string \<Rightarrow> token_record list \<Rightarrow> rat
     \<Rightarrow> pairing_codes \<times> rate_limits \<Rightarrow> pair_status \<times> pairing_codes \<times> rate_limits" where
  "deck_pair code short remote records now = (\<lambda>(p, l).
     let (wait, l) = checkFailedAuth remote now l
     in if 0 < wait then (Pair_limited wait, p, l)
        else if DECK_DEVICES_MAX \<le> length (deckRecords records) then (Pair_device_limit, p, l)
        else let (r, p) = pairing_consume code short now p;
                 l = (if r \<noteq> C_ok then noteFailedAuth remote now l else l)
             in (case r of C_ok \<Rightarrow> Pair_accepted | C_invalid \<Rightarrow> Pair_wrong | _ \<Rightarrow> Pair_gone, p, l))"

definition deck_verify :: "(string \<Rightarrow> string) \<Rightarrow> token_record list \<Rightarrow> string \<Rightarrow> (string \<times> string) option" where
  "deck_verify sha records token =
     map_option (\<lambda>r. (tr_id r, tr_name r)) (findPushToken sha (deckRecords records) token)"

section \<open>Comparison in constant time\<close>

lemma of_char_bound: "(of_char c :: nat) < 256"
  by (metis char_of_char mod_less_divisor of_char_of zero_less_numeral)

lemma char_code_eq [simp]: "char_code c = char_code d \<longleftrightarrow> c = d"
proof
  assume "char_code c = char_code d"
  then have "unat (word_of_nat (of_char c) :: 32 word) = unat (word_of_nat (of_char d) :: 32 word)"
    by (simp only: char_code_def)
  moreover have "unat (word_of_nat (of_char x) :: 32 word) = of_char x" for x
  proof -
    have "(of_char x :: nat) < 2 ^ 32" by (rule order.strict_trans[OF of_char_bound]) simp
    then show ?thesis by (simp add: unsigned_of_nat take_bit_nat_eq_self_iff)
  qed
  ultimately show "c = d" by simp
qed simp

lemma xor_eq_0: "xor a b = 0 \<longleftrightarrow> a = (b :: 32 word)"
proof
  assume "xor a b = 0"
  then have "xor (xor a b) b = b" by simp
  then show "a = b" by (simp add: xor.assoc)
qed simp

lemma fold_or_eq_0:
  "length a = length b \<Longrightarrow>
   fold (\<lambda>(x, y) diff. or diff (xor (char_code x) (char_code y))) (zip a b) d = 0 \<longleftrightarrow> d = 0 \<and> a = b"
  by (induction a b arbitrary: d rule: list_induct2) (auto simp: or_eq_0_iff xor_eq_0)

lemma timing_safe_eq [simp]: "timingSafeEqualHex a b \<longleftrightarrow> a = b"
  by (auto simp: timingSafeEqualHex_def fold_or_eq_0)

lemma fold_last_match:
  "fold (\<lambda>r found. if P r then Some r else found) rs a
   = (if filter P rs = [] then a else Some (last (filter P rs)))"
  by (induction rs arbitrary: a) auto

lemma findPushToken_filter:
  "findPushToken sha records t
   = (let ms = filter (\<lambda>r. sha t = tr_hash r) records in if ms = [] then None else Some (last ms))"
  by (simp add: findPushToken_def fold_last_match Let_def)

lemma findPushToken_Some:
  assumes "findPushToken sha records t = Some r"
  shows "r \<in> set records" "tr_hash r = sha t"
proof -
  let ?ms = "filter (\<lambda>r. sha t = tr_hash r) records"
  have "?ms \<noteq> []" "r = last ?ms"
    using assms by (simp_all add: findPushToken_filter Let_def split: if_splits)
  then have "r \<in> set ?ms" using last_in_set by blast
  then show "r \<in> set records" "tr_hash r = sha t" by simp_all
qed

lemma findPushToken_None: "findPushToken sha records t = None \<longleftrightarrow> sha t \<notin> tr_hash ` set records"
  by (auto simp: findPushToken_filter Let_def filter_empty_conv)
section \<open>What the buckets allow\<close>

text \<open>
  The credit of a key: what its bucket holds, less what refilling has given it since the clock
  was 0.  It only falls, by at least 1 with every token taken, so it bounds how many can be.
\<close>

definition credit :: "rat \<Rightarrow> bucket \<Rightarrow> rat" where
  "credit perSec b = bk_tokens b - bk_last b / 1000 * perSec"

definition bucket_ok :: "rat \<Rightarrow> rat \<Rightarrow> bucket \<Rightarrow> bool" where
  "bucket_ok capacity now b \<longleftrightarrow> 0 \<le> bk_tokens b \<and> bk_tokens b \<le> capacity \<and> bk_last b \<le> now"

lemma new_bucket_ok: "0 \<le> capacity \<Longrightarrow> bucket_ok capacity now (new_bucket capacity now)"
  by (simp add: bucket_ok_def new_bucket_def)

lemma bucket_ok_later: "bucket_ok capacity t b \<Longrightarrow> t \<le> now \<Longrightarrow> bucket_ok capacity now b"
  by (simp add: bucket_ok_def)

lemma refill_ok:
  assumes "bucket_ok capacity now b" "0 \<le> perSec"
  shows "bucket_ok capacity now (refill capacity perSec now b)"
  using assms by (auto simp: bucket_ok_def refill_def)

lemma refill_credit: "credit perSec (refill capacity perSec now b) \<le> credit perSec b"
  by (simp add: credit_def refill_def algebra_simps diff_divide_distrib min_le_iff_disj)

lemma refill_again: "0 \<le> perSec \<Longrightarrow> bk_tokens b \<le> capacity \<Longrightarrow> bk_last b = now \<Longrightarrow> refill capacity perSec now b = b"
  by (simp add: refill_def)

lemma bucket_wait_zero: "bucket_wait perSec b = 0 \<longleftrightarrow> 1 \<le> bk_tokens b" "0 \<le> bucket_wait perSec b"
proof -
  have w: "\<not> 1 \<le> bk_tokens b \<Longrightarrow> 1 \<le> bucket_wait perSec b"
    unfolding bucket_wait_def by (simp only: if_False max.cobounded1)
  then show "bucket_wait perSec b = 0 \<longleftrightarrow> 1 \<le> bk_tokens b" by (force simp: bucket_wait_def)
  show "0 \<le> bucket_wait perSec b" using w by (cases "1 \<le> bk_tokens b") (force simp: bucket_wait_def)+
qed

lemma take_token_ok:
  assumes "bucket_ok capacity now b" "0 \<le> perSec" "take_token capacity perSec now b = (w, b')"
  shows "bucket_ok capacity now b'" "0 \<le> w"
    "(if w = 0 then 1 else 0) + credit perSec b' \<le> credit perSec b"
proof -
  note r = refill_ok[OF assms(1,2)]
  have w: "w = bucket_wait perSec (refill capacity perSec now b)"
    "b' = (if 1 \<le> bk_tokens (refill capacity perSec now b)
        then refill capacity perSec now b\<lparr>bk_tokens := bk_tokens (refill capacity perSec now b) - 1\<rparr>
        else refill capacity perSec now b)"
    using assms(3) by (simp_all add: take_token_def Let_def)
  show "bucket_ok capacity now b'" "0 \<le> w" using r by (auto simp: w bucket_ok_def bucket_wait_zero)
  show "(if w = 0 then 1 else 0) + credit perSec b' \<le> credit perSec b"
    using refill_credit[of perSec capacity now b] by (auto simp: w bucket_wait_zero credit_def)
qed

text \<open>A key without a bucket counts as one whose bucket was full at the start.\<close>

definition key_credit :: "rat \<Rightarrow> rat \<Rightarrow> rat \<Rightarrow> (string \<times> bucket) list \<Rightarrow> string \<Rightarrow> rat" where
  "key_credit capacity perSec t0 m k =
     (case map_of m k of Some b \<Rightarrow> credit perSec b | None \<Rightarrow> capacity - t0 / 1000 * perSec)"

definition buckets_ok :: "rat \<Rightarrow> rat \<Rightarrow> string set \<Rightarrow> (string \<times> bucket) list \<Rightarrow> bool" where
  "buckets_ok capacity now K m \<longleftrightarrow>
     distinct (map fst m) \<and> fst ` set m \<subseteq> K \<and> (\<forall>k b. map_of m k = Some b \<longrightarrow> bucket_ok capacity now b)"

lemma buckets_ok_update:
  assumes "buckets_ok capacity now K m" "bucket_ok capacity now b" "k \<in> K"
  shows "buckets_ok capacity now K (AList.update k b m)"
  using assms by (auto simp: buckets_ok_def update_conv' distinct_update dom_update)

lemma buckets_ok_later: "buckets_ok capacity t K m \<Longrightarrow> t \<le> now \<Longrightarrow> buckets_ok capacity now K m"
  unfolding buckets_ok_def using bucket_ok_later by blast

lemma key_credit_update:
  "key_credit capacity perSec t0 (AList.update k b m) k' = (if k' = k then credit perSec b else key_credit capacity perSec t0 m k')"
  by (simp add: key_credit_def update_conv')

lemma buckets_ok_size:
  assumes "buckets_ok capacity now K m" "finite K" "k \<in> K" "map_of m k = None"
  shows "length m < card K"
proof -
  have "length m = card (fst ` set m)"
    using assms(1) distinct_card[of "map fst m"] by (simp add: buckets_ok_def)
  also have "\<dots> < card K"
    using assms by (intro psubset_card_mono) (auto simp: buckets_ok_def map_of_eq_None_iff)
  finally show ?thesis .
qed

lemma key_credit_floor:
  assumes "buckets_ok capacity now K m" "0 \<le> perSec" "0 \<le> capacity" "t0 \<le> now"
  shows "- (now / 1000 * perSec) \<le> key_credit capacity perSec t0 m k"
proof -
  have mono: "t \<le> now \<Longrightarrow> t / 1000 * perSec \<le> now / 1000 * perSec" for t
    using assms(2) by (intro mult_right_mono divide_right_mono) auto
  show ?thesis
  proof (cases "map_of m k")
    case None
    then show ?thesis using mono[OF assms(4)] assms(3) by (simp add: key_credit_def)
  next
    case (Some b)
    then have "bucket_ok capacity now b" using assms(1) unfolding buckets_ok_def by blast
    then show ?thesis using mono[of "bk_last b"] Some by (simp add: key_credit_def bucket_ok_def credit_def)
  qed
qed
section \<open>Runs of pushes\<close>

text \<open>The pushes of a run with their token and time, and for each whether it was let through.\<close>

fun push_run :: "(string \<times> rat) list \<Rightarrow> rate_limits \<Rightarrow> (string \<times> bool) list \<times> rate_limits" where
  "push_run [] l = ([], l)"
| "push_run ((t, now) # xs) l =
     (let (w, l) = takePush t now l; (rs, l) = push_run xs l in ((t, w = 0) # rs, l))"

definition allowed :: "(string \<Rightarrow> bool) \<Rightarrow> (string \<times> bool) list \<Rightarrow> nat" where
  "allowed P rs = length (filter (\<lambda>(t, ok). ok \<and> P t) rs)"

lemma allowed_simps [simp]:
  "allowed P [] = 0" "allowed P ((t, ok) # rs) = (if ok \<and> P t then 1 else 0) + allowed P rs"
  by (simp_all add: allowed_def)

definition push_ok :: "string set \<Rightarrow> rat \<Rightarrow> rate_limits \<Rightarrow> bool" where
  "push_ok K now l \<longleftrightarrow> buckets_ok TOKEN_CAPACITY now K (rl_perToken l) \<and> bucket_ok GLOBAL_CAPACITY now (rl_global l)"

lemma push_ok_later: "push_ok K t l \<Longrightarrow> t \<le> now \<Longrightarrow> push_ok K now l"
  unfolding push_ok_def using buckets_ok_later bucket_ok_later by blast

lemma bucket_of_ok:
  "buckets_ok capacity now K m \<Longrightarrow> 0 \<le> capacity \<Longrightarrow>
   bucket_ok capacity now (case map_of m k of Some b \<Rightarrow> b | None \<Rightarrow> new_bucket capacity now)"
  unfolding buckets_ok_def by (cases "map_of m k") (simp_all add: new_bucket_ok)

lemma bucket_of_credit:
  "t0 \<le> now \<Longrightarrow> 0 \<le> perSec \<Longrightarrow>
   credit perSec (case map_of m k of Some b \<Rightarrow> b | None \<Rightarrow> new_bucket capacity now) \<le> key_credit capacity perSec t0 m k"
  by (cases "map_of m k") (simp_all add: key_credit_def credit_def new_bucket_def mult_right_mono divide_right_mono)

lemma takePush_step:
  assumes ok: "push_ok K now l" and K: "t \<in> K" "finite K" "card K \<le> 64" "t0 \<le> now"
    and tp: "takePush t now l = (w, l')"
  shows "push_ok K now l'"
    "(if w = 0 then 1 else 0) + credit 25 (rl_global l') \<le> credit 25 (rl_global l)"
    "(if w = 0 \<and> t = k then 1 else 0) + key_credit 20 10 t0 (rl_perToken l') k \<le> key_credit 20 10 t0 (rl_perToken l) k"
proof -
  define b where "b = (case map_of (rl_perToken l) t of Some b \<Rightarrow> b | None \<Rightarrow> new_bucket 20 now)"
  obtain own b' where own: "take_token 20 10 now b = (own, b')" by force
  obtain v g where v: "take_token 50 25 now (rl_global l) = (v, g)" by force
  have m: "(case map_of (rl_perToken l) t of Some b \<Rightarrow> (rl_perToken l, b)
      | None \<Rightarrow> (if TOKEN_MAP_MAX \<le> length (rl_perToken l) then [] else rl_perToken l, new_bucket TOKEN_CAPACITY now))
      = (rl_perToken l, b)"
    using buckets_ok_size[of 20 now K "rl_perToken l" t] ok K
    by (auto simp: b_def push_ok_def split: option.splits)
  have l': "l' = l\<lparr>rl_perToken := AList.update t b' (rl_perToken l), rl_global := (if 0 < own then rl_global l else g)\<rparr>"
    "w = (if 0 < own then own else v)"
    using tp unfolding takePush_def m Let_def by (auto simp: own v split: if_splits)
  have b: "bucket_ok 20 now b" "credit 10 b \<le> key_credit 20 10 t0 (rl_perToken l) t"
    using bucket_of_ok[of 20 now K "rl_perToken l" t] ok bucket_of_credit[OF K(4), where perSec = 10 and m = "rl_perToken l" and k = t and capacity = 20]
    by (simp_all add: b_def push_ok_def)
  note o = take_token_ok[OF b(1) _ own, simplified] and gl = take_token_ok[OF _ _ v, simplified]
  show "push_ok K now l'"
    using ok o(1) gl(1) K(1) by (auto simp: push_ok_def l' intro: buckets_ok_update)
  show "(if w = 0 then 1 else 0) + credit 25 (rl_global l') \<le> credit 25 (rl_global l)"
    using ok o(2) gl(3) by (auto simp: push_ok_def l')
  show "(if w = 0 \<and> t = k then 1 else 0) + key_credit 20 10 t0 (rl_perToken l') k \<le> key_credit 20 10 t0 (rl_perToken l) k"
    using o(2,3) b(2) by (auto simp: l' key_credit_update split: if_splits)
qed

lemma push_run_bounded:
  "push_ok K t l \<Longrightarrow> sorted (t # map snd xs) \<Longrightarrow> t0 \<le> t \<Longrightarrow> fst ` set xs \<subseteq> K \<Longrightarrow> finite K \<Longrightarrow> card K \<le> 64 \<Longrightarrow>
   push_run xs l = (rs, l') \<Longrightarrow>
   push_ok K (last (t # map snd xs)) l'
   \<and> of_nat (allowed (\<lambda>_. True) rs) + credit 25 (rl_global l') \<le> credit 25 (rl_global l)
   \<and> of_nat (allowed (\<lambda>t. t = k) rs) + key_credit 20 10 t0 (rl_perToken l') k \<le> key_credit 20 10 t0 (rl_perToken l) k"
proof (induction xs arbitrary: t l rs l')
  case (Cons x xs)
  obtain a now where x: "x = (a, now)" by force
  obtain w l1 where w: "takePush a now l = (w, l1)" by force
  obtain rs1 where r: "push_run xs l1 = (rs1, l')" "rs = (a, w = 0) # rs1"
    using Cons.prems(7) by (auto simp: x w split: prod.splits)
  have ord: "t \<le> now" "t0 \<le> now" "sorted (now # map snd xs)" using Cons.prems(2,3) by (auto simp: x)
  have K: "a \<in> K" "fst ` set xs \<subseteq> K" using Cons.prems(4) by (auto simp: x)
  note st = takePush_step[OF push_ok_later[OF Cons.prems(1) ord(1)] K(1) Cons.prems(5,6) ord(2) w]
  note ih = Cons.IH[OF st(1) ord(3,2) K(2) Cons.prems(5,6) r(1)]
  show ?case using ih st(2) st(3)[of k] by (auto simp: r(2) x)
qed simp

text \<open>A client cannot push faster than allowed: in any run of pushes against fresh limits, in the
  order of the clock, at most 50 and 25 for every second passed are let through in all, and, while
  no more than 64 tokens take part, at most 20 and 10 for every second with any one token.\<close>

theorem push_rate_bounded:
  assumes "sorted (t0 # map snd xs)" "push_run xs (new_limits t0) = (rs, l)" "card (fst ` set xs) \<le> 64"
  shows "of_nat (allowed (\<lambda>_. True) rs) \<le> 50 + (last (t0 # map snd xs) - t0) / 1000 * 25
    \<and> of_nat (allowed (\<lambda>t. t = tok) rs) \<le> 20 + (last (t0 # map snd xs) - t0) / 1000 * 10
    \<and> length (rl_perToken l) \<le> 64"
proof -
  define T where "T = last (t0 # map snd xs)"
  have ok: "push_ok (fst ` set xs) t0 (new_limits t0)"
    by (simp add: push_ok_def new_limits_def new_bucket_ok buckets_ok_def)
  have run: "push_ok (fst ` set xs) T l"
    "of_nat (allowed (\<lambda>_. True) rs) + credit 25 (rl_global l) \<le> credit 25 (rl_global (new_limits t0))"
    "of_nat (allowed (\<lambda>t. t = tok) rs) + key_credit 20 10 t0 (rl_perToken l) tok \<le> key_credit 20 10 t0 (rl_perToken (new_limits t0)) tok"
    using push_run_bounded[OF ok assms(1) order_refl subset_refl _ assms(3,2), of tok]
    unfolding T_def by blast+
  have T: "t0 \<le> T" using assms(1) by (cases xs rule: rev_cases) (auto simp: T_def)
  have "- (T / 1000 * 10) \<le> key_credit 20 10 t0 (rl_perToken l) tok"
    using run(1) T by (intro key_credit_floor) (auto simp: push_ok_def)
  moreover have "- (T / 1000 * 25) \<le> credit 25 (rl_global l)"
    using run(1) by (auto simp: push_ok_def bucket_ok_def credit_def)
  moreover have "length (rl_perToken l) \<le> 64"
  proof -
    have "length (rl_perToken l) = card (fst ` set (rl_perToken l))"
      using run(1) distinct_card[of "map fst (rl_perToken l)"] by (simp add: push_ok_def buckets_ok_def)
    also have "\<dots> \<le> card (fst ` set xs)"
      using run(1) by (intro card_mono) (auto simp: push_ok_def buckets_ok_def)
    finally show ?thesis using assms(3) by simp
  qed
  ultimately show ?thesis
    using run(2,3) unfolding T_def[symmetric]
    by (simp add: new_limits_def new_bucket_def key_credit_def credit_def algebra_simps diff_divide_distrib)
qed
section \<open>Guessing tokens and codes\<close>

text \<open>One attempt to get in: a push request, or a pairing request with a code or a short code.\<close>

datatype guess = Bearer "string option" "string option" | Pairing "string option" "string option"

record attempt_ctx =
  at_from :: string
  at_now :: rat
  at_records :: "token_record list"

text \<open>The answer \<^const>\<open>True\<close>: the guess was looked at and found wrong.\<close>

fun attempt_step ::
  "(string \<Rightarrow> string) \<Rightarrow> string list \<Rightarrow> nat \<Rightarrow> attempt_ctx \<Rightarrow> guess \<Rightarrow> pairing_codes \<times> rate_limits
     \<Rightarrow> bool \<times> pairing_codes \<times> rate_limits" where
  "attempt_step sha own port c (Bearer origin authorization) (p, l) =
     (let (a, l) = authenticatePush sha (at_records c) own origin authorization port (at_from c) (at_now c) (at_now c) l
      in (a = Unauthorized, p, l))"
| "attempt_step sha own port c (Pairing code short) (p, l) =
     (let (a, pl) = deck_pair code short (at_from c) (at_records c) (at_now c) (p, l)
      in (a = Pair_wrong \<or> a = Pair_gone, pl))"

fun attempt_run ::
  "(string \<Rightarrow> string) \<Rightarrow> string list \<Rightarrow> nat \<Rightarrow> (attempt_ctx \<times> guess) list \<Rightarrow> pairing_codes \<times> rate_limits
     \<Rightarrow> (string \<times> bool) list \<times> pairing_codes \<times> rate_limits" where
  "attempt_run sha own port [] s = ([], s)"
| "attempt_run sha own port ((c, a) # xs) s =
     (let (wrong, s) = attempt_step sha own port c a s; (rs, s) = attempt_run sha own port xs s
      in ((at_from c, wrong) # rs, s))"

definition fail_ok :: "string set \<Rightarrow> rat \<Rightarrow> rate_limits \<Rightarrow> bool" where
  "fail_ok K now l \<longleftrightarrow> buckets_ok FAIL_CAPACITY now K (rl_failed l)"

abbreviation (input) guesses :: "rat \<Rightarrow> rate_limits \<Rightarrow> string \<Rightarrow> rat" where
  "guesses t0 l r \<equiv> key_credit FAIL_CAPACITY FAIL_REFILL_PER_S t0 (rl_failed l) r"

text \<open>The address may try again: its bucket has been refilled and holds a token.\<close>

definition may_guess :: "rat \<Rightarrow> rate_limits \<Rightarrow> string \<Rightarrow> bool" where
  "may_guess now l r \<longleftrightarrow>
     (case map_of (rl_failed l) r of None \<Rightarrow> True | Some b \<Rightarrow> bk_last b = now \<and> 1 \<le> bk_tokens b)"

lemma checkFailedAuth_step:
  assumes ok: "fail_ok K now l" and r: "checkFailedAuth r now l = (w, l')"
  shows "fail_ok K now l'" "guesses t0 l' k \<le> guesses t0 l k" "0 \<le> w" "w = 0 \<Longrightarrow> may_guess now l' r"
proof -
  have a: "fail_ok K now l' \<and> guesses t0 l' k \<le> guesses t0 l k \<and> 0 \<le> w \<and> (w = 0 \<longrightarrow> may_guess now l' r)"
  proof (cases "map_of (rl_failed l) r")
    case None
    then show ?thesis using assms by (simp add: checkFailedAuth_def may_guess_def)
  next
    case (Some b)
    define b' where "b' = refill FAIL_CAPACITY FAIL_REFILL_PER_S now b"
    have K: "r \<in> K" "bucket_ok FAIL_CAPACITY now b"
      using ok Some map_of_SomeD[OF Some] unfolding fail_ok_def buckets_ok_def by force+
    have b': "bucket_ok FAIL_CAPACITY now b'" "credit FAIL_REFILL_PER_S b' \<le> credit FAIL_REFILL_PER_S b" "bk_last b' = now"
      using refill_ok[OF K(2), of FAIL_REFILL_PER_S] refill_credit[of FAIL_REFILL_PER_S FAIL_CAPACITY now b]
      by (simp_all add: b'_def refill_def[of _ _ _ b, THEN arg_cong[of _ _ bk_last]])
    have l': "l' = l\<lparr>rl_failed := AList.update r b' (rl_failed l)\<rparr>" "w = bucket_wait FAIL_REFILL_PER_S b'"
      using r by (simp_all add: checkFailedAuth_def Some wait_token_def Let_def b'_def)
    have k: "key_credit FAIL_CAPACITY FAIL_REFILL_PER_S t0 (rl_failed l) r = credit FAIL_REFILL_PER_S b"
      by (simp add: key_credit_def Some)
    show ?thesis
      using ok b' K(1) k
      by (auto simp: l' fail_ok_def key_credit_update may_guess_def update_conv' bucket_wait_zero
          intro: buckets_ok_update)
  qed
  then show "fail_ok K now l'" "guesses t0 l' k \<le> guesses t0 l k" "0 \<le> w" "w = 0 \<Longrightarrow> may_guess now l' r" by blast+
qed

lemma noteFailedAuth_step:
  assumes ok: "fail_ok K now l" and K: "r \<in> K" "finite K" "card K \<le> 256" "t0 \<le> now" and g: "may_guess now l r"
  shows "fail_ok K now (noteFailedAuth r now l)"
    "(if k = r then 1 else 0) + guesses t0 (noteFailedAuth r now l) k \<le> guesses t0 l k"
proof -
  define b where "b = (case map_of (rl_failed l) r of Some b \<Rightarrow> b | None \<Rightarrow> new_bucket FAIL_CAPACITY now)"
  obtain w b' where t: "take_token FAIL_CAPACITY FAIL_REFILL_PER_S now b = (w, b')" by force
  have m: "(case map_of (rl_failed l) r of Some b \<Rightarrow> (rl_failed l, b)
      | None \<Rightarrow> (if FAIL_MAP_MAX \<le> length (rl_failed l) then prune_failed now (rl_failed l) else rl_failed l,
                 new_bucket FAIL_CAPACITY now)) = (rl_failed l, b)"
    using buckets_ok_size[of FAIL_CAPACITY now K "rl_failed l" r] ok K
    by (auto simp: b_def fail_ok_def split: option.splits)
  have n: "noteFailedAuth r now l = l\<lparr>rl_failed := AList.update r b' (rl_failed l)\<rparr>"
    unfolding noteFailedAuth_def m by (simp add: t[simplified])
  have b: "bucket_ok FAIL_CAPACITY now b"
    "credit FAIL_REFILL_PER_S b \<le> key_credit FAIL_CAPACITY FAIL_REFILL_PER_S t0 (rl_failed l) r"
    using bucket_of_ok[of FAIL_CAPACITY now K "rl_failed l" r] ok
      bucket_of_credit[OF K(4), where perSec = FAIL_REFILL_PER_S and m = "rl_failed l" and k = r and capacity = FAIL_CAPACITY]
    by (simp_all add: b_def fail_ok_def)
  note tk = take_token_ok[OF b(1) _ t, simplified]
  have "bk_last b = now \<and> 1 \<le> bk_tokens b"
    using g by (auto simp: b_def may_guess_def new_bucket_def split: option.splits)
  then have "refill FAIL_CAPACITY FAIL_REFILL_PER_S now b = b" "1 \<le> bk_tokens b"
    using b(1) by (auto simp: bucket_ok_def intro!: refill_again)
  then have "w = 0" using t by (auto simp: take_token_def Let_def bucket_wait_zero)
  then show "fail_ok K now (noteFailedAuth r now l)"
    "(if k = r then 1 else 0) + guesses t0 (noteFailedAuth r now l) k \<le> guesses t0 l k"
    using ok tk b(2) K(1) by (auto simp: n fail_ok_def key_credit_update intro: buckets_ok_update)
qed

text \<open>Either way an attempt checks the address first, and counts a wrong guess.\<close>

lemma attempt_shape:
  assumes "attempt_step sha own port c a (p, l) = (wrong, p', l')"
  obtains "\<not> wrong" "l' = l"
  | w l1 where "checkFailedAuth (at_from c) (at_now c) l = (w, l1)" "wrong \<Longrightarrow> w = 0"
      "l' = (if wrong then noteFailedAuth (at_from c) (at_now c) l1 else l1)" "0 \<le> w"
proof -
  obtain w l1 where w: "checkFailedAuth (at_from c) (at_now c) l = (w, l1)" by force
  then have w0: "0 \<le> w"
    by (auto simp: checkFailedAuth_def wait_token_def Let_def bucket_wait_zero split: option.splits)
  have "\<not> wrong \<and> l' = l \<or> (wrong \<longrightarrow> w = 0) \<and> l' = (if wrong then noteFailedAuth (at_from c) (at_now c) l1 else l1)"
  proof (cases a)
    case (Bearer origin authorization)
    then show ?thesis using assms w w0
      by (auto simp: authenticatePush_def auth_begin_def auth_finish_def split: option.splits prod.splits if_splits sum.splits)
  next
    case (Pairing code short)
    then show ?thesis using assms w w0
      by (auto simp: deck_pair_def Let_def split: consume_result.splits prod.splits if_splits)
  qed
  then show thesis using that w w0 by blast
qed
lemma attempt_run_bounded:
  "fail_ok K t (snd s) \<Longrightarrow> sorted (t # map (at_now \<circ> fst) xs) \<Longrightarrow> t0 \<le> t \<Longrightarrow> (at_from \<circ> fst) ` set xs \<subseteq> K \<Longrightarrow>
   finite K \<Longrightarrow> card K \<le> 256 \<Longrightarrow> attempt_run sha own port xs s = (rs, s') \<Longrightarrow>
   fail_ok K (last (t # map (at_now \<circ> fst) xs)) (snd s')
   \<and> of_nat (allowed (\<lambda>r. r = k) rs) + guesses t0 (snd s') k \<le> guesses t0 (snd s) k"
proof (induction xs arbitrary: t s rs s')
  case (Cons x xs)
  obtain c a where x: "x = (c, a)" by force
  obtain p l where s: "s = (p, l)" by force
  obtain wrong p1 l1 where w: "attempt_step sha own port c a (p, l) = (wrong, p1, l1)" by (metis prod_cases3)
  obtain rs1 where r: "attempt_run sha own port xs (p1, l1) = (rs1, s')" "rs = (at_from c, wrong) # rs1"
    using Cons.prems(7) by (auto simp: x w s split: prod.splits)
  let ?now = "at_now c"
  have ord: "t \<le> ?now" "t0 \<le> ?now" "sorted (?now # map (at_now \<circ> fst) xs)" using Cons.prems(2,3) by (auto simp: x comp_def)
  have K: "at_from c \<in> K" "(at_from \<circ> fst) ` set xs \<subseteq> K" using Cons.prems(4) by (auto simp: x)
  have l: "fail_ok K ?now l"
    using Cons.prems(1) ord(1) buckets_ok_later unfolding fail_ok_def s snd_conv by blast
  have st: "fail_ok K ?now l1 \<and> (if wrong \<and> at_from c = k then 1 else 0) + guesses t0 l1 k \<le> guesses t0 l k"
  proof (rule attempt_shape[OF w])
    assume "\<not> wrong" "l1 = l"
    then show ?thesis using l by simp
  next
    fix v l2
    assume v: "checkFailedAuth (at_from c) ?now l = (v, l2)" "wrong \<Longrightarrow> v = 0"
      "l1 = (if wrong then noteFailedAuth (at_from c) ?now l2 else l2)" "0 \<le> v"
    note ch = checkFailedAuth_step[OF l v(1)]
    show ?thesis
    proof (cases wrong)
      case True
      have n: "fail_ok K ?now l1" "(if k = at_from c then 1 else 0) + guesses t0 l1 k \<le> guesses t0 l2 k"
        using noteFailedAuth_step[OF ch(1) K(1) Cons.prems(5,6) ord(2) ch(4)[OF v(2)[OF True]]] v(3) True by simp_all
      then show ?thesis using order_trans[OF n(2) ch(2)] True by (simp add: eq_commute[of k])
    next
      case False
      then show ?thesis using ch(1,2) v(3) by simp
    qed
  qed
  then have l1: "fail_ok K ?now (snd (p1, l1))" by simp
  note ih = Cons.IH[OF l1 ord(3,2) K(2) Cons.prems(5,6) r(1)]
  have "allowed (\<lambda>r. r = k) rs = (if wrong \<and> at_from c = k then 1 else 0) + allowed (\<lambda>r. r = k) rs1" by (simp add: r(2))
  then show ?case using ih st by (cases "wrong \<and> at_from c = k") (auto simp: x s)
qed simp


text \<open>
  The throttle counts a guess only after the hash of the token has been computed: a request begun
  before the first failure of its address has been counted passes the check, and its guess is
  answered whatever the limits have become, so that of requests sent together all are looked at.
\<close>

lemma parallel_guesses_unthrottled:
  assumes "map_of (rl_failed l) r = None" "bearer_token a = Some t" "findPushToken sha records t = None"
  shows "auth_begin own None (Some a) port r now l = (Inr t, l)"
    "fst (auth_finish sha records r now' t l') = Unauthorized"
  using assms by (simp_all add: auth_begin_def auth_finish_def checkFailedAuth_def)

section \<open>Pairing\<close>

datatype pairing_op = Create string string | Consume "string option" "string option" | Cancel | Pending

fun pairing_step :: "pairing_op \<Rightarrow> rat \<Rightarrow> pairing_codes \<Rightarrow> consume_result option \<times> pairing_codes" where
  "pairing_step (Create code short) now p = (None, pairing_create code short now p)"
| "pairing_step (Consume code short) now p = map_prod Some id (pairing_consume code short now p)"
| "pairing_step Cancel now p = (None, pairing_cancel p)"
| "pairing_step Pending now p = (None, snd (pairing_pending now p))"

fun pairing_run :: "(pairing_op \<times> rat) list \<Rightarrow> pairing_codes \<Rightarrow> consume_result option list" where
  "pairing_run [] p = []"
| "pairing_run ((op, now) # ops) p = (let (r, p) = pairing_step op now p in r # pairing_run ops p)"

lemma no_pairing_run:
  "pc_current p = None \<Longrightarrow> \<forall>x \<in> set ops. \<not> (\<exists>c s. fst x = Create c s) \<Longrightarrow>
   set (pairing_run ops p) \<subseteq> {None, Some C_none}"
proof (induction ops arbitrary: p)
  case (Cons x ops)
  obtain op now where x: "x = (op, now)" by force
  obtain r p1 where st: "pairing_step op now p = (r, p1)" by force
  have "pc_current p1 = None" "r \<in> {None, Some C_none}"
    using Cons.prems st by (cases op; auto simp: x pairing_consume_def pairing_cancel_def pairing_pending_def)+
  moreover have "set (pairing_run ops p1) \<subseteq> {None, Some C_none}"
    using Cons.IH[OF calculation(1)] Cons.prems(2) by simp
  ultimately show ?case by (simp add: x st)
qed simp

text \<open>A pairing with some guesses wrong already: what a run without another creation can still do.\<close>

lemma pending_pairing_run:
  assumes "pc_current p = Some cur" "pc_fails p < 5" "\<forall>x \<in> set ops. \<not> (\<exists>c s. fst x = Create c s)"
  shows "count_list (pairing_run ops p) (Some C_invalid) + pc_fails p \<le> 5
    \<and> count_list (pairing_run ops p) (Some C_ok) \<le> 1
    \<and> (\<forall>i < length ops. pairing_run ops p ! i = Some C_ok \<longrightarrow>
        (\<exists>c s now. ops ! i = (Consume c s, now) \<and> (c = Some (pp_code cur) \<or> s = Some (pp_shortCode cur)) \<and> now \<le> pp_expiresAt cur))"
  using assms
proof (induction ops arbitrary: p)
  case (Cons x ops)
  obtain op now where x: "x = (op, now)" by force
  obtain r p1 where st: "pairing_step op now p = (r, p1)" by force
  have op: "\<And>c s. op \<noteq> Create c s" and rest: "\<forall>x \<in> set ops. \<not> (\<exists>c s. fst x = Create c s)"
    using Cons.prems(3) by (auto simp: x)
  have run: "pairing_run (x # ops) p = r # pairing_run ops p1" by (simp add: x st)
  show ?case
  proof (cases "pc_current p1")
    case None
    note z = no_pairing_run[OF None rest]
    then have "count_list (pairing_run ops p1) (Some C_invalid) = 0" "count_list (pairing_run ops p1) (Some C_ok) = 0"
      by (auto simp: count_list_0_iff)
    moreover have "pairing_run ops p1 ! i \<noteq> Some C_ok" if "i < length (pairing_run ops p1)" for i
      using z nth_mem[OF that] by auto
    moreover have "length (pairing_run ops p1) = length ops"
      by (induction ops arbitrary: p1) (auto simp: split: prod.splits)
    moreover have "r = Some C_ok \<Longrightarrow> \<exists>c s. op = Consume c s \<and> (c = Some (pp_code cur) \<or> s = Some (pp_shortCode cur)) \<and> now \<le> pp_expiresAt cur"
      using st op Cons.prems(1)
      by (cases op) (auto simp: pairing_consume_def code_matches_def Let_def split: if_splits option.splits)
    ultimately show ?thesis
      unfolding run using Cons.prems(2) by (auto simp: x nth_Cons split: nat.splits)
  next
    case (Some cur')
    have s: "cur' = cur" "pc_fails p1 < 5" "r \<noteq> Some C_ok" "(if r = Some C_invalid then 1 else 0) + pc_fails p = pc_fails p1"
      using Some st op Cons.prems(1,2)
      by (cases op; auto simp: pairing_consume_def pairing_cancel_def pairing_pending_def Let_def split: if_splits)+
    note ih = Cons.IH[OF Some[unfolded s(1)] s(2) rest]
    then show ?thesis
      unfolding run using s(3,4) by (auto simp: x nth_Cons split: nat.splits if_splits)
  qed
qed simp

text \<open>C34. A pairing is good for one browser and five wrong guesses: until the next is created, at most
  one attempt is accepted, with one of its two codes and within five minutes, and at most five are
  answered as wrong.\<close>

theorem pairing_used_once:
  assumes "\<forall>x \<in> set ops. \<not> (\<exists>c s. fst x = Create c s)"
  shows "count_list (pairing_run ops (pairing_create code short t0 p)) (Some C_invalid) \<le> 5
    \<and> count_list (pairing_run ops (pairing_create code short t0 p)) (Some C_ok) \<le> 1
    \<and> (\<forall>i < length ops. pairing_run ops (pairing_create code short t0 p) ! i = Some C_ok \<longrightarrow>
        (\<exists>c s now. ops ! i = (Consume c s, now) \<and> (c = Some code \<or> s = Some short) \<and> now \<le> t0 + 300000))"
  using pending_pairing_run[of "pairing_create code short t0 p" _ ops, OF _ _ assms]
  by (simp add: pairing_create_def)
section \<open>The token store\<close>

text \<open>A push is accepted exactly for a stored token with the push scope, from no foreign page.\<close>

lemma push_accepted_iff:
  assumes "distinct (map tr_hash records)" "checkFailedAuth remote now l = (0, l1)"
  shows "fst (authenticatePush sha records own origin authorization port remote now now' l) = Auth_ok i \<longleftrightarrow>
    (\<forall>o'. origin = Some o' \<longrightarrow> isAllowedOrigin own o' port)
    \<and> (\<exists>a t r. authorization = Some a \<and> bearer_token a = Some t \<and> r \<in> set records
        \<and> tr_hash r = sha t \<and> Scope_push \<in> set (tr_scopes r) \<and> tr_id r = i)"
proof -
  have find: "findPushToken sha records t = Some r \<longleftrightarrow> r \<in> set records \<and> tr_hash r = sha t" for t r
  proof
    assume r: "r \<in> set records \<and> tr_hash r = sha t"
    then have "sha t \<in> tr_hash ` set records" by (metis imageI)
    then obtain r' where r': "findPushToken sha records t = Some r'"
      using findPushToken_None[of sha records t] by blast
    then have "r' = r" using findPushToken_Some[OF r'] r assms(1) by (auto simp: distinct_map inj_on_def)
    then show "findPushToken sha records t = Some r" using r' by simp
  qed (use findPushToken_Some in blast)
  have empty: "bearer_token [] = None" by (simp add: bearer_token_def)
  note defs = authenticatePush_def auth_begin_def auth_finish_def assms(2)
  show ?thesis
  proof (cases "Option.bind authorization bearer_token")
    case None
    then show ?thesis by (cases authorization) (auto simp: defs empty split: option.splits)
  next
    case (Some t)
    then obtain a where a: "authorization = Some a" "bearer_token a = Some t" by (auto simp: bind_eq_Some_conv)
    show ?thesis
    proof (cases "findPushToken sha records t")
      case None
      then have "\<forall>r. \<not> (r \<in> set records \<and> tr_hash r = sha t)" using find by (metis option.distinct(1))
      then show ?thesis using None a by (auto simp: defs split: option.splits)
    next
      case (Some r0)
      then have "\<forall>r. r \<in> set records \<and> tr_hash r = sha t \<longleftrightarrow> r = r0" using find by (metis option.inject)
      then show ?thesis using Some a by (auto simp: defs split: option.splits)
    qed
  qed
qed

text \<open>After a revocation no token finds the record, whatever runs later and adds no record of its id.\<close>

lemma revoked_not_found:
  "revokeToken tid records = Inr records' \<Longrightarrow> findPushToken sha records' t = Some r \<Longrightarrow> tr_id r \<noteq> tid"
  using findPushToken_Some(1)[of sha records' t r] by (auto simp: revokeToken_def split: if_splits)

lemma rotated_not_found:
  assumes "findPushToken sha (rotateToken_finish tid new records) t = Some r" "tr_id r = tid" "tr_id new = tid"
  shows "r = new"
  using findPushToken_Some(1)[OF assms(1)] assms(2,3) by (auto simp: rotateToken_finish_def split: if_splits)

text \<open>
  \<^verbatim>\<open>createToken\<close> counts the tokens before it awaits the hash: two creations that overlap both pass
  the check and the store holds one token more than allowed.
\<close>

lemma tokens_beyond_max:
  assumes "length records = 15" "0 < length name" "length name \<le> 40"
  shows "createToken_check (Some name) records = None"
    "length (createToken_finish b (createToken_finish a records)) = 17"
  using assms by (auto simp: createToken_check_def createToken_finish_def)
section \<open>Codes\<close>

lemma short_code_limit: "SHORT_CODE_LIMIT = 4294 * SHORT_CODE_SPACE"
  by (simp add: SHORT_CODE_LIMIT_def)

lemma decimal_inj: "decimal m = decimal n \<Longrightarrow> m = n"
proof (induction m arbitrary: n rule: decimal.induct)
  case (1 m)
  have char: "char_of (48 + a) = (char_of (48 + b) :: char) \<Longrightarrow> a < 10 \<Longrightarrow> b < 10 \<Longrightarrow> a = b" for a b :: nat
    by (drule arg_cong[of _ _ "of_char :: char \<Rightarrow> nat"]) simp
  have ne: "decimal k \<noteq> []" for k by (subst decimal.simps) simp
  show ?case
  proof (cases "m < 10"; cases "n < 10")
    assume "m < 10" "n < 10"
    then show ?thesis using 1(2) char[of m n] by (simp add: decimal.simps[of m] decimal.simps[of n])
  next
    assume "\<not> m < 10" "\<not> n < 10"
    then have "decimal (m div 10) = decimal (n div 10)" "m mod 10 = n mod 10"
      using 1(2) char[of "m mod 10" "n mod 10"] by (simp_all add: decimal.simps[of m] decimal.simps[of n])
    then show ?thesis using 1(1)[OF \<open>\<not> m < 10\<close>] by (metis div_mult_mod_eq)
  qed (use 1(2) ne in \<open>auto simp: decimal.simps[of m] decimal.simps[of n] append_eq_Cons_conv Cons_eq_append_conv\<close>)
qed

lemma decimal_length: "n < 10 ^ k \<Longrightarrow> 0 < k \<Longrightarrow> length (decimal n) \<le> k"
proof (induction n arbitrary: k rule: decimal.induct)
  case (1 n)
  show ?case
  proof (cases "n < 10")
    case False
    then obtain j where j: "k = Suc j" "0 < j" using 1(2,3) by (cases k; cases "k - 1") auto
    then have "n div 10 < 10 ^ j" using 1(2) by (simp add: less_mult_imp_div_less mult.commute)
    from 1(1)[OF False this j(2)] show ?thesis using False j by (simp add: decimal.simps[of n])
  qed (use 1(3) in \<open>simp add: decimal.simps[of n]\<close>)
qed

lemma decimal_leading: "0 < n \<Longrightarrow> hd (decimal n) \<noteq> CHR ''0''"
proof (induction n rule: decimal.induct)
  case (1 n)
  have ne: "decimal k \<noteq> []" for k by (subst decimal.simps) simp
  show ?case
  proof (cases "n < 10")
    case True
    have "char_of (48 + n) \<noteq> CHR ''0''"
    proof
      assume "char_of (48 + n) = CHR ''0''"
      from arg_cong[OF this, of "of_char :: char \<Rightarrow> nat"] show False using True 1(2) by simp
    qed
    then show ?thesis using True by (simp add: decimal.simps[of n])
  qed (use 1 ne in \<open>simp add: decimal.simps[of n] hd_append\<close>)
qed

text \<open>Padding with zeros on the left loses nothing: a number is its code without the leading zeros.\<close>

lemma padStart6_inj:
  assumes "padStart6 (decimal m) = padStart6 (decimal n)"
  shows "m = n"
proof -
  have ne: "decimal k \<noteq> []" for k by (subst decimal.simps) simp
  have strip: "dropWhile (\<lambda>c. c = CHR ''0'') (padStart6 (decimal k)) = (if k = 0 then [] else decimal k)" for k
  proof -
    have "dropWhile (\<lambda>c. c = CHR ''0'') (replicate i (CHR ''0'') @ xs) = dropWhile (\<lambda>c. c = CHR ''0'') xs" for i xs
      by (induction i) auto
    moreover have "dropWhile (\<lambda>c. c = CHR ''0'') (decimal k) = (if k = 0 then [] else decimal k)"
    proof (cases "k = 0")
      case False
      then show ?thesis using decimal_leading[of k] ne[of k] by (cases "decimal k") auto
    next
      case True
      have "(of_char (CHR ''0'') :: nat) = 48" by simp
      then have "char_of (48 :: nat) = CHR ''0''" by (metis char_of_char)
      then show ?thesis using True by (simp add: decimal.simps[of 0])
    qed
    ultimately show ?thesis by (simp add: padStart6_def)
  qed
  have "(if m = 0 then [] else decimal m) = (if n = 0 then [] else decimal n)"
    unfolding strip[symmetric] assms ..
  then show ?thesis using ne[of m] ne[of n] decimal_inj[of m n] by (auto split: if_splits)
qed

lemma unat_word_of_small: "n < 2 ^ 32 \<Longrightarrow> unat (word_of_nat n :: 32 word) = n"
  by (simp add: unsigned_of_nat take_bit_nat_eq_self_iff)

text \<open>The short code is fair: it has six digits, and every code comes from exactly 4294 of the words
  the generator can return.\<close>

theorem short_code_uniform:
  assumes "d < 1000000"
  shows "card {w. randomShortCode [w] = Some (padStart6 (decimal d))} = 4294 \<and> length (padStart6 (decimal d)) = 6"
proof
  have "{w. randomShortCode [w] = Some (padStart6 (decimal d))} = {w. unat w < SHORT_CODE_LIMIT \<and> unat w mod SHORT_CODE_SPACE = d}"
    using padStart6_inj by (auto split: if_splits)
  also have "\<dots> = (\<lambda>k. word_of_nat (k * SHORT_CODE_SPACE + d)) ` {0..<4294}"
  proof (intro equalityI subsetI)
    fix w :: "32 word"
    assume w: "w \<in> {w. unat w < SHORT_CODE_LIMIT \<and> unat w mod SHORT_CODE_SPACE = d}"
    then have "unat w div SHORT_CODE_SPACE < 4294" by (simp add: short_code_limit less_mult_imp_div_less)
    moreover have "w = word_of_nat (unat w div SHORT_CODE_SPACE * SHORT_CODE_SPACE + d)"
    proof -
      have "unat w div SHORT_CODE_SPACE * SHORT_CODE_SPACE + d = unat w"
        using w div_mult_mod_eq[of "unat w" SHORT_CODE_SPACE] by simp
      then show ?thesis by simp
    qed
    ultimately show "w \<in> (\<lambda>k. word_of_nat (k * SHORT_CODE_SPACE + d)) ` {0..<4294}" by (intro image_eqI) auto
  next
    fix w :: "32 word"
    assume "w \<in> (\<lambda>k. word_of_nat (k * SHORT_CODE_SPACE + d)) ` {0..<4294}"
    then obtain k where k: "k < 4294" "w = word_of_nat (k * SHORT_CODE_SPACE + d)" by auto
    have "k * SHORT_CODE_SPACE + d < 4294 * SHORT_CODE_SPACE" using k(1) assms by simp
    then have "unat w = k * SHORT_CODE_SPACE + d"
      unfolding k(2) by (intro unat_word_of_small) simp
    then show "w \<in> {w. unat w < SHORT_CODE_LIMIT \<and> unat w mod SHORT_CODE_SPACE = d}"
      using k(1) assms by (simp add: short_code_limit)
  qed
  also have "card \<dots> = 4294"
  proof (subst card_image)
    show "inj_on (\<lambda>k. word_of_nat (k * SHORT_CODE_SPACE + d) :: 32 word) {0..<4294}"
    proof (rule inj_onI)
      fix j k :: nat
      assume jk: "j \<in> {0..<4294}" "k \<in> {0..<4294}"
        "word_of_nat (j * SHORT_CODE_SPACE + d) = (word_of_nat (k * SHORT_CODE_SPACE + d) :: 32 word)"
      have u: "unat (word_of_nat (i * SHORT_CODE_SPACE + d) :: 32 word) = i * SHORT_CODE_SPACE + d" if "i < 4294" for i
        using that assms by (intro unat_word_of_small) simp
      have "j < 4294" "k < 4294" using jk(1,2) by simp_all
      then have "j * SHORT_CODE_SPACE + d = k * SHORT_CODE_SPACE + d"
        using arg_cong[OF jk(3), of unat] by (simp only: u)
      then show "j = k" by simp
    qed
  qed simp
  finally show "card {w. randomShortCode [w] = Some (padStart6 (decimal d))} = 4294" .
  have "length (decimal d) \<le> 6" using assms by (intro decimal_length) auto
  then show "length (padStart6 (decimal d)) = 6" by (simp add: padStart6_def)
qed
text \<open>The bytes as one number, and the characters as its digits to the base 32 from the top.\<close>

definition bytes_number :: "8 word list \<Rightarrow> nat" where
  "bytes_number bs = foldl (\<lambda>n b. n * 256 + unat b) 0 bs"

definition base32_digits :: "nat \<Rightarrow> nat \<Rightarrow> nat list" where
  "base32_digits T n = map (\<lambda>j. n div 2 ^ (T - 5 * (j + 1)) mod 32) [0..<T div 5]"

lemma bytes_number_snoc [simp]: "bytes_number (bs @ [b]) = bytes_number bs * 256 + unat b"
  by (simp add: bytes_number_def)

lemma emit_digit:
  assumes "k + 5 \<le> 32"
  shows "unat (and (drop_bit k (word_of_nat n :: 32 word)) 31) = n div 2 ^ k mod 32"
proof -
  have "and (drop_bit k (word_of_nat n :: 32 word)) 31 = take_bit 5 (drop_bit k (word_of_nat n))"
    by (simp add: take_bit_eq_mask mask_eq_exp_minus_1)
  then have "unat (and (drop_bit k (word_of_nat n :: 32 word)) 31) = take_bit 5 (drop_bit k (take_bit 32 n))"
    by (simp add: unsigned_take_bit_eq unsigned_drop_bit_eq unsigned_of_nat)
  also have "\<dots> = take_bit 5 (drop_bit k n)"
    using assms by (intro bit_eqI) (auto simp: bit_simps)
  finally show ?thesis by (simp add: take_bit_eq_mod drop_bit_eq_div)
qed

lemma base32_emit_digits:
  "bits \<le> 32 \<Longrightarrow> base32_emit bits (word_of_nat n) out
   = (bits mod 5, out @ map (\<lambda>d. BASE32 ! d) (base32_digits bits n))"
proof (induction bits "word_of_nat n :: 32 word" out rule: base32_emit.induct)
  case (1 bits out)
  show ?case
  proof (cases "bits < 5")
    case False
    then obtain k where k: "bits = k + 5" using le_Suc_ex[of 5 bits] by (auto simp: add.commute)
    have "base32_digits bits n = n div 2 ^ k mod 32 # base32_digits k n"
    proof -
      have "[0..<bits div 5] = 0 # map Suc [0..<k div 5]" by (simp add: k upt_conv_Cons map_Suc_upt)
      then show ?thesis by (simp add: base32_digits_def k)
    qed
    then show ?thesis
      using 1(1)[OF False] 1(2) False unfolding k by (subst base32_emit.simps) (simp add: emit_digit)
  qed (simp add: base32_emit.simps[of bits] base32_digits_def)
qed

lemma acc_step:
  "or (push_bit 8 (word_of_nat n)) (ucast (b :: 8 word)) = (word_of_nat (n * 256 + unat b) :: 32 word)"
proof -
  have "or (push_bit 8 (word_of_nat n)) (ucast b :: 32 word) = push_bit 8 (word_of_nat n) + ucast b"
    by (rule disjunctive_add[symmetric]) (auto simp: bit_simps dest: bit_imp_le_length)
  also have "\<dots> = word_of_nat (n * 256 + unat b)"
    by (simp add: push_bit_eq_mult)
  finally show ?thesis .
qed

lemma digits_snoc:
  assumes "b < 256"
  shows "base32_digits (T + 8) (n * 256 + b) = base32_digits T n @ base32_digits (T mod 5 + 8) (n * 256 + b)"
proof -
  let ?m = "n * 256 + b"
  have split: "(T + 8) div 5 = T div 5 + (T mod 5 + 8) div 5" by presburger
  have top: "?m div 2 ^ (T + 8 - 5 * (j + 1)) mod 32 = n div 2 ^ (T - 5 * (j + 1)) mod 32" if "j < T div 5" for j
  proof -
    have "T + 8 - 5 * (j + 1) = 8 + (T - 5 * (j + 1))" using that by presburger
    moreover have "?m div 2 ^ 8 = n" using assms by simp
    ultimately show ?thesis by (simp only: power_add div_mult2_eq)
  qed
  have low: "T + 8 - 5 * (T div 5 + j + 1) = T mod 5 + 8 - 5 * (j + 1)" for j by presburger
  have shift: "map f [a..<a + k] = map (\<lambda>i. f (a + i)) [0..<k]" for f :: "nat \<Rightarrow> nat" and a k
    by (rule nth_equalityI) auto
  have "map (\<lambda>j. ?m div 2 ^ (T + 8 - 5 * (j + 1)) mod 32) [0..<T div 5]
      = map (\<lambda>j. n div 2 ^ (T - 5 * (j + 1)) mod 32) [0..<T div 5]"
    by (rule map_cong[OF refl], rule top) simp
  then show ?thesis
    unfolding base32_digits_def split upt_add_eq_append[OF le0] map_append shift low by (rule arg_cong)
qed

lemma base32_fold:
  "fold base32_byte bs (0, 0, [])
   = (8 * length bs mod 5, word_of_nat (bytes_number bs), map (\<lambda>d. BASE32 ! d) (base32_digits (8 * length bs) (bytes_number bs)))"
proof (induction bs rule: rev_induct)
  case Nil
  show ?case by (simp add: bytes_number_def base32_digits_def)
next
  case (snoc b bs)
  have b: "unat b < 256" using unsigned_less[of b] by simp
  define M where "M = bytes_number bs * 256 + unat b"
  let ?out = "map (\<lambda>d. BASE32 ! d) (base32_digits (8 * length bs) (bytes_number bs))"
  have e: "base32_emit (8 * length bs mod 5 + 8) (word_of_nat M) ?out
      = ((8 * length bs mod 5 + 8) mod 5, ?out @ map (\<lambda>d. BASE32 ! d) (base32_digits (8 * length bs mod 5 + 8) M))"
  proof (rule base32_emit_digits)
    have "8 * length bs mod 5 < 5" by simp
    then show "8 * length bs mod 5 + 8 \<le> 32" by linarith
  qed
  have d: "base32_digits (8 * length (bs @ [b])) M
      = base32_digits (8 * length bs) (bytes_number bs) @ base32_digits (8 * length bs mod 5 + 8) M"
    using digits_snoc[OF b, of "8 * length bs" "bytes_number bs"] by (simp add: M_def add.commute)
  have m: "(8 * length bs mod 5 + 8) mod 5 = 8 * length (bs @ [b]) mod 5" by (simp add: mod_simps add.commute)
  have "fold base32_byte (bs @ [b]) (0, 0, []) = base32_byte b (fold base32_byte bs (0, 0, []))" by simp
  also have "\<dots> = (8 * length (bs @ [b]) mod 5, word_of_nat M, map (\<lambda>d. BASE32 ! d) (base32_digits (8 * length (bs @ [b])) M))"
    unfolding snoc base32_byte_def prod.case Let_def acc_step M_def[symmetric] e d m map_append ..
  finally show ?case unfolding bytes_number_snoc M_def .
qed

theorem randomBase32_digits:
  "randomBase32 bs = map (\<lambda>d. BASE32 ! d) (base32_digits (8 * length bs) (bytes_number bs))"
  by (simp add: randomBase32_def base32_fold)

lemma bytes_number_bound: "bytes_number bs < 2 ^ (8 * length bs)"
proof (induction bs rule: rev_induct)
  case (snoc b bs)
  have "unat b < 256" using unsigned_less[of b] by simp
  then show ?case using snoc by (simp add: power_add)
qed (simp add: bytes_number_def)

lemma bytes_number_inj: "length bs = length cs \<Longrightarrow> bytes_number bs = bytes_number cs \<Longrightarrow> bs = cs"
proof (induction bs arbitrary: cs rule: rev_induct)
  case (snoc b bs)
  obtain ds d where cs: "cs = ds @ [d]" "length ds = length bs"
    using snoc.prems(1) by (cases cs rule: rev_cases) auto
  have eq: "bytes_number bs * 256 + unat b = bytes_number ds * 256 + unat d" using snoc.prems(2) by (simp add: cs)
  have "unat b < 256" "unat d < 256" using unsigned_less[of b] unsigned_less[of d] by simp_all
  then have "bytes_number bs = bytes_number ds" "unat b = unat d"
    using arg_cong[OF eq, of "\<lambda>x. x div 256"] arg_cong[OF eq, of "\<lambda>x. x mod 256"] by simp_all
  then show ?case using snoc.IH[of ds] cs by (simp add: word_unat_eq_iff)
qed simp

lemma power5: "(2 :: nat) ^ 5 = 32"
  by simp

lemma digits_determine:
  assumes "base32_digits (5 * k) m = base32_digits (5 * k) n" "m < 2 ^ (5 * k)" "n < 2 ^ (5 * k)"
  shows "m = n"
proof (rule bit_eqI)
  fix i
  show "bit m i = bit n i"
  proof (cases "i < 5 * k")
    case True
    define j where "j = k - 1 - i div 5"
    have q: "i div 5 < k" using True by (simp add: less_mult_imp_div_less mult.commute)
    have "a < k \<Longrightarrow> 5 * k - 5 * (k - 1 - a + 1) = 5 * a" for a by (simp add: diff_mult_distrib2)
    then have "5 * k - 5 * (j + 1) = 5 * (i div 5)" unfolding j_def using q by blast
    then have j: "j < k" "5 * k - 5 * (j + 1) + i mod 5 = i" "i mod 5 < 5" using q by (simp_all add: j_def)
    have "m div 2 ^ (5 * k - 5 * (j + 1)) mod 32 = n div 2 ^ (5 * k - 5 * (j + 1)) mod 32"
      using arg_cong[OF assms(1), of "\<lambda>ds. ds ! j"] j(1) by (simp add: base32_digits_def)
    then have "m div 2 ^ (5 * k - 5 * (j + 1)) mod 2 ^ 5 = n div 2 ^ (5 * k - 5 * (j + 1)) mod 2 ^ 5" by (simp only: power5)
    then have "take_bit 5 (drop_bit (5 * k - 5 * (j + 1)) m) = take_bit 5 (drop_bit (5 * k - 5 * (j + 1)) n)"
      by (simp only: take_bit_eq_mod drop_bit_eq_div)
    then have "bit (take_bit 5 (drop_bit (5 * k - 5 * (j + 1)) m)) (i mod 5) = bit (take_bit 5 (drop_bit (5 * k - 5 * (j + 1)) n)) (i mod 5)"
      by simp
    then show ?thesis using j(2,3) by (simp only: bit_take_bit_iff bit_drop_bit_eq comp_def simp_thms)
  next
    case False
    have "take_bit (5 * k) m = m" "take_bit (5 * k) n = n" using assms(2,3) by (simp_all add: take_bit_nat_eq_self_iff)
    then have "bit m i = bit (take_bit (5 * k) m) i" "bit n i = bit (take_bit (5 * k) n) i" by simp_all
    then show ?thesis using False by (simp add: bit_take_bit_iff)
  qed
qed

text \<open>The long code of a pairing carries every random bit: twenty bytes give 32 characters of the
  alphabet, and different bytes give different codes.\<close>

theorem pairing_code_faithful:
  assumes "length bs = 20"
  shows "length (randomBase32 bs) = 32 \<and> set (randomBase32 bs) \<subseteq> set BASE32
    \<and> (\<forall>cs. length cs = 20 \<longrightarrow> randomBase32 cs = randomBase32 bs \<longrightarrow> cs = bs)"
proof (intro conjI allI impI)
  have alphabet: "distinct BASE32" "length BASE32 = 32" by (simp_all add: BASE32_def)
  have digit: "d < 32" if "d \<in> set (base32_digits T n)" for d T n using that by (auto simp: base32_digits_def)
  show "length (randomBase32 bs) = 32" by (simp add: randomBase32_digits base32_digits_def assms)
  show "set (randomBase32 bs) \<subseteq> set BASE32"
    using digit alphabet(2) by (force simp: randomBase32_digits)
  fix cs :: "8 word list"
  assume cs: "length cs = 20" "randomBase32 cs = randomBase32 bs"
  have "base32_digits 160 (bytes_number cs) = base32_digits 160 (bytes_number bs)"
  proof (rule map_inj_on)
    show "map (\<lambda>d. BASE32 ! d) (base32_digits 160 (bytes_number cs)) = map (\<lambda>d. BASE32 ! d) (base32_digits 160 (bytes_number bs))"
      using cs by (simp add: randomBase32_digits assms)
    show "inj_on (\<lambda>d. BASE32 ! d) (set (base32_digits 160 (bytes_number cs)) \<union> set (base32_digits 160 (bytes_number bs)))"
      using digit alphabet by (auto intro!: inj_onI simp: nth_eq_iff_index_eq)
  qed
  then have "bytes_number cs = bytes_number bs"
    using digits_determine[of 32 "bytes_number cs" "bytes_number bs"] bytes_number_bound[of cs] bytes_number_bound[of bs] cs(1) assms
    by simp
  then show "cs = bs" by (intro bytes_number_inj) (simp_all add: cs(1) assms)
qed
section \<open>Concrete runs\<close>

definition two_guesses :: "(attempt_ctx \<times> guess) list" where
  "two_guesses =
     [(\<lparr> at_from = ''192.168.1.9'', at_now = 0, at_records = [] \<rparr>, Bearer None (Some ''Bearer dbp_x'')),
      (\<lparr> at_from = ''192.168.1.9'', at_now = 6000, at_records = [] \<rparr>, Pairing None (Some ''123456''))]"


lemma pairing_used_once_witness:
  "count_list (pairing_run [(Consume None (Some ''1''), 5), (Consume None (Some ''2''), 6), (Consume None (Some ''2''), 7)]
      (pairing_create ''AB'' ''2'' 0 no_pairing)) (Some C_ok) \<le> 1"
  using pairing_used_once[of "[(Consume None (Some ''1''), 5), (Consume None (Some ''2''), 6), (Consume None (Some ''2''), 7)]"
      "''AB''" "''2''" 0 no_pairing]
  by simp

end
