(* ===== verification/Deck_Hub.thy ===== *)
theory Deck_Hub
  imports Acts Access_Tokens
begin

text \<open>
  The browser deck: a page in a browser that shows the keys of a dock and presses them
  (\<^verbatim>\<open>web/server/virtual-deck/\<close>).  \<open>held_down\<close> and \<open>held_up\<close> are \<^verbatim>\<open>held-keys.ts\<close>, \<open>frame_queue\<close> is
  \<^verbatim>\<open>frame-queue.ts\<close>, \<open>sample\<close>, \<open>lateness\<close> and the percentiles are \<^verbatim>\<open>input-freshness.ts\<close>,
  \<open>parseDeckClientMsg\<close> is \<^verbatim>\<open>deck-messages.ts\<close>, \<open>encodeDeckFrame\<close> is \<^verbatim>\<open>frame-codec.ts\<close>, and
  \<open>deck_session\<close> with \<open>deck_hub\<close> and its operations are \<^verbatim>\<open>deck-session.ts\<close> and \<^verbatim>\<open>deck-hub.ts\<close>.
  A session stands for its socket: the runtime calls \<^verbatim>\<open>open\<close> once for each, and a session in state
  \<^verbatim>\<open>closed\<close> is one the hub no longer lists.  Clocks are in milliseconds.
\<close>

section \<open>Held keys\<close>

text \<open>\<^verbatim>\<open>holders\<close>: for every held key the sessions that hold it.\<close>

type_synonym holders = "(nat \<times> nat list) list"

definition held_down :: "nat \<Rightarrow> nat \<Rightarrow> holders \<Rightarrow> bool \<times> holders" where
  "held_down session key m =
     (let set0 = map_of m key
      in if (case set0 of Some xs \<Rightarrow> session \<in> set xs | None \<Rightarrow> False) then (False, m)
         else let xs = (case set0 of Some xs \<Rightarrow> xs | None \<Rightarrow> []) @ [session]
              in (length xs = 1, AList.update key xs m))"

definition held_up :: "nat \<Rightarrow> nat \<Rightarrow> holders \<Rightarrow> bool \<times> holders" where
  "held_up session key m =
     (case map_of m key of
        None \<Rightarrow> (False, m)
      | Some xs \<Rightarrow>
          if session \<notin> set xs then (False, m)
          else let xs = filter (\<lambda>x. x \<noteq> session) xs
               in if xs \<noteq> [] then (False, AList.update key xs m)
                  else (True, AList.delete key m))"

definition releaseSession :: "nat \<Rightarrow> holders \<Rightarrow> nat list \<times> holders" where
  "releaseSession session m =
     (let (freed, m) = fold (\<lambda>key (freed, m).
            let (free, m) = held_up session key m in (if free then freed @ [key] else freed, m)) (map fst m) ([], m)
      in (sort freed, m))"

definition isHeld :: "nat \<Rightarrow> holders \<Rightarrow> bool" where
  "isHeld key m \<longleftrightarrow> map_of m key \<noteq> None"

definition heldBy :: "nat \<Rightarrow> holders \<Rightarrow> nat list" where
  "heldBy session m = map fst (filter (\<lambda>(k, xs). session \<in> set xs) m)"

section \<open>Frames to send\<close>

datatype queue_item = Q_frame nat "8 word list" | Q_clear nat

fun item_key :: "queue_item \<Rightarrow> nat" where
  "item_key (Q_frame k bs) = k"
| "item_key (Q_clear k) = k"

record frame_queue =
  fq_sent :: nat
  fq_acked :: nat
  fq_pending :: "(nat \<times> queue_item) list"

definition new_queue :: frame_queue where
  "new_queue = \<lparr> fq_sent = 0, fq_acked = 0, fq_pending = [] \<rparr>"

definition fq_inFlight :: "frame_queue \<Rightarrow> int" where
  "fq_inFlight q = int (fq_sent q) - int (fq_acked q)"

fun fq_drain :: "nat \<Rightarrow> nat list \<Rightarrow> (frame_queue, queue_item) eff" where
  "fq_drain w [] q = (q, [])"
| "fq_drain w (key # keys) q =
     (case map_of (fq_pending q) key of
        None \<Rightarrow> fq_drain w keys q
      | Some (Q_frame k bs) \<Rightarrow>
          if int w \<le> fq_inFlight q then fq_drain w keys q
          else let (q, out) = fq_drain w keys (q\<lparr>fq_sent := fq_sent q + 1, fq_pending := AList.delete key (fq_pending q)\<rparr>)
               in (q, Q_frame k bs # out)
      | Some (Q_clear k) \<Rightarrow>
          let (q, out) = fq_drain w keys (q\<lparr>fq_pending := AList.delete key (fq_pending q)\<rparr>)
          in (q, Q_clear k # out))"

definition fq_drain_all :: "nat \<Rightarrow> (frame_queue, queue_item) eff" where
  "fq_drain_all w q = fq_drain w (sort (map fst (fq_pending q))) q"

definition fq_push :: "nat \<Rightarrow> queue_item \<Rightarrow> (frame_queue, queue_item) eff" where
  "fq_push w item q =
     fq_drain_all w (q\<lparr>fq_pending := AList.delete (item_key item) (fq_pending q) @ [(item_key item, item)]\<rparr>)"

definition fq_ack :: "nat \<Rightarrow> nat \<Rightarrow> (frame_queue, queue_item) eff" where
  "fq_ack w n q = fq_drain_all w (q\<lparr>fq_acked := max (fq_acked q) (min n (fq_sent q))\<rparr>)"

section \<open>Late presses\<close>

abbreviation (input) FRESHNESS_BUCKET_MS :: rat where "FRESHNESS_BUCKET_MS \<equiv> 10000"
abbreviation (input) FRESHNESS_WINDOW_MS :: rat where "FRESHNESS_WINDOW_MS \<equiv> 60000"
abbreviation (input) LATENCY_WINDOW_SIZE :: nat where "LATENCY_WINDOW_SIZE \<equiv> 200"

text \<open>A bucket is its start and the smallest offset seen in it.\<close>

type_synonym freshness = "(rat \<times> rat) list"

definition sample :: "rat \<Rightarrow> rat \<Rightarrow> freshness \<Rightarrow> freshness" where
  "sample clientNow serverNow buckets =
     (let offset = serverNow - clientNow;
          start = of_int \<lfloor>serverNow / FRESHNESS_BUCKET_MS\<rfloor> * FRESHNESS_BUCKET_MS;
          buckets = (if buckets \<noteq> [] \<and> fst (last buckets) = start
             then butlast buckets @ [(start, min (snd (last buckets)) offset)]
             else buckets @ [(start, offset)])
      in filter (\<lambda>b. serverNow - FRESHNESS_WINDOW_MS < fst b) buckets)"

definition lateness :: "rat \<Rightarrow> rat \<Rightarrow> freshness \<Rightarrow> rat" where
  "lateness clientNow serverNow buckets =
     (case buckets of
        [] \<Rightarrow> 0
      | b # bs \<Rightarrow> max 0 (serverNow - clientNow - fold min (map snd bs) (snd b)))"

definition latency_add :: "rat \<Rightarrow> rat list \<Rightarrow> rat list" where
  "latency_add ms values =
     (let values = values @ [ms] in if LATENCY_WINDOW_SIZE < length values then tl values else values)"

definition percentile :: "rat \<Rightarrow> rat list \<Rightarrow> rat option" where
  "percentile p values =
     (if values = [] then None
      else Some (sort values ! nat (min (int (length values) - 1) (\<lceil>p * of_nat (length values)\<rceil> - 1))))"

section \<open>Messages\<close>

datatype key_state = K_down | K_up

datatype deck_client_msg =
    M_hello nat string string rat "string option"
  | M_key nat key_state rat
  | M_releaseAll rat
  | M_ping rat
  | M_ack nat

datatype bye_reason =
  Bye_unauthorized | Bye_revoked | Bye_disabled | Bye_full | Bye_upgrade | Bye_timeout | Bye_protocol

abbreviation (input) DECK_MAX_TEXT_BYTES :: nat where "DECK_MAX_TEXT_BYTES \<equiv> 1024"
abbreviation (input) CLIENT_ID_MAX :: nat where "CLIENT_ID_MAX \<equiv> 64"
abbreviation (input) NAME_MAX :: nat where "NAME_MAX \<equiv> 80"

text \<open>\<^verbatim>\<open>isCount\<close> and the number it lets through.\<close>

definition isCount :: "json option \<Rightarrow> nat option" where
  "isCount v =
     (case v of Some (J_num q) \<Rightarrow> if of_int \<lfloor>q\<rfloor> = q \<and> 0 \<le> q then Some (nat \<lfloor>q\<rfloor>) else None | _ \<Rightarrow> None)"

definition isShortString :: "json option \<Rightarrow> nat \<Rightarrow> string option" where
  "isShortString v n = (case v of Some (J_str s) \<Rightarrow> if length s \<le> n then Some s else None | _ \<Rightarrow> None)"

definition parseHello :: "json \<Rightarrow> deck_client_msg option" where
  "parseHello m =
     (case (isCount (field m ''v''), Option.bind (field m ''token'') str_of, Option.bind (field m ''now'') num_of) of
        (Some v, Some token, Some now) \<Rightarrow>
          (case isShortString (field m ''clientId'') CLIENT_ID_MAX of
             Some clientId \<Rightarrow>
               if clientId = [] then None
               else (case field m ''name'' of
                  None \<Rightarrow> Some (M_hello v token clientId now None)
                | Some name \<Rightarrow> map_option (\<lambda>s. M_hello v token clientId now (Some s)) (isShortString (Some name) NAME_MAX))
           | None \<Rightarrow> None)
      | _ \<Rightarrow> None)"

definition parseKey :: "json \<Rightarrow> deck_client_msg option" where
  "parseKey m =
     (case (isCount (field m ''k''), Option.bind (field m ''now'') num_of) of
        (Some k, Some now) \<Rightarrow>
          if field m ''s'' = Some (J_str ''down'') then Some (M_key k K_down now)
          else if field m ''s'' = Some (J_str ''up'') then Some (M_key k K_up now)
          else None
      | _ \<Rightarrow> None)"

text \<open>\<^verbatim>\<open>raw\<close> is the text with what \<^verbatim>\<open>JSON.parse\<close> makes of it, nothing when it throws.\<close>

definition parseDeckClientMsg :: "string \<times> json option \<Rightarrow> deck_client_msg option" where
  "parseDeckClientMsg = (\<lambda>(text, raw).
     if DECK_MAX_TEXT_BYTES < length text then None
     else case raw of
        None \<Rightarrow> None
      | Some m \<Rightarrow>
          (case Option.bind (field m ''t'') str_of of
             None \<Rightarrow> None
           | Some t \<Rightarrow>
               if t = ''hello'' then parseHello m
               else if t = ''key'' then parseKey m
               else if t = ''releaseAll'' then map_option M_releaseAll (Option.bind (field m ''now'') num_of)
               else if t = ''ping'' then map_option M_ping (Option.bind (field m ''now'') num_of)
               else if t = ''ack'' then map_option M_ack (isCount (field m ''n''))
               else None))"

abbreviation (input) DECK_FRAME_KEY_IMAGE :: "8 word" where "DECK_FRAME_KEY_IMAGE \<equiv> 1"
abbreviation (input) DECK_FORMAT_JPEG :: "8 word" where "DECK_FORMAT_JPEG \<equiv> 0"
abbreviation (input) DECK_FORMAT_BMP :: "8 word" where "DECK_FORMAT_BMP \<equiv> 1"

definition encodeDeckFrame :: "nat \<Rightarrow> 8 word list \<Rightarrow> bool \<Rightarrow> 8 word list" where
  "encodeDeckFrame key data jpeg =
     [DECK_FRAME_KEY_IMAGE, word_of_nat key, if jpeg then DECK_FORMAT_JPEG else DECK_FORMAT_BMP, 0] @ data"

section \<open>Sessions and the hub\<close>

abbreviation (input) DECK_PROTOCOL_VERSION :: nat where "DECK_PROTOCOL_VERSION \<equiv> 1"
abbreviation (input) DECK_MAX_IN_FLIGHT :: nat where "DECK_MAX_IN_FLIGHT \<equiv> 6"
abbreviation (input) DECK_MAX_CLIENTS :: nat where "DECK_MAX_CLIENTS \<equiv> 4"
abbreviation (input) DECK_LIVENESS_TIMEOUT_MS :: rat where "DECK_LIVENESS_TIMEOUT_MS \<equiv> 3500"
abbreviation (input) DECK_HELLO_TIMEOUT_MS :: rat where "DECK_HELLO_TIMEOUT_MS \<equiv> 3000"
abbreviation (input) DECK_MAX_DOWN_LATENESS_MS :: rat where "DECK_MAX_DOWN_LATENESS_MS \<equiv> 1000"
abbreviation (input) DECK_MAX_MSGS_PER_S :: nat where "DECK_MAX_MSGS_PER_S \<equiv> 60"
abbreviation (input) MAX_UNAUTHENTICATED :: nat where "MAX_UNAUTHENTICATED \<equiv> 16"

datatype session_state = Awaiting_hello | Authenticating | Live

record deck_session =
  ds_remoteAddress :: string
  ds_openedAt :: rat
  ds_state :: session_state
  ds_tokenId :: string
  ds_clientId :: string
  ds_deviceName :: string
  ds_lastRxAt :: rat
  ds_freshness :: freshness
  ds_queue :: frame_queue
  ds_windowStart :: rat
  ds_windowCount :: nat

definition new_session :: "string \<Rightarrow> rat \<Rightarrow> deck_session" where
  "new_session remote now =
     \<lparr> ds_remoteAddress = remote, ds_openedAt = now, ds_state = Awaiting_hello, ds_tokenId = [], ds_clientId = [],
       ds_deviceName = [], ds_lastRxAt = now, ds_freshness = [], ds_queue = new_queue,
       ds_windowStart = now, ds_windowCount = 0 \<rparr>"

definition allowMessage :: "rat \<Rightarrow> deck_session \<Rightarrow> bool \<times> deck_session" where
  "allowMessage now s =
     (let s = (if 1000 \<le> now - ds_windowStart s then s\<lparr>ds_windowStart := now, ds_windowCount := 0\<rparr> else s);
          s = s\<lparr>ds_windowCount := ds_windowCount s + 1\<rparr>
      in (ds_windowCount s \<le> DECK_MAX_MSGS_PER_S, s))"

text \<open>What a \<^verbatim>\<open>hello\<close> leaves behind while its token is verified; \<open>he_who\<close> is what the lookup will
  answer: it runs on the records there are when it is called.\<close>

record hello =
  he_who :: "(string \<times> string) option"
  he_clientId :: string
  he_now :: rat
  he_name :: "string option"

record deck_hub =
  hb_sessions :: "(nat \<times> deck_session) list"
  hb_held :: holders
  hb_latencies :: "rat list"
  hb_nextId :: nat
  hb_limits :: rate_limits
  hb_verifying :: "(nat \<times> hello) list"

definition new_hub :: "rate_limits \<Rightarrow> deck_hub" where
  "new_hub l = \<lparr> hb_sessions = [], hb_held = [], hb_latencies = [], hb_nextId = 1, hb_limits = l, hb_verifying = [] \<rparr>"

text \<open>The clocks, the dock behind the hub (\<^verbatim>\<open>DeckSource\<close>) and the token store at the time of a call.\<close>

record deck_env =
  dv_now :: rat
  dv_wall :: rat
  dv_keyCount :: nat
  dv_brightness :: int
  dv_paired :: bool
  dv_snapshot :: "(nat \<times> 8 word list \<times> bool) list"
  dv_records :: "token_record list"
  dv_sha :: "string \<Rightarrow> string"

datatype deck_server_msg =
    Welcome nat nat int bool string
  | Pong rat
  | Brightness int
  | Paired bool
  | Clear_key nat
  | Bye bye_reason

datatype hub_event =
    Send_text nat deck_server_msg
  | Send_binary nat "8 word list"
  | Close_socket nat
  | Input nat key_state
  | Clients_changed
  | Note_seen string

type_synonym hub_act = "(deck_hub, hub_event) eff"

definition hb_live :: "deck_hub \<Rightarrow> (nat \<times> deck_session) list" where
  "hb_live h = filter (\<lambda>(n, s). ds_state s = Live) (hb_sessions h)"

definition hb_waiting :: "deck_hub \<Rightarrow> (nat \<times> deck_session) list" where
  "hb_waiting h = filter (\<lambda>(n, s). ds_state s \<noteq> Live) (hb_sessions h)"

definition put_session :: "nat \<Rightarrow> deck_session \<Rightarrow> deck_hub \<Rightarrow> deck_hub" where
  "put_session n s h = h\<lparr>hb_sessions := AList.update n s (hb_sessions h)\<rparr>"

definition on_session :: "nat \<Rightarrow> (deck_session \<Rightarrow> deck_session) \<Rightarrow> hub_act" where
  "on_session n f = upd (\<lambda>h. case map_of (hb_sessions h) n of None \<Rightarrow> h | Some s \<Rightarrow> put_session n (f s) h)"

definition hb_release :: "nat \<Rightarrow> hub_act" where
  "hb_release n h =
     (let (freed, m) = releaseSession n (hb_held h) in (h\<lparr>hb_held := m\<rparr>, map (\<lambda>k. Input k K_up) freed))"

definition hb_drop :: "nat \<Rightarrow> hub_act" where
  "hb_drop n h =
     (case map_of (hb_sessions h) n of
        None \<Rightarrow> skip h
      | Some s \<Rightarrow> acts [upd (\<lambda>h. h\<lparr>hb_sessions := AList.delete n (hb_sessions h)\<rparr>), hb_release n,
                       if ds_state s = Live then emits Clients_changed else skip] h)"

definition hb_bye :: "nat \<Rightarrow> bye_reason \<Rightarrow> hub_act" where
  "hb_bye n reason =
     ite (\<lambda>h. map_of (hb_sessions h) n = None) skip
       (acts [emits (Send_text n (Bye reason)), hb_drop n, emits (Close_socket n)])"

definition hub_open :: "string \<Rightarrow> deck_env \<Rightarrow> hub_act" where
  "hub_open remote e h =
     (let n = hb_nextId h; full = MAX_UNAUTHENTICATED \<le> length (hb_waiting h); h = h\<lparr>hb_nextId := n + 1\<rparr>
      in if full then acts [emits (Send_text n (Bye Bye_full)), hb_release n, emits (Close_socket n)] h
         else (put_session n (new_session remote (dv_now e)) h, []))"

text \<open>\<^verbatim>\<open>queue.push\<close> and \<^verbatim>\<open>queue.ack\<close> with what the queue then writes to the socket.\<close>

fun item_event :: "nat \<Rightarrow> queue_item \<Rightarrow> hub_event" where
  "item_event n (Q_frame k bs) = Send_binary n bs"
| "item_event n (Q_clear k) = Send_text n (Clear_key k)"

definition on_queue :: "nat \<Rightarrow> (frame_queue, queue_item) eff \<Rightarrow> hub_act" where
  "on_queue n f h =
     (case map_of (hb_sessions h) n of
        None \<Rightarrow> skip h
      | Some s \<Rightarrow> let (q, out) = f (ds_queue s) in (put_session n (s\<lparr>ds_queue := q\<rparr>) h, map (item_event n) out))"

definition queue_push :: "nat \<Rightarrow> queue_item \<Rightarrow> hub_act" where
  "queue_push n item = on_queue n (fq_push DECK_MAX_IN_FLIGHT item)"

definition to_live :: "(nat \<Rightarrow> hub_act) \<Rightarrow> hub_act" where
  "to_live f h = acts (map (\<lambda>(n, s). f n) (hb_live h)) h"

definition hub_frame :: "nat \<Rightarrow> 8 word list \<Rightarrow> bool \<Rightarrow> hub_act" where
  "hub_frame key data jpeg = to_live (\<lambda>n. queue_push n (Q_frame key (encodeDeckFrame key data jpeg)))"

definition hub_clear :: "nat \<Rightarrow> hub_act" where
  "hub_clear key = to_live (\<lambda>n. queue_push n (Q_clear key))"

definition hub_brightness :: "int \<Rightarrow> hub_act" where
  "hub_brightness level = to_live (\<lambda>n. emits (Send_text n (Brightness level)))"

definition hub_paired :: "bool \<Rightarrow> hub_act" where
  "hub_paired v = to_live (\<lambda>n. emits (Send_text n (Paired v)))"

definition hub_kick :: "string \<Rightarrow> bye_reason \<Rightarrow> hub_act" where
  "hub_kick tokenId reason h =
     acts (map (\<lambda>(n, s). if ds_tokenId s = tokenId then hb_bye n reason else skip) (hb_sessions h)) h"

definition hub_closeAll :: "bye_reason \<Rightarrow> hub_act" where
  "hub_closeAll reason h = acts (map (\<lambda>(n, s). hb_bye n reason) (hb_sessions h)) h"

definition hub_tick :: "rat \<Rightarrow> hub_act" where
  "hub_tick now h =
     acts (map (\<lambda>(n, s).
        let limit = (if ds_state s = Live then DECK_LIVENESS_TIMEOUT_MS else DECK_HELLO_TIMEOUT_MS);
            since = (if ds_state s = Live then ds_lastRxAt s else ds_openedAt s)
        in if limit < now - since then hb_bye n Bye_timeout else skip) (hb_sessions h)) h"

text \<open>\<^verbatim>\<open>hello\<close> up to its await, and what follows it.\<close>

definition hub_hello :: "nat \<Rightarrow> nat \<Rightarrow> string \<Rightarrow> string \<Rightarrow> rat \<Rightarrow> string option \<Rightarrow> deck_env \<Rightarrow> hub_act" where
  "hub_hello n version token clientId clientNow name e h =
     (if version \<noteq> DECK_PROTOCOL_VERSION then hb_bye n Bye_upgrade h
      else case map_of (hb_sessions h) n of
        None \<Rightarrow> skip h
      | Some s \<Rightarrow>
          (let (wait, l) = checkFailedAuth (ds_remoteAddress s) (dv_wall e) (hb_limits h);
               h = h\<lparr>hb_limits := l\<rparr>
           in if 0 < wait then hb_bye n Bye_unauthorized h
              else (h\<lparr>hb_verifying := hb_verifying h @
                       [(n, \<lparr> he_who = deck_verify (dv_sha e) (dv_records e) token, he_clientId = clientId,
                              he_now = clientNow, he_name = name \<rparr>)]\<rparr>, [])))"

definition hb_welcome :: "nat \<Rightarrow> hello \<Rightarrow> string \<times> string \<Rightarrow> deck_env \<Rightarrow> hub_act" where
  "hb_welcome n r who e =
     (let name = (case he_name r of Some nm \<Rightarrow> nm | None \<Rightarrow> snd who)
      in acts ([on_session n (\<lambda>s. s\<lparr>ds_state := Live, ds_tokenId := fst who, ds_clientId := he_clientId r,
                  ds_deviceName := name, ds_freshness := sample (he_now r) (dv_now e) (ds_freshness s)\<rparr>),
                emits (Note_seen (fst who)),
                emits (Send_text n (Welcome DECK_PROTOCOL_VERSION (dv_keyCount e) (dv_brightness e) (dv_paired e) name))]
           @ map (\<lambda>(k, data, jpeg). queue_push n (Q_frame k (encodeDeckFrame k data jpeg))) (sort_key fst (dv_snapshot e))
           @ [emits Clients_changed]))"

definition hub_verified :: "nat \<Rightarrow> deck_env \<Rightarrow> hub_act" where
  "hub_verified n e h =
     (case map_of (hb_verifying h) n of
        None \<Rightarrow> skip h
      | Some r \<Rightarrow>
          let h = h\<lparr>hb_verifying := AList.delete n (hb_verifying h)\<rparr>
          in case map_of (hb_sessions h) n of
               None \<Rightarrow> skip h
             | Some s \<Rightarrow>
                 if ds_state s \<noteq> Authenticating then skip h
                 else case he_who r of
                        None \<Rightarrow> acts [upd (\<lambda>h. h\<lparr>hb_limits := noteFailedAuth (ds_remoteAddress s) (dv_wall e) (hb_limits h)\<rparr>),
                                     hb_bye n Bye_unauthorized] h
                      | Some who \<Rightarrow>
                          if DECK_MAX_CLIENTS \<le> length (hb_live h) then hb_bye n Bye_full h
                          else hb_welcome n r who e h)"

definition hb_key :: "nat \<Rightarrow> nat \<Rightarrow> key_state \<Rightarrow> rat \<Rightarrow> deck_env \<Rightarrow> hub_act" where
  "hb_key n k state clientNow e h =
     (if dv_keyCount e \<le> k then hb_bye n Bye_protocol h
      else if state = K_up then
        acts [on_session n (\<lambda>s. s\<lparr>ds_freshness := sample clientNow (dv_now e) (ds_freshness s)\<rparr>),
              \<lambda>h. let (free, m) = held_up n k (hb_held h) in (h\<lparr>hb_held := m\<rparr>, if free then [Input k K_up] else [])] h
      else case map_of (hb_sessions h) n of
        None \<Rightarrow> skip h
      | Some s \<Rightarrow>
          let late = lateness clientNow (dv_now e) (ds_freshness s)
          in acts [on_session n (\<lambda>s. s\<lparr>ds_freshness := sample clientNow (dv_now e) (ds_freshness s)\<rparr>),
                   if DECK_MAX_DOWN_LATENESS_MS < late then skip
                   else acts [upd (\<lambda>h. h\<lparr>hb_latencies := latency_add late (hb_latencies h)\<rparr>),
                     \<lambda>h. let (new, m) = held_down n k (hb_held h) in (h\<lparr>hb_held := m\<rparr>, if new then [Input k K_down] else [])]] h)"

text \<open>What a message of a live session does.\<close>

definition live_message :: "nat \<Rightarrow> deck_client_msg \<Rightarrow> deck_env \<Rightarrow> hub_act" where
  "live_message n m e =
     (case m of
        M_hello v token clientId now name \<Rightarrow> hb_bye n Bye_protocol
      | M_ping now \<Rightarrow> acts [on_session n (\<lambda>s. s\<lparr>ds_freshness := sample now (dv_now e) (ds_freshness s)\<rparr>),
                            emits (Send_text n (Pong now))]
      | M_ack k \<Rightarrow> on_queue n (fq_ack DECK_MAX_IN_FLIGHT k)
      | M_releaseAll now \<Rightarrow> acts [on_session n (\<lambda>s. s\<lparr>ds_freshness := sample now (dv_now e) (ds_freshness s)\<rparr>), hb_release n]
      | M_key k state now \<Rightarrow> hb_key n k state now e)"

definition hub_message :: "nat \<Rightarrow> string \<times> json option \<Rightarrow> deck_env \<Rightarrow> hub_act" where
  "hub_message n text e h =
     (case map_of (hb_sessions h) n of
        None \<Rightarrow> skip h
      | Some s \<Rightarrow>
          let (ok, s) = allowMessage (dv_now e) (s\<lparr>ds_lastRxAt := dv_now e\<rparr>);
              h = put_session n s h
          in if \<not> ok then hb_bye n Bye_protocol h
             else case parseDeckClientMsg text of
                    None \<Rightarrow> hb_bye n Bye_protocol h
                  | Some m \<Rightarrow>
                      (case ds_state s of
                         Authenticating \<Rightarrow> skip h
                       | Awaiting_hello \<Rightarrow>
                           (case m of
                              M_hello v token clientId now name \<Rightarrow>
                                acts [on_session n (\<lambda>s. s\<lparr>ds_state := Authenticating\<rparr>), hub_hello n v token clientId now name e] h
                            | _ \<Rightarrow> hb_bye n Bye_protocol h)
                       | Live \<Rightarrow> live_message n m e h))"

text \<open>Everything that happens to a hub; other users of the limiter may change it at any time.\<close>

datatype hub_input =
    Open string
  | Message nat "string \<times> json option"
  | Closed nat
  | Verified nat
  | Frame nat "8 word list" bool
  | Cleared nat
  | Brightness_set int
  | Paired_set bool
  | Kick string bye_reason
  | Close_all bye_reason
  | Tick
  | Limits_now rate_limits

fun hub_step :: "hub_input \<Rightarrow> deck_env \<Rightarrow> hub_act" where
  "hub_step (Open remote) e = hub_open remote e"
| "hub_step (Message n text) e = hub_message n text e"
| "hub_step (Closed n) e = hb_drop n"
| "hub_step (Verified n) e = hub_verified n e"
| "hub_step (Frame k data jpeg) e = hub_frame k data jpeg"
| "hub_step (Cleared k) e = hub_clear k"
| "hub_step (Brightness_set l) e = hub_brightness l"
| "hub_step (Paired_set v) e = hub_paired v"
| "hub_step (Kick t r) e = hub_kick t r"
| "hub_step (Close_all r) e = hub_closeAll r"
| "hub_step Tick e = hub_tick (dv_now e)"
| "hub_step (Limits_now l) e = upd (\<lambda>h. h\<lparr>hb_limits := l\<rparr>)"

fun hub_run :: "(hub_input \<times> deck_env) list \<Rightarrow> hub_act" where
  "hub_run [] h = (h, [])"
| "hub_run ((i, e) # is) h = (let (h, es) = hub_step i e h; (h, fs) = hub_run is h in (h, es @ fs))"

section \<open>Who holds what\<close>

definition holds :: "holders \<Rightarrow> nat \<Rightarrow> nat \<Rightarrow> bool" where
  "holds m n k \<longleftrightarrow> (case map_of m k of Some xs \<Rightarrow> n \<in> set xs | None \<Rightarrow> False)"

definition held_ok :: "holders \<Rightarrow> bool" where
  "held_ok m \<longleftrightarrow> distinct (keys_of m) \<and> (\<forall>k xs. map_of m k = Some xs \<longrightarrow> xs \<noteq> [] \<and> distinct xs)"

lemma held_okD: "held_ok m \<Longrightarrow> map_of m k = Some xs \<Longrightarrow> xs \<noteq> [] \<and> distinct xs"
  unfolding held_ok_def by blast

lemma isHeld_iff: "held_ok m \<Longrightarrow> isHeld k m \<longleftrightarrow> (\<exists>n. holds m n k)"
  using held_okD[of m k] by (cases "map_of m k") (auto simp: isHeld_def holds_def neq_Nil_conv)

lemma held_ok_update: "held_ok m \<Longrightarrow> ys \<noteq> [] \<Longrightarrow> distinct ys \<Longrightarrow> held_ok (AList.update k ys m)"
  by (simp add: held_ok_def del: map_of_eq_Some_iff)

lemma held_ok_delete: "held_ok m \<Longrightarrow> held_ok (AList.delete k m)"
  by (simp add: held_ok_def del: map_of_eq_Some_iff)

lemma holds_simps [simp]:
  "holds (AList.update k ys m) n' k' = (if k' = k then n' \<in> set ys else holds m n' k')"
  "holds (AList.delete k m) n' k' = (k' \<noteq> k \<and> holds m n' k')"
  "isHeld k' (AList.update k ys m) = (k' = k \<or> isHeld k' m)"
  "isHeld k' (AList.delete k m) = (k' \<noteq> k \<and> isHeld k' m)"
  by (simp_all add: holds_def isHeld_def)

lemma map_of_holds:
  "map_of m k = None \<Longrightarrow> \<not> holds m n k" "map_of m k = None \<Longrightarrow> \<not> isHeld k m"
  "map_of m k = Some xs \<Longrightarrow> holds m n k \<longleftrightarrow> n \<in> set xs" "map_of m k = Some xs \<Longrightarrow> isHeld k m"
  by (simp_all add: holds_def isHeld_def)

lemma held_down_spec:
  assumes "held_ok m" "held_down n k m = (b, m')"
  shows "held_ok m' \<and> (\<forall>n' k'. holds m' n' k' \<longleftrightarrow> holds m n' k' \<or> n' = n \<and> k' = k) \<and> (b \<longleftrightarrow> \<not> isHeld k m)"
proof (cases "map_of m k")
  case None
  then have "b" "m' = AList.update k [n] m" using assms(2) by (simp_all add: held_down_def)
  then show ?thesis using assms(1) map_of_holds(1,2)[OF None] by (simp add: held_ok_update)
next
  case (Some xs)
  note xs = held_okD[OF assms(1) Some] and H = map_of_holds(3,4)[OF Some]
  show ?thesis
  proof (cases "n \<in> set xs")
    case True
    then show ?thesis using assms Some H by (auto simp: held_down_def)
  next
    case False
    then have "\<not> b" "m' = AList.update k (xs @ [n]) m" using assms(2) Some xs by (auto simp: held_down_def)
    then show ?thesis using assms(1) False xs H by (auto simp: held_ok_update)
  qed
qed

lemma held_up_spec:
  assumes "held_ok m" "held_up n k m = (b, m')"
  shows "held_ok m' \<and> (\<forall>n' k'. holds m' n' k' \<longleftrightarrow> holds m n' k' \<and> \<not> (n' = n \<and> k' = k))
    \<and> (b \<longleftrightarrow> isHeld k m \<and> \<not> isHeld k m')"
proof (cases "map_of m k")
  case None
  then show ?thesis using assms map_of_holds(1,2)[OF None] by (auto simp: held_up_def)
next
  case (Some xs)
  note xs = held_okD[OF assms(1) Some] and H = map_of_holds(3,4)[OF Some]
  define ys where "ys = filter (\<lambda>x. x \<noteq> n) xs"
  have ys: "distinct ys" "set ys = set xs - {n}" using xs by (auto simp: ys_def)
  consider "n \<notin> set xs" | "n \<in> set xs" "ys \<noteq> []" | "n \<in> set xs" "ys = []" by blast
  then show ?thesis
  proof cases
    case 1
    then show ?thesis using assms Some H by (auto simp: held_up_def)
  next
    case 2
    then have "\<not> b" "m' = AList.update k ys m" using assms(2) Some by (simp_all add: held_up_def Let_def ys_def)
    then show ?thesis using held_ok_update[OF assms(1) 2(2) ys(1)] ys(2) H by auto
  next
    case 3
    then have "b" "m' = AList.delete k m" using assms(2) Some by (simp_all add: held_up_def Let_def ys_def)
    moreover have "set xs = {n}" using 3 ys(2) by auto
    ultimately show ?thesis using held_ok_delete[OF assms(1)] H by auto
  qed
qed

definition release_step :: "nat \<Rightarrow> nat \<Rightarrow> nat list \<times> holders \<Rightarrow> nat list \<times> holders" where
  "release_step n key = (\<lambda>(freed, m).
     let (free, m) = held_up n key m in (if free then freed @ [key] else freed, m))"

lemma release_step_eval:
  "held_up n k m = (b, m1) \<Longrightarrow> release_step n k (fr, m) = (if b then fr @ [k] else fr, m1)"
  by (simp add: release_step_def)

lemma release_fold:
  "held_ok m \<Longrightarrow> distinct ks \<Longrightarrow> fold (release_step n) ks (fr, m) = (fr', m') \<Longrightarrow>
   held_ok m' \<and> (\<forall>n' k'. holds m' n' k' \<longleftrightarrow> holds m n' k' \<and> \<not> (n' = n \<and> k' \<in> set ks))
   \<and> (\<exists>f. fr' = fr @ f \<and> distinct f \<and> set f \<subseteq> set ks \<and> (\<forall>k. k \<in> set f \<longleftrightarrow> isHeld k m \<and> \<not> isHeld k m'))"
proof (induction ks arbitrary: m fr)
  case Nil
  then show ?case by simp
next
  case (Cons k ks)
  obtain b m1 where u: "held_up n k m = (b, m1)" by force
  have sp: "held_ok m1" "\<And>n' k'. holds m1 n' k' \<longleftrightarrow> holds m n' k' \<and> \<not> (n' = n \<and> k' = k)"
    "b \<longleftrightarrow> isHeld k m \<and> \<not> isHeld k m1"
    using held_up_spec[OF Cons.prems(1) u] by blast+
  have step: "fold (release_step n) ks (if b then fr @ [k] else fr, m1) = (fr', m')"
    using Cons.prems(3) by (simp add: release_step_eval[OF u])
  have dist: "distinct ks" "k \<notin> set ks" using Cons.prems(2) by simp_all
  note ih = Cons.IH[OF sp(1) dist(1) step]
  obtain f where f: "fr' = (if b then fr @ [k] else fr) @ f" "distinct f" "set f \<subseteq> set ks"
    "\<And>k'. k' \<in> set f \<longleftrightarrow> isHeld k' m1 \<and> \<not> isHeld k' m'" using ih by blast
  have H: "held_ok m'" "\<And>n' k'. holds m' n' k' \<longleftrightarrow> holds m n' k' \<and> \<not> (n' = n \<and> k' \<in> set (k # ks))"
    using ih sp(2) by auto
  have same: "isHeld k' m1 = isHeld k' m" if "k' \<noteq> k" for k'
    using that sp(2) by (simp add: isHeld_iff[OF sp(1)] isHeld_iff[OF Cons.prems(1)])
  have k: "isHeld k m' = isHeld k m1"
    using ih dist(2) by (auto simp: isHeld_iff[OF sp(1)] isHeld_iff[OF H(1)])
  have kf: "k \<notin> set f" using f(3) dist(2) by blast
  define g where "g = (if b then [k] else []) @ f"
  have "fr' = fr @ g" "distinct g" "set g \<subseteq> set (k # ks)" using f(1,2,3) kf by (auto simp: g_def)
  moreover have "k' \<in> set g \<longleftrightarrow> isHeld k' m \<and> \<not> isHeld k' m'" for k'
    using f(4)[of k'] same[of k'] kf k sp(3) by (cases "k' = k") (auto simp: g_def)
  ultimately show ?case using H by blast
qed

lemma releaseSession_spec:
  assumes "held_ok m" "releaseSession n m = (freed, m')"
  shows "held_ok m'" "holds m' n' k \<longleftrightarrow> holds m n' k \<and> n' \<noteq> n"
    "distinct freed" "k \<in> set freed \<longleftrightarrow> isHeld k m \<and> \<not> isHeld k m'"
proof -
  obtain f m1 where f: "fold (release_step n) (map fst m) ([], m) = (f, m1)" by force
  then have r: "freed = sort f" "m' = m1"
    using assms(2) unfolding releaseSession_def release_step_def by auto
  have d: "distinct (map fst m)" using assms(1) by (simp add: held_ok_def)
  note sp = release_fold[OF assms(1) d f]
  have key: "holds m n' k \<Longrightarrow> k \<in> set (map fst m)"
    by (auto simp: holds_def split: option.splits dest: map_of_SomeD) (metis fst_conv image_eqI map_of_SomeD)
  show "held_ok m'" "distinct freed" "k \<in> set freed \<longleftrightarrow> isHeld k m \<and> \<not> isHeld k m'"
    using sp by (auto simp: r)
  show "holds m' n' k \<longleftrightarrow> holds m n' k \<and> n' \<noteq> n" using sp key by (auto simp: r)
qed
section \<open>The newest frame wins\<close>

text \<open>What a page shows of a key: the last item sent for it; and what it is to show: the item that
  waits, if one does.\<close>

definition last_for :: "nat \<Rightarrow> queue_item list \<Rightarrow> queue_item option" where
  "last_for k items =
     (let xs = filter (\<lambda>i. item_key i = k) items in if xs = [] then None else Some (last xs))"

definition due :: "nat \<Rightarrow> frame_queue \<Rightarrow> queue_item list \<Rightarrow> queue_item option" where
  "due k q sent = (case map_of (fq_pending q) k of Some i \<Rightarrow> Some i | None \<Rightarrow> last_for k sent)"

fun is_frame :: "queue_item \<Rightarrow> bool" where
  "is_frame (Q_frame k bs) = True"
| "is_frame (Q_clear k) = False"

definition pending_ok :: "frame_queue \<Rightarrow> bool" where
  "pending_ok q \<longleftrightarrow> distinct (keys_of (fq_pending q)) \<and> (\<forall>k i. map_of (fq_pending q) k = Some i \<longrightarrow> item_key i = k)"

definition queue_ok :: "nat \<Rightarrow> frame_queue \<Rightarrow> bool" where
  "queue_ok w q \<longleftrightarrow> pending_ok q \<and> fq_acked q \<le> fq_sent q \<and> fq_inFlight q \<le> int w
     \<and> (\<forall>k i. map_of (fq_pending q) k = Some i \<longrightarrow> is_frame i \<and> fq_inFlight q = int w)"

lemma last_for_snoc: "last_for k (sent @ [i]) = (if item_key i = k then Some i else last_for k sent)"
  by (simp add: last_for_def)

lemma pending_okD: "pending_ok q \<Longrightarrow> map_of (fq_pending q) k = Some i \<Longrightarrow> item_key i = k"
  unfolding pending_ok_def by blast

lemma pending_ok_delete: "pending_ok q \<Longrightarrow> pending_ok (q\<lparr>fq_sent := n, fq_pending := AList.delete k (fq_pending q)\<rparr>)"
  "pending_ok q \<Longrightarrow> pending_ok (q\<lparr>fq_pending := AList.delete k (fq_pending q)\<rparr>)"
  by (simp_all add: pending_ok_def del: map_of_eq_Some_iff)

lemma due_sent:
  "pending_ok q \<Longrightarrow> map_of (fq_pending q) key = Some i \<Longrightarrow>
   due k (q\<lparr>fq_sent := n, fq_pending := AList.delete key (fq_pending q)\<rparr>) (sent @ [i]) = due k q sent"
  "pending_ok q \<Longrightarrow> map_of (fq_pending q) key = Some i \<Longrightarrow>
   due k (q\<lparr>fq_pending := AList.delete key (fq_pending q)\<rparr>) (sent @ [i]) = due k q sent"
  using pending_okD[of q key i] by (auto simp: due_def last_for_snoc split: option.splits)

lemma fq_drain_spec:
  "pending_ok q \<Longrightarrow> fq_inFlight q \<le> int w \<Longrightarrow> fq_drain w ks q = (q', out) \<Longrightarrow>
   pending_ok q' \<and> fq_acked q' = fq_acked q \<and> fq_sent q \<le> fq_sent q' \<and> fq_sent q' \<le> fq_sent q + length out
   \<and> fq_inFlight q \<le> fq_inFlight q' \<and> fq_inFlight q' \<le> int w
   \<and> due k q' (sent @ out) = due k q sent
   \<and> length (fq_pending q') + length out = length (fq_pending q)
   \<and> (\<forall>k i. map_of (fq_pending q') k = Some i \<longrightarrow>
        map_of (fq_pending q) k = Some i \<and> (k \<in> set ks \<longrightarrow> is_frame i \<and> fq_inFlight q' = int w))"
proof (induction ks arbitrary: q out sent)
  case (Cons key ks)
  consider (none) "map_of (fq_pending q) key = None"
    | (full) a bs where "map_of (fq_pending q) key = Some (Q_frame a bs)" "int w \<le> fq_inFlight q"
    | (frame) a bs where "map_of (fq_pending q) key = Some (Q_frame a bs)" "fq_inFlight q < int w"
    | (clear) a where "map_of (fq_pending q) key = Some (Q_clear a)"
    by (metis is_frame.cases not_le option.exhaust)
  then show ?case
  proof cases
    case none
    then have "fq_drain w ks q = (q', out)" using Cons.prems(3) by simp
    from Cons.IH[OF Cons.prems(1,2) this] show ?thesis using none by fastforce
  next
    case full
    then have "fq_drain w ks q = (q', out)" using Cons.prems(3) by simp
    from Cons.IH[OF Cons.prems(1,2) this] show ?thesis using full by fastforce
  next
    case frame
    let ?q = "q\<lparr>fq_sent := fq_sent q + 1, fq_pending := AList.delete key (fq_pending q)\<rparr>"
    obtain o1 where o: "fq_drain w ks ?q = (q', o1)" "out = Q_frame a bs # o1"
      using Cons.prems(3) frame by (auto split: prod.splits)
    have "fq_inFlight ?q = fq_inFlight q + 1" by (simp add: fq_inFlight_def)
    then have le: "fq_inFlight ?q \<le> int w" "fq_inFlight q \<le> fq_inFlight ?q" using frame by simp_all
    have len: "length (AList.delete key (fq_pending q)) + 1 = length (fq_pending q)"
      using om_delete_length[OF frame(1)] Cons.prems(1) by (simp add: pending_ok_def)
    have d: "due k ?q (sent @ [Q_frame a bs]) = due k q sent" by (rule due_sent(1)[OF Cons.prems(1) frame(1)])
    note ih = Cons.IH[OF pending_ok_delete(1)[OF Cons.prems(1)] le(1) o(1), of "sent @ [Q_frame a bs]"]
    have kept: "map_of (fq_pending q) k = Some i \<and> (k \<in> set (key # ks) \<longrightarrow> is_frame i \<and> fq_inFlight q' = int w)"
      if "map_of (fq_pending q') k = Some i" for k i
    proof -
      have "map_of (fq_pending ?q) k = Some i \<and> (k \<in> set ks \<longrightarrow> is_frame i \<and> fq_inFlight q' = int w)"
        using ih that by blast
      then show ?thesis by (cases "k = key") simp_all
    qed
    have "pending_ok q' \<and> fq_acked q' = fq_acked q \<and> fq_sent q \<le> fq_sent q' \<and> fq_sent q' \<le> fq_sent q + length out
      \<and> fq_inFlight q \<le> fq_inFlight q' \<and> fq_inFlight q' \<le> int w
      \<and> due k q' (sent @ out) = due k q sent \<and> length (fq_pending q') + length out = length (fq_pending q)"
      using ih le len d by (simp add: o(2))
    then show ?thesis using kept by blast
  next
    case clear
    let ?q = "q\<lparr>fq_pending := AList.delete key (fq_pending q)\<rparr>"
    obtain o1 where o: "fq_drain w ks ?q = (q', o1)" "out = Q_clear a # o1"
      using Cons.prems(3) clear by (auto split: prod.splits)
    have eq: "fq_inFlight ?q = fq_inFlight q" by (simp add: fq_inFlight_def)
    then have le: "fq_inFlight ?q \<le> int w" using Cons.prems(2) by simp
    have len: "length (AList.delete key (fq_pending q)) + 1 = length (fq_pending q)"
      using om_delete_length[OF clear(1)] Cons.prems(1) by (simp add: pending_ok_def)
    have d: "due k ?q (sent @ [Q_clear a]) = due k q sent" by (rule due_sent(2)[OF Cons.prems(1) clear(1)])
    note ih = Cons.IH[OF pending_ok_delete(2)[OF Cons.prems(1)] le o(1), of "sent @ [Q_clear a]"]
    have kept: "map_of (fq_pending q) k = Some i \<and> (k \<in> set (key # ks) \<longrightarrow> is_frame i \<and> fq_inFlight q' = int w)"
      if "map_of (fq_pending q') k = Some i" for k i
    proof -
      have "map_of (fq_pending ?q) k = Some i \<and> (k \<in> set ks \<longrightarrow> is_frame i \<and> fq_inFlight q' = int w)"
        using ih that by blast
      then show ?thesis by (cases "k = key") simp_all
    qed
    have "pending_ok q' \<and> fq_acked q' = fq_acked q \<and> fq_sent q \<le> fq_sent q' \<and> fq_sent q' \<le> fq_sent q + length out
      \<and> fq_inFlight q \<le> fq_inFlight q' \<and> fq_inFlight q' \<le> int w
      \<and> due k q' (sent @ out) = due k q sent \<and> length (fq_pending q') + length out = length (fq_pending q)"
      using ih le len d eq by (simp add: o(2))
    then show ?thesis using kept by blast
  qed
qed simp

text \<open>Draining everything sends whatever the window admits.\<close>

lemma fq_drain_all_spec:
  assumes "pending_ok q" "fq_inFlight q \<le> int w" "fq_acked q \<le> fq_sent q" "fq_drain_all w q = (q', out)"
  shows "queue_ok w q' \<and> fq_acked q' = fq_acked q \<and> fq_sent q \<le> fq_sent q' \<and> fq_sent q' \<le> fq_sent q + length out \<and> due k q' (sent @ out) = due k q sent
    \<and> length (fq_pending q') + length out = length (fq_pending q)"
proof -
  have sp: "pending_ok q' \<and> fq_acked q' = fq_acked q \<and> fq_sent q \<le> fq_sent q' \<and> fq_sent q' \<le> fq_sent q + length out
   \<and> fq_inFlight q \<le> fq_inFlight q' \<and> fq_inFlight q' \<le> int w
   \<and> due k q' (sent @ out) = due k q sent
   \<and> length (fq_pending q') + length out = length (fq_pending q)
   \<and> (\<forall>k i. map_of (fq_pending q') k = Some i \<longrightarrow>
        map_of (fq_pending q) k = Some i \<and> (k \<in> set (sort (keys_of (fq_pending q))) \<longrightarrow> is_frame i \<and> fq_inFlight q' = int w))"
    by (rule fq_drain_spec[OF assms(1,2) assms(4)[unfolded fq_drain_all_def]])
  have "k \<in> set (sort (keys_of (fq_pending q)))" if "map_of (fq_pending q) k = Some i" for k i
    using that map_of_SomeD[OF that] by force
  then show ?thesis using sp assms(3) unfolding queue_ok_def by (metis le_trans)
qed
lemma queue_okD: "queue_ok w q \<Longrightarrow> map_of (fq_pending q) k = Some i \<Longrightarrow> is_frame i \<and> fq_inFlight q = int w"
  unfolding queue_ok_def by blast

lemma queue_ok_bounds: "queue_ok w q \<Longrightarrow> 0 \<le> fq_inFlight q \<and> fq_inFlight q \<le> int w"
  unfolding queue_ok_def fq_inFlight_def by linarith

lemma queue_ok_full:
  assumes "queue_ok w q" "fq_pending q \<noteq> []"
  shows "fq_inFlight q = int w"
proof -
  obtain p ps where p: "fq_pending q = p # ps" using assms(2) by (cases "fq_pending q") auto
  have "map_of (fq_pending q) (fst p) = Some (snd p)" unfolding p by (cases p) simp
  then show ?thesis using queue_okD[OF assms(1)] by blast
qed

lemma deck_queue_ok: "queue_ok w new_queue"
  by (simp add: queue_ok_def pending_ok_def new_queue_def fq_inFlight_def)

lemma fq_push_spec:
  assumes "queue_ok w q" "fq_push w i q = (q', out)"
  shows "queue_ok w q'" "due k q' (sent @ out) = (if item_key i = k then Some i else due k q sent)"
proof -
  let ?q = "q\<lparr>fq_pending := AList.delete (item_key i) (fq_pending q) @ [(item_key i, i)]\<rparr>"
  have get: "map_of (fq_pending ?q) j = (if j = item_key i then Some i else map_of (fq_pending q) j)" for j
    by (simp add: map_add_def split: option.splits)
  have "pending_ok ?q"
    unfolding pending_ok_def get using assms(1)
    by (auto simp: queue_ok_def pending_ok_def simp del: map_of_eq_Some_iff)
  moreover have "fq_inFlight ?q \<le> int w" "fq_acked ?q \<le> fq_sent ?q"
    using assms(1) by (auto simp: queue_ok_def fq_inFlight_def)
  ultimately have sp: "queue_ok w q' \<and> due k q' (sent @ out) = due k ?q sent"
    using fq_drain_all_spec[of ?q w q' out k sent] assms(2) by (simp add: fq_push_def)
  moreover have "due k ?q sent = (if item_key i = k then Some i else due k q sent)"
    unfolding due_def get by simp
  ultimately show "queue_ok w q'" "due k q' (sent @ out) = (if item_key i = k then Some i else due k q sent)" by simp_all
qed

lemma map_of_empty:
  assumes "\<And>j. map_of m j = None"
  shows "m = []"
  using assms[of "fst (hd m)"] by (cases m) (auto simp: map_of_eq_None_iff)

lemma fq_ack_spec:
  assumes "queue_ok w q" "fq_ack w n q = (q', out)"
  shows "queue_ok w q'" "due k q' (sent @ out) = due k q sent"
    "length (fq_pending q') + length out = length (fq_pending q)"
    "0 < w \<Longrightarrow> fq_sent q \<le> n \<Longrightarrow> out = [] \<Longrightarrow> fq_pending q = []"
proof -
  let ?q = "q\<lparr>fq_acked := max (fq_acked q) (min n (fq_sent q))\<rparr>"
  have "pending_ok ?q" "fq_inFlight ?q \<le> int w" "fq_acked ?q \<le> fq_sent ?q"
    using assms(1) by (auto simp: queue_ok_def fq_inFlight_def pending_ok_def)
  note sp = fq_drain_all_spec[OF this assms(2)[unfolded fq_ack_def], of k sent]
  then show "queue_ok w q'" "length (fq_pending q') + length out = length (fq_pending q)" by simp_all
  show "due k q' (sent @ out) = due k q sent" using sp by (simp add: due_def)
  assume w: "0 < w" "fq_sent q \<le> n" "out = []"
  then have "fq_sent q' = fq_sent q" "fq_acked q' = fq_sent q"
    using sp assms(1) by (auto simp: queue_ok_def min_def max_def)
  then have "fq_inFlight q' \<noteq> int w" using w(1) by (simp add: fq_inFlight_def)
  then have "map_of (fq_pending q') j = None" for j
    using sp unfolding queue_ok_def by (cases "map_of (fq_pending q') j") blast+
  then have "fq_pending q' = []" by (rule map_of_empty)
  then show "fq_pending q = []" using sp w(3) by simp
qed

datatype queue_op = Push queue_item | Ack nat

fun queue_run :: "nat \<Rightarrow> queue_op list \<Rightarrow> (frame_queue, queue_item) eff" where
  "queue_run w [] q = (q, [])"
| "queue_run w (x # xs) q =
     (let (q, o1) = (case x of Push i \<Rightarrow> fq_push w i q | Ack n \<Rightarrow> fq_ack w n q); (q, o2) = queue_run w xs q
      in (q, o1 @ o2))"

definition pushed :: "queue_op list \<Rightarrow> queue_item list" where
  "pushed ops = concat (map (\<lambda>x. case x of Push i \<Rightarrow> [i] | Ack n \<Rightarrow> []) ops)"

text \<open>A page that acknowledges all it has been sent, again and again.\<close>

fun ack_rounds :: "nat \<Rightarrow> nat \<Rightarrow> (frame_queue, queue_item) eff" where
  "ack_rounds w 0 q = (q, [])"
| "ack_rounds w (Suc j) q = (let (q, o1) = fq_ack w (fq_sent q) q; (q, o2) = ack_rounds w j q in (q, o1 @ o2))"

lemma last_for_append: "last_for k (xs @ ys) = (case last_for k ys of Some i \<Rightarrow> Some i | None \<Rightarrow> last_for k xs)"
  by (simp add: last_for_def Let_def)

lemma last_for_simps: "last_for k [] = None" "last_for k [i] = (if item_key i = k then Some i else None)"
  by (simp_all add: last_for_def)

lemma last_for_Cons: "last_for k (i # xs) = (case last_for k xs of Some j \<Rightarrow> Some j | None \<Rightarrow> if item_key i = k then Some i else None)"
  using last_for_append[of k "[i]" xs] by (cases "last_for k xs") (simp_all add: last_for_simps)

lemma pushed_Cons: "pushed (x # ops) = (case x of Push i \<Rightarrow> [i] | Ack n \<Rightarrow> []) @ pushed ops"
  by (simp add: pushed_def)

lemma queue_run_spec:
  "queue_ok w q \<Longrightarrow> queue_run w ops q = (q', out) \<Longrightarrow>
   queue_ok w q' \<and> due k q' (sent @ out) = (case last_for k (pushed ops) of Some i \<Rightarrow> Some i | None \<Rightarrow> due k q sent)"
proof (induction ops arbitrary: q out sent)
  case Nil
  then show ?case by (simp add: pushed_def last_for_def)
next
  case (Cons x ops)
  obtain q1 o1 where x: "(case x of Push i \<Rightarrow> fq_push w i q | Ack n \<Rightarrow> fq_ack w n q) = (q1, o1)" by force
  obtain o2 where r: "queue_run w ops q1 = (q', o2)" "out = o1 @ o2" using Cons.prems(2) x by (auto split: prod.splits)
  have ok: "queue_ok w q1"
  proof (cases x)
    case (Push i)
    then have "fq_push w i q = (q1, o1)" using x by simp
    then show ?thesis by (rule fq_push_spec(1)[OF Cons.prems(1)])
  next
    case (Ack n)
    then have "fq_ack w n q = (q1, o1)" using x by simp
    then show ?thesis by (rule fq_ack_spec(1)[OF Cons.prems(1)])
  qed
  have due: "due k q1 (sent @ o1) = (case x of Push i \<Rightarrow> if item_key i = k then Some i else due k q sent | Ack n \<Rightarrow> due k q sent)"
    using x fq_push_spec(2)[OF Cons.prems(1), of _ q1 o1 k sent] fq_ack_spec(2)[OF Cons.prems(1), of _ q1 o1 k sent]
    by (cases x) simp_all
  have last: "last_for k (pushed (x # ops)) = (case last_for k (pushed ops) of Some i \<Rightarrow> Some i
      | None \<Rightarrow> (case x of Push i \<Rightarrow> if item_key i = k then Some i else None | Ack n \<Rightarrow> None))"
    by (cases x) (simp_all add: pushed_Cons last_for_Cons split: option.split)
  from Cons.IH[OF ok r(1), of "sent @ o1"] show ?case
    unfolding last r(2) due append_assoc by (cases x; cases "last_for k (pushed ops)") simp_all
qed

lemma ack_rounds_spec:
  "queue_ok w q \<Longrightarrow> 0 < w \<Longrightarrow> length (fq_pending q) \<le> j \<Longrightarrow> ack_rounds w j q = (q', out) \<Longrightarrow>
   fq_pending q' = [] \<and> due k q' (sent @ out) = due k q sent"
proof (induction j arbitrary: q out sent)
  case (Suc j)
  obtain q1 o1 where a: "fq_ack w (fq_sent q) q = (q1, o1)" by force
  obtain o2 where r: "ack_rounds w j q1 = (q', o2)" "out = o1 @ o2" using Suc.prems(4) a by (auto split: prod.splits)
  note sp = fq_ack_spec[OF Suc.prems(1) a]
  have "length (fq_pending q1) \<le> j" using sp(3,4) Suc.prems(2,3) by (cases "o1 = []") (auto simp: Suc_le_eq neq_Nil_conv)
  from Suc.IH[OF sp(1) Suc.prems(2) this r(1), of "sent @ o1"] sp(2)[of k sent] show ?case by (simp add: r(2))
qed simp

section \<open>What the hub keeps\<close>

text \<open>The presses and releases of a key among the effects, and how they lead from one state of the key
  to another.\<close>

definition inputs :: "nat \<Rightarrow> hub_event list \<Rightarrow> key_state list" where
  "inputs k es = concat (map (\<lambda>x. case x of Input j st \<Rightarrow> if j = k then [st] else [] | _ \<Rightarrow> []) es)"

fun follows :: "bool \<Rightarrow> key_state list \<Rightarrow> bool \<Rightarrow> bool" where
  "follows d [] d' \<longleftrightarrow> d = d'"
| "follows d (K_down # xs) d' \<longleftrightarrow> \<not> d \<and> follows True xs d'"
| "follows d (K_up # xs) d' \<longleftrightarrow> d \<and> follows False xs d'"

lemma inputs_append [simp]: "inputs k (xs @ ys) = inputs k xs @ inputs k ys"
  by (simp add: inputs_def)

lemma inputs_simps [simp]:
  "inputs k [] = []" "inputs k (Input j st # es) = (if j = k then st # inputs k es else inputs k es)"
  "inputs k (Send_text n m # es) = inputs k es" "inputs k (Send_binary n bs # es) = inputs k es"
  "inputs k (Close_socket n # es) = inputs k es" "inputs k (Clients_changed # es) = inputs k es"
  "inputs k (Note_seen t # es) = inputs k es"
  by (simp_all add: inputs_def)

lemma follows_append: "follows a xs b \<Longrightarrow> follows b ys c \<Longrightarrow> follows a (xs @ ys) c"
  by (induction a xs b rule: follows.induct) auto

lemma inputs_items [simp]: "inputs k (map (item_event n) out) = []"
proof (induction out)
  case (Cons i out)
  then show ?case by (cases i) simp_all
qed simp

lemma inputs_ups: "distinct freed \<Longrightarrow> inputs k (map (\<lambda>k. Input k K_up) freed) = (if k \<in> set freed then [K_up] else [])"
  by (induction freed) auto

text \<open>The sessions: no two of a number, no more than allowed, their queues sound, and only live sessions
  hold keys.\<close>

definition sessions_ok :: "deck_hub \<Rightarrow> bool" where
  "sessions_ok h \<longleftrightarrow> distinct (keys_of (hb_sessions h)) \<and> (\<forall>n \<in> set (keys_of (hb_sessions h)). n < hb_nextId h)
     \<and> (\<forall>n s. map_of (hb_sessions h) n = Some s \<longrightarrow> queue_ok DECK_MAX_IN_FLIGHT (ds_queue s))"

definition is_live :: "nat \<Rightarrow> deck_hub \<Rightarrow> bool" where
  "is_live n h \<longleftrightarrow> (\<exists>s. map_of (hb_sessions h) n = Some s \<and> ds_state s = Live)"

definition hub_ok :: "deck_hub \<Rightarrow> bool" where
  "hub_ok h \<longleftrightarrow> held_ok (hb_held h) \<and> sessions_ok h \<and> (\<forall>n k. holds (hb_held h) n k \<longrightarrow> is_live n h)
     \<and> length (hb_live h) \<le> DECK_MAX_CLIENTS \<and> length (hb_waiting h) \<le> MAX_UNAUTHENTICATED"

text \<open>An action keeps the hub sound, and what it tells the dock leads from what was held to what is.\<close>

definition sound :: "hub_act \<Rightarrow> bool" where
  "sound f \<longleftrightarrow> (\<forall>h. hub_ok h \<longrightarrow> hub_ok (fst (f h)) \<and>
     (\<forall>k. follows (isHeld k (hb_held h)) (inputs k (snd (f h))) (isHeld k (hb_held (fst (f h))))))"

lemma soundI:
  "(\<And>h. hub_ok h \<Longrightarrow> hub_ok (fst (f h))) \<Longrightarrow>
   (\<And>h k. hub_ok h \<Longrightarrow> follows (isHeld k (hb_held h)) (inputs k (snd (f h))) (isHeld k (hb_held (fst (f h))))) \<Longrightarrow> sound f"
  unfolding sound_def by blast

lemma soundD: "sound f \<Longrightarrow> hub_ok h \<Longrightarrow> hub_ok (fst (f h))"
  "sound f \<Longrightarrow> hub_ok h \<Longrightarrow> follows (isHeld k (hb_held h)) (inputs k (snd (f h))) (isHeld k (hb_held (fst (f h))))"
  unfolding sound_def by blast+

lemma sound_skip: "sound skip"
  by (rule soundI) simp_all

lemma sound_emits: "(\<And>k. inputs k [x] = []) \<Longrightarrow> sound (emits x)"
  by (rule soundI) simp_all

lemma sound_seq: "sound f \<Longrightarrow> sound g \<Longrightarrow> sound (\<lambda>h. (fst (g (fst (f h))), snd (f h) @ snd (g (fst (f h)))))"
  by (rule soundI) (auto intro: follows_append soundD)

lemma sound_acts: "(\<And>f. f \<in> set fs \<Longrightarrow> sound f) \<Longrightarrow> sound (acts fs)"
proof (induction fs)
  case Nil
  then show ?case by (intro soundI) simp_all
next
  case (Cons f fs)
  have eq: "acts (f # fs) h = (fst (acts fs (fst (f h))), snd (f h) @ snd (acts fs (fst (f h))))" for h
    by (metis fst_acts prod.collapse snd_acts)
  have "sound f" "sound (acts fs)" using Cons by simp_all
  from sound_seq[OF this] show ?case unfolding eq[abs_def] .
qed

lemma sound_if: "(b \<Longrightarrow> sound f) \<Longrightarrow> (\<not> b \<Longrightarrow> sound g) \<Longrightarrow> sound (if b then f else g)"
  by simp

lemma sound_at: "(\<And>h. hub_ok h \<Longrightarrow> \<exists>g. sound g \<and> f h = g h) \<Longrightarrow> sound f"
  by (rule soundI) (metis soundD)+

text \<open>An update that leaves the held keys and what matters of the sessions alone.\<close>

lemma hub_ok_cong:
  assumes "hb_held g = hb_held h" "hb_sessions g = hb_sessions h" "hb_nextId g = hb_nextId h"
  shows "hub_ok g = hub_ok h"
  by (simp add: hub_ok_def sessions_ok_def is_live_def hb_live_def hb_waiting_def assms)

lemma sound_upd:
  assumes "\<And>h. hb_held (f h) = hb_held h" "\<And>h. hb_sessions (f h) = hb_sessions h" "\<And>h. hb_nextId (f h) = hb_nextId h"
  shows "sound (upd f)"
  using hub_ok_cong[OF assms] by (intro soundI) (simp_all add: assms(1))

lemma filter_update_length:
  "distinct (keys_of m) \<Longrightarrow> map_of m n = Some s \<Longrightarrow>
   length (filter (\<lambda>(n, s). P s) (AList.update n s' m)) + (if P s then 1 else 0)
   = length (filter (\<lambda>(n, s). P s) m) + (if P s' then 1 else 0)"
proof (induction m)
  case (Cons p m)
  obtain a b where p: "p = (a, b)" by force
  have "a = n \<Longrightarrow> map_of m n = None" using Cons.prems(1) by (auto simp: p map_of_eq_None_iff)
  then show ?case using Cons by (auto simp: p om_set_fresh)
qed simp

lemma filter_delete_length: "length (filter P (AList.delete n m)) \<le> length (filter P m)"
  by (induction m) auto

lemma put_session_simps [simp]:
  "hb_held (put_session n s h) = hb_held h" "hb_nextId (put_session n s h) = hb_nextId h"
  "hb_sessions (put_session n s h) = AList.update n s (hb_sessions h)"
  by (simp_all add: put_session_def)

lemma put_session_ok:
  assumes ok: "hub_ok h" and s: "map_of (hb_sessions h) n = Some s" and q: "queue_ok DECK_MAX_IN_FLIGHT (ds_queue s')"
    and st: "ds_state s' = Live \<longleftrightarrow> ds_state s = Live"
  shows "hub_ok (put_session n s' h)"
proof -
  have d: "distinct (keys_of (hb_sessions h))" using ok by (simp add: hub_ok_def sessions_ok_def)
  have "length (hb_live (put_session n s' h)) = length (hb_live h)"
    using filter_update_length[OF d s, of "\<lambda>s. ds_state s = Live" s'] st by (simp add: hb_live_def split: if_splits)
  moreover have "length (hb_waiting (put_session n s' h)) = length (hb_waiting h)"
    using filter_update_length[OF d s, of "\<lambda>s. ds_state s \<noteq> Live" s'] st by (simp add: hb_waiting_def split: if_splits)
  moreover have "is_live m (put_session n s' h) = is_live m h" for m
    using s st by (auto simp: is_live_def)
  moreover have "sessions_ok (put_session n s' h)"
  proof -
    have "n \<in> set (keys_of (hb_sessions h))" using map_of_SomeD[OF s] by force
    then show ?thesis using ok q by (simp add: hub_ok_def sessions_ok_def om_keys_set del: map_of_eq_Some_iff)
  qed
  ultimately show ?thesis using ok by (simp add: hub_ok_def)
qed

lemma sound_on_session:
  assumes "\<And>s. ds_queue (f s) = ds_queue s" "\<And>s. ds_state (f s) = Live \<longleftrightarrow> ds_state s = Live"
  shows "sound (on_session n f)"
proof (rule soundI)
  fix h k
  assume ok: "hub_ok h"
  show "hub_ok (fst (on_session n f h))"
  proof (cases "map_of (hb_sessions h) n")
    case (Some s)
    then have "queue_ok DECK_MAX_IN_FLIGHT (ds_queue (f s))"
      using ok unfolding assms(1) hub_ok_def sessions_ok_def by blast
    from put_session_ok[OF ok Some this assms(2)] show ?thesis by (simp add: on_session_def Some)
  qed (simp add: on_session_def ok)
  show "follows (isHeld k (hb_held h)) (inputs k (snd (on_session n f h))) (isHeld k (hb_held (fst (on_session n f h))))"
    by (cases "map_of (hb_sessions h) n") (simp_all add: on_session_def)
qed

lemma sound_on_queue:
  assumes "\<And>q q' out. queue_ok DECK_MAX_IN_FLIGHT q \<Longrightarrow> f q = (q', out) \<Longrightarrow> queue_ok DECK_MAX_IN_FLIGHT q'"
  shows "sound (on_queue n f)"
proof (rule soundI)
  fix h k
  assume ok: "hub_ok h"
  have "hub_ok (fst (on_queue n f h)) \<and> inputs k (snd (on_queue n f h)) = [] \<and> hb_held (fst (on_queue n f h)) = hb_held h"
  proof (cases "map_of (hb_sessions h) n")
    case (Some s)
    obtain q out where q: "f (ds_queue s) = (q, out)" by force
    have "queue_ok DECK_MAX_IN_FLIGHT (ds_queue s)" using ok Some unfolding hub_ok_def sessions_ok_def by blast
    then have "queue_ok DECK_MAX_IN_FLIGHT (ds_queue (s\<lparr>ds_queue := q\<rparr>))" using assms[OF _ q] by simp
    from put_session_ok[OF ok Some this] show ?thesis by (simp add: on_queue_def Some q)
  qed (simp add: on_queue_def ok)
  then show "hub_ok (fst (on_queue n f h))"
    "follows (isHeld k (hb_held h)) (inputs k (snd (on_queue n f h))) (isHeld k (hb_held (fst (on_queue n f h))))" by simp_all
qed

lemma sound_push: "sound (queue_push n item)"
  unfolding queue_push_def by (rule sound_on_queue) (rule fq_push_spec(1))

lemma sound_ack: "sound (on_queue n (fq_ack DECK_MAX_IN_FLIGHT k))"
  by (rule sound_on_queue) (rule fq_ack_spec(1))
text \<open>An operation that behaves at a state like a sound one at another with the same keys held.\<close>

lemma sound_shift:
  assumes "\<And>h. hub_ok h \<Longrightarrow> \<exists>g h1. sound g \<and> hub_ok h1 \<and> hb_held h1 = hb_held h \<and> f h = g h1"
  shows "sound f"
proof (rule soundI)
  fix h k
  assume "hub_ok h"
  from assms[OF this] obtain g h1 where g: "sound g" "hub_ok h1" "hb_held h1 = hb_held h" "f h = g h1" by blast
  show "hub_ok (fst (f h))" using soundD(1)[OF g(1,2)] by (simp add: g(4))
  show "follows (isHeld k (hb_held h)) (inputs k (snd (f h))) (isHeld k (hb_held (fst (f h))))"
    using soundD(2)[OF g(1,2), of k] by (simp add: g(3,4))
qed

lemma acts_first: "x h = (h1, []) \<Longrightarrow> acts (x # xs) h = acts xs h1"
  by (simp add: acts.simps(2) Let_def split: prod.splits)

lemma acts_one [simp]: "acts [f] h = f h"
  by (simp add: acts.simps(2) Let_def split: prod.splits)

lemma sound_ite: "sound f \<Longrightarrow> sound g \<Longrightarrow> sound (ite b f g)"
  by (rule sound_at) (metis ite_def)

lemma isHeld_mono: "held_ok m \<Longrightarrow> held_ok m' \<Longrightarrow> (\<And>n. holds m' n k \<Longrightarrow> holds m n k) \<Longrightarrow> isHeld k m' \<Longrightarrow> isHeld k m"
  by (auto simp: isHeld_iff)

lemma same_sessions:
  assumes "hb_sessions g = hb_sessions h"
  shows "is_live n g = is_live n h" "hb_live g = hb_live h" "hb_waiting g = hb_waiting h"
    "hb_nextId g = hb_nextId h \<Longrightarrow> sessions_ok g = sessions_ok h"
  using assms by (simp_all add: is_live_def hb_live_def hb_waiting_def sessions_ok_def)

text \<open>Fewer holds among the same sessions.\<close>

lemma hub_ok_fewer:
  assumes "hub_ok h" "held_ok m" "\<And>n k. holds m n k \<Longrightarrow> holds (hb_held h) n k"
  shows "hub_ok (h\<lparr>hb_held := m\<rparr>)"
proof -
  let ?h = "h\<lparr>hb_held := m\<rparr>"
  have "hb_sessions ?h = hb_sessions h" "hb_nextId ?h = hb_nextId h" by simp_all
  note same = same_sessions[OF this(1)] same_sessions(4)[OF this]
  show ?thesis unfolding hub_ok_def same using assms unfolding hub_ok_def by auto
qed

lemma sound_release: "sound (hb_release n)"
proof (rule soundI)
  fix h k
  assume ok: "hub_ok h"
  obtain freed m where r: "releaseSession n (hb_held h) = (freed, m)" by force
  have held: "held_ok (hb_held h)" using ok by (simp add: hub_ok_def)
  note sp = releaseSession_spec[OF held r]
  show "hub_ok (fst (hb_release n h))"
    using hub_ok_fewer[OF ok sp(1)] sp(2) by (simp add: hb_release_def r)
  have "isHeld k m \<Longrightarrow> isHeld k (hb_held h)" using isHeld_mono[OF held sp(1)] sp(2) by blast
  then show "follows (isHeld k (hb_held h)) (inputs k (snd (hb_release n h))) (isHeld k (hb_held (fst (hb_release n h))))"
    using sp(4)[of k] by (auto simp: hb_release_def r inputs_ups[OF sp(3)])
qed

lemma is_live_delete: "is_live m (h\<lparr>hb_sessions := AList.delete n (hb_sessions h)\<rparr>) \<longleftrightarrow> m \<noteq> n \<and> is_live m h"
  by (auto simp: is_live_def simp del: map_of_eq_Some_iff)

lemma hb_drop_shape:
  assumes "hub_ok h" "map_of (hb_sessions h) n = Some s"
  shows "fst (hb_drop n h) = fst (hb_release n h)\<lparr>hb_sessions := AList.delete n (hb_sessions h)\<rparr>"
    "inputs k (snd (hb_drop n h)) = inputs k (snd (hb_release n h))"
proof -
  obtain freed m where r: "releaseSession n (hb_held h) = (freed, m)" by force
  show "fst (hb_drop n h) = fst (hb_release n h)\<lparr>hb_sessions := AList.delete n (hb_sessions h)\<rparr>"
    by (simp add: hb_drop_def assms(2) hb_release_def r)
  show "inputs k (snd (hb_drop n h)) = inputs k (snd (hb_release n h))"
    by (simp add: hb_drop_def assms(2) hb_release_def r)
qed

lemma sound_drop: "sound (hb_drop n)"
proof (rule soundI)
  fix h k
  assume ok: "hub_ok h"
  obtain freed m where r: "releaseSession n (hb_held h) = (freed, m)" by force
  have held: "held_ok (hb_held h)" using ok by (simp add: hub_ok_def)
  note sp = releaseSession_spec[OF held r]
  let ?h = "h\<lparr>hb_held := m, hb_sessions := AList.delete n (hb_sessions h)\<rparr>"
  show "hub_ok (fst (hb_drop n h))"
  proof (cases "map_of (hb_sessions h) n")
    case (Some s)
    have "sessions_ok ?h"
      using ok by (auto simp: hub_ok_def sessions_ok_def simp del: map_of_eq_Some_iff)
    moreover have "is_live i ?h" if "holds m i j" for i j
    proof -
      have "holds (hb_held h) i j" "i \<noteq> n" using that sp(2) by simp_all
      then have "is_live i h" using ok unfolding hub_ok_def by blast
      then show ?thesis using \<open>i \<noteq> n\<close> by (simp add: is_live_def del: map_of_eq_Some_iff)
    qed
    moreover have "length (hb_live ?h) \<le> length (hb_live h)" "length (hb_waiting ?h) \<le> length (hb_waiting h)"
      by (simp_all add: hb_live_def hb_waiting_def filter_delete_length)
    ultimately have "hub_ok ?h" using ok sp(1) unfolding hub_ok_def by auto
    then show ?thesis using hb_drop_shape(1)[OF ok Some] by (simp add: hb_release_def r)
  qed (simp add: hb_drop_def ok)
  show "follows (isHeld k (hb_held h)) (inputs k (snd (hb_drop n h))) (isHeld k (hb_held (fst (hb_drop n h))))"
  proof (cases "map_of (hb_sessions h) n")
    case (Some s)
    have "hb_held (fst (hb_drop n h)) = hb_held (fst (hb_release n h))" using hb_drop_shape(1)[OF ok Some] by simp
    then show ?thesis using soundD(2)[OF sound_release ok, where k = k] hb_drop_shape(2)[OF ok Some, of k] by simp
  qed (simp add: hb_drop_def)
qed

lemma sound_bye: "sound (hb_bye n reason)"
  unfolding hb_bye_def
  by (intro sound_ite sound_skip sound_acts) (auto intro: sound_emits sound_drop)

lemma sound_for: "(\<And>x. sound (f x)) \<Longrightarrow> sound (\<lambda>h. acts (map f (xs h)) h)"
  by (rule sound_at) (metis (no_types, lifting) image_iff list.set_map sound_acts)

lemma sound_to_live: "(\<And>n. sound (f n)) \<Longrightarrow> sound (to_live f)"
  unfolding to_live_def[abs_def] by (rule sound_for) (simp split: prod.split)

lemma sound_texts: "sound (emits (Send_text n m))" "sound (emits (Note_seen t))" "sound (emits Clients_changed)"
  "sound (emits (Close_socket n))"
  by (rule sound_emits; simp)+

lemma sound_kick: "sound (hub_kick t r)"
  unfolding hub_kick_def[abs_def] by (rule sound_for) (simp add: sound_bye sound_skip split: prod.split)

lemma sound_closeAll: "sound (hub_closeAll r)"
  unfolding hub_closeAll_def[abs_def] by (rule sound_for) (simp add: sound_bye split: prod.split)

lemma sound_tick: "sound (hub_tick now)"
  unfolding hub_tick_def[abs_def] by (rule sound_for) (simp add: sound_bye sound_skip split: prod.split)

lemma fresh_id: "hub_ok h \<Longrightarrow> map_of (hb_sessions h) (hb_nextId h) = None"
  unfolding hub_ok_def sessions_ok_def map_of_eq_None_iff by (auto simp: image_iff)

lemma sound_open: "sound (hub_open remote e)"
proof (rule sound_shift)
  fix h
  assume ok: "hub_ok h"
  let ?n = "hb_nextId h"
  define h0 where "h0 = h\<lparr>hb_nextId := ?n + 1\<rparr>"
  have ok0: "hub_ok h0"
    using ok by (auto simp: h0_def hub_ok_def sessions_ok_def is_live_def hb_live_def hb_waiting_def simp del: map_of_eq_Some_iff)
  show "\<exists>g h1. sound g \<and> hub_ok h1 \<and> hb_held h1 = hb_held h \<and> hub_open remote e h = g h1"
  proof (cases "MAX_UNAUTHENTICATED \<le> length (hb_waiting h)")
    case True
    have "sound (acts [emits (Send_text ?n (Bye Bye_full)), hb_release ?n, emits (Close_socket ?n)])"
      by (rule sound_acts) (auto intro: sound_emits sound_release)
    then show ?thesis using ok0 True unfolding hub_open_def
      by (intro exI[of _ "acts [emits (Send_text ?n (Bye Bye_full)), hb_release ?n, emits (Close_socket ?n)]"] exI[of _ h0])
        (simp add: h0_def Let_def)
  next
    case False
    let ?h = "put_session ?n (new_session remote (dv_now e)) h0"
    have fresh: "map_of (hb_sessions h0) ?n = None" using fresh_id[OF ok] by (simp add: h0_def)
    have "length (hb_live ?h) = length (hb_live h0)" "length (hb_waiting ?h) = length (hb_waiting h0) + 1"
      by (simp_all add: hb_live_def hb_waiting_def om_set_fresh[OF fresh] new_session_def)
    moreover have "length (hb_waiting h0) = length (hb_waiting h)" by (simp add: h0_def hb_waiting_def)
    moreover have "is_live m h0 \<Longrightarrow> is_live m ?h" for m
      using fresh by (auto simp: is_live_def simp del: map_of_eq_Some_iff)
    moreover have "sessions_ok ?h"
      using ok ok0 fresh by (auto simp: hub_ok_def sessions_ok_def om_keys_set h0_def new_session_def deck_queue_ok
          simp del: map_of_eq_Some_iff)
    ultimately have "hub_ok ?h" using ok0 False unfolding hub_ok_def by auto
    then show ?thesis using False sound_skip unfolding hub_open_def
      by (intro exI[of _ skip] exI[of _ ?h]) (simp add: skip_def h0_def put_session_def Let_def)
  qed
qed
text \<open>Presses: only a live session may hold a key.\<close>

definition release_key :: "nat \<Rightarrow> nat \<Rightarrow> hub_act" where
  "release_key n k h = (let (free, m) = held_up n k (hb_held h) in (h\<lparr>hb_held := m\<rparr>, if free then [Input k K_up] else []))"

definition press_key :: "nat \<Rightarrow> nat \<Rightarrow> hub_act" where
  "press_key n k h = (let (new, m) = held_down n k (hb_held h) in (h\<lparr>hb_held := m\<rparr>, if new then [Input k K_down] else []))"

lemma sound_release_key: "sound (release_key n k)"
proof (rule soundI)
  fix h j
  assume ok: "hub_ok h"
  obtain b m where u: "held_up n k (hb_held h) = (b, m)" by force
  have held: "held_ok (hb_held h)" using ok by (simp add: hub_ok_def)
  have sp: "held_ok m" "\<And>i j. holds m i j \<longleftrightarrow> holds (hb_held h) i j \<and> \<not> (i = n \<and> j = k)"
    "b \<longleftrightarrow> isHeld k (hb_held h) \<and> \<not> isHeld k m"
    using held_up_spec[OF held u] by blast+
  show "hub_ok (fst (release_key n k h))"
    using hub_ok_fewer[OF ok sp(1)] sp(2) by (simp add: release_key_def u)
  have "isHeld k m \<Longrightarrow> isHeld k (hb_held h)" using isHeld_mono[OF held sp(1)] sp(2) by blast
  moreover have "j \<noteq> k \<Longrightarrow> isHeld j m = isHeld j (hb_held h)"
    unfolding isHeld_iff[OF held] isHeld_iff[OF sp(1)] sp(2) by blast
  ultimately show "follows (isHeld j (hb_held h)) (inputs j (snd (release_key n k h))) (isHeld j (hb_held (fst (release_key n k h))))"
    using sp(3) by (cases "j = k") (auto simp: release_key_def u)
qed

lemma sound_press_key: "sound (ite (is_live n) (press_key n k) skip)"
proof (rule soundI)
  fix h j
  assume ok: "hub_ok h"
  obtain b m where u: "held_down n k (hb_held h) = (b, m)" by force
  have held: "held_ok (hb_held h)" using ok by (simp add: hub_ok_def)
  have sp: "held_ok m" "\<And>i j. holds m i j \<longleftrightarrow> holds (hb_held h) i j \<or> i = n \<and> j = k"
    "b \<longleftrightarrow> \<not> isHeld k (hb_held h)"
    using held_down_spec[OF held u] by blast+
  let ?h = "h\<lparr>hb_held := m\<rparr>"
  have "hb_sessions ?h = hb_sessions h" "hb_nextId ?h = hb_nextId h" by simp_all
  note same = same_sessions[OF this(1)] same_sessions(4)[OF this]
  have "hub_ok ?h" if "is_live n h"
    using ok sp(1,2) that unfolding hub_ok_def same by auto
  then show "hub_ok (fst (ite (is_live n) (press_key n k) skip h))"
    using ok by (simp add: ite_def press_key_def u)
  have "isHeld k m" unfolding isHeld_iff[OF sp(1)] sp(2) by blast
  moreover have "j \<noteq> k \<Longrightarrow> isHeld j m = isHeld j (hb_held h)"
    unfolding isHeld_iff[OF held] isHeld_iff[OF sp(1)] sp(2) by blast
  ultimately show "follows (isHeld j (hb_held h)) (inputs j (snd (ite (is_live n) (press_key n k) skip h)))
      (isHeld j (hb_held (fst (ite (is_live n) (press_key n k) skip h))))"
    using sp(3) by (cases "j = k") (auto simp: ite_def press_key_def u)
qed

lemma hub_ok_queue: "hub_ok h \<Longrightarrow> map_of (hb_sessions h) n = Some s \<Longrightarrow> queue_ok DECK_MAX_IN_FLIGHT (ds_queue s)"
  unfolding hub_ok_def sessions_ok_def by blast

lemma is_live_put: "is_live n (put_session n s h) \<longleftrightarrow> ds_state s = Live"
  by (simp add: is_live_def)

lemma sound_sample: "sound (on_session n (\<lambda>s. s\<lparr>ds_freshness := f s\<rparr>))"
  by (rule sound_on_session) simp_all

lemma sound_key: "sound (ite (is_live n) (hb_key n k st c e) skip)"
proof (rule sound_shift)
  fix h
  assume ok: "hub_ok h"
  consider (off) "\<not> is_live n h" | (range) "is_live n h" "dv_keyCount e \<le> k"
    | (up) "is_live n h" "\<not> dv_keyCount e \<le> k" "st = K_up"
    | (down) "is_live n h" "\<not> dv_keyCount e \<le> k" "st = K_down"
    by (cases st) auto
  then show "\<exists>g h1. sound g \<and> hub_ok h1 \<and> hb_held h1 = hb_held h \<and> ite (is_live n) (hb_key n k st c e) skip h = g h1"
  proof cases
    case off
    then show ?thesis using ok sound_skip by (intro exI[of _ skip] exI[of _ h]) (simp add: ite_def)
  next
    case range
    then show ?thesis using ok sound_bye by (intro exI[of _ "hb_bye n Bye_protocol"] exI[of _ h]) (simp add: ite_def hb_key_def)
  next
    case up
    have "sound (acts [on_session n (\<lambda>s. s\<lparr>ds_freshness := sample c (dv_now e) (ds_freshness s)\<rparr>), release_key n k])"
      by (rule sound_acts) (auto intro: sound_sample sound_release_key)
    moreover have "ite (is_live n) (hb_key n k st c e) skip h
        = acts [on_session n (\<lambda>s. s\<lparr>ds_freshness := sample c (dv_now e) (ds_freshness s)\<rparr>), release_key n k] h"
      using up unfolding ite_def hb_key_def release_key_def[abs_def] by simp
    ultimately show ?thesis using ok by blast
  next
    case down
    from down(1) obtain s where s: "map_of (hb_sessions h) n = Some s" "ds_state s = Live" unfolding is_live_def by blast
    define h1 where "h1 = put_session n (s\<lparr>ds_freshness := sample c (dv_now e) (ds_freshness s)\<rparr>) h"
    have h1: "hub_ok h1" "hb_held h1 = hb_held h"
      using put_session_ok[OF ok s(1)] hub_ok_queue[OF ok s(1)] by (simp_all add: h1_def)
    have first: "acts (on_session n (\<lambda>s. s\<lparr>ds_freshness := sample c (dv_now e) (ds_freshness s)\<rparr>) # xs) h = acts xs h1" for xs
      by (rule acts_first) (simp add: on_session_def upd_def s(1) h1_def)
    define late where "late = lateness c (dv_now e) (ds_freshness s)"
    define h2 where "h2 = h1\<lparr>hb_latencies := latency_add late (hb_latencies h1)\<rparr>"
    have h2: "hub_ok h2" "hb_held h2 = hb_held h" "is_live n h2"
      using h1 hub_ok_cong[of h2 h1] s(2) by (simp_all add: h2_def h1_def is_live_def)
    have second: "acts (upd (\<lambda>h. h\<lparr>hb_latencies := latency_add late (hb_latencies h)\<rparr>) # xs) h1 = acts xs h2" for xs
      by (rule acts_first) (simp add: upd_def h2_def)
    have "ite (is_live n) (hb_key n k st c e) skip h
        = (if DECK_MAX_DOWN_LATENESS_MS < late then skip h1 else ite (is_live n) (press_key n k) skip h2)"
      using down h2(3) unfolding ite_def hb_key_def s(1) press_key_def[abs_def]
      by (simp add: first second flip: late_def)
    then show ?thesis using h1 h2 sound_skip sound_press_key by (cases "DECK_MAX_DOWN_LATENESS_MS < late") auto
  qed
qed

lemma sound_live_message: "sound (ite (is_live n) (live_message n m e) skip)"
proof (cases m)
  case (M_key k st c)
  then show ?thesis using sound_key by (simp add: live_message_def)
next
  case (M_hello v t c w nm)
  then show ?thesis by (simp add: live_message_def sound_ite sound_bye sound_skip)
next
  case (M_releaseAll c)
  then show ?thesis
    by (auto simp: live_message_def intro!: sound_ite sound_skip sound_acts sound_sample sound_release)
next
  case (M_ping c)
  then show ?thesis
    by (auto simp: live_message_def intro!: sound_ite sound_skip sound_acts sound_sample sound_texts)
next
  case (M_ack c)
  then show ?thesis by (auto simp: live_message_def intro!: sound_ite sound_skip sound_ack)
qed

lemma sound_hello: "sound (hub_hello n v t c w nm e)"
proof (rule sound_shift)
  fix h
  assume ok: "hub_ok h"
  show "\<exists>g h1. sound g \<and> hub_ok h1 \<and> hb_held h1 = hb_held h \<and> hub_hello n v t c w nm e h = g h1"
  proof (cases "v = DECK_PROTOCOL_VERSION")
    case False
    then show ?thesis using ok sound_bye by (intro exI[of _ "hb_bye n Bye_upgrade"] exI[of _ h]) (simp add: hub_hello_def)
  next
    case v: True
    show ?thesis
    proof (cases "map_of (hb_sessions h) n")
      case None
      then show ?thesis using ok sound_skip v by (intro exI[of _ skip] exI[of _ h]) (simp add: hub_hello_def)
    next
      case (Some s)
      obtain wt l where l: "checkFailedAuth (ds_remoteAddress s) (dv_wall e) (hb_limits h) = (wt, l)" by force
      define r where "r = \<lparr> he_who = deck_verify (dv_sha e) (dv_records e) t, he_clientId = c, he_now = w, he_name = nm \<rparr>"
      show ?thesis
      proof (cases "0 < wt")
        case True
        then show ?thesis using ok sound_bye v Some l hub_ok_cong[of "h\<lparr>hb_limits := l\<rparr>" h]
          by (intro exI[of _ "hb_bye n Bye_unauthorized"] exI[of _ "h\<lparr>hb_limits := l\<rparr>"]) (simp add: hub_hello_def Let_def)
      next
        case False
        then show ?thesis
          using ok sound_skip v Some l
            hub_ok_cong[of "h\<lparr>hb_limits := l, hb_verifying := hb_verifying h @ [(n, r)]\<rparr>" h]
          by (intro exI[of _ skip] exI[of _ "h\<lparr>hb_limits := l, hb_verifying := hb_verifying h @ [(n, r)]\<rparr>"])
            (simp add: hub_hello_def Let_def skip_def r_def)
      qed
    qed
  qed
qed

text \<open>A session goes live only while there is room.\<close>

lemma put_live_ok:
  assumes ok: "hub_ok h" and s: "map_of (hb_sessions h) n = Some s" "ds_state s \<noteq> Live"
    and s': "ds_queue s' = ds_queue s" "ds_state s' = Live" and room: "length (hb_live h) < DECK_MAX_CLIENTS"
  shows "hub_ok (put_session n s' h)"
proof -
  have d: "distinct (keys_of (hb_sessions h))" using ok by (simp add: hub_ok_def sessions_ok_def)
  have n: "n \<in> set (keys_of (hb_sessions h))" using map_of_SomeD[OF s(1)] by force
  have "length (hb_live (put_session n s' h)) = length (hb_live h) + 1"
    using filter_update_length[OF d s(1), of "\<lambda>s. ds_state s = Live" s'] s(2) s'(2) by (simp add: hb_live_def)
  moreover have "length (hb_waiting (put_session n s' h)) + 1 = length (hb_waiting h)"
    using filter_update_length[OF d s(1), of "\<lambda>s. ds_state s \<noteq> Live" s'] s(2) s'(2) by (simp add: hb_waiting_def)
  moreover have "is_live m h \<Longrightarrow> is_live m (put_session n s' h)" for m
    using s' by (auto simp: is_live_def simp del: map_of_eq_Some_iff)
  moreover have "sessions_ok (put_session n s' h)"
    using ok n hub_ok_queue[OF ok s(1)] s'(1)
    by (simp add: hub_ok_def sessions_ok_def om_keys_set del: map_of_eq_Some_iff)
  ultimately show ?thesis using ok room unfolding hub_ok_def by auto
qed

definition welcome_rest :: "nat \<Rightarrow> hello \<Rightarrow> string \<times> string \<Rightarrow> deck_env \<Rightarrow> hub_act list" where
  "welcome_rest n r who e =
     (let name = (case he_name r of Some nm \<Rightarrow> nm | None \<Rightarrow> snd who)
      in [emits (Note_seen (fst who)),
          emits (Send_text n (Welcome DECK_PROTOCOL_VERSION (dv_keyCount e) (dv_brightness e) (dv_paired e) name))]
        @ map (\<lambda>(k, data, jpeg). queue_push n (Q_frame k (encodeDeckFrame k data jpeg))) (sort_key fst (dv_snapshot e))
        @ [emits Clients_changed])"

lemma sound_welcome_rest: "sound (acts (welcome_rest n r who e))"
  by (rule sound_acts) (auto simp: welcome_rest_def Let_def sound_texts sound_push)

lemma welcome_split:
  assumes "map_of (hb_sessions h) n = Some s"
  shows "hb_welcome n r who e h
    = acts (welcome_rest n r who e)
        (put_session n (s\<lparr>ds_state := Live, ds_tokenId := fst who, ds_clientId := he_clientId r,
          ds_deviceName := (case he_name r of Some nm \<Rightarrow> nm | None \<Rightarrow> snd who),
          ds_freshness := sample (he_now r) (dv_now e) (ds_freshness s)\<rparr>) h)"
  unfolding hb_welcome_def welcome_rest_def Let_def append_Cons
  by (rule acts_first) (simp add: on_session_def upd_def assms)

lemma sound_verified: "sound (hub_verified n e)"
proof (rule sound_shift)
  fix h
  assume ok: "hub_ok h"
  show "\<exists>g h1. sound g \<and> hub_ok h1 \<and> hb_held h1 = hb_held h \<and> hub_verified n e h = g h1"
  proof (cases "map_of (hb_verifying h) n")
    case None
    then show ?thesis using ok sound_skip by (intro exI[of _ skip] exI[of _ h]) (simp add: hub_verified_def)
  next
    case (Some r)
    define h0 where "h0 = h\<lparr>hb_verifying := AList.delete n (hb_verifying h)\<rparr>"
    have h0: "hub_ok h0" "hb_held h0 = hb_held h" "hb_sessions h0 = hb_sessions h" "hb_limits h0 = hb_limits h"
      using ok hub_ok_cong[of h0 h] by (simp_all add: h0_def)
    note red = hub_verified_def Some Let_def option.case h0_def[symmetric] h0(3)
    show ?thesis
    proof (cases "map_of (hb_sessions h) n")
      case None
      then show ?thesis using h0 sound_skip by (intro exI[of _ skip] exI[of _ h0]) (simp add: red)
    next
      case s: (Some s)
      consider (other) "ds_state s \<noteq> Authenticating"
        | (unknown) "ds_state s = Authenticating" "he_who r = None"
        | (crowded) who where "ds_state s = Authenticating" "he_who r = Some who" "DECK_MAX_CLIENTS \<le> length (hb_live h0)"
        | (admitted) who where "ds_state s = Authenticating" "he_who r = Some who" "length (hb_live h0) < DECK_MAX_CLIENTS"
        by (meson not_le option.exhaust)
      then show ?thesis
      proof cases
        case other
        then show ?thesis using h0 sound_skip s by (intro exI[of _ skip] exI[of _ h0]) (simp add: red)
      next
        case unknown
        let ?g = "acts [upd (\<lambda>h. h\<lparr>hb_limits := noteFailedAuth (ds_remoteAddress s) (dv_wall e) (hb_limits h)\<rparr>),
            hb_bye n Bye_unauthorized]"
        have "sound ?g" by (rule sound_acts) (auto intro: sound_upd sound_bye)
        moreover have "hub_verified n e h = ?g h0" using unknown s by (simp add: red)
        ultimately show ?thesis using h0 by blast
      next
        case crowded
        then show ?thesis using h0 sound_bye s by (intro exI[of _ "hb_bye n Bye_full"] exI[of _ h0]) (simp add: red)
      next
        case admitted
        have s0: "map_of (hb_sessions h0) n = Some s" using s h0(3) by simp
        let ?s = "s\<lparr>ds_state := Live, ds_tokenId := fst who, ds_clientId := he_clientId r,
          ds_deviceName := (case he_name r of Some nm \<Rightarrow> nm | None \<Rightarrow> snd who),
          ds_freshness := sample (he_now r) (dv_now e) (ds_freshness s)\<rparr>"
        have "hub_ok (put_session n ?s h0)"
          using admitted by (intro put_live_ok[OF h0(1) s0]) simp_all
        moreover have "hub_verified n e h = acts (welcome_rest n r who e) (put_session n ?s h0)"
          using admitted s welcome_split[OF s0] by (simp add: red)
        ultimately show ?thesis using sound_welcome_rest h0(2) by (metis put_session_simps(1))
      qed
    qed
  qed
qed
lemma allowMessage_same:
  "allowMessage now s = (b, s') \<Longrightarrow> ds_queue s' = ds_queue s \<and> ds_state s' = ds_state s \<and> ds_tokenId s' = ds_tokenId s"
  by (auto simp: allowMessage_def Let_def)

lemma sound_message: "sound (hub_message n text e)"
proof (rule sound_shift)
  fix h
  assume ok: "hub_ok h"
  show "\<exists>g h1. sound g \<and> hub_ok h1 \<and> hb_held h1 = hb_held h \<and> hub_message n text e h = g h1"
  proof (cases "map_of (hb_sessions h) n")
    case None
    then show ?thesis using ok sound_skip by (intro exI[of _ skip] exI[of _ h]) (simp add: hub_message_def)
  next
    case (Some s)
    obtain b s1 where a: "allowMessage (dv_now e) (s\<lparr>ds_lastRxAt := dv_now e\<rparr>) = (b, s1)" by force
    have s1: "ds_queue s1 = ds_queue s" "ds_state s1 = ds_state s" using allowMessage_same[OF a] by simp_all
    define h1 where "h1 = put_session n s1 h"
    have h1: "hub_ok h1" "hb_held h1 = hb_held h" "map_of (hb_sessions h1) n = Some s1"
      using put_session_ok[OF ok Some, of s1] hub_ok_queue[OF ok Some] s1 by (simp_all add: h1_def)
    note red = hub_message_def Some a Let_def option.case prod.case h1_def[symmetric]
    show ?thesis
    proof (cases "\<not> b \<or> parseDeckClientMsg text = None")
      case True
      then show ?thesis using h1 sound_bye by (intro exI[of _ "hb_bye n Bye_protocol"] exI[of _ h1]) (auto simp: red)
    next
      case False
      then obtain m where b: b and m: "parseDeckClientMsg text = Some m" by auto
      note red = red b m option.case not_True_eq_False if_False
      show ?thesis
      proof (cases "ds_state s1")
        case Authenticating
        then show ?thesis using h1 sound_skip by (intro exI[of _ skip] exI[of _ h1]) (simp add: red)
      next
        case Live
        then have "is_live n h1" using h1(3) by (simp add: is_live_def)
        then show ?thesis using h1 Live sound_live_message
          by (intro exI[of _ "ite (is_live n) (live_message n m e) skip"] exI[of _ h1]) (simp add: red ite_def)
      next
        case aw: Awaiting_hello
        show ?thesis
        proof (cases m)
          case (M_hello v t c w nm)
          define h2 where "h2 = put_session n (s1\<lparr>ds_state := Authenticating\<rparr>) h1"
          have h2: "hub_ok h2" "hb_held h2 = hb_held h"
            using put_session_ok[OF h1(1,3), of "s1\<lparr>ds_state := Authenticating\<rparr>"] hub_ok_queue[OF h1(1,3)] aw h1(2)
            by (simp_all add: h2_def)
          have "acts (on_session n (\<lambda>s. s\<lparr>ds_state := Authenticating\<rparr>) # xs) h1 = acts xs h2" for xs
            by (rule acts_first) (simp add: on_session_def upd_def h1(3) h2_def)
          then have "hub_message n text e h = hub_hello n v t c w nm e h2"
            using aw M_hello by (simp add: red)
          then show ?thesis using h2 sound_hello by blast
        qed (use h1 aw sound_bye in \<open>auto simp: red intro!: exI[of _ "hb_bye n Bye_protocol"] exI[of _ h1]\<close>)
      qed
    qed
  qed
qed

lemma sound_step: "sound (hub_step i e)"
proof (cases i)
  case (Limits_now l)
  then show ?thesis by (simp add: sound_upd)
qed (simp_all add: sound_open sound_message sound_drop sound_verified sound_kick sound_closeAll sound_tick
  hub_frame_def hub_clear_def hub_brightness_def hub_paired_def sound_to_live sound_push sound_texts)

lemma hub_run_sound: "sound (hub_run is)"
proof (induction "is")
  case Nil
  show ?case by (rule soundI) simp_all
next
  case (Cons x "is")
  obtain i e where x: "x = (i, e)" by force
  have eq: "hub_run (x # is) = (\<lambda>h. (fst (hub_run is (fst (hub_step i e h))), snd (hub_step i e h) @ snd (hub_run is (fst (hub_step i e h)))))"
    by (rule ext) (simp add: x Let_def split: prod.splits)
  show ?case unfolding eq by (rule sound_seq[OF sound_step Cons])
qed

lemma new_hub_ok: "hub_ok (new_hub l)"
  by (simp add: hub_ok_def sessions_ok_def new_hub_def hb_live_def hb_waiting_def held_ok_def holds_def)

lemma hub_run_ok:
  assumes "hub_run is (new_hub l) = (h, es)"
  shows "hub_ok h" "follows False (inputs k es) (isHeld k (hb_held h))"
  using soundD(1)[OF hub_run_sound new_hub_ok, of "is" l] soundD(2)[OF hub_run_sound new_hub_ok, of k l "is"]
  by (simp_all add: assms) (simp add: new_hub_def isHeld_def)

text \<open>C28. No key sticks on the browser deck: whatever the pages send, however they come and go, the dock
  sees presses and releases of a key in turn, beginning with a press, and takes it for pressed exactly
  while a page that is connected and authenticated holds it.\<close>

theorem no_stuck_key:
  assumes "hub_run is (new_hub l) = (h, es)"
  shows "follows False (inputs k es) (\<exists>n. is_live n h \<and> holds (hb_held h) n k)"
proof -
  have ok: "hub_ok h" by (rule hub_run_ok(1)[OF assms])
  then have "isHeld k (hb_held h) \<longleftrightarrow> (\<exists>n. is_live n h \<and> holds (hb_held h) n k)"
    using isHeld_iff[of "hb_held h" k] unfolding hub_ok_def by blast
  then show ?thesis using hub_run_ok(2)[OF assms, of k] by simp
qed

section \<open>Only pages with a token\<close>

text \<open>An action that makes no session live and starts no verification.\<close>

definition no_entry :: "deck_hub \<Rightarrow> deck_hub \<Rightarrow> bool" where
  "no_entry h h' \<longleftrightarrow>
     (\<forall>n s'. map_of (hb_sessions h') n = Some s' \<longrightarrow> ds_state s' = Live \<longrightarrow>
        (\<exists>s. map_of (hb_sessions h) n = Some s \<and> ds_state s = Live \<and> ds_tokenId s = ds_tokenId s'))
     \<and> set (hb_verifying h') \<subseteq> set (hb_verifying h)"

definition closed_door :: "hub_act \<Rightarrow> bool" where
  "closed_door f \<longleftrightarrow> (\<forall>h. no_entry h (fst (f h)))"

lemma no_entry_refl: "no_entry h h"
  by (simp add: no_entry_def)

lemma no_entry_trans: "no_entry a b \<Longrightarrow> no_entry b c \<Longrightarrow> no_entry a c"
  unfolding no_entry_def by (metis subset_trans)

lemma no_entry_same: "hb_sessions h' = hb_sessions h \<Longrightarrow> hb_verifying h' = hb_verifying h \<Longrightarrow> no_entry h h'"
  by (simp add: no_entry_def)

lemma closed_doorI: "(\<And>h. no_entry h (fst (f h))) \<Longrightarrow> closed_door f"
  by (simp add: closed_door_def)

lemma closed_doorD: "closed_door f \<Longrightarrow> no_entry h (fst (f h))"
  by (simp add: closed_door_def)

lemma closed_simple: "closed_door skip" "closed_door (emits x)"
  by (rule closed_doorI; simp add: no_entry_refl)+

lemma closed_acts: "(\<And>f. f \<in> set fs \<Longrightarrow> closed_door f) \<Longrightarrow> closed_door (acts fs)"
proof (induction fs)
  case (Cons f fs)
  show ?case
  proof (rule closed_doorI)
    fix h
    have "closed_door f" "closed_door (acts fs)" using Cons by simp_all
    then show "no_entry h (fst (acts (f # fs) h))"
      using no_entry_trans[OF closed_doorD closed_doorD] by simp
  qed
qed (rule closed_doorI; simp add: no_entry_refl)

lemma closed_at: "(\<And>h. \<exists>g. closed_door g \<and> f h = g h) \<Longrightarrow> closed_door f"
  by (rule closed_doorI) (metis closed_doorD)

lemma closed_for: "(\<And>x. closed_door (f x)) \<Longrightarrow> closed_door (\<lambda>h. acts (map f (xs h)) h)"
  by (rule closed_at) (metis (no_types, lifting) image_iff list.set_map closed_acts)

lemma closed_to_live: "(\<And>n. closed_door (f n)) \<Longrightarrow> closed_door (to_live f)"
  unfolding to_live_def[abs_def] by (rule closed_for) (simp split: prod.split)

lemma no_entry_put:
  assumes "map_of (hb_sessions h) n = Some s" "ds_state s' = Live \<Longrightarrow> ds_state s = Live \<and> ds_tokenId s = ds_tokenId s'"
  shows "no_entry h (put_session n s' h)"
  using assms by (auto simp: no_entry_def put_session_def simp del: map_of_eq_Some_iff)

lemma closed_on_session:
  assumes "\<And>s. ds_state (f s) = Live \<Longrightarrow> ds_state s = Live \<and> ds_tokenId s = ds_tokenId (f s)"
  shows "closed_door (on_session n f)"
proof (rule closed_doorI)
  fix h
  show "no_entry h (fst (on_session n f h))"
  proof (cases "map_of (hb_sessions h) n")
    case (Some s)
    from no_entry_put[OF Some assms] show ?thesis by (simp add: on_session_def Some)
  qed (simp add: on_session_def no_entry_refl)
qed

lemma closed_on_queue: "closed_door (on_queue n f)"
proof (rule closed_doorI)
  fix h
  show "no_entry h (fst (on_queue n f h))"
  proof (cases "map_of (hb_sessions h) n")
    case (Some s)
    have "no_entry h (put_session n (s\<lparr>ds_queue := q\<rparr>) h)" for q by (rule no_entry_put[OF Some]) simp
    then show ?thesis by (simp add: on_queue_def Some split: prod.split)
  qed (simp add: on_queue_def no_entry_refl)
qed

lemma closed_held: "closed_door (hb_release n)" "closed_door (press_key n k)" "closed_door (release_key n k)"
  by (rule closed_doorI; simp add: hb_release_def press_key_def release_key_def no_entry_def split: prod.split)+

lemma closed_upd: "(\<And>h. hb_sessions (f h) = hb_sessions h \<and> hb_verifying (f h) = hb_verifying h) \<Longrightarrow> closed_door (upd f)"
  by (rule closed_doorI) (simp add: no_entry_same)

lemma closed_drop: "closed_door (hb_drop n)"
proof (rule closed_at)
  fix h
  show "\<exists>g. closed_door g \<and> hb_drop n h = g h"
  proof (cases "map_of (hb_sessions h) n")
    case (Some s)
    have "closed_door (upd (\<lambda>h. h\<lparr>hb_sessions := AList.delete n (hb_sessions h)\<rparr>))"
      by (rule closed_doorI) (auto simp: no_entry_def simp del: map_of_eq_Some_iff split: if_splits)
    then have "closed_door (acts [upd (\<lambda>h. h\<lparr>hb_sessions := AList.delete n (hb_sessions h)\<rparr>), hb_release n,
        if ds_state s = Live then emits Clients_changed else skip])"
      by (intro closed_acts) (auto intro: closed_held closed_simple)
    then show ?thesis by (intro exI conjI) (auto simp: hb_drop_def Some)
  qed (use closed_simple in \<open>auto simp: hb_drop_def\<close>)
qed

lemma closed_bye: "closed_door (hb_bye n r)"
proof (rule closed_at)
  fix h
  have "closed_door (acts [emits (Send_text n (Bye r)), hb_drop n, emits (Close_socket n)])"
    by (rule closed_acts) (auto intro: closed_drop closed_simple)
  then show "\<exists>g. closed_door g \<and> hb_bye n r h = g h"
    using closed_simple(1) unfolding hb_bye_def ite_def by (cases "map_of (hb_sessions h) n = None") auto
qed

lemma closed_key: "closed_door (hb_key n k st c e)"
proof (rule closed_at)
  fix h
  let ?fr = "on_session n (\<lambda>s. s\<lparr>ds_freshness := sample c (dv_now e) (ds_freshness s)\<rparr>)"
  have fr: "closed_door ?fr" by (rule closed_on_session) simp
  show "\<exists>g. closed_door g \<and> hb_key n k st c e h = g h"
  proof (cases "dv_keyCount e \<le> k")
    case True
    then show ?thesis using closed_bye by (intro exI[of _ "hb_bye n Bye_protocol"]) (simp add: hb_key_def)
  next
    case k: False
    show ?thesis
    proof (cases st)
      case K_up
      have "closed_door (acts [?fr, release_key n k])" by (rule closed_acts) (auto intro: fr closed_held)
      moreover have "hb_key n k st c e h = acts [?fr, release_key n k] h"
        using k K_up by (simp add: hb_key_def release_key_def[abs_def])
      ultimately show ?thesis by blast
    next
      case K_down
      show ?thesis
      proof (cases "map_of (hb_sessions h) n")
        case None
        then show ?thesis using k K_down closed_simple by (intro exI[of _ skip]) (simp add: hb_key_def)
      next
        case (Some s)
        let ?late = "lateness c (dv_now e) (ds_freshness s)"
        let ?g = "acts [?fr, if DECK_MAX_DOWN_LATENESS_MS < ?late then skip
          else acts [upd (\<lambda>h. h\<lparr>hb_latencies := latency_add ?late (hb_latencies h)\<rparr>), press_key n k]]"
        have "closed_door ?g"
          by (rule closed_acts) (auto intro!: fr closed_simple closed_acts closed_upd closed_held)
        moreover have "hb_key n k st c e h = ?g h"
          using k K_down Some by (simp add: hb_key_def press_key_def[abs_def] Let_def)
        ultimately show ?thesis by blast
      qed
    qed
  qed
qed

lemma closed_live_message: "closed_door (live_message n m e)"
  by (cases m)
    (auto simp: live_message_def closed_bye closed_key closed_on_queue
      intro!: closed_acts closed_on_session closed_simple closed_held)

lemma closed_steps: "closed_door (hub_kick t r)" "closed_door (hub_closeAll r)" "closed_door (hub_tick now)"
  unfolding hub_kick_def[abs_def] hub_closeAll_def[abs_def] hub_tick_def[abs_def]
  by (rule closed_for; simp add: closed_bye closed_simple split: prod.split)+

lemma closed_open: "hub_ok h \<Longrightarrow> no_entry h (fst (hub_open remote e h))"
proof -
  assume ok: "hub_ok h"
  let ?n = "hb_nextId h"
  let ?g = "acts [emits (Send_text ?n (Bye Bye_full)), hb_release ?n, emits (Close_socket ?n)]"
  have "closed_door ?g" by (rule closed_acts) (auto intro: closed_simple closed_held)
  then have full: "no_entry h (fst (?g (h\<lparr>hb_nextId := ?n + 1\<rparr>)))"
    by (intro no_entry_trans[OF no_entry_same closed_doorD]) simp_all
  have "no_entry h (put_session ?n (new_session remote (dv_now e)) (h\<lparr>hb_nextId := ?n + 1\<rparr>))"
    using fresh_id[OF ok] by (auto simp: no_entry_def put_session_def new_session_def simp del: map_of_eq_Some_iff)
  then show ?thesis using full unfolding hub_open_def Let_def by (simp del: fst_acts)
qed

text \<open>The page of session n has been asked for its token, and the token was one of the deck's when
  it was looked up.\<close>

definition showed_token :: "(hub_input \<times> deck_env) list \<Rightarrow> nat \<Rightarrow> string \<times> string \<Rightarrow> bool" where
  "showed_token is n who \<longleftrightarrow>
     (\<exists>tx e v token c w nm. (Message n tx, e) \<in> set is \<and> parseDeckClientMsg tx = Some (M_hello v token c w nm)
        \<and> v = DECK_PROTOCOL_VERSION \<and> deck_verify (dv_sha e) (dv_records e) token = Some who)"

definition admitted_ok :: "(hub_input \<times> deck_env) list \<Rightarrow> deck_hub \<Rightarrow> bool" where
  "admitted_ok is h \<longleftrightarrow>
     (\<forall>n s. map_of (hb_sessions h) n = Some s \<longrightarrow> ds_state s = Live \<longrightarrow> (\<exists>nm. showed_token is n (ds_tokenId s, nm)))
     \<and> (\<forall>n r who. (n, r) \<in> set (hb_verifying h) \<longrightarrow> he_who r = Some who \<longrightarrow> showed_token is n who)"

lemma showed_more: "showed_token is n who \<Longrightarrow> showed_token (is @ js) n who"
  unfolding showed_token_def by (metis UnI1 set_append)

lemma admitted_more: "admitted_ok is h \<Longrightarrow> admitted_ok (is @ js) h"
  unfolding admitted_ok_def using showed_more by blast

lemma admitted_no_entry:
  assumes ok: "admitted_ok is h" and no: "no_entry h h'"
  shows "admitted_ok is h'"
  unfolding admitted_ok_def
proof (intro conjI allI impI)
  fix n s'
  assume "map_of (hb_sessions h') n = Some s'" "ds_state s' = Live"
  then obtain s where "map_of (hb_sessions h) n = Some s" "ds_state s = Live" "ds_tokenId s = ds_tokenId s'"
    using no unfolding no_entry_def by blast
  then show "\<exists>nm. showed_token is n (ds_tokenId s', nm)" using ok unfolding admitted_ok_def by metis
next
  fix n r who
  assume "(n, r) \<in> set (hb_verifying h')" "he_who r = Some who"
  then show "showed_token is n who" using ok no unfolding admitted_ok_def no_entry_def by blast
qed

lemma admitted_closed: "admitted_ok is h \<Longrightarrow> closed_door f \<Longrightarrow> admitted_ok is (fst (f h))"
  using admitted_no_entry closed_doorD by blast

lemma admitted_hello:
  assumes "admitted_ok is h" "(Message n tx, e) \<in> set is" "parseDeckClientMsg tx = Some (M_hello v t c w nm)"
  shows "admitted_ok is (fst (hub_hello n v t c w nm e h))"
proof (cases "v = DECK_PROTOCOL_VERSION")
  case False
  then show ?thesis using admitted_closed[OF assms(1) closed_bye] by (simp add: hub_hello_def)
next
  case v: True
  show ?thesis
  proof (cases "map_of (hb_sessions h) n")
    case (Some s)
    obtain wt l where l: "checkFailedAuth (ds_remoteAddress s) (dv_wall e) (hb_limits h) = (wt, l)" by force
    define r where "r = \<lparr> he_who = deck_verify (dv_sha e) (dv_records e) t, he_clientId = c, he_now = w, he_name = nm \<rparr>"
    have r: "showed_token is n who" if "he_who r = Some who" for who
      unfolding showed_token_def using assms(2,3) v that
      by (intro exI[of _ tx] exI[of _ e] exI[of _ v] exI[of _ t] exI[of _ c] exI[of _ w] exI[of _ nm]) (simp add: r_def)
    have lim: "admitted_ok is (h\<lparr>hb_limits := l\<rparr>)" by (rule admitted_no_entry[OF assms(1) no_entry_same]) simp_all
    have "admitted_ok is (h\<lparr>hb_limits := l, hb_verifying := hb_verifying h @ [(n, r)]\<rparr>)"
      using assms(1) r unfolding admitted_ok_def by auto
    then show ?thesis
      using v Some l admitted_closed[OF lim closed_bye, of n Bye_unauthorized]
      by (auto simp: hub_hello_def Let_def r_def)
  qed (use v assms(1) in \<open>simp add: hub_hello_def\<close>)
qed

lemma admitted_message:
  assumes "admitted_ok is h" "(Message n tx, e) \<in> set is"
  shows "admitted_ok is (fst (hub_message n tx e h))"
proof (cases "map_of (hb_sessions h) n")
  case (Some s)
  obtain b s1 where a: "allowMessage (dv_now e) (s\<lparr>ds_lastRxAt := dv_now e\<rparr>) = (b, s1)" by force
  define h1 where "h1 = put_session n s1 h"
  have h1: "admitted_ok is h1"
    using allowMessage_same[OF a] unfolding h1_def
    by (intro admitted_no_entry[OF assms(1)] no_entry_put[OF Some]) simp
  note red = hub_message_def Some a Let_def option.case prod.case h1_def[symmetric]
  show ?thesis
  proof (cases "\<not> b \<or> parseDeckClientMsg tx = None")
    case True
    then show ?thesis using admitted_closed[OF h1 closed_bye, of n Bye_protocol] by (auto simp: red)
  next
    case False
    then obtain m where m: b "parseDeckClientMsg tx = Some m" by auto
    have bye: "admitted_ok is (fst (hb_bye n Bye_protocol h1))" by (rule admitted_closed[OF h1 closed_bye])
    show ?thesis
    proof (cases "ds_state s1 = Awaiting_hello \<and> (\<exists>v t c w nm. m = M_hello v t c w nm)")
      case True
      then obtain v t c w nm where hello: "m = M_hello v t c w nm" by blast
      have "closed_door (on_session n (\<lambda>s. s\<lparr>ds_state := Authenticating\<rparr>))" by (rule closed_on_session) simp
      from admitted_closed[OF h1 this]
      have "admitted_ok is (fst (hub_hello n v t c w nm e (fst (on_session n (\<lambda>s. s\<lparr>ds_state := Authenticating\<rparr>) h1))))"
        by (rule admitted_hello[OF _ assms(2) m(2)[unfolded hello]])
      then show ?thesis using True m hello by (simp add: red)
    next
      case False
      then show ?thesis
        using m bye h1 admitted_closed[OF h1 closed_live_message, of n m e]
        by (cases "ds_state s1"; cases m) (auto simp: red)
    qed
  qed
qed (use assms(1) in \<open>simp add: hub_message_def\<close>)

lemma admitted_verified:
  assumes "admitted_ok is h"
  shows "admitted_ok is (fst (hub_verified n e h))"
proof (cases "map_of (hb_verifying h) n")
  case (Some r)
  define h0 where "h0 = h\<lparr>hb_verifying := AList.delete n (hb_verifying h)\<rparr>"
  have "no_entry h h0" by (auto simp: no_entry_def h0_def AList.delete_eq)
  from admitted_no_entry[OF assms this] have h0: "admitted_ok is h0" .
  note red = hub_verified_def Some Let_def option.case h0_def[symmetric]
  show ?thesis
  proof (cases "map_of (hb_sessions h0) n")
    case None
    then have "map_of (hb_sessions h) n = None" by (simp add: h0_def)
    then show ?thesis using h0 None by (simp add: red)
  next
    case s0: (Some s)
    have enter: "admitted_ok is (fst (hb_welcome n r who e h0))" if who: "he_who r = Some who" for who
    proof -
      have "showed_token is n who" using assms map_of_SomeD[OF Some] who unfolding admitted_ok_def by blast
      then have "\<exists>nm. showed_token is n (fst who, nm)" by (metis prod.collapse)
      then have "admitted_ok is (put_session n s' h0)" if "ds_tokenId s' = fst who" for s'
        using h0 that by (auto simp: admitted_ok_def put_session_def simp del: map_of_eq_Some_iff)
      moreover have "closed_door (acts (welcome_rest n r who e))"
        by (rule closed_acts) (auto simp: welcome_rest_def Let_def queue_push_def closed_simple closed_on_queue)
      ultimately show ?thesis unfolding welcome_split[OF s0] by (intro admitted_closed) simp_all
    qed
    have deny: "admitted_ok is (fst (acts [upd (\<lambda>h. h\<lparr>hb_limits := noteFailedAuth (ds_remoteAddress s) (dv_wall e) (hb_limits h)\<rparr>),
        hb_bye n Bye_unauthorized] h0))"
      by (rule admitted_closed[OF h0]) (auto intro!: closed_acts closed_upd closed_bye)
    have s: "map_of (hb_sessions h) n = Some s" using s0 by (simp add: h0_def)
    have "hub_verified n e h \<in> {skip h0, acts [upd (\<lambda>h. h\<lparr>hb_limits := noteFailedAuth (ds_remoteAddress s) (dv_wall e) (hb_limits h)\<rparr>),
        hb_bye n Bye_unauthorized] h0, hb_bye n Bye_full h0} \<union> (\<lambda>who. hb_welcome n r who e h0) ` {who. he_who r = Some who}"
      using s0 by (cases "he_who r") (auto simp: red)
    then show ?thesis using h0 deny enter admitted_closed[OF h0 closed_bye, of n Bye_full] by fastforce
  qed
qed (use assms in \<open>simp add: hub_verified_def\<close>)

lemma admitted_step:
  assumes "hub_ok h" "admitted_ok is h"
  shows "admitted_ok (is @ [(i, e)]) (fst (hub_step i e h))"
proof (cases i)
  case (Open remote)
  then show ?thesis using admitted_no_entry[OF admitted_more[OF assms(2)] closed_open[OF assms(1)]] by simp
next
  case (Message n tx)
  then show ?thesis using admitted_message[OF admitted_more[OF assms(2)]] by simp
next
  case (Verified n)
  then show ?thesis using admitted_verified[OF admitted_more[OF assms(2)]] by simp
next
  case (Limits_now l)
  then show ?thesis using admitted_closed[OF admitted_more[OF assms(2)] closed_upd] by simp
qed (use admitted_closed[OF admitted_more[OF assms(2)]] in \<open>simp_all add: closed_drop closed_steps closed_to_live
  hub_frame_def hub_clear_def hub_brightness_def hub_paired_def queue_push_def closed_on_queue closed_simple\<close>)

lemma admitted_run:
  "hub_ok h \<Longrightarrow> admitted_ok js h \<Longrightarrow> admitted_ok (js @ is) (fst (hub_run is h))"
proof (induction "is" arbitrary: h js)
  case (Cons x "is")
  obtain i e where x: "x = (i, e)" by force
  have "admitted_ok ((js @ [x]) @ is) (fst (hub_run is (fst (hub_step i e h))))"
    using Cons.IH[OF soundD(1)[OF sound_step Cons.prems(1)] admitted_step[OF Cons.prems]] by (simp add: x)
  moreover have "fst (hub_run (x # is) h) = fst (hub_run is (fst (hub_step i e h)))"
    by (simp add: x Let_def split: prod.splits)
  ultimately show ?case by simp
qed simp

section \<open>Silent pages\<close>

lemma bye_sessions: "hb_sessions (fst (hb_bye n r h)) = AList.delete n (hb_sessions h)"
proof (cases "map_of (hb_sessions h) n")
  case None
  then show ?thesis by (simp add: hb_bye_def ite_def om_delete_fresh del: map_of_eq_None_iff)
next
  case (Some s)
  then show ?thesis by (simp add: hb_bye_def ite_def hb_drop_def hb_release_def split: prod.split)
qed

lemma bye_where_sessions:
  "map_of (hb_sessions (fst (acts (map (\<lambda>(n, s). if P n s then hb_bye n r else skip) xs) h))) m
   = (if \<exists>s. (m, s) \<in> set xs \<and> P m s then None else map_of (hb_sessions h) m)"
proof (induction xs arbitrary: h)
  case (Cons x xs)
  obtain n s where x: "x = (n, s)" by force
  show ?case by (auto simp: x Cons bye_sessions)
qed simp

text \<open>C32. A page that falls silent lets go: at a tick every live page that has sent nothing for 3500 ms
  and every page that has not got in within 3000 ms is closed, the others stay as they are, and every key
  still held is held by a page heard from in time.\<close>

theorem silent_page_dropped:
  assumes "hub_run is (new_hub l) = (h, es)"
  shows "(\<forall>n s. map_of (hb_sessions (fst (hub_tick now h))) n = Some s \<longleftrightarrow>
        map_of (hb_sessions h) n = Some s \<and>
        (if ds_state s = Live then now - ds_lastRxAt s \<le> 3500 else now - ds_openedAt s \<le> 3000))
    \<and> (\<forall>n k. holds (hb_held (fst (hub_tick now h))) n k \<longrightarrow>
        (\<exists>s. map_of (hb_sessions h) n = Some s \<and> now - ds_lastRxAt s \<le> 3500))"
proof -
  have ok: "hub_ok h" by (rule hub_run_ok(1)[OF assms])
  define late where "late s \<longleftrightarrow> (if ds_state s = Live then DECK_LIVENESS_TIMEOUT_MS < now - ds_lastRxAt s
    else DECK_HELLO_TIMEOUT_MS < now - ds_openedAt s)" for s :: deck_session
  have tick: "hub_tick now h = acts (map (\<lambda>(n, s). if late s then hb_bye n Bye_timeout else skip) (hb_sessions h)) h"
    unfolding hub_tick_def late_def Let_def
    by (rule arg_cong[of _ _ "\<lambda>xs. acts xs h"]) (auto intro!: map_cong)
  have d: "distinct (keys_of (hb_sessions h))" using ok by (simp add: hub_ok_def sessions_ok_def)
  have left: "map_of (hb_sessions (fst (hub_tick now h))) n = Some s \<longleftrightarrow> map_of (hb_sessions h) n = Some s \<and> \<not> late s" for n s
    unfolding tick bye_where_sessions map_of_eq_Some_iff[OF d, symmetric]
    by (auto simp del: map_of_eq_Some_iff)
  have "\<exists>s. map_of (hb_sessions h) n = Some s \<and> now - ds_lastRxAt s \<le> 3500"
    if "holds (hb_held (fst (hub_tick now h))) n k" for n k
  proof -
    have "is_live n (fst (hub_tick now h))"
      using soundD(1)[OF sound_tick ok] that unfolding hub_ok_def by blast
    then obtain s where "map_of (hb_sessions (fst (hub_tick now h))) n = Some s" "ds_state s = Live"
      unfolding is_live_def by blast
    then show ?thesis using left[of n s] by (auto simp: late_def)
  qed
  moreover have "\<not> late s \<longleftrightarrow> (if ds_state s = Live then now - ds_lastRxAt s \<le> 3500 else now - ds_openedAt s \<le> 3000)" for s
    by (auto simp: late_def)
  ultimately show ?thesis using left by blast
qed

section \<open>Concrete runs\<close>

definition deck_at :: "rat \<Rightarrow> token_record list \<Rightarrow> deck_env" where
  "deck_at t rs = \<lparr> dv_now = t, dv_wall = t, dv_keyCount = 15, dv_brightness = 100, dv_paired = True,
     dv_snapshot = [], dv_records = rs, dv_sha = (\<lambda>t. t) \<rparr>"

definition phone :: token_record where
  "phone = \<lparr> tr_id = ''id1'', tr_name = ''Phone'', tr_scopes = [Scope_deck], tr_hash = ''tok'', tr_prefix = ''tok'', tr_createdAt = '''' \<rparr>"

definition hello_text :: "string \<times> json option" where
  "hello_text = (''{}'', Some (J_obj [(''t'', J_str ''hello''), (''v'', J_num 1), (''token'', J_str ''tok''),
     (''clientId'', J_str ''c''), (''now'', J_num 0)]))"

definition key_text :: "string \<Rightarrow> string \<times> json option" where
  "key_text s = (''{}'', Some (J_obj [(''t'', J_str ''key''), (''k'', J_num 2), (''s'', J_str s), (''now'', J_num 10)]))"

definition pressed_run :: "(hub_input \<times> deck_env) list" where
  "pressed_run =
     [(Open ''192.168.1.9'', deck_at 0 [phone]), (Message 1 hello_text, deck_at 1 [phone]), (Verified 1, deck_at 2 [phone]),
      (Message 1 (key_text ''down''), deck_at 12 [phone])]"

lemma pressed_value:
  "inputs 2 (snd (hub_run pressed_run (new_hub (new_limits 0)))) = [K_down]"
  "map fst (hb_live (fst (hub_run pressed_run (new_hub (new_limits 0))))) = [1]"
  "holds (hb_held (fst (hub_run pressed_run (new_hub (new_limits 0))))) 1 2"
  by code_simp+

text \<open>The page's token is revoked while its hello is being verified: the kick finds no page with the token,
  and the page then goes live on the records of before.\<close>

definition revoked_run :: "(hub_input \<times> deck_env) list" where
  "revoked_run =
     [(Open ''192.168.1.9'', deck_at 0 [phone]), (Message 1 hello_text, deck_at 1 [phone]),
      (Kick ''id1'' Bye_revoked, deck_at 2 []), (Verified 1, deck_at 3 [])]"

lemma revoked_page_admitted:
  "map (\<lambda>(n, s). ds_tokenId s) (hb_live (fst (hub_run revoked_run (new_hub (new_limits 0))))) = [''id1'']"
  by code_simp
abbreviation (input) pressed_hub :: deck_hub where
  "pressed_hub \<equiv> fst (hub_run pressed_run (new_hub (new_limits 0)))"

lemma pressed_heard: "map_option ds_lastRxAt (map_of (hb_sessions pressed_hub) 1) = Some 12"
  by code_simp

lemma no_stuck_key_witness: "\<exists>n. is_live n pressed_hub \<and> holds (hb_held pressed_hub) n 2"
  using no_stuck_key[of pressed_run "new_limits 0" _ _ 2, OF prod.collapse[symmetric]] by (simp add: pressed_value)



lemma silent_page_dropped_witness: "\<not> holds (hb_held (fst (hub_tick 5000 pressed_hub))) 1 2"
proof
  assume "holds (hb_held (fst (hub_tick 5000 pressed_hub))) 1 2"
  then obtain s where "map_of (hb_sessions pressed_hub) 1 = Some s" "5000 - ds_lastRxAt s \<le> 3500"
    using silent_page_dropped[of pressed_run "new_limits 0" _ _ 5000, OF prod.collapse[symmetric]] by blast
  then show False using pressed_heard by simp
qed

definition three_frames :: "queue_op list" where
  "three_frames = [Push (Q_frame 3 [1]), Push (Q_frame 3 [2]), Push (Q_frame 3 [3])]"


end
