(* ===== verification/Auto_Restart.thy ===== *)
theory Auto_Restart
  imports Acts
begin

text \<open>
  The restart of the Elgato app (\<^verbatim>\<open>main/elgato-auto-restart.ts\<close>): when a dock the app has paired with
  before connects and the app does not attach to it within a grace period, the app is restarted,
  at most once.  The answers of the operating system (is the app running, has it restarted) come as
  steps of their own, after the await; the settings, the attached docks and the clock are the
  environment of a step.  Log lines are left out.
\<close>

section \<open>State and operations\<close>

record restarter =
  ar_fired :: bool
  ar_timer :: bool
  ar_restartAt :: int
  ar_round :: nat
  ar_appConfirmed :: bool
  ar_pendingDocks :: "nat list"
  ar_checks :: "nat list"
  ar_deciding :: nat
  ar_restarting :: nat

text \<open>The last three fields count what is under way: \<^verbatim>\<open>confirmAppRunning\<close> by round, \<^verbatim>\<open>onGraceElapsed\<close>
  at its first await, and at its second.\<close>

definition new_restarter :: restarter where
  "new_restarter = \<lparr> ar_fired = False, ar_timer = False, ar_restartAt = 0, ar_round = 0, ar_appConfirmed = False,
     ar_pendingDocks = [], ar_checks = [], ar_deciding = 0, ar_restarting = 0 \<rparr>"

record restart_env =
  re_enabled :: bool
  re_mock :: bool
  re_wasPaired :: "string \<Rightarrow> bool"
  re_delayS :: int
  re_attached :: "nat \<Rightarrow> bool"
  re_conflict :: bool
  re_now :: int

datatype restart_event = On_pending "(int \<times> nat list) option" | Restart_app

type_synonym restart_act = "(restarter, restart_event) eff"

definition publishPending :: restart_act where
  "publishPending r = (r, [On_pending (Some (ar_restartAt r, ar_pendingDocks r))])"

definition add_pending :: "nat \<Rightarrow> nat list \<Rightarrow> nat list" where
  "add_pending i ds = (if i \<in> set ds then ds else ds @ [i])"

definition onDockConnected :: "nat \<Rightarrow> string \<Rightarrow> restart_env \<Rightarrow> restart_act" where
  "onDockConnected i key e r =
     (if ar_fired r \<or> \<not> re_enabled e \<or> re_mock e \<or> \<not> re_wasPaired e key then (r, [])
      else let r = (if ar_timer r then r else r\<lparr>ar_pendingDocks := []\<rparr>);
               joined = (i \<notin> set (ar_pendingDocks r));
               r = r\<lparr>ar_pendingDocks := add_pending i (ar_pendingDocks r)\<rparr>
           in if ar_timer r then (if joined \<and> ar_appConfirmed r then publishPending r else (r, []))
              else (r\<lparr>ar_timer := True, ar_restartAt := re_now e + re_delayS e * 1000, ar_round := ar_round r + 1,
                      ar_appConfirmed := False, ar_checks := ar_checks r @ [ar_round r + 1]\<rparr>, []))"

text \<open>\<^verbatim>\<open>confirmAppRunning\<close> after its await; a failed check counts as running.\<close>

definition onConfirmed :: "nat \<Rightarrow> bool \<Rightarrow> restart_act" where
  "onConfirmed n running r =
     (if n \<notin> set (ar_checks r) then (r, [])
      else let r = r\<lparr>ar_checks := remove1 n (ar_checks r)\<rparr>
           in if n \<noteq> ar_round r \<or> \<not> ar_timer r then (r, [])
              else if \<not> running then (r\<lparr>ar_timer := False, ar_pendingDocks := []\<rparr>, [])
              else publishPending (r\<lparr>ar_appConfirmed := True\<rparr>))"

text \<open>The \<^verbatim>\<open>finally\<close> of a grace period.\<close>

definition grace_finally :: restart_act where
  "grace_finally = ite ar_timer skip (emits (On_pending None))"

definition onGraceElapsed :: "restart_env \<Rightarrow> restart_act" where
  "onGraceElapsed e r =
     (if \<not> ar_timer r then (r, [])
      else let r = r\<lparr>ar_timer := False\<rparr>
           in if list_all (re_attached e) (ar_pendingDocks r) \<or> re_conflict e then grace_finally r
              else (r\<lparr>ar_deciding := ar_deciding r + 1\<rparr>, []))"

text \<open>What follows \<^verbatim>\<open>isRunning\<close> in \<^verbatim>\<open>onGraceElapsed\<close>: the answer, or nothing when it fails.\<close>

definition onRunningAnswer :: "bool option \<Rightarrow> restart_act" where
  "onRunningAnswer ans r =
     (if ar_deciding r = 0 then (r, [])
      else let r = r\<lparr>ar_deciding := ar_deciding r - 1\<rparr>
           in if ans \<noteq> Some True then grace_finally r
              else (r\<lparr>ar_fired := True, ar_restarting := ar_restarting r + 1\<rparr>, [Restart_app]))"

definition onRestarted :: restart_act where
  "onRestarted r =
     (if ar_restarting r = 0 then (r, []) else grace_finally (r\<lparr>ar_restarting := ar_restarting r - 1\<rparr>))"

definition restart_dispose :: restart_act where
  "restart_dispose r = (r\<lparr>ar_timer := False\<rparr>, [On_pending None])"

datatype restart_input =
    Dock_connected nat string
  | Confirmed nat bool
  | Grace_over
  | Running_answer "bool option"
  | Restarted
  | Dispose

fun restart_step :: "restart_input \<Rightarrow> restart_env \<Rightarrow> restart_act" where
  "restart_step (Dock_connected i key) e = onDockConnected i key e"
| "restart_step (Confirmed n running) e = onConfirmed n running"
| "restart_step Grace_over e = onGraceElapsed e"
| "restart_step (Running_answer ans) e = onRunningAnswer ans"
| "restart_step Restarted e = onRestarted"
| "restart_step Dispose e = restart_dispose"

fun restart_run :: "(restart_input \<times> restart_env) list \<Rightarrow> restart_act" where
  "restart_run [] r = (r, [])"
| "restart_run ((i, e) # is) r = (let (r, es) = restart_step i e r; (r, fs) = restart_run is r in (r, es @ fs))"

section \<open>One restart, and no countdown left behind\<close>

text \<open>A run in which no dock connects while a grace period is being decided.\<close>

fun calm :: "(restart_input \<times> restart_env) list \<Rightarrow> restarter \<Rightarrow> bool" where
  "calm [] r \<longleftrightarrow> True"
| "calm ((i, e) # is) r \<longleftrightarrow>
     (\<forall>d key. i = Dock_connected d key \<longrightarrow> ar_deciding r = 0) \<and> calm is (fst (restart_step i e r))"

text \<open>What the browsers were last told.\<close>

fun told :: "(int \<times> nat list) option \<Rightarrow> restart_event list \<Rightarrow> (int \<times> nat list) option" where
  "told p [] = p"
| "told p (On_pending q # es) = told q es"
| "told p (Restart_app # es) = told p es"

lemma told_append [simp]: "told p (xs @ ys) = told (told p xs) ys"
  by (induction p xs rule: told.induct) auto

definition rounds_ok :: "restarter \<Rightarrow> (int \<times> nat list) option \<Rightarrow> nat \<Rightarrow> bool" where
  "rounds_ok r p n \<longleftrightarrow>
     n = (if ar_fired r then 1 else 0) \<and> ar_deciding r \<le> 1 \<and> (0 < ar_deciding r \<longrightarrow> \<not> ar_timer r)
     \<and> (ar_fired r \<longrightarrow> \<not> ar_timer r \<and> ar_deciding r = 0) \<and> (0 < ar_restarting r \<longrightarrow> ar_fired r) \<and> ar_restarting r \<le> n
     \<and> distinct (ar_checks r) \<and> (\<forall>m \<in> set (ar_checks r). m \<le> ar_round r)
     \<and> (ar_appConfirmed r \<longrightarrow> ar_round r \<notin> set (ar_checks r))
     \<and> (p \<noteq> None \<longrightarrow> ar_timer r \<and> ar_appConfirmed r \<or> 0 < ar_deciding r \<or> 0 < ar_restarting r)"

lemmas restart_defs = rounds_ok_def onDockConnected_def onConfirmed_def onGraceElapsed_def onRunningAnswer_def
  onRestarted_def restart_dispose_def publishPending_def grace_finally_def ite_def Let_def

lemma restart_step_ok:
  assumes "rounds_ok r p n" "\<forall>d key. i = Dock_connected d key \<longrightarrow> ar_deciding r = 0"
  shows "rounds_ok (fst (restart_step i e r)) (told p (snd (restart_step i e r)))
    (n + count_list (snd (restart_step i e r)) Restart_app)"
proof (cases i)
  case (Dock_connected d key)
  then show ?thesis using assms by (auto simp: restart_defs)
next
  case (Running_answer ans)
  then show ?thesis using assms(1) by (cases "ans = Some True") (auto simp: restart_defs)
qed (use assms(1) in \<open>auto simp: restart_defs\<close>)

lemma restart_run_ok:
  "rounds_ok r p n \<Longrightarrow> calm is r \<Longrightarrow> restart_run is r = (r', es) \<Longrightarrow> rounds_ok r' (told p es) (n + count_list es Restart_app)"
proof (induction "is" arbitrary: r p n es)
  case (Cons x "is")
  obtain i e where x: "x = (i, e)" by force
  obtain r1 fs where s: "restart_step i e r = (r1, fs)" by force
  obtain gs where g: "restart_run is r1 = (r', gs)" "es = fs @ gs" using Cons.prems(3) by (auto simp: x s split: prod.splits)
  have "rounds_ok r1 (told p fs) (n + count_list fs Restart_app)"
    using restart_step_ok[OF Cons.prems(1), of i e] Cons.prems(2) by (simp add: x s)
  from Cons.IH[OF this _ g(1)] Cons.prems(2) show ?case by (simp add: x s g(2) add.assoc)
qed simp

text \<open>Whatever happens, a restart follows a grace period that ended with a dock still waiting.\<close>

definition wanted :: "(restart_input \<times> restart_env) list \<Rightarrow> bool" where
  "wanted is \<longleftrightarrow> (\<exists>e d. (Grace_over, e) \<in> set is \<and> \<not> re_attached e d \<and> \<not> re_conflict e)"

lemma wanted_step:
  assumes "0 < ar_deciding (fst (restart_step i e r)) \<or> Restart_app \<in> set (snd (restart_step i e r))"
  shows "0 < ar_deciding r \<or> wanted [(i, e)]"
  using assms
  by (cases i) (auto simp: restart_defs wanted_def list_all_iff split: if_splits)

lemma wanted_more: "wanted is \<Longrightarrow> wanted (js @ is)" "wanted [x] \<Longrightarrow> wanted (x # is)"
  by (auto simp: wanted_def)

lemma wanted_run:
  "restart_run is r = (r', es) \<Longrightarrow> Restart_app \<in> set es \<Longrightarrow> 0 < ar_deciding r \<or> wanted is"
proof (induction "is" arbitrary: r es)
  case (Cons x "is")
  obtain i e where x: "x = (i, e)" by force
  obtain r1 fs where s: "restart_step i e r = (r1, fs)" by force
  obtain gs where g: "restart_run is r1 = (r', gs)" "es = fs @ gs" using Cons.prems(1) by (auto simp: x s split: prod.splits)
  consider "Restart_app \<in> set fs" | "0 < ar_deciding r1" | "wanted is" using Cons.IH[OF g(1)] Cons.prems(2) g(2) by auto
  then show ?case using wanted_step[of i e r] wanted_more(1)[of "is" "[x]"] wanted_more(2)[of x "is"] by cases (auto simp: x s)
qed simp

text \<open>C35. The Elgato app is restarted at most once and only with cause: in every run in which no dock
  connects while an elapsed grace period is being decided there is at most one restart, after a grace
  period that ended with a dock unattached and no conflict; and the countdown the browsers were last
  shown is withdrawn unless a grace period is running, being decided or restarting the app.\<close>

theorem restart_at_most_once:
  assumes "calm is new_restarter" "restart_run is new_restarter = (r, es)"
  shows "count_list es Restart_app \<le> 1 \<and> (Restart_app \<in> set es \<longrightarrow> wanted is)
    \<and> (\<not> ar_timer r \<and> ar_deciding r = 0 \<and> ar_restarting r = 0 \<longrightarrow> told None es = None)"
proof -
  have "rounds_ok new_restarter None 0" by (simp add: rounds_ok_def new_restarter_def)
  from restart_run_ok[OF this assms] have "rounds_ok r (told None es) (count_list es Restart_app)" by simp
  moreover have "Restart_app \<in> set es \<longrightarrow> wanted is"
    using wanted_run[OF assms(2)] by (auto simp: new_restarter_def)
  ultimately show ?thesis unfolding rounds_ok_def by (cases "told None es") (auto split: if_splits)
qed

section \<open>Concrete runs\<close>

definition room :: restart_env where
  "room = \<lparr> re_enabled = True, re_mock = False, re_wasPaired = (\<lambda>k. True), re_delayS = 20, re_attached = (\<lambda>i. False),
     re_conflict = False, re_now = 0 \<rparr>"

definition one_dock :: "(restart_input \<times> restart_env) list" where
  "one_dock = map (\<lambda>i. (i, room)) [Dock_connected 0 ''a'', Confirmed 1 True, Grace_over, Running_answer (Some True), Restarted]"

lemma restart_at_most_once_witness:
  "count_list (snd (restart_run one_dock new_restarter)) Restart_app \<le> 1
   \<and> snd (restart_run one_dock new_restarter) = [On_pending (Some (20000, [0])), Restart_app, On_pending None]"
proof -
  have "calm one_dock new_restarter"
    by (simp add: one_dock_def new_restarter_def room_def restart_defs add_pending_def)
  moreover have "snd (restart_run one_dock new_restarter) = [On_pending (Some (20000, [0])), Restart_app, On_pending None]"
    by code_simp
  ultimately show ?thesis
    using restart_at_most_once[of one_dock "fst (restart_run one_dock new_restarter)" "snd (restart_run one_dock new_restarter)"]
    by simp
qed

text \<open>
  A second dock that connects while the first grace period is being decided opens a second one, and
  nothing looks at \<^verbatim>\<open>fired\<close> when that elapses: the app is restarted twice.  If the app is found not
  to be running then, the first countdown is never withdrawn.
\<close>

lemma restarted_twice:
  "count_list (snd (restart_run (map (\<lambda>i. (i, room)) [Dock_connected 0 ''a'', Confirmed 1 True, Grace_over,
      Dock_connected 1 ''b'', Running_answer (Some True), Restarted, Confirmed 2 True, Grace_over, Running_answer (Some True)])
      new_restarter)) Restart_app = 2"
  by code_simp

lemma countdown_left_behind:
  "told None (snd (restart_run (map (\<lambda>i. (i, room)) [Dock_connected 0 ''a'', Confirmed 1 True, Grace_over,
      Dock_connected 1 ''b'', Running_answer (Some False), Confirmed 2 False]) new_restarter)) = Some (20000, [0])"
  by code_simp

end
