(* ===== verification/Push_Channels.thy ===== *)
theory Push_Channels
  imports Js_Values
begin

text \<open>
  What a push shows: the rules for its text and body (\<^verbatim>\<open>shared/push-text.ts\<close>, with the font's glyph
  table of \<^verbatim>\<open>assets/font-glyph-index.ts\<close>) and the store of the channels
  (\<^verbatim>\<open>shared/push-channels.ts\<close>).  Text is a list of code points; Unicode normalization is a parameter.
\<close>

section \<open>Text\<close>

definition fontGlyphIndex :: "nat \<Rightarrow> int" where
  "fontGlyphIndex cp =
     (if 32 \<le> cp \<and> cp \<le> 126 then int cp - 32
      else if 160 \<le> cp \<and> cp \<le> 255 then int cp - 160 + 95
      else if cp = 0x2026 then 191 else - 1)"

abbreviation (input) PUSH_TEXT_MAX :: nat where "PUSH_TEXT_MAX \<equiv> 256"

definition FOLDS :: "(nat \<times> nat list) list" where
  "FOLDS =
     [(0x2018, [0x27]), (0x2019, [0x27]), (0x201A, [0x27]), (0x2032, [0x27]),
      (0x201C, [0x22]), (0x201D, [0x22]), (0x201E, [0x22]), (0x2033, [0x22]),
      (0x2013, [0x2D]), (0x2014, [0x2D]), (0x2212, [0x2D]), (0x2022, [0xB7]),
      (0x20AC, [0x45, 0x55, 0x52]), (0x2122, [0x54, 0x4D]), (0x2192, [0x2D, 0x3E]), (0x2190, [0x3C, 0x2D]),
      (0x2009, [0x20]), (0x202F, [0x20]), (9, [0x20])]"

definition isInvisible :: "nat \<Rightarrow> bool" where
  "isInvisible cp \<longleftrightarrow>
     0x200B \<le> cp \<and> cp \<le> 0x200D \<or> cp = 0x2060 \<or> 0xFE00 \<le> cp \<and> cp \<le> 0xFE0F \<or> 0xE0020 \<le> cp \<and> cp \<le> 0xE007F"

definition isControl :: "nat \<Rightarrow> bool" where
  "isControl cp \<longleftrightarrow> cp < 0x20 \<and> cp \<noteq> 10 \<or> 0x7F \<le> cp \<and> cp \<le> 0x9F"

text \<open>\<^verbatim>\<open>replace(/\r\n?/g, '\n')\<close>.\<close>

fun unix_lines :: "nat list \<Rightarrow> nat list" where
  "unix_lines [] = []"
| "unix_lines [c] = [if c = 13 then 10 else c]"
| "unix_lines (c # d # cs) =
     (if c = 13 then 10 # (if d = 10 then unix_lines cs else unix_lines (d # cs)) else c # unix_lines (d # cs))"

record sanitized =
  sz_text :: "nat list"
  sz_replaced :: nat
  sz_truncated :: bool

text \<open>The two loops run over the folded characters; the return inside ends both.\<close>

fun sanitize_loop :: "nat list \<Rightarrow> nat list \<Rightarrow> nat \<Rightarrow> nat \<Rightarrow> sanitized" where
  "sanitize_loop [] out count replaced = \<lparr> sz_text = out, sz_replaced = replaced, sz_truncated = False \<rparr>"
| "sanitize_loop (cp # cs) out count replaced =
     (if isInvisible cp \<or> isControl cp then sanitize_loop cs out count replaced
      else if PUSH_TEXT_MAX \<le> count then \<lparr> sz_text = out, sz_replaced = replaced, sz_truncated = True \<rparr>
      else if fontGlyphIndex cp < 0 \<and> cp \<noteq> 10 then sanitize_loop cs (out @ [0x3F]) (count + 1) (replaced + 1)
      else sanitize_loop cs (out @ [cp]) (count + 1) replaced)"

definition folded :: "nat list \<Rightarrow> nat list" where
  "folded src = List.concat (map (\<lambda>ch. case map_of FOLDS ch of Some f \<Rightarrow> f | None \<Rightarrow> [ch]) src)"

definition sanitizePushText :: "(nat list \<Rightarrow> nat list) \<Rightarrow> nat list \<Rightarrow> sanitized" where
  "sanitizePushText nfc raw = sanitize_loop (folded (unix_lines (nfc raw))) [] 0 0"

text \<open>A character the panel can show as it is.\<close>

definition drawable :: "nat \<Rightarrow> bool" where
  "drawable cp \<longleftrightarrow> cp = 10 \<or> 0 \<le> fontGlyphIndex cp \<and> \<not> isControl cp \<and> \<not> isInvisible cp"

definition kept :: "nat list \<Rightarrow> nat list" where
  "kept cs = filter (\<lambda>c. \<not> isInvisible c \<and> \<not> isControl c) cs"

definition shown_as :: "nat \<Rightarrow> nat" where
  "shown_as c = (if drawable c then c else 0x3F)"

lemma kept_Cons: "kept (c # cs) = (if isInvisible c \<or> isControl c then kept cs else c # kept cs)"
  by (simp add: kept_def)

text \<open>The loop computes: drop what cannot be seen, cut at the maximum, replace what has no glyph.\<close>

lemma sanitize_loop_eq:
  assumes "count = length out" "count \<le> 256"
  shows "sanitize_loop cs out count replaced =
    \<lparr> sz_text = out @ map shown_as (take (256 - count) (kept cs)),
      sz_replaced = replaced + length (filter (\<lambda>c. \<not> drawable c) (take (256 - count) (kept cs))),
      sz_truncated = (256 - count < length (kept cs)) \<rparr>"
  using assms
proof (induction cs out count replaced rule: sanitize_loop.induct)
  case (1 out count replaced)
  then show ?case by (simp add: kept_def)
next
  case (2 cp cs out count replaced)
  show ?case
  proof (cases "isInvisible cp \<or> isControl cp")
    case True
    then show ?thesis using 2(1)[OF True 2(4,5)] by (simp add: kept_Cons)
  next
    case seen: False
    show ?thesis
    proof (cases "256 \<le> count")
      case True
      then show ?thesis using seen 2(5) by (simp add: kept_Cons)
    next
      case False
      then obtain j where j: "256 - count = Suc j" "256 - Suc count = j" by (metis Suc_diff_Suc not_le)
      have dr: "drawable cp \<longleftrightarrow> \<not> (fontGlyphIndex cp < 0 \<and> cp \<noteq> 10)" using seen by (auto simp: drawable_def)
      show ?thesis
      proof (cases "drawable cp")
        case True
        then have "\<not> (fontGlyphIndex cp < 0 \<and> cp \<noteq> 10)" using dr by simp
        then show ?thesis using True seen False 2(3)[OF seen False] 2(4) j by (auto simp: kept_Cons shown_as_def)
      next
        case no: False
        then have "fontGlyphIndex cp < 0 \<and> cp \<noteq> 10" using dr by simp
        then show ?thesis using no seen False 2(2)[OF seen False] 2(4) j by (auto simp: kept_Cons shown_as_def)
      qed
    qed
  qed
qed

text \<open>Every push can be drawn: the text has at most 256 characters, each a line feed or one the font
  has a glyph for; it is the visible part of the folded input, cut at the maximum, with exactly the
  counted characters replaced by a question mark.\<close>

theorem push_text_drawable:
  "length (sz_text (sanitizePushText nfc raw)) \<le> 256
   \<and> (\<forall>c \<in> set (sz_text (sanitizePushText nfc raw)). drawable c)
   \<and> sz_text (sanitizePushText nfc raw) = map shown_as (take 256 (kept (folded (unix_lines (nfc raw)))))
   \<and> sz_replaced (sanitizePushText nfc raw) = length (filter (\<lambda>c. \<not> drawable c) (take 256 (kept (folded (unix_lines (nfc raw))))))
   \<and> (sz_truncated (sanitizePushText nfc raw) \<longleftrightarrow> 256 < length (kept (folded (unix_lines (nfc raw)))))"
proof -
  have "drawable (shown_as c)" for c
    by (simp add: shown_as_def) (simp add: drawable_def fontGlyphIndex_def isControl_def isInvisible_def)
  then show ?thesis by (auto simp: sanitizePushText_def sanitize_loop_eq)
qed

section \<open>The body of a push\<close>

abbreviation (input) PUSH_BODY_MAX :: nat where "PUSH_BODY_MAX \<equiv> 4096"
abbreviation (input) PUSH_TTL_DEFAULT_S :: rat where "PUSH_TTL_DEFAULT_S \<equiv> 600"
abbreviation (input) PUSH_TTL_MAX_S :: int where "PUSH_TTL_MAX_S \<equiv> 86400"

definition PUSH_BODY_KEYS :: "string list" where
  "PUSH_BODY_KEYS = [''text'', ''ttl'', ''color'', ''background'']"

datatype body_error = Not_an_object | Unknown_field string | Bad_text | Bad_ttl | Bad_color string

definition hex_char :: "char \<Rightarrow> bool" where
  "hex_char c \<longleftrightarrow> (let n = (of_char c :: nat) in 48 \<le> n \<and> n \<le> 57 \<or> 65 \<le> n \<and> n \<le> 70 \<or> 97 \<le> n \<and> n \<le> 102)"

text \<open>\<^verbatim>\<open>/^#[0-9a-f]{6}$/i\<close>.\<close>

fun push_hex_color :: "json \<Rightarrow> bool" where
  "push_hex_color (J_str s) \<longleftrightarrow> length s = 7 \<and> hd s = CHR ''#'' \<and> list_all hex_char (tl s)"
| "push_hex_color _ \<longleftrightarrow> False"

definition ttlError :: "json option \<Rightarrow> body_error option" where
  "ttlError ttl = (case ttl of None \<Rightarrow> None | Some v \<Rightarrow> if is_int_in 0 PUSH_TTL_MAX_S v then None else Some Bad_ttl)"

definition colorError :: "json \<Rightarrow> body_error option" where
  "colorError r =
     map_option Bad_color
       (List.find (\<lambda>f. case field r f of None \<Rightarrow> False | Some v \<Rightarrow> \<not> push_hex_color v) [''color'', ''background''])"

definition pushBodyError :: "json \<Rightarrow> body_error option" where
  "pushBodyError body =
     (case body of
        J_obj ps \<Rightarrow>
          (case List.find (\<lambda>k. k \<notin> set PUSH_BODY_KEYS) (map fst ps) of
             Some k \<Rightarrow> Some (Unknown_field k)
           | None \<Rightarrow>
               if (case Option.bind (field body ''text'') str_of of Some s \<Rightarrow> length s \<le> PUSH_BODY_MAX | None \<Rightarrow> False)
               then (case ttlError (field body ''ttl'') of Some e \<Rightarrow> Some e | None \<Rightarrow> colorError body)
               else Some Bad_text)
      | _ \<Rightarrow> Some Not_an_object)"

record push_input =
  pi_text :: string
  pi_ttlS :: rat
  pi_color :: "string option"
  pi_background :: "string option"

text \<open>\<^verbatim>\<open>toPushInput\<close>: the casts hold once \<^verbatim>\<open>pushBodyError\<close> has returned null.\<close>

definition toPushInput :: "json \<Rightarrow> push_input option" where
  "toPushInput body =
     (case (Option.bind (field body ''text'') str_of,
            case field body ''ttl'' of None \<Rightarrow> Some PUSH_TTL_DEFAULT_S | Some v \<Rightarrow> num_of v,
            case field body ''color'' of None \<Rightarrow> Some None | Some v \<Rightarrow> map_option Some (str_of v),
            case field body ''background'' of None \<Rightarrow> Some None | Some v \<Rightarrow> map_option Some (str_of v)) of
        (Some text, Some ttl, Some color, Some background) \<Rightarrow>
          Some \<lparr> pi_text = text, pi_ttlS = ttl, pi_color = color, pi_background = background \<rparr>
      | _ \<Rightarrow> None)"

lemma push_hex_color_str: "push_hex_color v \<Longrightarrow> \<exists>s. str_of v = Some s \<and> length s = 7"
  by (cases v) auto

lemma color_field:
  assumes "colorError r = None" "f = ''color'' \<or> f = ''background''"
  shows "\<exists>c. (case field r f of None \<Rightarrow> Some None | Some v \<Rightarrow> map_option Some (str_of v)) = Some c
    \<and> (\<forall>s. c = Some s \<longrightarrow> length s = 7)"
proof (cases "field r f")
  case (Some v)
  then have "push_hex_color v" using assms by (auto simp: colorError_def split: if_splits option.splits)
  then show ?thesis using push_hex_color_str[of v] Some by auto
qed simp

text \<open>The casts of \<^verbatim>\<open>toPushInput\<close> are safe after the check, and what they give is in range.\<close>

lemma accepted_body_typed:
  assumes "pushBodyError body = None"
  obtains i t where "toPushInput body = Some i" "length (pi_text i) \<le> 4096"
    "pi_ttlS i = of_int t" "0 \<le> t" "t \<le> 86400"
proof -
  obtain s where s: "Option.bind (field body ''text'') str_of = Some s" "length s \<le> 4096"
    and ttl: "ttlError (field body ''ttl'') = None" and col: "colorError body = None"
    using assms by (auto simp: pushBodyError_def split: json.splits option.splits if_splits)
  obtain c where c: "(case field body ''color'' of None \<Rightarrow> Some None | Some v \<Rightarrow> map_option Some (str_of v)) = Some c"
    using color_field[OF col, of "''color''"] by blast
  obtain b where b: "(case field body ''background'' of None \<Rightarrow> Some None | Some v \<Rightarrow> map_option Some (str_of v)) = Some b"
    using color_field[OF col, of "''background''"] by blast
  have "\<exists>t. (case field body ''ttl'' of None \<Rightarrow> Some PUSH_TTL_DEFAULT_S | Some v \<Rightarrow> num_of v) = Some (of_int t) \<and> 0 \<le> t \<and> t \<le> 86400"
  proof (cases "field body ''ttl''")
    case None
    then show ?thesis by (intro exI[of _ 600]) simp
  next
    case (Some v)
    then have "is_int_in 0 86400 v" using ttl by (simp add: ttlError_def split: if_splits)
    from is_int_inD[OF this] show ?thesis using Some by auto
  qed
  then obtain t where t: "(case field body ''ttl'' of None \<Rightarrow> Some PUSH_TTL_DEFAULT_S | Some v \<Rightarrow> num_of v) = Some (of_int t)"
    "0 \<le> t" "t \<le> 86400" by blast
  show thesis
    by (rule that[of "\<lparr> pi_text = s, pi_ttlS = of_int t, pi_color = c, pi_background = b \<rparr>" t])
       (simp_all add: toPushInput_def s c b t)
qed

section \<open>Channels\<close>

abbreviation (input) PUSH_CHANNELS_MAX :: nat where "PUSH_CHANNELS_MAX \<equiv> 64"

record pushed_value =
  pv_text :: string
  pv_color :: "string option"
  pv_background :: "string option"
  pv_updatedAt :: rat
  pv_expiresAt :: "rat option"

datatype external_view = Waiting | Live_value pushed_value | Expired_value pushed_value

type_synonym channels = "(string \<times> pushed_value) list"

definition has_expired :: "rat \<Rightarrow> pushed_value \<Rightarrow> bool" where
  "has_expired now v \<longleftrightarrow> (case pv_expiresAt v of None \<Rightarrow> False | Some t \<Rightarrow> t \<le> now)"

text \<open>\<^verbatim>\<open>best\<close> with \<^verbatim>\<open>bestAt\<close>; nothing stands for \<^verbatim>\<open>Infinity\<close>.\<close>

fun oldest_loop :: "rat \<Rightarrow> channels \<Rightarrow> (string \<times> rat) option \<Rightarrow> (string \<times> rat) option" where
  "oldest_loop now [] best = best"
| "oldest_loop now ((c, v) # m) best =
     oldest_loop now m
       (case pv_expiresAt v of
          None \<Rightarrow> best
        | Some t \<Rightarrow> if t \<le> now \<and> (case best of None \<Rightarrow> True | Some (b, bestAt) \<Rightarrow> t < bestAt) then Some (c, t) else best)"

definition oldestExpired :: "rat \<Rightarrow> channels \<Rightarrow> string option" where
  "oldestExpired now m = map_option fst (oldest_loop now m None)"

text \<open>The result (nothing stands for \<^verbatim>\<open>'full'\<close>), the store, and the channels the listeners hear of.\<close>

definition channel_set :: "nat \<Rightarrow> string \<Rightarrow> push_input \<Rightarrow> rat \<Rightarrow> channels \<Rightarrow> pushed_value option \<times> channels \<times> string list" where
  "channel_set maxChannels c i now m =
     (let v = \<lparr> pv_text = pi_text i, pv_color = pi_color i, pv_background = pi_background i, pv_updatedAt = now,
                pv_expiresAt = (if pi_ttlS i = 0 then None else Some (now + pi_ttlS i * 1000)) \<rparr>
      in if map_of m c = None \<and> maxChannels \<le> length m
         then (case oldestExpired now m of
                 None \<Rightarrow> (None, m, [])
               | Some victim \<Rightarrow> (Some v, AList.update c v (AList.delete victim m), [victim, c]))
         else (Some v, AList.update c v m, [c]))"

definition channel_clear :: "string \<Rightarrow> channels \<Rightarrow> bool \<times> channels \<times> string list" where
  "channel_clear c m = (let had = map_of m c \<noteq> None in (had, AList.delete c m, if had then [c] else []))"

definition channel_view :: "string \<Rightarrow> rat \<Rightarrow> channels \<Rightarrow> external_view" where
  "channel_view c now m =
     (case map_of m c of None \<Rightarrow> Waiting | Some v \<Rightarrow> if has_expired now v then Expired_value v else Live_value v)"

lemma oldest_loop_spec:
  "oldest_loop now m best = Some (c, t) \<Longrightarrow> best = Some (c, t) \<or> (\<exists>v. (c, v) \<in> set m \<and> has_expired now v)"
proof (induction now m best rule: oldest_loop.induct)
  case (2 now c' v m best)
  from 2(1)[OF 2(2)[unfolded oldest_loop.simps]] show ?case
    by (auto simp: has_expired_def split: option.splits if_splits)
qed simp

lemma oldest_loop_None:
  "oldest_loop now m best = None \<Longrightarrow> best = None \<and> (\<forall>(c, v) \<in> set m. \<not> has_expired now v)"
proof (induction now m best rule: oldest_loop.induct)
  case (2 now c v m best)
  from 2(1)[OF 2(2)[unfolded oldest_loop.simps]] show ?case
    by (auto simp: has_expired_def split: option.splits if_splits)
qed simp

text \<open>A push never costs another channel its live value: with the store within its limit it stays
  there; a push is refused exactly when its channel is new, the store is full and nothing in it has
  expired; otherwise the channel shows the pushed text, live if its time to live is positive or endless,
  and every other channel keeps its value unless that had expired.\<close>

theorem live_channels_kept:
  assumes "distinct (keys_of m)" "length m \<le> 64" "channel_set 64 c i now m = (res, m', heard)" "0 \<le> pi_ttlS i"
  shows "distinct (keys_of m') \<and> length m' \<le> 64
    \<and> (res = None \<longleftrightarrow> map_of m c = None \<and> length m = 64 \<and> (\<forall>d v. map_of m d = Some v \<longrightarrow> \<not> has_expired now v))
    \<and> (res = None \<longrightarrow> m' = m)
    \<and> (\<forall>v. res = Some v \<longrightarrow> channel_view c now m' = Live_value v \<and> pv_text v = pi_text i
        \<and> (\<forall>d. d \<noteq> c \<longrightarrow> map_of m' d = map_of m d \<or> (\<exists>w. map_of m d = Some w \<and> has_expired now w \<and> map_of m' d = None)))"
proof -
  define v where "v = \<lparr> pv_text = pi_text i, pv_color = pi_color i, pv_background = pi_background i, pv_updatedAt = now,
    pv_expiresAt = (if pi_ttlS i = 0 then None else Some (now + pi_ttlS i * 1000)) \<rparr>"
  have v: "\<not> has_expired now v" "pv_text v = pi_text i" using assms(4) by (auto simp: v_def has_expired_def)
  note set = assms(3)[unfolded channel_set_def v_def[symmetric] Let_def]
  show ?thesis
  proof (cases "map_of m c = None \<and> 64 \<le> length m")
    case False
    then have r: "res = Some v" "m' = AList.update c v m" using set by auto
    have "length (keys_of m') = (if c \<in> set (keys_of m) then length m else length m + 1)"
      unfolding r(2) om_keys_set by simp
    then have "length m' = (if c \<in> set (keys_of m) then length m else length m + 1)" by simp
    moreover have "c \<in> set (keys_of m) \<or> length m < 64"
      using False by (auto simp: map_of_eq_None_iff simp flip: not_less)
    ultimately have "length m' \<le> 64" using assms(2) by (auto split: if_splits)
    moreover have "\<not> (map_of m c = None \<and> length m = 64)" using False by auto
    ultimately show ?thesis using assms(1) v by (auto simp: r channel_view_def simp del: map_of_eq_Some_iff map_of_eq_None_iff)
  next
    case True
    then have len: "length m = 64" and fresh: "map_of m c = None" using assms(2) by simp_all
    show ?thesis
    proof (cases "oldest_loop now m None")
      case None
      then have r: "res = None" "m' = m" using set True by (simp_all add: oldestExpired_def)
      have "\<not> has_expired now w" if "map_of m d = Some w" for d w
        using oldest_loop_None[OF None] map_of_SomeD[OF that] by blast
      then show ?thesis using r assms(1) len fresh by simp
    next
      case (Some p)
      obtain e t where p: "p = (e, t)" by force
      have r: "res = Some v" "m' = AList.update c v (AList.delete e m)"
        using set True Some by (simp_all add: oldestExpired_def p)
      obtain w where w: "(e, w) \<in> set m" "has_expired now w" using oldest_loop_spec[OF Some[unfolded p]] by blast
      have e: "map_of m e = Some w" using w(1) assms(1) by simp
      have ce: "c \<noteq> e" using e fresh by auto
      have "map_of (AList.delete e m) c = None" using fresh by simp
      then have "m' = AList.delete e m @ [(c, v)]" unfolding r(2) by (rule om_set_fresh)
      then have "length m' = length (AList.delete e m) + 1" by simp
      then have "length m' \<le> 64" using om_delete_length[OF e assms(1)] len by simp
      moreover have "distinct (keys_of m')" using assms(1) by (simp add: r(2))
      moreover have "\<not> (\<forall>d u. map_of m d = Some u \<longrightarrow> \<not> has_expired now u)" using e w(2) by blast
      ultimately show ?thesis using v ce e w(2)
        by (auto simp: r channel_view_def simp del: map_of_eq_Some_iff map_of_eq_None_iff)
    qed
  qed
qed

end
