(* ===== verification/Spec2Isabelle.thy ===== *)
theory Spec2Isabelle
  imports Cora_Frame Cora_Responses Image_Assembler Hid_Framing Hid_Descriptor Mirabox Akp05 Elgato
    Work_Queue Image_Cache Image_Hash Image_Render Worker_Host Hid_Worker Worker_System Coalescing
    Child_Upload Primary_Server Cora_Dock Catalog_Facts
    Dock_Standby Page_Tracker Dock_Scanner Driver_Manager Access_Tokens Deck_Hub
    Auto_Restart Push_Channels
begin

text \<open>
  DeckBridge connects USB stream decks of several makers to the Elgato desktop software.  It
  emulates Elgato's Network Dock: a primary TCP server announces the dock by mDNS and describes one
  attached panel, a child TCP server speaks for that panel, and both carry the CORA protocol.
  Images the app uploads are reassembled, rendered for the panel and written to it over USB by a
  worker thread; presses travel the other way.

  \<^bold>\<open>Theories and sources\<close> (all paths under \<^verbatim>\<open>src/ts/src/\<close>), bottom up.

  \<^item> \<^bold>\<open>Vocabulary.\<close> \<open>Prelude\<close> (bytes, JavaScript's reading of numbers, insertion-ordered
  maps, chunking), \<open>Buffer_Shim\<close> (\<^verbatim>\<open>platform/buffer-shim.ts\<close>), \<open>Js_Values\<close> (JSON values and how
  the program reads them), \<open>Step_Ops\<close> (operations that may throw half way, with the refinement
  relation between two of them), \<open>Acts\<close> (operations that change a state and report effects).

  \<^item> \<^bold>\<open>The CORA protocol.\<close> \<open>Cora_Protocol\<close> (constants), \<open>Cora_Frame\<close> (codec and incremental reader;
  the locale \<open>prefix_codec\<close> states what a reader needs of a codec), \<open>Cora_Responses\<close> (reports),
  \<open>Image_Assembler\<close> (reassembly under a shared byte budget).

  \<^item> \<^bold>\<open>The servers.\<close> \<open>Cora_Server\<close> is the base class with the locale \<open>server_hooks\<close> for what a
  subclass provides; \<open>Child_Server\<close>, \<open>Child_Reconnector\<close> and \<open>Primary_Server\<close> provide it.
  \<open>Child_Session\<close> closes the child server with its sockets as a transition relation,
  \<open>Child_Upload\<close> follows an upload from TCP reads to the finished image, and \<open>Cora_Dock\<close> puts the two
  servers, the pairing watchdog and the application of a model together.

  \<^item> \<^bold>\<open>The devices.\<close> \<open>Hid_Framing\<close> (Elgato's two report framings, locale \<open>chunk_framing\<close>),
  \<open>Hid_Descriptor\<close> (report-descriptor and JPEG walkers), \<open>Mirabox\<close>, \<open>Akp05\<close> and \<open>Elgato\<close> (packets,
  the WebHID core and the desktop driver of each family), \<open>Device_Catalog\<close>, \<open>Catalog_Check\<close> and
  \<open>Catalog_Facts\<close> (every shipped model, the checks, and what a clean verdict is worth).

  \<^item> \<^bold>\<open>Rendering and USB workers.\<close> \<open>Image_Hash\<close>, \<open>Image_Cache\<close> (locale \<open>value_cache\<close>), \<open>Image_Render\<close>
  (key maps, transform, BMP slices, strip canvas), \<open>Work_Queue\<close> (admission, credits, coalescing),
  \<open>Worker_Host\<close> (the main thread's proxy), \<open>Hid_Worker\<close> (the thread), \<open>Worker_System\<close> (both, with the
  messages between them) and \<open>Coalescing\<close> (dropping superseded images cannot be seen).

  \<^item> \<^bold>\<open>Care of the panel.\<close> \<open>Standby_Policy\<close> and \<open>Dock_Standby\<close> (dimming, switching off, the standby
  clock), \<open>Page_Match\<close> and \<open>Page_Tracker\<close> (which saved page of the app is on the deck).

  \<^item> \<^bold>\<open>Docks and their units.\<close> \<open>Dock_Scanner\<close> (\<^verbatim>\<open>main/dock-scanner.ts\<close>, \<^verbatim>\<open>main/worker-pool.ts\<close>: which
  further units become docks, and the USB workers they use), \<open>Driver_Manager\<close>
  (\<^verbatim>\<open>main/driver-manager.ts\<close> and its pacing: the primary unit, its search and the shutdown, over the
  scanner), \<open>Auto_Restart\<close> (\<^verbatim>\<open>main/elgato-auto-restart.ts\<close>).

  \<^item> \<^bold>\<open>The deck in a browser.\<close> \<open>Access_Tokens\<close> (\<^verbatim>\<open>infra/push-tokens.ts\<close>, \<^verbatim>\<open>web/server/push-*.ts\<close>,
  \<^verbatim>\<open>web/server/web-request-guard.ts\<close>, \<^verbatim>\<open>web/server/virtual-deck/pairing-codes.ts\<close> and \<^verbatim>\<open>deck-auth.ts\<close>:
  tokens, rate limits, pairing), \<open>Deck_Hub\<close> (the other files of \<^verbatim>\<open>web/server/virtual-deck/\<close> with
  logic of their own: held keys, frame queues, sessions and the hub), \<open>Push_Channels\<close> (\<^verbatim>\<open>shared/push-text.ts\<close> and
  \<^verbatim>\<open>shared/push-channels.ts\<close>: the text a push may show and the store of its channels).

  \<^bold>\<open>How code becomes definitions.\<close> A class is a record, a handler a function from the state
  to the state and what it does to the outside: bytes written, sockets destroyed, events emitted,
  messages posted, hooks run.  Clocks, settings, answers of the operating system and of native
  libraries are arguments, and may differ from call to call; a timer is a field of the state, its
  callback an operation of its own.  Errors are values (an option, a sum, or the first component of
  a step that may throw).  Integers are words where the code masks them and int or nat where it
  cannot leave the range a JavaScript number holds exactly.  Definitions keep the names of the code.

  \<^bold>\<open>What the lemmas show.\<close>
  \<^item> On the wire: a stream of encoded frames comes out of the reader whole and in order however
    TCP cuts it, garbage is skipped to the next magic, framed images reassemble, boundary padding
    survives the devices that drop bytes.
  \<^item> Invariants of every reachable state, by induction over steps: the assembly budget, the
    child server with its sockets, the reconnector, the mDNS advertisement, the work queue and its
    credits, the settled promises of the worker proxy, the standby controller and its panel, the
    scanner's claims, indices and workers, the manager's one search for a deck, the sessions of the
    browser deck and the keys they hold.
  \<^item> Equivalences and refinements: the desktop drivers refine the WebHID cores, cached rendering
    equals rendering anew, coalescing is unobservable.
  \<^item> Progress: queues drain, pauses end, every message is acknowledged, no frame is forgotten by
    the page tracker, an input wakes the panel, a silent page lets its keys go, the newest frame of
    every key reaches a page that acknowledges.
  \<^item> Access: a shutdown or a stop is final for what was under way, a page gets in only with a token
    of the deck, a pairing serves one browser, and guesses that do not overlap are throttled; the
    bounds come from a credit that falls with every token taken from a bucket.

  \<^bold>\<open>Termination and bounds.\<close> No definition carries fuel.  Loops are structural recursions or
  functions with a measure: the bytes left to read, the assemblies still live, the models not yet
  visited, the distance of the clock's step to the next coprime number, the doublings left until
  the scratch buffer reaches its cap.  The only loop that may run forever on some header sizes
  (framing with an empty payload) is a partial function, and the lemmas about it give the result.

  \<^bold>\<open>Findings.\<close> \<open>Cora_Dock.physical_serial_sticks\<close>: the physical serial number a model brings
  stays in the shared configuration when the next model does not bring one.
  \<open>Driver_Manager.one_unit_opened_twice\<close>: the search for the primary does not see the unit the
  scanner is opening, so that both can drive it.  \<open>Deck_Hub.revoked_page_admitted\<close>: a token revoked
  while it is being verified still lets its page in.  \<open>Access_Tokens.parallel_guesses_unthrottled\<close>
  and \<open>tokens_beyond_max\<close>: a check before an await and its effect after it let overlapping requests
  exceed the throttle and the number of tokens.  \<open>Auto_Restart.restarted_twice\<close> and
  \<open>countdown_left_behind\<close>: a dock that connects while a grace period is being decided leads to a
  second restart, or to a countdown nobody withdraws.

  \<^bold>\<open>Not modelled.\<close> The browser UI, the demo site and the developer probes (rendering and mocks);
  the bindings to hidapi, the image library and the native mDNS service, which are parameters here;
  the plugin and extension workers (user code behind the runtime's worker API); the settings store,
  the HTTP routes and the WebSocket server of the browser deck; widgets, extra keys and encoders; log files, tray and start-up wiring.  Of what is modelled, log lines, traces and performance counters are left out.
\<close>

section \<open>From a gen2 writer to the image assembler\<close>

text \<open>The packets of a framed image, as the assembler reads them.\<close>

fun packets_of :: "nat \<Rightarrow> nat \<Rightarrow> bytes list \<Rightarrow> nat list \<Rightarrow> (bytes \<times> bytes \<times> bytes \<times> nat) list" where
  "packets_of L part (b # bs) (t # ts) =
     ([byte_of part 0, byte_of part 8], b, alloc (L - 8 - length b), t) # packets_of L (Suc part) bs ts"
| "packets_of L part _ _ = []"

lemma framed_packets:
  assumes "length ts = length bs" "\<forall>b\<in>set bs. 8 + length b \<le> L"
  shows "zip (framed (gen2_header k) 8 L part bs) ts = gen2_packets (of_nat k) (packets_of L part bs ts)"
  using assms
proof (induction L part bs ts rule: packets_of.induct)
  case (1 L part b bs t ts)
  have L: "8 + length b \<le> L" using 1(3) by simp
  then have "alloc (L - 8) = alloc (length b) @ alloc (L - 8 - length b)"
    using replicate_add[of "length b" "L - 8 - length b" "0 :: byte"] by simp
  then have "set_at (gen2_header k (alloc L) part l (length b)) 8 b
      = gen2_packet (of_nat k) l [byte_of part 0, byte_of part 8] b (alloc (L - 8 - length b))" for l
    using L by (simp add: gen2_header_eq set_at_def gen2_packet_def add.commute[of 8] drop_drop[symmetric])
  moreover have "packets_of L (Suc part) bs ts = [] \<longleftrightarrow> bs = []" using 1(2) by (cases bs; cases ts) simp_all
  ultimately show ?case using 1 by simp
qed simp_all

lemma packets_of_facts:
  assumes "length ts = length bs"
  shows "map body_of (packets_of L part bs ts) = bs"
    "length (packets_of L part bs ts) = length bs"
    "p \<in> set (packets_of L part bs ts) \<Longrightarrow> length (fst p) = 2 \<and> body_of p \<in> set bs"
  using assms by (induction L part bs ts rule: packets_of.induct) auto

section \<open>Properties across components\<close>

text \<open>C14. What one side writes the other side reads: an image that the gen2 framing cuts into
reports, received as the packets of one connection at whatever times and among whatever other half
assembled images, comes out of the assembler as exactly that image for that key, once.\<close>

theorem written_image_reassembles:
  assumes "inv s" "page_at s (own, int k) = None" "k < 256" "img \<noteq> []"
    and "8 < length scratch" "length scratch \<le> 65536"
    and "length img \<le> 1048576" "length img div (length scratch - 8) < 4096"
    and "gen2WriteImage k img scratch = Some ps" "length ts = length ps"
  shows "snd (assemble_run s own (zip ps ts)) = [\<lparr> ie_key = int k, ie_data = img, ie_format = Jpeg \<rparr>]"
proof -
  let ?n = "length scratch - 8" and ?L = "length scratch"
  let ?bs = "chop ?n img"
  have n: "0 < ?n" using assms(5) by simp
  have ps: "ps = framed (gen2_header k) 8 ?L 0 ?bs"
    using assms(5,9) gen2.write_chunks_eq[of scratch img k] by (simp add: gen2WriteImage_def)
  then have ts: "length ts = length ?bs" using assms(10) by (simp add: framed_count)
  have fit: "\<forall>b\<in>set ?bs. 8 + length b \<le> ?L" using chop_lengths[of ?n _ img] n by fastforce
  let ?es = "packets_of ?L 0 ?bs ts"
  note es = packets_of_facts[OF ts, where L = ?L and part = 0]
  have z: "zip ps ts = gen2_packets (of_nat k) ?es" unfolding ps by (rule framed_packets[OF ts fit])
  have u: "uint (of_nat k :: byte) = int k" using assms(3) by (simp add: unsigned_of_nat take_bit_nat_eq_self)
  have old: "old_page s (own, int k) = \<lparr> chunks = [], abytes = 0 \<rparr>" using assms(2) by (simp add: old_page_def)
  have ne: "\<forall>b\<in>set ?es. length (fst b) = 2 \<and> body_of b \<noteq> [] \<and> length (body_of b) < 65536"
  proof
    fix b
    assume b: "b \<in> set ?es"
    then have m: "length (fst b) = 2" "body_of b \<in> set ?bs" using es(3) by blast+
    then show "length (fst b) = 2 \<and> body_of b \<noteq> [] \<and> length (body_of b) < 65536"
      using chop_lengths[OF n m(2)] assms(4-6) by linarith
  qed
  have c: "List.concat (map body_of ?es) = img" unfolding es(1) by (rule concat_chop)
  have "sum_list (map (length \<circ> body_of) ?es) = length img"
    using arg_cong[OF c, of length] by (simp only: length_concat map_map)
  moreover have "length ?es \<le> 4096" using chop_count[OF n, of img] assms(8) by (simp add: es(2))
  moreover have "?es \<noteq> []" using c assms(4) by auto
  ultimately show ?thesis
    using gen2_run[of s ?es own "of_nat k"] assms(1,7) ne unfolding u old z by (auto simp: c)
qed

lemma empty_page [simp]: "page_at empty_assembler x = None"
  by (cases x) (simp add: page_at_def empty_assembler_def)

theorem written_image_reassembles_witness:
  "\<exists>ps. gen2WriteImage 7 [1, 2, 3] (alloc 10) = Some ps \<and> length ps = 2
    \<and> snd (assemble_run empty_assembler ImagePages (zip ps [5, 6]))
      = [\<lparr> ie_key = 7, ie_data = [1, 2, 3], ie_format = Jpeg \<rparr>]"
proof -
  let ?ps = "framed (gen2_header 7) 8 10 0 (chop 2 [1, 2, 3])"
  have ps: "gen2WriteImage 7 [1, 2, 3] (alloc 10) = Some ?ps"
    using gen2.write_chunks_eq[of "alloc 10" "[1, 2, 3]" 7] by (simp add: gen2WriteImage_def)
  have "length ?ps = 2" by (simp add: framed_count chop.simps)
  then show ?thesis
    using written_image_reassembles[OF empty_inv _ _ _ _ _ _ _ ps, of ImagePages "[5, 6]"] ps by simp
qed

end
